(* ===== verification/Prelude.thy ===== *)
theory Prelude
  imports Main "HOL-Library.Word"
begin

text \<open>
  Shared vocabulary of the development: the fixed-width integers of the C++ source, the ways a
  run of the program can stop short of a result, the result type that carries them, and the
  integer templates of \<^verbatim>\<open>sim_ooo/helper.hh\<close> (bit tests, byte swaps, powers of two), with the
  lemmas on words the components share.

  Integers keep their width: \<open>u8\<close>, \<open>u16\<close>, \<open>u32\<close>, \<open>u64\<close> are the unsigned types, and a signed
  type of the same width is the same word read through \<open>sint\<close>; \<open>+\<close>, \<open>-\<close> and \<open>*\<close> wrap, which is
  two's complement for both.  A shift by the width or more is undefined in C++ and is the
  result \<open>Undefined\<close> here.
\<close>

unbundle bit_operations_syntax

type_synonym u8 = "8 word"
type_synonym u16 = "16 word"
type_synonym u32 = "32 word"
type_synonym u64 = "64 word"

section \<open>Results\<close>

text \<open>
  Why a run stops: \<open>Exit\<close> is a call of \<open>exit(-1)\<close> after a message, \<open>Die\<close> the macro
  \<open>die()\<close> or a call of \<open>abort()\<close>, \<open>AssertFail\<close> a failed \<open>assert\<close>, \<open>Undefined\<close> behaviour
  that C++ leaves undefined (an access outside an array or to a freed object, an oversized
  shift), \<open>Trap\<close> the arithmetic trap of the host (division overflow), and \<open>OutOfFuel\<close> the end
  of the bound put on a recursion that need not end.
\<close>

datatype halt = Exit | Die | AssertFail | Undefined | Trap | OutOfFuel

type_synonym 'a res = "halt + 'a"

named_theorems res_simps \<open>rewrite rules for results\<close>

definition rbind :: "'a res \<Rightarrow> ('a \<Rightarrow> 'b res) \<Rightarrow> 'b res" where
  "rbind r f = (case r of Inl e \<Rightarrow> Inl e | Inr x \<Rightarrow> f x)"

definition ensure :: "halt \<Rightarrow> bool \<Rightarrow> 'a res \<Rightarrow> 'a res" where
  "ensure e b r = (if b then r else Inl e)"

lemma rbind_simps [simp]:
  "rbind (Inl e) f = Inl e"
  "rbind (Inr x) f = f x"
  by (simp_all add: rbind_def)

lemma rbind_Inr_iff [res_simps]: "rbind r f = Inr y \<longleftrightarrow> (\<exists>x. r = Inr x \<and> f x = Inr y)"
  by (cases r) auto

lemma rbind_Inl_iff [res_simps]:
  "rbind r f = Inl e \<longleftrightarrow> r = Inl e \<or> (\<exists>x. r = Inr x \<and> f x = Inl e)"
  by (cases r) auto

lemma ensure_simps [simp]:
  "ensure e True r = r"
  "ensure e False r = Inl e"
  by (simp_all add: ensure_def)

lemma ensure_Inr_iff [res_simps]: "ensure e b r = Inr y \<longleftrightarrow> b \<and> r = Inr y"
  by (simp add: ensure_def)

lemma ensure_cong [cong]: "b = b' \<Longrightarrow> (b' \<Longrightarrow> r = r') \<Longrightarrow> ensure e b r = ensure e b' r'"
  by (simp add: ensure_def)

lemma rbind_assoc: "rbind (rbind r f) g = rbind r (\<lambda>x. rbind (f x) g)"
  by (cases r) auto

text \<open>Array elements are read and written within the bounds of the array.\<close>

definition nth_res :: "'a list \<Rightarrow> nat \<Rightarrow> 'a res" where
  "nth_res xs i = ensure Undefined (i < length xs) (Inr (xs ! i))"

definition put_res :: "'a list \<Rightarrow> nat \<Rightarrow> 'a \<Rightarrow> 'a list res" where
  "put_res xs i v = ensure Undefined (i < length xs) (Inr (xs[i := v]))"

section \<open>Bit templates of helper.hh\<close>

definition extractBit :: "'a::len word \<Rightarrow> nat \<Rightarrow> bool res" where
  "extractBit x b = ensure Undefined (b < LENGTH('a)) (Inr (drop_bit b x AND 1 \<noteq> 0))"

definition setBit :: "'a::len word \<Rightarrow> bool \<Rightarrow> nat \<Rightarrow> 'a word res" where
  "setBit x v b = ensure Undefined (b < LENGTH('a))
     (let vv = (if v then 1 else 0);
          t = push_bit b (1 :: 'a word);
          tt = NOT t AND x;
          t' = t AND NOT (vv - 1)
      in Inr (tt OR t'))"

text \<open>
  Bytes of a word, and the words a little-endian host reads from bytes at ascending addresses.
  The byte swaps are the compiler's \<^verbatim>\<open>__builtin_bswap\<close> functions.
\<close>

definition byte :: "nat \<Rightarrow> 'a::len word \<Rightarrow> u8" where
  "byte i x = ucast (drop_bit (8 * i) x)"

definition le16 :: "u8 \<Rightarrow> u8 \<Rightarrow> u16" where
  "le16 b0 b1 = ucast b0 OR push_bit 8 (ucast b1)"

definition le32 :: "u8 \<Rightarrow> u8 \<Rightarrow> u8 \<Rightarrow> u8 \<Rightarrow> u32" where
  "le32 b0 b1 b2 b3 =
     ucast b0 OR push_bit 8 (ucast b1) OR push_bit 16 (ucast b2) OR push_bit 24 (ucast b3)"

definition le64 :: "u32 \<Rightarrow> u32 \<Rightarrow> u64" where
  "le64 l h = ucast l OR push_bit 32 (ucast h)"

definition lo32 :: "u64 \<Rightarrow> u32" where
  "lo32 x = ucast x"

definition hi32 :: "u64 \<Rightarrow> u32" where
  "hi32 x = ucast (drop_bit 32 x)"

definition bswap16 :: "u16 \<Rightarrow> u16" where
  "bswap16 x = le16 (byte 1 x) (byte 0 x)"

definition bswap32 :: "u32 \<Rightarrow> u32" where
  "bswap32 x = le32 (byte 3 x) (byte 2 x) (byte 1 x) (byte 0 x)"

definition bswap64 :: "u64 \<Rightarrow> u64" where
  "bswap64 x = le64 (bswap32 (hi32 x)) (bswap32 (lo32 x))"

definition isPow2 :: "'a::len word \<Rightarrow> bool" where
  "isPow2 x \<longleftrightarrow> (x - 1) AND x = 0"

definition mod_h :: "'a::len word \<Rightarrow> 'a word \<Rightarrow> 'a word res" where
  "mod_h x y = (if isPow2 y then Inr (x AND (y - 1))
     else ensure Trap (y \<noteq> 0) (Inr (x mod y)))"

text \<open>
  The loop of \<open>ln2\<close> doubles \<open>y\<close> until it reaches \<open>x\<close>; above \<open>2\<^sup>6\<^sup>3\<close> the doubling wraps to
  zero and the loop does not end, so its model is partial.
\<close>

partial_function (option) ln2_loop :: "u64 \<Rightarrow> u64 \<Rightarrow> u64 \<Rightarrow> u64 option" where
  "ln2_loop x y l = (if y < x then ln2_loop x (y * 2) (l + 1) else Some l)"

definition ln2 :: "u64 \<Rightarrow> u64 option" where
  "ln2 x = ln2_loop x 1 0"

section \<open>Lemmas on words\<close>

lemma byte_le16 [simp]:
  "byte 0 (le16 b0 b1) = b0" "byte 1 (le16 b0 b1) = b1" "byte (Suc 0) (le16 b0 b1) = b1"
  unfolding byte_def le16_def
    by ((rule bit_word_eqI, auto simp: bit_simps dest: bit_imp_le_length)[1])+

lemma byte_le32 [simp]:
  "byte 0 (le32 b0 b1 b2 b3) = b0" "byte 1 (le32 b0 b1 b2 b3) = b1" "byte (Suc 0) (le32 b0 b1 b2 b3) = b1"
  "byte 2 (le32 b0 b1 b2 b3) = b2" "byte 3 (le32 b0 b1 b2 b3) = b3"
  unfolding byte_def le32_def
    by ((rule bit_word_eqI, auto simp: bit_simps dest: bit_imp_le_length)[1])+

lemma le16_byte [simp]: "le16 (byte 0 x) (byte (Suc 0) x) = x" "le16 (byte 0 x) (byte 1 x) = x"
  unfolding byte_def le16_def
    by ((rule bit_word_eqI, auto simp: bit_simps dest: bit_imp_le_length)[1])+

lemma le32_byte [simp]: "le32 (byte 0 x) (byte (Suc 0) x) (byte 2 x) (byte 3 x) = x" 
proof (rule bit_word_eqI)
  fix n assume "n < LENGTH(32)"
  then consider "n < 8" | "8 \<le> n" "n < 16" | "16 \<le> n" "n < 24" | "24 \<le> n" "n < 32"
    by force
  then show "bit (le32 (byte 0 x) (byte (Suc 0) x) (byte 2 x) (byte 3 x)) n = bit x n"
    by cases (auto simp: byte_def le32_def bit_simps dest: bit_imp_le_length)
qed

lemma lohi_le64 [simp]: "lo32 (le64 l h) = l" "hi32 (le64 l h) = h" "le64 (lo32 x) (hi32 x) = x"
  unfolding le64_def lo32_def hi32_def
    by ((rule bit_word_eqI, auto simp: bit_simps dest: bit_imp_le_length)[1])+

lemma bswap16_bswap16 [simp]: "bswap16 (bswap16 x) = x" by (simp add: bswap16_def)

lemma bswap32_bswap32 [simp]: "bswap32 (bswap32 x) = x" by (simp add: bswap32_def)

lemma bswap64_bswap64 [simp]: "bswap64 (bswap64 x) = x" by (simp add: bswap64_def)

lemma and_mask: "x AND (2 ^ k - 1 :: 'a::len word) = take_bit k x"
  by (simp add: take_bit_eq_mask mask_eq_exp_minus_1)

lemma unat_exp:
  assumes "k < LENGTH('a)"
  shows "unat (2 ^ k :: 'a::len word) = 2 ^ k"
proof -
  have "(2::nat) ^ k < 2 ^ LENGTH('a)" using assms by (intro power_strict_increasing) auto
  then have "unat (of_nat (2 ^ k) :: 'a word) = 2 ^ k"
    by (simp only: unsigned_of_nat take_bit_nat_eq_self of_nat_id)
  then show ?thesis by simp
qed

lemma unat_take_bit: "unat (take_bit k x) = unat x mod 2 ^ k" for x :: "'a::len word"
  by (simp only: unsigned_take_bit_eq take_bit_nat_def)

lemma unat_and_pow2: "unat (x AND (2 ^ k - 1) :: 'a::len word) = unat x mod 2 ^ k"
  by (simp only: and_mask unat_take_bit)

lemma take_bit_exp_self [simp]: "take_bit k (2 ^ k :: 'a::len word) = 0"
  by (rule bit_word_eqI) (auto simp: bit_take_bit_iff bit_exp_iff)

lemma take_bit_add_left:
  fixes x y :: "'a::len word"
  assumes "k \<le> LENGTH('a)"
  shows "take_bit k (take_bit k x + y) = take_bit k (x + y)"
proof -
  have "(unat x mod 2 ^ k + unat y) mod 2 ^ LENGTH('a) mod 2 ^ k = (unat x + unat y) mod 2 ^ LENGTH('a) mod 2 ^ k"
    using assms by (simp only: mod_mod_cancel le_imp_power_dvd mod_add_left_eq)
  then show ?thesis by (simp only: word_unat_eq_iff unat_take_bit unat_word_ariths)
qed

lemma unat_pred_mask:
  assumes "k < LENGTH('a)"
  shows "unat ((x - 1) AND (2 ^ k - 1) :: 'a::len word) = (unat x + 2 ^ k - 1) mod 2 ^ k"
proof -
  have "take_bit k (x - 1) = take_bit k ((x - 1) + 2 ^ k)"
    using take_bit_add_left[of k "2 ^ k" "x - 1"] assms by (simp add: add.commute)
  also have "(x - 1) + 2 ^ k = x + (2 ^ k - 1)" by simp
  finally have "unat ((x - 1) AND (2 ^ k - 1)) = unat (x + (2 ^ k - 1)) mod 2 ^ k"
    by (simp only: and_mask unat_take_bit)
  also have "unat (2 ^ k - 1 :: 'a word) = 2 ^ k - 1"
  proof -
    have "(2 ^ k :: 'a word) \<noteq> 0" using assms by simp
    then show ?thesis by (simp add: unat_minus_one unat_exp[OF assms])
  qed
  then have "unat (x + (2 ^ k - 1)) mod 2 ^ k = (unat x + (2 ^ k - 1)) mod 2 ^ k"
    using assms by (simp add: unat_word_ariths mod_mod_cancel le_imp_power_dvd)
  finally show ?thesis by simp
qed

lemma mod_add_left_cancel:
  "(r + i) mod c = (r + j) mod c \<longleftrightarrow> i mod c = j mod c" for r i j c :: nat
proof -
  have "int ((r + i) mod c) = int ((r + j) mod c) \<longleftrightarrow> int (i mod c) = int (j mod c)"
    by (simp only: of_nat_mod of_nat_add mod_eq_dvd_iff add_diff_cancel_left)
  then show ?thesis by (simp only: of_nat_eq_iff)
qed

lemma isPow2_exp: "isPow2 (2 ^ k :: 'a::len word)"
  unfolding isPow2_def by (subst and.commute) (simp add: and_mask)

lemma nat_and_pred: fixes n :: nat shows "0 < n \<Longrightarrow> n AND (n - 1) = 0 \<Longrightarrow> \<exists>k. n = 2 ^ k"
proof (induction n rule: less_induct)
  case (less n)
  show ?case
  proof (cases "even n")
    case True
    then obtain m where m: "n = 2 * m" by auto
    with less.prems have m0: "0 < m" by simp
    have "n AND (n - 1) = 2 * (m AND (m - 1))"
      using m m0 by (subst and_rec) (auto simp: div2_Suc_Suc intro!: arg_cong2[where f="(AND)"])
    with less.IH[of m] m0 m less.prems(2) obtain k where "m = 2 ^ k" by auto
    then show ?thesis using m by (auto intro: exI[of _ "Suc k"])
  next
    case False
    then obtain m where m: "n = Suc (2 * m)" by (metis oddE Suc_eq_plus1)
    have "n AND (n - 1) = 2 * m"
      using m by (subst and_rec) simp
    then have "m = 0" using less.prems by simp
    then show ?thesis using m by (auto intro: exI[of _ 0])
  qed
qed

lemma isPow2_iff:
  assumes "x \<noteq> 0"
  shows "isPow2 (x :: 'a::len word) \<longleftrightarrow> (\<exists>k < LENGTH('a). x = 2 ^ k)"
proof
  assume "isPow2 x"
  then have "unat (x AND (x - 1)) = 0" by (simp add: isPow2_def and.commute)
  then have "unat x AND (unat x - 1) = 0"
    using assms by (simp add: unsigned_and_eq unat_minus_one)
  moreover have "0 < unat x" using assms by (simp add: unat_gt_0)
  ultimately obtain k where k: "unat x = 2 ^ k" using nat_and_pred by blast
  have "k < LENGTH('a)"
    using k unsigned_less[of x, where ?'a = nat] by simp
  moreover have "x = of_nat (unat x)" by simp
  then have "x = 2 ^ k" using k by simp
  ultimately show "\<exists>k < LENGTH('a). x = 2 ^ k" by blast
qed (auto intro: isPow2_exp)

lemma mod_h_eq_mod:
  assumes "y \<noteq> 0"
  shows "mod_h x y = Inr (x mod y)"
proof (cases "isPow2 y")
  case True
  then obtain k where k: "k < LENGTH('a)" "y = 2 ^ k" using assms isPow2_iff by blast
  have "x AND (y - 1) = x mod y"
    using k by (simp add: and_mask take_bit_eq_mod)
  then show ?thesis using True by (simp add: mod_h_def)
qed (use assms in \<open>simp add: mod_h_def\<close>)

lemma ln2_loop_Some:
  assumes "unat y = 2 ^ k" "k \<le> 63" "unat x \<le> 2 ^ 63"
  shows "\<exists>n. ln2_loop x y l = Some (l + of_nat n) \<and> unat x \<le> 2 ^ (k + n) \<and>
    (n = 0 \<or> 2 ^ (k + n - 1) < unat x) \<and> k + n \<le> 63"
  using assms
proof (induction "63 - k" arbitrary: k y l)
  case 0
  then have "k = 63" by simp
  with 0 have "\<not> y < x" by (simp add: word_less_nat_alt)
  then show ?case using 0 \<open>k = 63\<close> 
    by (intro exI[of _ 0]) (simp add: ln2_loop.simps word_less_nat_alt)
next
  case (Suc m)
  show ?case
  proof (cases "y < x")
    case True
    then have lt: "2 ^ k < unat x" using Suc.prems by (simp add: word_less_nat_alt)
    have k: "k < 63" using Suc.hyps by simp
    have "(2::nat) ^ Suc k < 2 ^ 64" using k by (intro power_strict_increasing) auto
    then have "unat (y * 2) = 2 ^ Suc k"
      using Suc.prems(1) by (auto simp: unat_word_ariths)
    from Suc.hyps(1)[OF _ this, of "l + 1"] k Suc.hyps(2) Suc.prems obtain n where
      "ln2_loop x (y * 2) (l + 1) = Some (l + 1 + of_nat n)" "unat x \<le> 2 ^ (Suc k + n)"
      "n = 0 \<or> 2 ^ (Suc k + n - 1) < unat x" "Suc k + n \<le> 63" by fastforce
    then show ?thesis using True lt
      by (intro exI[of _ "Suc n"]) (auto simp: ln2_loop.simps[of x y] algebra_simps)
  next
    case False
    then show ?thesis using Suc.prems
      by (intro exI[of _ 0]) (simp add: ln2_loop.simps word_less_nat_alt)
  qed
qed

lemma ln2_ceil:
  assumes "1 \<le> x" "x \<le> 2 ^ 63"
  shows "\<exists>n. ln2 x = Some (of_nat n) \<and> unat x \<le> 2 ^ n \<and> (n = 0 \<or> 2 ^ (n - 1) < unat x) \<and> n \<le> 63"
proof -
  have "unat x \<le> 2 ^ 63" using assms(2) by (simp add: word_le_nat_alt)
  from ln2_loop_Some[of 1 0 x 0] this show ?thesis by (simp add: ln2_def)
qed

end
