(* ===== verification/Free_List.thy ===== *)
theory Free_List
  imports Prelude
begin

text \<open>
  The contract between a bit vector used as a free list and the units that allocate from it
  (the physical register files, the load and store tables, the scheduler ports): a lookup of
  the first free index, an operation that takes an index and one that gives it back.  The
  lemmas a client needs are proved here once, from the contract alone.
\<close>

locale free_list =
  fixes ok :: "'v \<Rightarrow> bool"
    and cap :: "'v \<Rightarrow> nat"
    and used :: "'v \<Rightarrow> nat set"
    and first_free :: "'v \<Rightarrow> int"
    and take_idx :: "'v \<Rightarrow> nat \<Rightarrow> 'v res"
    and give_idx :: "'v \<Rightarrow> nat \<Rightarrow> 'v res"
  assumes used_bound: "ok v \<Longrightarrow> used v \<subseteq> {..<cap v}"
    and first_free_cases:
      "ok v \<Longrightarrow> first_free v = -1 \<and> used v = {..<cap v} \<or>
         (\<exists>i. first_free v = int i \<and> i < cap v \<and> i \<notin> used v \<and> {..<i} \<subseteq> used v)"
    and take_idx_ok:
      "ok v \<Longrightarrow> i < cap v \<Longrightarrow>
         \<exists>v'. take_idx v i = Inr v' \<and> ok v' \<and> cap v' = cap v \<and> used v' = insert i (used v)"
    and give_idx_ok:
      "ok v \<Longrightarrow> i < cap v \<Longrightarrow>
         \<exists>v'. give_idx v i = Inr v' \<and> ok v' \<and> cap v' = cap v \<and> used v' = used v - {i}"
begin

lemma finite_used: "ok v \<Longrightarrow> finite (used v)"
  using used_bound finite_subset by blast

lemma first_free_neg_iff: "ok v \<Longrightarrow> first_free v = -1 \<longleftrightarrow> used v = {..<cap v}"
  using first_free_cases[of v] by force

lemma first_freeD: "ok v \<Longrightarrow> first_free v = int i \<Longrightarrow> i < cap v \<and> i \<notin> used v"
  using first_free_cases[of v] by auto

lemma first_free_exists:
  assumes "ok v" "card (used v) < cap v"
  obtains i where "first_free v = int i" "i < cap v" "i \<notin> used v"
  using first_free_cases[OF assms(1)] assms(2) by auto

text \<open>Taking the first free index and giving it back leaves the vector as it was.\<close>

lemma take_give:
  assumes "ok v" "first_free v = int i"
  obtains v1 v2 where "take_idx v i = Inr v1" "give_idx v1 i = Inr v2"
    "ok v2" "cap v2 = cap v" "used v2 = used v"
proof -
  have i: "i < cap v" "i \<notin> used v" using first_freeD[OF assms] by auto
  obtain v1 where v1: "take_idx v i = Inr v1" "ok v1" "cap v1 = cap v" "used v1 = insert i (used v)"
    using take_idx_ok[OF assms(1) i(1)] by blast
  obtain v2 where v2: "give_idx v1 i = Inr v2" "ok v2" "cap v2 = cap v1" "used v2 = used v1 - {i}"
    using give_idx_ok[of v1 i] v1 i by auto
  show thesis using v1 v2 i by (intro that[of v1 v2]) auto
qed

text \<open>With two indices free, two allocations in a row succeed and give two different indices.\<close>

lemma take_two:
  assumes "ok v" "card (used v) + 2 \<le> cap v"
  obtains i j v1 v2 where "first_free v = int i" "take_idx v i = Inr v1"
    "first_free v1 = int j" "take_idx v1 j = Inr v2"
    "i < cap v" "j < cap v" "i \<noteq> j" "i \<notin> used v" "j \<notin> used v"
    "ok v2" "cap v2 = cap v" "used v2 = used v \<union> {i, j}"
proof -
  obtain i where i: "first_free v = int i" "i < cap v" "i \<notin> used v"
    using first_free_exists[OF assms(1)] assms(2) by auto
  obtain v1 where v1: "take_idx v i = Inr v1" "ok v1" "cap v1 = cap v" "used v1 = insert i (used v)"
    using take_idx_ok[OF assms(1) i(2)] by blast
  have "card (used v1) < cap v1"
    using assms v1 i finite_used[OF assms(1)] by simp
  then obtain j where j: "first_free v1 = int j" "j < cap v1" "j \<notin> used v1"
    using first_free_exists[OF v1(2)] by auto
  obtain v2 where "take_idx v1 j = Inr v2" "ok v2" "cap v2 = cap v1" "used v2 = insert j (used v1)"
    using take_idx_ok[OF v1(2) j(2)] by blast
  then show thesis using i v1 j by (intro that[of i v1 j v2]) auto
qed

end

end
