(* ===== verification/Bitvec.thy ===== *)
theory Bitvec
  imports Free_List
begin

text \<open>
  \<^verbatim>\<open>sim_ooo/sim_bitvec.hh\<close>: the bit vector template over a word type \<open>E\<close>.  The element type is a
  type parameter here too (\<open>u8\<close> for the branch histories, \<open>u64\<close> for the free lists),
  so \<open>bpw\<close> is \<open>LENGTH('w)\<close>.  The members \<open>n_words\<close>, \<open>ln2_bits\<close> and \<open>last_bit\<close> are
  fixed by \<open>n_bits\<close> wherever the code sets them, and are computed from it: \<open>n_words\<close> is the
  length of the array and \<open>last_bit\<close> is \<open>n_bits - 1\<close>.  The third-party hash of the branch
  history is a parameter.
\<close>

record 'e bitvec =
  n_bits :: nat
  arr :: "'e list"

section \<open>Word scans\<close>

text \<open>The compiler builtins: the count of set bits, and one more than the least set index.\<close>

definition popcnt :: "'w::len word \<Rightarrow> nat" where
  "popcnt x = length (filter (bit x) [0..<LENGTH('w)])"

definition ffs :: "'w::len word \<Rightarrow> nat" where
  "ffs x = (case List.find (bit x) [0..<LENGTH('w)] of None \<Rightarrow> 0 | Some i \<Rightarrow> Suc i)"

section \<open>Operations\<close>

definition n_words_for :: "nat \<Rightarrow> nat \<Rightarrow> nat" where
  "n_words_for bpw n = (n + bpw - 1) div bpw"

definition new_bitvec :: "nat \<Rightarrow> 'w::len word bitvec" where
  "new_bitvec n = \<lparr>n_bits = n, arr = replicate (n_words_for LENGTH('w) n) 0\<rparr>"

definition clear_bv :: "'w::len word bitvec \<Rightarrow> 'w word bitvec" where
  "clear_bv v = v\<lparr>arr := replicate (length (arr v)) 0\<rparr>"

definition clear_and_resize :: "nat \<Rightarrow> 'w::len word bitvec \<Rightarrow> 'w word bitvec" where
  "clear_and_resize n v =
     v\<lparr>n_bits := n, arr := replicate (n_words_for LENGTH('w) n) 0\<rparr>"

definition copy_bv :: "'w::len word bitvec \<Rightarrow> 'w word bitvec \<Rightarrow> 'w word bitvec res" where
  "copy_bv v other = ensure AssertFail (n_bits v = n_bits other)
     (ensure AssertFail (length (arr v) = length (arr other)) (Inr (v\<lparr>arr := arr other\<rparr>)))"

definition get_bit :: "'w::len word bitvec \<Rightarrow> nat \<Rightarrow> bool res" where
  "get_bit v idx =
     (let w_idx = idx div LENGTH('w); b_idx = idx mod LENGTH('w)
      in ensure Undefined (w_idx < length (arr v)) (Inr (bit (arr v ! w_idx) b_idx)))"

fun eq_words :: "'w::len word list \<Rightarrow> 'w word list \<Rightarrow> bool" where
  "eq_words (x # xs) (y # ys) = (if x \<noteq> y then False else eq_words xs ys)"
| "eq_words _ _ = True"

definition eq_bv :: "'w::len word bitvec \<Rightarrow> 'w word bitvec \<Rightarrow> bool" where
  "eq_bv v other = (if n_bits v \<noteq> n_bits other \<or> length (arr v) \<noteq> length (arr other) then False
     else eq_words (arr v) (arr other))"

definition set_bit_bv :: "'w::len word bitvec \<Rightarrow> nat \<Rightarrow> 'w word bitvec res" where
  "set_bit_bv v idx = ensure Die (idx < n_bits v)
     (let w_idx = idx div LENGTH('w); b_idx = idx mod LENGTH('w)
      in ensure Undefined (w_idx < length (arr v))
           (Inr (v\<lparr>arr := (arr v)[w_idx := arr v ! w_idx OR push_bit b_idx 1]\<rparr>)))"

definition clear_bit :: "'w::len word bitvec \<Rightarrow> nat \<Rightarrow> 'w word bitvec res" where
  "clear_bit v idx = ensure AssertFail (idx < n_bits v)
     (let w_idx = idx div LENGTH('w); b_idx = idx mod LENGTH('w)
      in ensure Undefined (w_idx < length (arr v))
           (Inr (v\<lparr>arr := (arr v)[w_idx := arr v ! w_idx AND NOT (push_bit b_idx 1)]\<rparr>)))"

definition popcount :: "'w::len word bitvec \<Rightarrow> nat res" where
  "popcount v = ensure Die (LENGTH('w) * length (arr v) = n_bits v)
     (Inr (sum_list (map popcnt (arr v))))"

definition num_free :: "'w::len word bitvec \<Rightarrow> nat res" where
  "num_free v = rbind (popcount v) (\<lambda>c. Inr (n_bits v - c))"

fun ffu_from :: "nat \<Rightarrow> nat \<Rightarrow> 'w::len word list \<Rightarrow> int" where
  "ffu_from n w [] = -1"
| "ffu_from n w (x # xs) =
     (if x = NOT 0 then ffu_from n (Suc w) xs
      else if x = 0 then int (LENGTH('w) * w)
      else let idx = LENGTH('w) * w + (ffs (NOT x) - 1)
           in if idx < n then int idx else ffu_from n (Suc w) xs)"

definition find_first_unset :: "'w::len word bitvec \<Rightarrow> int" where
  "find_first_unset v = ffu_from (n_bits v) 0 (arr v)"

fun ffs_from :: "nat \<Rightarrow> nat \<Rightarrow> 'w::len word list \<Rightarrow> int" where
  "ffs_from n w [] = -1"
| "ffs_from n w (x # xs) =
     (if x = 0 then ffs_from n (Suc w) xs
      else let idx = LENGTH('w) * w + (ffs x - 1) in if idx < n then int idx else -1)"

definition find_first_set :: "'w::len word bitvec \<Rightarrow> int" where
  "find_first_set v = ffs_from (n_bits v) 0 (arr v)"

text \<open>The argument is the index before the first one considered, \<open>-1\<close> or more.\<close>

definition find_next_set :: "'w::len word bitvec \<Rightarrow> int \<Rightarrow> int res" where
  "find_next_set v idx0 =
     (let idx = nat (idx0 + 1); w_idx = idx div LENGTH('w); b_idx = idx mod LENGTH('w)
      in ensure Undefined (w_idx < length (arr v))
        (let ww = push_bit b_idx (drop_bit b_idx (arr v ! w_idx))
         in if ww \<noteq> 0 then Inr (int (w_idx * LENGTH('w) + (ffs ww - 1)))
            else Inr (ffs_from (n_bits v) (Suc w_idx) (drop (Suc w_idx) (arr v)))))"

fun rr_from :: "'w::len word bitvec \<Rightarrow> nat \<Rightarrow> nat \<Rightarrow> int res" where
  "rr_from v 0 b = Inr (-1)"
| "rr_from v (Suc k) b = rbind (get_bit v b)
     (\<lambda>t. if \<not> t then Inr (int b) else rr_from v k ((b + 1) mod n_bits v))"

definition find_first_unset_rr :: "'w::len word bitvec \<Rightarrow> int res" where
  "find_first_unset_rr v = rr_from v (n_bits v) (n_bits v - 1)"

text \<open>
  A scan for two adjacent free bits at an even index.  \<open>None\<close> is the fall through to the next
  word, \<open>Some\<close> a return from the function.
\<close>

fun pair_in_word :: "nat \<Rightarrow> nat \<Rightarrow> 'w::len word \<Rightarrow> nat list \<Rightarrow> int option" where
  "pair_in_word n w x [] = None"
| "pair_in_word n w x (b # bs) =
     (let p = LENGTH('w) * w + b
      in if n \<le> p then Some (-1)
         else if drop_bit b x AND 3 = 0 then Some (int p)
         else pair_in_word n w x bs)"

fun pair_from :: "nat \<Rightarrow> nat \<Rightarrow> 'w::len word list \<Rightarrow> int" where
  "pair_from n w [] = -1"
| "pair_from n w (x # xs) =
     (if x = NOT 0 then pair_from n (Suc w) xs
      else if x = 0 then int (LENGTH('w) * w)
      else let idx = 2 * ((ffs (NOT x) - 1) div 2)
           in case pair_in_word n w x (filter (\<lambda>b. even b \<and> idx \<le> b) [0..<LENGTH('w)]) of
                Some r \<Rightarrow> r | None \<Rightarrow> pair_from n (Suc w) xs)"

definition find_first_unset_pair :: "'w::len word bitvec \<Rightarrow> int" where
  "find_first_unset_pair v = pair_from (n_bits v) 0 (arr v)"

text \<open>
  The shift works from the top word down.  Shift counts are bounded by the width the operand
  is promoted to, which is 32 bits for an 8-bit word.
\<close>

fun shl_loop :: "nat \<Rightarrow> nat \<Rightarrow> 'w::len word list \<Rightarrow> 'w word list" where
  "shl_loop amt 0 a = a"
| "shl_loop amt (Suc i) a =
     (let wrap = drop_bit (LENGTH('w) - amt) (a ! i);
          a1 = a[Suc i := a ! Suc i OR wrap]
      in shl_loop amt i (a1[i := push_bit amt (a1 ! i)]))"

definition shift_left :: "'w::len word bitvec \<Rightarrow> nat \<Rightarrow> 'w word bitvec res" where
  "shift_left v amt =
     (let n = length (arr v); pw = max 32 LENGTH('w)
      in ensure Undefined (0 < n \<and> amt < pw)
        (ensure Undefined (1 < n \<longrightarrow> amt \<le> LENGTH('w) \<and> LENGTH('w) - amt < pw)
          (Inr (v\<lparr>arr := shl_loop amt (n - 1) ((arr v)[n - 1 := push_bit amt (arr v ! (n - 1))])\<rparr>))))"

definition to_integer :: "'w::len word bitvec \<Rightarrow> 'w word res" where
  "to_integer v = ensure Undefined (0 < length (arr v)) (Inr (arr v ! 0))"

definition hash_bv :: "(u64 \<Rightarrow> 'w word \<Rightarrow> u64) \<Rightarrow> 'w::len word bitvec \<Rightarrow> u64" where
  "hash_bv hash_combine v = foldl hash_combine 0 (arr v)"

section \<open>Bits of a word list\<close>

definition wbit :: "'w::len word list \<Rightarrow> nat \<Rightarrow> bool" where
  "wbit xs i \<longleftrightarrow> i div LENGTH('w) < length xs \<and> bit (xs ! (i div LENGTH('w))) (i mod LENGTH('w))"

definition used_bits :: "'w::len word bitvec \<Rightarrow> nat set" where
  "used_bits v = {i. i < n_bits v \<and> wbit (arr v) i}"

definition wf_bv :: "'w::len word bitvec \<Rightarrow> bool" where
  "wf_bv v \<longleftrightarrow> length (arr v) = n_words_for LENGTH('w) (n_bits v)
     \<and> (\<forall>i. wbit (arr v) i \<longrightarrow> i < n_bits v)"

lemma wbit_Nil [simp]: "\<not> wbit [] i"
  by (simp add: wbit_def)

lemma wbit_Cons: "wbit (x # xs) i = (if i < LENGTH('w) then bit x i else wbit xs (i - LENGTH('w)))"
  for x :: "'w::len word"
proof (cases "i < LENGTH('w)")
  case False
  then obtain j where "i = LENGTH('w) + j" using le_Suc_ex not_less by blast
  moreover have "(LENGTH('w) + j) div LENGTH('w) = Suc (j div LENGTH('w))"
    by (simp add: div_add_self1)
  ultimately show ?thesis by (simp add: wbit_def)
qed (simp add: wbit_def)

lemma wbit_replicate_0 [simp]: "\<not> wbit (replicate n (0 :: 'w::len word)) i"
  by (simp add: wbit_def)

lemma wbit_update:
  "w < length xs \<Longrightarrow> wbit (xs[w := y]) i =
     (if i div LENGTH('w) = w then bit y (i mod LENGTH('w)) else wbit xs i)"
  for xs :: "'w::len word list"
  by (auto simp: wbit_def nth_list_update)

lemma n_words_for_bounds:
  assumes "0 < b"
  shows "n \<le> b * n_words_for b n" "b * n_words_for b n < n + b"
proof -
  have "b * ((n + b - 1) div b) + (n + b - 1) mod b = n + b - 1" by simp
  moreover have "(n + b - 1) mod b < b" using assms by simp
  ultimately show "n \<le> b * n_words_for b n" "b * n_words_for b n < n + b"
    unfolding n_words_for_def using assms by linarith+
qed

lemma idx_in_words:
  assumes "i < n"
  shows "i div LENGTH('w::len) < n_words_for LENGTH('w) n"
proof -
  have "i < LENGTH('w) * n_words_for LENGTH('w) n"
    using assms n_words_for_bounds(1)[of "LENGTH('w)" n] by simp
  then show ?thesis by (simp add: less_mult_imp_div_less mult.commute)
qed

lemma wf_bvD:
  assumes "wf_bv (v :: 'w::len word bitvec)"
  shows "length (arr v) = n_words_for LENGTH('w) (n_bits v)" "wbit (arr v) i \<Longrightarrow> i < n_bits v"
  using assms by (auto simp: wf_bv_def)

lemma wf_new_bitvec [simp]: "wf_bv (new_bitvec n)"
  by (simp add: wf_bv_def new_bitvec_def)

lemma used_new_bitvec [simp]: "used_bits (new_bitvec n) = {}"
  by (simp add: used_bits_def new_bitvec_def)

lemma n_bits_new_bitvec [simp]: "n_bits (new_bitvec n) = n"
  by (simp add: new_bitvec_def)

lemma wf_clear_bv: "wf_bv v \<Longrightarrow> wf_bv (clear_bv v) \<and> used_bits (clear_bv v) = {} \<and> n_bits (clear_bv v) = n_bits v"
  by (simp add: wf_bv_def clear_bv_def used_bits_def)

lemma get_bit_wf:
  "wf_bv v \<Longrightarrow> i < n_bits v \<Longrightarrow> get_bit v i = Inr (i \<in> used_bits v)"
  for v :: "'w::len word bitvec"
  by (auto simp: get_bit_def used_bits_def wf_bv_def wbit_def Let_def idx_in_words)

lemma div_mod_eqI: "i div b = j div b \<Longrightarrow> i mod b = j mod b \<Longrightarrow> i = (j :: nat)"
  by (metis div_mult_mod_eq)

lemma set_bit_bv_wf:
  assumes "wf_bv (v :: 'w::len word bitvec)" "i < n_bits v"
  obtains v' where "set_bit_bv v i = Inr v'" "wf_bv v'" "n_bits v' = n_bits v"
    "used_bits v' = insert i (used_bits v)"
proof -
  define w where "w = i div LENGTH('w)"
  define v' where "v' = v\<lparr>arr := (arr v)[w := arr v ! w OR push_bit (i mod LENGTH('w)) 1]\<rparr>"
  have w: "w < length (arr v)" using assms idx_in_words by (simp add: w_def wf_bv_def)
  have bits: "wbit (arr v') j = (j = i \<or> wbit (arr v) j)" for j
    using w by (simp add: v'_def wbit_update) (auto simp: wbit_def w_def bit_simps dest: div_mod_eqI)
  show thesis
  proof
    show "set_bit_bv v i = Inr v'"
      using assms w by (simp add: set_bit_bv_def v'_def w_def Let_def)
    show "wf_bv v'" using assms bits by (auto simp: wf_bv_def v'_def)
    show "n_bits v' = n_bits v" by (simp add: v'_def)
    show "used_bits v' = insert i (used_bits v)"
      using assms bits by (auto simp: used_bits_def v'_def)
  qed
qed

lemma clear_bit_wf:
  assumes "wf_bv (v :: 'w::len word bitvec)" "i < n_bits v"
  obtains v' where "clear_bit v i = Inr v'" "wf_bv v'" "n_bits v' = n_bits v"
    "used_bits v' = used_bits v - {i}"
proof -
  define w where "w = i div LENGTH('w)"
  define v' where "v' = v\<lparr>arr := (arr v)[w := arr v ! w AND NOT (push_bit (i mod LENGTH('w)) 1)]\<rparr>"
  have w: "w < length (arr v)" using assms idx_in_words by (simp add: w_def wf_bv_def)
  have bits: "wbit (arr v') j = (j \<noteq> i \<and> wbit (arr v) j)" for j
    using w by (simp add: v'_def wbit_update) (auto simp: wbit_def w_def bit_simps dest: div_mod_eqI)
  show thesis
  proof
    show "clear_bit v i = Inr v'"
      using assms w by (simp add: clear_bit_def v'_def w_def Let_def)
    show "wf_bv v'" using assms bits by (auto simp: wf_bv_def v'_def)
    show "n_bits v' = n_bits v" by (simp add: v'_def)
    show "used_bits v' = used_bits v - {i}"
      using assms bits by (auto simp: used_bits_def v'_def)
  qed
qed

section \<open>Scans\<close>

lemma ffs_least:
  assumes "x \<noteq> (0 :: 'w::len word)"
  obtains i where "ffs x = Suc i" "i < LENGTH('w)" "bit x i" "\<And>j. j < i \<Longrightarrow> \<not> bit x j"
proof -
  obtain n where n: "bit x n" "n < LENGTH('w)"
    using assms bit_eq_iff[of x 0] bit_imp_le_length by fastforce
  then obtain i where i: "List.find (bit x) [0..<LENGTH('w)] = Some i"
    by (metis atLeast0LessThan find_None_iff lessThan_iff not_None_eq set_upt)
  then have "ffs x = Suc i" by (simp add: ffs_def)
  with i show thesis by (intro that[of i]) (auto simp: find_Some_iff)
qed

lemma ffu_from_spec:
  fixes xs :: "'w::len word list"
  assumes "n \<le> LENGTH('w) * (w + length xs)" "LENGTH('w) * (w + length xs) < n + LENGTH('w)"
  shows "ffu_from n w xs = -1 \<and> (\<forall>i. LENGTH('w) * w + i < n \<longrightarrow> wbit xs i) \<or>
    (\<exists>i. ffu_from n w xs = int (LENGTH('w) * w + i) \<and> LENGTH('w) * w + i < n \<and> \<not> wbit xs i
       \<and> (\<forall>j < i. wbit xs j))"
  using assms
proof (induction n w xs rule: ffu_from.induct)
  case (1 n w)
  then show ?case by auto
next
  case (2 n w x xs)
  define b where "b = LENGTH('w)"
  have b0: "0 < b" by (simp add: b_def)
  have step: ?case if r: "ffu_from n w (x # xs) = ffu_from n (Suc w) xs"
    and full: "\<And>i. i < b \<Longrightarrow> b * w + i < n \<Longrightarrow> bit x i"
    and more: "n \<le> b * w + b \<Longrightarrow> xs = []"
    and IH: "ffu_from n (Suc w) xs = -1 \<and> (\<forall>i. b * Suc w + i < n \<longrightarrow> wbit xs i) \<or>
    (\<exists>i. ffu_from n (Suc w) xs = int (b * Suc w + i) \<and> b * Suc w + i < n \<and> \<not> wbit xs i
       \<and> (\<forall>j < i. wbit xs j))"
    using IH
  proof
    assume *: "ffu_from n (Suc w) xs = -1 \<and> (\<forall>i. b * Suc w + i < n \<longrightarrow> wbit xs i)"
    have "wbit (x # xs) i" if "b * w + i < n" for i
      using * that full[of i] spec[of "\<lambda>i. b * Suc w + i < n \<longrightarrow> wbit xs i" "i - b"]
      by (auto simp: wbit_Cons b_def[symmetric] algebra_simps)
    then show ?thesis using * r by (simp add: b_def)
  next
    assume "\<exists>i. ffu_from n (Suc w) xs = int (b * Suc w + i) \<and> b * Suc w + i < n \<and> \<not> wbit xs i
       \<and> (\<forall>j < i. wbit xs j)"
    then obtain i where i: "ffu_from n (Suc w) xs = int (b * Suc w + i)" "b * Suc w + i < n"
      "\<not> wbit xs i" "\<And>j. j < i \<Longrightarrow> wbit xs j" by blast
    show ?thesis
      using i r full by (intro disjI2 exI[of _ "b + i"])
        (auto simp: wbit_Cons b_def[symmetric] algebra_simps)
  qed
  have len: "n \<le> b * (Suc w + length xs)" "b * (Suc w + length xs) < n + b"
    using 2(3,4) by (simp_all add: b_def)
  have more: "xs = []" if "n \<le> b * w + b"
  proof (rule ccontr)
    assume "xs \<noteq> []"
    then obtain k where "length xs = Suc k" by (cases xs) auto
    with len(2) that show False by (simp add: algebra_simps)
  qed
  consider "x = NOT 0" | "x \<noteq> NOT 0" "x = 0" | "x \<noteq> NOT 0" "x \<noteq> 0" by blast
  then show ?case
  proof cases
    case 1
    then show ?thesis
      using 2(1) len more by (intro step) (auto simp: b_def)
  next
    case 2
    have "b * w < n" using len by (simp add: algebra_simps)
    then show ?thesis using 2
      by (intro disjI2 exI[of _ 0]) (auto simp: wbit_Cons b_def)
  next
    case 3
    then have "NOT x \<noteq> 0" by (metis bit.double_compl)
    then obtain i where i: "ffs (NOT x) = Suc i" "i < b" "bit (NOT x) i" "\<And>j. j < i \<Longrightarrow> \<not> bit (NOT x) j"
      unfolding b_def using ffs_least by metis
    have ix: "\<not> bit x i" "\<And>j. j < i \<Longrightarrow> bit x j"
      using i by (auto simp: bit_not_iff b_def)
    show ?thesis
    proof (cases "b * w + i < n")
      case True
      then show ?thesis using 3 i ix
        by (intro disjI2 exI[of _ i]) (auto simp: wbit_Cons b_def)
    next
      case False
      then show ?thesis
        using 3 2(2) len more i ix
        by (intro step) (auto simp: b_def Let_def)
    qed
  qed
qed

lemma find_first_unset_cases:
  assumes "wf_bv (v :: 'w::len word bitvec)"
  shows "find_first_unset v = -1 \<and> used_bits v = {..<n_bits v} \<or>
     (\<exists>i. find_first_unset v = int i \<and> i < n_bits v \<and> i \<notin> used_bits v \<and> {..<i} \<subseteq> used_bits v)"
  using ffu_from_spec[of "n_bits v" 0 "arr v"] assms
    n_words_for_bounds[of "LENGTH('w)" "n_bits v"]
  by (auto simp: find_first_unset_def wf_bv_def used_bits_def)


lemma ffs_from_spec:
  fixes xs :: "'w::len word list"
  assumes "\<And>i. wbit xs i \<Longrightarrow> LENGTH('w) * w + i < n"
  shows "ffs_from n w xs = -1 \<and> (\<forall>i. \<not> wbit xs i) \<or>
    (\<exists>i. ffs_from n w xs = int (LENGTH('w) * w + i) \<and> wbit xs i \<and> (\<forall>j < i. \<not> wbit xs j))"
  using assms
proof (induction n w xs rule: ffs_from.induct)
  case (1 n w)
  then show ?case by simp
next
  case (2 n w x xs)
  show ?case
  proof (cases "x = 0")
    case True
    have tl: "wbit (x # xs) i = (LENGTH('w) \<le> i \<and> wbit xs (i - LENGTH('w)))" for i
      using True by (auto simp: wbit_Cons)
    have "wbit xs i \<Longrightarrow> LENGTH('w) * Suc w + i < n" for i
      using 2(2)[of "LENGTH('w) + i"] tl by (auto simp: algebra_simps)
    from 2(1)[OF True this] show ?thesis
    proof
      assume "\<exists>i. ffs_from n (Suc w) xs = int (LENGTH('w) * Suc w + i) \<and> wbit xs i \<and> (\<forall>j<i. \<not> wbit xs j)"
      then obtain i where "ffs_from n (Suc w) xs = int (LENGTH('w) * Suc w + i)" "wbit xs i"
        "\<forall>j<i. \<not> wbit xs j" by blast
      then show ?thesis using True tl
        by (intro disjI2 exI[of _ "LENGTH('w) + i"]) (auto simp: algebra_simps)
    qed (use True tl in auto)
  next
    case False
    then obtain i where i: "ffs x = Suc i" "i < LENGTH('w)" "bit x i" "\<And>j. j < i \<Longrightarrow> \<not> bit x j"
      using ffs_least by metis
    then have "LENGTH('w) * w + i < n" using 2(2)[of i] by (simp add: wbit_Cons)
    then show ?thesis using False i
      by (intro disjI2 exI[of _ i]) (auto simp: wbit_Cons)
  qed
qed

lemma find_first_set_cases:
  assumes "wf_bv (v :: 'w::len word bitvec)"
  shows "find_first_set v = -1 \<and> used_bits v = {} \<or>
    (\<exists>i. find_first_set v = int i \<and> i \<in> used_bits v \<and> (\<forall>j < i. j \<notin> used_bits v))"
  using ffs_from_spec[of "arr v" 0 "n_bits v"] assms
  by (auto simp: find_first_set_def wf_bv_def used_bits_def)

lemma wbit_drop: "wbit (drop k xs) i = wbit xs (LENGTH('w) * k + i)"
  for xs :: "'w::len word list"
  by (cases "k \<le> length xs") (auto simp: wbit_def nth_drop add.commute)

lemma find_next_set_cases:
  fixes v :: "'w::len word bitvec"
  assumes "wf_bv v" "-1 \<le> idx" "idx + 1 < int (LENGTH('w) * length (arr v))"
  shows "find_next_set v idx = Inr (-1) \<and> (\<forall>j. idx < int j \<longrightarrow> j \<notin> used_bits v) \<or>
    (\<exists>i. find_next_set v idx = Inr (int i) \<and> idx < int i \<and> i \<in> used_bits v
       \<and> (\<forall>j. idx < int j \<longrightarrow> j < i \<longrightarrow> j \<notin> used_bits v))"
proof -
  define k where "k = nat (idx + 1)"
  define W where "W = k div LENGTH('w)"
  define B where "B = k mod LENGTH('w)"
  define ww where "ww = push_bit B (drop_bit B (arr v ! W))"
  have k: "idx = int k - 1" using assms(2) by (simp add: k_def)
  have gt: "idx < int j \<longleftrightarrow> k \<le> j" for j using k by linarith
  have "k < LENGTH('w) * length (arr v)" using assms(3) k by linarith
  then have W: "W < length (arr v)"
    by (simp add: W_def less_mult_imp_div_less mult.commute)
  have kWB: "k = LENGTH('w) * W + B" by (simp add: W_def B_def)
  have B: "B < LENGTH('w)" by (simp add: B_def)
  have used: "j \<in> used_bits v \<longleftrightarrow> wbit (arr v) j" for j
    using wf_bvD(2)[OF assms(1)] by (auto simp: used_bits_def)
  have ww: "bit ww b \<longleftrightarrow> B \<le> b \<and> wbit (arr v) (LENGTH('w) * W + b)" if "b < LENGTH('w)" for b
    using that W B by (auto simp: ww_def bit_simps wbit_def)
  have eq: "find_next_set v idx = (if ww \<noteq> 0 then Inr (int (W * LENGTH('w) + (ffs ww - 1)))
            else Inr (ffs_from (n_bits v) (Suc W) (drop (Suc W) (arr v))))"
    using W by (simp add: find_next_set_def k_def[symmetric] W_def[symmetric] B_def[symmetric]
        ww_def[symmetric] Let_def)
  show ?thesis
  proof (cases "ww = 0")
    case False
    then obtain i where i: "ffs ww = Suc i" "i < LENGTH('w)" "bit ww i" "\<And>j. j < i \<Longrightarrow> \<not> bit ww j"
      using ffs_least by metis
    have "\<not> wbit (arr v) j" if "k \<le> j" "j < LENGTH('w) * W + i" for j
    proof -
      define c where "c = j - LENGTH('w) * W"
      have c: "j = LENGTH('w) * W + c" "B \<le> c" "c < i" using that kWB by (simp_all add: c_def)
      show ?thesis using c ww[of c] i by auto
    qed
    moreover have "B \<le> i" "wbit (arr v) (LENGTH('w) * W + i)" using i ww[of i] by auto
    moreover have "k \<le> LENGTH('w) * W + i" using \<open>B \<le> i\<close> kWB by simp
    moreover from this have "idx < int (LENGTH('w) * W + i)" by (simp only: gt)
    ultimately show ?thesis
      using eq False i
      by (intro disjI2 exI[of _ "LENGTH('w) * W + i"]) (auto simp: used gt mult.commute)
  next
    case True
    have low: "\<not> wbit (arr v) j" if "k \<le> j" "j < LENGTH('w) * Suc W" for j
    proof -
      define c where "c = j - LENGTH('w) * W"
      have c: "j = LENGTH('w) * W + c" "B \<le> c" using that kWB by (simp_all add: c_def)
      show ?thesis using c ww[of c] that True by auto
    qed
    have split: "j = LENGTH('w) * Suc W + (j - LENGTH('w) * Suc W)" if "LENGTH('w) * Suc W \<le> j" for j
      using that by simp
    have "wbit (drop (Suc W) (arr v)) i \<Longrightarrow> LENGTH('w) * Suc W + i < n_bits v" for i
      using wf_bvD(2)[OF assms(1)] by (simp add: wbit_drop)
    from ffs_from_spec[OF this] show ?thesis
    proof
      assume *: "ffs_from (n_bits v) (Suc W) (drop (Suc W) (arr v)) = - 1 \<and>
        (\<forall>i. \<not> wbit (drop (Suc W) (arr v)) i)"
      have "\<not> wbit (arr v) j" if "k \<le> j" for j
        using low[OF that] * split[of j] by (metis not_le wbit_drop)
      then show ?thesis using eq True * by (auto simp: used gt)
    next
      assume "\<exists>i. ffs_from (n_bits v) (Suc W) (drop (Suc W) (arr v)) = int (LENGTH('w) * Suc W + i) \<and>
        wbit (drop (Suc W) (arr v)) i \<and> (\<forall>j<i. \<not> wbit (drop (Suc W) (arr v)) j)"
      then obtain i where i: "ffs_from (n_bits v) (Suc W) (drop (Suc W) (arr v)) = int (LENGTH('w) * Suc W + i)"
        "wbit (arr v) (LENGTH('w) * Suc W + i)" "\<And>j. j < i \<Longrightarrow> \<not> wbit (arr v) (LENGTH('w) * Suc W + j)"
        by (auto simp: wbit_drop)
      have "\<not> wbit (arr v) j" if "k \<le> j" "j < LENGTH('w) * Suc W + i" for j
        using low[OF that(1)] i(3)[of "j - LENGTH('w) * Suc W"] split[of j] that
        by (metis add_less_cancel_left not_le)
      moreover have "k \<le> LENGTH('w) * Suc W + i" using kWB B by simp
      moreover from this have "idx < int (LENGTH('w) * Suc W + i)" by (simp only: gt)
      ultimately show ?thesis
        using eq True i
        by (intro disjI2 exI[of _ "LENGTH('w) * Suc W + i"]) (auto simp: used gt)
    qed
  qed
qed

section \<open>Population count\<close>

lemma popcnt_card: "popcnt x = card {i. i < LENGTH('w) \<and> bit x i}"
  for x :: "'w::len word"
  unfolding popcnt_def
  by (subst distinct_card[symmetric]) (auto intro!: arg_cong[where f = card])

lemma finite_wbit: "finite {i. wbit xs i}"
  for xs :: "'w::len word list"
  by (rule finite_subset[of _ "{..< LENGTH('w) * length xs}"])
    (auto simp: wbit_def div_less_iff_less_mult mult.commute)

lemma sum_popcnt: "sum_list (map popcnt xs) = card {i. wbit xs i}"
  for xs :: "'w::len word list"
proof (induction xs)
  case (Cons x xs)
  have "{i. wbit (x # xs) i} = {i. i < LENGTH('w) \<and> bit x i} \<union> (\<lambda>i. i + LENGTH('w)) ` {i. wbit xs i}"
    by (auto simp: wbit_Cons image_def)
  moreover have "card ((\<lambda>i. i + LENGTH('w)) ` {i. wbit xs i}) = card {i. wbit xs i}"
    by (rule card_image) (simp add: inj_on_def)
  ultimately have "card {i. wbit (x # xs) i} = card {i. i < LENGTH('w) \<and> bit x i} + card {i. wbit xs i}"
    by (subst (asm) eq_commute, simp)
      (subst card_Un_disjoint, auto simp: finite_wbit)
  then show ?case using Cons.IH by (simp add: popcnt_card)
qed simp

lemma n_words_for_mult: "0 < b \<Longrightarrow> n_words_for b (b * k) = k"
proof -
  assume b: "0 < b"
  have "b * k \<le> b * n_words_for b (b * k)" "b * n_words_for b (b * k) < b * Suc k"
    using n_words_for_bounds[OF b, of "b * k"] by simp_all
  then have "k \<le> n_words_for b (b * k)" "n_words_for b (b * k) < Suc k"
    using b by (auto simp only: nat_mult_less_cancel1 nat_mult_le_cancel1)
  then show "n_words_for b (b * k) = k" by simp
qed

lemma popcount_wf:
  assumes "wf_bv (v :: 'w::len word bitvec)" "LENGTH('w) dvd n_bits v"
  shows "popcount v = Inr (card (used_bits v))"
proof -
  have "LENGTH('w) * length (arr v) = n_bits v"
    using assms by (auto simp: wf_bv_def dvd_def n_words_for_mult)
  moreover have "used_bits v = {i. wbit (arr v) i}"
    using wf_bvD(2)[OF assms(1)] by (auto simp: used_bits_def)
  ultimately show ?thesis by (simp add: popcount_def sum_popcnt)
qed

lemma num_free_wf:
  assumes "wf_bv (v :: 'w::len word bitvec)" "LENGTH('w) dvd n_bits v"
  shows "num_free v = Inr (n_bits v - card (used_bits v))"
  using popcount_wf[OF assms] by (simp add: num_free_def)

section \<open>Shift\<close>

lemma length_shl_loop [simp]: "length (shl_loop amt i a) = length a"
  by (induction amt i a rule: shl_loop.induct) (auto simp: Let_def)

lemma shl_loop_nth:
  fixes a :: "'w::len word list"
  assumes "i < length a" "k < length a"
  shows "shl_loop amt i a ! k =
    (if k < i then push_bit amt (a ! k) OR (if k = 0 then 0 else drop_bit (LENGTH('w) - amt) (a ! (k - 1)))
     else if k = i \<and> 0 < i then a ! k OR drop_bit (LENGTH('w) - amt) (a ! (k - 1)) else a ! k)"
  using assms
proof (induction amt i a rule: shl_loop.induct)
  case (1 amt a)
  then show ?case by simp
next
  case (2 amt i a)
  moreover have "0 < length a" using 2(2) by linarith
  ultimately show ?case
    by (cases "k = i") (auto simp: Let_def nth_list_update)
qed

lemma shift_left_bits:
  fixes v :: "'w::len word bitvec"
  assumes "0 < amt" "amt < LENGTH('w)" "0 < length (arr v)"
  obtains v' where "shift_left v amt = Inr v'" "n_bits v' = n_bits v" "length (arr v') = length (arr v)"
    "\<And>i. wbit (arr v') i \<longleftrightarrow> amt \<le> i \<and> i < LENGTH('w) * length (arr v) \<and> wbit (arr v) (i - amt)"
proof -
  define n where "n = length (arr v)"
  define a where "a = (arr v)[n - 1 := push_bit amt (arr v ! (n - 1))]"
  define v' where "v' = v\<lparr>arr := shl_loop amt (n - 1) a\<rparr>"
  have n: "0 < n" using assms by (simp add: n_def)
  have nth: "shl_loop amt (n - 1) a ! k = push_bit amt (arr v ! k) OR
      (if k = 0 then 0 else drop_bit (LENGTH('w) - amt) (arr v ! (k - 1)))" if "k < n" for k
    using that n by (auto simp: shl_loop_nth a_def n_def[symmetric] nth_list_update)
  have bits: "wbit (arr v') i \<longleftrightarrow> amt \<le> i \<and> i < LENGTH('w) * n \<and> wbit (arr v) (i - amt)" for i
  proof -
    define k where "k = i div LENGTH('w)"
    define b where "b = i mod LENGTH('w)"
    have i: "i = LENGTH('w) * k + b" "b < LENGTH('w)" by (simp_all add: k_def b_def)
    have in_n: "k < n \<longleftrightarrow> i < LENGTH('w) * n"
      by (simp add: k_def div_less_iff_less_mult mult.commute)
    show ?thesis
    proof (cases "k < n")
      case False
      then show ?thesis using in_n by (simp add: wbit_def v'_def k_def[symmetric] n_def a_def)
    next
      case True
      have l: "wbit (arr v') i \<longleftrightarrow> (amt \<le> b \<and> bit (arr v ! k) (b - amt)) \<or>
          (0 < k \<and> b < amt \<and> bit (arr v ! (k - 1)) (LENGTH('w) - amt + b))"
        using True nth[OF True] i(2) assms
        by (auto simp: wbit_def v'_def k_def[symmetric] b_def[symmetric] n_def a_def bit_simps
            dest: bit_imp_le_length)
      consider "amt \<le> b" | "b < amt" "k = 0" | "b < amt" "0 < k" by linarith
      then show ?thesis
      proof cases
        case 1
        then have "i - amt = LENGTH('w) * k + (b - amt)" "b - amt < LENGTH('w)" using i by simp_all
        then have "(i - amt) div LENGTH('w) = k" "(i - amt) mod LENGTH('w) = b - amt"
          by simp_all
        then show ?thesis using 1 l True in_n i n_def by (auto simp: wbit_def)
      next
        case 2
        then show ?thesis using l i by auto
      next
        case 3
        then obtain k' where k': "k = Suc k'" by (cases k) auto
        have e: "i - amt = LENGTH('w) * k' + (LENGTH('w) - amt + b)"
          using i k' 3 assms by simp
        have "LENGTH('w) - amt + b < LENGTH('w)" using 3 assms by linarith
        then have "(i - amt) div LENGTH('w) = k'" "(i - amt) mod LENGTH('w) = LENGTH('w) - amt + b"
          using e by simp_all
        then show ?thesis using 3 l True in_n i k' n_def assms by (auto simp: wbit_def)
      qed
    qed
  qed
  show thesis
  proof
    show "shift_left v amt = Inr v'"
      using assms n by (auto simp: shift_left_def v'_def a_def n_def Let_def less_max_iff_disj ensure_def)
    show "wbit (arr v') i \<longleftrightarrow> amt \<le> i \<and> i < LENGTH('w) * length (arr v) \<and> wbit (arr v) (i - amt)" for i
      using bits by (simp add: n_def)
  qed (simp_all add: v'_def a_def)
qed

section \<open>The free list contract\<close>

interpretation bv: free_list wf_bv n_bits used_bits find_first_unset set_bit_bv clear_bit
proof unfold_locales
  fix v :: "'w::len word bitvec" and i
  assume v: "wf_bv v"
  show "used_bits v \<subseteq> {..<n_bits v}" by (auto simp: used_bits_def)
  show "find_first_unset v = - 1 \<and> used_bits v = {..<n_bits v} \<or>
    (\<exists>i. find_first_unset v = int i \<and> i < n_bits v \<and> i \<notin> used_bits v \<and> {..<i} \<subseteq> used_bits v)"
    by (rule find_first_unset_cases[OF v])
  assume i: "i < n_bits v"
  show "\<exists>v'. set_bit_bv v i = Inr v' \<and> wf_bv v' \<and> n_bits v' = n_bits v \<and> used_bits v' = insert i (used_bits v)"
    using set_bit_bv_wf[OF v i] by blast
  show "\<exists>v'. clear_bit v i = Inr v' \<and> wf_bv v' \<and> n_bits v' = n_bits v \<and> used_bits v' = used_bits v - {i}"
    using clear_bit_wf[OF v i] by blast
qed

section \<open>Properties\<close>

text \<open>
  Allocation from a free list: with two bits free, \<open>find_first_unset\<close> and \<open>set_bit\<close> twice
  in a row succeed, hand out two different indices that were free and below the size, and mark
  just those.
\<close>

theorem free_list_allocates_distinct:
  assumes "wf_bv v" "card (used_bits v) + 2 \<le> n_bits v"
  shows "\<exists>i j v1 v2. find_first_unset v = int i \<and> set_bit_bv v i = Inr v1
    \<and> find_first_unset v1 = int j \<and> set_bit_bv v1 j = Inr v2
    \<and> i < n_bits v \<and> j < n_bits v \<and> i \<noteq> j \<and> i \<notin> used_bits v \<and> j \<notin> used_bits v
    \<and> wf_bv v2 \<and> used_bits v2 = used_bits v \<union> {i, j}"
  using bv.take_two[OF assms] by metis

theorem free_list_allocates_distinct_witness:
  "\<exists>i j v1 v2. find_first_unset (new_bitvec 70 :: u64 bitvec) = int i
    \<and> set_bit_bv (new_bitvec 70) i = Inr (v1 :: u64 bitvec) \<and> find_first_unset v1 = int j \<and> set_bit_bv v1 j = Inr v2
    \<and> i < 70 \<and> j < 70 \<and> i \<noteq> j \<and> used_bits v2 = {i, j}"
  using free_list_allocates_distinct[of "new_bitvec 70 :: u64 bitvec"] by auto

text \<open>
  The left shift moves every bit up by the amount, across word boundaries: after
  \<open>shift_left\<close> by less than a word, bit \<open>i\<close> is set exactly when bit \<open>i - amt\<close> was, for every
  \<open>i\<close> the array holds, and nothing shifts in.
\<close>

theorem shift_left_moves_bits:
  fixes v :: "'w::len word bitvec"
  assumes "0 < amt" "amt < LENGTH('w)" "0 < length (arr v)"
  shows "\<exists>v'. shift_left v amt = Inr v' \<and> n_bits v' = n_bits v \<and>
    (\<forall>i. wbit (arr v') i \<longleftrightarrow> amt \<le> i \<and> i < LENGTH('w) * length (arr v) \<and> wbit (arr v) (i - amt))"
  by (rule shift_left_bits[OF assms]) blast

theorem shift_left_moves_bits_witness:
  "\<exists>v'. shift_left \<lparr>n_bits = 16, arr = [0x80, 0x01 :: u8]\<rparr> 1 = Inr v'
    \<and> wbit (arr v') 8 \<and> wbit (arr v') 9 \<and> \<not> wbit (arr v') 0"
proof -
  obtain v' where v': "shift_left \<lparr>n_bits = 16, arr = [0x80, 0x01 :: u8]\<rparr> 1 = Inr v'"
    "\<And>i. wbit (arr v') i \<longleftrightarrow> 1 \<le> i \<and> i < 16 \<and> wbit [0x80, 0x01 :: u8] (i - 1)"
    using shift_left_moves_bits[of 1 "\<lparr>n_bits = 16, arr = [0x80, 0x01 :: u8]\<rparr>"] by auto
  have "wbit [0x80, 0x01 :: u8] 7" "wbit [0x80, 0x01 :: u8] 8" by (simp_all add: wbit_def bit_numeral_rec)
  then show ?thesis using v'(1) v'(2)[of 8] v'(2)[of 9] v'(2)[of 0] by auto
qed

text \<open>
  The number of free registers: for a size that is a multiple of the word size, \<open>popcount\<close>
  and \<open>num_free\<close> return the number of set bits and its complement.
\<close>

theorem num_free_counts:
  assumes "wf_bv (v :: 'w::len word bitvec)" "LENGTH('w) dvd n_bits v"
  shows "popcount v = Inr (card (used_bits v)) \<and> num_free v = Inr (n_bits v - card (used_bits v))"
  using popcount_wf[OF assms] num_free_wf[OF assms] by blast

theorem num_free_counts_witness:
  "popcount (new_bitvec 128 :: u64 bitvec) = Inr 0 \<and> num_free (new_bitvec 128 :: u64 bitvec) = Inr 128"
  using num_free_counts[of "new_bitvec 128 :: u64 bitvec"] by simp

text \<open>For a size that is not a multiple of the word size both stop the program.\<close>

lemma popcount_odd_size_dies:
  "popcount (new_bitvec 100 :: u64 bitvec) = Inl Die"
  by (simp add: popcount_def new_bitvec_def n_words_for_def)

text \<open>The scan for the next set bit reads past the array when it starts after the last word.\<close>

lemma find_next_set_past_end:
  fixes v :: "'w::len word bitvec"
  assumes "idx + 1 = int (LENGTH('w) * length (arr v))"
  shows "find_next_set v idx = Inl Undefined"
  using assms by (simp add: find_next_set_def Let_def nat_mult_distrib)

end
