(* ===== verification/Fifo.thy ===== *)
theory Fifo
  imports Prelude
begin

text \<open>
  The contract of a bounded first-in first-out queue, which the pipeline's fetch queue, decode
  queue and reorder buffer rest on: a full queue refuses a push, an empty one a pop, and
  everything else is appended to and taken from a list.
\<close>

datatype 'a fifo_op = Push 'a | Pop

fun run_ops :: "('q \<Rightarrow> 'a \<Rightarrow> ('q \<times> 'i) res) \<Rightarrow> ('q \<Rightarrow> ('q \<times> 'a) res) \<Rightarrow> 'q \<Rightarrow> 'a fifo_op list
    \<Rightarrow> ('q \<times> 'a list) res" where
  "run_ops push pop q [] = Inr (q, [])"
| "run_ops push pop q (Push x # ops) = rbind (push q x) (\<lambda>(q1, _). run_ops push pop q1 ops)"
| "run_ops push pop q (Pop # ops) = rbind (pop q) (\<lambda>(q1, x).
     rbind (run_ops push pop q1 ops) (\<lambda>(q2, out). Inr (q2, x # out)))"

fun spec_ops :: "nat \<Rightarrow> 'a list \<Rightarrow> 'a fifo_op list \<Rightarrow> ('a list \<times> 'a list) res" where
  "spec_ops n xs [] = Inr (xs, [])"
| "spec_ops n xs (Push x # ops) = ensure AssertFail (length xs < n) (spec_ops n (xs @ [x]) ops)"
| "spec_ops n [] (Pop # ops) = Inl AssertFail"
| "spec_ops n (x # xs) (Pop # ops) =
     rbind (spec_ops n xs ops) (\<lambda>(ys, out). Inr (ys, x # out))"

locale fifo =
  fixes ok :: "'q \<Rightarrow> bool"
    and cap :: "'q \<Rightarrow> nat"
    and items :: "'q \<Rightarrow> 'a list"
    and is_empty :: "'q \<Rightarrow> bool"
    and is_full :: "'q \<Rightarrow> bool"
    and push :: "'q \<Rightarrow> 'a \<Rightarrow> ('q \<times> 'i) res"
    and pop :: "'q \<Rightarrow> ('q \<times> 'a) res"
  assumes items_bound: "ok q \<Longrightarrow> length (items q) \<le> cap q"
    and empty_iff: "ok q \<Longrightarrow> is_empty q \<longleftrightarrow> items q = []"
    and full_iff: "ok q \<Longrightarrow> is_full q \<longleftrightarrow> length (items q) = cap q"
    and push_full: "ok q \<Longrightarrow> length (items q) = cap q \<Longrightarrow> push q x = Inl AssertFail"
    and push_ok: "ok q \<Longrightarrow> length (items q) < cap q \<Longrightarrow>
      \<exists>q' i. push q x = Inr (q', i) \<and> ok q' \<and> cap q' = cap q \<and> items q' = items q @ [x]"
    and pop_empty: "ok q \<Longrightarrow> items q = [] \<Longrightarrow> pop q = Inl AssertFail"
    and pop_ok: "ok q \<Longrightarrow> items q = x # xs \<Longrightarrow>
      \<exists>q'. pop q = Inr (q', x) \<and> ok q' \<and> cap q' = cap q \<and> items q' = xs"
begin

lemma push_result:
  assumes "ok q"
  obtains "items q \<noteq> []" "length (items q) = cap q" "push q x = Inl AssertFail"
  | "cap q = 0" "push q x = Inl AssertFail"
  | q' i where "push q x = Inr (q', i)" "ok q'" "cap q' = cap q" "items q' = items q @ [x]"
    "length (items q) < cap q"
  using assms items_bound[OF assms] push_full[OF assms, of x] push_ok[OF assms, of x]
  by (cases "length (items q) < cap q"; cases "items q") force+

text \<open>Any run of pushes and pops behaves as on the list, failures included.\<close>

lemma run_refines:
  "ok q \<Longrightarrow> rbind (run_ops push pop q ops) (\<lambda>(q', out). Inr (items q', out))
     = spec_ops (cap q) (items q) ops"
proof (induction ops arbitrary: q)
  case (Cons a ops)
  show ?case
  proof (cases a)
    case (Push x)
    then show ?thesis using Cons.prems
      by (cases rule: push_result[OF Cons.prems, of x]) (auto dest!: Cons.IH)
  next
    case Pop
    show ?thesis
    proof (cases "items q")
      case Nil
      then show ?thesis using Pop pop_empty Cons.prems by simp
    next
      case (Cons x xs)
      then obtain q' where q': "pop q = Inr (q', x)" "ok q'" "cap q' = cap q" "items q' = xs"
        using pop_ok Cons.prems \<open>ok q\<close> by blast
      show ?thesis using q' Pop Cons Cons.IH[OF q'(2)]
        by (auto simp: rbind_assoc split_def rbind_def split: sum.splits)
    qed
  qed
qed simp

lemma run_ok:
  "ok q \<Longrightarrow> run_ops push pop q ops = Inr (q', out) \<Longrightarrow> ok q' \<and> cap q' = cap q"
proof (induction ops arbitrary: q q' out)
  case (Cons a ops)
  show ?case
  proof (cases a)
    case (Push x)
    then show ?thesis using Cons.prems
      by (cases rule: push_result[OF Cons.prems(1), of x]) (auto dest: Cons.IH)
  next
    case Pop
    then obtain q1 x where q1: "pop q = Inr (q1, x)" "\<exists>o'. run_ops push pop q1 ops = Inr (q', o')"
      using Cons.prems(2) by (auto simp: res_simps)
    have "items q \<noteq> []" using q1 pop_empty Cons.prems(1) by fastforce
    then obtain y ys where "items q = y # ys" by (cases "items q") auto
    then have "ok q1 \<and> cap q1 = cap q" using pop_ok[OF Cons.prems(1)] q1 by fastforce
    then show ?thesis using Cons.IH q1(2) by fastforce
  qed
qed simp

end

end
