(* ===== verification/Queue.thy ===== *)
theory Queue
  imports Fifo
begin

text \<open>
  \<^verbatim>\<open>sim_ooo/sim_queue.hh\<close>: the ring buffer behind the fetch queue, the decode queue and the
  reorder buffer.  The read and write indices are 64-bit and run over twice the capacity, so
  that a full queue and an empty one differ.  The elements are pointers; the null pointer the
  constructor, \<open>pop_\<close> and \<open>clear\<close> leave in a slot is \<open>None\<close>.
\<close>

record 'a sim_queue =
  q_len :: u64
  q_len2 :: u64
  q_data :: "'a option list"
  q_rd :: u64
  q_wr :: u64

definition new_queue :: "u64 \<Rightarrow> 'a sim_queue res" where
  "new_queue n = ensure AssertFail ((n - 1) AND n = 0)
     (Inr \<lparr>q_len = n, q_len2 = 2 * n, q_data = replicate (unat n) None, q_rd = 0, q_wr = 0\<rparr>)"

definition resize_queue :: "u64 \<Rightarrow> 'a sim_queue \<Rightarrow> 'a sim_queue" where
  "resize_queue n q = q\<lparr>q_len := n, q_len2 := 2 * n, q_data := replicate (unat n) None,
     q_rd := 0, q_wr := 0\<rparr>"

definition slot :: "'a sim_queue \<Rightarrow> u64 \<Rightarrow> nat" where
  "slot q i = unat (i AND (q_len q - 1))"

definition push_q :: "'a sim_queue \<Rightarrow> 'a option \<Rightarrow> ('a sim_queue \<times> nat) res" where
  "push_q q v = (let slot_id = slot q (q_wr q)
     in ensure Undefined (slot_id < length (q_data q))
       (Inr (q\<lparr>q_data := (q_data q)[slot_id := v],
              q_wr := (q_wr q + 1) AND (q_len2 q - 1)\<rparr>, slot_id)))"

definition pop_q :: "'a sim_queue \<Rightarrow> ('a sim_queue \<times> 'a option) res" where
  "pop_q q = (let i = slot q (q_rd q)
     in ensure Undefined (i < length (q_data q))
       (Inr (q\<lparr>q_data := (q_data q)[i := None],
              q_rd := (q_rd q + 1) AND (q_len2 q - 1)\<rparr>, q_data q ! i)))"

definition at_q :: "'a sim_queue \<Rightarrow> nat \<Rightarrow> 'a option res" where
  "at_q q i = ensure Undefined (i < length (q_data q)) (Inr (q_data q ! i))"

definition empty_q :: "'a sim_queue \<Rightarrow> bool" where
  "empty_q q \<longleftrightarrow> q_rd q = q_wr q"

definition full_q :: "'a sim_queue \<Rightarrow> bool" where
  "full_q q \<longleftrightarrow> q_rd q AND (q_len q - 1) = q_wr q AND (q_len q - 1) \<and> q_rd q \<noteq> q_wr q"

definition size_q :: "'a sim_queue \<Rightarrow> u64" where
  "size_q q = (if q_rd q < q_wr q then q_wr q - q_rd q else (q_len2 q - q_wr q) + q_rd q)"

definition clear_q :: "'a sim_queue \<Rightarrow> 'a sim_queue" where
  "clear_q q = q\<lparr>q_data := replicate (unat (q_len q)) None, q_rd := 0, q_wr := 0\<rparr>"

definition push :: "'a sim_queue \<Rightarrow> 'a option \<Rightarrow> ('a sim_queue \<times> nat) res" where
  "push q v = ensure AssertFail (\<not> full_q q) (push_q q v)"

definition pop :: "'a sim_queue \<Rightarrow> ('a sim_queue \<times> 'a option) res" where
  "pop q = ensure AssertFail (\<not> empty_q q) (pop_q q)"

definition peek :: "'a sim_queue \<Rightarrow> 'a option res" where
  "peek q = ensure AssertFail (\<not> empty_q q) (at_q q (slot q (q_rd q)))"

definition peek_next_pop :: "'a sim_queue \<Rightarrow> 'a option res" where
  "peek_next_pop q = at_q q (slot q ((q_rd q + 1) AND (q_len2 q - 1)))"

definition capacity_q :: "'a sim_queue \<Rightarrow> u64" where
  "capacity_q q = q_len q"

text \<open>
  The rollback walk: the visitor is called on the slots from the write side back to the read
  index, each slot is set to null after the call, and the number of calls that returned true is
  the result.  The visitor's own state is threaded through.  The indices stay below the
  capacity, so a bound of the capacity on the number of steps is enough
  (\<open>traverse_newest_first\<close>).
\<close>

fun traverse_loop :: "('s \<Rightarrow> 'a option \<Rightarrow> 's \<times> bool) \<Rightarrow> nat \<Rightarrow> u64 \<Rightarrow> u64 \<Rightarrow> 's \<Rightarrow> int
    \<Rightarrow> 'a sim_queue \<Rightarrow> ('s \<times> int \<times> 'a sim_queue) res" where
  "traverse_loop f 0 i d s c q = Inl OutOfFuel"
| "traverse_loop f (Suc k) i d s c q = rbind (at_q q (unat i)) (\<lambda>e.
     let (s1, b) = f s e;
         c1 = (if b then c + 1 else c);
         q1 = q\<lparr>q_data := (q_data q)[unat i := None]\<rparr>
     in if i = d then Inr (s1, c1, q1)
        else traverse_loop f k ((i - 1) AND (q_len q - 1)) d s1 c1 q1)"

definition traverse_and_apply :: "('s \<Rightarrow> 'a option \<Rightarrow> 's \<times> bool) \<Rightarrow> 's \<Rightarrow> 'a sim_queue
    \<Rightarrow> ('s \<times> int \<times> 'a sim_queue) res" where
  "traverse_and_apply f s q =
     (let i = (if full_q q then q_wr q - 1 else q_wr q) AND (q_len q - 1);
          d = q_rd q AND (q_len q - 1)
      in traverse_loop f (length (q_data q)) i d s 0 q)"

section \<open>The queue as a list\<close>

definition cap_q :: "'a sim_queue \<Rightarrow> nat" where
  "cap_q q = unat (q_len q)"

definition count_q :: "'a sim_queue \<Rightarrow> nat" where
  "count_q q = (if q_rd q \<le> q_wr q then unat (q_wr q) - unat (q_rd q)
     else 2 * cap_q q + unat (q_wr q) - unat (q_rd q))"

definition slot_at :: "'a sim_queue \<Rightarrow> nat \<Rightarrow> nat" where
  "slot_at q i = (unat (q_rd q) + i) mod cap_q q"

definition items_q :: "'a sim_queue \<Rightarrow> 'a option list" where
  "items_q q = map (\<lambda>i. q_data q ! slot_at q i) [0..<count_q q]"

definition wf_q :: "'a sim_queue \<Rightarrow> bool" where
  "wf_q q \<longleftrightarrow> (\<exists>k \<le> 62. q_len q = 2 ^ k) \<and> q_len2 q = 2 * q_len q
     \<and> length (q_data q) = cap_q q \<and> q_rd q < q_len2 q \<and> q_wr q < q_len2 q \<and> count_q q \<le> cap_q q
     \<and> (\<forall>i. count_q q \<le> i \<longrightarrow> i < cap_q q \<longrightarrow> q_data q ! slot_at q i = None)"

section \<open>The ring buffer refines the list\<close>

lemma wf_qD:
  assumes "wf_q q"
  obtains c where "cap_q q = c" "0 < c" "length (q_data q) = c" "count_q q \<le> c"
    "unat (q_rd q) < 2 * c" "unat (q_wr q) < 2 * c" "2 * c < 2 ^ 64"
    "\<And>x. unat (x AND (q_len q - 1)) = unat x mod c"
    "\<And>x. unat (x AND (q_len2 q - 1)) = unat x mod (2 * c)"
    "\<And>i. count_q q \<le> i \<Longrightarrow> i < c \<Longrightarrow> q_data q ! slot_at q i = None"
proof -
  obtain k where k: "k \<le> 62" "q_len q = 2 ^ k" using assms by (auto simp: wf_q_def)
  have l: "unat (2 ^ k :: u64) = 2 ^ k" "unat (2 ^ Suc k :: u64) = 2 ^ Suc k" 
    using k unat_exp[of k, where ?'a = 64] unat_exp[of "Suc k", where ?'a = 64] by (simp_all del: power_Suc)
  have l2: "q_len2 q = 2 ^ Suc k" using assms k by (simp add: wf_q_def)
  have b: "(2::nat) ^ Suc k < 2 ^ 64" using k by (intro power_strict_increasing) auto
  show thesis
  proof (rule that[of "2 ^ k"])
    show "cap_q q = 2 ^ k" using k l by (simp add: cap_q_def)
  qed (use assms k l l2 b unat_and_pow2[of _ k, where ?'a = 64] unat_and_pow2[of _ "Suc k", where ?'a = 64] in
      \<open>auto simp: wf_q_def cap_q_def word_less_nat_alt\<close>)
qed

lemma slot_wr:
  assumes "wf_q q"
  shows "slot q (q_wr q) = slot_at q (count_q q)" "slot q (q_rd q) = slot_at q 0"
    "i < cap_q q \<Longrightarrow> j < cap_q q \<Longrightarrow> slot_at q i = slot_at q j \<longleftrightarrow> i = j"
    "slot_at q i < length (q_data q)"
proof -
  obtain c where c: "cap_q q = c" "0 < c" "length (q_data q) = c" "unat (q_rd q) < 2 * c" 
    "\<And>x. unat (x AND (q_len q - 1)) = unat x mod c" by (rule wf_qD[OF assms]) blast
  show "slot q (q_wr q) = slot_at q (count_q q)"
    using c by (auto simp: slot_def slot_at_def count_q_def word_le_nat_alt)
  show "slot q (q_rd q) = slot_at q 0" using c by (simp add: slot_def slot_at_def)
  show "slot_at q i < length (q_data q)" using c by (simp add: slot_at_def)
  show "slot_at q i = slot_at q j \<longleftrightarrow> i = j" if "i < cap_q q" "j < cap_q q"
    using that c by (simp add: slot_at_def mod_add_left_cancel)
qed

lemma full_q_iff:
  assumes "wf_q q"
  shows "full_q q \<longleftrightarrow> count_q q = cap_q q" "empty_q q \<longleftrightarrow> count_q q = 0"
proof -
  obtain c where c: "cap_q q = c" "0 < c" "count_q q \<le> c" "unat (q_rd q) < 2 * c" "unat (q_wr q) < 2 * c" 
    "\<And>x. unat (x AND (q_len q - 1)) = unat x mod c" by (rule wf_qD[OF assms]) blast
  show e: "empty_q q \<longleftrightarrow> count_q q = 0"
    using c by (auto simp: empty_q_def count_q_def word_le_nat_alt word_unat_eq_iff)

  define r w where "r = unat (q_rd q)" and "w = unat (q_wr q)"
  have m: "n mod c = (if n < c then n else n - c)" if "n < 2 * c" for n
    using that by (auto simp: not_less le_mod_geq)
  have cnt: "count_q q = (if r \<le> w then w - r else 2 * c + w - r)" "r < 2 * c" "w < 2 * c"
    using c by (simp_all add: count_q_def r_def w_def word_le_nat_alt)
  have "full_q q \<longleftrightarrow> r mod c = w mod c \<and> r \<noteq> w"
    by (simp add: full_q_def word_unat_eq_iff c(6) r_def w_def)
  also have "\<dots> \<longleftrightarrow> (if r \<le> w then w - r else 2 * c + w - r) = c"
    using cnt(2,3) c(2) by (simp add: m) arith
  finally show "full_q q \<longleftrightarrow> count_q q = cap_q q" using cnt c by simp
qed

lemma mod_double_Suc: "n < 2 * c \<Longrightarrow> (n + 1) mod (2 * c) = (if n + 1 = 2 * c then 0 else n + 1)" for n c :: nat
  by auto

lemma q_succ:
  assumes "wf_q q" "x < q_len2 q"
  shows "unat ((x + 1) AND (q_len2 q - 1)) = (if unat x + 1 = 2 * cap_q q then 0 else unat x + 1)"
    "(x + 1) AND (q_len2 q - 1) < q_len2 q" "unat x < 2 * cap_q q" "unat (q_len2 q) = 2 * cap_q q"
proof -
  obtain k where k: "k \<le> 62" "q_len q = 2 ^ k" "q_len2 q = 2 ^ Suc k" using assms by (auto simp: wf_q_def)
  have l: "unat (2 ^ k :: u64) = 2 ^ k" "unat (2 ^ Suc k :: u64) = 2 ^ Suc k" 
    using k unat_exp[of k, where ?'a = 64] unat_exp[of "Suc k", where ?'a = 64] by (simp_all del: power_Suc)
  show c: "unat (q_len2 q) = 2 * cap_q q" using k l by (simp add: cap_q_def)
  show x: "unat x < 2 * cap_q q" using assms(2) c by (simp add: word_less_nat_alt)
  have b: "(2::nat) ^ Suc k < 2 ^ 64" using k by (intro power_strict_increasing) auto
  have "unat x < 2 ^ Suc k" using x k l by (simp add: cap_q_def)
  then have "unat (x + 1) = unat x + 1"
    using b by (simp add: unat_word_ariths)
  then show m: "unat ((x + 1) AND (q_len2 q - 1)) = (if unat x + 1 = 2 * cap_q q then 0 else unat x + 1)"
    using x k l unat_and_pow2[of "x + 1" "Suc k"] by (simp add: cap_q_def mod_double_Suc)
  show "(x + 1) AND (q_len2 q - 1) < q_len2 q"
    using m x by (auto simp: word_less_nat_alt c)
qed

lemma wf_q_intro:
  assumes "wf_q q" "q_len q' = q_len q" "q_len2 q' = q_len2 q" "length (q_data q') = length (q_data q)"
    "q_rd q' < q_len2 q" "q_wr q' < q_len2 q" "count_q q' \<le> cap_q q"
    "\<And>i. count_q q' \<le> i \<Longrightarrow> i < cap_q q \<Longrightarrow> q_data q' ! slot_at q' i = None"
  shows "wf_q q'"
  using assms unfolding wf_q_def cap_q_def by simp

lemma push_room:
  assumes "wf_q q" "count_q q < cap_q q"
  shows "\<exists>q'. push q v = Inr (q', slot_at q (count_q q)) \<and> wf_q q' \<and> cap_q q' = cap_q q
    \<and> items_q q' = items_q q @ [v] \<and> q_rd q' = q_rd q"
proof -
  define s where "s = slot_at q (count_q q)"
  define q' where "q' = q\<lparr>q_data := (q_data q)[s := v], q_wr := (q_wr q + 1) AND (q_len2 q - 1)\<rparr>"
  note w = assms(1)[unfolded wf_q_def]
  have s: "s < length (q_data q)" using slot_wr(4)[OF assms(1)] by (simp add: s_def)
  have p: "push q v = Inr (q', s)"
    using assms s by (simp add: push_def push_q_def full_q_iff slot_wr Let_def s_def q'_def)
  have sl: "slot_at q' i = slot_at q i" "cap_q q' = cap_q q" for i
    by (simp_all add: q'_def slot_at_def cap_q_def)
  have cnt: "count_q q' = count_q q + 1"
    using assms(2) q_succ[OF assms(1), of "q_wr q"] q_succ(3)[OF assms(1), of "q_rd q"] w
    by (auto simp: count_q_def q'_def cap_q_def word_le_nat_alt split: if_splits)
  have data: "q_data q' ! slot_at q i = (if i = count_q q then v else q_data q ! slot_at q i)"
    if "i < cap_q q" for i
    using s slot_wr(3)[OF assms(1) that assms(2)] by (auto simp: q'_def s_def nth_list_update)
  have "wf_q q'"
    by (rule wf_q_intro[OF assms(1)])
      (use w assms q_succ[OF assms(1)] cnt data sl in \<open>auto simp: q'_def\<close>)
  moreover have "items_q q' = items_q q @ [v]"
    using assms(2) by (auto simp: items_q_def cnt sl data)
  ultimately show ?thesis using p sl by (auto simp: s_def q'_def)
qed

lemma pop_some:
  assumes "wf_q q" "items_q q = x # xs"
  shows "\<exists>q'. pop q = Inr (q', x) \<and> wf_q q' \<and> cap_q q' = cap_q q \<and> items_q q' = xs"
proof -
  define s where "s = slot_at q 0"
  define q' where "q' = q\<lparr>q_data := (q_data q)[s := None], q_rd := (q_rd q + 1) AND (q_len2 q - 1)\<rparr>"
  note w = assms(1)[unfolded wf_q_def]
  have s: "s < length (q_data q)" using slot_wr(4)[OF assms(1)] by (simp add: s_def)
  have n: "count_q q = Suc (length xs)" using arg_cong[OF assms(2)[unfolded items_q_def], of length] by simp
  have x: "q_data q ! s = x" using assms(2) n
    by (simp add: items_q_def s_def upt_conv_Cons del: upt_Suc)
  have p: "pop q = Inr (q', x)"
    using assms s n x by (simp add: pop_def pop_q_def full_q_iff slot_wr Let_def s_def q'_def)
  have cnt: "count_q q' = length xs"
    using n q_succ[OF assms(1), of "q_rd q"] q_succ(3)[OF assms(1), of "q_wr q"] w
    by (auto simp: count_q_def q'_def cap_q_def word_le_nat_alt split: if_splits)
  have c: "cap_q q' = cap_q q" by (simp add: q'_def cap_q_def)
  have sl: "slot_at q' i = slot_at q (Suc i)" for i
  proof -
    have "unat (q_rd q') mod cap_q q = (unat (q_rd q) + 1) mod cap_q q"
      using q_succ[OF assms(1), of "q_rd q"] w by (auto simp: q'_def)
    then show ?thesis unfolding slot_at_def c
      by (metis Suc_eq_plus1_left add.assoc mod_add_left_eq)
  qed
  have data: "q_data q' ! slot_at q i = (if i = 0 then None else q_data q ! slot_at q i)"
    if "i < cap_q q" for i
    using s slot_wr(3)[OF assms(1) that, of 0] that by (auto simp: q'_def s_def nth_list_update)
  have full: "q_data q' ! slot_at q' i = None" if "count_q q' \<le> i" "i < cap_q q" for i
  proof (cases "Suc i < cap_q q")
    case True
    then show ?thesis using that data[of "Suc i"] w n cnt by (simp add: sl)
  next
    case False
    then have "Suc i = cap_q q" using that by simp
    then have "slot_at q' i = slot_at q (cap_q q)" by (simp only: sl)
    then have "slot_at q' i = s" by (simp add: s_def slot_at_def)
    then show ?thesis using s by (simp add: q'_def)
  qed
  have le: "count_q q' \<le> cap_q q" using w cnt n by simp
  have "wf_q q'"
    by (rule wf_q_intro[OF assms(1) _ _ _ _ _ le full])
      (use w q_succ[OF assms(1)] in \<open>auto simp: q'_def\<close>)
  moreover have "items_q q' = xs"
  proof (rule nth_equalityI)
    fix i assume "i < length (items_q q')"
    then have i: "i < length xs" by (simp add: items_q_def cnt)
    have "xs ! i = items_q q ! Suc i" using assms by simp
    also have "\<dots> = q_data q ! slot_at q (Suc i)" using i n by (simp add: items_q_def del: upt_Suc)
    finally show "items_q q' ! i = xs ! i"
      using i n data[of "Suc i"] w by (simp add: items_q_def cnt sl)
  qed (simp add: items_q_def cnt)
  ultimately show ?thesis using p c by blast
qed

interpretation rq: fifo wf_q cap_q items_q empty_q full_q push pop
proof unfold_locales
  fix q :: "'a sim_queue" and x xs v
  assume q: "wf_q q"
  have len: "length (items_q q) = count_q q" by (simp add: items_q_def)
  show "length (items_q q) \<le> cap_q q" using q len by (simp add: wf_q_def)
  show "empty_q q \<longleftrightarrow> items_q q = []" using full_q_iff(2)[OF q] len by auto
  show "full_q q \<longleftrightarrow> length (items_q q) = cap_q q" using full_q_iff(1)[OF q] len by auto
  show "push q v = Inl AssertFail" if "length (items_q q) = cap_q q"
    using that len full_q_iff(1)[OF q] by (simp add: push_def)
  show "\<exists>q' i. push q v = Inr (q', i) \<and> wf_q q' \<and> cap_q q' = cap_q q \<and> items_q q' = items_q q @ [v]"
    if "length (items_q q) < cap_q q" using that len push_room[OF q] by fastforce
  show "pop q = Inl AssertFail" if "items_q q = []"
    using that len full_q_iff(2)[OF q] by (simp add: pop_def)
  show "\<exists>q'. pop q = Inr (q', x) \<and> wf_q q' \<and> cap_q q' = cap_q q \<and> items_q q' = xs" if "items_q q = x # xs"
    by (rule pop_some[OF q that])
qed

lemma new_queue_ok:
  assumes "k \<le> 62"
  obtains q where "new_queue (2 ^ k) = Inr q" "wf_q q" "cap_q q = 2 ^ k" "items_q q = []"
proof -
  define q where "q = (\<lparr>q_len = 2 ^ k, q_len2 = 2 * 2 ^ k, q_data = replicate (unat (2 ^ k :: u64)) None, q_rd = 0, q_wr = 0\<rparr> :: 'a sim_queue)"
  have l: "unat (2 ^ k :: u64) = 2 ^ k" "unat (2 ^ Suc k :: u64) = 2 ^ Suc k" 
    using assms unat_exp[of k, where ?'a = 64] unat_exp[of "Suc k", where ?'a = 64] by (simp_all del: power_Suc)
  have "(2::u64) ^ Suc k > 0" using l by (simp add: word_less_nat_alt del: power_Suc)
  moreover have "(2::u64) ^ k - 1 AND 2 ^ k = 0" using isPow2_exp[of k, where ?'a = 64] by (simp add: isPow2_def)
  ultimately show thesis 
    using assms l by (intro that[of q]) (auto simp: q_def new_queue_def wf_q_def count_q_def cap_q_def items_q_def slot_at_def)
qed

section \<open>The rollback walk\<close>

fun visit_all :: "('s \<Rightarrow> 'a option \<Rightarrow> 's \<times> bool) \<Rightarrow> 'a option list \<Rightarrow> 's \<Rightarrow> 's \<times> int" where
  "visit_all f [] s = (s, 0)"
| "visit_all f (e # es) s = (let (s1, b) = f s e; (s2, c) = visit_all f es s1
     in (s2, (if b then 1 else 0) + c))"

lemma slot_pred:
  assumes "wf_q q" "unat i = slot_at q (Suc m)"
  shows "unat ((i - 1) AND (q_len q - 1)) = slot_at q m"
proof -
  obtain k where k: "k \<le> 62" "q_len q = 2 ^ k" using assms(1) by (auto simp: wf_q_def)
  then have c: "cap_q q = 2 ^ k" using unat_exp[of k, where ?'a = 64] by (simp add: cap_q_def)
  have "unat ((i - 1) AND (q_len q - 1)) = (slot_at q (Suc m) + (2 ^ k - 1)) mod 2 ^ k"
    using k unat_pred_mask[of k i] assms(2) by simp
  also have "\<dots> = (unat (q_rd q) + Suc m + (2 ^ k - 1)) mod 2 ^ k"
    unfolding slot_at_def c by (simp only: mod_add_left_eq)
  also have "unat (q_rd q) + Suc m + (2 ^ k - 1) = unat (q_rd q) + m + 2 ^ k" by simp
  finally show ?thesis unfolding slot_at_def c by simp
qed

lemma traverse_loop_visits:
  assumes "wf_q q" "unat d = slot_at q 0" "unat i = slot_at q m" "m < cap_q q" "m < k" "length D = cap_q q"
  shows "traverse_loop f k i d s c (q\<lparr>q_data := D\<rparr>) =
    (let (s', n) = visit_all f (map (\<lambda>j. D ! slot_at q j) (rev [0..<Suc m])) s
     in Inr (s', c + n, q\<lparr>q_data := foldr (\<lambda>j D. D[slot_at q j := None]) [0..<Suc m] D\<rparr>))"
  using assms(3-)
proof (induction m arbitrary: k i s c D)
  case 0
  have "i = d" using 0 assms(2) by (simp add: word_unat_eq_iff)
  moreover obtain k' where "k = Suc k'" using 0 by (cases k) auto
  moreover have "unat i < length D" using 0 slot_wr(4)[OF assms(1)] assms(1) by (simp add: wf_q_def)
  ultimately show ?case using 0 by (simp add: at_q_def split_def Let_def)
next
  case (Suc m)
  have ne: "i \<noteq> d" using Suc assms slot_wr(3)[OF assms(1), of 0 "Suc m"] by auto
  obtain k' where k: "k = Suc k'" using Suc by (cases k) auto
  have lt: "unat i < length D" using Suc slot_wr(4)[OF assms(1)] assms(1) by (simp add: wf_q_def)
  have same: "D[slot_at q (Suc m) := None] ! slot_at q j = D ! slot_at q j" if "j \<le> m" for j
    using that slot_wr(3)[OF assms(1), of j "Suc m"] Suc.prems(2) by simp
  have m: "map (\<lambda>j. D[slot_at q (Suc m) := None] ! slot_at q j) (rev [0..<Suc m])
      = map (\<lambda>j. D ! slot_at q j) (rev [0..<Suc m])"
    by (rule map_cong) (auto simp: same)
  show ?case
    using Suc.IH[of "(i - 1) AND (q_len q - 1)" k' "D[slot_at q (Suc m) := None]"] Suc.prems ne lt k
      slot_pred[OF assms(1) Suc.prems(1)]
    by (simp add: at_q_def split_def Let_def m del: upt_Suc)
      (simp add: upt_Suc_append[of 0 "Suc m"] split_def Let_def)
qed

lemma foldr_clear:
  fixes q :: "'a sim_queue" and D :: "'a option list"
  assumes "wf_q q" "length D = cap_q q" "n \<le> cap_q q" "i < cap_q q"
  shows "foldr (\<lambda>j D. D[slot_at q j := None]) [0..<n] D ! slot_at q i
    = (if i < n then None else D ! slot_at q i)"
proof -
  have len: "length (foldr (\<lambda>j D. D[slot_at q j := None]) js D) = length D" for js and D :: "'a option list"
    by (induction js) auto
  have gen: "(\<forall>j \<in> set js. j < cap_q q) \<Longrightarrow>
      foldr (\<lambda>j D. D[slot_at q j := None]) js D ! slot_at q i
        = (if i \<in> set js then None else D ! slot_at q i)" for js
  proof (induction js)
    case (Cons j js)
    have "slot_at q j < length (foldr (\<lambda>j D. D[slot_at q j := None]) js D)"
      using slot_wr(4)[OF assms(1)] assms len by (simp add: wf_q_def)
    then show ?case using Cons slot_wr(3)[OF assms(1), of j i] assms(4)
      by (auto simp: nth_list_update)
  qed simp
  show ?thesis using gen[of "[0..<n]"] assms(3) by auto
qed

lemma slots_surj:
  assumes "wf_q q" "p < cap_q q"
  obtains i where "i < cap_q q" "p = slot_at q i"
proof -
  define r where "r = unat (q_rd q) mod cap_q q"
  have r: "r < cap_q q" using assms by (simp add: r_def)
  have "slot_at q i = (r + i) mod cap_q q" for i by (simp add: slot_at_def r_def mod_add_left_eq)
  then show thesis
    using r assms(2) that[of "p - r"] that[of "cap_q q + p - r"] by (cases "r \<le> p") auto
qed

text \<open>
  The walk calls the visitor on the newest entry first and on the oldest last (after one call on
  the null slot at the write index when the queue is not full), and empties every slot.
\<close>

lemma traverse_newest_first:
  fixes q :: "'a sim_queue"
  assumes "wf_q q"
  shows "traverse_and_apply f s q =
    (let (s', c) = visit_all f ((if full_q q then [] else [None]) @ rev (items_q q)) s
     in Inr (s', c, q\<lparr>q_data := replicate (cap_q q) None\<rparr>))"
proof -
  define m where "m = (if full_q q then count_q q - 1 else count_q q)"
  define i where "i = (if full_q q then q_wr q - 1 else q_wr q) AND (q_len q - 1)"
  define d where "d = q_rd q AND (q_len q - 1)"
  note w = assms[unfolded wf_q_def]
  have c0: "0 < cap_q q" by (rule wf_qD[OF assms]) simp
  have m: "m < cap_q q" using w full_q_iff[OF assms] c0 by (auto simp: m_def)
  have d: "unat d = slot_at q 0" using slot_wr(2)[OF assms] by (simp add: d_def slot_def)
  have i: "unat i = slot_at q m"
  proof (cases "full_q q")
    case False
    then show ?thesis using slot_wr(1)[OF assms] by (simp add: i_def slot_def m_def)
  next
    case True
    then have e: "Suc m = count_q q" using full_q_iff[OF assms] c0 by (simp add: m_def)
    have "((q_wr q AND (q_len q - 1)) - 1) AND (q_len q - 1) = i"
    proof -
      obtain k where k: "q_len q = 2 ^ k" "k \<le> 64" using w by auto
      show ?thesis unfolding i_def k(1) and_mask using True
          take_bit_add_left[of k "q_wr q" "- 1"] k by simp
    qed
    then show ?thesis
      using slot_pred[OF assms, of "q_wr q AND (q_len q - 1)" m] slot_wr(1)[OF assms] e by (simp add: slot_def)
  qed
  have len: "length (q_data q) = cap_q q" using w by simp
  have all: "foldr (\<lambda>j D. D[slot_at q j := None]) [0..<Suc m] (q_data q) = replicate (cap_q q) None"
    (is "?F = _")
  proof (rule nth_equalityI)
    have "length (foldr (\<lambda>j D. D[slot_at q j := None]) js D) = length D" for js and D :: "'a option list"
      by (induction js) auto
    then show l: "length ?F = length (replicate (cap_q q) None)" using len by simp
    fix p assume "p < length ?F"
    then have "p < cap_q q" using l by simp
    then obtain j where j: "j < cap_q q" "p = slot_at q j" by (rule slots_surj[OF assms])
    have "q_data q ! slot_at q j = None" if "\<not> j < Suc m"
      using that j w full_q_iff[OF assms] by (auto simp: m_def split: if_splits)
    then have "?F ! p = None"
      using foldr_clear[OF assms len _ j(1), of "Suc m"] m j by (simp split: if_splits)
    then show "?F ! p = replicate (cap_q q) None ! p" using \<open>p < cap_q q\<close> by simp
  qed
  have vis: "map (\<lambda>j. q_data q ! slot_at q j) (rev [0..<Suc m]) = (if full_q q then [] else [None]) @ rev (items_q q)"
  proof (cases "full_q q")
    case True
    then have "Suc m = count_q q" using full_q_iff[OF assms] c0 by (simp add: m_def)
    then show ?thesis using True by (simp add: items_q_def rev_map del: upt_Suc)
  next
    case False
    then have "\<not> count_q q = cap_q q" using full_q_iff[OF assms] by simp
    then show ?thesis using w False by (simp add: m_def items_q_def rev_map)
  qed
  have "traverse_loop f (cap_q q) i d s 0 (q\<lparr>q_data := q_data q\<rparr>) =
    (let (s', n) = visit_all f ((if full_q q then [] else [None]) @ rev (items_q q)) s
     in Inr (s', 0 + n, q\<lparr>q_data := replicate (cap_q q) None\<rparr>))"
    using traverse_loop_visits[OF assms d i m m len, of f s 0] by (simp only: all vis)
  then show ?thesis by (simp add: traverse_and_apply_def len i_def d_def)
qed

section \<open>The remaining operations\<close>

lemma peek_hd:
  assumes "wf_q q" "items_q q = x # xs"
  shows "peek q = Inr x"
proof -
  have n: "count_q q = Suc (length xs)" using arg_cong[OF assms(2)[unfolded items_q_def], of length] by simp
  have "q_data q ! slot_at q 0 = x" using assms(2) n
    by (simp add: items_q_def upt_conv_Cons del: upt_Suc)
  then show ?thesis
    using n slot_wr(2,4)[OF assms(1)] by (simp add: peek_def at_q_def full_q_iff(2)[OF assms(1)])
qed

lemma peek_next_pop_second:
  assumes "wf_q q" "1 < cap_q q"
  shows "peek_next_pop q = Inr (if length (items_q q) \<le> 1 then None else items_q q ! 1)"
proof -
  note w = assms(1)[unfolded wf_q_def]
  have "slot q ((q_rd q + 1) AND (q_len2 q - 1)) = slot_at q 1"
  proof -
    obtain c where c: "cap_q q = c" "\<And>x. unat (x AND (q_len q - 1)) = unat x mod c" by (rule wf_qD[OF assms(1)]) blast
    have "slot q ((q_rd q + 1) AND (q_len2 q - 1)) = unat ((q_rd q + 1) AND (q_len2 q - 1)) mod c"
      using c by (simp add: slot_def)
    also have "\<dots> = (unat (q_rd q) + 1) mod c" using q_succ(1)[OF assms(1), of "q_rd q"] w c by auto
    finally show ?thesis by (simp add: slot_at_def c)
  qed
  then show ?thesis
    using slot_wr(4)[OF assms(1)] w assms(2) by (auto simp: peek_next_pop_def at_q_def items_q_def)
qed

lemma clear_q_ok:
  assumes "wf_q q"
  shows "wf_q (clear_q q)" "cap_q (clear_q q) = cap_q q" "items_q (clear_q q) = []"
proof -
  obtain c where c: "cap_q q = c" "0 < c" by (rule wf_qD[OF assms]) blast
  have "q_rd q < q_len2 q" using assms unfolding wf_q_def by blast
  then have "unat (q_len2 q) = 2 * c" using q_succ(4)[OF assms] c by simp
  then have "0 < q_len2 q" using c by (simp add: word_less_nat_alt)
  then show "wf_q (clear_q q)" "cap_q (clear_q q) = cap_q q" "items_q (clear_q q) = []"
    using assms c by (auto simp: wf_q_def clear_q_def cap_q_def count_q_def items_q_def slot_at_def)
qed

text \<open>
  The member \<open>size\<close> is not the number of elements: it counts the whole index range for an empty
  queue, and the complement once the write index has wrapped.
\<close>

lemma size_q_empty: "wf_q q \<Longrightarrow> items_q q = [] \<Longrightarrow> size_q q = q_len2 q"
  using full_q_iff(2)[of q] by (simp add: items_q_def empty_q_def size_q_def)

section \<open>Properties\<close>

text \<open>
  C16. The ring buffer is a bounded queue: for a capacity of any power of two up to \<open>2\<^sup>6\<^sup>2\<close> and
  any sequence of pushes and pops from the constructor on, the popped values and the final
  content are those of a list with the same bound, and the run fails an assertion exactly where
  the list is full or empty.
\<close>

theorem queue_runs_as_list:
  assumes "k \<le> 62"
  shows "rbind (new_queue (2 ^ k)) (\<lambda>q. rbind (run_ops push pop q ops) (\<lambda>(q', out). Inr (items_q q', out)))
    = spec_ops (2 ^ k) [] ops"
proof (rule new_queue_ok[OF assms])
  fix q :: "'a sim_queue"
  assume q: "new_queue (2 ^ k) = Inr q" "wf_q q" "cap_q q = 2 ^ k" "items_q q = []"
  show ?thesis using rq.run_refines[OF q(2), of ops] q by simp
qed

theorem queue_runs_as_list_witness:
  "rbind (new_queue (2 ^ 1)) (\<lambda>q. rbind (run_ops push pop q [Push (Some True), Push None, Pop, Push (Some False), Pop])
     (\<lambda>(q', out). Inr (items_q q', out))) = Inr ([Some False], [Some True, None])"
  using queue_runs_as_list[of 1 "[Push (Some True), Push None, Pop, Push (Some False), Pop]"] by simp

text \<open>
  The rollback walk over the reorder buffer: \<open>traverse_and_apply\<close> calls the visitor on the
  entries from the youngest to the oldest (with one call on the null slot at the write index
  before them unless the queue is full), returns the number of calls that answered true, needs
  no more steps than the capacity, and leaves every slot null.
\<close>

theorem traverse_youngest_first:
  assumes "wf_q q"
  shows "traverse_and_apply f s q =
    (let (s', c) = visit_all f ((if full_q q then [] else [None]) @ rev (items_q q)) s
     in Inr (s', c, q\<lparr>q_data := replicate (cap_q q) None\<rparr>))"
  by (rule traverse_newest_first[OF assms])

definition sample_queue :: "nat sim_queue" where
  "sample_queue = \<lparr>q_len = 4, q_len2 = 8, q_data = [Some 12, Some 13, None, Some 11], q_rd = 7, q_wr = 2\<rparr>"

lemma wf_sample_queue: "wf_q sample_queue"
  unfolding wf_q_def
proof (intro conjI exI[of _ 2])
  show "\<forall>i. count_q sample_queue \<le> i \<longrightarrow> i < cap_q sample_queue \<longrightarrow>
      q_data sample_queue ! slot_at sample_queue i = None"
  proof (intro allI impI)
    fix i assume "count_q sample_queue \<le> i" "i < cap_q sample_queue"
    then have "i = 3" by (simp add: sample_queue_def count_q_def cap_q_def)
    then show "q_data sample_queue ! slot_at sample_queue i = None"
      by (simp add: sample_queue_def slot_at_def cap_q_def)
  qed
qed (simp_all add: sample_queue_def count_q_def cap_q_def)

theorem traverse_youngest_first_witness:
  "traverse_and_apply (\<lambda>s e. (s @ [e], e \<noteq> None)) [] sample_queue =
     Inr ([None, Some 13, Some 12, Some 11], 3, sample_queue\<lparr>q_data := [None, None, None, None]\<rparr>)"
proof -
  have "items_q sample_queue = [Some 11, Some 12, Some 13]" "\<not> full_q sample_queue" "cap_q sample_queue = 4"
    by (simp_all add: sample_queue_def items_q_def count_q_def cap_q_def slot_at_def full_q_def upt_conv_Cons)
  then show ?thesis
    using traverse_youngest_first[OF wf_sample_queue, of "\<lambda>s e. (s @ [e], e \<noteq> None)" "[]"]
    by (simp add: numeral_eq_Suc)
qed

end
