(* ===== verification/Stack.thy ===== *)
theory Stack
  imports Prelude
begin

text \<open>
  \<^verbatim>\<open>sim_ooo/sim_stack.hh\<close>: the circular return address stack of the fetch unit.  It never
  refuses a push: the 64-bit index of the top wraps over a power-of-two array, so the newest
  entries overwrite the oldest.
\<close>

record 'a sim_stack =
  stack_sz :: u64
  st_idx :: u64
  st_arr :: "'a list"

definition new_stack :: "'a \<Rightarrow> u64 \<Rightarrow> 'a sim_stack res" where
  "new_stack z n = ensure AssertFail (isPow2 n)
     (Inr \<lparr>stack_sz = n, st_idx = n - 1, st_arr = replicate (unat n) z\<rparr>)"

definition set_tos_idx :: "u64 \<Rightarrow> 'a sim_stack \<Rightarrow> 'a sim_stack" where
  "set_tos_idx i s = s\<lparr>st_idx := i\<rparr>"

definition get_tos_idx :: "'a sim_stack \<Rightarrow> u64" where
  "get_tos_idx s = st_idx s"

definition copy_stack :: "'a sim_stack \<Rightarrow> 'a sim_stack \<Rightarrow> 'a sim_stack" where
  "copy_stack s other = s\<lparr>stack_sz := stack_sz other, st_idx := st_idx other, st_arr := st_arr other\<rparr>"

definition resize_stack :: "'a \<Rightarrow> u64 \<Rightarrow> 'a sim_stack \<Rightarrow> 'a sim_stack" where
  "resize_stack z n s = s\<lparr>stack_sz := n, st_idx := n - 1, st_arr := replicate (unat n) z\<rparr>"

definition clear_stack :: "'a \<Rightarrow> 'a sim_stack \<Rightarrow> 'a sim_stack" where
  "clear_stack z s = s\<lparr>st_idx := stack_sz s - 1, st_arr := replicate (unat (stack_sz s)) z\<rparr>"

definition size_stack :: "'a sim_stack \<Rightarrow> u64" where
  "size_stack s = st_idx s + 1"

definition push_st :: "'a \<Rightarrow> 'a sim_stack \<Rightarrow> 'a sim_stack res" where
  "push_st v s = ensure Undefined (unat (st_idx s) < length (st_arr s))
     (Inr (s\<lparr>st_arr := (st_arr s)[unat (st_idx s) := v],
             st_idx := (st_idx s - 1) AND (stack_sz s - 1)\<rparr>))"

definition pop_st :: "'a sim_stack \<Rightarrow> ('a sim_stack \<times> 'a) res" where
  "pop_st s = (let i = (st_idx s + 1) AND (stack_sz s - 1)
     in ensure Undefined (unat i < length (st_arr s))
          (Inr (s\<lparr>st_idx := i\<rparr>, st_arr s ! unat i)))"

section \<open>Well-formed stacks\<close>

definition wf_st :: "'a sim_stack \<Rightarrow> bool" where
  "wf_st s \<longleftrightarrow> (\<exists>k \<le> 62. stack_sz s = 2 ^ k) \<and> length (st_arr s) = unat (stack_sz s)
     \<and> st_idx s < stack_sz s"

lemma wf_stD:
  assumes "wf_st s"
  obtains n where "0 < n" "unat (stack_sz s) = n" "length (st_arr s) = n" "unat (st_idx s) < n"
    "unat ((st_idx s - 1) AND (stack_sz s - 1)) = (unat (st_idx s) + (n - 1)) mod n"
    "unat ((st_idx s + 1) AND (stack_sz s - 1)) = (unat (st_idx s) + 1) mod n"
proof -
  obtain k where k: "k \<le> 62" "stack_sz s = 2 ^ k" using assms by (auto simp: wf_st_def)
  have n: "unat (2 ^ k :: u64) = 2 ^ k" using k by (intro unat_exp) simp
  have lt: "unat (st_idx s) < 2 ^ k" using assms k n by (simp add: wf_st_def word_less_nat_alt)
  have "(2::nat) ^ k < 2 ^ 63" using k by (intro power_strict_increasing) auto
  then have "unat (st_idx s + 1) = unat (st_idx s) + 1" using lt by (simp add: unat_word_ariths)
  then show thesis
    using assms k n lt unat_pred_mask[of k "st_idx s"] unat_and_pow2[of "st_idx s + 1" k]
    by (intro that[of "2 ^ k"]) (auto simp: wf_st_def)
qed

lemma wf_push_st:
  assumes "wf_st s"
  obtains s' where "push_st v s = Inr s'" "wf_st s'" "stack_sz s' = stack_sz s"
    "st_arr s' = (st_arr s)[unat (st_idx s) := v]"
    "unat (st_idx s') = (unat (st_idx s) + (unat (stack_sz s) - 1)) mod unat (stack_sz s)"
proof -
  obtain n where n: "0 < n" "unat (stack_sz s) = n" "length (st_arr s) = n" "unat (st_idx s) < n"
    "unat ((st_idx s - 1) AND (stack_sz s - 1)) = (unat (st_idx s) + (n - 1)) mod n"
    by (rule wf_stD[OF assms])
  then show thesis using assms
    by (intro that[of "s\<lparr>st_arr := (st_arr s)[unat (st_idx s) := v], st_idx := (st_idx s - 1) AND (stack_sz s - 1)\<rparr>"])
      (auto simp: push_st_def wf_st_def word_less_nat_alt)
qed

lemma wf_pop_st:
  assumes "wf_st s"
  obtains s' where "pop_st s = Inr (s', st_arr s ! unat (st_idx s'))" "wf_st s'"
    "stack_sz s' = stack_sz s" "st_arr s' = st_arr s"
    "unat (st_idx s') = (unat (st_idx s) + 1) mod unat (stack_sz s)"
proof -
  obtain n where n: "0 < n" "unat (stack_sz s) = n" "length (st_arr s) = n" "unat (st_idx s) < n"
    "unat ((st_idx s + 1) AND (stack_sz s - 1)) = (unat (st_idx s) + 1) mod n"
    by (rule wf_stD[OF assms])
  then show thesis using assms
    by (intro that[of "s\<lparr>st_idx := (st_idx s + 1) AND (stack_sz s - 1)\<rparr>"])
      (auto simp: pop_st_def wf_st_def word_less_nat_alt Let_def)
qed

fun push_all :: "'a list \<Rightarrow> 'a sim_stack \<Rightarrow> 'a sim_stack res" where
  "push_all [] s = Inr s"
| "push_all (v # vs) s = rbind (push_st v s) (push_all vs)"

fun pop_n :: "nat \<Rightarrow> 'a sim_stack \<Rightarrow> ('a sim_stack \<times> 'a list) res" where
  "pop_n 0 s = Inr (s, [])"
| "pop_n (Suc n) s = rbind (pop_st s) (\<lambda>(s1, v). rbind (pop_n n s1) (\<lambda>(s2, vs). Inr (s2, v # vs)))"

lemma pop_n_Suc: "pop_n (Suc n) s = rbind (pop_n n s) (\<lambda>(s1, vs). rbind (pop_st s1) (\<lambda>(s2, v). Inr (s2, vs @ [v])))"
proof (induction n arbitrary: s)
  case (Suc n)
  have "pop_n (Suc (Suc n)) s = rbind (pop_st s) (\<lambda>(s1, v).
      rbind (pop_n (Suc n) s1) (\<lambda>(s2, vs). Inr (s2, v # vs)))"
    by (rule pop_n.simps)
  also have "\<dots> = rbind (rbind (pop_st s) (\<lambda>(s1, v). rbind (pop_n n s1) (\<lambda>(s2, vs). Inr (s2, v # vs))))
      (\<lambda>(s1, vs). rbind (pop_st s1) (\<lambda>(s2, v). Inr (s2, vs @ [v])))"
    unfolding Suc.IH by (cases "pop_st s") (simp_all add: rbind_assoc split_def)
  finally show ?case by simp
qed (simp add: split_def)

lemma push_all_pop_n:
  assumes "wf_st s" "length vs \<le> unat (stack_sz s)"
  shows "\<exists>s1 s2. push_all vs s = Inr s1 \<and> wf_st s1 \<and> pop_n (length vs) s1 = Inr (s2, rev vs) \<and> wf_st s2
    \<and> stack_sz s2 = stack_sz s \<and> st_idx s2 = st_idx s \<and>
    (\<forall>j < unat (stack_sz s). (\<forall>i < length vs. j \<noteq> (unat (st_idx s) + (unat (stack_sz s) - i)) mod unat (stack_sz s))
       \<longrightarrow> st_arr s2 ! j = st_arr s ! j)"
  using assms
proof (induction vs arbitrary: s)
  case (Cons v vs)
  define n where "n = unat (stack_sz s)"
  define t where "t = unat (st_idx s)"
  have nt: "0 < n" "t < n" "length (st_arr s) = n"
    by (rule wf_stD[OF Cons.prems(1)], simp add: n_def t_def)+
  obtain s0 where s0: "push_st v s = Inr s0" "wf_st s0" "stack_sz s0 = stack_sz s"
    "st_arr s0 = (st_arr s)[t := v]" "unat (st_idx s0) = (t + (n - 1)) mod n"
    using wf_push_st[OF Cons.prems(1)] unfolding n_def t_def by blast
  have "length vs \<le> unat (stack_sz s0)" using Cons.prems s0 by simp
  from Cons.IH[OF s0(2) this] obtain s1 s2 where s1: "push_all vs s0 = Inr s1" "wf_st s1"
    "pop_n (length vs) s1 = Inr (s2, rev vs)" "wf_st s2" "stack_sz s2 = stack_sz s" "st_idx s2 = st_idx s0"
    and keep: "\<And>j. j < n \<Longrightarrow> (\<And>i. i < length vs \<Longrightarrow> j \<noteq> (unat (st_idx s0) + (n - i)) mod n)
       \<Longrightarrow> st_arr s2 ! j = st_arr s0 ! j"
    using s0(3) n_def by auto
  have pos: "(unat (st_idx s0) + (n - i)) mod n = (t + (n - Suc i)) mod n" if "i < length vs" for i
  proof -
    have "i < n" using that Cons.prems(2) by (simp add: n_def)
    have "(unat (st_idx s0) + (n - i)) mod n = (t + (n - 1) + (n - i)) mod n"
      by (simp only: s0(5) mod_add_left_eq)
    also have "t + (n - 1) + (n - i) = n + (t + (n - Suc i))" using \<open>i < n\<close> by simp
    finally show ?thesis by simp
  qed
  obtain s3 where s3: "pop_st s2 = Inr (s3, st_arr s2 ! unat (st_idx s3))" "wf_st s3" "stack_sz s3 = stack_sz s"
    "st_arr s3 = st_arr s2" "unat (st_idx s3) = (unat (st_idx s2) + 1) mod n"
    using wf_pop_st[OF s1(4)] s1(5) n_def by metis
  have "unat (st_idx s3) = (t + (n - 1) + 1) mod n"
    by (simp only: s3(5) s1(6) s0(5) mod_add_left_eq)
  then have t3: "unat (st_idx s3) = t" using nt by simp
  have "t \<noteq> (t + (n - Suc i)) mod n" if "i < length vs" for i
    using mod_add_left_cancel[of t 0 n "n - Suc i"] that Cons.prems(2) nt by (simp add: n_def)
  then have v: "st_arr s2 ! t = v" using keep[of t] pos nt s0(4) by simp
  have "pop_n (length (v # vs)) s1 = Inr (s3, rev (v # vs))"
    using s1(3) s3(1) t3 v by (simp only: list.size pop_n_Suc add_0_right add_Suc_right) simp
  moreover have "st_arr s3 ! j = st_arr s ! j"
    if j: "j < n" "\<And>i. i < length (v # vs) \<Longrightarrow> j \<noteq> (t + (n - i)) mod n" for j
  proof -
    have "j \<noteq> t" using j(2)[of 0] nt by simp
    moreover have "j \<noteq> (unat (st_idx s0) + (n - i)) mod n" if "i < length vs" for i
      using j(2)[of "Suc i"] that pos[OF that] by simp
    ultimately show ?thesis using keep[OF j(1)] s3(4) s0(4) by simp
  qed
  ultimately show ?case
    using s0 s1 s3 t3 unfolding n_def t_def by (auto simp: word_unat_eq_iff)
qed simp

section \<open>Properties\<close>

text \<open>
  C29. The return stack is last-in first-out up to its capacity: after any pushes no more than
  the capacity, as many pops return the pushed values in reverse order and leave the top index
  where it was, wherever it started in the circular array.
\<close>

theorem return_stack_lifo:
  assumes "wf_st s" "length vs \<le> unat (stack_sz s)"
  shows "\<exists>s1 s2. push_all vs s = Inr s1 \<and> pop_n (length vs) s1 = Inr (s2, rev vs)
    \<and> get_tos_idx s2 = get_tos_idx s"
  using push_all_pop_n[OF assms] by (auto simp: get_tos_idx_def)

theorem return_stack_lifo_witness:
  "\<exists>s1 s2. push_all [5, 6, 7] \<lparr>stack_sz = 4, st_idx = 1, st_arr = [0, 0, 0, 0 :: nat]\<rparr> = Inr s1
    \<and> pop_n 3 s1 = Inr (s2, [7, 6, 5]) \<and> get_tos_idx s2 = 1"
proof -
  define s where "s = \<lparr>stack_sz = 4, st_idx = 1, st_arr = [0, 0, 0, 0 :: nat]\<rparr>"
  have "wf_st s" unfolding wf_st_def by (intro conjI exI[of _ 2]) (simp_all add: s_def)
  from return_stack_lifo[OF this, of "[5, 6, 7]"] show ?thesis
    by (simp add: s_def get_tos_idx_def numeral_3_eq_3)
qed

end
