(* ===== verification/Doubly_Linked.thy ===== *)
theory Doubly_Linked
  imports Prelude
begin

text \<open>
  The doubly linked entries shared by \<^verbatim>\<open>sim_ooo/sim_list.hh\<close> and by the class \<open>mylist\<close> of
  \<^verbatim>\<open>sim_ooo/sim_cache.hh\<close>: an explicit store from addresses to nodes, the pointer writes of
  \<open>unlink\<close>, \<open>set_from_head\<close> and \<open>set_from_tail\<close>, and the relation \<open>dlseg\<close> that reads a list
  of addresses off the store.  A null pointer is \<open>None\<close>; an access through a null pointer or to
  a freed address is \<open>Undefined\<close>.
\<close>

record 'a node =
  nnext :: "nat option"
  nprev :: "nat option"
  ndata :: 'a

type_synonym 'a heap = "nat \<rightharpoonup> 'a node"

definition get_node :: "'a heap \<Rightarrow> nat option \<Rightarrow> 'a node res" where
  "get_node h p = (case p of None \<Rightarrow> Inl Undefined
     | Some a \<Rightarrow> (case h a of None \<Rightarrow> Inl Undefined | Some n \<Rightarrow> Inr n))"

definition upd_node :: "nat option \<Rightarrow> ('a node \<Rightarrow> 'a node) \<Rightarrow> 'a heap \<Rightarrow> 'a heap res" where
  "upd_node p f h = (case p of None \<Rightarrow> Inl Undefined
     | Some a \<Rightarrow> (case h a of None \<Rightarrow> Inl Undefined | Some n \<Rightarrow> Inr (h(a \<mapsto> f n))))"

definition unlink :: "nat \<Rightarrow> 'a heap \<Rightarrow> 'a heap res" where
  "unlink p h = rbind (get_node h (Some p)) (\<lambda>n.
     rbind (if nnext n = None then Inr h else upd_node (nnext n) (nprev_update (\<lambda>_. nprev n)) h) (\<lambda>h1.
     rbind (get_node h1 (Some p)) (\<lambda>n1.
       if nprev n1 = None then Inr h1 else upd_node (nprev n1) (nnext_update (\<lambda>_. nnext n1)) h1)))"

definition clear_node :: "nat \<Rightarrow> 'a heap \<Rightarrow> 'a heap res" where
  "clear_node p h = upd_node (Some p) (\<lambda>n. n\<lparr>nnext := None, nprev := None\<rparr>) h"

text \<open>Append \<open>p\<close> after node \<open>l\<close>, and put \<open>p\<close> before node \<open>r\<close>.\<close>

definition link_after :: "nat \<Rightarrow> nat option \<Rightarrow> 'a heap \<Rightarrow> 'a heap res" where
  "link_after p l h = rbind (upd_node l (nnext_update (\<lambda>_. Some p)) h)
     (upd_node (Some p) (nprev_update (\<lambda>_. l)))"

definition link_before :: "nat \<Rightarrow> nat option \<Rightarrow> 'a heap \<Rightarrow> 'a heap res" where
  "link_before p r h = rbind (upd_node r (nprev_update (\<lambda>_. Some p)) h)
     (upd_node (Some p) (nnext_update (\<lambda>_. r)))"

section \<open>Lists in the store\<close>

definition first_of :: "nat list \<Rightarrow> nat option \<Rightarrow> nat option" where
  "first_of ps e = (case ps of [] \<Rightarrow> e | p # _ \<Rightarrow> Some p)"

definition last_of :: "nat option \<Rightarrow> nat list \<Rightarrow> nat option" where
  "last_of b ps = (if ps = [] then b else Some (last ps))"

fun dlseg :: "'a heap \<Rightarrow> nat option \<Rightarrow> nat list \<Rightarrow> nat option \<Rightarrow> bool" where
  "dlseg h b [] e = True"
| "dlseg h b (p # ps) e \<longleftrightarrow>
     (\<exists>n. h p = Some n \<and> nprev n = b \<and> nnext n = first_of ps e) \<and> dlseg h (Some p) ps e"

definition data_at :: "'a heap \<Rightarrow> nat \<Rightarrow> 'a" where
  "data_at h p = ndata (the (h p))"

lemma first_of_simps [simp]:
  "first_of [] e = e" "first_of (p # ps) e = Some p"
  "first_of (ps @ qs) e = first_of ps (first_of qs e)"
  by (cases ps; simp add: first_of_def)+

lemma last_of_simps [simp]:
  "last_of b [] = b" "last_of b (p # ps) = last_of (Some p) ps"
  "last_of b (ps @ qs) = last_of (last_of b ps) qs"
  by (auto simp: last_of_def)

lemma first_of_None_iff: "first_of ps None = None \<longleftrightarrow> ps = []"
  by (cases ps) auto

lemma last_of_None_iff: "last_of None ps = None \<longleftrightarrow> ps = []"
  by (auto simp: last_of_def)

lemma last_of_Some_last: "last_of (Some p) ps = Some (last (p # ps))"
  by (simp add: last_of_def)

lemma dlseg_append [simp]:
  "dlseg h b (ps @ qs) e \<longleftrightarrow> dlseg h b ps (first_of qs e) \<and> dlseg h (last_of b ps) qs e"
  by (induction ps arbitrary: b) auto

lemma dlseg_cong:
  "(\<And>p. p \<in> set ps \<Longrightarrow> h' p = h p) \<Longrightarrow> dlseg h' b ps e = dlseg h b ps e"
  by (induction ps arbitrary: b) auto

lemma dlseg_upd_other [simp]: "p \<notin> set ps \<Longrightarrow> dlseg (h(p \<mapsto> n)) b ps e = dlseg h b ps e"
  by (rule dlseg_cong) auto

lemma dlseg_free_other [simp]: "p \<notin> set ps \<Longrightarrow> dlseg (h(p := x)) b ps e = dlseg h b ps e"
  by (rule dlseg_cong) auto

lemma dlseg_Some: "dlseg h b ps e \<Longrightarrow> p \<in> set ps \<Longrightarrow> \<exists>n. h p = Some n"
  by (induction ps arbitrary: b) (auto split: option.splits)

lemma data_at_upd [simp]: "data_at (h(p \<mapsto> n)) q = (if p = q then ndata n else data_at h q)"
  by (simp add: data_at_def)

text \<open>The two ends of a segment can be redirected by one write.\<close>

lemma dlseg_set_last:
  assumes "dlseg h b (ps @ [p]) e" "distinct (ps @ [p])"
  obtains n where "h p = Some n" "dlseg (h(p \<mapsto> n\<lparr>nnext := e'\<rparr>)) b (ps @ [p]) e'"
  using assms by (auto split: option.splits)

lemma dlseg_set_first:
  assumes "dlseg h b (p # ps) e" "distinct (p # ps)"
  obtains n where "h p = Some n" "dlseg (h(p \<mapsto> n\<lparr>nprev := b'\<rparr>)) b' (p # ps) e"
  using assms by (auto split: option.splits)

section \<open>Unlinking\<close>

lemma unlink_dlseg:
  assumes "dlseg h None (ps @ p # qs) None" "distinct (ps @ p # qs)"
  shows "\<exists>h'. unlink p h = Inr h' \<and> dlseg h' None (ps @ qs) None \<and> h' p = h p \<and> dom h' = dom h
    \<and> (\<forall>a. data_at h' a = data_at h a) \<and> (\<forall>a. a \<notin> set (ps @ qs) \<longrightarrow> h' a = h a)"
proof -
  obtain n where n: "h p = Some n" "nprev n = last_of None ps" "nnext n = first_of qs None"
    using assms(1) by (auto split: option.splits)
  define h1 where "h1 = (case qs of [] \<Rightarrow> h | q # _ \<Rightarrow> h(q \<mapsto> (the (h q))\<lparr>nprev := last_of None ps\<rparr>))"
  have u1: "(if nnext n = None then Inr h else upd_node (nnext n) (nprev_update (\<lambda>_. nprev n)) h) = Inr h1"
    using assms n by (cases qs) (auto simp: h1_def upd_node_def split: option.splits)
  have s1: "dlseg h1 (last_of None ps) qs None" "dlseg h1 None ps (Some p)" "h1 p = Some n" "dom h1 = dom h"
    "\<And>a. data_at h1 a = data_at h a" "\<And>a. a \<notin> set qs \<Longrightarrow> h1 a = h a"
    using assms n by (cases qs; auto simp: h1_def data_at_def split: option.splits)+
  define h2 where "h2 = (if ps = [] then h1 else h1(last ps \<mapsto> (the (h1 (last ps)))\<lparr>nnext := first_of qs None\<rparr>))"
  have u2: "(if nprev n = None then Inr h1 else upd_node (nprev n) (nnext_update (\<lambda>_. nnext n)) h1) = Inr h2"
  proof (cases ps rule: rev_cases)
    case (snoc rs r)
    then show ?thesis using s1 n by (auto simp: h2_def upd_node_def split: option.splits)
  qed (use n in \<open>simp add: h2_def\<close>)
  have s2: "dlseg h2 None (ps @ qs) None" "h2 p = h p" "dom h2 = dom h"
    "\<forall>a. data_at h2 a = data_at h a" "\<forall>a. a \<notin> set (ps @ qs) \<longrightarrow> h2 a = h a"
  proof -
    show "dlseg h2 None (ps @ qs) None"
      using s1 assms by (cases ps rule: rev_cases) (auto simp: h2_def split: option.splits)
    show "h2 p = h p" using s1 n assms by (auto simp: h2_def)
    show "dom h2 = dom h" "\<forall>a. data_at h2 a = data_at h a"
      using s1 by (cases ps rule: rev_cases; auto simp: h2_def data_at_def split: option.splits)+
    show "\<forall>a. a \<notin> set (ps @ qs) \<longrightarrow> h2 a = h a" using s1(6) by (auto simp: h2_def)
  qed
  have "unlink p h = Inr h2"
    using n s1(3) u1 u2 by (simp add: unlink_def get_node_def)
  then show ?thesis using s2 by blast
qed

lemma link_after_dlseg:
  assumes "dlseg h None (ps @ [l]) None" "distinct (ps @ [l])" "p \<notin> set (ps @ [l])"
    "h p = Some n" "nnext n = None"
  shows "\<exists>h'. link_after p (Some l) h = Inr h' \<and> dlseg h' None (ps @ [l, p]) None \<and> dom h' = dom h
    \<and> (\<forall>a. data_at h' a = data_at h a) \<and> (\<forall>a. a \<notin> set (ps @ [l, p]) \<longrightarrow> h' a = h a)"
proof -
  obtain m where m: "h l = Some m" using assms(1) by (auto split: option.splits)
  then show ?thesis using assms
    by (auto simp: link_after_def upd_node_def data_at_def split: option.splits)
qed

lemma link_before_dlseg:
  assumes "dlseg h None (r # ps) None" "distinct (r # ps)" "p \<notin> set (r # ps)"
    "h p = Some n" "nprev n = None"
  shows "\<exists>h'. link_before p (Some r) h = Inr h' \<and> dlseg h' None (p # r # ps) None \<and> dom h' = dom h
    \<and> (\<forall>a. data_at h' a = data_at h a) \<and> (\<forall>a. a \<notin> set (p # r # ps) \<longrightarrow> h' a = h a)"
proof -
  obtain m where m: "h r = Some m" using assms(1) by (auto split: option.splits)
  then show ?thesis using assms
    by (auto simp: link_before_def upd_node_def data_at_def split: option.splits)
qed

text \<open>Walking the next pointers visits the list; fuel above its length is enough.\<close>

fun walk :: "nat \<Rightarrow> 'a heap \<Rightarrow> nat option \<Rightarrow> nat list res" where
  "walk k h None = Inr []"
| "walk 0 h (Some p) = Inl OutOfFuel"
| "walk (Suc k) h (Some p) = rbind (get_node h (Some p)) (\<lambda>n.
     rbind (walk k h (nnext n)) (\<lambda>ps. Inr (p # ps)))"

lemma walk_dlseg: "dlseg h b ps None \<Longrightarrow> length ps \<le> k \<Longrightarrow> walk k h (first_of ps None) = Inr ps"
proof (induction ps arbitrary: k b)
  case (Cons p ps)
  then obtain k' where "k = Suc k'" by (cases k) auto
  then show ?case using Cons by (auto simp: get_node_def split: option.splits)
qed simp

end
