(* ===== verification/My_List.thy ===== *)
theory My_List
  imports Doubly_Linked
begin

text \<open>
  The class \<open>mylist\<close> of \<^verbatim>\<open>sim_ooo/sim_cache.hh\<close>, the recency list of a cache set.  Entries come
  from a \<open>boost::object_pool\<close>; that allocator is the parameter \<open>fresh\<close>, a function from the
  store to the address it hands out, and the lemmas assume of it only that the address is not
  in use (\<open>fresh_ok\<close>).  An iterator is a node address with its distance from the head.
\<close>

record 'a mylist =
  ml_cnt :: nat
  ml_head :: "nat option"
  ml_tail :: "nat option"
  ml_heap :: "'a heap"

definition new_mylist :: "'a mylist" where
  "new_mylist = \<lparr>ml_cnt = 0, ml_head = None, ml_tail = None, ml_heap = Map.empty\<rparr>"

definition alloc_ml :: "('a heap \<Rightarrow> nat) \<Rightarrow> 'a \<Rightarrow> 'a mylist \<Rightarrow> 'a mylist \<times> nat" where
  "alloc_ml fresh v l = (let e = fresh (ml_heap l)
     in (l\<lparr>ml_heap := (ml_heap l)(e \<mapsto> \<lparr>nnext = None, nprev = None, ndata = v\<rparr>)\<rparr>, e))"

definition free_ml :: "nat \<Rightarrow> 'a mylist \<Rightarrow> 'a mylist" where
  "free_ml p l = l\<lparr>ml_heap := (ml_heap l)(p := None)\<rparr>"

definition push_back :: "('a heap \<Rightarrow> nat) \<Rightarrow> 'a \<Rightarrow> 'a mylist \<Rightarrow> 'a mylist res" where
  "push_back fresh v l = (let (l1, e) = alloc_ml fresh v l;
       l2 = l1\<lparr>ml_cnt := ml_cnt l1 + 1\<rparr>
     in if ml_head l2 = None \<and> ml_tail l2 = None then Inr (l2\<lparr>ml_head := Some e, ml_tail := Some e\<rparr>)
        else rbind (link_after e (ml_tail l2) (ml_heap l2)) (\<lambda>h.
          Inr (l2\<lparr>ml_heap := h, ml_tail := Some e\<rparr>)))"

definition push_front :: "('a heap \<Rightarrow> nat) \<Rightarrow> 'a \<Rightarrow> 'a mylist \<Rightarrow> 'a mylist res" where
  "push_front fresh v l = (let (l1, e) = alloc_ml fresh v l;
       l2 = l1\<lparr>ml_cnt := ml_cnt l1 + 1\<rparr>
     in if ml_head l2 = None \<and> ml_tail l2 = None then Inr (l2\<lparr>ml_head := Some e, ml_tail := Some e\<rparr>)
        else rbind (link_before e (ml_head l2) (ml_heap l2)) (\<lambda>h.
          Inr (l2\<lparr>ml_heap := h, ml_head := Some e\<rparr>)))"

text \<open>The head is left alone, also when the last entry goes.\<close>

definition pop_back :: "'a mylist \<Rightarrow> 'a mylist res" where
  "pop_back l = (case ml_tail l of None \<Rightarrow> Inr l | Some p \<Rightarrow>
     rbind (unlink p (ml_heap l)) (\<lambda>h. rbind (get_node h (Some p)) (\<lambda>n.
       let l1 = free_ml p (l\<lparr>ml_heap := h, ml_tail := nprev n\<rparr>)
       in Inr (l1\<lparr>ml_cnt := ml_cnt l1 - 1\<rparr>))))"

fun find_from :: "nat \<Rightarrow> 'a heap \<Rightarrow> 'a \<Rightarrow> nat option \<Rightarrow> int \<Rightarrow> (nat option \<times> int) res" where
  "find_from k h v None d = Inr (None, -1)"
| "find_from 0 h v (Some p) d = Inl OutOfFuel"
| "find_from (Suc k) h v (Some p) d = rbind (get_node h (Some p)) (\<lambda>n.
     if ndata n = v then Inr (Some p, d) else find_from k h v (nnext n) (d + 1))"

definition find_ml :: "'a \<Rightarrow> 'a mylist \<Rightarrow> (nat option \<times> int) res" where
  "find_ml v l = find_from (Suc (ml_cnt l)) (ml_heap l) v (ml_head l) 0"

definition unlink_ends :: "nat \<Rightarrow> 'a mylist \<Rightarrow> 'a mylist res" where
  "unlink_ends p l = rbind (unlink p (ml_heap l)) (\<lambda>h. rbind (get_node h (Some p)) (\<lambda>n.
     let l1 = l\<lparr>ml_heap := h\<rparr>;
         l2 = (if Some p = ml_head l1 then l1\<lparr>ml_head := nnext n\<rparr> else l1)
     in Inr (if Some p = ml_tail l2 then l2\<lparr>ml_tail := nprev n\<rparr> else l2)))"

definition move_to_tail :: "nat option \<Rightarrow> 'a mylist \<Rightarrow> 'a mylist res" where
  "move_to_tail it l = (if ml_cnt l \<le> 1 then Inr l else case it of None \<Rightarrow> Inl Undefined | Some p \<Rightarrow>
     rbind (unlink_ends p l) (\<lambda>l1. rbind (clear_node p (ml_heap l1)) (\<lambda>h.
     rbind (link_after p (ml_tail l1) h) (\<lambda>h1. Inr (l1\<lparr>ml_heap := h1, ml_tail := Some p\<rparr>)))))"

definition move_to_head :: "nat option \<Rightarrow> 'a mylist \<Rightarrow> 'a mylist res" where
  "move_to_head it l = (if ml_cnt l \<le> 1 then Inr l else case it of None \<Rightarrow> Inl Undefined | Some p \<Rightarrow>
     rbind (unlink_ends p l) (\<lambda>l1. rbind (clear_node p (ml_heap l1)) (\<lambda>h.
     rbind (link_before p (ml_head l1) h) (\<lambda>h1. Inr (l1\<lparr>ml_heap := h1, ml_head := Some p\<rparr>)))))"

definition erase_ml :: "nat option \<Rightarrow> 'a mylist \<Rightarrow> 'a mylist res" where
  "erase_ml it l = (case it of None \<Rightarrow> Inr l | Some p \<Rightarrow>
     rbind (unlink_ends p l) (\<lambda>l1. let l2 = free_ml p l1 in Inr (l2\<lparr>ml_cnt := ml_cnt l2 - 1\<rparr>)))"

fun clear_from :: "nat \<Rightarrow> nat option \<Rightarrow> 'a mylist \<Rightarrow> 'a mylist res" where
  "clear_from k None l = Inr l"
| "clear_from 0 (Some p) l = Inl OutOfFuel"
| "clear_from (Suc k) (Some p) l = rbind (get_node (ml_heap l) (Some p)) (\<lambda>n.
     rbind (unlink p (ml_heap l)) (\<lambda>h.
       let l1 = free_ml p (l\<lparr>ml_heap := h\<rparr>) in clear_from k (nnext n) (l1\<lparr>ml_cnt := ml_cnt l1 - 1\<rparr>)))"

definition clear_ml :: "'a mylist \<Rightarrow> 'a mylist res" where
  "clear_ml l = rbind (clear_from (Suc (ml_cnt l)) (ml_head l) l) (\<lambda>l1.
     ensure AssertFail (ml_cnt l1 = 0) (Inr (l1\<lparr>ml_head := None, ml_tail := None\<rparr>)))"

definition size_ml :: "'a mylist \<Rightarrow> nat" where
  "size_ml l = ml_cnt l"

section \<open>The list a well-formed store represents\<close>

definition fresh_ok :: "nat \<Rightarrow> ('a heap \<Rightarrow> nat) \<Rightarrow> bool" where
  "fresh_ok n fresh \<longleftrightarrow> (\<forall>h. finite (dom h) \<and> card (dom h) < n \<longrightarrow> h (fresh h) = None)"

text \<open>A first-fit allocator over \<open>n\<close> addresses meets the assumption.\<close>

definition first_fit :: "nat \<Rightarrow> 'a heap \<Rightarrow> nat" where
  "first_fit n h = (case List.find (\<lambda>a. h a = None) [0..<n] of None \<Rightarrow> 0 | Some a \<Rightarrow> a)"

lemma fresh_ok_first_fit: "fresh_ok n (first_fit n)"
  unfolding fresh_ok_def
proof (intro allI impI, elim conjE)
  fix h :: "'a heap" assume fin: "finite (dom h)" "card (dom h) < n"
  have "\<not> {..<n} \<subseteq> dom h" using card_mono[OF fin(1), of "{..<n}"] fin(2) by auto
  then have "List.find (\<lambda>a. h a = None) [0..<n] \<noteq> None" by (auto simp: find_None_iff)
  then obtain a where a: "List.find (\<lambda>a. h a = None) [0..<n] = Some a" by blast
  then have "h a = None" by (auto simp: find_Some_iff)
  then show "h (first_fit n h) = None" using a by (simp add: first_fit_def)
qed

definition ml_chain :: "'a mylist \<Rightarrow> nat list \<Rightarrow> bool" where
  "ml_chain l ps \<longleftrightarrow> dlseg (ml_heap l) None ps None \<and> distinct ps \<and> ml_head l = first_of ps None
     \<and> ml_tail l = last_of None ps \<and> ml_cnt l = length ps \<and> dom (ml_heap l) = set ps"

definition nodes_ml :: "'a mylist \<Rightarrow> nat list" where
  "nodes_ml l = (case walk (ml_cnt l) (ml_heap l) (ml_head l) of Inl _ \<Rightarrow> [] | Inr ps \<Rightarrow> ps)"

definition wf_ml :: "'a mylist \<Rightarrow> bool" where
  "wf_ml l \<longleftrightarrow> ml_chain l (nodes_ml l)"

definition items_ml :: "'a mylist \<Rightarrow> 'a list" where
  "items_ml l = map (data_at (ml_heap l)) (nodes_ml l)"

lemma ml_chain_nodes:
  "ml_chain l ps \<Longrightarrow> nodes_ml l = ps \<and> wf_ml l \<and> items_ml l = map (data_at (ml_heap l)) ps"
  using walk_dlseg[of "ml_heap l" None ps "ml_cnt l"]
  by (auto simp: ml_chain_def nodes_ml_def wf_ml_def items_ml_def)

lemma ml_chainD:
  assumes "ml_chain l ps"
  shows "dlseg (ml_heap l) None ps None" "distinct ps" "ml_head l = first_of ps None"
    "ml_tail l = last_of None ps" "ml_cnt l = length ps" "dom (ml_heap l) = set ps"
  using assms by (simp_all add: ml_chain_def)

lemma ml_chain_new [simp]: "ml_chain new_mylist []"
  by (simp add: ml_chain_def new_mylist_def)

lemma map_data_at_cong:
  "(\<And>a. data_at h' a = data_at h a) \<Longrightarrow> map (data_at h') ps = map (data_at h) ps"
  by simp

lemma ml_push_front:
  assumes "ml_chain l ps" "fresh_ok n fresh" "length ps < n"
  shows "\<exists>l' e. push_front fresh v l = Inr l' \<and> ml_chain l' (e # ps)
    \<and> map (data_at (ml_heap l')) (e # ps) = v # map (data_at (ml_heap l)) ps"
proof -
  note c = ml_chainD[OF assms(1)]
  define e where "e = fresh (ml_heap l)"
  have "finite (dom (ml_heap l))" "card (dom (ml_heap l)) < n"
    using c assms(3) distinct_card[of ps] by simp_all
  then have "ml_heap l e = None" using assms(2) by (auto simp: fresh_ok_def e_def)
  then have e: "e \<notin> set ps" using c(6) by auto
  define h where "h = (ml_heap l)(e \<mapsto> \<lparr>nnext = None, nprev = None, ndata = v\<rparr>)"
  have dl: "dlseg h None ps None" using c(1) e by (simp add: h_def)
  have dt: "map (data_at h) ps = map (data_at (ml_heap l)) ps" using e by (auto simp: h_def)
  show ?thesis
  proof (cases ps)
    case Nil
    then show ?thesis using c e
      by (intro exI[of _ "l\<lparr>ml_heap := h, ml_cnt := ml_cnt l + 1, ml_head := Some e, ml_tail := Some e\<rparr>"] exI[of _ e])
        (auto simp: push_front_def alloc_ml_def ml_chain_def e_def h_def Let_def)
  next
    case (Cons r rs)
    obtain h2 where h2: "link_before e (Some r) h = Inr h2" "dlseg h2 None (e # r # rs) None" "dom h2 = dom h"
      "\<forall>a. data_at h2 a = data_at h a"
      using link_before_dlseg[of h r rs e "\<lparr>nnext = None, nprev = None, ndata = v\<rparr>"] dl c(2) e Cons
      by (auto simp: h_def)
    define l' where "l' = l\<lparr>ml_heap := h2, ml_cnt := ml_cnt l + 1, ml_head := Some e\<rparr>"
    have "push_front fresh v l = Inr l'"
      using c(3) h2(1) Cons by (simp add: push_front_def alloc_ml_def Let_def e_def[symmetric] h_def l'_def)
    moreover have "dom h2 = set (e # ps)" using h2(3) c(6) by (auto simp: h_def)
    then have "ml_chain l' (e # ps)"
      using h2(2) c(2-5) e Cons by (simp add: ml_chain_def l'_def)
    moreover have "map (data_at (ml_heap l')) (e # ps) = v # map (data_at (ml_heap l)) ps"
      using h2(4) dt by (simp add: l'_def h_def)
    ultimately show ?thesis by (intro exI[of _ l'] exI[of _ e]) simp
  qed
qed

lemma ml_unlink_ends:
  assumes "ml_chain l (ps @ p # qs)"
  shows "\<exists>l'. unlink_ends p l = Inr l' \<and> dlseg (ml_heap l') None (ps @ qs) None
    \<and> ml_head l' = first_of (ps @ qs) None \<and> ml_tail l' = last_of None (ps @ qs) \<and> ml_cnt l' = ml_cnt l
    \<and> dom (ml_heap l') = dom (ml_heap l) \<and> (\<forall>a. data_at (ml_heap l') a = data_at (ml_heap l) a)"
proof -
  note c = ml_chainD[OF assms]
  obtain n where n: "ml_heap l p = Some n" "nprev n = last_of None ps" "nnext n = first_of qs None"
    using c(1) by auto
  obtain h where h: "unlink p (ml_heap l) = Inr h" "dlseg h None (ps @ qs) None" "h p = ml_heap l p"
    "dom h = dom (ml_heap l)" "\<forall>a. data_at h a = data_at (ml_heap l) a"
    using unlink_dlseg[OF c(1,2)] by blast
  define l1 where "l1 = l\<lparr>ml_heap := h\<rparr>"
  define l2 where "l2 = (if Some p = ml_head l1 then l1\<lparr>ml_head := nnext n\<rparr> else l1)"
  define l3 where "l3 = (if Some p = ml_tail l2 then l2\<lparr>ml_tail := nprev n\<rparr> else l2)"
  have eq: "unlink_ends p l = Inr l3"
    using n h(1,3) by (simp add: unlink_ends_def get_node_def l3_def l2_def l1_def Let_def)
  have "ml_head l3 = first_of (ps @ qs) None"
    using c(2,3) n(3) by (cases ps) (auto simp: l3_def l2_def l1_def)
  moreover have "ml_tail l2 = ml_tail l" by (simp add: l2_def l1_def)
  then have "ml_tail l3 = last_of None (ps @ qs)"
    using c(2,4) n(2) by (cases qs rule: rev_cases) (auto simp: l3_def last_of_Some_last)
  moreover have "ml_heap l3 = h" "ml_cnt l3 = ml_cnt l" by (simp_all add: l3_def l2_def l1_def)
  ultimately show ?thesis using eq h(2,4,5) by auto
qed

lemma ml_move_to_head:
  assumes "ml_chain l (ps @ p # qs)"
  shows "\<exists>l'. move_to_head (Some p) l = Inr l' \<and> ml_chain l' (p # ps @ qs)
    \<and> (\<forall>a. data_at (ml_heap l') a = data_at (ml_heap l) a)"
proof (cases "ps @ qs")
  case Nil
  then show ?thesis using assms ml_chainD(5)[OF assms] by (simp add: move_to_head_def)
next
  case (Cons r rs)
  note c = ml_chainD[OF assms]
  have len: "length ps + length qs = Suc (length rs)" using arg_cong[OF Cons, of length] by simp
  then have big: "\<not> ml_cnt l \<le> 1" using c(5) by simp
  obtain l1 where l1: "unlink_ends p l = Inr l1" "dlseg (ml_heap l1) None (ps @ qs) None"
    "ml_head l1 = first_of (ps @ qs) None" "ml_tail l1 = last_of None (ps @ qs)" "ml_cnt l1 = ml_cnt l"
    "dom (ml_heap l1) = dom (ml_heap l)" "\<forall>a. data_at (ml_heap l1) a = data_at (ml_heap l) a"
    using ml_unlink_ends[OF assms] by blast
  have p: "p \<notin> set (ps @ qs)" "distinct (ps @ qs)" using c(2) by auto
  obtain n where n: "ml_heap l1 p = Some n" using l1(6) c(6) by (auto simp: dom_def set_eq_iff)
  define h where "h = (ml_heap l1)(p \<mapsto> n\<lparr>nnext := None, nprev := None\<rparr>)"
  have h: "clear_node p (ml_heap l1) = Inr h" "dlseg h None (ps @ qs) None" "dom h = dom (ml_heap l1)"
    "\<forall>a. data_at h a = data_at (ml_heap l1) a"
    using n l1(2) p by (auto simp: clear_node_def upd_node_def h_def data_at_def)
  obtain h2 where h2: "link_before p (Some r) h = Inr h2" "dlseg h2 None (p # r # rs) None" "dom h2 = dom h"
    "\<forall>a. data_at h2 a = data_at h a"
    using link_before_dlseg[of h r rs p "n\<lparr>nnext := None, nprev := None\<rparr>"] h(2) p Cons by (auto simp: h_def)
  have "move_to_head (Some p) l = Inr (l1\<lparr>ml_heap := h2, ml_head := Some p\<rparr>)"
    using big l1(1,3) h(1) h2(1) Cons by (simp add: move_to_head_def)
  moreover have "dom h2 = set (p # ps @ qs)" using h2(3) h(3) l1(6) c(6) by auto
  then have "ml_chain (l1\<lparr>ml_heap := h2, ml_head := Some p\<rparr>) (p # ps @ qs)"
    using h2(2) p l1(4,5) c(5) Cons len by (simp add: ml_chain_def)
  ultimately show ?thesis using h2(4) h(4) l1(7) by auto
qed

lemma ml_erase:
  assumes "ml_chain l (ps @ p # qs)"
  shows "\<exists>l'. erase_ml (Some p) l = Inr l' \<and> ml_chain l' (ps @ qs)
    \<and> (\<forall>a \<in> set (ps @ qs). data_at (ml_heap l') a = data_at (ml_heap l) a)"
proof -
  note c = ml_chainD[OF assms]
  obtain l1 where l1: "unlink_ends p l = Inr l1" "dlseg (ml_heap l1) None (ps @ qs) None"
    "ml_head l1 = first_of (ps @ qs) None" "ml_tail l1 = last_of None (ps @ qs)" "ml_cnt l1 = ml_cnt l"
    "dom (ml_heap l1) = dom (ml_heap l)" "\<forall>a. data_at (ml_heap l1) a = data_at (ml_heap l) a"
    using ml_unlink_ends[OF assms] by blast
  have p: "p \<notin> set (ps @ qs)" "distinct (ps @ qs)" using c(2) by auto
  define l' where "l' = l1\<lparr>ml_heap := (ml_heap l1)(p := None), ml_cnt := ml_cnt l1 - 1\<rparr>"
  have "erase_ml (Some p) l = Inr l'" using l1(1) by (simp add: erase_ml_def free_ml_def l'_def Let_def)
  moreover have "dom (ml_heap l') = set (ps @ qs)" using l1(6) c(6) p by (auto simp: l'_def)
  moreover have "dlseg (ml_heap l') None (ps @ qs) None"
    using l1(2) p(1) dlseg_free_other[of p "ps @ qs" "ml_heap l1" None None None] by (simp add: l'_def)
  ultimately show ?thesis
    using p l1(3-5,7) c(5) by (auto simp: ml_chain_def l'_def data_at_def)
qed

text \<open>Dropping the last entry is fine while another one remains.\<close>

lemma ml_pop_back:
  assumes "ml_chain l (ps @ [p])" "ps \<noteq> []"
  shows "\<exists>l'. pop_back l = Inr l' \<and> ml_chain l' ps
    \<and> (\<forall>a \<in> set ps. data_at (ml_heap l') a = data_at (ml_heap l) a)"
proof -
  note c = ml_chainD[OF assms(1)]
  obtain n where n: "ml_heap l p = Some n" "nprev n = last_of None ps" "nnext n = None"
    using c(1) by auto
  obtain h where h: "unlink p (ml_heap l) = Inr h" "dlseg h None ps None" "h p = ml_heap l p"
    "dom h = dom (ml_heap l)" "\<forall>a. data_at h a = data_at (ml_heap l) a"
    using unlink_dlseg[of "ml_heap l" ps p "[]"] c(1,2) by auto
  define l' where "l' = l\<lparr>ml_heap := h(p := None), ml_tail := nprev n, ml_cnt := ml_cnt l - 1\<rparr>"
  have "pop_back l = Inr l'"
    using c(4) n(1) h(1,3) by (simp add: pop_back_def free_ml_def get_node_def l'_def Let_def)
  moreover have "dom (ml_heap l') = set ps" using h(4) c(2,6) by (auto simp: l'_def)
  moreover have "ml_head l' = first_of ps None" using c(3) assms(2) by (cases ps) (simp_all add: l'_def)
  moreover have "dlseg (ml_heap l') None ps None" using h(2) c(2) by (simp add: l'_def)
  ultimately show ?thesis
    using h(5) c(2,5) n(2) by (auto simp: ml_chain_def l'_def data_at_def)
qed

lemma find_from_dlseg:
  assumes "dlseg h b ps None" "length ps < k"
  shows "find_from k h v (first_of ps None) d =
    (if v \<in> data_at h ` set ps
     then let i = length (takeWhile (\<lambda>p. data_at h p \<noteq> v) ps) in Inr (Some (ps ! i), d + int i)
     else Inr (None, -1))"
  using assms
proof (induction ps arbitrary: k b d)
  case (Cons p ps)
  then obtain k' where k: "k = Suc k'" by (cases k) auto
  obtain n where n: "h p = Some n" "nnext n = first_of ps None" using Cons.prems by auto
  have d: "data_at h p = ndata n" using n by (simp add: data_at_def)
  show ?case using Cons.IH[of "Some p" k' "d + 1"] Cons.prems k n d
    by (auto simp: get_node_def Let_def)
qed simp

lemma find_ml_chain:
  assumes "ml_chain l ps"
  shows "v \<notin> set (map (data_at (ml_heap l)) ps) \<and> find_ml v l = Inr (None, -1) \<or>
    (\<exists>as p bs. ps = as @ p # bs \<and> data_at (ml_heap l) p = v \<and> v \<notin> data_at (ml_heap l) ` set as
      \<and> find_ml v l = Inr (Some p, int (length as)))"
proof (cases "v \<in> data_at (ml_heap l) ` set ps")
  case True
  then obtain as p bs where *: "ps = as @ p # bs" "data_at (ml_heap l) p = v" "\<forall>a \<in> set as. data_at (ml_heap l) a \<noteq> v"
    using split_list_first_prop[of ps "\<lambda>p. data_at (ml_heap l) p = v"] by (auto simp: image_iff)
  then have "takeWhile (\<lambda>p. data_at (ml_heap l) p \<noteq> v) ps = as" by simp
  then show ?thesis
    using * find_from_dlseg[OF ml_chainD(1)[OF assms], of "Suc (ml_cnt l)" v 0] ml_chainD(3,5)[OF assms] True
    by (intro disjI2 exI[of _ as] exI[of _ p] exI[of _ bs]) (auto simp: find_ml_def Let_def image_iff)
next
  case False
  then show ?thesis
    using find_from_dlseg[OF ml_chainD(1)[OF assms], of "Suc (ml_cnt l)" v 0] ml_chainD(3,5)[OF assms]
    by (auto simp: find_ml_def)
qed

lemma clear_from_chain:
  assumes "dlseg (ml_heap l) None ps None" "distinct ps" "ml_cnt l = length ps" "dom (ml_heap l) = set ps"
    "length ps < k"
  shows "\<exists>l'. clear_from k (first_of ps None) l = Inr l' \<and> ml_cnt l' = 0 \<and> ml_heap l' = Map.empty"
  using assms
proof (induction ps arbitrary: k l)
  case Nil
  then show ?case by auto
next
  case (Cons p ps)
  obtain k' where k: "k = Suc k'" using Cons.prems by (cases k) auto
  obtain n where n: "ml_heap l p = Some n" "nnext n = first_of ps None" using Cons.prems(1) by auto
  obtain h where h: "unlink p (ml_heap l) = Inr h" "dlseg h None ps None" "dom h = dom (ml_heap l)"
    using unlink_dlseg[of "ml_heap l" "[]" p ps] Cons.prems(1,2) by auto
  define l1 where "l1 = l\<lparr>ml_heap := h(p := None), ml_cnt := ml_cnt l - 1\<rparr>"
  have dm: "dom (h(p := None)) = set ps" using h(3) Cons.prems(2,4) by auto
  have eq: "clear_from k (Some p) l = clear_from k' (first_of ps None) l1"
    using k n h(1) by (simp add: get_node_def free_ml_def Let_def l1_def)
  have "dlseg (ml_heap l1) None ps None" using h(2) Cons.prems(2)
      dlseg_free_other[of p ps h None None None] by (simp add: l1_def del: fun_upd_apply)
  moreover have "dom (ml_heap l1) = set ps" using dm by (simp add: l1_def)
  moreover have "distinct ps" "ml_cnt l1 = length ps" "length ps < k'"
    using Cons.prems(2,3,5) k by (simp_all add: l1_def)
  ultimately have "\<exists>l'. clear_from k' (first_of ps None) l1 = Inr l' \<and> ml_cnt l' = 0 \<and> ml_heap l' = Map.empty"
    by (intro Cons.IH)
  then show ?case using eq by (simp only: first_of_simps)
qed

lemma ml_clear:
  assumes "ml_chain l ps"
  shows "\<exists>l'. clear_ml l = Inr l' \<and> ml_chain l' []"
  using clear_from_chain[OF ml_chainD(1,2,5,6)[OF assms], of "Suc (ml_cnt l)"] ml_chainD(3,5)[OF assms]
  by (auto simp: clear_ml_def ml_chain_def)

end
