(* ===== verification/Sim_List.thy ===== *)
theory Sim_List
  imports Doubly_Linked "HOL-Library.Multiset" "HOL-Library.Sublist"
begin

text \<open>
  \<^verbatim>\<open>sim_ooo/sim_list.hh\<close>: the pooled list of pointers behind the reservation stations and the
  caches' miss queues.  The entries are allocated once (address \<open>i\<close> is \<open>entries[i]\<close>) and recycled
  through a pool; the list runs from \<open>tail\<close> (the oldest element, where \<open>pop\<close> takes and
  iteration starts) over the \<open>next\<close> pointers to \<open>head\<close> (where \<open>push\<close> adds).  The element is
  a pointer, \<open>None\<close> when null.  Iterators are node addresses, \<open>end()\<close> is \<open>None\<close>.
\<close>

record 'a sim_list =
  num_entries :: nat
  sl_cnt :: int
  sl_head :: "nat option"
  sl_tail :: "nat option"
  pool_idx :: int
  sl_pool :: "nat list"
  sl_heap :: "'a option heap"

definition new_entry :: "'a option node" where
  "new_entry = \<lparr>nnext = None, nprev = None, ndata = None\<rparr>"

definition new_sim_list :: "nat \<Rightarrow> 'a sim_list" where
  "new_sim_list n = \<lparr>num_entries = n, sl_cnt = 0, sl_head = None, sl_tail = None,
     pool_idx = int n - 1, sl_pool = [0..<n], sl_heap = (\<lambda>p. if p < n then Some new_entry else None)\<rparr>"

definition resize_list :: "nat \<Rightarrow> 'a sim_list \<Rightarrow> 'a sim_list" where
  "resize_list n l = l\<lparr>sl_head := None, sl_tail := None, sl_cnt := 0, num_entries := n,
     pool_idx := int n - 1, sl_pool := [0..<n], sl_heap := (\<lambda>p. if p < n then Some new_entry else None)\<rparr>"

definition clear_list :: "'a sim_list \<Rightarrow> 'a sim_list" where
  "clear_list l = l\<lparr>sl_head := None, sl_tail := None, sl_cnt := 0,
     pool_idx := int (num_entries l) - 1, sl_pool := [0..<num_entries l],
     sl_heap := (\<lambda>p. map_option (ndata_update (\<lambda>_. None)) (sl_heap l p))\<rparr>"

definition alloc_entry :: "'a option \<Rightarrow> 'a sim_list \<Rightarrow> ('a sim_list \<times> nat) res" where
  "alloc_entry v l = ensure AssertFail (0 \<le> pool_idx l)
     (ensure Undefined (pool_idx l < int (length (sl_pool l)))
       (let e = sl_pool l ! nat (pool_idx l)
        in rbind (upd_node (Some e) (\<lambda>_. \<lparr>nnext = None, nprev = None, ndata = v\<rparr>) (sl_heap l))
             (\<lambda>h. Inr (l\<lparr>pool_idx := pool_idx l - 1, sl_heap := h\<rparr>, e))))"

definition dealloc_entry :: "nat \<Rightarrow> 'a sim_list \<Rightarrow> 'a sim_list res" where
  "dealloc_entry e l = ensure AssertFail (pool_idx l < int (num_entries l) - 1)
     (ensure Undefined (0 \<le> pool_idx l + 1 \<and> pool_idx l + 1 < int (length (sl_pool l)))
       (Inr (l\<lparr>pool_idx := pool_idx l + 1, sl_pool := (sl_pool l)[nat (pool_idx l + 1) := e]\<rparr>)))"

definition full_list :: "'a sim_list \<Rightarrow> bool" where
  "full_list l \<longleftrightarrow> sl_cnt l = int (num_entries l)"

definition empty_list :: "'a sim_list \<Rightarrow> bool" where
  "empty_list l \<longleftrightarrow> sl_cnt l = 0"

definition length_sl :: "'a sim_list \<Rightarrow> int" where
  "length_sl l = sl_cnt l"

definition peek_list :: "'a sim_list \<Rightarrow> 'a res" where
  "peek_list l = ensure AssertFail (sl_cnt l \<noteq> 0 \<and> sl_tail l \<noteq> None)
     (rbind (get_node (sl_heap l) (sl_tail l)) (\<lambda>n.
       case ndata n of None \<Rightarrow> Inl AssertFail | Some v \<Rightarrow> Inr v))"

definition peekpeek_list :: "'a sim_list \<Rightarrow> 'a option res" where
  "peekpeek_list l = rbind (get_node (sl_heap l) (sl_tail l)) (\<lambda>n.
     if nnext n = None then Inr None else rbind (get_node (sl_heap l) (nnext n)) (\<lambda>m. Inr (ndata m)))"

definition push_list :: "'a option \<Rightarrow> 'a sim_list \<Rightarrow> 'a sim_list res" where
  "push_list v l = ensure AssertFail (v \<noteq> None) (rbind (alloc_entry v l) (\<lambda>(l1, e).
     let l2 = l1\<lparr>sl_cnt := sl_cnt l1 + 1\<rparr>
     in if sl_head l2 = None \<and> sl_tail l2 = None then Inr (l2\<lparr>sl_head := Some e, sl_tail := Some e\<rparr>)
        else rbind (link_after e (sl_head l2) (sl_heap l2)) (\<lambda>h.
          Inr (l2\<lparr>sl_heap := h, sl_head := Some e\<rparr>))))"

definition pop_list :: "'a sim_list \<Rightarrow> ('a sim_list \<times> 'a option) res" where
  "pop_list l = (case sl_tail l of None \<Rightarrow> Inl AssertFail | Some p \<Rightarrow>
     rbind (get_node (sl_heap l) (Some p)) (\<lambda>n.
     rbind (unlink p (sl_heap l)) (\<lambda>h.
     rbind (get_node h (Some p)) (\<lambda>n1.
       let l1 = l\<lparr>sl_heap := h, sl_tail := nnext n1\<rparr>;
           l2 = (if sl_tail l1 = None then l1\<lparr>sl_head := None\<rparr> else l1)
       in rbind (dealloc_entry p l2) (\<lambda>l3. Inr (l3\<lparr>sl_cnt := sl_cnt l3 - 1\<rparr>, ndata n))))))"

definition begin_list :: "'a sim_list \<Rightarrow> nat option" where
  "begin_list l = sl_tail l"

definition deref_list :: "'a sim_list \<Rightarrow> nat option \<Rightarrow> 'a option res" where
  "deref_list l it = rbind (get_node (sl_heap l) it) (\<lambda>n. Inr (ndata n))"

definition next_list :: "'a sim_list \<Rightarrow> nat option \<Rightarrow> nat option res" where
  "next_list l it = rbind (get_node (sl_heap l) it) (\<lambda>n. Inr (nnext n))"

definition erase_list :: "nat option \<Rightarrow> 'a sim_list \<Rightarrow> ('a sim_list \<times> nat option) res" where
  "erase_list it l = (case it of None \<Rightarrow> Inr (l, None) | Some p \<Rightarrow>
     rbind (get_node (sl_heap l) (Some p)) (\<lambda>n.
     rbind (unlink p (sl_heap l)) (\<lambda>h.
     rbind (get_node h (Some p)) (\<lambda>n1.
       let l1 = l\<lparr>sl_heap := h\<rparr>;
           l2 = (if Some p = sl_head l1 then l1\<lparr>sl_head := nprev n1\<rparr> else l1);
           l3 = (if Some p = sl_tail l2 then l2\<lparr>sl_tail := nnext n1\<rparr> else l2)
       in rbind (dealloc_entry p l3) (\<lambda>l4. Inr (l4\<lparr>sl_cnt := sl_cnt l4 - 1\<rparr>, nnext n))))))"

section \<open>Contract of an age-ordered station\<close>

text \<open>
  What the reservation stations and the miss queues rely on: handles in age order, a push at
  the young end, and an erase anywhere that keeps the order of the others and returns the next
  handle.
\<close>

locale station =
  fixes ok :: "'l \<Rightarrow> bool"
    and cap :: "'l \<Rightarrow> nat"
    and handles :: "'l \<Rightarrow> nat list"
    and val :: "'l \<Rightarrow> nat \<Rightarrow> 'a"
    and add :: "'a \<Rightarrow> 'l \<Rightarrow> 'l res"
    and del :: "nat option \<Rightarrow> 'l \<Rightarrow> ('l \<times> nat option) res"
    and get :: "'l \<Rightarrow> nat option \<Rightarrow> 'a res"
    and step_it :: "'l \<Rightarrow> nat option \<Rightarrow> nat option res"
    and good :: "'a \<Rightarrow> bool"
  assumes handles_distinct: "ok l \<Longrightarrow> distinct (handles l)"
    and handles_bound: "ok l \<Longrightarrow> length (handles l) \<le> cap l"
    and add_ok: "ok l \<Longrightarrow> good v \<Longrightarrow> length (handles l) < cap l \<Longrightarrow>
      \<exists>l' e. add v l = Inr l' \<and> ok l' \<and> cap l' = cap l \<and> handles l' = handles l @ [e]
        \<and> val l' e = v \<and> (\<forall>p \<in> set (handles l). val l' p = val l p)"
    and add_full: "ok l \<Longrightarrow> good v \<Longrightarrow> length (handles l) = cap l \<Longrightarrow> add v l = Inl AssertFail"
    and del_ok: "ok l \<Longrightarrow> handles l = ps @ p # qs \<Longrightarrow>
      \<exists>l'. del (Some p) l = Inr (l', first_of qs None) \<and> ok l' \<and> cap l' = cap l \<and> handles l' = ps @ qs
        \<and> (\<forall>a \<in> set (ps @ qs). val l' a = val l a)"
    and get_ok: "ok l \<Longrightarrow> handles l = ps @ p # qs \<Longrightarrow> get l (Some p) = Inr (val l p)"
    and step_ok: "ok l \<Longrightarrow> handles l = ps @ p # qs \<Longrightarrow> step_it l (Some p) = Inr (first_of qs None)"

text \<open>
  The shape of the loops over a station, the scheduler's and the miss queue's: from an iterator on and until \<open>stop\<close>
  holds of the state, an element that the test \<open>f\<close> rejects is stepped over, and one that it accepts is erased and acts
  on the state.  \<open>pick\<close> is the same on the list of the elements: those that stay, those that are taken and the state.
\<close>

fun scan :: "('s \<Rightarrow> bool) \<Rightarrow> ('a \<Rightarrow> 's \<Rightarrow> 's res option res) \<Rightarrow> ('l \<Rightarrow> nat option \<Rightarrow> 'a res)
    \<Rightarrow> (nat option \<Rightarrow> 'l \<Rightarrow> ('l \<times> nat option) res) \<Rightarrow> ('l \<Rightarrow> nat option \<Rightarrow> nat option res)
    \<Rightarrow> nat \<Rightarrow> nat option \<Rightarrow> 'l \<Rightarrow> 's \<Rightarrow> ('l \<times> 's) res" where
  "scan stop f get del step_it k None l s = Inr (l, s)"
| "scan stop f get del step_it k (Some p) l s = (if stop s then Inr (l, s) else case k of 0 \<Rightarrow> Inl OutOfFuel | Suc k1 \<Rightarrow>
     rbind (get l (Some p)) (\<lambda>v. rbind (f v s) (\<lambda>d. case d of
       None \<Rightarrow> rbind (step_it l (Some p)) (\<lambda>it. scan stop f get del step_it k1 it l s)
     | Some r \<Rightarrow> rbind (del (Some p) l) (\<lambda>(l1, it). rbind r (\<lambda>s1. scan stop f get del step_it k1 it l1 s1)))))"

fun pick :: "('s \<Rightarrow> bool) \<Rightarrow> ('a \<Rightarrow> 's \<Rightarrow> 's res option res) \<Rightarrow> 'a list \<Rightarrow> 's \<Rightarrow> ('a list \<times> 'a list \<times> 's) res" where
  "pick stop f [] s = Inr ([], [], s)"
| "pick stop f (v # vs) s = (if stop s then Inr (v # vs, [], s) else rbind (f v s) (\<lambda>d. case d of
     None \<Rightarrow> rbind (pick stop f vs s) (\<lambda>(ks, ts, s1). Inr (v # ks, ts, s1))
   | Some r \<Rightarrow> rbind r (\<lambda>s1. rbind (pick stop f vs s1) (\<lambda>(ks, ts, s2). Inr (ks, v # ts, s2)))))"

lemma pick_splits:
  "pick stop f vs s = Inr (ks, ts, s1) \<Longrightarrow> subseq ks vs \<and> subseq ts vs \<and> mset ks + mset ts = mset vs"
proof (induction vs arbitrary: s ks ts s1)
  case (Cons v vs)
  then consider "stop s" "ks = v # vs" "ts = []"
    | ks1 where "ks = v # ks1" "pick stop f vs s = Inr (ks1, ts, s1)"
    | ts1 s2 where "ts = v # ts1" "pick stop f vs s2 = Inr (ks, ts1, s1)"
    by (auto simp: rbind_Inr_iff split: if_splits option.splits)
  then show ?case by cases (use Cons.IH in \<open>fastforce intro: list_emb_Cons\<close>)+
qed simp

lemma pick_induct:
  assumes "pick stop f vs s = Inr (ks, ts, s1)" "P xs s"
    and "\<And>xs v s s1. P xs s \<Longrightarrow> \<not> stop s \<Longrightarrow> f v s = Inr (Some (Inr s1)) \<Longrightarrow> P (xs @ [v]) s1"
  shows "P (xs @ ts) s1"
  using assms(1,2)
proof (induction vs arbitrary: s ks ts s1 xs)
  case (Cons v vs)
  show ?case
  proof (cases "stop s")
    case False
    then obtain d where d: "f v s = Inr d" using Cons.prems(1) by (auto simp: rbind_Inr_iff)
    show ?thesis
    proof (cases d)
      case (Some r)
      then obtain s2 ts2 where "r = Inr s2" "pick stop f vs s2 = Inr (ks, ts2, s1)" "ts = v # ts2"
        using Cons.prems(1) False d by (auto simp: rbind_Inr_iff)
      then show ?thesis using Cons.IH[of s2 ks ts2 s1 "xs @ [v]"] assms(3)[OF Cons.prems(2) False] d Some by simp
    qed (use Cons False d in \<open>auto simp: rbind_Inr_iff\<close>)
  qed (use Cons.prems in auto)
qed simp

context station
begin

lemma scan_from:
  assumes "ok l" "handles l = ps @ qs" "length qs \<le> k"
  shows "case pick stop f (map (val l) qs) s of Inl e \<Rightarrow> scan stop f get del step_it k (first_of qs None) l s = Inl e
    | Inr (ks, ts, s1) \<Rightarrow> \<exists>l' rs. scan stop f get del step_it k (first_of qs None) l s = Inr (l', s1)
        \<and> ok l' \<and> cap l' = cap l \<and> handles l' = ps @ rs \<and> (\<forall>a \<in> set ps. val l' a = val l a) \<and> map (val l') rs = ks"
  using assms
proof (induction qs arbitrary: l ps k s)
  case (Cons p qs)
  then obtain k' where k: "k = Suc k'" "length qs \<le> k'" by (cases k) auto
  note at = get_ok[OF Cons.prems(1,2)] step_ok[OF Cons.prems(1,2)]
  note skip = Cons.IH[of l "ps @ [p]" k' s]
  obtain l1 where l1: "del (Some p) l = Inr (l1, first_of qs None)" "ok l1" "cap l1 = cap l" "handles l1 = ps @ qs"
    "\<forall>a \<in> set (ps @ qs). val l1 a = val l a" using del_ok[OF Cons.prems(1,2)] by blast
  have mp: "map (val l1) qs = map (val l) qs" using l1(5) by simp
  note take = Cons.IH[OF l1(2,4) k(2), unfolded mp]
  show ?case
  proof (cases "stop s")
    case False
    show ?thesis
    proof (cases "f (val l p) s")
      case (Inr d)
      show ?thesis
      proof (cases d)
        case None
        then show ?thesis using skip Cons.prems k at False Inr
          by (auto split: sum.splits)
      next
        case (Some r)
        show ?thesis
        proof (cases r)
          case (Inr s1)
          then show ?thesis using take[of s1] k at False \<open>f (val l p) s = Inr d\<close> Some l1
            by (auto split: sum.splits)
        qed (use k at False Inr Some l1 in simp)
      qed
    qed (use k at False in simp)
  qed (use Cons.prems in \<open>auto intro!: exI[of _ l] exI[of _ "p # qs"]\<close>)
qed auto

text \<open>A whole scan from the oldest element on.\<close>

lemma scan_all:
  assumes "ok l" "length (handles l) \<le> k"
  shows "case pick stop f (map (val l) (handles l)) s of
      Inl e \<Rightarrow> scan stop f get del step_it k (first_of (handles l) None) l s = Inl e
    | Inr (ks, ts, s1) \<Rightarrow> \<exists>l'. scan stop f get del step_it k (first_of (handles l) None) l s = Inr (l', s1)
        \<and> ok l' \<and> cap l' = cap l \<and> map (val l') (handles l') = ks"
  using scan_from[of l "[]" "handles l" k stop f s] assms by (auto split: sum.splits)

end

section \<open>The pooled list meets the contract\<close>

definition handles_sl :: "'a sim_list \<Rightarrow> nat list" where
  "handles_sl l = (case walk (num_entries l) (sl_heap l) (sl_tail l) of Inl _ \<Rightarrow> [] | Inr ps \<Rightarrow> ps)"

definition val_sl :: "'a sim_list \<Rightarrow> nat \<Rightarrow> 'a option" where
  "val_sl l p = data_at (sl_heap l) p"

text \<open>\<open>chain l F ps\<close>: the list runs over \<open>ps\<close> and the pool holds the addresses \<open>F\<close>.\<close>

definition chain :: "'a sim_list \<Rightarrow> nat list \<Rightarrow> nat list \<Rightarrow> bool" where
  "chain l F ps \<longleftrightarrow> dlseg (sl_heap l) None ps None \<and> sl_tail l = first_of ps None \<and> sl_head l = last_of None ps
     \<and> sl_cnt l = int (length ps) \<and> length F + length ps = num_entries l
     \<and> pool_idx l = int (length F) - 1 \<and> length (sl_pool l) = num_entries l
     \<and> take (length F) (sl_pool l) = F \<and> distinct (F @ ps)
     \<and> set (F @ ps) = {..<num_entries l} \<and> dom (sl_heap l) = {..<num_entries l}"

definition free_sl :: "'a sim_list \<Rightarrow> nat list" where
  "free_sl l = take (nat (pool_idx l + 1)) (sl_pool l)"

definition wf_sl :: "'a sim_list \<Rightarrow> bool" where
  "wf_sl l \<longleftrightarrow> chain l (free_sl l) (handles_sl l)"

lemma chain_handles: "chain l F ps \<Longrightarrow> handles_sl l = ps \<and> wf_sl l"
  using walk_dlseg[of "sl_heap l" None ps "num_entries l"]
  by (auto simp: chain_def handles_sl_def wf_sl_def free_sl_def)

lemma chainD:
  assumes "chain l F ps"
  shows "dlseg (sl_heap l) None ps None" "sl_tail l = first_of ps None" "sl_head l = last_of None ps"
    "sl_cnt l = int (length ps)" "length F + length ps = num_entries l" "pool_idx l = int (length F) - 1"
    "length (sl_pool l) = num_entries l" "take (length F) (sl_pool l) = F" "distinct F" "distinct ps"
    "set F \<inter> set ps = {}" "set F \<union> set ps = {..<num_entries l}" "dom (sl_heap l) = {..<num_entries l}"
  using assms by (simp_all add: chain_def)

lemma chain_new [simp]: "chain (new_sim_list n) [0..<n] []"
  by (auto simp: chain_def new_sim_list_def atLeast_upt split: if_splits)

lemma dom_map_option_comp: "dom (\<lambda>p. map_option f (m p)) = dom m"
  by auto

lemma chain_clear:
  assumes "chain l F ps"
  shows "chain (clear_list l) [0..<num_entries l] []"
  using chainD(13)[OF assms] by (simp add: chain_def clear_list_def dom_map_option_comp lessThan_atLeast0)

lemma chain_alloc:
  assumes "chain l (F @ [e]) ps"
  obtains h where "alloc_entry v l = Inr (l\<lparr>pool_idx := int (length F) - 1, sl_heap := h\<rparr>, e)"
    "h e = Some \<lparr>nnext = None, nprev = None, ndata = v\<rparr>" "\<And>a. a \<noteq> e \<Longrightarrow> h a = sl_heap l a"
    "dom h = dom (sl_heap l)" "dlseg h None ps None"
proof -
  note c = chainD[OF assms]
  define h where "h = (sl_heap l)(e \<mapsto> \<lparr>nnext = None, nprev = None, ndata = v\<rparr>)"
  have e: "sl_pool l ! length F = e" "length F < length (sl_pool l)"
    using c(5,7) arg_cong[OF c(8), of "\<lambda>xs. xs ! length F"] by simp_all
  have ed: "e \<in> dom (sl_heap l)" "e \<notin> set ps" using c(11-13) by auto
  then have "alloc_entry v l = Inr (l\<lparr>pool_idx := int (length F) - 1, sl_heap := h\<rparr>, e)"
    using c(6) e by (auto simp: alloc_entry_def upd_node_def h_def Let_def)
  then show thesis using c(1) ed by (intro that[of h]) (auto simp: h_def)
qed

lemma take_pool_prefix: "take (length (F @ G)) xs = F @ G \<Longrightarrow> take (length F) xs = F"
  by (metis append_eq_conv_conj length_append min_absorb1 le_add1 take_take)

lemma chain_pushed:
  assumes "chain l (F @ [e]) ps" "num_entries l' = num_entries l" "sl_pool l' = sl_pool l"
    "pool_idx l' = int (length F) - 1" "sl_cnt l' = sl_cnt l + 1" "dlseg (sl_heap l') None (ps @ [e]) None"
    "dom (sl_heap l') = dom (sl_heap l)" "sl_tail l' = first_of (ps @ [e]) None" "sl_head l' = Some e"
  shows "chain l' F (ps @ [e])"
proof -
  note c = chainD[OF assms(1)]
  have "take (length F) (sl_pool l') = F" using take_pool_prefix[OF c(8)] assms(3) by simp
  moreover have "distinct (F @ ps @ [e])" "set (F @ ps @ [e]) = {..<num_entries l'}"
    using c(9-12) assms(2) by auto
  moreover have "sl_head l' = last_of None (ps @ [e])" using assms(9) by simp
  ultimately show ?thesis using assms(2-8) c(4,5,7,13) unfolding chain_def by simp
qed

lemma chain_push:
  assumes "chain l (F @ [e]) ps" "v \<noteq> None"
  shows "\<exists>l'. push_list v l = Inr l' \<and> chain l' F (ps @ [e]) \<and> num_entries l' = num_entries l
    \<and> val_sl l' e = v \<and> (\<forall>p \<in> set ps. val_sl l' p = val_sl l p)"
proof -
  note c = chainD[OF assms(1)]
  obtain h where h: "alloc_entry v l = Inr (l\<lparr>pool_idx := int (length F) - 1, sl_heap := h\<rparr>, e)"
    "h e = Some \<lparr>nnext = None, nprev = None, ndata = v\<rparr>" "\<And>a. a \<noteq> e \<Longrightarrow> h a = sl_heap l a"
    "dom h = dom (sl_heap l)" "dlseg h None ps None"
    using chain_alloc[OF assms(1), of v] by blast
  have e: "e \<notin> set ps" using c(11) by auto
  show ?thesis
  proof (cases ps rule: rev_cases)
    case Nil
    define l' where "l' = l\<lparr>pool_idx := int (length F) - 1, sl_heap := h, sl_cnt := sl_cnt l + 1, sl_head := Some e, sl_tail := Some e\<rparr>"
    have "push_list v l = Inr l'" using h(1) assms(2) c(2,3) Nil by (simp add: push_list_def l'_def)
    moreover have "chain l' F (ps @ [e])"
      by (rule chain_pushed[OF assms(1)]) (use h(2,4) Nil in \<open>simp_all add: l'_def\<close>)
    ultimately show ?thesis using Nil h(2) by (simp add: l'_def val_sl_def data_at_def)
  next
    case (snoc rs r)
    obtain h2 where h2: "link_after e (Some r) h = Inr h2" "dlseg h2 None (rs @ [r, e]) None" "dom h2 = dom h"
      "\<forall>a. data_at h2 a = data_at h a"
      using link_after_dlseg[of h rs r e "\<lparr>nnext = None, nprev = None, ndata = v\<rparr>"] h(2,5) c(10) e snoc by auto
    define l' where "l' = l\<lparr>pool_idx := int (length F) - 1, sl_heap := h2, sl_cnt := sl_cnt l + 1, sl_head := Some e\<rparr>"
    have "sl_head l = Some r" using c(3) snoc by simp
    then have "push_list v l = Inr l'"
      using h(1) assms(2) h2(1) by (simp add: push_list_def l'_def)
    moreover have "chain l' F (ps @ [e])"
      by (rule chain_pushed[OF assms(1)]) (use h(4) h2(2,3) c(2) snoc in \<open>simp_all add: l'_def\<close>)
    moreover have "val_sl l' e = v" using h2(4) h(2) by (simp add: l'_def val_sl_def data_at_def)
    moreover have "\<forall>p \<in> set ps. val_sl l' p = val_sl l p"
    proof
      fix p assume "p \<in> set ps"
      then have "h p = sl_heap l p" using e by (intro h(3)) auto
      then show "val_sl l' p = val_sl l p" using h2(4) by (simp add: l'_def val_sl_def data_at_def)
    qed
    moreover have "num_entries l' = num_entries l" by (simp add: l'_def)
    ultimately show ?thesis by blast
  qed
qed

lemma chain_push_full:
  assumes "chain l [] ps"
  shows "push_list v l = Inl AssertFail"
  using assms by (cases "v = None") (simp_all add: push_list_def alloc_entry_def chain_def)

lemma chain_dealloc:
  assumes "chain l F (ps @ p # qs)" "num_entries l' = num_entries l" "sl_pool l' = sl_pool l" "pool_idx l' = pool_idx l"
    "dlseg (sl_heap l') None (ps @ qs) None" "dom (sl_heap l') = dom (sl_heap l)"
    "sl_tail l' = first_of (ps @ qs) None" "sl_head l' = last_of None (ps @ qs)" "sl_cnt l' = sl_cnt l"
  shows "\<exists>l2. dealloc_entry p l' = Inr l2 \<and> chain (l2\<lparr>sl_cnt := sl_cnt l2 - 1\<rparr>) (F @ [p]) (ps @ qs)
    \<and> num_entries l2 = num_entries l \<and> sl_heap l2 = sl_heap l'"
proof -
  note c = chainD[OF assms(1)]
  have k: "length F < length (sl_pool l)" using c(5,7) by simp
  define l2 where "l2 = l'\<lparr>pool_idx := pool_idx l' + 1, sl_pool := (sl_pool l')[length F := p]\<rparr>"
  have de: "dealloc_entry p l' = Inr l2"
    using k c(5-7) assms(2-4) by (simp add: dealloc_entry_def l2_def)
  have "take (Suc (length F)) ((sl_pool l)[length F := p]) = F @ [p]"
    using k c(8) by (simp add: take_Suc_conv_app_nth)
  moreover have "distinct (F @ [p] @ ps @ qs)" "set (F @ [p] @ ps @ qs) = {..<num_entries l}"
    using c(9-12) by auto
  ultimately have "chain (l2\<lparr>sl_cnt := sl_cnt l2 - 1\<rparr>) (F @ [p]) (ps @ qs)"
    using assms(2-9) c(4-7,13) unfolding chain_def by (simp add: l2_def)
  then show ?thesis using de assms(2) by (auto simp: l2_def)
qed

lemma chain_erase:
  assumes "chain l F (ps @ p # qs)"
  shows "\<exists>l'. erase_list (Some p) l = Inr (l', first_of qs None) \<and> chain l' (F @ [p]) (ps @ qs)
    \<and> num_entries l' = num_entries l \<and> (\<forall>a. val_sl l' a = val_sl l a)"
proof -
  note c = chainD[OF assms]
  obtain n where n: "sl_heap l p = Some n" "nprev n = last_of None ps" "nnext n = first_of qs None"
    using c(1) by auto
  obtain h where h: "unlink p (sl_heap l) = Inr h" "dlseg h None (ps @ qs) None" "h p = sl_heap l p"
    "dom h = dom (sl_heap l)" "\<forall>a. data_at h a = data_at (sl_heap l) a"
    using unlink_dlseg[OF c(1,10)] by blast
  define l0 where "l0 = (if qs = [] then l\<lparr>sl_heap := h, sl_head := nprev n\<rparr> else l\<lparr>sl_heap := h\<rparr>)"
  define l1 where "l1 = (if ps = [] then l0\<lparr>sl_tail := nnext n\<rparr> else l0)"
  have hd: "sl_head l = (if qs = [] then Some p else Some (last qs))"
    using c(3) by (simp add: last_of_Some_last)
  have tl: "sl_tail l = (if ps = [] then Some p else Some (hd ps))"
    using c(2) by (cases ps) simp_all
  have ne: "p \<noteq> last qs" if "qs \<noteq> []" using that c(10) by auto
  have ne2: "p \<noteq> hd ps" if "ps \<noteq> []" using that c(10) by (cases ps) auto
  have f1: "num_entries l1 = num_entries l" "sl_pool l1 = sl_pool l" "pool_idx l1 = pool_idx l"
    "sl_heap l1 = h" "sl_cnt l1 = sl_cnt l" "sl_head l1 = (if qs = [] then nprev n else sl_head l)"
    "sl_tail l1 = (if ps = [] then nnext n else sl_tail l)" by (simp_all add: l1_def l0_def)
  have t1: "sl_tail l1 = first_of (ps @ qs) None" using c(2) n f1 by (cases ps) simp_all
  have h1: "sl_head l1 = last_of None (ps @ qs)" using hd n f1 by (cases qs) (simp_all add: last_of_def)
  obtain l2 where l2: "dealloc_entry p l1 = Inr l2"
    "chain (l2\<lparr>sl_cnt := sl_cnt l2 - 1\<rparr>) (F @ [p]) (ps @ qs)"
    "num_entries l2 = num_entries l" "sl_heap l2 = sl_heap l1"
    using chain_dealloc[OF assms f1(1-3) _ _ t1 h1 f1(5)] h(2,4) f1(4) by auto
  have "erase_list (Some p) l = rbind (dealloc_entry p l1) (\<lambda>l4. Inr (l4\<lparr>sl_cnt := sl_cnt l4 - 1\<rparr>, nnext n))"
    using n h(1,3) hd tl ne ne2
    by (cases "ps = []"; cases "qs = []") (simp_all add: erase_list_def get_node_def l1_def l0_def Let_def)
  then show ?thesis using l2 n h(5) f1(4) by (auto simp: val_sl_def)
qed

lemma chain_pop:
  assumes "chain l F (p # qs)"
  shows "\<exists>l'. pop_list l = Inr (l', val_sl l p) \<and> chain l' (F @ [p]) qs \<and> num_entries l' = num_entries l
    \<and> (\<forall>a. val_sl l' a = val_sl l a)"
proof -
  note c = chainD[OF assms]
  obtain n where n: "sl_heap l p = Some n" "nprev n = None" "nnext n = first_of qs None" using c(1) by auto
  obtain h where h: "unlink p (sl_heap l) = Inr h" "dlseg h None qs None" "h p = sl_heap l p"
    "dom h = dom (sl_heap l)" "\<forall>a. data_at h a = data_at (sl_heap l) a"
    using unlink_dlseg[of "sl_heap l" "[]" p qs] c(1,10) by auto
  define l0 where "l0 = l\<lparr>sl_heap := h, sl_tail := nnext n\<rparr>"
  define l1 where "l1 = (if sl_tail l0 = None then l0\<lparr>sl_head := None\<rparr> else l0)"
  have f1: "num_entries l1 = num_entries l" "sl_pool l1 = sl_pool l" "pool_idx l1 = pool_idx l"
    "sl_heap l1 = h" "sl_cnt l1 = sl_cnt l" "sl_tail l1 = first_of qs None"
    "sl_head l1 = (if qs = [] then None else sl_head l)" using n(3) by (simp_all add: l1_def l0_def first_of_None_iff)
  have h1: "sl_head l1 = last_of None qs" using f1(7) c(3) by (simp add: last_of_def)
  obtain l2 where l2: "dealloc_entry p l1 = Inr l2" "chain (l2\<lparr>sl_cnt := sl_cnt l2 - 1\<rparr>) (F @ [p]) qs"
    "num_entries l2 = num_entries l" "sl_heap l2 = sl_heap l1"
    using chain_dealloc[of l F "[]" p qs l1] assms f1 h1 h(2,4) by auto
  have "pop_list l = rbind (dealloc_entry p l1) (\<lambda>l3. Inr (l3\<lparr>sl_cnt := sl_cnt l3 - 1\<rparr>, ndata n))"
    using n h(1,3) c(2) by (simp add: pop_list_def get_node_def l1_def l0_def Let_def)
  then show ?thesis using l2 n h(5) f1(4) by (auto simp: val_sl_def data_at_def)
qed

interpretation sl: station wf_sl num_entries handles_sl val_sl push_list erase_list deref_list next_list "\<lambda>v. v \<noteq> None"
proof unfold_locales
  fix l :: "'a sim_list" and v ps p qs
  assume wf: "wf_sl l"
  then have c: "chain l (free_sl l) (handles_sl l)" by (simp add: wf_sl_def)
  show "distinct (handles_sl l)" by (rule chainD(10)[OF c])
  show "length (handles_sl l) \<le> num_entries l" using chainD(5)[OF c] by simp
  show "\<exists>l' e. push_list v l = Inr l' \<and> wf_sl l' \<and> num_entries l' = num_entries l
      \<and> handles_sl l' = handles_sl l @ [e] \<and> val_sl l' e = v \<and> (\<forall>p\<in>set (handles_sl l). val_sl l' p = val_sl l p)"
    if "v \<noteq> None" "length (handles_sl l) < num_entries l"
  proof -
    have "free_sl l \<noteq> []" using that(2) chainD(5)[OF c] by auto
    then have "chain l (butlast (free_sl l) @ [last (free_sl l)]) (handles_sl l)" using c by simp
    from chain_push[OF this that(1)] show ?thesis using chain_handles by metis
  qed
  show "push_list v l = Inl AssertFail" if "length (handles_sl l) = num_entries l"
    using chain_push_full[of l "handles_sl l"] c that chainD(5)[OF c] by simp
  assume h: "handles_sl l = ps @ p # qs"
  show "\<exists>l'. erase_list (Some p) l = Inr (l', first_of qs None) \<and> wf_sl l' \<and> num_entries l' = num_entries l
      \<and> handles_sl l' = ps @ qs \<and> (\<forall>a\<in>set (ps @ qs). val_sl l' a = val_sl l a)"
    using chain_erase[OF c[unfolded h]] chain_handles by metis
  show "deref_list l (Some p) = Inr (val_sl l p)"
    using chainD(1)[OF c] h by (auto simp: deref_list_def get_node_def val_sl_def data_at_def)
  show "next_list l (Some p) = Inr (first_of qs None)"
    using chainD(1)[OF c] h by (auto simp: next_list_def get_node_def)
qed

section \<open>The elements in age order\<close>

definition vals_sl :: "'a sim_list \<Rightarrow> 'a option list" where
  "vals_sl l = map (val_sl l) (handles_sl l)"

lemma begin_first: "wf_sl l \<Longrightarrow> begin_list l = first_of (handles_sl l) None"
  using chainD(2) by (simp add: begin_list_def wf_sl_def)

lemma scan_sl:
  assumes "wf_sl l"
  shows "case pick stop f (vals_sl l) s of
      Inl e \<Rightarrow> scan stop f deref_list erase_list next_list (num_entries l) (begin_list l) l s = Inl e
    | Inr (ks, ts, s1) \<Rightarrow> \<exists>l'. scan stop f deref_list erase_list next_list (num_entries l) (begin_list l) l s = Inr (l', s1)
        \<and> wf_sl l' \<and> num_entries l' = num_entries l \<and> vals_sl l' = ks"
  using sl.scan_all[OF assms sl.handles_bound[OF assms], of stop f s] unfolding begin_first[OF assms] vals_sl_def .

end
