(* ===== verification/Cache.thy ===== *)
theory Cache
  imports My_List Sim_List
begin

text \<open>
  \<^verbatim>\<open>sim_ooo/sim_cache.hh\<close> and \<^verbatim>\<open>sim_ooo/sim_cache.cc\<close>: the cache classes, one constructor of
  \<open>org\<close> per class, over the fields of the base class \<open>simCache\<close>.  A hierarchy is the list of
  its levels from the one the core accesses; \<open>next_level\<close> is the rest of the list.  The cycle
  counter, the memory latency, the values of \<open>rand\<close> and the allocator of the recency lists come
  from outside and are the record \<open>env\<close>.  In-flight operations are keys of a table of the two
  cycle stamps the caches write.
\<close>

datatype opType = READ | WRITE

record cacheset =
  lhits :: u64
  lmisses :: u64
  entries :: "u32 mylist"

datatype org =
    SetAssoc "cacheset list"
  | FullAssoc "u32 mylist" "u64 list"
  | DirectMapped "u32 list" "bool list"
  | FullRand "u32 list" "u32 list"
  | LowAssoc (lo_allvalid: "bool list") (lo_valid: "u64 list") (lo_lru: "u64 list") (lo_tag: "u32 list list")
  | HighAssoc (hi_allvalid: "u8 list") (hi_valid: "u8 list list") (hi_lru: "u8 list list") (hi_tag: "u32 list list")
  | RealLRU (rl_allvalid: "u8 list") (rl_valid: "u8 list list") (rl_lru: "u64 list list") (rl_tag: "u32 list list")
  | RandomRepl (rr_allvalid: "u8 list") (rr_valid: "u8 list list") (rr_tag: "u32 list list")

record cache =
  bytes_per_line :: nat
  assoc :: nat
  num_sets :: nat
  latency :: u32
  hits :: u64
  misses :: u64
  rw_hits :: "u64 \<times> u64"
  rw_misses :: "u64 \<times> u64"
  ln2_num_sets :: nat
  ln2_bytes_per_line :: nat
  inflight :: "nat sim_list"
  corg :: org

record env =
  fresh :: "u32 heap \<Rightarrow> nat"
  curr_cycle :: u64
  mem_latency :: u32
  rand_val :: "nat \<Rightarrow> nat"

section \<open>Construction and indexing\<close>

fun lg_loop :: "nat \<Rightarrow> nat \<Rightarrow> nat \<Rightarrow> nat" where
  "lg_loop 0 k n = k"
| "lg_loop (Suc f) k n = (if 2 ^ k < n then lg_loop f (Suc k) n else k)"

text \<open>The loop compares with \<open>1 << k\<close> as a 32-bit int and ends at \<open>k = 31\<close> at the latest.\<close>

definition lg :: "nat \<Rightarrow> nat" where
  "lg n = lg_loop 31 0 n"

definition pow2_size :: "nat \<Rightarrow> bool" where
  "pow2_size n \<longleftrightarrow> isPow2 (of_nat n :: u64)"

definition empty_set :: cacheset where
  "empty_set = \<lparr>lhits = 0, lmisses = 0, entries = new_mylist\<rparr>"

text \<open>The constructor of the base class, with the size of the reorder buffer for the miss queue.\<close>

definition new_cache :: "nat \<Rightarrow> nat \<Rightarrow> nat \<Rightarrow> nat \<Rightarrow> u32 \<Rightarrow> org \<Rightarrow> cache res" where
  "new_cache rob_size bpl as ns lat og = ensure Die (pow2_size bpl \<and> pow2_size ns \<and> pow2_size as)
     (Inr \<lparr>bytes_per_line = bpl, assoc = as, num_sets = ns, latency = lat, hits = 0, misses = 0,
        rw_hits = (0, 0), rw_misses = (0, 0), ln2_num_sets = lg ns, ln2_bytes_per_line = lg bpl,
        inflight = resize_list rob_size (new_sim_list 16), corg = og\<rparr>)"

definition new_setAssoc :: "nat \<Rightarrow> nat \<Rightarrow> nat \<Rightarrow> nat \<Rightarrow> u32 \<Rightarrow> cache res" where
  "new_setAssoc rob_size bpl as ns lat = new_cache rob_size bpl as ns lat (SetAssoc (replicate ns empty_set))"

definition new_directMapped :: "nat \<Rightarrow> nat \<Rightarrow> nat \<Rightarrow> nat \<Rightarrow> u32 \<Rightarrow> cache res" where
  "new_directMapped rob_size bpl as ns lat =
     rbind (new_cache rob_size bpl as ns lat (DirectMapped (replicate ns 0) (replicate ns False)))
       (\<lambda>c. ensure AssertFail (as = 1) (Inr c))"

definition new_fullAssoc :: "nat \<Rightarrow> nat \<Rightarrow> nat \<Rightarrow> nat \<Rightarrow> u32 \<Rightarrow> cache res" where
  "new_fullAssoc rob_size bpl as ns lat = new_cache rob_size bpl as ns lat (FullAssoc new_mylist (replicate as 0))"

definition new_lowAssoc :: "nat \<Rightarrow> nat \<Rightarrow> nat \<Rightarrow> nat \<Rightarrow> u32 \<Rightarrow> cache res" where
  "new_lowAssoc rob_size bpl as ns lat = new_cache rob_size bpl as ns lat
     (LowAssoc (replicate ns False) (replicate ns 0) (replicate ns 0) (replicate ns (replicate as 0)))"

definition new_highAssoc :: "nat \<Rightarrow> nat \<Rightarrow> nat \<Rightarrow> nat \<Rightarrow> u32 \<Rightarrow> cache res" where
  "new_highAssoc rob_size bpl as ns lat = new_cache rob_size bpl as ns lat
     (HighAssoc (replicate ns 0) (replicate ns (replicate as 0))
        (replicate ns (replicate (as div 2 + 2) 0)) (replicate ns (replicate as 0)))"

definition new_realLRU :: "nat \<Rightarrow> nat \<Rightarrow> nat \<Rightarrow> nat \<Rightarrow> u32 \<Rightarrow> cache res" where
  "new_realLRU rob_size bpl as ns lat = new_cache rob_size bpl as ns lat
     (RealLRU (replicate ns 0) (replicate ns (replicate as 0)) (replicate ns (replicate as 0)) (replicate ns (replicate as 0)))"

definition new_randomReplacement :: "nat \<Rightarrow> nat \<Rightarrow> nat \<Rightarrow> nat \<Rightarrow> u32 \<Rightarrow> cache res" where
  "new_randomReplacement rob_size bpl as ns lat = new_cache rob_size bpl as ns lat
     (RandomRepl (replicate ns 0) (replicate ns (replicate as 0)) (replicate ns (replicate as 0)))"

text \<open>Set number, tag and byte offset of an address; a shift by 32 or more is undefined.\<close>

definition ln2_offset_bits :: "cache \<Rightarrow> nat" where
  "ln2_offset_bits c = ln2_num_sets c + ln2_bytes_per_line c"

definition index :: "cache \<Rightarrow> u32 \<Rightarrow> (nat \<times> u32 \<times> u32) res" where
  "index c addr = ensure Undefined (ln2_bytes_per_line c < 32 \<and> ln2_offset_bits c < 32)
     (let way_addr = drop_bit (ln2_bytes_per_line c) addr;
          l = ucast (ucast way_addr AND (of_nat (num_sets c) - 1 :: u64)) :: u32;
          t = drop_bit (ln2_offset_bits c) addr;
          b = ucast (ucast addr AND (of_nat (bytes_per_line c) - 1 :: u64)) :: u32
      in Inr (unat l, t, b))"

definition reload_addr :: "cache \<Rightarrow> u32 \<Rightarrow> u32" where
  "reload_addr c addr = ucast (ucast addr AND NOT (of_nat (bytes_per_line c) - 1 :: u64))"

definition bump :: "opType \<Rightarrow> u64 \<times> u64 \<Rightarrow> u64 \<times> u64" where
  "bump o2 p = (if o2 = WRITE then (fst p, snd p + 1) else (fst p + 1, snd p))"

definition count_hit :: "opType \<Rightarrow> cache \<Rightarrow> cache" where
  "count_hit o2 c = c\<lparr>hits := hits c + 1, rw_hits := bump o2 (rw_hits c)\<rparr>"

definition count_miss :: "opType \<Rightarrow> cache \<Rightarrow> cache" where
  "count_miss o2 c = c\<lparr>misses := misses c + 1, rw_misses := bump o2 (rw_misses c)\<rparr>"

section \<open>A set of a set-associative cache\<close>

definition cacheset_access :: "(u32 heap \<Rightarrow> nat) \<Rightarrow> nat \<Rightarrow> u32 \<Rightarrow> cacheset \<Rightarrow> (cacheset \<times> bool) res" where
  "cacheset_access frs as tag s = rbind (find_ml tag (entries s)) (\<lambda>(it, d).
     if it \<noteq> None then
       rbind (move_to_head it (entries s)) (\<lambda>l. Inr (s\<lparr>lhits := lhits s + 1, entries := l\<rparr>, True))
     else
       rbind (if size_ml (entries s) = as then pop_back (entries s) else Inr (entries s)) (\<lambda>l.
       rbind (push_front frs tag l) (\<lambda>l1. Inr (s\<lparr>lmisses := lmisses s + 1, entries := l1\<rparr>, False))))"

definition cacheset_flush_line :: "u32 \<Rightarrow> cacheset \<Rightarrow> cacheset res" where
  "cacheset_flush_line tag s = rbind (find_ml tag (entries s)) (\<lambda>(it, d).
     if it \<noteq> None then rbind (erase_ml it (entries s)) (\<lambda>l. Inr (s\<lparr>entries := l\<rparr>)) else Inr s)"

definition cacheset_clear :: "cacheset \<Rightarrow> cacheset res" where
  "cacheset_clear s = rbind (clear_ml (entries s)) (\<lambda>l. Inr (s\<lparr>entries := l\<rparr>))"

section \<open>Replacement state of the other classes\<close>

text \<open>
  The tree of \<open>highAssocCache\<close>: entry \<open>1\<close> of a direction stores that the last access went left,
  \<open>2\<close> right.  The walk up of \<open>updateLRU\<close> starts at leaf \<open>idx + assoc\<close>; the walk down of \<open>findLRU\<close>
  starts at node 1, so that the node number is positive throughout.
\<close>

function (sequential) hi_updateLRU :: "nat \<Rightarrow> u8 list \<Rightarrow> u8 list res" where
  "hi_updateLRU nd l = (let i = nd div 2 in if i = 0 then Inr l
     else ensure Undefined (i < length l) (hi_updateLRU i (l[i := if odd nd then 2 else 1])))"
  by pat_completeness auto
termination by (relation "measure fst") auto

function (sequential) hi_findLRU :: "nat \<Rightarrow> nat \<Rightarrow> u8 list \<Rightarrow> (nat \<times> u8 list) res" where
  "hi_findLRU as i l = (if i = 0 then Inl OutOfFuel
     else if as \<le> i then (if as \<le> i - as then Inl Die else Inr (i - as, l))
     else ensure Undefined (i < length l)
       (if l ! i = 0 then hi_findLRU as (2 * i) (l[i := 1])
        else if l ! i = 1 then hi_findLRU as (2 * i + 1) (l[i := 2])
        else if l ! i = 2 then hi_findLRU as (2 * i) (l[i := 1])
        else Inl Die))"
  by pat_completeness auto
termination by (relation "measure (\<lambda>(as, i, _). as - i)") auto

text \<open>The tree of \<open>lowAssocCache\<close>, one bit per node of a 64-bit word.\<close>

function (sequential) lo_updateLRU :: "nat \<Rightarrow> u64 \<Rightarrow> u64 res" where
  "lo_updateLRU nd t = (let i = nd div 2 in if i = 0 then Inr t
     else ensure Undefined (i < 64)
       (lo_updateLRU i (if odd nd then t AND NOT (push_bit i 1) else t OR push_bit i 1)))"
  by pat_completeness auto
termination by (relation "measure fst") auto

function (sequential) lo_findLRU :: "nat \<Rightarrow> nat \<Rightarrow> u64 \<Rightarrow> (nat \<times> u64) res" where
  "lo_findLRU as i t = (if i = 0 then Inl OutOfFuel
     else if as \<le> i then (if as \<le> i - as then Inl Die else Inr (i - as, t))
     else ensure Undefined (i < 64)
       (if drop_bit i t AND 1 \<noteq> 0 then lo_findLRU as (2 * i) (t AND NOT (push_bit i 1))
        else lo_findLRU as (2 * i + 1) (t OR push_bit i 1)))"
  by pat_completeness auto
termination by (relation "measure (\<lambda>(as, i, _). as - i)") auto

definition first_invalid :: "nat \<Rightarrow> u8 list \<Rightarrow> nat" where
  "first_invalid as valid = (case List.find (\<lambda>i. valid ! i = 0) [0..<as] of None \<Rightarrow> 0 | Some i \<Rightarrow> i)"

definition all_valid :: "nat \<Rightarrow> u8 list \<Rightarrow> u8" where
  "all_valid as valid = foldl (\<lambda>a i. a AND valid ! i) 1 [0..<as]"

definition valid_way :: "nat \<Rightarrow> u8 list \<Rightarrow> u32 list \<Rightarrow> u32 \<Rightarrow> nat option" where
  "valid_way as valid tag t = List.find (\<lambda>i. valid ! i \<noteq> 0 \<and> tag ! i = t) [0..<as]"

text \<open>A way of a set: with all ways valid only the tags are compared.\<close>

definition hi_search :: "nat \<Rightarrow> u8 \<Rightarrow> u8 list \<Rightarrow> u32 list \<Rightarrow> u32 \<Rightarrow> nat option" where
  "hi_search as av valid tag t =
     (if av \<noteq> 0 then List.find (\<lambda>i. tag ! i = t) [0..<as] else valid_way as valid tag t)"

definition hi_fill :: "nat \<Rightarrow> u8 \<times> u8 list \<times> u8 list \<times> u32 list \<Rightarrow> u32
    \<Rightarrow> (u8 \<times> u8 list \<times> u8 list \<times> u32 list) res" where
  "hi_fill as = (\<lambda>(av, valid, lru, tag) t.
     if av \<noteq> 0 then rbind (hi_findLRU as 1 lru) (\<lambda>(offs, lru1).
       Inr (av, valid[offs := 1], lru1, tag[offs := t]))
     else let offs = first_invalid as valid; valid1 = valid[offs := 1]
       in rbind (hi_updateLRU (offs + as) lru) (\<lambda>lru1.
            Inr (all_valid as valid1, valid1, lru1, tag[offs := t])))"

text \<open>
  The scan of the valid bits takes and clears the least set bit each time, which is the set
  bits in ascending order.
\<close>

definition lo_search :: "nat \<Rightarrow> bool \<Rightarrow> u64 \<Rightarrow> u32 list \<Rightarrow> u32 \<Rightarrow> nat option" where
  "lo_search as av valid tag t = (if av then List.find (\<lambda>i. tag ! i = t) [0..<as]
     else List.find (\<lambda>i. tag ! i = t) (filter (bit valid) [0..<64]))"

definition popcountl :: "u64 \<Rightarrow> nat" where
  "popcountl x = length (filter (bit x) [0..<64])"

definition ffsl :: "u64 \<Rightarrow> nat option" where
  "ffsl x = List.find (bit x) [0..<64]"

definition lo_fill :: "nat \<Rightarrow> bool \<times> u64 \<times> u64 \<times> u32 list \<Rightarrow> u32
    \<Rightarrow> (bool \<times> u64 \<times> u64 \<times> u32 list) res" where
  "lo_fill as = (\<lambda>(av, valid, lru, tag) t.
     if av then rbind (lo_findLRU as 1 lru) (\<lambda>(offs, lru1).
       ensure Undefined (offs < length tag) (Inr (av, valid, lru1, tag[offs := t])))
     else case ffsl (NOT valid) of None \<Rightarrow> Inl Undefined | Some offs \<Rightarrow>
       rbind (lo_updateLRU (offs + as) lru) (\<lambda>lru1.
         let valid1 = valid OR push_bit offs 1
         in ensure Undefined (offs < length tag)
              (Inr (popcountl valid1 = as, valid1, lru1, tag[offs := t]))))"

definition rl_victim :: "u64 \<Rightarrow> nat \<Rightarrow> u64 list \<Rightarrow> nat" where
  "rl_victim now as lru = fst (foldl (\<lambda>(offs, mx) i.
     let d = sint (now - lru ! i) in if mx < d then (i, d) else (offs, mx)) (0, 0) [0..<as])"

definition rl_fill :: "u64 \<Rightarrow> nat \<Rightarrow> u8 \<times> u8 list \<times> u64 list \<times> u32 list \<Rightarrow> u32
    \<Rightarrow> u8 \<times> u8 list \<times> u64 list \<times> u32 list" where
  "rl_fill now as = (\<lambda>(av, valid, lru, tag) t.
     if av \<noteq> 0 then let offs = rl_victim now as lru in (av, valid[offs := 1], lru, tag[offs := t])
     else let offs = first_invalid as valid; valid1 = valid[offs := 1]
       in (all_valid as valid1, valid1, lru[offs := now], tag[offs := t]))"

definition rr_fill :: "nat \<Rightarrow> nat \<Rightarrow> u8 \<times> u8 list \<times> u32 list \<Rightarrow> u32 \<Rightarrow> (u8 \<times> u8 list \<times> u32 list) res" where
  "rr_fill r as = (\<lambda>(av, valid, tag) t.
     if av \<noteq> 0 then ensure Trap (as \<noteq> 0) (let offs = r mod as in Inr (av, valid[offs := 1], tag[offs := t]))
     else let offs = first_invalid as valid; valid1 = valid[offs := 1]
       in Inr (all_valid as valid1, valid1, tag[offs := t]))"

section \<open>Accesses\<close>

text \<open>
  The access of each class, over the access of the next level: \<open>nxt\<close> is \<open>None\<close> for the last level
  and otherwise takes the reload address and the latency so far to the new lower levels \<open>cs\<close> and
  the latency.  The number of bytes is not used by any class and is left out.
\<close>

type_synonym next_access = "(u32 \<Rightarrow> u32 \<Rightarrow> (cache list \<times> u32) res) option"

definition fetch_next :: "next_access \<Rightarrow> cache \<Rightarrow> u32 \<Rightarrow> u32 \<Rightarrow> cache list \<Rightarrow> (cache list \<times> u32) res" where
  "fetch_next nxt c addr lat cs = (case nxt of None \<Rightarrow> Inr (cs, lat) | Some f \<Rightarrow> f (reload_addr c addr) lat)"

definition setAssoc_access :: "env \<Rightarrow> next_access \<Rightarrow> cache \<Rightarrow> cacheset list \<Rightarrow> u32 \<Rightarrow> opType \<Rightarrow> u32
    \<Rightarrow> cache list \<Rightarrow> (bool \<times> cache \<times> cache list \<times> u32) res" where
  "setAssoc_access e nxt c sets addr o2 lat0 cs =
     (let lat = lat0 + latency c
      in rbind (index c addr) (\<lambda>(w, t, b). rbind (nth_res sets w) (\<lambda>s.
         rbind (cacheset_access (fresh e) (assoc c) t s) (\<lambda>(s1, hit).
           let c1 = (if hit then count_hit o2 c else count_miss o2 c)\<lparr>corg := SetAssoc (sets[w := s1])\<rparr>
           in if hit then Inr (True, c1, cs, lat)
              else case nxt of
                Some f \<Rightarrow> rbind (f (reload_addr c addr) lat) (\<lambda>(cs1, lat1). Inr (False, c1, cs1, lat1))
              | None \<Rightarrow> Inr (False, c1, cs, lat + mem_latency e)))))"

definition fullAssoc_access :: "env \<Rightarrow> cache \<Rightarrow> u32 mylist \<Rightarrow> u64 list \<Rightarrow> u32 \<Rightarrow> opType
    \<Rightarrow> (bool \<times> cache) res" where
  "fullAssoc_access e c ents dep addr o2 = rbind (index c addr) (\<lambda>(w, t, b).
     rbind (find_ml t ents) (\<lambda>(it, d).
       if it \<noteq> None then ensure Undefined (nat d < length dep)
         (rbind (move_to_head it ents) (\<lambda>l.
            Inr (True, count_hit o2 (c\<lparr>corg := FullAssoc l (dep[nat d := dep ! nat d + 1])\<rparr>))))
       else rbind (if size_ml ents = assoc c then pop_back ents else Inr ents) (\<lambda>l.
         rbind (push_front (fresh e) t l) (\<lambda>l1. Inr (False, count_miss o2 (c\<lparr>corg := FullAssoc l1 dep\<rparr>))))))"

definition directMapped_access :: "cache \<Rightarrow> u32 list \<Rightarrow> bool list \<Rightarrow> u32 \<Rightarrow> opType \<Rightarrow> (bool \<times> cache) res" where
  "directMapped_access c tags valid addr o2 = rbind (index c addr) (\<lambda>(w, t, b).
     ensure Undefined (w < length tags \<and> w < length valid)
       (if tags ! w = t \<and> valid ! w then Inr (True, count_hit o2 c)
        else Inr (False, count_miss o2 (c\<lparr>corg := DirectMapped (tags[w := t]) (valid[w := True])\<rparr>))))"

definition fullRand_access :: "nat \<Rightarrow> cache \<Rightarrow> u32 list \<Rightarrow> u32 list \<Rightarrow> u32 \<Rightarrow> opType \<Rightarrow> (bool \<times> cache) res" where
  "fullRand_access r c ents tags addr o2 = rbind (index c addr) (\<lambda>(w, t, b).
     if t \<in> set ents then Inr (True, count_hit o2 c)
     else if length ents \<noteq> assoc c then
       Inr (False, count_miss o2 (c\<lparr>corg := FullRand (t # ents) (tags @ [t])\<rparr>))
     else ensure Trap (assoc c \<noteq> 0) (let pos = r mod assoc c in
       rbind (nth_res tags pos) (\<lambda>old. ensure Undefined (old \<in> set ents)
         (Inr (False, count_miss o2 (c\<lparr>corg := FullRand (t # remove1 old ents) (tags[pos := t])\<rparr>))))))"

definition lowAssoc_access :: "next_access \<Rightarrow> cache \<Rightarrow> bool list \<Rightarrow> u64 list \<Rightarrow> u64 list \<Rightarrow> u32 list list
    \<Rightarrow> u32 \<Rightarrow> opType \<Rightarrow> u32 \<Rightarrow> cache list \<Rightarrow> (bool \<times> cache \<times> cache list \<times> u32) res" where
  "lowAssoc_access nxt c av valid lru tag addr o2 lat0 cs = rbind (index c addr) (\<lambda>(w, t, b).
     ensure Undefined (w < length av \<and> w < length valid \<and> w < length lru \<and> w < length tag)
     (let lat = lat0 + latency c
      in case lo_search (assoc c) (av ! w) (valid ! w) (tag ! w) t of
           Some a \<Rightarrow> rbind (lo_updateLRU (a + assoc c) (lru ! w)) (\<lambda>l.
             Inr (True, count_hit o2 (c\<lparr>corg := LowAssoc av valid (lru[w := l]) tag\<rparr>), cs, lat))
         | None \<Rightarrow> rbind (fetch_next nxt c addr lat cs) (\<lambda>(cs1, lat1).
             rbind (lo_fill (assoc c) (av ! w, valid ! w, lru ! w, tag ! w) t) (\<lambda>(a1, v1, l1, t1).
               Inr (False, count_miss o2 (c\<lparr>corg := LowAssoc (av[w := a1]) (valid[w := v1]) (lru[w := l1])
                  (tag[w := t1])\<rparr>), cs1, lat1)))))"

definition highAssoc_access :: "next_access \<Rightarrow> cache \<Rightarrow> u8 list \<Rightarrow> u8 list list \<Rightarrow> u8 list list \<Rightarrow> u32 list list
    \<Rightarrow> u32 \<Rightarrow> opType \<Rightarrow> u32 \<Rightarrow> cache list \<Rightarrow> (bool \<times> cache \<times> cache list \<times> u32) res" where
  "highAssoc_access nxt c av valid lru tag addr o2 lat0 cs = rbind (index c addr) (\<lambda>(w, t, b).
     ensure Undefined (w < length av \<and> w < length valid \<and> w < length lru \<and> w < length tag)
     (let lat = lat0 + latency c
      in case hi_search (assoc c) (av ! w) (valid ! w) (tag ! w) t of
           Some a \<Rightarrow> rbind (hi_updateLRU (a + assoc c) (lru ! w)) (\<lambda>l.
             Inr (True, count_hit o2 (c\<lparr>corg := HighAssoc av valid (lru[w := l]) tag\<rparr>), cs, lat))
         | None \<Rightarrow> rbind (fetch_next nxt c addr lat cs) (\<lambda>(cs1, lat1).
             rbind (hi_fill (assoc c) (av ! w, valid ! w, lru ! w, tag ! w) t) (\<lambda>(a1, v1, l1, t1).
               Inr (False, count_miss o2 (c\<lparr>corg := HighAssoc (av[w := a1]) (valid[w := v1]) (lru[w := l1])
                  (tag[w := t1])\<rparr>), cs1, lat1)))))"

definition realLRU_access :: "u64 \<Rightarrow> next_access \<Rightarrow> cache \<Rightarrow> u8 list \<Rightarrow> u8 list list \<Rightarrow> u64 list list \<Rightarrow> u32 list list
    \<Rightarrow> u32 \<Rightarrow> opType \<Rightarrow> u32 \<Rightarrow> cache list \<Rightarrow> (bool \<times> cache \<times> cache list \<times> u32) res" where
  "realLRU_access now nxt c av valid lru tag addr o2 lat0 cs = rbind (index c addr) (\<lambda>(w, t, b).
     ensure Undefined (w < length av \<and> w < length valid \<and> w < length lru \<and> w < length tag)
     (let lat = lat0 + latency c
      in case valid_way (assoc c) (valid ! w) (tag ! w) t of
           Some a \<Rightarrow> Inr (True, count_hit o2 (c\<lparr>corg := RealLRU av valid (lru[w := (lru ! w)[a := now]]) tag\<rparr>), cs, lat)
         | None \<Rightarrow> rbind (fetch_next nxt c addr lat cs) (\<lambda>(cs1, lat1).
             let (a1, v1, l1, t1) = rl_fill now (assoc c) (av ! w, valid ! w, lru ! w, tag ! w) t
             in Inr (False, count_miss o2 (c\<lparr>corg := RealLRU (av[w := a1]) (valid[w := v1]) (lru[w := l1])
                  (tag[w := t1])\<rparr>), cs1, lat1))))"

definition randomReplacement_access :: "nat \<Rightarrow> next_access \<Rightarrow> cache \<Rightarrow> u8 list \<Rightarrow> u8 list list \<Rightarrow> u32 list list
    \<Rightarrow> u32 \<Rightarrow> opType \<Rightarrow> u32 \<Rightarrow> cache list \<Rightarrow> (bool \<times> cache \<times> cache list \<times> u32) res" where
  "randomReplacement_access r nxt c av valid tag addr o2 lat0 cs = rbind (index c addr) (\<lambda>(w, t, b).
     ensure Undefined (w < length av \<and> w < length valid \<and> w < length tag)
     (let lat = lat0 + latency c
      in case valid_way (assoc c) (valid ! w) (tag ! w) t of
           Some a \<Rightarrow> Inr (True, count_hit o2 c, cs, lat)
         | None \<Rightarrow> rbind (fetch_next nxt c addr lat cs) (\<lambda>(cs1, lat1).
             rbind (rr_fill r (assoc c) (av ! w, valid ! w, tag ! w) t) (\<lambda>(a1, v1, t1).
               Inr (False, count_miss o2 (c\<lparr>corg := RandomRepl (av[w := a1]) (valid[w := v1]) (tag[w := t1])\<rparr>), cs1, lat1)))))"

text \<open>The virtual call: the class of the level decides.\<close>

definition level_access :: "env \<Rightarrow> next_access \<Rightarrow> cache \<Rightarrow> u32 \<Rightarrow> opType \<Rightarrow> u32 \<Rightarrow> cache list
    \<Rightarrow> (bool \<times> cache \<times> cache list \<times> u32) res" where
  "level_access e nxt c addr o2 lat cs = (case corg c of
     SetAssoc sets \<Rightarrow> setAssoc_access e nxt c sets addr o2 lat cs
   | FullAssoc ents dep \<Rightarrow> rbind (fullAssoc_access e c ents dep addr o2) (\<lambda>(h, c1). Inr (h, c1, cs, lat))
   | DirectMapped tags valid \<Rightarrow> rbind (directMapped_access c tags valid addr o2) (\<lambda>(h, c1). Inr (h, c1, cs, lat))
   | FullRand ents tags \<Rightarrow> rbind (fullRand_access (rand_val e (length cs)) c ents tags addr o2)
       (\<lambda>(h, c1). Inr (h, c1, cs, lat))
   | LowAssoc av valid lru tag \<Rightarrow> lowAssoc_access nxt c av valid lru tag addr o2 lat cs
   | HighAssoc av valid lru tag \<Rightarrow> highAssoc_access nxt c av valid lru tag addr o2 lat cs
   | RealLRU av valid lru tag \<Rightarrow> realLRU_access (curr_cycle e) nxt c av valid lru tag addr o2 lat cs
   | RandomRepl av valid tag \<Rightarrow> randomReplacement_access (rand_val e (length cs)) nxt c av valid tag addr o2 lat cs)"

fun access :: "env \<Rightarrow> cache list \<Rightarrow> u32 \<Rightarrow> opType \<Rightarrow> u32 \<Rightarrow> (bool \<times> cache list \<times> u32) res" where
  "access e [] addr o2 lat = Inl Undefined"
| "access e (c # cs) addr o2 lat =
     rbind (level_access e
        (if cs = [] then None else Some (\<lambda>a l. rbind (access e cs a o2 l) (\<lambda>(_, cs1, l1). Inr (cs1, l1))))
        c addr o2 lat cs)
       (\<lambda>(h, c1, cs1, lat1). Inr (h, c1 # cs1, lat1))"

declare hi_updateLRU.simps [simp del] hi_findLRU.simps [simp del]
  lo_updateLRU.simps [simp del] lo_findLRU.simps [simp del]

section \<open>Flushes, the miss queue and the core's calls\<close>

fun flush_sets :: "cacheset list \<Rightarrow> cacheset list res" where
  "flush_sets [] = Inr []"
| "flush_sets (s # ss) = rbind (cacheset_clear s) (\<lambda>s1. rbind (flush_sets ss) (\<lambda>ss1. Inr (s1 # ss1)))"

definition flush_org :: "org \<Rightarrow> org res" where
  "flush_org og = (case og of
     SetAssoc sets \<Rightarrow> rbind (flush_sets sets) (\<lambda>ss. Inr (SetAssoc ss))
   | FullAssoc ents dep \<Rightarrow> rbind (clear_ml ents) (\<lambda>l. Inr (FullAssoc l (replicate (length dep) 0)))
   | DirectMapped tags valid \<Rightarrow> Inr (DirectMapped tags (replicate (length valid) False))
   | FullRand ents tags \<Rightarrow> Inr (FullRand [] [])
   | LowAssoc av valid lru tag \<Rightarrow> Inr (LowAssoc (map (\<lambda>_. False) av) (map (\<lambda>_. 0) valid) lru tag)
   | HighAssoc av valid lru tag \<Rightarrow> Inr (HighAssoc (map (\<lambda>_. 0) av) (map (map (\<lambda>_. 0)) valid) lru tag)
   | RealLRU av valid lru tag \<Rightarrow> Inr (RealLRU (map (\<lambda>_. 0) av) (map (map (\<lambda>_. 0)) valid) lru tag)
   | RandomRepl av valid tag \<Rightarrow> Inl Undefined)"

fun flush :: "cache list \<Rightarrow> cache list res" where
  "flush [] = Inr []"
| "flush (c # cs) = rbind (flush_org (corg c)) (\<lambda>og. rbind (flush cs) (\<lambda>cs1. Inr (c\<lparr>corg := og\<rparr> # cs1)))"

text \<open>Only two of the classes drop the line; the others pass the call on.\<close>

definition flush_line_org :: "cache \<Rightarrow> u32 \<Rightarrow> org res" where
  "flush_line_org c addr = (case corg c of
     SetAssoc sets \<Rightarrow> rbind (index c addr) (\<lambda>(w, t, b). rbind (nth_res sets w) (\<lambda>s.
       rbind (cacheset_flush_line t s) (\<lambda>s1. Inr (SetAssoc (sets[w := s1])))))
   | FullAssoc ents dep \<Rightarrow> rbind (index c addr) (\<lambda>(w, t, b). rbind (find_ml t ents) (\<lambda>(it, d).
       if it \<noteq> None then rbind (erase_ml it ents) (\<lambda>l. Inr (FullAssoc l dep)) else Inr (corg c)))
   | _ \<Rightarrow> Inr (corg c))"

fun flush_line :: "cache list \<Rightarrow> u32 \<Rightarrow> cache list res" where
  "flush_line [] addr = Inr []"
| "flush_line (c # cs) addr = rbind (flush_line_org c addr) (\<lambda>og.
     rbind (flush_line cs addr) (\<lambda>cs1. Inr (c\<lparr>corg := og\<rparr> # cs1)))"

record op_cycles =
  aux_cycle :: u64
  complete_cycle :: u64

type_synonym op_table = "nat \<rightharpoonup> op_cycles"

text \<open>One pass of \<open>tick\<close> over the miss queue of a level, from an iterator on.\<close>

fun tick_loop :: "nat \<Rightarrow> u64 \<Rightarrow> nat option \<Rightarrow> nat sim_list \<Rightarrow> op_table \<Rightarrow> (nat sim_list \<times> op_table) res" where
  "tick_loop k now None l ops = Inr (l, ops)"
| "tick_loop 0 now (Some p) l ops = Inl OutOfFuel"
| "tick_loop (Suc k) now (Some p) l ops = rbind (deref_list l (Some p)) (\<lambda>v.
     case Option.bind v ops of None \<Rightarrow> Inl Undefined | Some oc \<Rightarrow>
       if aux_cycle oc = now then
         rbind (erase_list (Some p) l) (\<lambda>(l1, it). tick_loop k now it l1
           (ops(the v \<mapsto> oc\<lparr>complete_cycle := aux_cycle oc + 1\<rparr>)))
       else rbind (next_list l (Some p)) (\<lambda>it. tick_loop k now it l ops))"

definition tick_level :: "u64 \<Rightarrow> cache \<Rightarrow> op_table \<Rightarrow> (cache \<times> op_table) res" where
  "tick_level now c ops = rbind (tick_loop (num_entries (inflight c)) now (begin_list (inflight c)) (inflight c) ops)
     (\<lambda>(l, ops1). Inr (c\<lparr>inflight := l\<rparr>, ops1))"

fun tick :: "u64 \<Rightarrow> cache list \<Rightarrow> op_table \<Rightarrow> (cache list \<times> op_table) res" where
  "tick now [] ops = Inr ([], ops)"
| "tick now (c # cs) ops = rbind (tick now cs ops) (\<lambda>(cs1, ops1).
     rbind (tick_level now c ops1) (\<lambda>(c1, ops2). Inr (c1 # cs1, ops2)))"

definition nuke_inflight :: "cache list \<Rightarrow> cache list" where
  "nuke_inflight cs = map (\<lambda>c. c\<lparr>inflight := clear_list (inflight c)\<rparr>) cs"

text \<open>The stamp of the finishing cycle and the entry in the miss queue, shared by read and write.\<close>

definition start_inflight :: "u64 \<Rightarrow> u32 \<Rightarrow> nat \<Rightarrow> cache list \<Rightarrow> op_table \<Rightarrow> (cache list \<times> op_table) res" where
  "start_inflight now lat op cs ops = (case ops op of None \<Rightarrow> Inl Undefined | Some oc \<Rightarrow>
     case cs of [] \<Rightarrow> Inl Undefined | c # cs1 \<Rightarrow>
       ensure AssertFail (\<not> full_list (inflight c))
         (rbind (push_list (Some op) (inflight c)) (\<lambda>l.
            Inr (c\<lparr>inflight := l\<rparr> # cs1, ops(op \<mapsto> oc\<lparr>aux_cycle := ucast lat + now\<rparr>)))))"

definition read_op :: "env \<Rightarrow> nat \<Rightarrow> u32 \<Rightarrow> cache list \<Rightarrow> op_table \<Rightarrow> (u32 \<times> cache list \<times> op_table) res" where
  "read_op e op addr cs ops = rbind (access e cs addr READ 0) (\<lambda>(hit, cs1, lat).
     rbind (start_inflight (curr_cycle e) lat op cs1 ops) (\<lambda>(cs2, ops1). Inr (lat, cs2, ops1)))"

definition write_op :: "env \<Rightarrow> nat \<Rightarrow> u32 \<Rightarrow> cache list \<Rightarrow> op_table \<Rightarrow> (u32 \<times> cache list \<times> op_table) res" where
  "write_op e op addr cs ops = rbind (access e cs addr WRITE 0) (\<lambda>(hit, cs1, lat).
     rbind (start_inflight (curr_cycle e) 1 op cs1 ops) (\<lambda>(cs2, ops1). Inr (1, cs2, ops1)))"

definition warm_read :: "env \<Rightarrow> u32 \<Rightarrow> cache list \<Rightarrow> cache list res" where
  "warm_read e addr cs = rbind (access e cs addr READ 0) (\<lambda>(_, cs1, _). Inr cs1)"

definition warm_write :: "env \<Rightarrow> u32 \<Rightarrow> cache list \<Rightarrow> cache list res" where
  "warm_write e addr cs = rbind (access e cs addr WRITE 0) (\<lambda>(_, cs1, _). Inr cs1)"

definition miss_handlers_available :: "cache \<Rightarrow> bool" where
  "miss_handlers_available c \<longleftrightarrow> \<not> full_list (inflight c)"

definition capacity :: "cache \<Rightarrow> nat" where
  "capacity c = bytes_per_line c * assoc c * num_sets c"

end
