(* ===== verification/Cache_Proofs.thy ===== *)
theory Cache_Proofs
  imports Cache
begin

text \<open>
  What the caches promise: the recency list of a set is a least-recently-used list (stack
  property, inclusion), an address splits into tag, set and offset without loss, an access of a
  hierarchy of set-associative levels returns the latency of the levels it probes and leaves the
  line resident, and the miss queue completes exactly the operations that are due.
\<close>

section \<open>Recency lists\<close>

definition lru_spec :: "nat \<Rightarrow> 'a \<Rightarrow> 'a list \<Rightarrow> bool \<times> 'a list" where
  "lru_spec n t ts = (t \<in> set ts, t # (if t \<in> set ts then remove1 t ts
     else if length ts = n then butlast ts else ts))"

text \<open>
  The contract of a recency list, and the access a cache set makes of it: look up, move to the
  front on a hit, make room at the back and add in front on a miss.
\<close>

locale lru_list =
  fixes ok :: "'l \<Rightarrow> bool"
    and items :: "'l \<Rightarrow> 'a list"
    and room :: nat
    and lookup :: "'a \<Rightarrow> 'l \<Rightarrow> (nat option \<times> int) res"
    and to_front :: "nat option \<Rightarrow> 'l \<Rightarrow> 'l res"
    and drop_last :: "'l \<Rightarrow> 'l res"
    and add_front :: "'a \<Rightarrow> 'l \<Rightarrow> 'l res"
    and size_of :: "'l \<Rightarrow> nat"
  assumes size_items: "ok l \<Longrightarrow> size_of l = length (items l)"
    and lookup_miss: "ok l \<Longrightarrow> v \<notin> set (items l) \<Longrightarrow> lookup v l = Inr (None, -1)"
    and lookup_hit: "ok l \<Longrightarrow> v \<in> set (items l) \<Longrightarrow>
      \<exists>p d l'. lookup v l = Inr (Some p, d) \<and> to_front (Some p) l = Inr l' \<and> ok l' \<and> items l' = v # remove1 v (items l)"
    and drop_ok: "ok l \<Longrightarrow> 2 \<le> length (items l) \<Longrightarrow> \<exists>l'. drop_last l = Inr l' \<and> ok l' \<and> items l' = butlast (items l)"
    and add_ok: "ok l \<Longrightarrow> length (items l) < room \<Longrightarrow> \<exists>l'. add_front v l = Inr l' \<and> ok l' \<and> items l' = v # items l"
begin

lemma access_spec:
  assumes "ok l" "length (items l) \<le> n" "2 \<le> n" "n \<le> room"
  shows "\<exists>l'. rbind (lookup t l) (\<lambda>(it, d). if it \<noteq> None then rbind (to_front it l) (\<lambda>l1. Inr (l1, True))
      else rbind (if size_of l = n then drop_last l else Inr l) (\<lambda>l1. rbind (add_front t l1) (\<lambda>l2. Inr (l2, False))))
    = Inr (l', fst (lru_spec n t (items l))) \<and> ok l' \<and> items l' = snd (lru_spec n t (items l))"
proof (cases "t \<in> set (items l)")
  case True
  then show ?thesis using lookup_hit[OF assms(1) True] by (auto simp: lru_spec_def)
next
  case False
  obtain l1 where l1: "(if size_of l = n then drop_last l else Inr l) = Inr l1" "ok l1"
    "items l1 = (if length (items l) = n then butlast (items l) else items l)"
    using size_items[OF assms(1)] drop_ok[OF assms(1)] assms(1,3) by (cases "length (items l) = n") auto
  have "length (items l1) < room" using l1(3) assms by auto
  then obtain l2 where "add_front t l1 = Inr l2" "ok l2" "items l2 = t # items l1"
    using add_ok[OF l1(2)] by blast
  then show ?thesis using False l1 lookup_miss[OF assms(1) False] by (auto simp: lru_spec_def)
qed

end

definition wf_lru :: "u32 mylist \<Rightarrow> bool" where
  "wf_lru l \<longleftrightarrow> wf_ml l"

lemma map_split_at:
  assumes "map f ps = xs" "v \<in> set xs"
  obtains as p bs where "ps = as @ p # bs" "f p = v" "v \<notin> f ` set as"
  using assms split_list_first_prop[of ps "\<lambda>p. f p = v"] by (metis (mono_tags, lifting) imageE list.set_map)

lemma remove1_map_first:
  "v \<notin> f ` set as \<Longrightarrow> f p = v \<Longrightarrow> remove1 v (map f (as @ p # bs)) = map f (as @ bs)"
  by (induction as) auto

lemma ml_lru_list:
  assumes "fresh_ok n frs"
  shows "lru_list wf_ml items_ml n find_ml move_to_head pop_back (push_front frs) size_ml"
proof unfold_locales
  fix l :: "'a mylist" and v
  assume wf: "wf_ml l"
  define ps where "ps = nodes_ml l"
  have c: "ml_chain l ps" using wf by (simp add: wf_ml_def ps_def)
  have it: "items_ml l = map (data_at (ml_heap l)) ps" by (simp add: items_ml_def ps_def)
  show "size_ml l = length (items_ml l)" using ml_chainD(5)[OF c] it by (simp add: size_ml_def)
  show "find_ml v l = Inr (None, -1)" if "v \<notin> set (items_ml l)"
    using find_ml_chain[OF c, of v] that it by auto
  show "\<exists>p d l'. find_ml v l = Inr (Some p, d) \<and> move_to_head (Some p) l = Inr l' \<and> wf_ml l'
      \<and> items_ml l' = v # remove1 v (items_ml l)" if mem: "v \<in> set (items_ml l)"
  proof -
    obtain as p bs where s: "ps = as @ p # bs" "data_at (ml_heap l) p = v" "v \<notin> data_at (ml_heap l) ` set as"
      "find_ml v l = Inr (Some p, int (length as))"
      using find_ml_chain[OF c, of v] mem unfolding it by blast
    obtain l' where l': "move_to_head (Some p) l = Inr l'" "ml_chain l' (p # as @ bs)"
      "\<forall>a. data_at (ml_heap l') a = data_at (ml_heap l) a"
      using ml_move_to_head[OF c[unfolded s(1)]] by blast
    have "items_ml l' = v # remove1 v (items_ml l)"
      using ml_chain_nodes[OF l'(2)] l'(3) s(2) it s(1) remove1_map_first[OF s(3,2)] by simp
    then show ?thesis using s(4) l'(1) ml_chain_nodes[OF l'(2)] by blast
  qed
  show "\<exists>l'. pop_back l = Inr l' \<and> wf_ml l' \<and> items_ml l' = butlast (items_ml l)" if two: "2 \<le> length (items_ml l)"
  proof -
    obtain qs p where s: "ps = qs @ [p]" "qs \<noteq> []"
      using two it by (cases ps rule: rev_cases) (auto simp: Suc_le_eq)
    obtain l' where l': "pop_back l = Inr l'" "ml_chain l' qs" "\<forall>a \<in> set qs. data_at (ml_heap l') a = data_at (ml_heap l) a"
      using ml_pop_back[OF c[unfolded s(1)] s(2)] by blast
    then have "items_ml l' = butlast (items_ml l)" using ml_chain_nodes[OF l'(2)] it s(1) by simp
    then show ?thesis using l' ml_chain_nodes[OF l'(2)] by blast
  qed
  show "\<exists>l'. push_front frs v l = Inr l' \<and> wf_ml l' \<and> items_ml l' = v # items_ml l" if "length (items_ml l) < n"
  proof -
    have "length ps < n" using that it by simp
    then obtain l' e where "push_front frs v l = Inr l'" "ml_chain l' (e # ps)"
      "map (data_at (ml_heap l')) (e # ps) = v # map (data_at (ml_heap l)) ps"
      using ml_push_front[OF c assms] by metis
    then show ?thesis using ml_chain_nodes[of l' "e # ps"] it by auto
  qed
qed

interpretation ff: lru_list wf_ml items_ml n find_ml move_to_head pop_back "push_front (first_fit n)" size_ml for n
  by (rule ml_lru_list[OF fresh_ok_first_fit])

lemma cacheset_access_by_list:
  "cacheset_access frs n t s = rbind
     (rbind (find_ml t (entries s)) (\<lambda>(it, d). if it \<noteq> None then rbind (move_to_head it (entries s)) (\<lambda>l1. Inr (l1, True))
      else rbind (if size_ml (entries s) = n then pop_back (entries s) else Inr (entries s))
        (\<lambda>l1. rbind (push_front frs t l1) (\<lambda>l2. Inr (l2, False)))))
     (\<lambda>(l, h). Inr (if h then s\<lparr>lhits := lhits s + 1, entries := l\<rparr> else s\<lparr>lmisses := lmisses s + 1, entries := l\<rparr>, h))"
  unfolding cacheset_access_def rbind_assoc
  by (rule arg_cong[where f = "rbind _"], rule ext) (auto simp: rbind_assoc)

lemma cacheset_access_spec:
  assumes "wf_ml (entries s)" "length (items_ml (entries s)) \<le> n" "2 \<le> n" "fresh_ok m frs" "n \<le> m"
  shows "\<exists>s'. cacheset_access frs n t s = Inr (s', fst (lru_spec n t (items_ml (entries s))))
    \<and> wf_ml (entries s') \<and> items_ml (entries s') = snd (lru_spec n t (items_ml (entries s)))
    \<and> lhits s' = lhits s + (if fst (lru_spec n t (items_ml (entries s))) then 1 else 0)
    \<and> lmisses s' = lmisses s + (if fst (lru_spec n t (items_ml (entries s))) then 0 else 1)"
proof -
  note lru_list.access_spec[OF ml_lru_list[OF assms(4)] assms(1,2,3,5), of t]
  then obtain l' where l': "rbind (find_ml t (entries s)) (\<lambda>(it, d). if it \<noteq> None then rbind (move_to_head it (entries s)) (\<lambda>l1. Inr (l1, True))
      else rbind (if size_ml (entries s) = n then pop_back (entries s) else Inr (entries s))
        (\<lambda>l1. rbind (push_front frs t l1) (\<lambda>l2. Inr (l2, False)))) = Inr (l', fst (lru_spec n t (items_ml (entries s))))"
    "wf_ml l'" "items_ml l' = snd (lru_spec n t (items_ml (entries s)))" by blast
  show ?thesis unfolding cacheset_access_by_list l'(1) using l'(2,3) by simp
qed

section \<open>Stack property of LRU\<close>

text \<open>\<open>recency\<close> keeps every tag seen, the most recent first; the set keeps its first \<open>n\<close>.\<close>

definition recency :: "'a \<Rightarrow> 'a list \<Rightarrow> 'a list" where
  "recency t rs = t # remove1 t rs"

lemma distinct_recency: "distinct rs \<Longrightarrow> distinct (recency t rs)"
  by (simp add: recency_def)

lemma remove1_take: "t \<in> set (take (Suc m) rs) \<Longrightarrow> remove1 t (take (Suc m) rs) = take m (remove1 t rs)"
proof (induction rs arbitrary: m)
  case (Cons r rs)
  then show ?case by (cases m) auto
qed simp

lemma take_remove1_later: "t \<notin> set (take m rs) \<Longrightarrow> take m (remove1 t rs) = take m rs"
proof (induction rs arbitrary: m)
  case (Cons r rs)
  then show ?case by (cases m) auto
qed simp

lemma lru_spec_take:
  assumes "0 < n"
  shows "lru_spec n t (take n rs) = (t \<in> set (take n rs), take n (recency t rs))"
proof -
  obtain m where n: "n = Suc m" using assms by (cases n) auto
  show ?thesis
  proof (cases "t \<in> set (take n rs)")
    case True
    then show ?thesis using remove1_take[of t m rs] by (simp add: lru_spec_def recency_def n)
  next
    case False
    then have "t \<notin> set (take m rs)" using set_take_subset_set_take[of m n rs] n by auto
    then have "take m (remove1 t rs) = take m rs" by (rule take_remove1_later)
    moreover have "(if length (take n rs) = n then butlast (take n rs) else take n rs) = take m rs"
      by (auto simp: n butlast_take min_def butlast_conv_take)
    ultimately have "snd (lru_spec n t (take n rs)) = take n (recency t rs)"
      using False by (simp only: lru_spec_def snd_conv if_False) (simp add: recency_def n)
    then show ?thesis using False by (simp add: lru_spec_def)
  qed
qed

text \<open>A run over a set: the hits, and the final content.\<close>

fun run_set :: "(u32 heap \<Rightarrow> nat) \<Rightarrow> nat \<Rightarrow> u32 list \<Rightarrow> cacheset \<Rightarrow> (cacheset \<times> bool list) res" where
  "run_set frs n [] s = Inr (s, [])"
| "run_set frs n (t # ts) s = rbind (cacheset_access frs n t s) (\<lambda>(s1, h).
     rbind (run_set frs n ts s1) (\<lambda>(s2, hs). Inr (s2, h # hs)))"

fun stack_hits :: "nat \<Rightarrow> u32 list \<Rightarrow> u32 list \<Rightarrow> bool list" where
  "stack_hits n [] rs = []"
| "stack_hits n (t # ts) rs = (t \<in> set (take n rs)) # stack_hits n ts (recency t rs)"

lemma run_set_stack:
  assumes "2 \<le> n" "fresh_ok m frs" "n \<le> m" "wf_ml (entries s)" "items_ml (entries s) = take n rs"
  shows "\<exists>s'. run_set frs n ts s = Inr (s', stack_hits n ts rs) \<and> wf_ml (entries s')
    \<and> items_ml (entries s') = take n (foldl (\<lambda>rs t. recency t rs) rs ts)"
  using assms(4,5)
proof (induction ts arbitrary: s rs)
  case (Cons t ts)
  have spec: "lru_spec n t (items_ml (entries s)) = (t \<in> set (take n rs), take n (recency t rs))"
    using lru_spec_take[of n t rs] assms(1) Cons.prems(2) by simp
  obtain s1 where s1: "cacheset_access frs n t s = Inr (s1, t \<in> set (take n rs))" "wf_ml (entries s1)"
    "items_ml (entries s1) = take n (recency t rs)"
    using cacheset_access_spec[OF Cons.prems(1) _ assms(1-3), of t] spec Cons.prems(2) by auto
  obtain s2 where "run_set frs n ts s1 = Inr (s2, stack_hits n ts (recency t rs))" "wf_ml (entries s2)"
    "items_ml (entries s2) = take n (foldl (\<lambda>rs t. recency t rs) (recency t rs) ts)"
    using Cons.IH[OF s1(2,3)] by blast
  then show ?case using s1(1) by auto
qed simp

lemma stack_hits_mono:
  "n \<le> m \<Longrightarrow> list_all2 (\<longrightarrow>) (stack_hits n ts rs) (stack_hits m ts rs)"
proof (induction ts arbitrary: rs)
  case (Cons t ts)
  then show ?case using set_take_subset_set_take[of n m rs] by auto
qed simp

lemma empty_set_items [simp]: "wf_ml (entries empty_set)" "items_ml (entries empty_set) = []"
  by (simp_all add: empty_set_def ml_chain_nodes[OF ml_chain_new])

section \<open>Addresses\<close>

definition geometry :: "cache \<Rightarrow> nat \<Rightarrow> nat \<Rightarrow> bool" where
  "geometry c k j \<longleftrightarrow> bytes_per_line c = 2 ^ k \<and> num_sets c = 2 ^ j \<and> ln2_bytes_per_line c = k
     \<and> ln2_num_sets c = j \<and> k + j < 32"

lemma lg_loop_pow2: "k \<le> m \<Longrightarrow> m - k \<le> f \<Longrightarrow> lg_loop f k (2 ^ m) = m"
  by (induction f k "2 ^ m :: nat" rule: lg_loop.induct) auto

lemma lg_pow2: "m \<le> 31 \<Longrightarrow> lg (2 ^ m) = m"
  by (simp add: lg_def lg_loop_pow2)

lemma pow2_size_exp [simp]: "pow2_size (2 ^ m)"
  using isPow2_exp[of m, where ?'a = 64] by (simp add: pow2_size_def)

lemma mask_through_u64:
  fixes x :: u32
  assumes "j \<le> 32"
  shows "(ucast (ucast x AND (of_nat (2 ^ j) - 1 :: u64)) :: u32) = take_bit j x"
proof -
  have "(of_nat (2 ^ j) :: u64) = 2 ^ j" by simp
  then have "ucast x AND (of_nat (2 ^ j) - 1 :: u64) = take_bit j (ucast x)" by (simp only: and_mask)
  then show ?thesis by (auto intro!: bit_word_eqI simp: bit_simps)
qed

definition set_of :: "cache \<Rightarrow> u32 \<Rightarrow> nat" where
  "set_of c addr = unat (take_bit (ln2_num_sets c) (drop_bit (ln2_bytes_per_line c) addr))"

definition tag_of :: "cache \<Rightarrow> u32 \<Rightarrow> u32" where
  "tag_of c addr = drop_bit (ln2_offset_bits c) addr"

lemma index_geometry:
  assumes "geometry c k j"
  shows "index c addr = Inr (set_of c addr, tag_of c addr, take_bit k addr)" "set_of c addr < num_sets c"
proof -
  have g: "k + j < 32" "k \<le> 32" "j \<le> 32" using assms by (auto simp: geometry_def)
  show "index c addr = Inr (set_of c addr, tag_of c addr, take_bit k addr)"
    using assms g mask_through_u64[OF g(3)] mask_through_u64[OF g(2)]
    by (simp add: index_def geometry_def ln2_offset_bits_def set_of_def tag_of_def Let_def)
  show "set_of c addr < num_sets c"
    using assms by (simp add: set_of_def geometry_def unat_take_bit)
qed

lemma addr_pieces:
  fixes addr :: u32
  assumes "k + j < 32"
  shows "push_bit (k + j) (drop_bit (k + j) addr) OR push_bit k (take_bit j (drop_bit k addr)) OR take_bit k addr = addr"
proof (rule bit_word_eqI)
  fix n assume "n < LENGTH(32)"
  then consider "n < k" | "k \<le> n" "n < k + j" | "k + j \<le> n" "n < 32" by force
  then show "bit (push_bit (k + j) (drop_bit (k + j) addr) OR push_bit k (take_bit j (drop_bit k addr)) OR take_bit k addr) n
      = bit addr n"
    by cases (use assms in \<open>auto simp: bit_simps\<close>)
qed

lemma reload_line:
  assumes "geometry c k j"
  shows "reload_addr c addr = push_bit k (drop_bit k addr)"
proof -
  have "(of_nat (bytes_per_line c) - 1 :: u64) = mask k"
    using assms by (simp add: geometry_def mask_eq_exp_minus_1)
  moreover have "k \<le> 32" using assms by (simp add: geometry_def)
  ultimately show ?thesis
    by (auto simp: reload_addr_def intro!: bit_word_eqI simp: bit_simps)
qed

section \<open>Hierarchies of set-associative levels\<close>

definition sets_of :: "cache \<Rightarrow> cacheset list" where
  "sets_of c = (case corg c of SetAssoc ss \<Rightarrow> ss | _ \<Rightarrow> [])"

definition line_tags :: "cache \<Rightarrow> nat \<Rightarrow> u32 list" where
  "line_tags c w = items_ml (entries (sets_of c ! w))"

definition wf_level :: "nat \<Rightarrow> cache \<Rightarrow> bool" where
  "wf_level m c \<longleftrightarrow> (\<exists>k j. geometry c k j) \<and> 2 \<le> assoc c \<and> assoc c \<le> m \<and> corg c = SetAssoc (sets_of c)
     \<and> length (sets_of c) = num_sets c
     \<and> (\<forall>s \<in> set (sets_of c). wf_ml (entries s) \<and> length (items_ml (entries s)) \<le> assoc c)"

definition resident :: "cache \<Rightarrow> u32 \<Rightarrow> bool" where
  "resident c addr \<longleftrightarrow> tag_of c addr \<in> set (line_tags c (set_of c addr))"

fun probe :: "env \<Rightarrow> cache list \<Rightarrow> u32 \<Rightarrow> u32" where
  "probe e [] addr = mem_latency e"
| "probe e (c # cs) addr = latency c + (if resident c addr then 0 else probe e cs (reload_addr c addr))"

lemma lru_spec_length: "length ts \<le> n \<Longrightarrow> 0 < n \<Longrightarrow> length (snd (lru_spec n t ts)) \<le> n"
  by (auto simp: lru_spec_def length_remove1)

lemma lru_spec_mem: "t \<in> set (snd (lru_spec n t ts))"
  by (simp add: lru_spec_def)

lemma count_simps [simp]:
  "geometry (c\<lparr>corg := g\<rparr>) = geometry c" "geometry (count_hit o2 c) = geometry c" "geometry (count_miss o2 c) = geometry c"
  "assoc (count_hit o2 c) = assoc c" "assoc (count_miss o2 c) = assoc c"
  "num_sets (count_hit o2 c) = num_sets c" "num_sets (count_miss o2 c) = num_sets c"
  "latency (count_hit o2 c) = latency c" "latency (count_miss o2 c) = latency c"
  by (simp_all add: geometry_def fun_eq_iff count_hit_def count_miss_def)

text \<open>One level: its set takes the least-recently-used step and the lower levels are asked on a miss.\<close>

definition level_after :: "cache \<Rightarrow> opType \<Rightarrow> u32 \<Rightarrow> cacheset \<Rightarrow> cache" where
  "level_after c o2 addr s = (if resident c addr then count_hit o2 c else count_miss o2 c)
     \<lparr>corg := SetAssoc ((sets_of c)[set_of c addr := s])\<rparr>"

lemma level_access_set:
  assumes "wf_level m c" "fresh_ok m (fresh e)"
  shows "\<exists>s. level_access e nxt c addr o2 lat cs =
      (if resident c addr then Inr (True, level_after c o2 addr s, cs, lat + latency c)
       else case nxt of Some f \<Rightarrow> rbind (f (reload_addr c addr) (lat + latency c))
              (\<lambda>(cs1, lat1). Inr (False, level_after c o2 addr s, cs1, lat1))
            | None \<Rightarrow> Inr (False, level_after c o2 addr s, cs, lat + latency c + mem_latency e))
    \<and> wf_ml (entries s) \<and> items_ml (entries s) = snd (lru_spec (assoc c) (tag_of c addr) (line_tags c (set_of c addr)))"
proof -
  obtain k j where g: "geometry c k j" using assms(1) by (auto simp: wf_level_def)
  have w: "set_of c addr < length (sets_of c)" using index_geometry(2)[OF g] assms(1) by (simp add: wf_level_def)
  define s0 where "s0 = sets_of c ! set_of c addr"
  have s0: "wf_ml (entries s0)" "length (items_ml (entries s0)) \<le> assoc c" "2 \<le> assoc c" "assoc c \<le> m"
    "corg c = SetAssoc (sets_of c)"
    using assms(1) w by (auto simp: wf_level_def s0_def)
  have it: "items_ml (entries s0) = line_tags c (set_of c addr)" by (simp add: line_tags_def s0_def)
  obtain s where s: "cacheset_access (fresh e) (assoc c) (tag_of c addr) s0 = Inr (s, resident c addr)" "wf_ml (entries s)"
    "items_ml (entries s) = snd (lru_spec (assoc c) (tag_of c addr) (line_tags c (set_of c addr)))"
    using cacheset_access_spec[OF s0(1-3) assms(2) s0(4), of "tag_of c addr"] it
    by (auto simp: lru_spec_def resident_def)
  have n: "nth_res (sets_of c) (set_of c addr) = Inr s0" using w by (simp add: nth_res_def s0_def)
  show ?thesis
    unfolding level_access_def s0(5) using s n
    by (intro exI[of _ s], cases nxt)
      (simp_all add: setAssoc_access_def index_geometry(1)[OF g] level_after_def Let_def)
qed

lemma level_after_wf:
  assumes "wf_level m c" "wf_ml (entries s)"
    "items_ml (entries s) = snd (lru_spec (assoc c) (tag_of c addr) (line_tags c (set_of c addr)))"
  shows "wf_level m (level_after c o2 addr s)" "resident (level_after c o2 addr s) addr"
    "line_tags (level_after c o2 addr s) w = (if w = set_of c addr then
       snd (lru_spec (assoc c) (tag_of c addr) (line_tags c (set_of c addr))) else line_tags c w)"
    "hits (level_after c o2 addr s) + misses (level_after c o2 addr s) = hits c + misses c + 1"
proof -
  define c1 where "c1 = level_after c o2 addr s"
  obtain k j where g: "geometry c k j" using assms(1) by (auto simp: wf_level_def)
  have w0: "set_of c addr < length (sets_of c)" using index_geometry(2)[OF g] assms(1) by (simp add: wf_level_def)
  have f: "sets_of c1 = (sets_of c)[set_of c addr := s]" "geometry c1 k j" "assoc c1 = assoc c" "num_sets c1 = num_sets c"
    "corg c1 = SetAssoc (sets_of c1)"
    using g by (simp_all add: c1_def level_after_def sets_of_def)
  have "length (items_ml (entries s)) \<le> assoc c"
    unfolding assms(3) using assms(1) w0 by (intro lru_spec_length) (auto simp: wf_level_def line_tags_def)
  then show "wf_level m (level_after c o2 addr s)"
    using assms(1,2) f set_update_subset_insert[of "sets_of c" "set_of c addr" s]
    unfolding wf_level_def c1_def[symmetric] by auto
  show l: "line_tags (level_after c o2 addr s) w = (if w = set_of c addr then
       snd (lru_spec (assoc c) (tag_of c addr) (line_tags c (set_of c addr))) else line_tags c w)" for w
    unfolding c1_def[symmetric] using f(1) w0 assms(3) by (simp add: line_tags_def)
  have "set_of c1 addr = set_of c addr" "tag_of c1 addr = tag_of c addr"
    using g f(2) by (simp_all add: set_of_def tag_of_def ln2_offset_bits_def geometry_def)
  then show "resident (level_after c o2 addr s) addr"
    unfolding c1_def[symmetric] resident_def using l[of "set_of c addr"] lru_spec_mem by (simp add: c1_def)
  show "hits (level_after c o2 addr s) + misses (level_after c o2 addr s) = hits c + misses c + 1"
    by (simp add: level_after_def count_hit_def count_miss_def)
qed

lemma inflight_level_after: "inflight (level_after c o2 addr s) = inflight c"
  by (simp add: level_after_def count_hit_def count_miss_def)

lemma access_hierarchy:
  assumes "cs \<noteq> []" "\<forall>c \<in> set cs. wf_level m c" "fresh_ok m (fresh e)"
  shows "\<exists>cs'. access e cs addr o2 lat = Inr (resident (hd cs) addr, cs', lat + probe e cs addr)
    \<and> length cs' = length cs \<and> (\<forall>c \<in> set cs'. wf_level m c) \<and> resident (hd cs') addr
    \<and> hits (hd cs') + misses (hd cs') = hits (hd cs) + misses (hd cs) + 1
    \<and> (resident (hd cs) addr \<longrightarrow> tl cs' = tl cs) \<and> map inflight cs' = map inflight cs"
  using assms(1,2)
proof (induction cs arbitrary: addr lat)
  case (Cons c cs)
  have wf: "wf_level m c" using Cons.prems by simp
  define nxt where "nxt = (if cs = [] then None
    else Some (\<lambda>a l. rbind (access e cs a o2 l) (\<lambda>(_, cs1, l1). Inr (cs1, l1))))"
  obtain s where s: "level_access e nxt c addr o2 lat cs =
      (if resident c addr then Inr (True, level_after c o2 addr s, cs, lat + latency c)
       else case nxt of Some f \<Rightarrow> rbind (f (reload_addr c addr) (lat + latency c))
              (\<lambda>(cs1, lat1). Inr (False, level_after c o2 addr s, cs1, lat1))
            | None \<Rightarrow> Inr (False, level_after c o2 addr s, cs, lat + latency c + mem_latency e))"
    "wf_ml (entries s)" "items_ml (entries s) = snd (lru_spec (assoc c) (tag_of c addr) (line_tags c (set_of c addr)))"
    using level_access_set[OF wf assms(3)] by blast
  note after = level_after_wf[OF wf s(2,3)] inflight_level_after
  have acc: "access e (c # cs) addr o2 lat = rbind (level_access e nxt c addr o2 lat cs)
      (\<lambda>(h, c1, cs1, lat1). Inr (h, c1 # cs1, lat1))" by (simp add: nxt_def)
  show ?case
  proof (cases "resident c addr")
    case True
    then show ?thesis using acc s(1) after Cons.prems by (simp add: add.assoc)
  next
    case False
    show ?thesis
    proof (cases "cs = []")
      case True
      then have "nxt = None" by (simp add: nxt_def)
      then show ?thesis using acc s(1) after False True by (simp add: add.assoc)
    next
      case nonempty: False
      obtain cs' where cs': "access e cs (reload_addr c addr) o2 (lat + latency c)
          = Inr (resident (hd cs) (reload_addr c addr), cs', lat + latency c + probe e cs (reload_addr c addr))"
        "length cs' = length cs" "\<forall>c \<in> set cs'. wf_level m c" "map inflight cs' = map inflight cs"
        using Cons.IH[OF nonempty] Cons.prems(2) by (metis list.set_intros(2))
      then have "nxt = Some (\<lambda>a l. rbind (access e cs a o2 l) (\<lambda>(_, cs1, l1). Inr (cs1, l1)))"
        using nonempty by (simp add: nxt_def)
      then show ?thesis using acc s(1) after False cs' by (simp add: add.assoc)
    qed
  qed
qed simp

section \<open>The miss queue\<close>

definition due :: "u64 \<Rightarrow> op_table \<Rightarrow> nat option \<Rightarrow> bool" where
  "due now ops v \<longleftrightarrow> (\<exists>oc. Option.bind v ops = Some oc \<and> aux_cycle oc = now)"

definition stamp :: "u64 \<Rightarrow> nat option list \<Rightarrow> op_table \<Rightarrow> op_table" where
  "stamp now vs ops = (\<lambda>x. map_option (\<lambda>oc. if Some x \<in> set vs \<and> aux_cycle oc = now
     then oc\<lparr>complete_cycle := now + 1\<rparr> else oc) (ops x))"

lemma stamp_Nil [simp]: "stamp now [] ops = ops"
  by (auto simp: stamp_def option.map_ident fun_eq_iff)

lemma stamp_due:
  "ops x = Some oc \<Longrightarrow> aux_cycle oc = now \<Longrightarrow>
   stamp now vs (ops(x \<mapsto> oc\<lparr>complete_cycle := now + 1\<rparr>)) = stamp now (Some x # vs) ops"
  by (auto simp: stamp_def fun_eq_iff option.map_comp comp_def intro!: option.map_cong)

lemma stamp_not_due: "\<not> due now ops v \<Longrightarrow> stamp now (v # vs) ops = stamp now vs ops"
  by (cases v) (auto simp: stamp_def fun_eq_iff due_def intro!: option.map_cong)

lemma due_upd:
  "ops x = Some oc \<Longrightarrow> due now (ops(x \<mapsto> oc\<lparr>complete_cycle := y\<rparr>)) v = due now ops v"
  by (cases v) (auto simp: due_def)

definition finish :: "u64 \<Rightarrow> nat option \<Rightarrow> op_table \<Rightarrow> op_table res option res" where
  "finish now v ops = (case Option.bind v ops of None \<Rightarrow> Inl Undefined | Some oc \<Rightarrow>
     Inr (if aux_cycle oc = now then Some (Inr (ops(the v \<mapsto> oc\<lparr>complete_cycle := aux_cycle oc + 1\<rparr>))) else None))"

lemma tick_loop_scan: "tick_loop k now it l ops = scan (\<lambda>_. False) (finish now) deref_list erase_list next_list k it l ops"
proof (induction k now it l ops rule: tick_loop.induct)
  case (3 k now p l ops)
  show ?case
  proof (cases "deref_list l (Some p)")
    case (Inr v)
    show ?thesis
    proof (cases "Option.bind v ops")
      case (Some oc)
      note ih = 3(1)[OF Some] 3(2)[OF Some]
      show ?thesis
        using ih Inr Some
        by (cases "erase_list (Some p) l"; cases "next_list l (Some p)") (auto simp: finish_def[of now v ops] simp del: fun_upd_apply)
    qed (use Inr in \<open>simp add: finish_def\<close>)
  qed simp
qed simp_all

lemma pick_finish:
  assumes "\<forall>v \<in> set vs. Option.bind v ops \<noteq> None"
  shows "pick (\<lambda>_. False) (finish now) vs ops
    = Inr (filter (\<lambda>v. \<not> due now ops v) vs, filter (due now ops) vs, stamp now vs ops)"
  using assms
proof (induction vs arbitrary: ops)
  case (Cons v vs)
  then obtain x oc where x: "v = Some x" "ops x = Some oc" by (cases v) auto
  define ops1 where "ops1 = ops(x \<mapsto> oc\<lparr>complete_cycle := now + 1\<rparr>)"
  show ?case
  proof (cases "aux_cycle oc = now")
    case True
    have "\<forall>v \<in> set vs. Option.bind v ops1 \<noteq> None"
      using Cons.prems by (auto simp: ops1_def bind_eq_None_conv split: option.splits)
    moreover have "due now ops1 = due now ops" unfolding ops1_def by (rule ext, rule due_upd[of ops x oc, OF x(2)])
    moreover have "stamp now vs ops1 = stamp now (v # vs) ops"
      unfolding ops1_def x(1) by (rule stamp_due[of ops x oc now, OF x(2) True])
    ultimately have "pick (\<lambda>_. False) (finish now) vs ops1
        = Inr (filter (\<lambda>v. \<not> due now ops v) vs, filter (due now ops) vs, stamp now (v # vs) ops)"
      using Cons.IH[of ops1] by simp
    moreover have "finish now v ops = Inr (Some (Inr ops1))" "due now ops v"
      using x True by (simp_all add: finish_def ops1_def due_def)
    ultimately show ?thesis by simp
  next
    case False
    then have "\<not> due now ops v" using x by (simp add: due_def)
    then show ?thesis using Cons.IH[of ops] Cons.prems x False stamp_not_due[of now ops v vs] by (simp add: finish_def)
  qed
qed simp

lemma tick_level_ok:
  assumes "wf_sl (inflight c)" "\<forall>v \<in> set (vals_sl (inflight c)). Option.bind v ops \<noteq> None"
  shows "\<exists>l'. tick_level now c ops = Inr (c\<lparr>inflight := l'\<rparr>, stamp now (vals_sl (inflight c)) ops)
    \<and> wf_sl l' \<and> num_entries l' = num_entries (inflight c)
    \<and> vals_sl l' = filter (\<lambda>v. \<not> due now ops v) (vals_sl (inflight c))"
  using scan_sl[OF assms(1), of "\<lambda>_. False" "finish now" ops] pick_finish[OF assms(2), of now]
  by (auto simp: tick_level_def tick_loop_scan)

section \<open>The core's calls\<close>

definition wf_caches :: "nat \<Rightarrow> cache list \<Rightarrow> bool" where
  "wf_caches m cs \<longleftrightarrow> (\<forall>c \<in> set cs. wf_level m c \<and> wf_sl (inflight c))"

lemma start_inflight_ok:
  assumes "wf_sl (inflight c)" "t a = Some oc"
  shows "start_inflight now lat a (c # cs) t = Inl AssertFail \<or>
    (\<exists>l. start_inflight now lat a (c # cs) t = Inr (c\<lparr>inflight := l\<rparr> # cs, t(a \<mapsto> oc\<lparr>aux_cycle := ucast lat + now\<rparr>)) \<and> wf_sl l)"
proof (cases "full_list (inflight c)")
  case False
  have "sl_cnt (inflight c) = int (length (handles_sl (inflight c)))" using assms(1) chainD(4) by (simp add: wf_sl_def)
  then have "length (handles_sl (inflight c)) < num_entries (inflight c)"
    using False sl.handles_bound[OF assms(1)] by (simp add: full_list_def)
  from sl.add_ok[OF assms(1) _ this, of "Some a"] obtain l where "push_list (Some a) (inflight c) = Inr l" "wf_sl l" by auto
  then show ?thesis using False assms(2) by (auto simp: start_inflight_def)
qed (use assms in \<open>simp add: start_inflight_def\<close>)

text \<open>A read or write either finds the miss queue full or leaves well-formed caches and the operation stamped.\<close>

lemma call_ok:
  assumes "cs \<noteq> []" "wf_caches m cs" "fresh_ok m (fresh e)" "t a = Some oc" "f = read_op \<or> f = write_op"
  shows "f e a addr cs t = Inl AssertFail \<or> (\<exists>lat cs' oc'. f e a addr cs t = Inr (lat, cs', t(a \<mapsto> oc')) \<and> cs' \<noteq> [] \<and> wf_caches m cs')"
proof -
  define o2 where "o2 = (if f = read_op then READ else WRITE)"
  have lv: "\<forall>c \<in> set cs. wf_level m c" using assms(2) by (simp add: wf_caches_def)
  obtain h cs1 lat where x: "access e cs addr o2 0 = Inr (h, cs1, lat)" "length cs1 = length cs" "\<forall>c \<in> set cs1. wf_level m c"
    "map inflight cs1 = map inflight cs" using access_hierarchy[OF assms(1) lv assms(3), of addr o2 0] by blast
  have "inflight ` set cs1 = inflight ` set cs" using arg_cong[OF x(4), of set] by simp
  then have "\<forall>c \<in> set cs1. wf_sl (inflight c)" using assms(2) by (metis (no_types, lifting) image_iff wf_caches_def)
  with x(3) have w: "wf_caches m cs1" by (simp add: wf_caches_def)
  obtain c cs2 where c: "cs1 = c # cs2" using x(2) assms(1) by (cases cs1) auto
  define k where "k = (if f = read_op then lat else 1)"
  have q: "f e a addr cs t = rbind (start_inflight (curr_cycle e) k a cs1 t) (\<lambda>(cs2, ops1). Inr (k, cs2, ops1))"
  proof (cases "f = read_op")
    case True
    then show ?thesis using x(1) by (simp add: read_op_def o2_def k_def)
  next
    case False
    then have "f = write_op" using assms(5) by simp
    then show ?thesis using x(1) False by (simp add: write_op_def o2_def k_def)
  qed
  have "wf_level m (c\<lparr>inflight := l\<rparr>)" for l
    using w c by (auto simp: wf_caches_def wf_level_def geometry_def sets_of_def)
  then show ?thesis
    using start_inflight_ok[of c t a oc "curr_cycle e" k cs2] assms(4) w c unfolding q by (auto simp: wf_caches_def)
qed

section \<open>Construction\<close>

lemma chain_resize [simp]: "chain (resize_list n l) [0..<n] []"
  by (auto simp: chain_def resize_list_def atLeast_upt split: if_splits)

lemma new_setAssoc_ok:
  assumes "k + j < 32" "0 < a" "2 ^ a \<le> m"
  shows "\<exists>c. new_setAssoc rob (2 ^ k) (2 ^ a) (2 ^ j) lat = Inr c \<and> wf_level m c \<and> latency c = lat
    \<and> line_tags c w = (if w < 2 ^ j then [] else line_tags c w) \<and> num_sets c = 2 ^ j
    \<and> wf_sl (inflight c) \<and> vals_sl (inflight c) = []"
proof -
  define c where "c = \<lparr>bytes_per_line = 2 ^ k, assoc = 2 ^ a, num_sets = 2 ^ j, latency = lat, hits = 0, misses = 0,
        rw_hits = (0, 0), rw_misses = (0, 0), ln2_num_sets = j, ln2_bytes_per_line = k,
        inflight = resize_list rob (new_sim_list 16), corg = SetAssoc (replicate (2 ^ j) empty_set)\<rparr>"
  have "new_setAssoc rob (2 ^ k) (2 ^ a) (2 ^ j) lat = Inr c"
    using assms(1) lg_pow2[of k] lg_pow2[of j] by (simp add: new_setAssoc_def new_cache_def c_def)
  moreover have "(2::nat) ^ 1 \<le> 2 ^ a" using assms(2) by (intro power_increasing) auto
  then have "wf_level m c"
    using assms(1,3) by (auto simp: wf_level_def c_def geometry_def sets_of_def)
  moreover have "wf_sl (inflight c) \<and> vals_sl (inflight c) = []"
    by (simp add: c_def vals_sl_def chain_handles[OF chain_resize])
  ultimately show ?thesis
    by (intro exI[of _ c]) (auto simp: c_def line_tags_def sets_of_def)
qed

section \<open>Properties\<close>

text \<open>
  Splitting an address loses nothing: for a power-of-two geometry within 32 bits, \<open>index\<close>
  returns a set number below the number of sets, and tag, set number and byte offset put back
  in their places give the address.
\<close>

theorem index_splits_address:
  assumes "geometry c k j"
  shows "\<exists>w t b. index c addr = Inr (w, t, b) \<and> w < num_sets c
    \<and> push_bit (k + j) t OR push_bit k (of_nat w) OR b = addr"
proof -
  have "k + j < 32" "ln2_offset_bits c = k + j" "ln2_num_sets c = j" "ln2_bytes_per_line c = k"
    using assms by (auto simp: geometry_def ln2_offset_bits_def)
  then show ?thesis
    using index_geometry[OF assms] addr_pieces[of k j addr] by (simp add: tag_of_def set_of_def add.commute)
qed

definition sample_cache :: cache where
  "sample_cache = \<lparr>bytes_per_line = 64, assoc = 2, num_sets = 4, latency = 3, hits = 0, misses = 0,
     rw_hits = (0, 0), rw_misses = (0, 0), ln2_num_sets = 2, ln2_bytes_per_line = 6,
     inflight = new_sim_list 4, corg = SetAssoc (replicate 4 empty_set)\<rparr>"

lemma geometry_sample_cache: "geometry sample_cache 6 2"
  by (simp add: geometry_def sample_cache_def)

lemma wf_sample_cache: "wf_level 2 sample_cache"
  using geometry_sample_cache by (auto simp: wf_level_def sample_cache_def sets_of_def)

theorem index_splits_address_witness:
  "\<exists>w t b. index sample_cache 0x1234567 = Inr (w, t, b) \<and> w < 4
    \<and> push_bit 8 t OR push_bit 6 (of_nat w) OR b = 0x1234567"
  using index_splits_address[OF geometry_sample_cache, of "0x1234567"] by (simp add: sample_cache_def)

text \<open>
  C17. A set of the set-associative cache is an LRU stack: from the empty set, any sequence of
  accesses succeeds, an access hits exactly when its tag is among the \<open>n\<close> most recently used
  distinct ones, and the set then holds the \<open>n\<close> most recently used tags in order of use.  This
  needs an associativity of 2 or more and an allocator that returns unused addresses.
\<close>

theorem cacheset_is_lru_stack:
  assumes "2 \<le> n" "fresh_ok n frs"
  shows "\<exists>s. run_set frs n ts empty_set = Inr (s, stack_hits n ts [])
    \<and> items_ml (entries s) = take n (foldl (\<lambda>rs t. recency t rs) [] ts)"
  using run_set_stack[OF assms order_refl, of empty_set "[]" ts] by auto

theorem cacheset_is_lru_stack_witness:
  "\<exists>s. run_set (first_fit 2) 2 [7, 8, 7, 9, 8] empty_set = Inr (s, [False, False, True, False, False])
    \<and> items_ml (entries s) = [8, 9]"
  using cacheset_is_lru_stack[of 2 "first_fit 2" "[7, 8, 7, 9, 8]", OF _ fresh_ok_first_fit]
  by (simp add: recency_def numeral_2_eq_2)

text \<open>
  C31. Inclusion: on the same sequence of accesses a set of associativity \<open>m\<close> hits wherever a
  set of associativity \<open>n \<le> m\<close> does, where \<open>n\<close> is at least 2 (with one way the code's list is damaged).
\<close>

theorem lru_inclusion:
  assumes "2 \<le> n" "n \<le> m" "fresh_ok m frs"
  shows "\<exists>s1 s2 hs1 hs2. run_set frs n ts empty_set = Inr (s1, hs1) \<and> run_set frs m ts empty_set = Inr (s2, hs2)
    \<and> list_all2 (\<longrightarrow>) hs1 hs2"
proof -
  have "2 \<le> m" using assms by simp
  then show ?thesis
    using run_set_stack[OF assms(1,3,2), of empty_set "[]" ts] run_set_stack[OF _ assms(3) order_refl, of empty_set "[]" ts]
      stack_hits_mono[OF assms(2), of ts "[]"] by fastforce
qed

theorem lru_inclusion_witness:
  "\<exists>s1 s2 hs1 hs2. run_set (first_fit 4) 2 [1, 2, 3, 1] empty_set = Inr (s1, hs1)
    \<and> run_set (first_fit 4) 4 [1, 2, 3, 1] empty_set = Inr (s2, hs2) \<and> list_all2 (\<longrightarrow>) hs1 hs2"
  using lru_inclusion[of 2 4 "first_fit 4" "[1, 2, 3, 1]", OF _ _ fresh_ok_first_fit] by simp

text \<open>
  C32. An access of a hierarchy of well-formed set-associative levels always succeeds.  Its
  latency is the sum of the latencies of the levels from the first to the one that holds the
  line, and of the memory behind the last level when none does; it returns whether the first
  level held the line; the levels stay well-formed, the line is now in the first level, exactly
  one of the first level's hit and miss counts grows by one, and a hit touches no other level.
\<close>

theorem hierarchy_access:
  assumes "cs \<noteq> []" "\<forall>c \<in> set cs. wf_level m c" "fresh_ok m (fresh e)"
  shows "\<exists>cs'. access e cs addr o2 lat = Inr (resident (hd cs) addr, cs', lat + probe e cs addr)
    \<and> length cs' = length cs \<and> (\<forall>c \<in> set cs'. wf_level m c) \<and> resident (hd cs') addr
    \<and> hits (hd cs') + misses (hd cs') = hits (hd cs) + misses (hd cs) + 1
    \<and> (resident (hd cs) addr \<longrightarrow> tl cs' = tl cs)"
  using access_hierarchy[OF assms] by blast

definition sample_env :: env where
  "sample_env = \<lparr>fresh = first_fit 2, curr_cycle = 100, mem_latency = 50, rand_val = (\<lambda>_. 0)\<rparr>"

theorem hierarchy_access_witness:
  "\<exists>cs'. access sample_env [sample_cache, sample_cache\<lparr>latency := 10\<rparr>] 0x1234 READ 0 = Inr (False, cs', 63)
    \<and> length cs' = 2 \<and> (\<forall>c \<in> set cs'. wf_level 2 c) \<and> resident (hd cs') 0x1234"
proof -
  have "wf_level 2 (sample_cache\<lparr>latency := 10\<rparr>)"
    using wf_sample_cache by (simp add: wf_level_def geometry_def sets_of_def)
  moreover have tags: "line_tags sample_cache w = []" if "w < 4" for w
    using that by (simp add: line_tags_def sets_of_def sample_cache_def)
  then have res: "\<not> resident sample_cache a" "\<not> resident (sample_cache\<lparr>latency := 10\<rparr>) a" for a
    using index_geometry(2)[OF geometry_sample_cache, of a]
    by (auto simp: resident_def line_tags_def sets_of_def set_of_def tag_of_def sample_cache_def)
  ultimately have wf: "\<forall>c \<in> set [sample_cache, sample_cache\<lparr>latency := 10\<rparr>]. wf_level 2 c"
    using wf_sample_cache by simp
  have p: "probe sample_env [sample_cache, sample_cache\<lparr>latency := 10\<rparr>] 0x1234 = 63"
    by (simp add: res) (simp add: sample_env_def sample_cache_def)
  have f: "fresh_ok 2 (fresh sample_env)" using fresh_ok_first_fit by (simp add: sample_env_def)
  show ?thesis
    using hierarchy_access[OF _ wf f, of "0x1234" READ 0] res(1)[of "0x1234"] unfolding p
    by (auto simp del: access.simps)
qed

text \<open>
  C33. A tick of a level completes exactly the operations that are due: those whose stamp is the
  current cycle leave the miss queue with their completion cycle set to the next cycle, every
  other operation stays, in order, and no other operation is touched.
\<close>

theorem tick_completes_due:
  assumes "wf_sl (inflight c)" "\<forall>v \<in> set (vals_sl (inflight c)). Option.bind v ops \<noteq> None"
  shows "\<exists>l'. tick_level now c ops = Inr (c\<lparr>inflight := l'\<rparr>, stamp now (vals_sl (inflight c)) ops)
    \<and> wf_sl l' \<and> num_entries l' = num_entries (inflight c)
    \<and> vals_sl l' = filter (\<lambda>v. \<not> due now ops v) (vals_sl (inflight c))"
  by (rule tick_level_ok[OF assms])

theorem tick_completes_due_witness:
  "\<exists>l l'. push_list (Some 5) (new_sim_list 4) = Inr l
    \<and> tick_level 20 (sample_cache\<lparr>inflight := l\<rparr>) [5 \<mapsto> \<lparr>aux_cycle = 20, complete_cycle = -1\<rparr>]
      = Inr (sample_cache\<lparr>inflight := l'\<rparr>, [5 \<mapsto> \<lparr>aux_cycle = 20, complete_cycle = 21\<rparr>])
    \<and> vals_sl l' = []"
proof -
  have "chain (new_sim_list 4) ([0,1,2] @ [3]) []"
    using chain_new[of 4] by (simp add: numeral_eq_Suc upt_conv_Cons)
  then obtain l :: "nat sim_list" where l: "push_list (Some 5) (new_sim_list 4) = Inr l" "chain l [0,1,2] [3]" "val_sl l 3 = Some 5"
    using chain_push[of "new_sim_list 4" "[0,1,2]" 3 "[]" "Some 5"] by auto
  have v: "wf_sl l" "vals_sl l = [Some 5]" using chain_handles[OF l(2)] l(3) by (simp_all add: vals_sl_def)
  then show ?thesis
    using tick_completes_due[of "sample_cache\<lparr>inflight := l\<rparr>" "[5 \<mapsto> \<lparr>aux_cycle = 20, complete_cycle = -1\<rparr>]" 20] l(1)
    by (auto simp: due_def stamp_def fun_eq_iff)
qed

section \<open>Where the code falls short\<close>

text \<open>
  With an associativity of 1 the removal of the only entry leaves \<open>head\<close> pointing at the freed
  node.  When the pool hands the same address out again, the new node is linked to itself, and
  a look-up of any other tag follows that link for ever: no fuel is enough.
\<close>

lemma cacheset_assoc_one_loops:
  assumes "t \<noteq> u"
  shows "\<exists>s. run_set (first_fit 1) 1 [t, u] empty_set = Inr (s, [False, False])
    \<and> (\<forall>v k d. v \<noteq> u \<longrightarrow> find_from k (ml_heap (entries s)) v (ml_head (entries s)) d = Inl OutOfFuel)"
proof -
  define h where "h = [0::nat \<mapsto> \<lparr>nnext = Some 0, nprev = Some (0::nat), ndata = u\<rparr>]"
  define s where "s = \<lparr>lhits = 0, lmisses = 2, entries = \<lparr>ml_cnt = 1, ml_head = Some 0, ml_tail = None, ml_heap = h\<rparr>\<rparr>"
  have "run_set (first_fit 1) 1 [t, u] empty_set = Inr (s, [False, False])"
    using assms by (simp add: cacheset_access_def empty_set_def new_mylist_def find_ml_def push_front_def alloc_ml_def
        first_fit_def Let_def size_ml_def pop_back_def unlink_def get_node_def free_ml_def link_before_def upd_node_def s_def h_def)
  moreover have "find_from k h v (Some 0) d = Inl OutOfFuel" if "v \<noteq> u" for v k d
    using that by (induction k arbitrary: d) (simp_all add: get_node_def h_def)
  ultimately show ?thesis by (intro exI[of _ s]) (simp add: s_def)
qed

text \<open>
  The tree of \<open>lowAssocCache\<close> is read with the polarity opposite to the one it is written with:
  the victim is the way used last.
\<close>

lemma lowAssoc_evicts_last_used:
  "rbind (lo_updateLRU (0 + 4) 0) (lo_findLRU 4 1) = Inr (0, 0)"
  "rbind (lo_updateLRU (1 + 4) 0) (lo_findLRU 4 1) = Inr (1, 4)"
  "rbind (lo_updateLRU (2 + 4) 0) (lo_findLRU 4 1) = Inr (2, 2)"
  "rbind (lo_updateLRU (3 + 4) 0) (lo_findLRU 4 1) = Inr (3, 10)"
  by (((subst lo_updateLRU.simps | subst lo_findLRU.simps), simp)+)

text \<open>In the tree of \<open>highAssocCache\<close> the polarities agree.\<close>

lemma highAssoc_spares_last_used:
  "rbind (hi_updateLRU (0 + 4) [0, 0, 0, 0]) (hi_findLRU 4 1) = Inr (2, [0, 2, 1, 1])"
  "rbind (hi_updateLRU (1 + 4) [0, 0, 0, 0]) (hi_findLRU 4 1) = Inr (2, [0, 2, 2, 1])"
  "rbind (hi_updateLRU (2 + 4) [0, 0, 0, 0]) (hi_findLRU 4 1) = Inr (0, [0, 1, 1, 1])"
  "rbind (hi_updateLRU (3 + 4) [0, 0, 0, 0]) (hi_findLRU 4 1) = Inr (0, [0, 1, 1, 2])"
  by (((subst hi_updateLRU.simps | subst hi_findLRU.simps), simp)+)

text \<open>
  Its array is too short from associativity 8 on: the leaves' parents run to \<open>assoc - 1\<close>.
\<close>

lemma highAssoc_tree_overrun:
  "hi_updateLRU (7 + 8) (replicate (8 div 2 + 2) 0) = Inl Undefined"
  by (subst hi_updateLRU.simps, simp)+

end
