(* ===== verification/Sparse_Mem.thy ===== *)
theory Sparse_Mem
  imports Bitvec
begin

text \<open>
  \<^verbatim>\<open>sim_ooo/sparse_mem.hh\<close> and \<^verbatim>\<open>sim_ooo/sparse_mem.cc\<close>: the target's memory, allocated page by
  page on first touch, with a bit vector of the pages present.  The template accesses
  \<open>get<T>\<close> and \<open>set<T>\<close> reinterpret the bytes in place, so a value is read from ascending
  addresses in the order of the little-endian host, and an access that runs over the end of
  its page leaves the allocated block, which is \<open>Undefined\<close>.  Page allocation is assumed to
  succeed.  The calls of the host's \<open>read\<close> and \<open>write\<close> are parameters.
\<close>

definition pgsize :: nat where
  "pgsize = 4096"

record sparse_mem =
  npages :: nat
  pages :: "nat \<Rightarrow> (nat \<Rightarrow> u8) option"
  present :: "u64 bitvec"

definition new_mem :: "nat \<Rightarrow> sparse_mem" where
  "new_mem nbytes = (let n = (nbytes + pgsize - 1) div pgsize
     in \<lparr>npages = n, pages = (\<lambda>_. None), present = clear_and_resize n (new_bitvec 64)\<rparr>)"

text \<open>Copying sets the bit of every page the source has, in ascending order.\<close>

fun copy_pages :: "nat list \<Rightarrow> sparse_mem \<Rightarrow> sparse_mem \<Rightarrow> sparse_mem res" where
  "copy_pages [] other m = Inr m"
| "copy_pages (i # is) other m = (case pages other i of None \<Rightarrow> copy_pages is other m
     | Some pg \<Rightarrow> rbind (set_bit_bv (present m) i) (\<lambda>bv.
         copy_pages is other (m\<lparr>present := bv, pages := (pages m)(i := Some pg)\<rparr>)))"

definition copy_mem :: "sparse_mem \<Rightarrow> sparse_mem \<Rightarrow> sparse_mem res" where
  "copy_mem m other = copy_pages [0..<npages other] other
     (m\<lparr>npages := npages other, present := clear_and_resize (npages other) (present m), pages := (\<lambda>_. None)\<rparr>)"

definition touch :: "nat \<Rightarrow> sparse_mem \<Rightarrow> sparse_mem res" where
  "touch paddr m = ensure Undefined (paddr < npages m) (case pages m paddr of Some _ \<Rightarrow> Inr m
     | None \<Rightarrow> rbind (set_bit_bv (present m) paddr) (\<lambda>bv.
         Inr (m\<lparr>present := bv, pages := (pages m)(paddr \<mapsto> (\<lambda>_. 0))\<rparr>)))"

definition prefault :: "u32 \<Rightarrow> sparse_mem \<Rightarrow> sparse_mem res" where
  "prefault addr m = touch (unat addr div pgsize) m"

definition get_bytes :: "nat \<Rightarrow> u32 \<Rightarrow> sparse_mem \<Rightarrow> (sparse_mem \<times> u8 list) res" where
  "get_bytes n addr m = (let paddr = unat addr div pgsize; baddr = unat addr mod pgsize
     in rbind (touch paddr m) (\<lambda>m1. case pages m1 paddr of None \<Rightarrow> Inl Undefined
       | Some pg \<Rightarrow> ensure Undefined (baddr + n \<le> pgsize) (Inr (m1, map (\<lambda>i. pg (baddr + i)) [0..<n]))))"

definition set_bytes :: "u32 \<Rightarrow> u8 list \<Rightarrow> sparse_mem \<Rightarrow> sparse_mem res" where
  "set_bytes addr bs m = (let paddr = unat addr div pgsize; baddr = unat addr mod pgsize
     in rbind (touch paddr m) (\<lambda>m1. case pages m1 paddr of None \<Rightarrow> Inl Undefined
       | Some pg \<Rightarrow> ensure Undefined (baddr + length bs \<le> pgsize)
           (Inr (m1\<lparr>pages := (pages m1)(paddr \<mapsto>
              (\<lambda>i. if baddr \<le> i \<and> i < baddr + length bs then bs ! (i - baddr) else pg i))\<rparr>))))"

section \<open>Typed accesses\<close>

definition get8 :: "u32 \<Rightarrow> sparse_mem \<Rightarrow> (sparse_mem \<times> u8) res" where
  "get8 a m = rbind (get_bytes 1 a m) (\<lambda>(m1, bs). Inr (m1, bs ! 0))"

definition get16 :: "u32 \<Rightarrow> sparse_mem \<Rightarrow> (sparse_mem \<times> u16) res" where
  "get16 a m = rbind (get_bytes 2 a m) (\<lambda>(m1, bs). Inr (m1, le16 (bs ! 0) (bs ! 1)))"

definition le32_list :: "u8 list \<Rightarrow> u32" where
  "le32_list bs = le32 (bs ! 0) (bs ! 1) (bs ! 2) (bs ! 3)"

definition get32 :: "u32 \<Rightarrow> sparse_mem \<Rightarrow> (sparse_mem \<times> u32) res" where
  "get32 a m = rbind (get_bytes 4 a m) (\<lambda>(m1, bs). Inr (m1, le32_list bs))"

definition get64 :: "u32 \<Rightarrow> sparse_mem \<Rightarrow> (sparse_mem \<times> u64) res" where
  "get64 a m = rbind (get_bytes 8 a m) (\<lambda>(m1, bs). Inr (m1, le64 (le32_list bs) (le32_list (drop 4 bs))))"

definition bytes16 :: "u16 \<Rightarrow> u8 list" where
  "bytes16 x = [byte 0 x, byte 1 x]"

definition bytes32 :: "u32 \<Rightarrow> u8 list" where
  "bytes32 x = [byte 0 x, byte 1 x, byte 2 x, byte 3 x]"

definition bytes64 :: "u64 \<Rightarrow> u8 list" where
  "bytes64 x = bytes32 (lo32 x) @ bytes32 (hi32 x)"

definition set8 :: "u32 \<Rightarrow> u8 \<Rightarrow> sparse_mem \<Rightarrow> sparse_mem res" where
  "set8 a v m = set_bytes a [v] m"

definition set16 :: "u32 \<Rightarrow> u16 \<Rightarrow> sparse_mem \<Rightarrow> sparse_mem res" where
  "set16 a v m = set_bytes a (bytes16 v) m"

definition set32 :: "u32 \<Rightarrow> u32 \<Rightarrow> sparse_mem \<Rightarrow> sparse_mem res" where
  "set32 a v m = set_bytes a (bytes32 v) m"

definition set64 :: "u32 \<Rightarrow> u64 \<Rightarrow> sparse_mem \<Rightarrow> sparse_mem res" where
  "set64 a v m = set_bytes a (bytes64 v) m"

section \<open>Whole-memory operations\<close>

definition get_pb_addr :: "u32 \<Rightarrow> sparse_mem \<Rightarrow> (nat \<times> nat \<times> bool) res" where
  "get_pb_addr addr m = (let paddr = unat addr div pgsize in
     ensure Undefined (paddr < npages m) (Inr (paddr, unat addr mod pgsize, pages m paddr \<noteq> None)))"

definition parity :: "u32 \<Rightarrow> sparse_mem \<Rightarrow> u32 res" where
  "parity addr m = (let paddr = unat addr div pgsize in ensure Undefined (paddr < npages m)
     (case pages m paddr of None \<Rightarrow> Inr 0
        | Some pg \<Rightarrow> Inr (ucast (foldl (\<lambda>p i. p XOR pg i) 0 [0..<pgsize]))))"

definition is_zero :: "(nat \<Rightarrow> u8) \<Rightarrow> bool" where
  "is_zero pg \<longleftrightarrow> list_all (\<lambda>i. pg i = 0) [0..<pgsize]"

definition same_page :: "(nat \<Rightarrow> u8) \<Rightarrow> (nat \<Rightarrow> u8) \<Rightarrow> bool" where
  "same_page p q \<longleftrightarrow> list_all (\<lambda>i. p i = q i) [0..<pgsize]"

definition first_page :: "sparse_mem \<Rightarrow> int" where
  "first_page m = find_first_set (present m)"

definition get_next_page :: "sparse_mem \<Rightarrow> int \<Rightarrow> int res" where
  "get_next_page m idx = find_next_set (present m) idx"

text \<open>Every step of the comparison moves one of the two page numbers up.\<close>

fun equal_loop :: "nat \<Rightarrow> sparse_mem \<Rightarrow> sparse_mem \<Rightarrow> int \<Rightarrow> int \<Rightarrow> bool res" where
  "equal_loop 0 m other p0 p1 = Inl OutOfFuel"
| "equal_loop (Suc k) m other p0 p1 = (if p0 = -1 \<or> p1 = -1 then Inr True
     else case (pages other (nat p0), pages m (nat p1)) of
       (Some q0, Some q1) \<Rightarrow>
         if p0 = p1 then
           (if same_page q1 q0 then rbind (get_next_page other p0) (\<lambda>p0'.
              rbind (get_next_page m p1) (\<lambda>p1'. equal_loop k m other p0' p1'))
            else Inr False)
         else if p0 < p1 then
           (if is_zero q0 then rbind (get_next_page other p0) (\<lambda>p0'. equal_loop k m other p0' p1) else Inr False)
         else
           (if is_zero q1 then rbind (get_next_page m p1) (\<lambda>p1'. equal_loop k m other p0 p1') else Inr False)
     | _ \<Rightarrow> Inl AssertFail)"

definition equal_mem :: "sparse_mem \<Rightarrow> sparse_mem \<Rightarrow> bool res" where
  "equal_mem m other = (if npages other \<noteq> npages m then Inr False
     else equal_loop (Suc (2 * npages m)) m other (first_page other) (first_page m))"

text \<open>The checksum: the bitwise loop of the portable branch, which the intrinsic computes too.\<close>

fun crc_bits :: "nat \<Rightarrow> u32 \<Rightarrow> u32" where
  "crc_bits 0 c = c"
| "crc_bits (Suc k) c = crc_bits k (if c AND 1 \<noteq> 0 then drop_bit 1 c XOR 0x82f63b78 else drop_bit 1 c)"

definition crc_byte :: "u32 \<Rightarrow> u8 \<Rightarrow> u32" where
  "crc_byte c b = crc_bits 8 (c XOR ucast b)"

definition update_crc :: "u32 \<Rightarrow> u8 list \<Rightarrow> u32" where
  "update_crc crc buf = foldl crc_byte crc buf"

definition crc32_buf :: "u8 list \<Rightarrow> u32" where
  "crc32_buf buf = update_crc (NOT 0) buf XOR NOT 0"

definition page_bytes :: "sparse_mem \<Rightarrow> nat \<Rightarrow> u8 list res" where
  "page_bytes m i = rbind (get_bit (present m) i) (\<lambda>b. if b
     then case pages m i of None \<Rightarrow> Inl Undefined | Some pg \<Rightarrow> Inr (map pg [0..<pgsize])
     else Inr (replicate pgsize 0))"

fun crc_pages :: "sparse_mem \<Rightarrow> nat list \<Rightarrow> u32 \<Rightarrow> u32 res" where
  "crc_pages m [] c = Inr c"
| "crc_pages m (i # is) c = rbind (page_bytes m i) (\<lambda>bs. crc_pages m is (update_crc c bs))"

definition crc32_mem :: "sparse_mem \<Rightarrow> u32 res" where
  "crc32_mem m = rbind (crc_pages m [0..<npages m] (NOT 0)) (\<lambda>c. Inr (c XOR NOT 0))"

definition count_mem :: "sparse_mem \<Rightarrow> nat res" where
  "count_mem m = popcount (present m)"

definition bytes_allocated :: "sparse_mem \<Rightarrow> nat res" where
  "bytes_allocated m = rbind (count_mem m) (\<lambda>n. Inr (pgsize * n))"

section \<open>Transfers\<close>

text \<open>
  \<open>per_page_rdwr\<close>: a write goes to the host page by page, a read into a buffer first.  The host's
  \<open>write\<close> answers a chunk of bytes, at its offset, with its result; its effect outside the simulator is
  not modelled.  Offsets are 32 bits, the next page boundary 64.
\<close>

fun write_loop :: "(u32 \<Rightarrow> u8 list \<Rightarrow> int) \<Rightarrow> nat \<Rightarrow> u32 \<Rightarrow> u32 \<Rightarrow> int \<Rightarrow> sparse_mem \<Rightarrow> (sparse_mem \<times> int) res" where
  "write_loop host 0 off lst acc m = Inl OutOfFuel"
| "write_loop host (Suc k) off lst acc m = (if off = lst then Inr (m, acc)
     else let next_page = (ucast off AND NOT (of_nat pgsize - 1 :: u64)) + of_nat pgsize;
              np = min next_page (ucast lst);
              disp = ucast (np - ucast off) :: u32
          in rbind (prefault off m) (\<lambda>m1. rbind (get_bytes (unat disp) off m1) (\<lambda>(m2, bs).
             let rc = host off bs
             in if rc = 0 then Inr (m2, 0)
                else write_loop host k (off + disp) lst (if 0 \<le> rc then acc + rc else -1) m2)))"

definition mem_write :: "(u32 \<Rightarrow> u8 list \<Rightarrow> int) \<Rightarrow> nat \<Rightarrow> u32 \<Rightarrow> u32 \<Rightarrow> sparse_mem \<Rightarrow> (sparse_mem \<times> int) res" where
  "mem_write host fuel off n m = write_loop host fuel off (off + n) 0 m"

fun put_bytes :: "u32 \<Rightarrow> u8 list \<Rightarrow> sparse_mem \<Rightarrow> sparse_mem res" where
  "put_bytes a [] m = Inr m"
| "put_bytes a (b # bs) m = rbind (set8 a b m) (put_bytes (a + 1) bs)"

definition mem_read :: "(u32 \<Rightarrow> u8 list option) \<Rightarrow> u32 \<Rightarrow> u32 \<Rightarrow> sparse_mem \<Rightarrow> (sparse_mem \<times> int) res" where
  "mem_read host off n m = (case host n of None \<Rightarrow> Inr (m, -1)
     | Some bs \<Rightarrow> rbind (put_bytes off bs m) (\<lambda>m1. Inr (m1, int (length bs))))"

end
