(* ===== verification/Mem_Proofs.thy ===== *)
theory Mem_Proofs
  imports Sparse_Mem
begin

text \<open>
  The memory as an array of bytes: the paged accesses read and write it, as the interface
  \<open>byte_memory\<close> states, a copy has the same bytes, and what the comparison answers.
\<close>

section \<open>The memory as a byte array\<close>

definition byte_at :: "sparse_mem \<Rightarrow> nat \<Rightarrow> u8" where
  "byte_at m a = (case pages m (a div pgsize) of None \<Rightarrow> 0 | Some pg \<Rightarrow> pg (a mod pgsize))"

definition wf_mem :: "sparse_mem \<Rightarrow> bool" where
  "wf_mem m \<longleftrightarrow> wf_bv (present m) \<and> n_bits (present m) = npages m
     \<and> (\<forall>p. pages m p \<noteq> None \<longleftrightarrow> p \<in> used_bits (present m))"

definition mem_limit :: "sparse_mem \<Rightarrow> nat" where
  "mem_limit m = npages m * pgsize"

definition fits :: "sparse_mem \<Rightarrow> nat \<Rightarrow> u32 \<Rightarrow> bool" where
  "fits m n a \<longleftrightarrow> unat a mod pgsize + n \<le> pgsize \<and> unat a < mem_limit m"

lemma pgsize_pos [simp]: "0 < pgsize" by (simp add: pgsize_def)

lemma page_split: "a div pgsize = p \<Longrightarrow> a mod pgsize = r \<Longrightarrow> a = p * pgsize + r"
  by auto

lemma in_page: "a mod pgsize + i < pgsize \<Longrightarrow> (a + i) div pgsize = a div pgsize \<and> (a + i) mod pgsize = a mod pgsize + i"
proof -
  assume lt: "a mod pgsize + i < pgsize"
  define q where "q = a div pgsize"
  define r where "r = a mod pgsize"
  have e: "a + i = pgsize * q + (r + i)" by (simp add: q_def r_def)
  have "(a + i) div pgsize = q" unfolding e using lt[folded r_def] by (intro div_nat_eqI) simp_all
  moreover have "(a + i) mod pgsize = r + i" unfolding e using lt[folded r_def] by simp
  ultimately show ?thesis by (simp add: q_def r_def)
qed

lemma touch_ok:
  assumes "wf_mem m" "p < npages m"
  obtains m' pg where "touch p m = Inr m'" "wf_mem m'" "npages m' = npages m" "pages m' p = Some pg"
    "byte_at m' = byte_at m" "\<And>q. q \<noteq> p \<Longrightarrow> pages m' q = pages m q"
proof (cases "pages m p")
  case (Some pg)
  then show ?thesis using assms that[of m pg] by (simp add: touch_def)
next
  case None
  obtain bv where bv: "set_bit_bv (present m) p = Inr bv" "wf_bv bv" "n_bits bv = npages m"
    "used_bits bv = insert p (used_bits (present m))"
    using bv.take_idx_ok[of "present m" p] assms by (auto simp: wf_mem_def)
  define m' where "m' = m\<lparr>present := bv, pages := (pages m)(p \<mapsto> (\<lambda>_. 0))\<rparr>"
  have "touch p m = Inr m'" using None assms(2) bv(1) by (simp add: touch_def m'_def)
  moreover have "wf_mem m'" using assms(1) bv(2-4) by (auto simp: wf_mem_def m'_def)
  moreover have "byte_at m' = byte_at m" using None by (auto simp: byte_at_def m'_def fun_eq_iff)
  ultimately show ?thesis by (intro that[of m' "\<lambda>_. 0"]) (auto simp: m'_def)
qed

lemma fits_page: "fits m n a \<Longrightarrow> unat a div pgsize < npages m"
  by (simp add: fits_def mem_limit_def less_mult_imp_div_less)

lemma get_bytes_ok:
  assumes "wf_mem m" "fits m n a"
  shows "\<exists>m'. get_bytes n a m = Inr (m', map (\<lambda>i. byte_at m (unat a + i)) [0..<n])
    \<and> wf_mem m' \<and> npages m' = npages m \<and> byte_at m' = byte_at m"
proof -
  obtain m' pg where m': "touch (unat a div pgsize) m = Inr m'" "wf_mem m'" "npages m' = npages m"
    "pages m' (unat a div pgsize) = Some pg" "byte_at m' = byte_at m"
    using touch_ok[OF assms(1) fits_page[OF assms(2)]] by metis
  have "pg (unat a mod pgsize + i) = byte_at m (unat a + i)" if "i < n" for i
    using in_page[of "unat a" i] that assms(2) m'(4) unfolding m'(5)[symmetric]
    by (simp add: byte_at_def fits_def)
  then show ?thesis using m' assms(2) by (auto simp: get_bytes_def Let_def fits_def)
qed

lemma set_bytes_ok:
  assumes "wf_mem m" "fits m (length bs) a"
  shows "\<exists>m'. set_bytes a bs m = Inr m' \<and> wf_mem m' \<and> npages m' = npages m
    \<and> byte_at m' = (\<lambda>x. if unat a \<le> x \<and> x < unat a + length bs then bs ! (x - unat a) else byte_at m x)"
proof -
  define p where "p = unat a div pgsize"
  define r where "r = unat a mod pgsize"
  have pr: "unat a = p * pgsize + r" "r < pgsize" by (simp_all add: p_def r_def)
  have fit: "r + length bs \<le> pgsize" using assms(2) by (simp add: fits_def r_def)
  obtain m1 pg where m1: "touch p m = Inr m1" "wf_mem m1" "npages m1 = npages m"
    "pages m1 p = Some pg" "byte_at m1 = byte_at m"
    using touch_ok[OF assms(1) fits_page[OF assms(2)]] unfolding p_def by metis
  define m' where "m' = m1\<lparr>pages := (pages m1)(p \<mapsto> (\<lambda>i. if r \<le> i \<and> i < r + length bs then bs ! (i - r) else pg i))\<rparr>"
  have "set_bytes a bs m = Inr m'"
    using m1(1,4) fit by (simp add: set_bytes_def Let_def p_def[symmetric] r_def[symmetric] m'_def)
  moreover have "wf_mem m'" using m1(2,4) by (auto simp: wf_mem_def m'_def)
  moreover have "byte_at m' x = (if unat a \<le> x \<and> x < unat a + length bs then bs ! (x - unat a) else byte_at m x)" for x
  proof (cases "x div pgsize = p")
    case True
    then have x: "x = p * pgsize + x mod pgsize" "x mod pgsize < pgsize" by (auto simp: mult.commute)
    have "unat a \<le> x \<longleftrightarrow> r \<le> x mod pgsize" "x < unat a + length bs \<longleftrightarrow> x mod pgsize < r + length bs"
      "x - unat a = x mod pgsize - r" using pr x by linarith+
    then show ?thesis using True m1(4) unfolding m1(5)[symmetric] by (simp add: byte_at_def m'_def)
  next
    case False
    have "\<not> (unat a \<le> x \<and> x < unat a + length bs)"
    proof
      assume "unat a \<le> x \<and> x < unat a + length bs"
      then have "p * pgsize \<le> x" "x < Suc p * pgsize" using pr fit by simp_all
      then have "x div pgsize = p" by (intro div_nat_eqI) (simp_all add: mult.commute)
      then show False using False by simp
    qed
    then show ?thesis using False unfolding m1(5)[symmetric] by (auto simp: byte_at_def m'_def)
  qed
  ultimately show ?thesis using m1(3) by (intro exI[of _ m']) (auto simp: m'_def fun_eq_iff)
qed

section \<open>The contract of a byte memory\<close>

locale byte_memory =
  fixes ok :: "'m \<Rightarrow> bool"
    and room :: "'m \<Rightarrow> nat \<Rightarrow> u32 \<Rightarrow> bool"
    and content :: "'m \<Rightarrow> nat \<Rightarrow> u8"
    and rd :: "nat \<Rightarrow> u32 \<Rightarrow> 'm \<Rightarrow> ('m \<times> u8 list) res"
    and wr :: "u32 \<Rightarrow> u8 list \<Rightarrow> 'm \<Rightarrow> 'm res"
  assumes rd_ok: "ok m \<Longrightarrow> room m n a \<Longrightarrow>
      \<exists>m'. rd n a m = Inr (m', map (\<lambda>i. content m (unat a + i)) [0..<n]) \<and> ok m' \<and> room m' = room m \<and> content m' = content m"
    and wr_ok: "ok m \<Longrightarrow> room m (length bs) a \<Longrightarrow>
      \<exists>m'. wr a bs m = Inr m' \<and> ok m' \<and> room m' = room m \<and>
        content m' = (\<lambda>x. if unat a \<le> x \<and> x < unat a + length bs then bs ! (x - unat a) else content m x)"
begin

lemma write_read:
  assumes "ok m" "room m (length bs) a"
  shows "\<exists>m1 m2. wr a bs m = Inr m1 \<and> rd (length bs) a m1 = Inr (m2, bs) \<and> ok m1 \<and> ok m2 \<and> room m2 = room m
    \<and> content m2 = content m1
    \<and> (\<forall>x. x < unat a \<or> unat a + length bs \<le> x \<longrightarrow> content m1 x = content m x)"
proof -
  obtain m1 where m1: "wr a bs m = Inr m1" "ok m1" "room m1 = room m"
    "content m1 = (\<lambda>x. if unat a \<le> x \<and> x < unat a + length bs then bs ! (x - unat a) else content m x)"
    using wr_ok[OF assms] by blast
  have "map (\<lambda>i. content m1 (unat a + i)) [0..<length bs] = bs"
    using m1(4) by (intro nth_equalityI) auto
  then show ?thesis using rd_ok[of m1 "length bs" a] m1 assms(2) by auto
qed

lemma read_keeps:
  assumes "ok m" "room m n a" "rd n a m = Inr (m', bs)"
  shows "ok m'" "room m' = room m" "content m' = content m" "bs = map (\<lambda>i. content m (unat a + i)) [0..<n]"
  using rd_ok[OF assms(1,2)] assms(3) by auto

end

interpretation sm: byte_memory wf_mem fits byte_at get_bytes set_bytes
proof unfold_locales
  fix m n a and bs :: "u8 list"
  assume m: "wf_mem m"
  have fits: "fits m' = fits m" if "npages m' = npages m" for m'
    using that by (simp add: fits_def mem_limit_def fun_eq_iff)
  show "\<exists>m'. get_bytes n a m = Inr (m', map (\<lambda>i. byte_at m (unat a + i)) [0..<n]) \<and> wf_mem m' \<and> fits m' = fits m
      \<and> byte_at m' = byte_at m" if "fits m n a"
    using get_bytes_ok[OF m that] fits by blast
  show "\<exists>m'. set_bytes a bs m = Inr m' \<and> wf_mem m' \<and> fits m' = fits m \<and>
      byte_at m' = (\<lambda>x. if unat a \<le> x \<and> x < unat a + length bs then bs ! (x - unat a) else byte_at m x)"
    if "fits m (length bs) a" using set_bytes_ok[OF m that] fits by blast
qed

lemma length_bytes [simp]: "length (bytes16 h) = 2" "length (bytes32 w) = 4" "length (bytes64 d) = 8"
  by (simp_all add: bytes16_def bytes32_def bytes64_def)

lemma drop_bytes64 [simp]: "drop 4 (bytes64 d) = bytes32 (hi32 d)"
  by (simp add: bytes64_def)

lemma le_bytes [simp]:
  "le16 (bytes16 h ! 0) (bytes16 h ! Suc 0) = h" "le32_list (bytes32 w) = w" "le32_list (bytes64 d) = lo32 d"
  by (simp_all add: bytes16_def bytes32_def le32_list_def bytes64_def nth_append)

lemma wf_new_mem: "wf_mem (new_mem n)" "byte_at (new_mem n) a = 0"
proof -
  have "clear_and_resize k (v :: u64 bitvec) = new_bitvec k" for k v
    by (simp add: clear_and_resize_def new_bitvec_def)
  then show "wf_mem (new_mem n)" "byte_at (new_mem n) a = 0"
    by (simp_all add: wf_mem_def new_mem_def byte_at_def Let_def)
qed

section \<open>Copies\<close>

lemma copy_pages_ok:
  assumes "wf_mem m" "npages m = npages other" "\<forall>i \<in> set js. i < npages other" "\<forall>i \<in> set js. pages m i = None" "distinct js"
  shows "\<exists>m'. copy_pages js other m = Inr m' \<and> wf_mem m' \<and> npages m' = npages other
    \<and> (\<forall>p. pages m' p = (if p \<in> set js then pages other p else pages m p))"
  using assms
proof (induction js arbitrary: m)
  case (Cons i js)
  show ?case
  proof (cases "pages other i")
    case None
    then show ?thesis using Cons.IH[of m] Cons.prems by auto
  next
    case (Some pg)
    obtain bv where bv: "set_bit_bv (present m) i = Inr bv" "wf_bv bv" "n_bits bv = npages other"
      "used_bits bv = insert i (used_bits (present m))"
      using bv.take_idx_ok[of "present m" i] Cons.prems by (auto simp: wf_mem_def)
    define m1 where "m1 = m\<lparr>present := bv, pages := (pages m)(i := Some pg)\<rparr>"
    have "wf_mem m1" using Cons.prems(1,2) bv by (auto simp: wf_mem_def m1_def)
    moreover have "npages m1 = npages other" "\<forall>a \<in> set js. a < npages other" "\<forall>a \<in> set js. pages m1 a = None" "distinct js"
      using Cons.prems by (auto simp: m1_def)
    ultimately obtain m' where "copy_pages js other m1 = Inr m'" "wf_mem m'" "npages m' = npages other"
      "\<forall>p. pages m' p = (if p \<in> set js then pages other p else pages m1 p)"
      using Cons.IH[of m1] by blast
    then show ?thesis using Some bv(1) Cons.prems(5) by (auto simp: m1_def)
  qed
qed simp

lemma copy_mem_ok:
  assumes "wf_mem other"
  shows "\<exists>m'. copy_mem m other = Inr m' \<and> wf_mem m' \<and> npages m' = npages other \<and> byte_at m' = byte_at other"
proof -
  define m0 where "m0 = m\<lparr>npages := npages other, present := clear_and_resize (npages other) (present m), pages := (\<lambda>_. None)\<rparr>"
  have "present m0 = new_bitvec (npages other)"
    by (simp add: m0_def clear_and_resize_def new_bitvec_def)
  then have "wf_mem m0" by (simp add: wf_mem_def) (simp add: m0_def)
  then obtain m' where m': "copy_pages [0..<npages other] other m0 = Inr m'" "wf_mem m'" "npages m' = npages other"
    "\<forall>p. pages m' p = (if p < npages other then pages other p else None)"
    using copy_pages_ok[of m0 other "[0..<npages other]"] by (auto simp: m0_def)
  have "pages other p = None" if "\<not> p < npages other" for p
    using assms that by (auto simp: wf_mem_def used_bits_def)
  then have "byte_at m' = byte_at other" using m'(4) by (auto simp: byte_at_def fun_eq_iff)
  then show ?thesis using m' by (simp add: copy_mem_def m0_def)
qed

section \<open>Comparison\<close>

definition page_byte :: "sparse_mem \<Rightarrow> nat \<Rightarrow> nat \<Rightarrow> u8" where
  "page_byte m p i = (case pages m p of None \<Rightarrow> 0 | Some pg \<Rightarrow> pg i)"

definition agree :: "sparse_mem \<Rightarrow> sparse_mem \<Rightarrow> nat \<Rightarrow> bool" where
  "agree m other p \<longleftrightarrow> (\<forall>i < pgsize. page_byte m p i = page_byte other p i)"

definition cursor :: "sparse_mem \<Rightarrow> nat \<Rightarrow> int \<Rightarrow> bool" where
  "cursor m lim p \<longleftrightarrow> (p = -1 \<and> used_bits (present m) \<subseteq> {..<lim}) \<or>
     (\<exists>q. p = int q \<and> q \<in> used_bits (present m) \<and> lim \<le> q \<and> (\<forall>x \<in> used_bits (present m). x < lim \<or> q \<le> x))"

definition scannable :: "sparse_mem \<Rightarrow> bool" where
  "scannable m \<longleftrightarrow> wf_mem m \<and> npages m - 1 \<notin> used_bits (present m)"

lemma cursor_first: "wf_mem m \<Longrightarrow> cursor m 0 (first_page m)"
  using find_first_set_cases[of "present m"]
  by (auto simp: cursor_def first_page_def wf_mem_def not_le)

lemma cursor_next:
  assumes "scannable m" "q \<in> used_bits (present m)"
  shows "\<exists>p. get_next_page m (int q) = Inr p \<and> cursor m (Suc q) p" "Suc q < npages m"
proof -
  have m: "wf_mem m" using assms(1) by (simp add: scannable_def)
  have q: "q < npages m" "q \<noteq> npages m - 1" using assms m by (auto simp: scannable_def wf_mem_def used_bits_def)
  then show lt: "Suc q < npages m" by linarith
  have "npages m \<le> 64 * length (arr (present m))"
    using m n_words_for_bounds(1)[of 64 "npages m"] by (simp add: wf_mem_def wf_bv_def)
  then have "int q + 1 < int (LENGTH(64) * length (arr (present m)))" using lt by simp
  moreover have "wf_bv (present m)" using m by (simp add: wf_mem_def)
  ultimately consider "get_next_page m (int q) = Inr (-1)" "\<And>j. q < j \<Longrightarrow> j \<notin> used_bits (present m)"
    | i where "get_next_page m (int q) = Inr (int i)" "q < i" "i \<in> used_bits (present m)"
        "\<And>j. q < j \<Longrightarrow> j < i \<Longrightarrow> j \<notin> used_bits (present m)"
    using find_next_set_cases[of "present m" "int q"] unfolding get_next_page_def by auto
  then show "\<exists>p. get_next_page m (int q) = Inr p \<and> cursor m (Suc q) p"
  proof cases
    case 1
    then show ?thesis unfolding cursor_def by (auto simp: less_Suc_eq_le not_less[symmetric])
  next
    case 2
    have "x < Suc q \<or> i \<le> x" if "x \<in> used_bits (present m)" for x
      using 2(4)[of x] that by linarith
    then show ?thesis using 2(1-3) unfolding cursor_def by auto
  qed
qed

lemma cursor_lift: "cursor m lim (int q1) \<Longrightarrow> lim \<le> q0 \<Longrightarrow> q0 < q1 \<Longrightarrow> cursor m (Suc q0) (int q1)"
  unfolding cursor_def by force

lemma unused_zero: "wf_mem m \<Longrightarrow> p \<notin> used_bits (present m) \<Longrightarrow> page_byte m p i = 0"
  by (auto simp: wf_mem_def page_byte_def split: option.splits)

lemma used_page: "wf_mem m \<Longrightarrow> p \<in> used_bits (present m) \<Longrightarrow> \<exists>pg. pages m p = Some pg"
  by (auto simp: wf_mem_def)

lemma equal_loop_ok:
  assumes "scannable m" "scannable other" "npages other = npages m" "cursor other lim p0" "cursor m lim p1"
    "npages m + 1 < k + lim" "lim \<le> npages m"
  shows "\<exists>b. equal_loop k m other p0 p1 = Inr b \<and> (\<not> b \<longrightarrow> (\<exists>p. \<not> agree m other p))
    \<and> (b \<longrightarrow> used_bits (present m) = used_bits (present other) \<longrightarrow> (\<forall>p \<ge> lim. agree m other p))"
  using assms(4-)
proof (induction k arbitrary: lim p0 p1)
  case 0
  then show ?case by simp
next
  case (Suc k)
  note wf = assms(1,2)[unfolded scannable_def]
  show ?case
  proof (cases "p0 = -1 \<or> p1 = -1")
    case True
    have "agree m other p" if "used_bits (present m) = used_bits (present other)" "lim \<le> p" for p
    proof -
      have "p \<notin> used_bits (present m)" "p \<notin> used_bits (present other)"
        using True Suc.prems(1,2) that by (auto simp: cursor_def)
      then show ?thesis using unused_zero wf by (simp add: agree_def)
    qed
    then show ?thesis using True by (intro exI[of _ True]) simp
  next
    case False
    obtain q0 q1 where q: "p0 = int q0" "p1 = int q1" "q0 \<in> used_bits (present other)" "q1 \<in> used_bits (present m)"
      "lim \<le> q0" "lim \<le> q1" "\<forall>x \<in> used_bits (present other). x < lim \<or> q0 \<le> x" "\<forall>x \<in> used_bits (present m). x < lim \<or> q1 \<le> x"
      using False Suc.prems(1,2) by (auto simp: cursor_def)
    obtain g0 g1 where g: "pages other q0 = Some g0" "pages m q1 = Some g1"
      using used_page wf q(3,4) by blast
    obtain n0 where n0: "get_next_page other (int q0) = Inr n0" "cursor other (Suc q0) n0" "Suc q0 < npages m"
      using cursor_next[OF assms(2) q(3)] assms(3) by auto
    obtain n1 where n1: "get_next_page m (int q1) = Inr n1" "cursor m (Suc q1) n1" "Suc q1 < npages m"
      using cursor_next[OF assms(1) q(4)] by auto
    consider (eq) "q0 = q1" | (lt) "q0 < q1" | (gt) "q1 < q0" by linarith
    then show ?thesis
    proof cases
      case eq
      show ?thesis
      proof (cases "same_page g1 g0")
        case True
        then have ag: "agree m other q0" using g eq by (simp add: agree_def page_byte_def same_page_def list_all_iff)
        obtain b where b: "equal_loop k m other n0 n1 = Inr b" "\<not> b \<longrightarrow> (\<exists>p. \<not> agree m other p)"
          "b \<longrightarrow> used_bits (present m) = used_bits (present other) \<longrightarrow> (\<forall>p \<ge> Suc q0. agree m other p)"
          using Suc.IH[OF n0(2), of n1] n1(2) eq Suc.prems(3) q(5) n0(3) by auto
        have "agree m other p" if "b" "used_bits (present m) = used_bits (present other)" "lim \<le> p" for p
        proof (cases "p < q0")
          case True
          then have "p \<notin> used_bits (present m)" "p \<notin> used_bits (present other)" using q(7,8) that eq by fastforce+
          then show ?thesis using unused_zero wf by (simp add: agree_def)
        next
          case False
          then show ?thesis using b(3) that ag by (cases "p = q0") auto
        qed
        then show ?thesis using b True q(1,2) eq g n0(1) n1(1) by auto
      next
        case False
        then have "\<not> agree m other q0" using g eq by (auto simp: agree_def page_byte_def same_page_def list_all_iff)
        then show ?thesis using False q(1,2) eq g by auto
      qed
    next
      case lt
      then have nu: "q0 \<notin> used_bits (present m)" using q(5,8) by fastforce
      show ?thesis
      proof (cases "is_zero g0")
        case True
        obtain b where b: "equal_loop k m other n0 p1 = Inr b" "\<not> b \<longrightarrow> (\<exists>p. \<not> agree m other p)"
          using Suc.IH[OF n0(2), of p1] cursor_lift[of m lim q1 q0] Suc.prems(2,3) q(2,5) lt n0(3) by auto
        then show ?thesis using True q(1-3) lt g n0(1) nu by auto
      next
        case False
        then have "\<not> agree m other q0"
          using g(1) unused_zero[of m q0] wf nu by (auto simp: agree_def page_byte_def is_zero_def list_all_iff)
        then show ?thesis using False q(1-3) lt g by auto
      qed
    next
      case gt
      then have nu: "q1 \<notin> used_bits (present other)" using q(6,7) by fastforce
      show ?thesis
      proof (cases "is_zero g1")
        case True
        obtain b where b: "equal_loop k m other p0 n1 = Inr b" "\<not> b \<longrightarrow> (\<exists>p. \<not> agree m other p)"
          using Suc.IH[OF _ n1(2), of p0] cursor_lift[of other lim q0 q1] Suc.prems(1,3) q(1,6) gt n1(3) by auto
        then show ?thesis using True q(1-4) gt g n1(1) nu by auto
      next
        case False
        then have "\<not> agree m other q1"
          using g(2) unused_zero[of other q1] wf nu by (auto simp: agree_def page_byte_def is_zero_def list_all_iff)
        then show ?thesis using False q(1-4) gt g by auto
      qed
    qed
  qed
qed

lemma agree_bytes: "(\<forall>p. agree m other p) \<longleftrightarrow> byte_at m = byte_at other"
proof
  assume "\<forall>p. agree m other p"
  then show "byte_at m = byte_at other"
    by (auto simp: agree_def page_byte_def byte_at_def fun_eq_iff)
next
  assume eq: "byte_at m = byte_at other"
  show "\<forall>p. agree m other p"
    unfolding agree_def
  proof (intro allI impI)
    fix p i assume "i < pgsize"
    then have "(p * pgsize + i) div pgsize = p" "(p * pgsize + i) mod pgsize = i" by simp_all
    then have "byte_at x (p * pgsize + i) = page_byte x p i" for x by (simp only: byte_at_def page_byte_def)
    then show "page_byte m p i = page_byte other p i" using eq by metis
  qed
qed

section \<open>Properties\<close>

text \<open>
  C25. A value stored with \<open>set\<close> is loaded back by \<open>get\<close> of the same type, for the widths of 8,
  16, 32 and 64 bits, at any address whose access stays in its page; the store changes no byte
  outside, and the load none at all.
\<close>

theorem store_load_roundtrip:
  assumes "wf_mem m" "fits m 8 a"
  shows "(\<exists>m1 m2. set8 a b m = Inr m1 \<and> get8 a m1 = Inr (m2, b) \<and> byte_at m2 = byte_at m1
      \<and> (\<forall>x. x < unat a \<or> unat a + 1 \<le> x \<longrightarrow> byte_at m1 x = byte_at m x))
    \<and> (\<exists>m1 m2. set16 a h m = Inr m1 \<and> get16 a m1 = Inr (m2, h) \<and> byte_at m2 = byte_at m1
      \<and> (\<forall>x. x < unat a \<or> unat a + 2 \<le> x \<longrightarrow> byte_at m1 x = byte_at m x))
    \<and> (\<exists>m1 m2. set32 a w m = Inr m1 \<and> get32 a m1 = Inr (m2, w) \<and> byte_at m2 = byte_at m1
      \<and> (\<forall>x. x < unat a \<or> unat a + 4 \<le> x \<longrightarrow> byte_at m1 x = byte_at m x))
    \<and> (\<exists>m1 m2. set64 a d m = Inr m1 \<and> get64 a m1 = Inr (m2, d) \<and> byte_at m2 = byte_at m1
      \<and> (\<forall>x. x < unat a \<or> unat a + 8 \<le> x \<longrightarrow> byte_at m1 x = byte_at m x))"
proof (intro conjI)
  have f: "n \<le> 8 \<Longrightarrow> fits m n a" for n using assms(2) by (simp add: fits_def)
  show "\<exists>m1 m2. set8 a b m = Inr m1 \<and> get8 a m1 = Inr (m2, b) \<and> byte_at m2 = byte_at m1
      \<and> (\<forall>x. x < unat a \<or> unat a + 1 \<le> x \<longrightarrow> byte_at m1 x = byte_at m x)"
    using sm.write_read[of m "[b]" a] assms(1) f[of 1] by (auto simp: set8_def get8_def)
  show "\<exists>m1 m2. set16 a h m = Inr m1 \<and> get16 a m1 = Inr (m2, h) \<and> byte_at m2 = byte_at m1
      \<and> (\<forall>x. x < unat a \<or> unat a + 2 \<le> x \<longrightarrow> byte_at m1 x = byte_at m x)"
    using sm.write_read[of m "bytes16 h" a] assms(1) f[of 2] by (auto simp: set16_def get16_def)
  show "\<exists>m1 m2. set32 a w m = Inr m1 \<and> get32 a m1 = Inr (m2, w) \<and> byte_at m2 = byte_at m1
      \<and> (\<forall>x. x < unat a \<or> unat a + 4 \<le> x \<longrightarrow> byte_at m1 x = byte_at m x)"
    using sm.write_read[of m "bytes32 w" a] assms(1) f[of 4] by (auto simp: set32_def get32_def)
  show "\<exists>m1 m2. set64 a d m = Inr m1 \<and> get64 a m1 = Inr (m2, d) \<and> byte_at m2 = byte_at m1
      \<and> (\<forall>x. x < unat a \<or> unat a + 8 \<le> x \<longrightarrow> byte_at m1 x = byte_at m x)"
    using sm.write_read[of m "bytes64 d" a] assms(1) f[of 8] by (auto simp: set64_def get64_def)
qed

theorem store_load_roundtrip_witness:
  "\<exists>m1 m2. set32 4100 0x12345678 (new_mem 65536) = Inr m1 \<and> get32 4100 m1 = Inr (m2, 0x12345678)
    \<and> byte_at m1 4104 = 0"
proof -
  have "fits (new_mem 65536) 8 4100" by (simp add: fits_def mem_limit_def new_mem_def pgsize_def)
  from store_load_roundtrip[OF wf_new_mem(1) this, of 0 0 "0x12345678" 0] show ?thesis
    by (auto simp: wf_new_mem(2))
qed

text \<open>
  A copy of a memory is well-formed and holds the same byte at every address, whatever the
  destination held before.
\<close>

theorem copy_same_bytes:
  assumes "wf_mem other"
  shows "\<exists>m'. copy_mem m other = Inr m' \<and> wf_mem m' \<and> byte_at m' = byte_at other"
  using copy_mem_ok[OF assms] by blast

theorem copy_same_bytes_witness:
  "\<exists>m'. copy_mem (new_mem 4096) (new_mem 12288) = Inr m' \<and> wf_mem m' \<and> byte_at m' = byte_at (new_mem 12288)"
  using copy_same_bytes[OF wf_new_mem(1)] by blast

text \<open>
  C34. What the comparison of two memories of the same size answers, when the last page of
  neither is present: it always returns; the answer "different" is right, and the answer "equal"
  is right when the same pages are present on both sides.
\<close>

theorem equal_mem_answers:
  assumes "scannable m" "scannable other" "npages other = npages m"
  shows "\<exists>b. equal_mem m other = Inr b \<and> (\<not> b \<longrightarrow> byte_at m \<noteq> byte_at other)
    \<and> (b \<longrightarrow> used_bits (present m) = used_bits (present other) \<longrightarrow> byte_at m = byte_at other)"
proof -
  have wf: "wf_mem m" "wf_mem other" using assms by (simp_all add: scannable_def)
  obtain b where b: "equal_loop (Suc (2 * npages m)) m other (first_page other) (first_page m) = Inr b"
    "\<not> b \<longrightarrow> (\<exists>p. \<not> agree m other p)"
    "b \<longrightarrow> used_bits (present m) = used_bits (present other) \<longrightarrow> (\<forall>p \<ge> 0. agree m other p)"
  proof (cases "npages m = 0")
    case True
    then have "used_bits (present m) = {}" using wf by (auto simp: used_bits_def wf_mem_def)
    then have "first_page m = -1" using cursor_first[OF wf(1)] by (auto simp: cursor_def)
    moreover have "agree m other p" for p
      using unused_zero[OF wf(1)] unused_zero[OF wf(2)] True assms(3) wf
      by (auto simp: agree_def used_bits_def wf_mem_def)
    ultimately show ?thesis using that[of True] by simp
  next
    case False
    then show ?thesis
      using equal_loop_ok[OF assms cursor_first[OF wf(2)] cursor_first[OF wf(1)], of "Suc (2 * npages m)"] that by auto
  qed
  then show ?thesis using assms(3) agree_bytes[of m other] by (intro exI[of _ b]) (auto simp: equal_mem_def)
qed

theorem equal_mem_answers_witness:
  "\<exists>b. equal_mem (new_mem 8192) (new_mem 8192) = Inr b \<and> (\<not> b \<longrightarrow> byte_at (new_mem 8192) \<noteq> byte_at (new_mem 8192))"
proof -
  have "used_bits (present (new_mem 8192)) = {}"
    by (simp add: new_mem_def Let_def clear_and_resize_def new_bitvec_def used_bits_def)
  then have "scannable (new_mem 8192)" using wf_new_mem(1) by (simp add: scannable_def)
  from equal_mem_answers[OF this this] show ?thesis by blast
qed

text \<open>
  The comparison stops when either side runs out of present pages, so that bytes in the further
  pages of the other side are not compared.
\<close>

lemma equal_mem_ignores_rest:
  assumes "wf_mem m" "used_bits (present m) = {}" "npages other = npages m"
  shows "equal_mem m other = Inr True"
  using cursor_first[OF assms(1)] assms(2,3) by (auto simp: equal_mem_def cursor_def)

end
