(* ===== verification/Mips.thy ===== *)
theory Mips
  imports Prelude
begin

text \<open>
  \<^verbatim>\<open>sim_ooo/mips.hh\<close>: the instruction word, its fields, its classes and the targets of direct
  branches and jumps.  A field is its value as a number; the bit-field structs of the union
  \<open>mips_t\<close> list their members from the least significant bit on.
\<close>

definition fld :: "u32 \<Rightarrow> nat \<Rightarrow> nat \<Rightarrow> nat" where
  "fld inst lo w = unat (drop_bit lo inst AND mask w)"

definition opcode_of :: "u32 \<Rightarrow> nat" where "opcode_of inst = unat (drop_bit 26 inst)"
definition rs_of :: "u32 \<Rightarrow> nat" where "rs_of inst = fld inst 21 5"
definition rt_of :: "u32 \<Rightarrow> nat" where "rt_of inst = fld inst 16 5"
definition rd_of :: "u32 \<Rightarrow> nat" where "rd_of inst = fld inst 11 5"
definition sa_of :: "u32 \<Rightarrow> nat" where "sa_of inst = fld inst 6 5"
definition funct_of :: "u32 \<Rightarrow> nat" where "funct_of inst = fld inst 0 6"
definition fmt_of :: "u32 \<Rightarrow> nat" where "fmt_of inst = fld inst 21 5"

definition uimm :: "u32 \<Rightarrow> u32" where
  "uimm inst = inst AND 0xFFFF"

definition simm :: "u32 \<Rightarrow> u32" where
  "simm inst = scast (ucast inst :: u16)"

definition signExtendImm :: "u32 \<Rightarrow> u32" where
  "signExtendImm inst = scast (ucast (inst AND 0xFFFF) :: u16)"

record coproc1x_t =
  c1x_fmt :: nat
  c1x_id :: nat
  c1x_fd :: nat
  c1x_fs :: nat
  c1x_ft :: nat
  c1x_fr :: nat

definition c1x_of :: "u32 \<Rightarrow> coproc1x_t" where
  "c1x_of inst = \<lparr>c1x_fmt = fld inst 0 3, c1x_id = fld inst 3 3, c1x_fd = fld inst 6 5,
     c1x_fs = fld inst 11 5, c1x_ft = fld inst 16 5, c1x_fr = fld inst 21 5\<rparr>"

record lwxc1_t =
  lx_id :: nat
  lx_fd :: nat
  lx_index :: nat
  lx_base :: nat

definition lc1x_of :: "u32 \<Rightarrow> lwxc1_t" where
  "lc1x_of inst = \<lparr>lx_id = fld inst 0 6, lx_fd = fld inst 6 5, lx_index = fld inst 16 5, lx_base = fld inst 21 5\<rparr>"

datatype mips_type = Rtype | Jtype | Cp0 | Cp1 | Cp1x | Cp2 | Special2 | Special3 | Ll | Sc | Itype

definition getInsnType :: "u32 \<Rightarrow> mips_type" where
  "getInsnType insn = (let opcode = opcode_of insn in
     if opcode = 0 then Rtype
     else if opcode div 2 = 1 then Jtype
     else if opcode = 0x10 then Cp0
     else if opcode = 0x11 then Cp1
     else if opcode = 0x12 then Cp2
     else if opcode = 0x13 then Cp1x
     else if opcode = 0x1c then Special2
     else if opcode = 0x1f then Special3
     else if opcode = 0x30 then Ll
     else if opcode = 0x38 then Sc
     else Itype)"

definition isFloatingPoint :: "u32 \<Rightarrow> bool" where
  "isFloatingPoint inst \<longleftrightarrow> opcode_of inst = 0x11"

definition is_jr :: "u32 \<Rightarrow> bool" where
  "is_jr inst \<longleftrightarrow> opcode_of inst = 0 \<and> funct_of inst = 0x08"

definition is_jal :: "u32 \<Rightarrow> bool" where
  "is_jal inst \<longleftrightarrow> opcode_of inst = 3"

definition is_j :: "u32 \<Rightarrow> bool" where
  "is_j inst \<longleftrightarrow> opcode_of inst = 2"

definition jaddr_of :: "u32 \<Rightarrow> u32" where
  "jaddr_of inst = push_bit 2 (inst AND mask 26)"

definition get_jump_target :: "u32 \<Rightarrow> u32 \<Rightarrow> u32 res" where
  "get_jump_target pc inst = ensure AssertFail (is_jal inst \<or> is_j inst)
     (Inr (((pc + 4) AND NOT (mask 28)) OR jaddr_of inst))"

definition get_branch_target :: "u32 \<Rightarrow> u32 \<Rightarrow> u32" where
  "get_branch_target pc inst = pc + 4 + push_bit 2 (simm inst)"

text \<open>The target is left at its old value where the code does not assign it.\<close>

definition isDirectBranchOrJump :: "u32 \<Rightarrow> u32 \<Rightarrow> u32 \<Rightarrow> bool \<times> u32" where
  "isDirectBranchOrJump insn addr target = (let opcode = opcode_of insn in
     if opcode = 0x02 then (True, jaddr_of insn OR ((addr + 4) AND NOT (mask 28)))
     else if opcode \<in> {0x01, 0x04, 0x05, 0x06, 0x07} then (True, push_bit 2 (simm insn) + addr + 4)
     else if opcode = 0x11 then
       (if fld insn 21 5 = 0x8 then (True, push_bit 2 (simm insn) + addr + 4) else (False, target))
     else (False, NOT 0))"

lemma fld_less: "fld inst lo w < 2 ^ w"
proof -
  have "fld inst lo w = unat (drop_bit lo inst) mod 2 ^ w"
    by (simp only: fld_def take_bit_eq_mask[symmetric] unat_take_bit)
  then show ?thesis by simp
qed

lemma reg_less: "rs_of i < 32" "rt_of i < 32" "rd_of i < 32" "sa_of i < 32"
  using fld_less[of i _ 5] by (simp_all add: rs_of_def rt_of_def rd_of_def sa_of_def)

lemma signExtendImm_simm: "signExtendImm inst = simm inst"
proof -
  have "inst AND 0xFFFF = take_bit 16 inst"
    using and_mask[of inst 16] by simp
  then have "ucast (inst AND 0xFFFF) = (ucast inst :: u16)"
    by (auto intro!: bit_word_eqI simp: bit_simps)
  then show ?thesis by (simp add: signExtendImm_def simm_def)
qed

end
