(* ===== verification/Arch_State.thy ===== *)
theory Arch_State
  imports Mips Sparse_Mem Cache
begin

text \<open>
  \<^verbatim>\<open>sim_ooo/state.hh\<close> and \<^verbatim>\<open>sim_ooo/interpret.hh\<close>: the architectural state of
  the instruction interpreter that the core is checked against.  Registers are arrays
  of 32 words, whose indices are five-bit fields; a double occupies two neighbouring entries of
  \<open>cpr1\<close> in the order of the little-endian host, and register 31 has no neighbour, so a double
  there is \<open>Undefined\<close>.  Signed overflow wraps, as the host computes it.

  Parameters: the host's floating-point operations, the host's system calls with the clock and
  the arguments of the run, and the environment of the caches.  A call of the host is a function
  of the instruction count and its arguments.
\<close>

record history =
  h_fetch_pc :: u32
  h_next_pc :: u32
  h_branch :: bool
  h_likely :: bool
  h_took :: bool
  h_icnt :: u64

record state =
  mem :: sparse_mem
  pc :: u32
  lo :: u32
  hi :: u32
  icnt :: u64
  brk :: u8
  syscall :: u8
  gpr :: "nat \<Rightarrow> u32"
  cpr0 :: "nat \<Rightarrow> u32"
  cpr1 :: "nat \<Rightarrow> u32"
  fcr1 :: "nat \<Rightarrow> u32"
  num_open_fd :: int
  silent :: bool
  l1d :: "cache list"
  hbuf :: "nat \<Rightarrow> history"
  my_time :: u32

record fpu =
  f_add :: "u32 \<Rightarrow> u32 \<Rightarrow> u32"
  f_sub :: "u32 \<Rightarrow> u32 \<Rightarrow> u32"
  f_mul :: "u32 \<Rightarrow> u32 \<Rightarrow> u32"
  f_div :: "u32 \<Rightarrow> u32 \<Rightarrow> u32"
  f_sqrt :: "u32 \<Rightarrow> u32"
  f_madd :: "u32 \<Rightarrow> u32 \<Rightarrow> u32 \<Rightarrow> u32"
  f_msub :: "u32 \<Rightarrow> u32 \<Rightarrow> u32 \<Rightarrow> u32"
  d_add :: "u64 \<Rightarrow> u64 \<Rightarrow> u64"
  d_sub :: "u64 \<Rightarrow> u64 \<Rightarrow> u64"
  d_mul :: "u64 \<Rightarrow> u64 \<Rightarrow> u64"
  d_div :: "u64 \<Rightarrow> u64 \<Rightarrow> u64"
  d_sqrt :: "u64 \<Rightarrow> u64"
  d_madd :: "u64 \<Rightarrow> u64 \<Rightarrow> u64 \<Rightarrow> u64"
  d_msub :: "u64 \<Rightarrow> u64 \<Rightarrow> u64 \<Rightarrow> u64"
  s_to_d :: "u32 \<Rightarrow> u64"
  d_to_s :: "u64 \<Rightarrow> u32"
  w_to_s :: "u32 \<Rightarrow> u32"
  w_to_d :: "u32 \<Rightarrow> u64"
  s_to_w :: "u32 \<Rightarrow> u32 res"
  d_to_w :: "u64 \<Rightarrow> u32 res"

record host_stat =
  hs_dev :: u32
  hs_ino :: u16
  hs_mode :: u32
  hs_nlink :: u16
  hs_uid :: u16
  hs_gid :: u16
  hs_size :: u32
  hs_atime :: u32
  hs_blksize :: u32
  hs_blocks :: u32

record host =
  h_open :: "u64 \<Rightarrow> u8 list \<Rightarrow> u32 \<Rightarrow> u32"
  h_read :: "u64 \<Rightarrow> u32 \<Rightarrow> u32 \<Rightarrow> u8 list option"
  h_write :: "u64 \<Rightarrow> u32 \<Rightarrow> u32 \<Rightarrow> u8 list \<Rightarrow> int"
  h_lseek :: "u64 \<Rightarrow> u32 \<Rightarrow> u32 \<Rightarrow> u32 \<Rightarrow> u32"
  h_close :: "u64 \<Rightarrow> u32 \<Rightarrow> u32"
  h_fstat :: "u64 \<Rightarrow> u32 \<Rightarrow> u32 \<times> host_stat"
  h_times :: "u64 \<Rightarrow> u32 \<times> u32 list"
  h_getcwd :: "u64 \<Rightarrow> u32 \<Rightarrow> u8 list"
  h_chdir :: "u64 \<Rightarrow> u8 list \<Rightarrow> u32"
  io_flags :: "u32 list"
  enClockFuncts :: bool
  sysArgv :: "u8 list list"

record params =
  fp :: fpu
  os :: host
  cenv :: env

section \<open>State\<close>

definition new_state :: "sparse_mem \<Rightarrow> u32 \<Rightarrow> state" where
  "new_state m t = \<lparr>mem = m, pc = 0, lo = 0, hi = 0, icnt = 0, brk = 0, syscall = 0, gpr = \<lambda>_. 0, cpr0 = \<lambda>_. 0,
     cpr1 = \<lambda>_. 0, fcr1 = \<lambda>_. 0, num_open_fd = 0, silent = False, l1d = [],
     hbuf = \<lambda>_. \<lparr>h_fetch_pc = 0, h_next_pc = 0, h_branch = False, h_likely = False, h_took = False, h_icnt = 0\<rparr>,
     my_time = t\<rparr>"

definition copy_state :: "state \<Rightarrow> state \<Rightarrow> state" where
  "copy_state other s = s\<lparr>pc := pc other, lo := lo other, hi := hi other, icnt := icnt other, brk := brk other,
     syscall := syscall other, gpr := gpr other, cpr0 := cpr0 other, cpr1 := cpr1 other, fcr1 := fcr1 other\<rparr>"

definition initState :: "state \<Rightarrow> state" where
  "initState s = s\<lparr>cpr0 := (cpr0 s)(12 := cpr0 s 12 OR push_bit 2 1 OR push_bit 22 1)\<rparr>"

definition hwindow :: nat where "hwindow = 65536"

definition hidx :: "u64 \<Rightarrow> nat" where
  "hidx n = unat n mod hwindow"

definition upd_hist :: "nat \<Rightarrow> (history \<Rightarrow> history) \<Rightarrow> state \<Rightarrow> state" where
  "upd_hist i f s = s\<lparr>hbuf := (hbuf s)(i := f (hbuf s i))\<rparr>"

definition set_gpr :: "nat \<Rightarrow> u32 \<Rightarrow> state \<Rightarrow> state" where
  "set_gpr r v s = s\<lparr>gpr := (gpr s)(r := v)\<rparr>"

definition set_s :: "nat \<Rightarrow> u32 \<Rightarrow> state \<Rightarrow> state" where
  "set_s r v s = s\<lparr>cpr1 := (cpr1 s)(r := v)\<rparr>"

definition get_d :: "nat \<Rightarrow> state \<Rightarrow> u64 res" where
  "get_d r s = ensure Undefined (r + 1 < 32) (Inr (le64 (cpr1 s r) (cpr1 s (r + 1))))"

definition set_d :: "nat \<Rightarrow> u64 \<Rightarrow> state \<Rightarrow> state res" where
  "set_d r v s = ensure Undefined (r + 1 < 32) (Inr (s\<lparr>cpr1 := (cpr1 s)(r := lo32 v, r + 1 := hi32 v)\<rparr>))"

definition next_insn :: "state \<Rightarrow> state" where
  "next_insn s = s\<lparr>pc := pc s + 4\<rparr>"

end
