(* ===== verification/Interp_Mem.thy ===== *)
theory Interp_Mem
  imports Arch_State
begin

text \<open>
  The loads and stores of \<^verbatim>\<open>sim_ooo/interpret.cc\<close>.  The target is big-endian, so a value of more
  than a byte is swapped on its way to and from memory.  An access goes through a pointer into the
  page of its address, as the typed accesses of the memory do; where a first-level cache is attached
  it is warmed with the aligned address.
\<close>

section \<open>Memory accesses of instructions\<close>

definition get_with :: "(sparse_mem \<Rightarrow> (sparse_mem \<times> 'a) res) \<Rightarrow> state \<Rightarrow> ('a \<Rightarrow> state \<Rightarrow> state res) \<Rightarrow> state res" where
  "get_with g s f = rbind (g (mem s)) (\<lambda>(m, v). f v (s\<lparr>mem := m\<rparr>))"

definition put_with :: "(sparse_mem \<Rightarrow> sparse_mem res) \<Rightarrow> state \<Rightarrow> (state \<Rightarrow> state res) \<Rightarrow> state res" where
  "put_with p s f = rbind (p (mem s)) (\<lambda>m. f (s\<lparr>mem := m\<rparr>))"

definition l1d_read :: "params \<Rightarrow> u32 \<Rightarrow> state \<Rightarrow> state res" where
  "l1d_read P a s = (if l1d s = [] then Inr s else rbind (warm_read (cenv P) a (l1d s)) (\<lambda>cs. Inr (s\<lparr>l1d := cs\<rparr>)))"

definition l1d_write :: "params \<Rightarrow> u32 \<Rightarrow> state \<Rightarrow> state res" where
  "l1d_write P a s = (if l1d s = [] then Inr s else rbind (warm_write (cenv P) a (l1d s)) (\<lambda>cs. Inr (s\<lparr>l1d := cs\<rparr>)))"

definition eff_addr :: "u32 \<Rightarrow> state \<Rightarrow> u32" where
  "eff_addr inst s = gpr s (rs_of inst) + simm inst"

definition exec_lw :: "params \<Rightarrow> u32 \<Rightarrow> state \<Rightarrow> state res" where
  "exec_lw P inst s = (let ea = eff_addr inst s in get_with (get32 ea) s (\<lambda>v s1.
     rbind (l1d_read P (ea AND NOT 3) (set_gpr (rt_of inst) (bswap32 v) s1)) (\<lambda>s2. Inr (next_insn s2))))"

definition exec_lh :: "params \<Rightarrow> u32 \<Rightarrow> state \<Rightarrow> state res" where
  "exec_lh P inst s = (let ea = eff_addr inst s in get_with (get16 ea) s (\<lambda>v s1.
     rbind (l1d_read P (ea AND NOT 1) (set_gpr (rt_of inst) (scast (bswap16 v)) s1)) (\<lambda>s2. Inr (next_insn s2))))"

definition exec_lb :: "params \<Rightarrow> u32 \<Rightarrow> state \<Rightarrow> state res" where
  "exec_lb P inst s = (let ea = eff_addr inst s in get_with (get8 ea) s (\<lambda>v s1.
     rbind (l1d_read P ea (set_gpr (rt_of inst) (scast v) s1)) (\<lambda>s2. Inr (next_insn s2))))"

definition exec_lbu :: "params \<Rightarrow> u32 \<Rightarrow> state \<Rightarrow> state res" where
  "exec_lbu P inst s = (let ea = eff_addr inst s in get_with (get8 ea) s (\<lambda>v s1.
     rbind (l1d_read P ea (set_gpr (rt_of inst) (ucast v) s1)) (\<lambda>s2. Inr (next_insn s2))))"

definition exec_lhu :: "params \<Rightarrow> u32 \<Rightarrow> state \<Rightarrow> state res" where
  "exec_lhu P inst s = (let ea = eff_addr inst s in get_with (get16 ea) s (\<lambda>v s1.
     rbind (l1d_read P (ea AND NOT 1) (set_gpr (rt_of inst) (ucast (bswap16 v)) s1)) (\<lambda>s2. Inr (next_insn s2))))"

definition exec_sw :: "params \<Rightarrow> u32 \<Rightarrow> state \<Rightarrow> state res" where
  "exec_sw P inst s = (let ea = eff_addr inst s in put_with (set32 ea (bswap32 (gpr s (rt_of inst)))) s (\<lambda>s1.
     rbind (l1d_write P (ea AND NOT 3) s1) (\<lambda>s2. Inr (next_insn s2))))"

definition exec_sc :: "params \<Rightarrow> u32 \<Rightarrow> state \<Rightarrow> state res" where
  "exec_sc P inst s = rbind (exec_sw P inst s) (\<lambda>s1. Inr (set_gpr (rt_of inst) 1 s1))"

definition exec_sh :: "params \<Rightarrow> u32 \<Rightarrow> state \<Rightarrow> state res" where
  "exec_sh P inst s = (let ea = eff_addr inst s in put_with (set16 ea (bswap16 (ucast (gpr s (rt_of inst))))) s (\<lambda>s1.
     rbind (l1d_write P (ea AND NOT 1) s1) (\<lambda>s2. Inr (next_insn s2))))"

definition exec_sb :: "params \<Rightarrow> u32 \<Rightarrow> state \<Rightarrow> state res" where
  "exec_sb P inst s = (let ea = eff_addr inst s in put_with (set8 ea (ucast (gpr s (rt_of inst)))) s (\<lambda>s1.
     rbind (l1d_write P ea s1) (\<lambda>s2. Inr (next_insn s2))))"

text \<open>The unaligned accesses, on the aligned word that holds the address.\<close>

definition exec_swl :: "params \<Rightarrow> u32 \<Rightarrow> state \<Rightarrow> state res" where
  "exec_swl P inst s = (let ea0 = eff_addr inst s; ma = unat (ea0 AND 3); ea = ea0 AND 0xfffffffc
     in get_with (get32 ea) s (\<lambda>v s1. let r = bswap32 v; x = gpr s1 (rt_of inst); xs = drop_bit (8 * ma) x
       in ensure Undefined (8 * (4 - ma) < 32)
         (let m = NOT (push_bit (8 * (4 - ma)) 1 - 1); xx = (r AND m) OR xs
          in put_with (set32 ea (bswap32 xx)) s1 (\<lambda>s2. rbind (l1d_write P ea s2) (\<lambda>s3. Inr (next_insn s3))))))"

definition exec_swr :: "params \<Rightarrow> u32 \<Rightarrow> state \<Rightarrow> state res" where
  "exec_swr P inst s = (let ea0 = eff_addr inst s; ma = unat (ea0 AND 3); ea = ea0 AND 0xfffffffc
     in get_with (get32 ea) s (\<lambda>v s1. let r = bswap32 v; x = gpr s1 (rt_of inst); xs = 8 * (3 - ma);
          rm = push_bit xs 1 - 1; xx = push_bit xs x OR (rm AND r)
       in put_with (set32 ea (bswap32 xx)) s1 (\<lambda>s2. rbind (l1d_write P ea s2) (\<lambda>s3. Inr (next_insn s3)))))"

definition exec_lwl :: "params \<Rightarrow> u32 \<Rightarrow> state \<Rightarrow> state res" where
  "exec_lwl P inst s = (let ea0 = eff_addr inst s; ma = ea0 AND 3; ea = ea0 AND 0xfffffffc
     in get_with (get32 ea) s (\<lambda>v s1. let r = bswap32 v; x = gpr s1 (rt_of inst);
          y = (if ma = 0 then r
               else if ma = 1 then push_bit 8 (r AND 0x00ffffff) OR (x AND 0x000000ff)
               else if ma = 2 then push_bit 16 (r AND 0x0000ffff) OR (x AND 0x0000ffff)
               else push_bit 24 (r AND 0x00ffffff) OR (x AND 0x00ffffff))
       in rbind (l1d_read P ea (set_gpr (rt_of inst) y s1)) (\<lambda>s2. Inr (next_insn s2))))"

definition exec_lwr :: "params \<Rightarrow> u32 \<Rightarrow> state \<Rightarrow> state res" where
  "exec_lwr P inst s = (let ea0 = eff_addr inst s; ma = ea0 AND 3; ea = ea0 AND 0xfffffffc
     in get_with (get32 ea) s (\<lambda>v s1. let r = bswap32 v; x = gpr s1 (rt_of inst);
          y = (if ma = 0 then (x AND 0xffffff00) OR drop_bit 24 r
               else if ma = 1 then (x AND 0xffff0000) OR drop_bit 16 r
               else if ma = 2 then (x AND 0xff000000) OR drop_bit 8 r
               else r)
       in rbind (l1d_read P ea (set_gpr (rt_of inst) y s1)) (\<lambda>s2. Inr (next_insn s2))))"

definition exec_mtc1 :: "u32 \<Rightarrow> state \<Rightarrow> state res" where
  "exec_mtc1 inst s = Inr (next_insn (set_s (rd_of inst) (gpr s (rt_of inst)) s))"

definition exec_mfc1 :: "u32 \<Rightarrow> state \<Rightarrow> state res" where
  "exec_mfc1 inst s = Inr (next_insn (set_gpr (rt_of inst) (cpr1 s (rd_of inst)) s))"

definition exec_ldc1 :: "params \<Rightarrow> u32 \<Rightarrow> state \<Rightarrow> state res" where
  "exec_ldc1 P inst s = (let ea = eff_addr inst s in get_with (get64 ea) s (\<lambda>v s1.
     rbind (set_d (rt_of inst) (bswap64 v) s1) (\<lambda>s2.
       rbind (l1d_read P (ea AND NOT 7) s2) (\<lambda>s3. Inr (next_insn s3)))))"

definition exec_sdc1 :: "params \<Rightarrow> u32 \<Rightarrow> state \<Rightarrow> state res" where
  "exec_sdc1 P inst s = (let ea = eff_addr inst s in rbind (get_d (rt_of inst) s) (\<lambda>v.
     put_with (set64 ea (bswap64 v)) s (\<lambda>s1. rbind (l1d_write P (ea AND NOT 7) s1) (\<lambda>s2. Inr (next_insn s2)))))"

definition exec_lwc1 :: "params \<Rightarrow> u32 \<Rightarrow> state \<Rightarrow> state res" where
  "exec_lwc1 P inst s = (let ea = eff_addr inst s in get_with (get32 ea) s (\<lambda>v s1.
     rbind (l1d_read P (ea AND NOT 3) (set_s (rt_of inst) (bswap32 v) s1)) (\<lambda>s2. Inr (next_insn s2))))"

definition exec_swc1 :: "params \<Rightarrow> u32 \<Rightarrow> state \<Rightarrow> state res" where
  "exec_swc1 P inst s = (let ea = eff_addr inst s in put_with (set32 ea (bswap32 (cpr1 s (rt_of inst)))) s (\<lambda>s1.
     rbind (l1d_write P (ea AND NOT 3) s1) (\<lambda>s2. Inr (next_insn s2))))"

end
