(* ===== verification/Interp_Fp.thy ===== *)
theory Interp_Fp
  imports Arch_State
begin

text \<open>
  The floating-point instructions of \<^verbatim>\<open>sim_ooo/interpret.cc\<close>: condition codes, arithmetic,
  comparisons, conversions and conditional moves.  Arithmetic is the host's, through the
  parameter \<open>fp\<close>; negation flips the sign bit and comparisons read the IEEE formats, so both
  are defined here.
\<close>

section \<open>IEEE comparisons on bit patterns\<close>

definition fp_nan :: "'a::len word \<Rightarrow> 'a word \<Rightarrow> bool" where
  "fp_nan fi x \<longleftrightarrow> fi < take_bit (LENGTH('a) - 1) x"

definition fp_key :: "'a::len word \<Rightarrow> int" where
  "fp_key x = (let m = uint (take_bit (LENGTH('a) - 1) x) in if bit x (LENGTH('a) - 1) then - m else m)"

definition fp_eq :: "'a::len word \<Rightarrow> 'a word \<Rightarrow> 'a word \<Rightarrow> bool" where
  "fp_eq fi x y \<longleftrightarrow> \<not> fp_nan fi x \<and> \<not> fp_nan fi y \<and> fp_key x = fp_key y"

definition fp_lt :: "'a::len word \<Rightarrow> 'a word \<Rightarrow> 'a word \<Rightarrow> bool" where
  "fp_lt fi x y \<longleftrightarrow> \<not> fp_nan fi x \<and> \<not> fp_nan fi y \<and> fp_key x < fp_key y"

definition fp_le :: "'a::len word \<Rightarrow> 'a word \<Rightarrow> 'a word \<Rightarrow> bool" where
  "fp_le fi x y \<longleftrightarrow> \<not> fp_nan fi x \<and> \<not> fp_nan fi y \<and> fp_key x \<le> fp_key y"

definition fp_neg :: "'a::len word \<Rightarrow> 'a word" where
  "fp_neg x = x XOR push_bit (LENGTH('a) - 1) 1"

definition inf_s :: u32 where "inf_s = 0x7F800000"
definition inf_d :: u64 where "inf_d = 0x7FF0000000000000"
definition one_s :: u32 where "one_s = 0x3F800000"
definition one_d :: u64 where "one_d = 0x3FF0000000000000"

section \<open>Condition codes\<close>

definition getConditionCode :: "state \<Rightarrow> nat \<Rightarrow> u32" where
  "getConditionCode s cc = drop_bit cc (fcr1 s 2 AND push_bit cc 1) AND 1"

definition setConditionCode :: "u32 \<Rightarrow> nat \<Rightarrow> state \<Rightarrow> state" where
  "setConditionCode v cc s = (let m0 = push_bit cc 1; m1 = NOT m0; m2 = NOT (v - 1)
     in s\<lparr>fcr1 := (fcr1 s)(2 := (fcr1 s 2 AND m1) OR (m0 AND m2))\<rparr>)"

definition fd_of :: "u32 \<Rightarrow> nat" where "fd_of inst = fld inst 6 5"
definition fs_of :: "u32 \<Rightarrow> nat" where "fs_of inst = fld inst 11 5"
definition ft_of :: "u32 \<Rightarrow> nat" where "ft_of inst = fld inst 16 5"

section \<open>Shapes of the instructions\<close>

definition un_s :: "(u32 \<Rightarrow> u32) \<Rightarrow> u32 \<Rightarrow> state \<Rightarrow> state res" where
  "un_s f inst s = Inr (next_insn (set_s (fd_of inst) (f (cpr1 s (fs_of inst))) s))"

definition un_d :: "(u64 \<Rightarrow> u64) \<Rightarrow> u32 \<Rightarrow> state \<Rightarrow> state res" where
  "un_d f inst s = rbind (get_d (fs_of inst) s) (\<lambda>x. rbind (set_d (fd_of inst) (f x) s) (\<lambda>s1. Inr (next_insn s1)))"

definition bin_s :: "(u32 \<Rightarrow> u32 \<Rightarrow> u32) \<Rightarrow> u32 \<Rightarrow> state \<Rightarrow> state res" where
  "bin_s f inst s = Inr (next_insn (set_s (fd_of inst) (f (cpr1 s (fs_of inst)) (cpr1 s (ft_of inst))) s))"

definition bin_d :: "(u64 \<Rightarrow> u64 \<Rightarrow> u64) \<Rightarrow> u32 \<Rightarrow> state \<Rightarrow> state res" where
  "bin_d f inst s = rbind (get_d (fs_of inst) s) (\<lambda>x. rbind (get_d (ft_of inst) s) (\<lambda>y.
     rbind (set_d (fd_of inst) (f x y) s) (\<lambda>s1. Inr (next_insn s1))))"

definition by_fmt :: "(u32 \<Rightarrow> state \<Rightarrow> state res) \<Rightarrow> (u32 \<Rightarrow> state \<Rightarrow> state res) \<Rightarrow> u32 \<Rightarrow> state \<Rightarrow> state res" where
  "by_fmt f g inst s = (if fmt_of inst = 16 then f inst s else if fmt_of inst = 17 then g inst s else Inl Exit)"

section \<open>Arithmetic\<close>

definition abss :: "u32 \<Rightarrow> state \<Rightarrow> state res" where
  "abss = un_s (\<lambda>x. if fp_lt inf_s x 0 then fp_neg x else x)"
definition absd :: "u32 \<Rightarrow> state \<Rightarrow> state res" where
  "absd = un_d (\<lambda>x. if fp_lt inf_d x 0 then fp_neg x else x)"
definition recips :: "params \<Rightarrow> u32 \<Rightarrow> state \<Rightarrow> state res" where
  "recips P = un_s (\<lambda>x. d_to_s (fp P) (d_div (fp P) one_d (s_to_d (fp P) x)))"
definition recipd :: "params \<Rightarrow> u32 \<Rightarrow> state \<Rightarrow> state res" where
  "recipd P = un_d (\<lambda>x. d_div (fp P) one_d x)"
definition negs :: "u32 \<Rightarrow> state \<Rightarrow> state res" where "negs = un_s fp_neg"
definition negd :: "u32 \<Rightarrow> state \<Rightarrow> state res" where "negd = un_d fp_neg"
definition adds :: "params \<Rightarrow> u32 \<Rightarrow> state \<Rightarrow> state res" where "adds P = bin_s (f_add (fp P))"
definition addd :: "params \<Rightarrow> u32 \<Rightarrow> state \<Rightarrow> state res" where "addd P = bin_d (d_add (fp P))"
definition subs :: "params \<Rightarrow> u32 \<Rightarrow> state \<Rightarrow> state res" where "subs P = bin_s (f_sub (fp P))"
definition subd :: "params \<Rightarrow> u32 \<Rightarrow> state \<Rightarrow> state res" where "subd P = bin_d (d_sub (fp P))"
definition muls :: "params \<Rightarrow> u32 \<Rightarrow> state \<Rightarrow> state res" where "muls P = bin_s (f_mul (fp P))"
definition muld :: "params \<Rightarrow> u32 \<Rightarrow> state \<Rightarrow> state res" where "muld P = bin_d (d_mul (fp P))"
definition divs :: "params \<Rightarrow> u32 \<Rightarrow> state \<Rightarrow> state res" where "divs P = bin_s (f_div (fp P))"
definition divd :: "params \<Rightarrow> u32 \<Rightarrow> state \<Rightarrow> state res" where "divd P = bin_d (d_div (fp P))"
definition sqrts :: "params \<Rightarrow> u32 \<Rightarrow> state \<Rightarrow> state res" where "sqrts P = un_s (f_sqrt (fp P))"
definition sqrtd :: "params \<Rightarrow> u32 \<Rightarrow> state \<Rightarrow> state res" where "sqrtd P = un_d (d_sqrt (fp P))"
definition rsqrts :: "params \<Rightarrow> u32 \<Rightarrow> state \<Rightarrow> state res" where
  "rsqrts P = un_s (\<lambda>x. f_div (fp P) one_s (f_sqrt (fp P) x))"
definition rsqrtd :: "params \<Rightarrow> u32 \<Rightarrow> state \<Rightarrow> state res" where
  "rsqrtd P = un_d (\<lambda>x. d_div (fp P) one_d (d_sqrt (fp P) x))"

section \<open>Moves\<close>

definition movs :: "u32 \<Rightarrow> state \<Rightarrow> state res" where "movs = un_s (\<lambda>x. x)"

text \<open>The double moves copy the two entries one after the other.\<close>

definition copy2 :: "bool \<Rightarrow> u32 \<Rightarrow> state \<Rightarrow> state res" where
  "copy2 b inst s = (let fd = fd_of inst; fs = fs_of inst;
      s1 = set_s fd (if b then cpr1 s fs else cpr1 s fd) s
    in ensure Undefined (fd + 1 < 32 \<and> (b \<longrightarrow> fs + 1 < 32))
      (Inr (set_s (fd + 1) (if b then cpr1 s1 (fs + 1) else cpr1 s1 (fd + 1)) s1)))"

definition movd :: "u32 \<Rightarrow> state \<Rightarrow> state res" where
  "movd inst s = rbind (copy2 True inst s) (\<lambda>s1. Inr (next_insn s1))"
definition movnd :: "u32 \<Rightarrow> state \<Rightarrow> state res" where
  "movnd inst s = rbind (copy2 (gpr s (rt_of inst) \<noteq> 0) inst s) (\<lambda>s1. Inr (next_insn s1))"
definition movzd :: "u32 \<Rightarrow> state \<Rightarrow> state res" where
  "movzd inst s = rbind (copy2 (gpr s (rt_of inst) = 0) inst s) (\<lambda>s1. Inr (next_insn s1))"

definition copy1 :: "bool \<Rightarrow> u32 \<Rightarrow> state \<Rightarrow> state" where
  "copy1 b inst s = set_s (fd_of inst) (if b then cpr1 s (fs_of inst) else cpr1 s (fd_of inst)) s"

definition movns :: "u32 \<Rightarrow> state \<Rightarrow> state res" where
  "movns inst s = Inr (next_insn (copy1 (gpr s (rt_of inst) \<noteq> 0) inst s))"
definition movzs :: "u32 \<Rightarrow> state \<Rightarrow> state res" where
  "movzs inst s = Inr (next_insn (copy1 (gpr s (rt_of inst) = 0) inst s))"

definition cc_of :: "u32 \<Rightarrow> nat" where "cc_of inst = fld inst 18 3"
definition tf_of :: "u32 \<Rightarrow> nat" where "tf_of inst = fld inst 16 1"

definition movcd :: "u32 \<Rightarrow> state \<Rightarrow> state res" where
  "movcd inst s = rbind (if tf_of inst = 0
      then (if getConditionCode s (cc_of inst) = 0 then copy2 True inst s else Inr s)
      else (if getConditionCode s (cc_of inst) = 1 then copy2 True inst s else Inr s)) (\<lambda>s1. Inr (next_insn s1))"

definition movcs :: "u32 \<Rightarrow> state \<Rightarrow> state res" where
  "movcs inst s = Inr (next_insn (if tf_of inst = 0
      then copy1 (getConditionCode s (cc_of inst) = 0) inst s
      else copy1 (getConditionCode s (cc_of inst) \<noteq> 0) inst s))"

definition movci :: "u32 \<Rightarrow> state \<Rightarrow> state res" where
  "movci inst s = (let cc = getConditionCode s (cc_of inst); rd = rd_of inst; rs = rs_of inst
     in Inr (next_insn (set_gpr rd (if tf_of inst = 0
       then (if cc \<noteq> 0 then gpr s rd else gpr s rs)
       else (if cc \<noteq> 0 then gpr s rs else gpr s rd)) s)))"

section \<open>Conversions and comparisons\<close>

definition truncw :: "params \<Rightarrow> u32 \<Rightarrow> state \<Rightarrow> state res" where
  "truncw P inst s = rbind
     (if fmt_of inst = 16 then s_to_w (fp P) (cpr1 s (fs_of inst))
      else if fmt_of inst = 17 then rbind (get_d (fs_of inst) s) (d_to_w (fp P))
      else Inl Exit) (\<lambda>w. Inr (next_insn (set_s (fd_of inst) w s)))"

definition cvts :: "params \<Rightarrow> u32 \<Rightarrow> state \<Rightarrow> state res" where
  "cvts P inst s = rbind
     (if fmt_of inst = 17 then rbind (get_d (fs_of inst) s) (\<lambda>x. Inr (d_to_s (fp P) x))
      else if fmt_of inst = 20 then Inr (w_to_s (fp P) (cpr1 s (fs_of inst)))
      else Inl Exit) (\<lambda>w. Inr (next_insn (set_s (fd_of inst) w s)))"

definition cvtd :: "params \<Rightarrow> u32 \<Rightarrow> state \<Rightarrow> state res" where
  "cvtd P inst s = rbind
     (if fmt_of inst = 16 then Inr (s_to_d (fp P) (cpr1 s (fs_of inst)))
      else if fmt_of inst = 20 then Inr (w_to_d (fp P) (cpr1 s (fs_of inst)))
      else Inl Exit) (\<lambda>d. rbind (set_d (fd_of inst) d s) (\<lambda>s1. Inr (next_insn s1)))"

text \<open>Only four of the sixteen conditions are there, and \<open>COND_UN\<close> computes equality.\<close>

definition compare_by :: "nat \<Rightarrow> bool \<Rightarrow> bool \<Rightarrow> bool \<Rightarrow> bool res" where
  "compare_by cond eq lt le = (if cond = 1 then Inr eq else if cond = 2 then Inr eq
     else if cond = 12 then Inr lt else if cond = 14 then Inr le else Inl Exit)"

definition cs_insn :: "u32 \<Rightarrow> state \<Rightarrow> state res" where
  "cs_insn inst s = (let x = cpr1 s (fs_of inst); y = cpr1 s (ft_of inst)
     in rbind (compare_by (fld inst 0 4) (fp_eq inf_s x y) (fp_lt inf_s x y) (fp_le inf_s x y))
       (\<lambda>v. Inr (next_insn (setConditionCode (of_bool v) (fld inst 8 3) s))))"

definition cd_insn :: "u32 \<Rightarrow> state \<Rightarrow> state res" where
  "cd_insn inst s = rbind (get_d (fs_of inst) s) (\<lambda>x. rbind (get_d (ft_of inst) s) (\<lambda>y.
     rbind (compare_by (fld inst 0 4) (fp_eq inf_d x y) (fp_lt inf_d x y) (fp_le inf_d x y))
       (\<lambda>v. Inr (next_insn (setConditionCode (of_bool v) (fld inst 8 3) s)))))"

section \<open>Dispatch on the format\<close>

definition c_insn :: "u32 \<Rightarrow> state \<Rightarrow> state res" where "c_insn = by_fmt cs_insn cd_insn"
definition fabs_insn :: "u32 \<Rightarrow> state \<Rightarrow> state res" where "fabs_insn = by_fmt abss absd"
definition fadd_insn :: "params \<Rightarrow> u32 \<Rightarrow> state \<Rightarrow> state res" where "fadd_insn P = by_fmt (adds P) (addd P)"
definition fsub_insn :: "params \<Rightarrow> u32 \<Rightarrow> state \<Rightarrow> state res" where "fsub_insn P = by_fmt (subs P) (subd P)"
definition fmul_insn :: "params \<Rightarrow> u32 \<Rightarrow> state \<Rightarrow> state res" where "fmul_insn P = by_fmt (muls P) (muld P)"
definition fdiv_insn :: "params \<Rightarrow> u32 \<Rightarrow> state \<Rightarrow> state res" where "fdiv_insn P = by_fmt (divs P) (divd P)"
definition fmov_insn :: "u32 \<Rightarrow> state \<Rightarrow> state res" where "fmov_insn = by_fmt movs movd"
definition fneg_insn :: "u32 \<Rightarrow> state \<Rightarrow> state res" where "fneg_insn = by_fmt negs negd"
definition fsqrt_insn :: "params \<Rightarrow> u32 \<Rightarrow> state \<Rightarrow> state res" where "fsqrt_insn P = by_fmt (sqrts P) (sqrtd P)"
definition frsqrt_insn :: "params \<Rightarrow> u32 \<Rightarrow> state \<Rightarrow> state res" where "frsqrt_insn P = by_fmt (rsqrts P) (rsqrtd P)"
definition frecip_insn :: "params \<Rightarrow> u32 \<Rightarrow> state \<Rightarrow> state res" where "frecip_insn P = by_fmt (recips P) (recipd P)"
definition fmovc_insn :: "u32 \<Rightarrow> state \<Rightarrow> state res" where "fmovc_insn = by_fmt movcs movcd"
definition fmovn_insn :: "u32 \<Rightarrow> state \<Rightarrow> state res" where "fmovn_insn = by_fmt movns movnd"
definition fmovz_insn :: "u32 \<Rightarrow> state \<Rightarrow> state res" where "fmovz_insn = by_fmt movzs movzd"

text \<open>The four-operand multiply-adds; the host may fuse the two operations.\<close>

definition c1x_float :: "params \<Rightarrow> coproc1x_t \<Rightarrow> state \<Rightarrow> state res" where
  "c1x_float P ci s = (let r = cpr1 s (c1x_fr ci); x = cpr1 s (c1x_fs ci); y = cpr1 s (c1x_ft ci)
     in rbind (if c1x_id ci = 4 then Inr (f_madd (fp P) x y r)
          else if c1x_id ci = 5 then Inr (f_msub (fp P) x y r) else Inl Exit)
        (\<lambda>v. Inr (next_insn (set_s (c1x_fd ci) v s))))"

definition c1x_double :: "params \<Rightarrow> coproc1x_t \<Rightarrow> state \<Rightarrow> state res" where
  "c1x_double P ci s = rbind (get_d (c1x_fr ci) s) (\<lambda>r. rbind (get_d (c1x_fs ci) s) (\<lambda>x.
     rbind (get_d (c1x_ft ci) s) (\<lambda>y.
       rbind (if c1x_id ci = 4 then Inr (d_madd (fp P) x y r)
          else if c1x_id ci = 5 then Inr (d_msub (fp P) x y r) else Inl Exit)
        (\<lambda>v. rbind (set_d (c1x_fd ci) v s) (\<lambda>s1. Inr (next_insn s1))))))"

definition lwxc1 :: "u32 \<Rightarrow> state \<Rightarrow> state res" where
  "lwxc1 inst s = (let l = lc1x_of inst; ea = gpr s (lx_base l) + gpr s (lx_index l)
     in rbind (get32 ea (mem s)) (\<lambda>(m, v). Inr (next_insn (set_s (lx_fd l) (bswap32 v) (s\<lparr>mem := m\<rparr>)))))"

definition ldxc1 :: "u32 \<Rightarrow> state \<Rightarrow> state res" where
  "ldxc1 inst s = (let l = lc1x_of inst; ea = gpr s (lx_base l) + gpr s (lx_index l)
     in rbind (get64 ea (mem s)) (\<lambda>(m, v).
          rbind (set_d (lx_fd l) (bswap64 v) (s\<lparr>mem := m\<rparr>)) (\<lambda>s1. Inr (next_insn s1))))"

definition execCoproc1x :: "params \<Rightarrow> u32 \<Rightarrow> state \<Rightarrow> state res" where
  "execCoproc1x P inst s = (if lx_id (lc1x_of inst) = 0 then lwxc1 inst s
     else if lx_id (lc1x_of inst) = 1 then ldxc1 inst s
     else if c1x_fmt (c1x_of inst) = 0 then c1x_float P (c1x_of inst) s
     else if c1x_fmt (c1x_of inst) = 1 then c1x_double P (c1x_of inst) s
     else Inl Exit)"

end
