(* ===== verification/Monitor.thy ===== *)
theory Monitor
  imports Arch_State
begin

text \<open>
  The monitor calls of \<^verbatim>\<open>sim_ooo/interpret.cc\<close>: the instruction with function code 5 asks the
  simulator for a service of the host, chosen by a field of the instruction, and returns to the
  address in register 31.  Also the vectors of such instructions that the simulator writes at
  start, and the translation of the flags of \<open>open\<close> (\<^verbatim>\<open>sim_ooo/helper.cc\<close>).
\<close>

definition R_v0 :: nat where "R_v0 = 2"
definition R_a0 :: nat where "R_a0 = 4"
definition R_a1 :: nat where "R_a1 = 5"
definition R_a2 :: nat where "R_a2 = 6"

lemmas reg_names = R_v0_def R_a0_def R_a1_def R_a2_def

definition simIOFlags :: "u32 list" where
  "simIOFlags = [0, 1, 2, 0x0008, 0x0200, 0x0400, 0x0800, 0x2000, 0x4000, 0x8000]"

definition remapIOFlags :: "u32 list \<Rightarrow> u32 \<Rightarrow> u32" where
  "remapIOFlags host flags = foldl (\<lambda>n (a, b). if flags AND a \<noteq> 0 then n OR b else n) 0 (zip simIOFlags host)"

text \<open>The bytes up to the first zero byte; a string that leaves its page is \<open>Undefined\<close>.\<close>

definition cstring :: "u32 \<Rightarrow> sparse_mem \<Rightarrow> (sparse_mem \<times> u8 list) res" where
  "cstring a m = rbind (get_bytes (pgsize - unat a mod pgsize) a m) (\<lambda>(m1, bs).
     ensure Undefined (0 \<in> set bs) (Inr (m1, takeWhile (\<lambda>b. b \<noteq> 0) bs)))"

text \<open>A write through a pointer to \<open>a\<close> displaced by \<open>k\<close> stays in the page of \<open>a\<close>.\<close>

definition poke :: "u32 \<Rightarrow> nat \<Rightarrow> u8 list \<Rightarrow> sparse_mem \<Rightarrow> sparse_mem res" where
  "poke a k bs m = ensure Undefined (unat a mod pgsize + k + length bs \<le> pgsize) (set_bytes (a + of_nat k) bs m)"

fun poke_all :: "u32 \<Rightarrow> (nat \<times> u8 list) list \<Rightarrow> sparse_mem \<Rightarrow> sparse_mem res" where
  "poke_all a [] m = Inr m"
| "poke_all a ((k, bs) # ps) m = rbind (poke a k bs m) (poke_all a ps)"

text \<open>\<open>st_dev\<close> has 16 bits and receives the low half of a swapped 32-bit value.\<close>

definition stat_fields :: "host_stat \<Rightarrow> (nat \<times> u8 list) list" where
  "stat_fields h = [(0, bytes16 (ucast (bswap32 (hs_dev h)))), (2, bytes16 (bswap16 (hs_ino h))),
     (4, bytes32 (bswap32 (hs_mode h))), (8, bytes16 (bswap16 (hs_nlink h))), (10, bytes16 (bswap16 (hs_uid h))),
     (12, bytes16 (bswap16 (hs_gid h))), (16, bytes32 (bswap32 (hs_size h))), (20, bytes32 (bswap32 (hs_atime h))),
     (28, bytes32 0), (36, bytes32 0), (44, bytes32 (bswap32 (hs_blksize h))), (48, bytes32 (bswap32 (hs_blocks h)))]"

definition dev_null :: "u8 list" where
  "dev_null = [47, 100, 101, 118, 47, 110, 117, 108, 108]"

text \<open>Enough steps for a transfer of \<open>n\<close> bytes: each but the last ends at a page boundary.\<close>

definition rdwr_fuel :: "u32 \<Rightarrow> nat" where
  "rdwr_fuel n = unat n div pgsize + 3"

fun put_args :: "u32 \<Rightarrow> u8 list list \<Rightarrow> sparse_mem \<Rightarrow> sparse_mem res" where
  "put_args a [] m = Inr m"
| "put_args a (arg # args) m = rbind (get32 a m) (\<lambda>(m1, p).
     rbind (set_bytes (bswap32 p) (arg @ [0]) m1) (put_args (a + 4) args))"

definition margs :: nat where "margs = 20"

definition ret_v0 :: "u32 \<Rightarrow> state \<Rightarrow> state" where
  "ret_v0 v s = set_gpr R_v0 v s"

definition mon_open :: "params \<Rightarrow> state \<Rightarrow> state res" where
  "mon_open P s = rbind (cstring (gpr s R_a0) (mem s)) (\<lambda>(m, path).
     let flags = remapIOFlags (io_flags (os P)) (gpr s R_a1); fd = h_open (os P) (icnt s) path flags
     in Inr (ret_v0 fd (s\<lparr>mem := m, num_open_fd := num_open_fd s + 1\<rparr>)))"

definition mon_read :: "params \<Rightarrow> state \<Rightarrow> state res" where
  "mon_read P s = (let fd = gpr s R_a0; nr = gpr s R_a2
     in rbind (mem_read (h_read (os P) (icnt s) fd) (gpr s R_a1) nr (mem s)) (\<lambda>(m, rc).
          Inr (ret_v0 (word_of_int rc) (s\<lparr>mem := m\<rparr>))))"

definition mon_write :: "params \<Rightarrow> state \<Rightarrow> state res" where
  "mon_write P s = (let fd = gpr s R_a0; nr = gpr s R_a2;
       fd1 = (if silent s \<and> (fd = 1 \<or> fd = 2) then h_open (os P) (icnt s) dev_null (io_flags (os P) ! 1) else fd)
     in rbind (mem_write (h_write (os P) (icnt s) fd1) (rdwr_fuel nr) (gpr s R_a1) nr (mem s)) (\<lambda>(m, rc).
          Inr (ret_v0 (word_of_int rc) (s\<lparr>mem := m\<rparr>))))"

definition mon_close :: "params \<Rightarrow> state \<Rightarrow> state" where
  "mon_close P s = (let fd = gpr s R_a0
     in if 2 < sint fd then ret_v0 (h_close (os P) (icnt s) fd) (s\<lparr>num_open_fd := num_open_fd s - 1\<rparr>)
        else ret_v0 0 s)"

definition mon_fstat :: "params \<Rightarrow> state \<Rightarrow> state res" where
  "mon_fstat P s = (let (rc, st) = h_fstat (os P) (icnt s) (gpr s R_a0); s1 = ret_v0 rc s
     in rbind (poke_all (gpr s1 R_a1) (stat_fields st) (mem s1)) (\<lambda>m. Inr (s1\<lparr>mem := m\<rparr>)))"

definition mon_times :: "params \<Rightarrow> state \<Rightarrow> state res" where
  "mon_times P s = (let (v, tms) = (if enClockFuncts (os P) then h_times (os P) (icnt s) else (my_time s, [0, 0, 0, 0]));
       s1 = (if enClockFuncts (os P) then s else s\<lparr>my_time := my_time s + 100\<rparr>)
     in rbind (set_bytes (gpr s R_a0) (concat (map (\<lambda>x. bytes32 (bswap32 x)) (take 4 tms))) (mem s)) (\<lambda>m.
          Inr (ret_v0 v (s1\<lparr>mem := m\<rparr>))))"

definition mon_args :: "params \<Rightarrow> state \<Rightarrow> state res" where
  "mon_args P s = rbind (put_args (gpr s R_a0) (take margs (sysArgv (os P))) (mem s)) (\<lambda>m.
     Inr (ret_v0 (of_nat (length (sysArgv (os P)))) (s\<lparr>mem := m\<rparr>)))"

definition mon_getcwd :: "params \<Rightarrow> state \<Rightarrow> state res" where
  "mon_getcwd P s = rbind (set_bytes (gpr s R_a0) (h_getcwd (os P) (icnt s) (gpr s R_a1)) (mem s)) (\<lambda>m.
     Inr (ret_v0 (gpr s R_a0) (s\<lparr>mem := m\<rparr>)))"

definition mon_chdir :: "params \<Rightarrow> state \<Rightarrow> state res" where
  "mon_chdir P s = rbind (cstring (gpr s R_a0) (mem s)) (\<lambda>(m, path).
     Inr (ret_v0 (h_chdir (os P) (icnt s) path) (s\<lparr>mem := m\<rparr>)))"

definition mon_gettime :: "state \<Rightarrow> state res" where
  "mon_gettime s = rbind (set64 (gpr s R_a0) 0 (mem s)) (\<lambda>m. Inr (ret_v0 0 (s\<lparr>mem := m\<rparr>)))"

definition K1SIZE :: u32 where "K1SIZE = 0x80000000"

text \<open>
  The three words are written through the host pointer \<open>mem + a0\<close>: the page of \<open>a0\<close> is looked up once
  and the offsets 4 and 8 are added to the pointer, so that past the end of that page the writes are undefined.
\<close>

definition mon_meminfo :: "state \<Rightarrow> state res" where
  "mon_meminfo s = rbind (poke_all (gpr s R_a0) [(0, bytes32 (bswap32 K1SIZE)), (4, bytes32 0), (8, bytes32 0)] (mem s)) (\<lambda>m.
     Inr (s\<lparr>mem := m\<rparr>))"

definition monitor_reason :: "u32 \<Rightarrow> nat" where
  "monitor_reason inst = unat (drop_bit 1 (drop_bit 6 inst AND 0xFFFFF))"

definition monitor_call :: "params \<Rightarrow> nat \<Rightarrow> state \<Rightarrow> state res" where
  "monitor_call P reason s =
    (if reason = 6 then mon_open P s
     else if reason = 7 then mon_read P s
     else if reason = 8 then mon_write P s
     else if reason = 9 then Inr (ret_v0 (h_lseek (os P) (icnt s) (gpr s R_a0) (gpr s R_a1) (gpr s R_a2)) s)
     else if reason = 10 then Inr (mon_close P s)
     else if reason = 13 then mon_fstat P s
     else if reason = 33 then mon_gettime s
     else if reason = 34 then mon_times P s
     else if reason = 35 then mon_args P s
     else if reason = 37 then mon_getcwd P s
     else if reason = 38 then mon_chdir P s
     else if reason = 50 then Inr (ret_v0 (ucast (curr_cycle (cenv P))) s)
     else if reason = 51 then Inr s
     else if reason = 55 then mon_meminfo s
     else Inl Exit)"

definition monitorBody :: "params \<Rightarrow> u32 \<Rightarrow> state \<Rightarrow> state res" where
  "monitorBody P inst s = rbind (monitor_call P (monitor_reason inst) (ret_v0 0 s)) (\<lambda>s1.
     Inr ((upd_hist (hidx (icnt s1 - 1)) (\<lambda>h. h\<lparr>h_branch := True, h_took := True, h_next_pc := gpr s1 31\<rparr>) s1)
       \<lparr>pc := gpr s1 31\<rparr>))"

section \<open>The vectors\<close>

definition monitor_base :: u32 where "monitor_base = 0xBFC00000"

definition monitor_insn :: "u32 \<Rightarrow> u32" where
  "monitor_insn loop = 5 OR push_bit 6 (drop_bit 2 loop AND 0xFFFFF)"

fun mk_vectors :: "nat list \<Rightarrow> sparse_mem \<Rightarrow> sparse_mem res" where
  "mk_vectors [] m = Inr m"
| "mk_vectors (i # is) m = rbind (set32 (monitor_base + of_nat (4 * i)) (bswap32 (monitor_insn (of_nat (4 * i)))) m)
     (mk_vectors is)"

definition mkMonitorVectors :: "state \<Rightarrow> state res" where
  "mkMonitorVectors s = rbind (mk_vectors [0..<512] (mem s)) (\<lambda>m. Inr (s\<lparr>mem := m\<rparr>))"

end
