(* ===== verification/Interp.thy ===== *)
theory Interp
  imports Interp_Mem Interp_Fp Monitor "HOL-Library.Signed_Division"
begin

text \<open>
  \<open>execMips\<close> of \<^verbatim>\<open>sim_ooo/interpret.cc\<close>: fetch, the history record of the instruction, and one
  definition per group of opcodes.  The instruction of a delay slot is executed by the argument
  \<open>slot\<close>, which \<open>execMips\<close> ties to itself; its fuel bounds the number of branches that sit in
  each other's delay slots.
\<close>

section \<open>Branches\<close>

datatype branch_type = Beq | Bne | Blez | Bgtz | Beql | Bnel | Blezl | Bgtzl
  | Bgez | Bgezl | Bltz | Bltzl | Bc1f | Bc1t | Bc1fl | Bc1tl

definition branch_taken :: "branch_type \<Rightarrow> u32 \<Rightarrow> state \<Rightarrow> bool" where
  "branch_taken bt inst s = (let a = gpr s (rs_of inst); b = gpr s (rt_of inst); c = getConditionCode s (cc_of inst)
     in case bt of
       Beql \<Rightarrow> b = a | Beq \<Rightarrow> b = a | Bnel \<Rightarrow> b \<noteq> a | Bne \<Rightarrow> b \<noteq> a
     | Blezl \<Rightarrow> sint a \<le> 0 | Blez \<Rightarrow> sint a \<le> 0 | Bgtzl \<Rightarrow> 0 < sint a | Bgtz \<Rightarrow> 0 < sint a
     | Bgezl \<Rightarrow> 0 \<le> sint a | Bgez \<Rightarrow> 0 \<le> sint a | Bltzl \<Rightarrow> sint a < 0 | Bltz \<Rightarrow> sint a < 0
     | Bc1tl \<Rightarrow> c = 1 | Bc1t \<Rightarrow> c = 1 | Bc1fl \<Rightarrow> c = 0 | Bc1f \<Rightarrow> c = 0)"

definition is_likely :: "branch_type \<Rightarrow> bool" where
  "is_likely bt \<longleftrightarrow> bt \<in> {Beql, Bnel, Blezl, Bgtzl, Bgezl, Bltzl, Bc1tl, Bc1fl}"

definition branch :: "branch_type \<Rightarrow> (state \<Rightarrow> state res) \<Rightarrow> u32 \<Rightarrow> state \<Rightarrow> state res" where
  "branch bt slot inst s = (let imm = push_bit 2 (simm inst); npc = pc s + 4; idx = hidx (icnt s - 1);
       likely = is_likely bt; take = branch_taken bt inst s;
       s1 = next_insn (upd_hist idx (\<lambda>h. h\<lparr>h_branch := True, h_likely := likely, h_took := take\<rparr>) s)
     in rbind (if likely
          then (if take then rbind (slot s1) (\<lambda>s2. Inr (s2\<lparr>pc := imm + npc\<rparr>)) else Inr (next_insn s1))
          else rbind (slot s1) (\<lambda>s2. Inr (if take then s2\<lparr>pc := imm + npc\<rparr> else s2)))
        (\<lambda>s3. Inr (upd_hist idx (\<lambda>h. h\<lparr>h_next_pc := pc s3\<rparr>) s3)))"

definition bgez_bltz :: "(state \<Rightarrow> state res) \<Rightarrow> u32 \<Rightarrow> state \<Rightarrow> state res" where
  "bgez_bltz slot inst s = (let k = rt_of inst mod 4
     in if k = 0 then branch Bltz slot inst s
        else if k = 1 then branch Bgez slot inst s
        else if k = 2 then branch Bltzl slot inst s
        else branch Bgezl slot inst s)"

section \<open>Register instructions\<close>

definition jump_reg :: "bool \<Rightarrow> (state \<Rightarrow> state res) \<Rightarrow> u32 \<Rightarrow> state \<Rightarrow> state res" where
  "jump_reg link slot inst s = (let jaddr = gpr s (rs_of inst);
       s1 = upd_hist (hidx (icnt s - 1)) (\<lambda>h. h\<lparr>h_branch := True, h_took := True, h_next_pc := jaddr\<rparr>) s;
       s2 = (if link then set_gpr 31 (pc s1 + 8) s1 else s1)
     in rbind (slot (next_insn s2)) (\<lambda>s3. Inr (s3\<lparr>pc := jaddr\<rparr>)))"

definition alu :: "nat \<Rightarrow> u32 \<Rightarrow> state \<Rightarrow> state res" where
  "alu rd v s = Inr (next_insn (set_gpr rd v s))"

definition rtype_shift :: "params \<Rightarrow> (state \<Rightarrow> state res) \<Rightarrow> u32 \<Rightarrow> state \<Rightarrow> state res" where
  "rtype_shift P slot inst s = (let f = funct_of inst; rd = rd_of inst; sa = sa_of inst;
       a = gpr s (rs_of inst); b = gpr s (rt_of inst)
     in if f = 0x00 then alu rd (push_bit sa b) s
        else if f = 0x01 then movci inst s
        else if f = 0x02 then alu rd (drop_bit sa b) s
        else if f = 0x03 then alu rd (signed_drop_bit sa b) s
        else if f = 0x04 then alu rd (push_bit (unat (a AND 0x1f)) b) s
        else if f = 0x05 then monitorBody P inst s
        else if f = 0x06 then alu rd (drop_bit (unat (a AND 0x1f)) b) s
        else if f = 0x07 then alu rd (signed_drop_bit (unat (a AND 0x1f)) b) s
        else if f = 0x08 then jump_reg False slot inst s
        else if f = 0x09 then jump_reg True slot inst s
        else Inl Exit)"

definition set_hilo :: "u64 \<Rightarrow> state \<Rightarrow> state" where
  "set_hilo y s = s\<lparr>lo := lo32 y, hi := hi32 y\<rparr>"

definition rtype_hilo :: "u32 \<Rightarrow> state \<Rightarrow> state res" where
  "rtype_hilo inst s = (let f = funct_of inst; rd = rd_of inst; a = gpr s (rs_of inst); b = gpr s (rt_of inst)
     in if f = 0x0C then Inr (s\<lparr>syscall := 1\<rparr>)
        else if f = 0x0D then Inr (s\<lparr>brk := 1\<rparr>)
        else if f = 0x0f then Inr (next_insn s)
        else if f = 0x10 then alu rd (hi s) s
        else if f = 0x11 then Inr (next_insn (s\<lparr>hi := a\<rparr>))
        else if f = 0x12 then alu rd (lo s) s
        else if f = 0x13 then Inr (next_insn (s\<lparr>lo := a\<rparr>))
        else if f = 0x18 then Inr (next_insn (set_hilo (scast a * scast b) s))
        else if f = 0x19 then Inr (next_insn (set_hilo (ucast a * ucast b) s))
        else if f = 0x1A then (if b = 0 then Inr (next_insn s)
          else ensure Trap (\<not> (sint a = - (2 ^ 31) \<and> sint b = -1))
            (Inr (next_insn (s\<lparr>lo := word_of_int (sint a sdiv sint b), hi := word_of_int (sint a smod sint b)\<rparr>))))
        else if f = 0x1B then (if b = 0 then Inr (next_insn s)
          else Inr (next_insn (s\<lparr>lo := a div b, hi := a mod b\<rparr>)))
        else Inl Exit)"

definition rtype_alu :: "u32 \<Rightarrow> state \<Rightarrow> state res" where
  "rtype_alu inst s = (let f = funct_of inst; rd = rd_of inst; a = gpr s (rs_of inst); b = gpr s (rt_of inst)
     in if f = 0x20 then alu rd (a + b) s
        else if f = 0x21 then alu rd (a + b) s
        else if f = 0x22 then Inl Exit
        else if f = 0x23 then alu rd (a - b) s
        else if f = 0x24 then alu rd (a AND b) s
        else if f = 0x25 then alu rd (a OR b) s
        else if f = 0x26 then alu rd (a XOR b) s
        else if f = 0x27 then alu rd (NOT (a OR b)) s
        else if f = 0x2A then alu rd (of_bool (sint a < sint b)) s
        else if f = 0x2B then alu rd (of_bool (a < b)) s
        else if f = 0x0B then alu rd (if b \<noteq> 0 then a else gpr s rd) s
        else if f = 0x0A then alu rd (if b = 0 then a else gpr s rd) s
        else if f = 0x34 then (if a = b then Inl Exit else Inr (next_insn s))
        else Inl Exit)"

definition execRType :: "params \<Rightarrow> (state \<Rightarrow> state res) \<Rightarrow> u32 \<Rightarrow> state \<Rightarrow> state res" where
  "execRType P slot inst s = (let f = funct_of inst
     in if f \<le> 0x09 then rtype_shift P slot inst s
        else if 0x0C \<le> f \<and> f \<le> 0x1B then rtype_hilo inst s
        else rtype_alu inst s)"

section \<open>Special instructions\<close>

text \<open>The accumulator is the high word shifted up, combined with the low word as it converts.\<close>

definition madd_acc :: "state \<Rightarrow> u64" where
  "madd_acc s = push_bit 32 (scast (hi s)) OR scast (lo s)"

definition clz32 :: "u32 \<Rightarrow> u32" where
  "clz32 x = of_nat (length (takeWhile (\<lambda>i. \<not> bit x i) (rev [0..<32])))"

definition execSpecial2 :: "u32 \<Rightarrow> state \<Rightarrow> state res" where
  "execSpecial2 inst s = (let f = funct_of inst; a = gpr s (rs_of inst); b = gpr s (rt_of inst); rd = rd_of inst;
       y = scast a * scast b :: u64; acc = madd_acc s
     in rbind (if f = 0x0 then Inr (set_hilo (y + acc) s)
          else if f = 0x1 then Inr (set_hilo (ucast a * ucast b + acc) s)
          else if f = 0x2 then Inr (set_gpr rd (lo32 y) s)
          else if f = 0x4 then Inr (set_hilo (acc - y) s)
          else if f = 0x20 then Inr (set_gpr rd (if a = 0 then 32 else clz32 a) s)
          else Inl Exit) (\<lambda>s1. Inr (next_insn s1)))"

definition execSpecial3 :: "u32 \<Rightarrow> state \<Rightarrow> state res" where
  "execSpecial3 inst s = (let f = funct_of inst; op = sa_of inst; rt = rt_of inst; rs = rs_of inst; rd = rd_of inst
     in rbind (if f = 32 then
            (if op = 0x10 then Inr (set_gpr rd (scast (ucast (gpr s rt) :: u8)) s)
             else if op = 0x18 then Inr (set_gpr rd (scast (ucast (gpr s rt) :: u16)) s)
             else Inl Exit)
          else if f = 0 then (let size = rd + 1 in ensure Undefined (size < 32)
            (Inr (set_gpr rt (signed_drop_bit op (gpr s rs) AND (push_bit size 1 - 1)) s)))
          else if f = 4 then (let size = of_nat rd - of_nat op + 1 :: u32
             in ensure Undefined (unat size < 32)
               (let m = push_bit (unat size) 1 - 1; cmask = NOT (push_bit op m);
                    v = push_bit op (gpr s rs AND m)
                in Inr (set_gpr rt ((gpr s rt AND cmask) OR v) s)))
          else Inl Exit) (\<lambda>s1. Inr (next_insn s1)))"

section \<open>Jumps, coprocessors and immediate instructions\<close>

definition execJType :: "(state \<Rightarrow> state res) \<Rightarrow> u32 \<Rightarrow> state \<Rightarrow> state res" where
  "execJType slot inst s = (let idx = hidx (icnt s - 1); opcode = opcode_of inst
     in rbind (if opcode = 0x2 then Inr (next_insn (upd_hist idx (\<lambda>h. h\<lparr>h_branch := True, h_took := True\<rparr>) s))
          else if opcode = 0x3 then
            Inr (next_insn (set_gpr 31 (pc s + 8) (upd_hist idx (\<lambda>h. h\<lparr>h_branch := True, h_took := True\<rparr>) s)))
          else Inl Exit)
       (\<lambda>s1. let jaddr = push_bit 2 (inst AND mask 26) OR (pc s1 AND NOT (mask 28))
         in rbind (slot s1) (\<lambda>s2. Inr (upd_hist idx (\<lambda>h. h\<lparr>h_next_pc := jaddr\<rparr>) (s2\<lparr>pc := jaddr\<rparr>)))))"

definition execCoproc0 :: "u32 \<Rightarrow> state \<Rightarrow> state res" where
  "execCoproc0 inst s = (let rs = rs_of inst; rt = rt_of inst; rd = rd_of inst
     in if rs = 0 then alu rt (cpr0 s rd) s
        else if rs = 4 then Inr (next_insn (s\<lparr>cpr0 := (cpr0 s)(rd := gpr s rt)\<rparr>))
        else Inl Exit)"

definition coproc1_op :: "params \<Rightarrow> u32 \<Rightarrow> state \<Rightarrow> state res" where
  "coproc1_op P inst s = (let lowop = fld inst 0 6
     in if lowop = 0x0 then fadd_insn P inst s
        else if lowop = 0x1 then fsub_insn P inst s
        else if lowop = 0x2 then fmul_insn P inst s
        else if lowop = 0x3 then fdiv_insn P inst s
        else if lowop = 0x4 then fsqrt_insn P inst s
        else if lowop = 0x5 then fabs_insn inst s
        else if lowop = 0x6 then fmov_insn inst s
        else if lowop = 0x7 then fneg_insn inst s
        else if lowop = 0x9 then Inl Die
        else if lowop = 0xd then truncw P inst s
        else if lowop = 0x11 then fmovc_insn inst s
        else if lowop = 0x12 then fmovz_insn inst s
        else if lowop = 0x13 then fmovn_insn inst s
        else if lowop = 0x15 then frecip_insn P inst s
        else if lowop = 0x16 then frsqrt_insn P inst s
        else if lowop = 0x20 then cvts P inst s
        else if lowop = 0x21 then cvtd P inst s
        else Inl Exit)"

definition execCoproc1 :: "params \<Rightarrow> (state \<Rightarrow> state res) \<Rightarrow> u32 \<Rightarrow> state \<Rightarrow> state res" where
  "execCoproc1 P slot inst s = (let functField = fld inst 21 5; lowop = fld inst 0 6; nd_tf = fld inst 16 2;
       lowbits = fld inst 0 11
     in if functField = 0x8 then
          (if nd_tf = 0 then branch Bc1f slot inst s
           else if nd_tf = 1 then branch Bc1t slot inst s
           else if nd_tf = 2 then branch Bc1fl slot inst s
           else branch Bc1tl slot inst s)
        else if lowbits = 0 \<and> (functField = 0x0 \<or> functField = 0x4) then
          (if functField = 0x0 then exec_mfc1 inst s else exec_mtc1 inst s)
        else if lowop div 16 = 3 then c_insn inst s
        else coproc1_op P inst s)"

definition itype_alu :: "u32 \<Rightarrow> state \<Rightarrow> state res" where
  "itype_alu inst s = (let opcode = opcode_of inst; rt = rt_of inst; a = gpr s (rs_of inst)
     in if opcode = 0x08 then alu rt (a + simm inst) s
        else if opcode = 0x09 then alu rt (a + simm inst) s
        else if opcode = 0x0A then alu rt (of_bool (sint a < sint (simm inst))) s
        else if opcode = 0x0B then alu rt (of_bool (a < simm inst)) s
        else if opcode = 0x0c then alu rt (a AND uimm inst) s
        else if opcode = 0x0d then alu rt (a OR uimm inst) s
        else if opcode = 0x0e then alu rt (a XOR uimm inst) s
        else if opcode = 0x0F then alu rt (push_bit 16 (uimm inst)) s
        else Inl Exit)"

definition itype_branch :: "(state \<Rightarrow> state res) \<Rightarrow> u32 \<Rightarrow> state \<Rightarrow> state res" where
  "itype_branch slot inst s = (let opcode = opcode_of inst
     in if opcode = 0x01 then bgez_bltz slot inst s
        else if opcode = 0x04 then branch Beq slot inst s
        else if opcode = 0x05 then branch Bne slot inst s
        else if opcode = 0x06 then branch Blez slot inst s
        else if opcode = 0x07 then branch Bgtz slot inst s
        else if opcode = 0x14 then branch Beql slot inst s
        else if opcode = 0x16 then branch Blezl slot inst s
        else if opcode = 0x15 then branch Bnel slot inst s
        else if opcode = 0x17 then branch Bgtzl slot inst s
        else Inl Exit)"

definition itype_mem :: "params \<Rightarrow> u32 \<Rightarrow> state \<Rightarrow> state res" where
  "itype_mem P inst s = (let opcode = opcode_of inst
     in if opcode = 0x20 then exec_lb P inst s
        else if opcode = 0x21 then exec_lh P inst s
        else if opcode = 0x22 then exec_lwl P inst s
        else if opcode = 0x23 then exec_lw P inst s
        else if opcode = 0x24 then exec_lbu P inst s
        else if opcode = 0x25 then exec_lhu P inst s
        else if opcode = 0x26 then exec_lwr P inst s
        else if opcode = 0x28 then exec_sb P inst s
        else if opcode = 0x29 then exec_sh P inst s
        else if opcode = 0x2a then exec_swl P inst s
        else if opcode = 0x2B then exec_sw P inst s
        else if opcode = 0x2e then exec_swr P inst s
        else if opcode = 0x31 then exec_lwc1 P inst s
        else if opcode = 0x35 then exec_ldc1 P inst s
        else if opcode = 0x39 then exec_swc1 P inst s
        else if opcode = 0x3D then exec_sdc1 P inst s
        else Inl Exit)"

definition execIType :: "params \<Rightarrow> (state \<Rightarrow> state res) \<Rightarrow> u32 \<Rightarrow> state \<Rightarrow> state res" where
  "execIType P slot inst s = (let opcode = opcode_of inst
     in if 0x20 \<le> opcode then itype_mem P inst s
        else if 0x08 \<le> opcode \<and> opcode < 0x10 then itype_alu inst s
        else itype_branch slot inst s)"

section \<open>The step\<close>

definition fetch_hist :: "state \<Rightarrow> state" where
  "fetch_hist s = (upd_hist (hidx (icnt s)) (\<lambda>h. h\<lparr>h_fetch_pc := pc s, h_next_pc := pc s + 4, h_branch := False,
     h_likely := False, h_took := False, h_icnt := icnt s\<rparr>) s)\<lparr>icnt := icnt s + 1\<rparr>"

definition exec_insn :: "params \<Rightarrow> (state \<Rightarrow> state res) \<Rightarrow> u32 \<Rightarrow> state \<Rightarrow> state res" where
  "exec_insn P slot inst s = (case getInsnType inst of
     Rtype \<Rightarrow> execRType P slot inst s
   | Special2 \<Rightarrow> execSpecial2 inst s
   | Special3 \<Rightarrow> execSpecial3 inst s
   | Jtype \<Rightarrow> execJType slot inst s
   | Cp0 \<Rightarrow> execCoproc0 inst s
   | Cp1 \<Rightarrow> execCoproc1 P slot inst s
   | Cp1x \<Rightarrow> execCoproc1x P inst s
   | Cp2 \<Rightarrow> Inl Exit
   | Ll \<Rightarrow> exec_lw P inst s
   | Sc \<Rightarrow> exec_sc P inst s
   | Itype \<Rightarrow> execIType P slot inst s)"

fun execMips :: "params \<Rightarrow> nat \<Rightarrow> state \<Rightarrow> state res" where
  "execMips P k s = (if brk s \<noteq> 0 then Inr s else case k of 0 \<Rightarrow> Inl OutOfFuel
     | Suc k1 \<Rightarrow> get_with (get32 (pc s)) s (\<lambda>w s1. exec_insn P (execMips P k1) (bswap32 w) (fetch_hist s1)))"

declare execMips.simps [simp del]

end
