(* ===== verification/Interp_Mem_Proofs.thy ===== *)
theory Interp_Mem_Proofs
  imports Interp_Mem Mem_Proofs
begin

text \<open>
  The loads and stores of the interpreter against the big-endian view of memory: a word at an
  address is the four bytes from it on, the most significant first.
\<close>

definition be32 :: "sparse_mem \<Rightarrow> nat \<Rightarrow> u32" where
  "be32 m a = le32 (byte_at m (a + 3)) (byte_at m (a + 2)) (byte_at m (a + 1)) (byte_at m a)"

definition be16 :: "sparse_mem \<Rightarrow> nat \<Rightarrow> u16" where
  "be16 m a = le16 (byte_at m (a + 1)) (byte_at m a)"

section \<open>Words as bytes\<close>

lemma u32_cases:
  fixes n :: nat
  assumes "n < 32"
  obtains "n < 8" | "8 \<le> n" "n < 16" | "16 \<le> n" "n < 24" | "24 \<le> n" "n < 32"
  using assms by linarith

lemma masks:
  "(x :: u32) AND 0xff = x AND mask 8" "x AND 0xffff = x AND mask 16" "x AND 0xffffff = x AND mask 24"
  "x AND 0xffffff00 = x AND NOT (mask 8)" "x AND 0xffff0000 = x AND NOT (mask 16)" "x AND 0xff000000 = x AND NOT (mask 24)"
  "x AND 0xfffffffc = x AND NOT (mask 2)"
proof -
  have e: "(0xffffff00 :: u32) = - 256" "(0xffff0000 :: u32) = - 65536" "(0xff000000 :: u32) = - 16777216"
      "(0xfffffffc :: u32) = - 4"
    by (simp_all only: word_uint_eq_iff) simp_all
  show "x AND 0xffffff00 = x AND NOT (mask 8)" "x AND 0xffff0000 = x AND NOT (mask 16)"
      "x AND 0xff000000 = x AND NOT (mask 24)" "x AND 0xfffffffc = x AND NOT (mask 2)"
    by (simp_all only: e mask_eq_exp_minus_1) simp_all
qed (simp_all add: mask_eq_exp_minus_1)

named_theorems le32_bits \<open>masked and shifted words as bytes\<close>

lemma bit_le32: "bit (le32 b0 b1 b2 b3) n \<longleftrightarrow> (if n < 8 then bit b0 n else if n < 16 then bit b1 (n - 8)
    else if n < 24 then bit b2 (n - 16) else n < 32 \<and> bit b3 (n - 24))"
  by (auto simp: le32_def bit_simps dest: bit_imp_le_length)

lemma le32_masks [le32_bits]:
  "push_bit 8 (le32 b0 b1 b2 b3 AND mask 24) OR (le32 c0 c1 c2 c3 AND mask 8) = le32 c0 b0 b1 b2"
  "push_bit 16 (le32 b0 b1 b2 b3 AND mask 16) OR (le32 c0 c1 c2 c3 AND mask 16) = le32 c0 c1 b0 b1"
  "push_bit 24 (le32 b0 b1 b2 b3 AND mask 24) OR (le32 c0 c1 c2 c3 AND mask 24) = le32 c0 c1 c2 b0"
  "(le32 c0 c1 c2 c3 AND NOT (mask 8)) OR drop_bit 24 (le32 b0 b1 b2 b3) = le32 b3 c1 c2 c3"
  "(le32 c0 c1 c2 c3 AND NOT (mask 16)) OR drop_bit 16 (le32 b0 b1 b2 b3) = le32 b2 b3 c2 c3"
  "(le32 c0 c1 c2 c3 AND NOT (mask 24)) OR drop_bit 8 (le32 b0 b1 b2 b3) = le32 b1 b2 b3 c3"
  by (rule bit_word_eqI, simp, erule u32_cases;
      simp add: bit_simps bit_le32; fastforce dest: bit_imp_le_length)+

lemma le32_cong_byte: "x = le32 (byte 0 x) (byte 1 x) (byte 2 x) (byte 3 x)"
  by simp

lemma bswap32_le32 [simp]: "bswap32 (le32 b0 b1 b2 b3) = le32 b3 b2 b1 b0"
  by (simp add: bswap32_def)

lemma bswap16_le16 [simp]: "bswap16 (le16 b0 b1) = le16 b1 b0"
  by (simp add: bswap16_def)

section \<open>Memory seen through its bytes\<close>

definition same_mem :: "sparse_mem \<Rightarrow> sparse_mem \<Rightarrow> bool" where
  "same_mem m m' \<longleftrightarrow> wf_mem m' \<and> npages m' = npages m \<and> byte_at m' = byte_at m"

definition stored :: "nat \<Rightarrow> u8 list \<Rightarrow> sparse_mem \<Rightarrow> sparse_mem \<Rightarrow> bool" where
  "stored a bs m m' \<longleftrightarrow> wf_mem m' \<and> npages m' = npages m
     \<and> byte_at m' = (\<lambda>x. if a \<le> x \<and> x < a + length bs then bs ! (x - a) else byte_at m x)"

definition plain :: "nat \<Rightarrow> u32 \<Rightarrow> state \<Rightarrow> bool" where
  "plain n a s \<longleftrightarrow> wf_mem (mem s) \<and> fits (mem s) n a \<and> l1d s = []"

lemma same_mem_be: "same_mem m m' \<Longrightarrow> be32 m' a = be32 m a" "same_mem m m' \<Longrightarrow> be16 m' a = be16 m a"
  by (simp_all add: same_mem_def be32_def be16_def)

lemma fits_cong: "npages m' = npages m \<Longrightarrow> fits m' = fits m"
  by (simp add: fits_def mem_limit_def fun_eq_iff)

lemma upt_nat: "[0..<1] = [0]" "[0..<2] = [0, 1]" "[0..<4] = [0, 1, 2, 3::nat]" "[0..<8] = [0, 1, 2, 3, 4, 5, 6, 7::nat]"
  by (simp_all add: upt_rec)

lemma get32_be:
  assumes "wf_mem m" "fits m 4 a"
  obtains m' where "get32 a m = Inr (m', bswap32 (be32 m (unat a)))" "same_mem m m'"
  using get_bytes_ok[OF assms] by (auto simp: get32_def le32_list_def upt_nat be32_def same_mem_def)

lemma get16_be:
  assumes "wf_mem m" "fits m 2 a"
  obtains m' where "get16 a m = Inr (m', bswap16 (be16 m (unat a)))" "same_mem m m'"
  using get_bytes_ok[OF assms] by (auto simp: get16_def upt_nat be16_def same_mem_def)

lemma get8_be:
  assumes "wf_mem m" "fits m 1 a"
  obtains m' where "get8 a m = Inr (m', byte_at m (unat a))" "same_mem m m'"
  using get_bytes_ok[OF assms] by (auto simp: get8_def upt_nat same_mem_def)

definition be_bytes :: "u32 \<Rightarrow> u8 list" where
  "be_bytes w = [byte 3 w, byte 2 w, byte 1 w, byte 0 w]"

lemma length_be_bytes [simp]: "length (be_bytes w) = 4"
  by (simp add: be_bytes_def)

lemma bytes_bswap: "bytes32 (bswap32 w) = be_bytes w" "bytes16 (bswap16 h) = [byte 1 h, byte 0 h]"
  by (simp_all add: bytes32_def bswap32_def be_bytes_def bytes16_def bswap16_def)

lemma set_bytes_stored:
  assumes "wf_mem m" "fits m (length bs) a"
  shows "\<exists>m'. set_bytes a bs m = Inr m' \<and> stored (unat a) bs m m'"
  using set_bytes_ok[OF assms] by (simp add: stored_def)

lemma set32_be:
  assumes "wf_mem m" "fits m 4 a"
  obtains m' where "set32 a (bswap32 w) m = Inr m'" "stored (unat a) (be_bytes w) m m'"
  using set_bytes_stored[of m "be_bytes w" a] assms
  by (auto simp: set32_def bytes_bswap)

lemma set16_be:
  assumes "wf_mem m" "fits m 2 a"
  obtains m' where "set16 a (bswap16 h) m = Inr m'" "stored (unat a) [byte 1 h, byte 0 h] m m'"
  using set_bytes_stored[of m "[byte 1 h, byte 0 h]" a] assms
  by (auto simp: set16_def bytes_bswap numeral_2_eq_2)

lemma set8_be:
  assumes "wf_mem m" "fits m 1 a"
  obtains m' where "set8 a b m = Inr m'" "stored (unat a) [b] m m'"
  using set_bytes_stored[of m "[b]" a] assms
  by (auto simp: set8_def)

section \<open>Single loads and stores\<close>

lemmas exec_simps = get_with_def put_with_def l1d_read_def l1d_write_def next_insn_def set_gpr_def plain_def

lemma exec_lw_ok:
  assumes "plain 4 (eff_addr inst s) s"
  obtains m where "same_mem (mem s) m"
    "exec_lw P inst s = Inr (next_insn (set_gpr (rt_of inst) (be32 (mem s) (unat (eff_addr inst s))) (s\<lparr>mem := m\<rparr>)))"
proof -
  obtain m where "get32 (eff_addr inst s) (mem s) = Inr (m, bswap32 (be32 (mem s) (unat (eff_addr inst s))))"
      "same_mem (mem s) m"
    using get32_be[of "mem s" "eff_addr inst s"] assms unfolding plain_def by blast
  then show ?thesis using assms by (intro that) (simp_all add: exec_lw_def exec_simps Let_def)
qed

lemma exec_sw_ok:
  assumes "plain 4 (eff_addr inst s) s"
  obtains m where "stored (unat (eff_addr inst s)) (be_bytes (gpr s (rt_of inst))) (mem s) m"
    "exec_sw P inst s = Inr (next_insn (s\<lparr>mem := m\<rparr>))"
proof -
  obtain m where "set32 (eff_addr inst s) (bswap32 (gpr s (rt_of inst))) (mem s) = Inr m"
      "stored (unat (eff_addr inst s)) (be_bytes (gpr s (rt_of inst))) (mem s) m"
    using set32_be[of "mem s" "eff_addr inst s" "gpr s (rt_of inst)"] assms unfolding plain_def by blast
  then show ?thesis using assms by (intro that) (simp_all add: exec_sw_def exec_simps Let_def)
qed

lemma exec_lhalf_ok:
  assumes "plain 2 (eff_addr inst s) s"
  obtains m where "same_mem (mem s) m"
    "exec_lh P inst s = Inr (next_insn (set_gpr (rt_of inst) (scast (be16 (mem s) (unat (eff_addr inst s)))) (s\<lparr>mem := m\<rparr>)))"
    "exec_lhu P inst s = Inr (next_insn (set_gpr (rt_of inst) (ucast (be16 (mem s) (unat (eff_addr inst s)))) (s\<lparr>mem := m\<rparr>)))"
proof -
  obtain m where "get16 (eff_addr inst s) (mem s) = Inr (m, bswap16 (be16 (mem s) (unat (eff_addr inst s))))"
      "same_mem (mem s) m"
    using get16_be[of "mem s" "eff_addr inst s"] assms unfolding plain_def by blast
  then show ?thesis using assms by (intro that) (simp_all add: exec_lh_def exec_lhu_def exec_simps Let_def)
qed

lemma byte_ucast_u16: "byte 1 (ucast w :: u16) = byte 1 (w :: u32)" "byte 0 (ucast w :: u16) = byte 0 (w :: u32)"
  by (rule bit_word_eqI; auto simp: byte_def bit_simps)+

lemma exec_sh_ok:
  assumes "plain 2 (eff_addr inst s) s"
  obtains m where "stored (unat (eff_addr inst s)) [byte 1 (gpr s (rt_of inst)), byte 0 (gpr s (rt_of inst))] (mem s) m"
    "exec_sh P inst s = Inr (next_insn (s\<lparr>mem := m\<rparr>))"
proof -
  obtain m where "set16 (eff_addr inst s) (bswap16 (ucast (gpr s (rt_of inst)))) (mem s) = Inr m"
      "stored (unat (eff_addr inst s)) [byte 1 (gpr s (rt_of inst)), byte 0 (gpr s (rt_of inst))] (mem s) m"
    using set16_be[of "mem s" "eff_addr inst s" "ucast (gpr s (rt_of inst))"] assms
    unfolding plain_def byte_ucast_u16 by blast
  then show ?thesis using assms by (intro that) (simp_all add: exec_sh_def exec_simps Let_def)
qed

lemma exec_lbyte_ok:
  assumes "plain 1 (eff_addr inst s) s"
  obtains m where "same_mem (mem s) m"
    "exec_lb P inst s = Inr (next_insn (set_gpr (rt_of inst) (scast (byte_at (mem s) (unat (eff_addr inst s)))) (s\<lparr>mem := m\<rparr>)))"
    "exec_lbu P inst s = Inr (next_insn (set_gpr (rt_of inst) (ucast (byte_at (mem s) (unat (eff_addr inst s)))) (s\<lparr>mem := m\<rparr>)))"
proof -
  obtain m where "get8 (eff_addr inst s) (mem s) = Inr (m, byte_at (mem s) (unat (eff_addr inst s)))"
      "same_mem (mem s) m"
    using get8_be[of "mem s" "eff_addr inst s"] assms unfolding plain_def by blast
  then show ?thesis using assms by (intro that) (simp_all add: exec_lb_def exec_lbu_def exec_simps Let_def)
qed

lemma exec_sb_ok:
  assumes "plain 1 (eff_addr inst s) s"
  obtains m where "stored (unat (eff_addr inst s)) [byte 0 (gpr s (rt_of inst))] (mem s) m"
    "exec_sb P inst s = Inr (next_insn (s\<lparr>mem := m\<rparr>))"
proof -
  obtain m where "set8 (eff_addr inst s) (ucast (gpr s (rt_of inst))) (mem s) = Inr m"
      "stored (unat (eff_addr inst s)) [byte 0 (gpr s (rt_of inst))] (mem s) m"
    using set8_be[of "mem s" "eff_addr inst s" "ucast (gpr s (rt_of inst))"] assms
    unfolding plain_def by (auto simp: byte_def)
  then show ?thesis using assms by (intro that) (simp_all add: exec_sb_def exec_simps Let_def)
qed

section \<open>Unaligned words\<close>

lemma all4: "(\<forall>j < (4::nat). Q j) \<longleftrightarrow> Q 0 \<and> Q 1 \<and> Q 2 \<and> Q 3"
proof -
  have "j < 4 \<longleftrightarrow> j = 0 \<or> j = 1 \<or> j = 2 \<or> j = 3" for j :: nat by linarith
  then show ?thesis by auto
qed

lemma u32_eqI:
  fixes x y :: u32
  assumes "\<forall>j < 4. byte j x = byte j y"
  shows "x = y"
proof -
  have h: "byte 0 x = byte 0 y" "byte (Suc 0) x = byte (Suc 0) y" "byte 2 x = byte 2 y" "byte 3 x = byte 3 y"
    using assms by simp_all
  have "x = le32 (byte 0 x) (byte (Suc 0) x) (byte 2 x) (byte 3 x)" by (simp only: le32_byte)
  also have "\<dots> = y" by (simp only: h le32_byte)
  finally show ?thesis .
qed

lemma low2: "unat (a AND 3 :: u32) = unat a mod 4"
  using unat_and_pow2[of a 2] by simp

lemma low2_eq: "a AND 3 = (0 :: u32) \<longleftrightarrow> unat a mod 4 = 0" "a AND 3 = (1 :: u32) \<longleftrightarrow> unat a mod 4 = 1"
    "a AND 3 = (2 :: u32) \<longleftrightarrow> unat a mod 4 = 2"
  by (simp_all only: word_unat_eq_iff low2) simp_all

lemma align4: "unat (a AND 0xfffffffc :: u32) = unat a - unat a mod 4"
proof -
  have e: "a AND 0xfffffffc = push_bit 2 (drop_bit 2 a)"
  proof (rule bit_word_eqI)
    fix n assume "n < LENGTH(32)"
    then show "bit (a AND 0xfffffffc) n = bit (push_bit 2 (drop_bit 2 a)) n"
    proof (cases "2 \<le> n")
      case True
      then obtain k where "n = 2 + k" using le_Suc_ex by blast
      then show ?thesis using \<open>n < LENGTH(32)\<close> by (simp add: bit_simps masks)
    qed (simp add: bit_simps masks)
  qed
  have lt: "unat a < 2 ^ 32" using unsigned_less[of a, where ?'a = nat] by simp
  have h: "take_bit 32 (unat a) = unat a" "take_bit 32 (unat a div 4 * 4) = unat a div 4 * 4"
    using lt by (simp_all only: take_bit_nat_eq_self_iff)
  have "unat (push_bit 2 (drop_bit 2 a)) = unat a div 4 * 4"
    by (simp add: unsigned_push_bit_eq unsigned_drop_bit_eq push_bit_nat_def drop_bit_nat_def h)
  then show ?thesis unfolding e by (metis minus_mod_eq_div_mult)
qed

lemma fits_aligned:
  assumes "unat a < mem_limit m"
  shows "fits m 4 (a AND 0xfffffffc)"
proof -
  have "(unat a - unat a mod 4) mod 4096 = 4 * (unat a div 4 mod 1024)"
    by (simp add: minus_mod_eq_mult_div mult_mod_right)
  then have "(unat a - unat a mod 4) mod 4096 + 4 \<le> 4096"
    using mod_less_divisor[of 1024 "unat a div 4"] by linarith
  moreover have "unat a - unat a mod 4 < mem_limit m" using assms by simp
  ultimately show ?thesis by (simp add: fits_def align4 pgsize_def)
qed

text \<open>What the two halves of an unaligned load leave in the register.\<close>

definition left_bytes :: "sparse_mem \<Rightarrow> nat \<Rightarrow> u32 \<Rightarrow> u32 \<Rightarrow> bool" where
  "left_bytes m a x y \<longleftrightarrow> (\<forall>j < 4. byte j y = (if a mod 4 \<le> j then byte_at m (a + 3 - j) else byte j x))"

definition right_bytes :: "sparse_mem \<Rightarrow> nat \<Rightarrow> u32 \<Rightarrow> u32 \<Rightarrow> bool" where
  "right_bytes m a x y \<longleftrightarrow> (\<forall>j < 4. byte j y = (if j \<le> a mod 4 then byte_at m (a - j) else byte j x))"

lemma mod4_cases:
  fixes a :: nat
  obtains A where "a mod 4 = 0" "a = A" | A where "a mod 4 = 1" "a = A + 1"
    | A where "a mod 4 = 2" "a = A + 2" | A where "a mod 4 = 3" "a = A + 3"
proof -
  have "a mod 4 = 0 \<or> a mod 4 = 1 \<or> a mod 4 = 2 \<or> a mod 4 = 3" by linarith
  moreover have "a = (a - a mod 4) + a mod 4" by simp
  ultimately show ?thesis using that by metis
qed

lemma lwl_merge:
  fixes r x e :: u32
  assumes "r = le32 b0 b1 b2 b3" "x = le32 c0 c1 c2 c3"
  shows "(if e AND 3 = 0 then r
     else if e AND 3 = 1 then push_bit 8 (r AND 0x00ffffff) OR (x AND 0x000000ff)
     else if e AND 3 = 2 then push_bit 16 (r AND 0x0000ffff) OR (x AND 0x0000ffff)
     else push_bit 24 (r AND 0x00ffffff) OR (x AND 0x00ffffff)) =
   (if unat e mod 4 = 0 then le32 b0 b1 b2 b3 else if unat e mod 4 = 1 then le32 c0 b0 b1 b2
    else if unat e mod 4 = 2 then le32 c0 c1 b0 b1 else le32 c0 c1 c2 b0)"
  unfolding assms by (simp only: low2_eq masks le32_masks)

lemma lwr_merge:
  fixes r x e :: u32
  assumes "r = le32 b0 b1 b2 b3" "x = le32 c0 c1 c2 c3"
  shows "(if e AND 3 = 0 then (x AND 0xffffff00) OR drop_bit 24 r
     else if e AND 3 = 1 then (x AND 0xffff0000) OR drop_bit 16 r
     else if e AND 3 = 2 then (x AND 0xff000000) OR drop_bit 8 r
     else r) =
   (if unat e mod 4 = 0 then le32 b3 c1 c2 c3 else if unat e mod 4 = 1 then le32 b2 b3 c2 c3
    else if unat e mod 4 = 2 then le32 b1 b2 b3 c3 else le32 b0 b1 b2 b3)"
  unfolding assms by (simp only: low2_eq masks le32_masks)

definition lwl_value :: "u8 list \<Rightarrow> nat \<Rightarrow> u32 \<Rightarrow> u32" where
  "lwl_value b k x = (if k = 0 then le32 (b ! 0) (b ! 1) (b ! 2) (b ! 3)
     else if k = 1 then le32 (byte 0 x) (b ! 0) (b ! 1) (b ! 2)
     else if k = 2 then le32 (byte 0 x) (byte (Suc 0) x) (b ! 0) (b ! 1)
     else le32 (byte 0 x) (byte (Suc 0) x) (byte 2 x) (b ! 0))"

definition be_list :: "sparse_mem \<Rightarrow> nat \<Rightarrow> u8 list" where
  "be_list m a = [byte_at m (a + 3), byte_at m (a + 2), byte_at m (a + 1), byte_at m a]"

lemma be32_list: "be32 m a = le32 (be_list m a ! 0) (be_list m a ! 1) (be_list m a ! 2) (be_list m a ! 3)"
  by (simp add: be32_def be_list_def)

lemma exec_lwl_eq:
  assumes "get32 (e AND 0xfffffffc) (mem s) = Inr (m, bswap32 (be32 (mem s) A))" "l1d s = []" "e = eff_addr inst s"
  shows "exec_lwl P inst s = Inr (next_insn (set_gpr (rt_of inst)
    (lwl_value (be_list (mem s) A) (unat e mod 4) (gpr s (rt_of inst))) (s\<lparr>mem := m\<rparr>)))"
  unfolding lwl_value_def lwl_merge[OF be32_list[of "mem s" A] le32_byte[symmetric, of "gpr s (rt_of inst)"], symmetric]
  using assms by (simp add: exec_lwl_def exec_simps)

lemma left_bytes_lwl: "left_bytes m a x (lwl_value (be_list m (a - a mod 4)) (a mod 4) x)"
  by (cases a rule: mod4_cases) (simp_all add: left_bytes_def all4 lwl_value_def be_list_def add.commute)

lemma exec_lwl_ok:
  assumes "wf_mem (mem s)" "l1d s = []" "unat (eff_addr inst s) < mem_limit (mem s)"
  obtains m y where "same_mem (mem s) m" "left_bytes (mem s) (unat (eff_addr inst s)) (gpr s (rt_of inst)) y"
    "exec_lwl P inst s = Inr (next_insn (set_gpr (rt_of inst) y (s\<lparr>mem := m\<rparr>)))"
proof -
  obtain m where m: "get32 (eff_addr inst s AND 0xfffffffc) (mem s) = Inr (m, bswap32 (be32 (mem s)
      (unat (eff_addr inst s) - unat (eff_addr inst s) mod 4)))" "same_mem (mem s) m"
    using get32_be[OF assms(1) fits_aligned[OF assms(3)]] unfolding align4 by blast
  show ?thesis by (rule that[OF m(2) left_bytes_lwl exec_lwl_eq[OF m(1) assms(2) refl]])
qed

definition lwr_value :: "u8 list \<Rightarrow> nat \<Rightarrow> u32 \<Rightarrow> u32" where
  "lwr_value b k x = (if k = 0 then le32 (b ! 3) (byte (Suc 0) x) (byte 2 x) (byte 3 x)
     else if k = 1 then le32 (b ! 2) (b ! 3) (byte 2 x) (byte 3 x)
     else if k = 2 then le32 (b ! 1) (b ! 2) (b ! 3) (byte 3 x)
     else le32 (b ! 0) (b ! 1) (b ! 2) (b ! 3))"

lemma exec_lwr_eq:
  assumes "get32 (e AND 0xfffffffc) (mem s) = Inr (m, bswap32 (be32 (mem s) A))" "l1d s = []" "e = eff_addr inst s"
  shows "exec_lwr P inst s = Inr (next_insn (set_gpr (rt_of inst)
    (lwr_value (be_list (mem s) A) (unat e mod 4) (gpr s (rt_of inst))) (s\<lparr>mem := m\<rparr>)))"
  unfolding lwr_value_def lwr_merge[OF be32_list[of "mem s" A] le32_byte[symmetric, of "gpr s (rt_of inst)"], symmetric]
  using assms by (simp add: exec_lwr_def exec_simps)

lemma right_bytes_lwr: "right_bytes m a x (lwr_value (be_list m (a - a mod 4)) (a mod 4) x)"
  by (cases a rule: mod4_cases) (simp_all add: right_bytes_def all4 lwr_value_def be_list_def add.commute)

lemma exec_lwr_ok:
  assumes "wf_mem (mem s)" "l1d s = []" "unat (eff_addr inst s) < mem_limit (mem s)"
  obtains m y where "same_mem (mem s) m" "right_bytes (mem s) (unat (eff_addr inst s)) (gpr s (rt_of inst)) y"
    "exec_lwr P inst s = Inr (next_insn (set_gpr (rt_of inst) y (s\<lparr>mem := m\<rparr>)))"
proof -
  obtain m where m: "get32 (eff_addr inst s AND 0xfffffffc) (mem s) = Inr (m, bswap32 (be32 (mem s)
      (unat (eff_addr inst s) - unat (eff_addr inst s) mod 4)))" "same_mem (mem s) m"
    using get32_be[OF assms(1) fits_aligned[OF assms(3)]] unfolding align4 by blast
  show ?thesis by (rule that[OF m(2) right_bytes_lwr exec_lwr_eq[OF m(1) assms(2) refl]])
qed

lemma left_right_word:
  assumes "left_bytes m a x y" "right_bytes m' (a + 3) y z" "byte_at m' = byte_at m"
  shows "z = be32 m a"
proof (rule u32_eqI, intro allI impI)
  fix j :: nat assume j: "j < 4"
  have "j = 0 \<or> j = 1 \<or> j = 2 \<or> j = 3" using j by linarith
  then have "byte j (be32 m a) = byte_at m (a + 3 - j)" by (elim disjE) (simp_all add: be32_def)
  moreover have "byte j z = byte_at m (a + 3 - j)"
  proof (cases "j \<le> (a + 3) mod 4")
    case False
    have "a mod 4 \<le> j" using False j by presburger
    then show ?thesis using False j assms by (simp add: left_bytes_def right_bytes_def)
  qed (use j assms in \<open>simp add: right_bytes_def\<close>)
  ultimately show "byte j z = byte j (be32 m a)" by simp
qed

section \<open>Unaligned stores\<close>

text \<open>The aligned word after \<open>swl\<close> (not at offset zero) and \<open>swr\<close>.\<close>

lemma push_mask: "push_bit n (1 :: u32) - 1 = mask n"
  by (simp only: mask_eq_exp_minus_1 push_bit_of_1)

lemma swl_merge:
  fixes r x :: u32
  assumes "r = le32 b0 b1 b2 b3" "x = le32 c0 c1 c2 c3" "0 < k" "k < 4"
  shows "(r AND NOT (push_bit (8 * (4 - k)) 1 - 1)) OR drop_bit (8 * k) x =
    (if k = 1 then le32 c1 c2 c3 b3 else if k = 2 then le32 c2 c3 b2 b3 else le32 c3 b1 b2 b3)"
proof -
  have n: "8 * (4 - 1) = (24::nat)" "8 * (4 - 2) = (16::nat)" "8 * (4 - 3) = (8::nat)"
      "8 * 1 = (8::nat)" "8 * 2 = (16::nat)" "8 * 3 = (24::nat)" "(2::nat) \<noteq> 1" "(3::nat) \<noteq> 1" "(3::nat) \<noteq> 2" by simp_all
  have "k = 1 \<or> k = 2 \<or> k = 3" using assms by auto
  then show ?thesis unfolding assms(1,2) push_mask
    by (elim disjE) (simp_all only: n le32_masks simp_thms if_True if_False)
qed

lemma le32_shifts:
  "push_bit 8 (le32 b0 b1 b2 b3) OR (mask 8 AND le32 c0 c1 c2 c3) = le32 c0 b0 b1 b2"
  "push_bit 16 (le32 b0 b1 b2 b3) OR (mask 16 AND le32 c0 c1 c2 c3) = le32 c0 c1 b0 b1"
  "push_bit 24 (le32 b0 b1 b2 b3) OR (mask 24 AND le32 c0 c1 c2 c3) = le32 c0 c1 c2 b0"
  by (rule bit_word_eqI, simp, erule u32_cases;
      simp add: bit_simps bit_le32; fastforce dest: bit_imp_le_length)+

lemma swr_merge:
  fixes r x :: u32
  assumes "r = le32 b0 b1 b2 b3" "x = le32 c0 c1 c2 c3" "k < 4"
  shows "push_bit (8 * (3 - k)) x OR ((push_bit (8 * (3 - k)) 1 - 1) AND r) =
    (if k = 0 then le32 b0 b1 b2 c0 else if k = 1 then le32 b0 b1 c0 c1 else if k = 2 then le32 b0 c0 c1 c2
     else le32 c0 c1 c2 c3)"
proof -
  have n: "8 * (3 - 0) = (24::nat)" "8 * (3 - 1) = (16::nat)" "8 * (3 - 2) = (8::nat)" "8 * (3 - 3) = (0::nat)"
      "(1::nat) \<noteq> 0" "(2::nat) \<noteq> 0" "(2::nat) \<noteq> 1" "(3::nat) \<noteq> 0" "(3::nat) \<noteq> 1" "(3::nat) \<noteq> 2" by simp_all
  have "k = 0 \<or> k = 1 \<or> k = 2 \<or> k = 3" using assms by linarith
  then show ?thesis unfolding assms(1,2) push_mask
    by (elim disjE) (simp_all only: n le32_shifts simp_thms if_True if_False mask_0 push_bit_0_id id_apply zero_and_eq or.right_neutral)
qed

lemma stored_word:
  "stored A (be_bytes w) m m' \<longleftrightarrow> wf_mem m' \<and> npages m' = npages m
     \<and> byte_at m' = (byte_at m)(A := byte 3 w, A + 1 := byte 2 w, A + 2 := byte 1 w, A + 3 := byte 0 w)"
proof -
  have "(if A \<le> x \<and> x < A + 4 then be_bytes w ! (x - A) else byte_at m x) =
      ((byte_at m)(A := byte 3 w, A + 1 := byte 2 w, A + 2 := byte 1 w, A + 3 := byte 0 w)) x" for x
  proof -
    consider "x < A" | "x = A" | "x = A + 1" | "x = A + 2" | "x = A + 3" | "A + 4 \<le> x" by linarith
    then show ?thesis by cases (simp_all add: be_bytes_def)
  qed
  then show ?thesis by (simp add: stored_def fun_eq_iff)
qed

definition left_stored :: "nat \<Rightarrow> u32 \<Rightarrow> sparse_mem \<Rightarrow> sparse_mem \<Rightarrow> bool" where
  "left_stored a w m m' \<longleftrightarrow> wf_mem m' \<and> npages m' = npages m \<and> byte_at m' =
     (\<lambda>x. if a \<le> x \<and> x < a - a mod 4 + 4 then byte (3 - (x - a)) w else byte_at m x)"

definition right_stored :: "nat \<Rightarrow> u32 \<Rightarrow> sparse_mem \<Rightarrow> sparse_mem \<Rightarrow> bool" where
  "right_stored a w m m' \<longleftrightarrow> wf_mem m' \<and> npages m' = npages m \<and> byte_at m' =
     (\<lambda>x. if a - a mod 4 \<le> x \<and> x \<le> a then byte (a - x) w else byte_at m x)"

definition swl_value :: "u8 list \<Rightarrow> nat \<Rightarrow> u32 \<Rightarrow> u32" where
  "swl_value b k x = (if k = 1 then le32 (byte (Suc 0) x) (byte 2 x) (byte 3 x) (b ! 3)
     else if k = 2 then le32 (byte 2 x) (byte 3 x) (b ! 2) (b ! 3) else le32 (byte 3 x) (b ! 1) (b ! 2) (b ! 3))"

definition swr_value :: "u8 list \<Rightarrow> nat \<Rightarrow> u32 \<Rightarrow> u32" where
  "swr_value b k x = (if k = 0 then le32 (b ! 0) (b ! 1) (b ! 2) (byte 0 x)
     else if k = 1 then le32 (b ! 0) (b ! 1) (byte 0 x) (byte (Suc 0) x)
     else if k = 2 then le32 (b ! 0) (byte 0 x) (byte (Suc 0) x) (byte 2 x)
     else le32 (byte 0 x) (byte (Suc 0) x) (byte 2 x) (byte 3 x))"

lemma be_list_nth: "i < 4 \<Longrightarrow> be_list m A ! (3 - i) = byte_at m (A + i)"
  by (auto simp: be_list_def less_Suc_eq numeral_eq_Suc)

lemma below4: "i < (4::nat) \<Longrightarrow> i = 0 \<or> i = 1 \<or> i = 2 \<or> i = 3"
  by linarith

lemma swl_nth:
  assumes "0 < k" "k < 4" "i < 4"
  shows "be_bytes (swl_value b k w) ! i = (if k \<le> i then byte (3 - (i - k)) w else b ! (3 - i))"
  using below4[OF assms(2)] below4[OF assms(3)] assms(1)
  by (elim disjE) (simp_all add: be_bytes_def swl_value_def)

lemma swr_nth:
  assumes "k < 4" "i < 4"
  shows "be_bytes (swr_value b k w) ! i = (if i \<le> k then byte (k - i) w else b ! (3 - i))"
  using below4[OF assms(1)] below4[OF assms(2)]
  by (elim disjE) (simp_all add: be_bytes_def swr_value_def)

lemma left_stored_swl:
  assumes "stored (a - a mod 4) (be_bytes (swl_value (be_list m0 (a - a mod 4)) (a mod 4) w)) m m'"
    "byte_at m = byte_at m0" "npages m = npages m0" "a mod 4 \<noteq> 0"
  shows "left_stored a w m0 m'"
proof -
  define A where "A = a - a mod 4"
  have a: "a = A + a mod 4" "a mod 4 < 4" by (simp_all add: A_def)
  have "byte_at m' x = (if a \<le> x \<and> x < A + 4 then byte (3 - (x - a)) w else byte_at m0 x)" for x
  proof (cases "A \<le> x \<and> x < A + 4")
    case True
    define i where "i = x - A"
    have i: "x = A + i" "i < 4" using True by (auto simp: i_def)
    have "byte_at m' x = (if a mod 4 \<le> i then byte (3 - (i - a mod 4)) w else byte_at m0 (A + i))"
      using assms(1,4) a(2) i unfolding A_def[symmetric] by (simp add: stored_def swl_nth be_list_nth)
    moreover have "a \<le> x \<longleftrightarrow> a mod 4 \<le> i" "x - a = i - a mod 4" using a(1) i(1) by linarith+
    ultimately show ?thesis using i by simp
  next
    case False
    then have "byte_at m' x = byte_at m0 x"
      using assms(1,2) unfolding A_def[symmetric] by (auto simp: stored_def)
    then show ?thesis using False a by auto
  qed
  then show ?thesis using assms by (simp add: left_stored_def stored_def fun_eq_iff A_def)
qed

lemma right_stored_swr:
  assumes "stored (a - a mod 4) (be_bytes (swr_value (be_list m0 (a - a mod 4)) (a mod 4) w)) m m'"
    "byte_at m = byte_at m0" "npages m = npages m0"
  shows "right_stored a w m0 m'"
proof -
  define A where "A = a - a mod 4"
  have a: "a = A + a mod 4" "a mod 4 < 4" by (simp_all add: A_def)
  have "byte_at m' x = (if A \<le> x \<and> x \<le> a then byte (a - x) w else byte_at m0 x)" for x
  proof (cases "A \<le> x \<and> x < A + 4")
    case True
    define i where "i = x - A"
    have i: "x = A + i" "i < 4" using True by (auto simp: i_def)
    have "byte_at m' x = (if i \<le> a mod 4 then byte (a mod 4 - i) w else byte_at m0 (A + i))"
      using assms(1) a(2) i unfolding A_def[symmetric] by (simp add: stored_def swr_nth be_list_nth)
    moreover have "x \<le> a \<longleftrightarrow> i \<le> a mod 4" "a - x = a mod 4 - i" using a(1) i(1) by linarith+
    ultimately show ?thesis using i by simp
  next
    case False
    then have "byte_at m' x = byte_at m0 x"
      using assms(1,2) unfolding A_def[symmetric] by (auto simp: stored_def)
    moreover have "\<not> (A \<le> x \<and> x \<le> a)" using False a by linarith
    ultimately show ?thesis by auto
  qed
  then show ?thesis using assms by (simp add: right_stored_def stored_def fun_eq_iff A_def)
qed

lemma exec_swl_ok:
  assumes "wf_mem (mem s)" "l1d s = []" "unat (eff_addr inst s) < mem_limit (mem s)" "unat (eff_addr inst s) mod 4 \<noteq> 0"
  obtains m where "left_stored (unat (eff_addr inst s)) (gpr s (rt_of inst)) (mem s) m"
    "exec_swl P inst s = Inr (next_insn (s\<lparr>mem := m\<rparr>))"
proof -
  define e where "e = eff_addr inst s"
  define w where "w = gpr s (rt_of inst)"
  define A where "A = unat e - unat e mod 4"
  define v where "v = swl_value (be_list (mem s) A) (unat e mod 4) w"
  have f: "fits (mem s) 4 (e AND 0xfffffffc)" using fits_aligned[OF assms(3)] by (simp add: e_def)
  obtain m where m: "get32 (e AND 0xfffffffc) (mem s) = Inr (m, bswap32 (be32 (mem s) A))" "same_mem (mem s) m"
    using get32_be[OF assms(1) f] unfolding align4 A_def by blast
  obtain m' where m': "set32 (e AND 0xfffffffc) (bswap32 v) m = Inr m'" "stored A (be_bytes v) m m'"
    using set32_be[of m "e AND 0xfffffffc" v] m(2) f unfolding same_mem_def align4 A_def by (metis fits_cong)
  have k: "0 < unat e mod 4" "unat e mod 4 < 4" "8 * (4 - unat e mod 4) < 32" using assms(4) by (auto simp: e_def)
  have "v = (be32 (mem s) A AND NOT (push_bit (8 * (4 - unat e mod 4)) 1 - 1)) OR drop_bit (8 * (unat e mod 4)) w"
    unfolding v_def swl_value_def
    by (rule swl_merge[OF be32_list[of "mem s" A] le32_byte[symmetric, of w] k(1,2), symmetric])
  then have "exec_swl P inst s = Inr (next_insn (s\<lparr>mem := m'\<rparr>))"
    using m(1) m'(1) k assms(2)
    by (simp add: exec_swl_def exec_simps Let_def low2 w_def[symmetric] e_def[symmetric])
  moreover have "left_stored (unat e) w (mem s) m'"
    using m'(2) m(2) assms(4) unfolding v_def A_def by (intro left_stored_swl[where m = m]) (simp_all add: same_mem_def e_def)
  ultimately show ?thesis using that by (simp add: e_def w_def)
qed

lemma exec_swr_ok:
  assumes "wf_mem (mem s)" "l1d s = []" "unat (eff_addr inst s) < mem_limit (mem s)"
  obtains m where "right_stored (unat (eff_addr inst s)) (gpr s (rt_of inst)) (mem s) m"
    "exec_swr P inst s = Inr (next_insn (s\<lparr>mem := m\<rparr>))"
proof -
  define e where "e = eff_addr inst s"
  define w where "w = gpr s (rt_of inst)"
  define A where "A = unat e - unat e mod 4"
  define v where "v = swr_value (be_list (mem s) A) (unat e mod 4) w"
  have f: "fits (mem s) 4 (e AND 0xfffffffc)" using fits_aligned[OF assms(3)] by (simp add: e_def)
  obtain m where m: "get32 (e AND 0xfffffffc) (mem s) = Inr (m, bswap32 (be32 (mem s) A))" "same_mem (mem s) m"
    using get32_be[OF assms(1) f] unfolding align4 A_def by blast
  obtain m' where m': "set32 (e AND 0xfffffffc) (bswap32 v) m = Inr m'" "stored A (be_bytes v) m m'"
    using set32_be[of m "e AND 0xfffffffc" v] m(2) f unfolding same_mem_def align4 A_def by (metis fits_cong)
  have "v = push_bit (8 * (3 - unat e mod 4)) w OR ((push_bit (8 * (3 - unat e mod 4)) 1 - 1) AND be32 (mem s) A)"
    unfolding v_def swr_value_def
    by (rule swr_merge[OF be32_list[of "mem s" A] le32_byte[symmetric, of w], symmetric]) simp
  then have "exec_swr P inst s = Inr (next_insn (s\<lparr>mem := m'\<rparr>))"
    using m(1) m'(1) assms(2)
    by (simp add: exec_swr_def exec_simps Let_def low2 w_def[symmetric] e_def[symmetric])
  moreover have "right_stored (unat e) w (mem s) m'"
    using m'(2) m(2) unfolding v_def A_def by (intro right_stored_swr[where m = m]) (simp_all add: same_mem_def)
  ultimately show ?thesis using that by (simp add: e_def w_def)
qed

lemma left_right_stored:
  assumes "left_stored a w m m1" "right_stored (a + 3) w m1 m2" "a mod 4 \<noteq> 0"
  shows "stored a (be_bytes w) m m2"
proof -
  define A where "A = a - a mod 4"
  have a: "a = A + a mod 4" "a mod 4 < 4" by (simp_all add: A_def)
  have r: "a + 3 - (a + 3) mod 4 = A + 4" unfolding A_def using assms(3) by presburger
  have "be_bytes w ! (x - a) = byte (3 - (x - a)) w" if "x < a + 4" for x
  proof -
    have "x - a < 4" using that by linarith
    from below4[OF this] show ?thesis by (elim disjE) (simp_all add: be_bytes_def)
  qed
  moreover have "a + 3 - x = 3 - (x - a)" if "a \<le> x" for x using that by linarith
  ultimately have "byte_at m2 x = (if a \<le> x \<and> x < a + 4 then be_bytes w ! (x - a) else byte_at m x)" for x
    using assms a unfolding left_stored_def right_stored_def r A_def[symmetric] by auto
  then show ?thesis using assms by (simp add: left_stored_def right_stored_def stored_def fun_eq_iff)
qed

section \<open>Properties\<close>

lemma le16_ucast: "le16 (byte 0 w) (byte 1 w) = (ucast w :: u16)" for w :: u32
  using le16_byte(2)[of "ucast w"] by (simp only: byte_ucast_u16)

lemma byte_0: "byte 0 w = ucast w"
  by (simp add: byte_def)

lemma stored_be:
  "stored a (be_bytes w) m m' \<Longrightarrow> be32 m' a = w"
  "stored a [byte 1 v, byte 0 v] m m' \<Longrightarrow> be16 m' a = ucast (v :: u32)"
  "stored a [b] m m' \<Longrightarrow> byte_at m' a = b"
  by (simp_all add: stored_word be32_def, simp_all add: stored_def be16_def le16_ucast[unfolded One_nat_def])

lemma stored_wf: "stored a bs m m' \<Longrightarrow> wf_mem m' \<and> fits m' = fits m"
  unfolding stored_def using fits_cong by blast

lemma eff_addr_mem [simp]: "eff_addr i (s\<lparr>mem := m\<rparr>) = eff_addr i s" "eff_addr i (next_insn s) = eff_addr i s"
  by (simp_all add: eff_addr_def next_insn_def)

lemma state_proj [simp]:
  "mem (next_insn s) = mem s" "l1d (next_insn s) = l1d s" "gpr (next_insn s) = gpr s" "pc (next_insn s) = pc s + 4"
  "mem (set_gpr r v s) = mem s" "l1d (set_gpr r v s) = l1d s" "gpr (set_gpr r v s) = (gpr s)(r := v)" "pc (set_gpr r v s) = pc s"
  by (simp_all add: next_insn_def set_gpr_def)

lemma plain_less: "plain 4 a s \<Longrightarrow> n \<le> 4 \<Longrightarrow> plain n a s"
  by (simp add: plain_def fits_def)

lemma plain_stored:
  "stored b bs (mem s) m \<Longrightarrow> plain n a s \<Longrightarrow> plain n a (next_insn (s\<lparr>mem := m\<rparr>))"
  using stored_wf[of b bs "mem s" m] by (simp add: plain_def)

lemma load_gpr:
  "plain 4 (eff_addr j s) s \<Longrightarrow> \<exists>t. exec_lw P j s = Inr t \<and> gpr t = (gpr s)(rt_of j := be32 (mem s) (unat (eff_addr j s)))"
  "plain 2 (eff_addr j s) s \<Longrightarrow> \<exists>t. exec_lhu P j s = Inr t \<and> gpr t = (gpr s)(rt_of j := ucast (be16 (mem s) (unat (eff_addr j s))))"
  "plain 2 (eff_addr j s) s \<Longrightarrow> \<exists>t. exec_lh P j s = Inr t \<and> gpr t = (gpr s)(rt_of j := scast (be16 (mem s) (unat (eff_addr j s))))"
  "plain 1 (eff_addr j s) s \<Longrightarrow> \<exists>t. exec_lbu P j s = Inr t \<and> gpr t = (gpr s)(rt_of j := ucast (byte_at (mem s) (unat (eff_addr j s))))"
  "plain 1 (eff_addr j s) s \<Longrightarrow> \<exists>t. exec_lb P j s = Inr t \<and> gpr t = (gpr s)(rt_of j := scast (byte_at (mem s) (unat (eff_addr j s))))"
  by (erule exec_lw_ok[where P = P] exec_lhalf_ok[where P = P] exec_lbyte_ok[where P = P]; simp)+

text \<open>A store followed by a load of the same width from the same address leaves in the target
  register the stored value, truncated to the width and extended by sign or by zeros as the load
  demands; no other register changes.  The address lies in one page of the memory, and no cache is
  attached.\<close>

theorem store_then_load:
  assumes "plain 4 (eff_addr i s) s" "rs_of j = rs_of i" "simm j = simm i"
  shows "(\<exists>t. rbind (exec_sw P i s) (exec_lw P j) = Inr t \<and> gpr t = (gpr s)(rt_of j := gpr s (rt_of i)))
    \<and> (\<exists>t. rbind (exec_sh P i s) (exec_lhu P j) = Inr t \<and> gpr t = (gpr s)(rt_of j := ucast (ucast (gpr s (rt_of i)) :: u16)))
    \<and> (\<exists>t. rbind (exec_sh P i s) (exec_lh P j) = Inr t \<and> gpr t = (gpr s)(rt_of j := scast (ucast (gpr s (rt_of i)) :: u16)))
    \<and> (\<exists>t. rbind (exec_sb P i s) (exec_lbu P j) = Inr t \<and> gpr t = (gpr s)(rt_of j := ucast (ucast (gpr s (rt_of i)) :: u8)))
    \<and> (\<exists>t. rbind (exec_sb P i s) (exec_lb P j) = Inr t \<and> gpr t = (gpr s)(rt_of j := scast (ucast (gpr s (rt_of i)) :: u8)))"
proof -
  have e: "eff_addr j s = eff_addr i s" using assms(2,3) by (simp add: eff_addr_def)
  note pl = assms(1) plain_less[OF assms(1), of 2] plain_less[OF assms(1), of 1]
  obtain m where m: "stored (unat (eff_addr i s)) (be_bytes (gpr s (rt_of i))) (mem s) m"
      "exec_sw P i s = Inr (next_insn (s\<lparr>mem := m\<rparr>))" using exec_sw_ok[OF pl(1)] by blast
  obtain h where h: "stored (unat (eff_addr i s)) [byte 1 (gpr s (rt_of i)), byte 0 (gpr s (rt_of i))] (mem s) h"
      "exec_sh P i s = Inr (next_insn (s\<lparr>mem := h\<rparr>))" using exec_sh_ok[of i s P] pl(2) by auto
  obtain b where b: "stored (unat (eff_addr i s)) [byte 0 (gpr s (rt_of i))] (mem s) b"
      "exec_sb P i s = Inr (next_insn (s\<lparr>mem := b\<rparr>))" using exec_sb_ok[of i s P] pl(3) by auto
  have "plain 4 (eff_addr j (next_insn (s\<lparr>mem := m\<rparr>))) (next_insn (s\<lparr>mem := m\<rparr>))"
    using plain_stored[OF m(1) pl(1)] e by simp
  moreover have "plain 2 (eff_addr j (next_insn (s\<lparr>mem := h\<rparr>))) (next_insn (s\<lparr>mem := h\<rparr>))"
    using plain_stored[OF h(1), of 2] pl(2) e by simp
  moreover have "plain 1 (eff_addr j (next_insn (s\<lparr>mem := b\<rparr>))) (next_insn (s\<lparr>mem := b\<rparr>))"
    using plain_stored[OF b(1), of 1] pl(3) e by simp
  ultimately have "\<exists>t. exec_lw P j (next_insn (s\<lparr>mem := m\<rparr>)) = Inr t \<and> gpr t = (gpr s)(rt_of j := gpr s (rt_of i))"
    "\<exists>t. exec_lhu P j (next_insn (s\<lparr>mem := h\<rparr>)) = Inr t \<and> gpr t = (gpr s)(rt_of j := ucast (ucast (gpr s (rt_of i)) :: u16))"
    "\<exists>t. exec_lh P j (next_insn (s\<lparr>mem := h\<rparr>)) = Inr t \<and> gpr t = (gpr s)(rt_of j := scast (ucast (gpr s (rt_of i)) :: u16))"
    "\<exists>t. exec_lbu P j (next_insn (s\<lparr>mem := b\<rparr>)) = Inr t \<and> gpr t = (gpr s)(rt_of j := ucast (ucast (gpr s (rt_of i)) :: u8))"
    "\<exists>t. exec_lb P j (next_insn (s\<lparr>mem := b\<rparr>)) = Inr t \<and> gpr t = (gpr s)(rt_of j := scast (ucast (gpr s (rt_of i)) :: u8))"
    using load_gpr(1)[of j "next_insn (s\<lparr>mem := m\<rparr>)" P] load_gpr(2,3)[of j "next_insn (s\<lparr>mem := h\<rparr>)" P]
      load_gpr(4,5)[of j "next_insn (s\<lparr>mem := b\<rparr>)" P]
      stored_be(1)[OF m(1)] stored_be(2)[OF h(1)] stored_be(3)[OF b(1)]
    by (simp_all add: e byte_0)
  then show ?thesis by (simp add: m(2) h(2) b(2))
qed

definition sample_params :: params where
  "sample_params = \<lparr>
     fp = \<lparr>f_add = (+), f_sub = (-), f_mul = (*), f_div = (div), f_sqrt = (\<lambda>x. x), f_madd = (\<lambda>x y z. x), f_msub = (\<lambda>x y z. x),
        d_add = (+), d_sub = (-), d_mul = (*), d_div = (div), d_sqrt = (\<lambda>x. x), d_madd = (\<lambda>x y z. x), d_msub = (\<lambda>x y z. x),
        s_to_d = ucast, d_to_s = ucast, w_to_s = (\<lambda>x. x), w_to_d = ucast, s_to_w = Inr, d_to_w = (\<lambda>x. Inr (ucast x))\<rparr>,
     os = \<lparr>h_open = (\<lambda>_ _ _. 3), h_read = (\<lambda>_ _ _. None), h_write = (\<lambda>_ _ _ bs. int (length bs)), h_lseek = (\<lambda>_ _ _ _. 0),
        h_close = (\<lambda>_ _. 0), h_fstat = (\<lambda>_ _. (0, \<lparr>hs_dev = 0, hs_ino = 0, hs_mode = 0, hs_nlink = 0, hs_uid = 0, hs_gid = 0,
          hs_size = 0, hs_atime = 0, hs_blksize = 0, hs_blocks = 0\<rparr>)), h_times = (\<lambda>_. (0, [0, 0, 0, 0])),
        h_getcwd = (\<lambda>_ _. []), h_chdir = (\<lambda>_ _. 0), io_flags = replicate 10 0, enClockFuncts = False, sysArgv = []\<rparr>,
     cenv = \<lparr>fresh = (\<lambda>_. 0), curr_cycle = 0, mem_latency = 100, rand_val = (\<lambda>_. 0)\<rparr>\<rparr>"

definition sample_state :: state where
  "sample_state = set_gpr 5 0x12345678 (set_gpr 4 0x1001 (new_state (new_mem 65536) 0))"

lemma sample_facts:
  "wf_mem (mem sample_state)" "l1d sample_state = []" "mem_limit (mem sample_state) = 65536"
  "gpr sample_state = (\<lambda>_. 0)(4 := 0x1001, 5 := 0x12345678)"
  using wf_new_mem(1)[of 65536]
  by (simp_all add: sample_state_def new_state_def, simp_all add: mem_limit_def new_mem_def pgsize_def)

lemma sample_plain: "unat a mod 4096 \<le> 4092 \<Longrightarrow> unat a < 65536 \<Longrightarrow> plain 4 a sample_state"
  by (simp add: plain_def sample_facts fits_def) (simp add: pgsize_def)

lemmas field_eval = eff_addr_def rs_of_def rt_of_def rd_of_def fld_def simm_def

theorem store_then_load_witness:
  "\<exists>t. rbind (exec_sh sample_params 0xA4850003 sample_state) (exec_lh sample_params 0x84860003) = Inr t
     \<and> gpr t 6 = 0x5678"
proof -
  have f: "rs_of 0x84860003 = rs_of 0xA4850003" "simm 0x84860003 = simm 0xA4850003" "rt_of 0x84860003 = 6"
    "rt_of 0xA4850003 = 5" "rs_of 0xA4850003 = 4" "simm 0xA4850003 = 3"
    by code_simp+
  have "eff_addr 0xA4850003 sample_state = 0x1004" by (simp add: eff_addr_def f sample_facts)
  then have pl: "plain 4 (eff_addr 0xA4850003 sample_state) sample_state" using sample_plain[of "0x1004"] by simp
  obtain t where t: "rbind (exec_sh sample_params 0xA4850003 sample_state) (exec_lh sample_params 0x84860003) = Inr t"
      "gpr t = (gpr sample_state)(rt_of 0x84860003 := scast (ucast (gpr sample_state (rt_of 0xA4850003)) :: u16))"
    using store_then_load[OF pl f(1,2), of sample_params, THEN conjunct2, THEN conjunct2, THEN conjunct1] by (elim exE conjE)
  have "gpr t 6 = scast (ucast (gpr sample_state 5) :: u16)" unfolding t(2) f by (rule fun_upd_same)
  also have "gpr sample_state 5 = 0x12345678" by (simp add: sample_facts)
  also have "scast (ucast (0x12345678 :: u32) :: u16) = (0x5678 :: u32)" by code_simp
  finally show ?thesis using t(1) by (intro exI conjI)
qed

text \<open>C26. The pair \<open>lwl\<close>, \<open>lwr\<close> with displacements three apart loads the big-endian word at any
  address, aligned or not, even across a page boundary, and changes nothing else.  No cache is attached to the interpreter.\<close>

theorem unaligned_load:
  assumes "wf_mem (mem s)" "l1d s = []" "rs_of j = rs_of i" "rt_of j = rt_of i" "rs_of i \<noteq> rt_of i"
    "simm j = simm i + 3" "unat (eff_addr i s) + 3 < mem_limit (mem s)" "unat (eff_addr i s) + 3 < 2 ^ 32"
  shows "\<exists>t. rbind (exec_lwl P i s) (exec_lwr P j) = Inr t
    \<and> gpr t = (gpr s)(rt_of i := be32 (mem s) (unat (eff_addr i s)))
    \<and> pc t = pc s + 8 \<and> byte_at (mem t) = byte_at (mem s)"
proof -
  have lt: "unat (eff_addr i s) < mem_limit (mem s)" using assms(7) by linarith
  obtain m y where 1: "same_mem (mem s) m" "left_bytes (mem s) (unat (eff_addr i s)) (gpr s (rt_of i)) y"
      "exec_lwl P i s = Inr (next_insn (set_gpr (rt_of i) y (s\<lparr>mem := m\<rparr>)))"
    by (rule exec_lwl_ok[OF assms(1,2) lt])
  define s1 where "s1 = next_insn (set_gpr (rt_of i) y (s\<lparr>mem := m\<rparr>))"
  have e: "eff_addr j s1 = eff_addr i s + 3"
    using assms(3,5,6) by (simp add: eff_addr_def s1_def)
  have ue: "unat (eff_addr i s + 3) = unat (eff_addr i s) + 3"
    using assms(8) by (simp add: unat_word_ariths)
  have s1: "wf_mem (mem s1)" "l1d s1 = []" "unat (eff_addr j s1) < mem_limit (mem s1)" "mem s1 = m"
      "gpr s1 (rt_of i) = y"
    using assms(2,4,7) 1(1) unfolding e ue by (simp_all add: s1_def same_mem_def mem_limit_def)
  obtain m2 z where 2: "same_mem m m2" "right_bytes m (unat (eff_addr i s) + 3) y z"
      "exec_lwr P j s1 = Inr (next_insn (set_gpr (rt_of i) z (s1\<lparr>mem := m2\<rparr>)))"
    by (rule exec_lwr_ok[OF s1(1-3), of P, unfolded assms(4) s1(4,5) e ue])
  have "z = be32 (mem s) (unat (eff_addr i s))"
    using left_right_word[OF 1(2) 2(2)] 1(1) by (simp add: same_mem_def)
  then have "rbind (exec_lwl P i s) (exec_lwr P j)
      = Inr (next_insn (set_gpr (rt_of i) (be32 (mem s) (unat (eff_addr i s))) (s1\<lparr>mem := m2\<rparr>)))"
    unfolding 1(3) s1_def[symmetric] rbind_simps 2(3) by (simp only:)
  moreover have "gpr s1 = (gpr s)(rt_of i := y)" "pc s1 = pc s + 4" "byte_at m2 = byte_at (mem s)"
    using 1(1) 2(1) by (simp_all add: s1_def same_mem_def)
  ultimately show ?thesis by simp
qed

lemma sample_left: "rs_of 0x88850002 = 4" "rt_of 0x88850002 = 5" "simm 0x88850002 = 2"
    "rs_of 0x98850005 = 4" "rt_of 0x98850005 = 5" "simm 0x98850005 = 5"
  by code_simp+

theorem unaligned_load_witness:
  "\<exists>t. rbind (exec_lwl sample_params 0x88850002 sample_state) (exec_lwr sample_params 0x98850005) = Inr t
     \<and> gpr t = (gpr sample_state)(5 := 0) \<and> pc t = 8"
proof -
  have e: "eff_addr 0x88850002 sample_state = 0x1003" by (simp add: eff_addr_def sample_left sample_facts)
  have z: "be32 (mem sample_state) a = 0" for a
    by (simp add: be32_def sample_state_def new_state_def wf_new_mem le32_def)
  have "pc sample_state = 0" by (simp add: sample_state_def new_state_def)
  then show ?thesis
    using unaligned_load[of sample_state "0x98850005" "0x88850002" sample_params]
    by (auto simp: sample_facts sample_left e z)
qed

text \<open>C27. The pair \<open>swl\<close>, \<open>swr\<close> with displacements three apart stores the register, most
  significant byte first, at an address that is not a multiple of four: the word read back there
  is the register and every other byte keeps its value.  No cache is attached to the interpreter.\<close>

theorem unaligned_store:
  assumes "wf_mem (mem s)" "l1d s = []" "rs_of j = rs_of i" "rt_of j = rt_of i" "simm j = simm i + 3"
    "unat (eff_addr i s) mod 4 \<noteq> 0"
    "unat (eff_addr i s) + 3 < mem_limit (mem s)" "unat (eff_addr i s) + 3 < 2 ^ 32"
  shows "\<exists>t. rbind (exec_swl P i s) (exec_swr P j) = Inr t \<and> gpr t = gpr s \<and> pc t = pc s + 8
    \<and> be32 (mem t) (unat (eff_addr i s)) = gpr s (rt_of i)
    \<and> (\<forall>x. x < unat (eff_addr i s) \<or> unat (eff_addr i s) + 4 \<le> x \<longrightarrow> byte_at (mem t) x = byte_at (mem s) x)"
proof -
  have lt: "unat (eff_addr i s) < mem_limit (mem s)" using assms(7) by linarith
  obtain m where 1: "left_stored (unat (eff_addr i s)) (gpr s (rt_of i)) (mem s) m"
      "exec_swl P i s = Inr (next_insn (s\<lparr>mem := m\<rparr>))"
    by (rule exec_swl_ok[OF assms(1,2) lt assms(6)])
  define s1 where "s1 = next_insn (s\<lparr>mem := m\<rparr>)"
  have e: "eff_addr j s1 = eff_addr i s + 3" using assms(3,5) by (simp add: eff_addr_def s1_def)
  have ue: "unat (eff_addr i s + 3) = unat (eff_addr i s) + 3" using assms(8) by (simp add: unat_word_ariths)
  have s1: "wf_mem (mem s1)" "l1d s1 = []" "unat (eff_addr j s1) < mem_limit (mem s1)" "mem s1 = m"
      "gpr s1 (rt_of j) = gpr s (rt_of i)"
    using assms(2,4,7) 1(1) unfolding e ue by (simp_all add: s1_def left_stored_def mem_limit_def)
  obtain m2 where 2: "right_stored (unat (eff_addr i s) + 3) (gpr s (rt_of i)) m m2"
      "exec_swr P j s1 = Inr (next_insn (s1\<lparr>mem := m2\<rparr>))"
    using exec_swr_ok[OF s1(1-3)] unfolding s1(4,5) e ue by blast
  have st: "stored (unat (eff_addr i s)) (be_bytes (gpr s (rt_of i))) (mem s) m2"
    by (rule left_right_stored[OF 1(1) 2(1) assms(6)])
  then show ?thesis using 1 2 stored_be(1)[OF st]
    by (simp add: s1_def[symmetric]) (auto simp: s1_def stored_def)
qed

theorem unaligned_store_witness:
  "\<exists>t. rbind (exec_swl sample_params 0xA8850002 sample_state) (exec_swr sample_params 0xB8850005) = Inr t
     \<and> be32 (mem t) 0x1003 = 0x12345678"
proof -
  have f: "rs_of 0xA8850002 = 4" "rt_of 0xA8850002 = 5" "simm 0xA8850002 = 2"
      "rs_of 0xB8850005 = 4" "rt_of 0xB8850005 = 5" "simm 0xB8850005 = 5"
    by code_simp+
  have e: "eff_addr 0xA8850002 sample_state = 0x1003" by (simp add: eff_addr_def f sample_facts)
  show ?thesis
    using unaligned_store[of sample_state "0xB8850005" "0xA8850002" sample_params]
    by (auto simp: sample_facts f e)
qed

text \<open>At an aligned address the store of the left part shifts by the width of the word.\<close>

lemma swl_aligned_undefined:
  assumes "wf_mem (mem s)" "unat (eff_addr inst s) < mem_limit (mem s)" "unat (eff_addr inst s) mod 4 = 0"
  shows "exec_swl P inst s = Inl Undefined"
proof -
  obtain m where "get32 (eff_addr inst s AND 0xfffffffc) (mem s) = Inr (m, bswap32 (be32 (mem s) (unat (eff_addr inst s))))"
    using get32_be[OF assms(1) fits_aligned[OF assms(2)]] assms(3) unfolding align4 by auto
  then show ?thesis using assms(3) by (simp add: exec_swl_def get_with_def Let_def low2)
qed

end
