(* ===== verification/Interp_Proofs.thy ===== *)
theory Interp_Proofs
  imports Interp Interp_Mem_Proofs
begin

text \<open>
  Properties of the interpreter: delay slots and fuel, targets of branches and jumps, the
  multiply-divide unit, bit fields, condition codes and the monitor vectors.
\<close>

section \<open>Delay slots and fuel\<close>

text \<open>An instruction asks for the delay slot only in the state after its own address.\<close>

definition slot_state :: "state \<Rightarrow> state \<Rightarrow> bool" where
  "slot_state s t \<longleftrightarrow> mem t = mem s \<and> pc t = pc s + 4 \<and> brk t = brk s"

lemma slot_state_simps [simp]:
  "slot_state s (next_insn t) \<longleftrightarrow> mem t = mem s \<and> pc t = pc s \<and> brk t = brk s"
  "mem (upd_hist i f s) = mem s" "pc (upd_hist i f s) = pc s" "brk (upd_hist i f s) = brk s"
  "gpr (upd_hist i f s) = gpr s" "icnt (upd_hist i f s) = icnt s" "l1d (upd_hist i f s) = l1d s"
  "brk (set_gpr r v s) = brk s" "brk (next_insn s) = brk s" "hi (upd_hist i f s) = hi s" "lo (upd_hist i f s) = lo s"
  by (auto simp: slot_state_def next_insn_def upd_hist_def set_gpr_def)

definition same_slot :: "(state \<Rightarrow> state res) \<Rightarrow> (state \<Rightarrow> state res) \<Rightarrow> state \<Rightarrow> bool" where
  "same_slot K K' s \<longleftrightarrow> (\<forall>t. slot_state s t \<longrightarrow> K t = K' t)"

named_theorems slot_cong \<open>instructions depend on the delay slot only there\<close>

lemma branch_cong [slot_cong]: "same_slot K K' s \<Longrightarrow> branch bt K inst s = branch bt K' inst s"
  by (simp add: branch_def same_slot_def Let_def)

lemma jump_reg_cong [slot_cong]: "same_slot K K' s \<Longrightarrow> jump_reg b K inst s = jump_reg b K' inst s"
  by (simp add: jump_reg_def same_slot_def Let_def)

lemma execJType_cong [slot_cong]: "same_slot K K' s \<Longrightarrow> execJType K inst s = execJType K' inst s"
  by (simp add: execJType_def same_slot_def Let_def)

lemma exec_insn_cong:
  assumes "same_slot K K' s"
  shows "exec_insn P K inst s = exec_insn P K' inst s"
  unfolding exec_insn_def execRType_def rtype_shift_def execCoproc1_def execIType_def itype_branch_def
    bgez_bltz_def Let_def slot_cong[OF assms] by (rule refl)

text \<open>The instructions with a delay slot.\<close>

definition has_slot :: "u32 \<Rightarrow> bool" where
  "has_slot inst \<longleftrightarrow> (opcode_of inst = 0 \<and> funct_of inst \<in> {8, 9})
     \<or> opcode_of inst \<in> {1, 2, 3, 4, 5, 6, 7, 0x14, 0x15, 0x16, 0x17}
     \<or> (opcode_of inst = 0x11 \<and> fmt_of inst = 8)"

lemma exec_rtype_no_slot:
  assumes "funct_of inst \<noteq> 8" "funct_of inst \<noteq> 9"
  shows "execRType P K inst s = execRType P K' inst s"
  using assms by (simp only: execRType_def rtype_shift_def Let_def if_False simp_thms)

lemma exec_cp1_no_slot: "fmt_of inst \<noteq> 8 \<Longrightarrow> execCoproc1 P K inst s = execCoproc1 P K' inst s"
  by (simp only: execCoproc1_def fmt_of_def Let_def if_False simp_thms)

lemma exec_itype_no_slot:
  assumes "opcode_of inst \<notin> {1, 4, 5, 6, 7, 0x14, 0x15, 0x16, 0x17}"
  shows "execIType P K inst s = execIType P K' inst s"
  using assms by (simp only: execIType_def itype_branch_def Let_def if_False simp_thms insert_iff empty_iff de_Morgan_disj)

lemma exec_insn_no_slot:
  assumes "\<not> has_slot inst"
  shows "exec_insn P K inst s = exec_insn P K' inst s"
proof (cases "getInsnType inst")
  case Rtype
  then have "opcode_of inst = 0" by (simp add: getInsnType_def Let_def split: if_splits)
  then show ?thesis using assms Rtype by (simp add: exec_insn_def has_slot_def exec_rtype_no_slot[of inst P K s K'])
next
  case Jtype
  then have "opcode_of inst div 2 = 1" by (simp add: getInsnType_def Let_def split: if_splits)
  then have "opcode_of inst = 2 \<or> opcode_of inst = 3" by linarith
  then show ?thesis using assms by (auto simp: has_slot_def)
next
  case Cp1
  then have "opcode_of inst = 0x11" by (simp add: getInsnType_def Let_def split: if_splits)
  then show ?thesis using assms Cp1 by (simp add: exec_insn_def has_slot_def exec_cp1_no_slot[of inst P K s K'])
next
  case Itype
  then show ?thesis using assms by (simp add: exec_insn_def has_slot_def exec_itype_no_slot[of inst P K s K'])
qed (simp_all add: exec_insn_def)

lemma execMips_unfold:
  "brk s \<noteq> 0 \<Longrightarrow> execMips P k s = Inr s"
  "brk s = 0 \<Longrightarrow> execMips P 0 s = Inl OutOfFuel"
  "brk s = 0 \<Longrightarrow> execMips P (Suc k) s =
     get_with (get32 (pc s)) s (\<lambda>w s1. exec_insn P (execMips P k) (bswap32 w) (fetch_hist s1))"
  by (subst execMips.simps, simp)+

lemma fetch_hist_simps [simp]:
  "mem (fetch_hist s) = mem s" "pc (fetch_hist s) = pc s" "brk (fetch_hist s) = brk s" "gpr (fetch_hist s) = gpr s"
  "icnt (fetch_hist s) = icnt s + 1" "l1d (fetch_hist s) = l1d s" "lo (fetch_hist s) = lo s" "hi (fetch_hist s) = hi s"
  by (simp_all add: fetch_hist_def upd_hist_def)

text \<open>The word an instruction fetch finds, in a memory that the access may first extend by a page.\<close>

definition fetched :: "state \<Rightarrow> u32 \<Rightarrow> u32 option" where
  "fetched s a = (case get32 a (mem s) of Inl e \<Rightarrow> None | Inr (m, w) \<Rightarrow> Some (bswap32 w))"

text \<open>C23. Unless a branch or jump sits in the delay slot of another one, the recursion of the
  interpreter ends at depth two: the result is the same with any larger bound.\<close>

theorem slot_depth_two:
  assumes "\<And>m w m' v. get32 (pc s) (mem s) = Inr (m, w) \<Longrightarrow> has_slot (bswap32 w) \<Longrightarrow>
      get32 (pc s + 4) m = Inr (m', v) \<Longrightarrow> \<not> has_slot (bswap32 v)"
  shows "execMips P (k + 2) s = execMips P 2 s"
proof (cases "brk s = 0")
  case False
  then show ?thesis by (simp add: execMips_unfold(1))
next
  case brk: True
  have step: "exec_insn P (execMips P (Suc k)) (bswap32 w) (fetch_hist (s\<lparr>mem := m\<rparr>))
      = exec_insn P (execMips P (Suc 0)) (bswap32 w) (fetch_hist (s\<lparr>mem := m\<rparr>))"
    if g: "get32 (pc s) (mem s) = Inr (m, w)" for m w
  proof (cases "has_slot (bswap32 w)")
    case True
    have "execMips P (Suc k) t = execMips P (Suc 0) t" if t: "slot_state (fetch_hist (s\<lparr>mem := m\<rparr>)) t" for t
    proof -
      have t': "mem t = m" "pc t = pc s + 4" "brk t = 0" using t brk by (simp_all add: slot_state_def)
      show ?thesis
      proof (cases "get32 (pc s + 4) m")
        case (Inl e)
        then show ?thesis by (simp add: execMips_unfold t' get_with_def)
      next
        case (Inr r)
        then obtain m' v where r: "get32 (pc s + 4) m = Inr (m', v)" by (cases r) simp
        then show ?thesis using exec_insn_no_slot[OF assms[OF g True r], of P "execMips P k" _ "execMips P 0"]
          by (simp add: execMips_unfold t' get_with_def)
      qed
    qed
    then show ?thesis by (intro exec_insn_cong) (simp add: same_slot_def)
  qed (rule exec_insn_no_slot)
  show ?thesis
    using step by (cases "get32 (pc s) (mem s)") (auto simp: execMips_unfold brk get_with_def numeral_2_eq_2)
qed

lemma fetch_be:
  assumes "wf_mem m" "fits m 4 a" "get32 a m = Inr (m', w)"
  shows "bswap32 w = be32 m (unat a) \<and> same_mem m m'"
  using get32_be[OF assms(1,2)] assms(3) by (metis Inr_inject bswap32_bswap32 prod.inject)

theorem slot_depth_two_witness:
  "\<exists>m. set32 0x1000 (bswap32 0x10000003) (new_mem 65536) = Inr m
     \<and> execMips sample_params (7 + 2) ((new_state m 0)\<lparr>pc := 0x1000\<rparr>) = execMips sample_params 2 ((new_state m 0)\<lparr>pc := 0x1000\<rparr>)"
proof -
  have f: "fits (new_mem 65536) 4 0x1000" "fits (new_mem 65536) 4 0x1004"
    by (simp_all add: fits_def mem_limit_def new_mem_def pgsize_def)
  obtain m where m: "set32 0x1000 (bswap32 0x10000003) (new_mem 65536) = Inr m"
      "stored 0x1000 (be_bytes 0x10000003) (new_mem 65536) m"
    using set32_be[OF wf_new_mem(1) f(1), of "0x10000003"] by auto
  note w = stored_wf[OF m(2)]
  have z: "be32 m 0x1004 = 0"
    using m(2) by (simp add: be32_def stored_def wf_new_mem le32_def)
  let ?s = "(new_state m 0)\<lparr>pc := 0x1000\<rparr>"
  have "execMips sample_params (7 + 2) ?s = execMips sample_params 2 ?s"
  proof (rule slot_depth_two)
    fix m1 w1 m2 v
    assume g: "get32 (pc ?s) (mem ?s) = Inr (m1, w1)" "get32 (pc ?s + 4) m1 = Inr (m2, v)"
    have 1: "same_mem m m1" using fetch_be[of m "0x1000" m1 w1] g(1) w f by (simp add: new_state_def)
    then have "bswap32 v = be32 m1 0x1004"
      using fetch_be[of m1 "0x1004" m2 v] g(2) w f(2) by (simp add: new_state_def same_mem_def fits_cong[of m1 m])
    then have "bswap32 v = 0" using same_mem_be(1)[OF 1] z by simp
    moreover have "\<not> has_slot 0" by (simp add: has_slot_def opcode_of_def funct_of_def fld_def)
    ultimately show "\<not> has_slot (bswap32 v)" by simp
  qed
  then show ?thesis using m(1) by blast
qed

section \<open>Branches and jumps\<close>

text \<open>C22. A taken branch executes its delay slot and then continues at the target that the decoder
  computes; a branch not taken continues behind its delay slot after executing it, and a branch
  likely not taken skips it without any other effect.  The history record names the address the
  branch led to.\<close>

theorem branch_outcome:
  assumes "branch bt slot inst s = Inr t"
  shows "(if branch_taken bt inst s \<or> \<not> is_likely bt
     then \<exists>s1 s2. slot_state s s1 \<and> gpr s1 = gpr s \<and> icnt s1 = icnt s \<and> slot s1 = Inr s2 \<and> gpr t = gpr s2 \<and> mem t = mem s2
       \<and> pc t = (if branch_taken bt inst s then get_branch_target (pc s) inst else pc s2)
     else gpr t = gpr s \<and> mem t = mem s \<and> pc t = pc s + 8)
    \<and> h_next_pc (hbuf t (hidx (icnt s - 1))) = pc t"
proof -
  define s1 where "s1 = next_insn (upd_hist (hidx (icnt s - 1))
    (\<lambda>h. h\<lparr>h_branch := True, h_likely := is_likely bt, h_took := branch_taken bt inst s\<rparr>) s)"
  have s1: "slot_state s s1" "gpr s1 = gpr s" "icnt s1 = icnt s" "mem s1 = mem s" "pc s1 = pc s + 4"
    by (simp_all add: s1_def slot_state_def) (simp_all add: next_insn_def upd_hist_def)
  have tgt: "push_bit 2 (simm inst) + (pc s + 4) = get_branch_target (pc s) inst"
    by (simp add: get_branch_target_def)
  obtain s3 where t: "t = upd_hist (hidx (icnt s - 1)) (\<lambda>h. h\<lparr>h_next_pc := pc s3\<rparr>) s3"
    and s3: "(if is_likely bt
          then (if branch_taken bt inst s then rbind (slot s1) (\<lambda>s2. Inr (s2\<lparr>pc := get_branch_target (pc s) inst\<rparr>))
             else Inr (next_insn s1))
          else rbind (slot s1) (\<lambda>s2. Inr (if branch_taken bt inst s then s2\<lparr>pc := get_branch_target (pc s) inst\<rparr> else s2))) = Inr s3"
    using assms unfolding branch_def Let_def tgt s1_def[symmetric] rbind_Inr_iff by blast
  have "pc t = pc s3" "gpr t = gpr s3" "mem t = mem s3" "h_next_pc (hbuf t (hidx (icnt s - 1))) = pc s3"
    by (simp_all add: t) (simp add: upd_hist_def)
  then show ?thesis using s3 s1
    by (cases "is_likely bt"; cases "branch_taken bt inst s") (fastforce simp: rbind_Inr_iff)+
qed

theorem branch_outcome_witness:
  "\<exists>t. branch Beq Inr 0x10000003 sample_state = Inr t \<and> pc t = 16"
proof -
  have f: "rs_of 0x10000003 = 0" "rt_of 0x10000003 = 0" "get_branch_target 0 0x10000003 = 16" by code_simp+
  have tk: "branch_taken Beq 0x10000003 sample_state" by (simp add: branch_taken_def f Let_def)
  obtain t where t: "branch Beq Inr 0x10000003 sample_state = Inr t"
    by (simp add: branch_def Let_def is_likely_def tk)
  have "pc sample_state = 0" by (simp add: sample_state_def new_state_def set_gpr_def)
  then have "pc t = 16" using branch_outcome[OF t] tk f(3) by auto
  with t show ?thesis by blast
qed

text \<open>C24. The jumps \<open>j\<close> and \<open>jal\<close> end at the target the decoder computes, and the delay slot of
  \<open>jal\<close> already sees the return address in register 31.\<close>

theorem jump_outcome:
  assumes "execJType slot inst s = Inr t"
  shows "get_jump_target (pc s) inst = Inr (pc t)
    \<and> (\<exists>s1. slot_state s s1 \<and> gpr s1 = (if is_jal inst then (gpr s)(31 := pc s + 8) else gpr s)
         \<and> (\<exists>s2. slot s1 = Inr s2 \<and> gpr t = gpr s2 \<and> mem t = mem s2))"
proof -
  define s1 where "s1 = (let s0 = upd_hist (hidx (icnt s - 1)) (\<lambda>h. h\<lparr>h_branch := True, h_took := True\<rparr>) s
    in next_insn (if opcode_of inst = 3 then set_gpr 31 (pc s + 8) s0 else s0))"
  have s1: "slot_state s s1" "gpr s1 = (if is_jal inst then (gpr s)(31 := pc s + 8) else gpr s)" "pc s1 = pc s + 4"
    by (simp_all add: s1_def Let_def is_jal_def)
  have o: "opcode_of inst = 2 \<or> opcode_of inst = 3"
    using assms by (auto simp: execJType_def Let_def rbind_Inr_iff split: if_splits)
  then have "rbind (slot s1) (\<lambda>s2. Inr (upd_hist (hidx (icnt s - 1)) (\<lambda>h. h\<lparr>h_next_pc :=
      push_bit 2 (inst AND mask 26) OR (pc s1 AND NOT (mask 28))\<rparr>) (s2\<lparr>pc :=
      push_bit 2 (inst AND mask 26) OR (pc s1 AND NOT (mask 28))\<rparr>))) = Inr t"
    using assms by (auto simp: execJType_def Let_def s1_def)
  then obtain s2 where "slot s1 = Inr s2" "pc t = push_bit 2 (inst AND mask 26) OR (pc s1 AND NOT (mask 28))"
      "gpr t = gpr s2" "mem t = mem s2"
    by (auto simp: rbind_Inr_iff)
  then show ?thesis using s1 o
    by (auto simp: get_jump_target_def is_jal_def is_j_def jaddr_of_def or.commute)
qed

theorem jump_outcome_witness:
  "\<exists>t. execJType Inr 0x0C000400 sample_state = Inr t \<and> pc t = 0x1000 \<and> gpr t 31 = 8"
proof -
  have f: "opcode_of 0x0C000400 = 3" "get_jump_target 0 0x0C000400 = Inr 0x1000" by code_simp+
  have pc: "pc sample_state = 0" by (simp add: sample_state_def new_state_def set_gpr_def)
  obtain t where t: "execJType Inr 0x0C000400 sample_state = Inr t"
    by (simp add: execJType_def Let_def f)
  show ?thesis using jump_outcome[OF t] t f by (auto simp: pc is_jal_def)
qed

text \<open>Whenever the decoder calls an instruction a direct branch or jump with some target, the
  interpreter either continues at that target, or behind the delay slot it executed, or behind
  the slot it skipped.\<close>

theorem direct_target_agrees:
  assumes "isDirectBranchOrJump inst (pc s) x = (True, tgt)" "exec_insn P slot inst s = Inr t"
  shows "pc t = tgt \<or> pc t = pc s + 8 \<or> (\<exists>s1 s2. slot_state s s1 \<and> slot s1 = Inr s2 \<and> pc t = pc s2)"
proof -
  have br: ?thesis if "branch bt slot inst s = Inr t" "tgt = get_branch_target (pc s) inst" for bt
    using branch_outcome[OF that(1)] that(2) by (auto split: if_splits)
  have tgt: "push_bit 2 (simm inst) + pc s + 4 = get_branch_target (pc s) inst"
    by (simp add: get_branch_target_def)
  consider "opcode_of inst = 2" "tgt = jaddr_of inst OR ((pc s + 4) AND NOT (mask 28))"
    | "opcode_of inst \<in> {1, 4, 5, 6, 7}" "tgt = get_branch_target (pc s) inst"
    | "opcode_of inst = 0x11" "fld inst 21 5 = 8" "tgt = get_branch_target (pc s) inst"
    using assms(1) unfolding isDirectBranchOrJump_def Let_def tgt by (auto split: if_splits)
  then show ?thesis
  proof cases
    case 1
    then have "execJType slot inst s = Inr t" using assms(2) by (simp add: exec_insn_def getInsnType_def)
    from jump_outcome[OF this] 1 show ?thesis by (simp add: get_jump_target_def is_j_def or.commute)
  next
    case 2
    then have "itype_branch slot inst s = Inr t"
      using assms(2) by (auto simp: exec_insn_def getInsnType_def execIType_def)
    then obtain bt where "branch bt slot inst s = Inr t"
      using 2(1) by (auto simp: itype_branch_def bgez_bltz_def Let_def split: if_splits)
    then show ?thesis using br 2(2) by blast
  next
    case 3
    then have "execCoproc1 P slot inst s = Inr t" using assms(2) by (simp add: exec_insn_def getInsnType_def)
    then obtain bt where "branch bt slot inst s = Inr t"
      using 3(2) by (auto simp: execCoproc1_def Let_def split: if_splits)
    then show ?thesis using br 3(3) by blast
  qed
qed

theorem direct_target_agrees_witness:
  "\<exists>t. exec_insn sample_params Inr 0x10000003 sample_state = Inr t \<and> pc t \<in> {16, 8, 4}"
proof -
  have f: "isDirectBranchOrJump 0x10000003 0 0 = (True, 16)" "getInsnType 0x10000003 = Itype" "opcode_of 0x10000003 = 4"
    by code_simp+
  have pc: "pc sample_state = 0" by (simp add: sample_state_def new_state_def set_gpr_def)
  obtain t where t: "exec_insn sample_params Inr 0x10000003 sample_state = Inr t"
    by (simp add: exec_insn_def f execIType_def itype_branch_def branch_def Let_def is_likely_def)
  show ?thesis using direct_target_agrees[OF _ t, of 0 16] f(1) t by (auto simp: pc slot_state_def)
qed

text \<open>The decoder does not know the likely branches, nor \<open>jal\<close>.\<close>

lemma likely_not_direct: "opcode_of inst \<in> {3, 0x14, 0x15, 0x16, 0x17} \<Longrightarrow> isDirectBranchOrJump inst a x = (False, NOT 0)"
  by (auto simp: isDirectBranchOrJump_def Let_def)

section \<open>The multiply-divide unit\<close>

definition hilo :: "state \<Rightarrow> u64" where
  "hilo s = le64 (lo s) (hi s)"

lemma hilo_set [simp]: "hilo (set_hilo y s) = y" "hilo (next_insn s) = hilo s"
  by (simp_all add: hilo_def set_hilo_def next_insn_def)

lemma sint_scast64: "sint (scast a :: u64) = sint a" for a :: u32
proof -
  have "- (2 ^ 63) \<le> sint a" "sint a < 2 ^ 63"
    using sint_greater_eq[of a] sint_less[of a] by simp_all
  then show ?thesis by (simp add: signed_scast_eq signed_take_bit_int_eq_self)
qed

lemma sint_mult64: "sint (scast a * scast b :: u64) = sint a * sint b" for a b :: u32
proof -
  have a: "- (2 ^ 31) \<le> sint a" "sint a < 2 ^ 31" and b: "- (2 ^ 31) \<le> sint b" "sint b < 2 ^ 31"
    using sint_greater_eq[of a] sint_less[of a] sint_greater_eq[of b] sint_less[of b] by simp_all
  have "\<bar>sint a * sint b\<bar> \<le> 2 ^ 31 * 2 ^ 31"
    unfolding abs_mult using a b by (intro mult_mono) auto
  then have "- (2 ^ 63) \<le> sint a * sint b" "sint a * sint b < 2 ^ 63" by (auto simp: abs_le_iff)
  then have "signed_take_bit 63 (sint a * sint b) = sint a * sint b"
    by (intro signed_take_bit_int_eq_self) simp_all
  moreover have "sint (scast a * scast b :: u64) = signed_take_bit 63 (sint a * sint b)"
    by (simp add: sint_word_ariths sint_scast64)
  ultimately show ?thesis by simp
qed

lemma uint_mult64: "unat (ucast a * ucast b :: u64) = unat a * unat b" for a b :: u32
proof -
  have "unat a < 2 ^ 32" "unat b < 2 ^ 32" using unsigned_less[of a, where ?'a = nat] unsigned_less[of b, where ?'a = nat] by simp_all
  then have "unat a * unat b < 2 ^ 32 * 2 ^ 32" by (intro mult_strict_mono) auto
  moreover have "unat (ucast a :: u64) = unat a" "unat (ucast b :: u64) = unat b"
    using \<open>unat a < 2 ^ 32\<close> \<open>unat b < 2 ^ 32\<close> by (simp_all add: unsigned_ucast_eq take_bit_nat_eq_self)
  ultimately show ?thesis by (simp add: unat_word_ariths)
qed

lemma sint_of_int: "- (2 ^ 31) \<le> x \<Longrightarrow> x < 2 ^ 31 \<Longrightarrow> sint (word_of_int x :: u32) = x"
  by (simp add: signed_of_int signed_take_bit_int_eq_self)

lemma sdiv_smod_bounds:
  fixes a b :: int
  assumes "- (2 ^ 31) \<le> a" "a < 2 ^ 31" "b \<noteq> 0" "\<not> (a = - (2 ^ 31) \<and> b = -1)" "\<bar>b\<bar> \<le> 2 ^ 31"
  shows "- (2 ^ 31) \<le> a sdiv b" "a sdiv b < 2 ^ 31" "\<bar>a smod b\<bar> < \<bar>b\<bar>" "0 \<le> a smod b * sgn a"
    "a = (a sdiv b) * b + a smod b"
proof -
  define q where "q = \<bar>a\<bar> div \<bar>b\<bar>"
  define r where "r = \<bar>a\<bar> mod \<bar>b\<bar>"
  have qr: "\<bar>a\<bar> = q * \<bar>b\<bar> + r" "0 \<le> r" "r < \<bar>b\<bar>" "0 \<le> q" using assms(3) by (simp_all add: q_def r_def pos_imp_zdiv_nonneg_iff)
  have sd: "a sdiv b = sgn a * sgn b * q" by (simp add: signed_divide_int_def q_def)
  have sm: "a smod b = sgn a * r" by (simp add: signed_modulo_int_def r_def)
  show "\<bar>a smod b\<bar> < \<bar>b\<bar>" using qr assms(3) by (auto simp: sm abs_mult abs_sgn_eq)
  show "0 \<le> a smod b * sgn a" using qr by (simp add: sm sgn_if)
  have "(a sdiv b) * b + a smod b = sgn a * (q * \<bar>b\<bar> + r)"
    unfolding sd sm abs_sgn[of b] by (simp add: algebra_simps)
  then show "a = (a sdiv b) * b + a smod b" unfolding qr(1)[symmetric] by (simp add: mult_sgn_abs)
  have "1 \<le> \<bar>b\<bar>" using assms(3) by simp
  then have "q * 1 \<le> q * \<bar>b\<bar>" using qr(4) by (intro mult_left_mono)
  then have qa: "q \<le> \<bar>a\<bar>" using qr by linarith
  have "q < 2 ^ 31 \<or> (a = - (2 ^ 31) \<and> b = 1)"
  proof (rule ccontr)
    assume n: "\<not> (q < 2 ^ 31 \<or> (a = - (2 ^ 31) \<and> b = 1))"
    then have a: "a = - (2 ^ 31)" "q = 2 ^ 31" using qa assms(1,2) by linarith+
    then have "b \<noteq> 1" "b \<noteq> -1" using n assms(4) by auto
    then have "2 \<le> \<bar>b\<bar>" using assms(3) by linarith
    then have "q * 2 \<le> q * \<bar>b\<bar>" using qr(4) by (intro mult_left_mono)
    then show False using qr a by simp
  qed
  then show "- (2 ^ 31) \<le> a sdiv b" "a sdiv b < 2 ^ 31"
    using qr(4) qa unfolding sd by (auto simp: sgn_if)
qed

text \<open>C28. Multiplication leaves the full signed or unsigned 64-bit product in the pair of registers;
  division by a non-zero divisor leaves a quotient and a remainder that make up the dividend, the
  remainder smaller than the divisor and of the sign of the dividend.  The one overflowing signed
  division traps, and a division by zero leaves the pair unchanged.\<close>

theorem mult_div_correct:
  fixes s inst
  defines "a \<equiv> gpr s (rs_of inst)" and "b \<equiv> gpr s (rt_of inst)"
  shows "(funct_of inst = 0x18 \<longrightarrow> (\<exists>t. rtype_hilo inst s = Inr t \<and> sint (hilo t) = sint a * sint b))
    \<and> (funct_of inst = 0x19 \<longrightarrow> (\<exists>t. rtype_hilo inst s = Inr t \<and> unat (hilo t) = unat a * unat b))
    \<and> (funct_of inst = 0x1A \<longrightarrow> (if b = 0 then rtype_hilo inst s = Inr (next_insn s)
        else if sint a = - (2 ^ 31) \<and> sint b = -1 then rtype_hilo inst s = Inl Trap
        else \<exists>t. rtype_hilo inst s = Inr t \<and> sint a = sint (lo t) * sint b + sint (hi t)
          \<and> \<bar>sint (hi t)\<bar> < \<bar>sint b\<bar> \<and> 0 \<le> sint (hi t) * sgn (sint a)))
    \<and> (funct_of inst = 0x1B \<longrightarrow> (if b = 0 then rtype_hilo inst s = Inr (next_insn s)
        else \<exists>t. rtype_hilo inst s = Inr t \<and> unat a = unat (lo t) * unat b + unat (hi t) \<and> unat (hi t) < unat b))"
proof (intro conjI impI)
  assume "funct_of inst = 0x18"
  then show "\<exists>t. rtype_hilo inst s = Inr t \<and> sint (hilo t) = sint a * sint b"
    by (simp add: rtype_hilo_def Let_def a_def b_def sint_mult64)
next
  assume "funct_of inst = 0x19"
  then show "\<exists>t. rtype_hilo inst s = Inr t \<and> unat (hilo t) = unat a * unat b"
    by (simp add: rtype_hilo_def Let_def a_def b_def uint_mult64)
next
  assume f: "funct_of inst = 0x1A"
  show "if b = 0 then rtype_hilo inst s = Inr (next_insn s)
        else if sint a = - (2 ^ 31) \<and> sint b = -1 then rtype_hilo inst s = Inl Trap
        else \<exists>t. rtype_hilo inst s = Inr t \<and> sint a = sint (lo t) * sint b + sint (hi t)
          \<and> \<bar>sint (hi t)\<bar> < \<bar>sint b\<bar> \<and> 0 \<le> sint (hi t) * sgn (sint a)"
  proof (cases "b = 0 \<or> (sint a = - (2 ^ 31) \<and> sint b = -1)")
    case True
    then show ?thesis using f by (auto simp: rtype_hilo_def Let_def a_def b_def)
  next
    case False
    have "sint b \<noteq> 0" using False signed_word_eqI[of b 0, where ?'a = int] by auto
    then have rg: "- (2 ^ 31) \<le> sint a" "sint a < 2 ^ 31" "sint b \<noteq> 0" "\<bar>sint b\<bar> \<le> 2 ^ 31"
      using sint_greater_eq[of a] sint_less[of a] sint_greater_eq[of b] sint_less[of b] False
      by (auto simp: abs_le_iff)
    note bd = sdiv_smod_bounds[OF rg(1-3) _ rg(4)]
    have nt: "\<not> (sint a = - (2 ^ 31) \<and> sint b = -1)" using False by simp
    have m: "- (2 ^ 31) \<le> sint a smod sint b" "sint a smod sint b < 2 ^ 31"
      using bd(3)[OF nt] rg(4) by linarith+
    define t where "t = next_insn (s\<lparr>lo := word_of_int (sint a sdiv sint b), hi := word_of_int (sint a smod sint b)\<rparr>)"
    have "rtype_hilo inst s = Inr t"
      using f False nt by (simp add: rtype_hilo_def Let_def a_def[symmetric] b_def[symmetric] t_def)
    moreover have "sint (lo t) = sint a sdiv sint b" "sint (hi t) = sint a smod sint b"
      using bd(1,2)[OF nt] m by (simp_all add: t_def next_insn_def sint_of_int)
    ultimately show ?thesis using bd(3-5)[OF nt] False by auto
  qed
next
  assume f: "funct_of inst = 0x1B"
  show "if b = 0 then rtype_hilo inst s = Inr (next_insn s)
        else \<exists>t. rtype_hilo inst s = Inr t \<and> unat a = unat (lo t) * unat b + unat (hi t) \<and> unat (hi t) < unat b"
  proof (cases "b = 0")
    case False
    then have "0 < unat b" by (simp add: unat_gt_0)
    then show ?thesis using f False
      by (simp add: rtype_hilo_def Let_def a_def[symmetric] b_def[symmetric] next_insn_def unat_div unat_mod)
  qed (use f in \<open>simp add: rtype_hilo_def Let_def b_def\<close>)
qed

theorem mult_div_correct_witness:
  "\<exists>t. rtype_hilo 0x00850019 sample_state = Inr t \<and> unat (hilo t) = 0x1001 * 0x12345678"
proof -
  have f: "funct_of 0x00850019 = 0x19" "rs_of 0x00850019 = 4" "rt_of 0x00850019 = 5" by code_simp+
  show ?thesis using mult_div_correct[of "0x00850019" sample_state] by (simp add: f sample_facts)
qed

text \<open>The accumulating instructions: with a low word that is not negative as a signed number the
  accumulator is the pair of registers; with a negative one its sign bits overwrite the high word.\<close>

lemma madd_acc_nonneg:
  assumes "0 \<le> sint (lo s)"
  shows "madd_acc s = hilo s"
proof -
  have "scast (lo s) = (ucast (lo s) :: u64)"
  proof -
    have b: "\<not> bit (lo s) 31" using assms by (simp add: not_less[symmetric] bit_last_iff[symmetric])
    show ?thesis
    proof (rule bit_word_eqI)
      fix n assume "n < LENGTH(64)"
      then show "bit (scast (lo s) :: u64) n = bit (ucast (lo s) :: u64) n"
        using b by (cases "n = 31") (auto simp: bit_simps min_def dest!: bit_imp_le_length)
    qed
  qed
  then show ?thesis
    unfolding madd_acc_def hilo_def le64_def
    by (intro bit_word_eqI) (auto simp: bit_simps)
qed

lemma madd_drops_high_word: "lo s = 0x80000000 \<Longrightarrow> hi s = 0 \<Longrightarrow> madd_acc s = 0xFFFFFFFF80000000 \<and> hilo s = 0x80000000"
  by (simp add: madd_acc_def hilo_def le64_def)

section \<open>Bit fields\<close>

text \<open>C35. \<open>ins\<close> of a field followed by \<open>ext\<close> of the same field gives the low bits of the inserted
  register, and \<open>ins\<close> leaves every bit outside the field alone.  The field has at most 31 bits: the code shifts
  by the width, which is undefined for the whole register.\<close>

theorem ins_ext_roundtrip:
  assumes "funct_of i = 4" "funct_of j = 0" "sa_of i = p" "sa_of j = p" "rd_of i = p + n" "rd_of j = n" "n < 31"
    "rs_of j = rt_of i"
  shows "\<exists>t u. execSpecial3 i s = Inr t \<and> execSpecial3 j t = Inr u
    \<and> gpr u (rt_of j) = take_bit (n + 1) (gpr s (rs_of i))
    \<and> (\<forall>k. k < p \<or> p + n < k \<longrightarrow> bit (gpr t (rt_of i)) k = bit (gpr s (rt_of i)) k)"
proof -
  define w where "w = gpr s (rs_of i)"
  define v where "v = gpr s (rt_of i)"
  have pn: "p + n < 32" using reg_less(3)[of i] assms(5) by simp
  have "of_nat (p + n) - of_nat p + (1 :: u32) = of_nat (n + 1)" by (simp add: algebra_simps)
  moreover have "unat (of_nat (n + 1) :: u32) = n + 1"
  proof -
    have "n + 1 < 2 ^ LENGTH(32)" using assms(7) by simp
    then show ?thesis by (simp only: unsigned_of_nat take_bit_nat_eq_self of_nat_id)
  qed
  ultimately have sz: "unat (of_nat (p + n) - of_nat p + (1 :: u32)) = n + 1" by (simp only:)
  define c where "c = (v AND NOT (push_bit p (mask (n + 1)))) OR push_bit p (w AND mask (n + 1))"
  define t where "t = next_insn (set_gpr (rt_of i) c s)"
  have 1: "execSpecial3 i s = Inr t"
    unfolding execSpecial3_def Let_def assms(1,3,5) sz push_mask c_def t_def v_def w_def using assms(7) by simp
  define u where "u = next_insn (set_gpr (rt_of j) (signed_drop_bit p c AND mask (n + 1)) t)"
  have 2: "execSpecial3 j t = Inr u"
    unfolding execSpecial3_def Let_def assms(2,4,6,8) push_mask u_def t_def using assms(7) by simp
  have c: "bit c k = (if k < p \<or> p + n < k then bit v k else bit w (k - p))" if "k < 32" for k
    using that pn by (auto simp: c_def bit_simps)
  have "signed_drop_bit p c AND mask (n + 1) = take_bit (n + 1) w"
  proof (rule bit_word_eqI)
    fix k assume "k < LENGTH(32)"
    then show "bit (signed_drop_bit p c AND mask (n + 1)) k = bit (take_bit (n + 1) w) k"
      using pn by (cases "k < n + 1") (auto simp: bit_simps c)
  qed
  moreover have "bit c k = bit v k" if "k < p \<or> p + n < k" for k
    using c[of k] that by (cases "k < 32") (auto dest: bit_imp_le_length)
  ultimately show ?thesis using 1 2 by (simp add: u_def t_def w_def v_def)
qed

theorem ins_ext_roundtrip_witness:
  "\<exists>t u. execSpecial3 0x7CA65904 sample_state = Inr t \<and> execSpecial3 0x7CC73900 t = Inr u \<and> gpr u 7 = 0x78"
proof -
  have f: "funct_of 0x7CA65904 = 4" "funct_of 0x7CC73900 = 0" "sa_of 0x7CA65904 = 4" "sa_of 0x7CC73900 = 4"
    "rd_of 0x7CA65904 = 4 + 7" "rd_of 0x7CC73900 = 7" "rs_of 0x7CC73900 = rt_of 0x7CA65904" "rs_of 0x7CA65904 = 5"
    "rt_of 0x7CC73900 = 7" by code_simp+
  have "take_bit (7 + 1) (gpr sample_state 5) = 0x78" by (simp add: sample_facts)
  then show ?thesis using ins_ext_roundtrip[OF f(1-6) _ f(7), of sample_state] unfolding f by auto
qed

section \<open>Condition codes\<close>

text \<open>Setting a condition code to 0 or 1 makes it read as that value, and leaves the other seven
  condition codes as they were.\<close>

theorem condition_code_set_get:
  assumes "v = 0 \<or> v = 1" "c < 8" "d < 8"
  shows "getConditionCode (setConditionCode v c s) d = (if d = c then v else getConditionCode s d)"
proof -
  have g: "getConditionCode t k = of_bool (bit (fcr1 t 2) k)" if "k < 8" for t k
  proof (rule bit_word_eqI)
    fix n assume "n < LENGTH(32)"
    then show "bit (getConditionCode t k) n = bit (of_bool (bit (fcr1 t 2) k) :: u32) n"
      using that by (cases n) (auto simp: getConditionCode_def bit_simps)
  qed
  have m: "NOT (v - 1) = (if v = 0 then 0 else NOT 0)" using assms(1) by auto
  have "bit (fcr1 (setConditionCode v c s) 2) d = (if d = c then v = 1 else bit (fcr1 s 2) d)"
    using assms by (auto simp: setConditionCode_def Let_def m bit_simps)
  then show ?thesis using assms by (auto simp: g)
qed

theorem condition_code_set_get_witness:
  "getConditionCode (setConditionCode 1 3 sample_state) 3 = 1 \<and> getConditionCode (setConditionCode 1 3 sample_state) 5 = 0"
proof -
  have "getConditionCode sample_state 5 = 0"
    by (simp add: getConditionCode_def sample_state_def set_gpr_def new_state_def)
  then show ?thesis
    using condition_code_set_get[of 1 3 3 sample_state] condition_code_set_get[of 1 3 5 sample_state] by simp
qed

section \<open>Unknown instructions\<close>

definition no_opcode :: "nat set" where
  "no_opcode = {0x12, 0x18, 0x19, 0x1a, 0x1b, 0x1d, 0x1e, 0x27, 0x2c, 0x2d, 0x2f, 0x32, 0x33, 0x34, 0x36, 0x37,
     0x3a, 0x3b, 0x3c, 0x3e, 0x3f}"

definition no_funct :: "nat set" where
  "no_funct = {0x0e, 0x14, 0x15, 0x16, 0x17, 0x1c, 0x1d, 0x1e, 0x1f, 0x22, 0x28, 0x29, 0x2c, 0x2d, 0x2e, 0x2f, 0x30, 0x31,
     0x32, 0x33, 0x35, 0x36, 0x37, 0x38, 0x39, 0x3a, 0x3b, 0x3c, 0x3d, 0x3e, 0x3f}"

text \<open>C36. An instruction word whose opcode or function code the interpreter does not know, and the
  subtraction that traps on overflow, stop the simulator: the result is the exit, whatever the
  state and the delay slot.\<close>

theorem unknown_instruction_exits:
  assumes "opcode_of inst \<in> no_opcode \<or> (opcode_of inst = 0 \<and> funct_of inst \<in> no_funct)"
  shows "exec_insn P slot inst s = Inl Exit"
proof -
  have "execRType P slot inst s = Inl Exit" if "funct_of inst \<in> no_funct"
    using that unfolding no_funct_def
    by (elim insertE emptyE) (simp_all add: execRType_def rtype_hilo_def rtype_alu_def Let_def)
  moreover have "exec_insn P slot inst s = Inl Exit" if "opcode_of inst \<in> no_opcode"
    using that unfolding no_opcode_def
    by (elim insertE emptyE) (simp_all add: exec_insn_def getInsnType_def execIType_def itype_mem_def itype_branch_def Let_def)
  moreover have "exec_insn P slot inst s = execRType P slot inst s" if "opcode_of inst = 0"
    using that by (simp add: exec_insn_def getInsnType_def)
  ultimately show ?thesis using assms by auto
qed

theorem unknown_instruction_exits_witness:
  "exec_insn sample_params Inr 0x00850022 sample_state = Inl Exit"
proof -
  have "opcode_of 0x00850022 = 0" "funct_of 0x00850022 = 0x22" by code_simp+
  then show ?thesis by (intro unknown_instruction_exits) (simp add: no_funct_def)
qed

section \<open>Monitor vectors\<close>

definition vector_addr :: "nat \<Rightarrow> nat" where
  "vector_addr i = 0xBFC00000 + 4 * i"

lemma vector_unat: "i < 512 \<Longrightarrow> unat (monitor_base + of_nat (4 * i)) = vector_addr i"
proof -
  assume i: "i < 512"
  then have "4 * i < 2 ^ LENGTH(32)" by simp
  then have "unat (of_nat (4 * i) :: u32) = 4 * i"
    by (simp only: unsigned_of_nat take_bit_nat_eq_self of_nat_id)
  then show ?thesis using i by (simp add: unat_word_ariths monitor_base_def vector_addr_def del: of_nat_mult)
qed

lemma mk_vectors_ok:
  assumes "wf_mem m" "0xBFC00800 \<le> mem_limit m" "distinct js" "\<forall>i \<in> set js. i < 512"
  shows "\<exists>m'. mk_vectors js m = Inr m' \<and> wf_mem m' \<and> npages m' = npages m
    \<and> (\<forall>i \<in> set js. be32 m' (vector_addr i) = monitor_insn (of_nat (4 * i)))
    \<and> (\<forall>x. (\<forall>i \<in> set js. \<not> (vector_addr i \<le> x \<and> x < vector_addr i + 4)) \<longrightarrow> byte_at m' x = byte_at m x)"
  using assms
proof (induction js arbitrary: m)
  case Nil
  then show ?case by simp
next
  case (Cons i js)
  define a where "a = monitor_base + of_nat (4 * i)"
  have i: "i < 512" using Cons.prems(4) by simp
  have ua: "unat a = vector_addr i" using vector_unat[OF i] by (simp add: a_def)
  have "fits m 4 a"
  proof -
    have "vector_addr i mod 4096 = 4 * i" using i by (simp add: vector_addr_def mod_add_eq[symmetric, of "3217031168"])
    then show ?thesis using i Cons.prems(2) unfolding fits_def ua by (simp add: pgsize_def) (simp add: vector_addr_def)
  qed
  from set32_be[OF Cons.prems(1) this, of "monitor_insn (of_nat (4 * i))"]
  obtain m1 where m1: "set32 a (bswap32 (monitor_insn (of_nat (4 * i)))) m = Inr m1"
      "stored (vector_addr i) (be_bytes (monitor_insn (of_nat (4 * i)))) m m1" unfolding ua by blast
  have w: "wf_mem m1" "npages m1 = npages m" using m1(2) by (simp_all add: stored_def)
  obtain m2 where m2: "mk_vectors js m1 = Inr m2" "wf_mem m2" "npages m2 = npages m1"
      "\<forall>j \<in> set js. be32 m2 (vector_addr j) = monitor_insn (of_nat (4 * j))"
      "\<forall>x. (\<forall>j \<in> set js. \<not> (vector_addr j \<le> x \<and> x < vector_addr j + 4)) \<longrightarrow> byte_at m2 x = byte_at m1 x"
    using Cons.IH[of m1] Cons.prems w by (auto simp: mem_limit_def)
  have keep: "byte_at m2 x = byte_at m1 x" if "vector_addr i \<le> x" "x < vector_addr i + 4" for x
  proof -
    have "\<not> (vector_addr j \<le> x \<and> x < vector_addr j + 4)" if "j \<in> set js" for j
    proof -
      have "j \<noteq> i" using that Cons.prems(3) by auto
      then have "j < i \<or> i < j" by linarith
      then show ?thesis using \<open>vector_addr i \<le> x\<close> \<open>x < vector_addr i + 4\<close>
        by (elim disjE) (simp_all add: vector_addr_def)
    qed
    then show ?thesis using m2(5) by blast
  qed
  have "be32 m2 (vector_addr i) = be32 m1 (vector_addr i)"
    by (simp add: be32_def keep)
  then have "be32 m2 (vector_addr i) = monitor_insn (of_nat (4 * i))"
    using stored_be(1)[OF m1(2)] by simp
  moreover have "byte_at m1 x = byte_at m x" if "\<not> (vector_addr i \<le> x \<and> x < vector_addr i + 4)" for x
    using m1(2) that by (auto simp: stored_def)
  ultimately show ?case using m1(1) m2 w by (simp add: a_def)
qed

lemma unat_small: "k < 2 ^ 32 \<Longrightarrow> unat (of_nat k :: u32) = k"
proof -
  assume "k < 2 ^ 32"
  then have "k < 2 ^ LENGTH(32)" by simp
  then show ?thesis by (simp only: unsigned_of_nat take_bit_nat_eq_self of_nat_id)
qed

lemma unat_drop: "unat (drop_bit k x) = unat x div 2 ^ k" for x :: u32
proof -
  have "unat x < 2 ^ 32" using unsigned_less[of x, where ?'a = nat] by simp
  then have "take_bit 32 (unat x) = unat x" by (simp only: take_bit_nat_eq_self)
  then show ?thesis by (simp add: unsigned_drop_bit_eq drop_bit_nat_def)
qed

lemma monitor_insn_eq:
  assumes "i < 512"
  shows "unat (monitor_insn (of_nat (4 * i))) = 5 + 64 * i"
proof -
  have "unat (drop_bit 2 (of_nat (4 * i) :: u32) AND (2 ^ 20 - 1)) = i"
    unfolding unat_and_pow2 unat_drop using assms by (subst unat_small) simp_all
  then have y: "drop_bit 2 (of_nat (4 * i) :: u32) AND 0xFFFFF = of_nat i"
    using assms by (simp add: word_unat_eq_iff unat_small del: of_nat_mult)
  have "(5 :: u32) AND push_bit 6 (of_nat i) = take_bit 6 5 AND push_bit 6 (of_nat i)" by simp
  also have "\<dots> = 0" by (rule bit_word_eqI) (simp only: bit_and_iff bit_take_bit_iff bit_push_bit_iff bit_0_eq bot_apply; auto)
  finally have "(5 :: u32) AND push_bit 6 (of_nat i) = 0" .
  then have "monitor_insn (of_nat (4 * i)) = 5 + push_bit 6 (of_nat i)"
    unfolding monitor_insn_def y using disjunctive_add_eq_or[of "5 :: u32" "push_bit 6 (of_nat i)"] by simp
  also have "\<dots> = of_nat (5 + 64 * i)" by (simp add: push_bit_eq_mult)
  finally show ?thesis using assms by (simp add: unat_small del: of_nat_add of_nat_mult)
qed

lemma monitor_insn_fields:
  assumes "i < 512"
  shows "opcode_of (monitor_insn (of_nat (4 * i))) = 0" "funct_of (monitor_insn (of_nat (4 * i))) = 5"
    "monitor_reason (monitor_insn (of_nat (4 * i))) = i div 2"
proof -
  note u = monitor_insn_eq[OF assms]
  show "opcode_of (monitor_insn (of_nat (4 * i))) = 0"
    using assms by (simp only: opcode_of_def unat_drop u) simp
  have "(5 + 64 * i) mod 64 = 5" by simp
  then show "funct_of (monitor_insn (of_nat (4 * i))) = 5"
    by (simp only: funct_of_def fld_def take_bit_eq_mask[symmetric] unat_take_bit unat_drop u) simp
  have m: "(0xFFFFF :: u32) = 2 ^ 20 - 1" by simp
  have "(5 + 64 * i) div 2 ^ 6 mod 2 ^ 20 div 2 ^ 1 = i div 2" using assms by simp
  then show "monitor_reason (monitor_insn (of_nat (4 * i))) = i div 2"
    by (simp only: monitor_reason_def m unat_drop unat_and_pow2 u)
qed

text \<open>After the simulator has written its vectors, the word at \<open>0xBFC00000 + 4 * i\<close> is an
  instruction that asks for the monitor call number \<open>i div 2\<close>, so a jump to \<open>0xBFC00000 + 8 * n\<close>
  performs call \<open>n\<close>.\<close>

theorem vectors_call_monitor:
  assumes "wf_mem (mem s)" "0xBFC00800 \<le> mem_limit (mem s)" "i < 512"
  shows "\<exists>t. mkMonitorVectors s = Inr t \<and> wf_mem (mem t)
    \<and> (\<forall>P slot u. exec_insn P slot (be32 (mem t) (vector_addr i)) u = monitorBody P (be32 (mem t) (vector_addr i)) u)
    \<and> monitor_reason (be32 (mem t) (vector_addr i)) = i div 2"
proof -
  obtain m where m: "mk_vectors [0..<512] (mem s) = Inr m" "wf_mem m"
      "\<forall>i \<in> {0..<512}. be32 m (vector_addr i) = monitor_insn (of_nat (4 * i))"
    using mk_vectors_ok[OF assms(1,2), of "[0..<512]"] by auto
  have w: "be32 m (vector_addr i) = monitor_insn (of_nat (4 * i))" using m(3) assms(3) by simp
  note f = monitor_insn_fields[OF assms(3)]
  have "exec_insn P slot (monitor_insn (of_nat (4 * i))) u = monitorBody P (monitor_insn (of_nat (4 * i))) u" for P slot u
    by (simp only: exec_insn_def getInsnType_def execRType_def rtype_shift_def Let_def f) simp
  then show ?thesis using m f(3) by (simp add: mkMonitorVectors_def w)
qed

theorem vectors_call_monitor_witness:
  "\<exists>t. mkMonitorVectors (new_state (new_mem (2 ^ 32)) 0) = Inr t
     \<and> monitor_reason (be32 (mem t) (vector_addr 16)) = 8"
proof -
  have "wf_mem (mem (new_state (new_mem (2 ^ 32)) 0))" by (simp add: new_state_def wf_new_mem)
  moreover have "0xBFC00800 \<le> mem_limit (mem (new_state (new_mem (2 ^ 32)) 0))"
    by (simp add: new_state_def mem_limit_def new_mem_def pgsize_def)
  ultimately show ?thesis using vectors_call_monitor[of "new_state (new_mem (2 ^ 32)) 0" 16] by auto
qed

end
