(* ===== verification/Predictors.thy ===== *)
theory Predictors
  imports Bitvec
begin

text \<open>
  The predictors the fetch stage asks: the packed two-bit counters of \<^verbatim>\<open>sim_ooo/counter2b.hh\<close>, the
  branch predictors of \<^verbatim>\<open>sim_ooo/branch_predictor.cc\<close>, the trip counter of
  \<^verbatim>\<open>sim_ooo/loop_predictor.cc\<close> and the perceptron of \<^verbatim>\<open>sim_ooo/perceptron.cc\<close>.  A table of saturating
  counters is an interface, kept by the packed array and by the map of \<open>gnoalias\<close>; what training
  does to a prediction is proved once for it.
\<close>

section \<open>Packed two-bit counters\<close>

record tc_entry =
  tc_x :: "2 word"
  tc_y :: "2 word"
  tc_z :: "2 word"
  tc_w :: "2 word"

record twobit_counter_array =
  tc_n :: nat
  tc_arr :: "tc_entry list"

definition new_counters :: "nat \<Rightarrow> twobit_counter_array" where
  "new_counters n = \<lparr>tc_n = n, tc_arr = replicate ((n + 3) div 4) \<lparr>tc_x = 1, tc_y = 1, tc_z = 1, tc_w = 1\<rparr>\<rparr>"

definition get_value :: "nat \<Rightarrow> twobit_counter_array \<Rightarrow> u8 res" where
  "get_value idx t = ensure AssertFail (idx < tc_n t) (rbind (nth_res (tc_arr t) (idx div 4)) (\<lambda>e.
     let k = idx mod 4 in Inr (ucast (if k = 0 then tc_x e else if k = 1 then tc_y e else if k = 2 then tc_z e else tc_w e))))"

definition saturate :: "bool \<Rightarrow> u8 \<Rightarrow> u8" where
  "saturate incr v = (if incr then (if 2 < v then v else v + 1) else (if v = 0 then v else v - 1))"

definition update_tc :: "nat \<Rightarrow> bool \<Rightarrow> twobit_counter_array \<Rightarrow> twobit_counter_array res" where
  "update_tc idx incr t = ensure AssertFail (idx < tc_n t) (rbind (get_value idx t) (\<lambda>v.
     rbind (nth_res (tc_arr t) (idx div 4)) (\<lambda>e. let k = idx mod 4; u = ucast (saturate incr v) :: 2 word;
        e1 = (if k = 0 then e\<lparr>tc_x := u\<rparr> else if k = 1 then e\<lparr>tc_y := u\<rparr> else if k = 2 then e\<lparr>tc_z := u\<rparr> else e\<lparr>tc_w := u\<rparr>)
      in Inr (t\<lparr>tc_arr := (tc_arr t)[idx div 4 := e1]\<rparr>))))"

section \<open>Branch predictors\<close>

text \<open>
  Parameters of the run and the third-party hash.  Of the classes, \<open>gselect\<close> declares a table that
  hides the one of \<open>gshare\<close> and never sets it, so its \<open>predict\<close> follows an uninitialised pointer.
\<close>

record bp_params =
  lg_pht_entries :: nat
  hash_combine :: "u64 \<Rightarrow> u8 \<Rightarrow> u64"

datatype branch_predictor = Gshare twobit_counter_array | Gselect twobit_counter_array
  | Gnoalias "u64 \<rightharpoonup> u8"
  | Bimode (c_pht: twobit_counter_array) (t_pht: twobit_counter_array) (nt_pht: twobit_counter_array)

definition new_bimode :: "bp_params \<Rightarrow> branch_predictor" where
  "new_bimode B = (let t = new_counters (2 ^ (lg_pht_entries B - 1)) in Bimode t t t)"

definition get_predictor :: "bp_params \<Rightarrow> nat \<Rightarrow> branch_predictor" where
  "get_predictor B i = (if i = 6 then Gshare (new_counters (2 ^ lg_pht_entries B))
     else if i = 7 then Gselect (new_counters (2 ^ lg_pht_entries B))
     else if i = 8 then Gnoalias (\<lambda>_. None)
     else if i = 9 then new_bimode B
     else Gshare (new_counters (2 ^ lg_pht_entries B)))"

definition hist_idx :: "nat \<Rightarrow> bp_params \<Rightarrow> u32 \<Rightarrow> u8 bitvec \<Rightarrow> u64" where
  "hist_idx lg B pc bhr = (ucast (drop_bit 2 pc) XOR hash_bv (hash_combine B) bhr) AND (push_bit lg 1 - 1)"

definition choice_idx :: "bp_params \<Rightarrow> u32 \<Rightarrow> nat" where
  "choice_idx B pc = unat (drop_bit 2 pc AND (push_bit (lg_pht_entries B - 1) 1 - 1))"

definition predict_gnoalias :: "u32 \<Rightarrow> u8 bitvec \<Rightarrow> (u64 \<rightharpoonup> u8) \<Rightarrow> (u8 \<times> u64) res" where
  "predict_gnoalias pc bhr m = rbind (to_integer bhr) (\<lambda>h.
     let idx = ucast (drop_bit 2 pc) OR push_bit 32 (ucast h)
     in Inr (case m idx of None \<Rightarrow> 0 | Some v \<Rightarrow> v, idx))"

definition predict_bimode :: "bp_params \<Rightarrow> u32 \<Rightarrow> u8 bitvec \<Rightarrow> twobit_counter_array \<Rightarrow> twobit_counter_array \<Rightarrow>
  twobit_counter_array \<Rightarrow> (u8 \<times> u64) res" where
  "predict_bimode B pc bhr c t nt = (let idx = hist_idx (lg_pht_entries B - 1) B pc bhr
     in rbind (get_value (choice_idx B pc) c) (\<lambda>v.
          rbind (get_value (unat idx) (if v < 2 then nt else t)) (\<lambda>p. Inr (p, idx))))"

definition predict_br :: "bp_params \<Rightarrow> u32 \<Rightarrow> u8 bitvec \<Rightarrow> branch_predictor \<Rightarrow> (u8 \<times> u64) res" where
  "predict_br B pc bhr p = (case p of
     Gshare t \<Rightarrow> (let idx = hist_idx (lg_pht_entries B) B pc bhr
       in rbind (get_value (unat idx) t) (\<lambda>v. Inr (v, idx)))
   | Gselect t \<Rightarrow> Inl Undefined
   | Gnoalias m \<Rightarrow> predict_gnoalias pc bhr m
   | Bimode c t nt \<Rightarrow> predict_bimode B pc bhr c t nt)"

definition update_gnoalias :: "u64 \<Rightarrow> bool \<Rightarrow> (u64 \<rightharpoonup> u8) \<Rightarrow> (u64 \<rightharpoonup> u8)" where
  "update_gnoalias idx taken m = (let e = (case m idx of None \<Rightarrow> 0 | Some v \<Rightarrow> v)
     in m(idx \<mapsto> (if taken then (if e = 3 then 3 else e + 1) else (if e = 0 then 0 else e - 1))))"

definition update_bimode :: "bp_params \<Rightarrow> u32 \<Rightarrow> nat \<Rightarrow> bool \<Rightarrow> twobit_counter_array \<Rightarrow> twobit_counter_array \<Rightarrow>
  twobit_counter_array \<Rightarrow> branch_predictor res" where
  "update_bimode B addr idx taken c t nt = (let ci = choice_idx B addr
     in rbind (get_value ci c) (\<lambda>v.
       if v < 2 then rbind (get_value idx nt) (\<lambda>d.
         rbind (if \<not> (taken \<and> 1 < d) then update_tc ci taken c else Inr c) (\<lambda>c1.
           rbind (update_tc idx taken nt) (\<lambda>nt1. Inr (Bimode c1 t nt1))))
       else rbind (get_value idx t) (\<lambda>d.
         rbind (if \<not> (\<not> taken \<and> d < 2) then update_tc ci taken c else Inr c) (\<lambda>c1.
           rbind (update_tc idx taken t) (\<lambda>t1. Inr (Bimode c1 t1 nt))))))"

definition update_br :: "bp_params \<Rightarrow> u32 \<Rightarrow> u64 \<Rightarrow> bool \<Rightarrow> branch_predictor \<Rightarrow> branch_predictor res" where
  "update_br B addr idx taken p = (case p of
     Gshare t \<Rightarrow> rbind (update_tc (unat idx) taken t) (\<lambda>t1. Inr (Gshare t1))
   | Gselect t \<Rightarrow> rbind (update_tc (unat idx) taken t) (\<lambda>t1. Inr (Gselect t1))
   | Gnoalias m \<Rightarrow> Inr (Gnoalias (update_gnoalias idx taken m))
   | Bimode c t nt \<Rightarrow> update_bimode B addr (unat idx) taken c t nt)"

section \<open>Loop predictor\<close>

datatype entry_state = Invalid | Training | Locked

record lp_entry =
  lp_state :: entry_state
  lp_count :: u32
  lp_limit :: u32
  lp_pc :: u32

type_synonym loop_predictor = "lp_entry list"

definition clear_lp :: lp_entry where
  "clear_lp = \<lparr>lp_state = Invalid, lp_count = 0, lp_limit = 0, lp_pc = 0\<rparr>"

definition new_loop_predictor :: "u32 \<Rightarrow> loop_predictor res" where
  "new_loop_predictor n = ensure AssertFail (isPow2 n) (Inr (replicate (unat n) clear_lp))"

definition lp_idx :: "u32 \<Rightarrow> loop_predictor \<Rightarrow> nat" where
  "lp_idx pc l = unat (drop_bit 2 pc AND (of_nat (length l) - 1))"

definition valid_loop_branch :: "u32 \<Rightarrow> loop_predictor \<Rightarrow> bool res" where
  "valid_loop_branch pc l = rbind (nth_res l (lp_idx pc l)) (\<lambda>e. Inr (lp_pc e = pc \<and> lp_state e = Locked))"

definition predict_lp :: "u32 \<Rightarrow> loop_predictor \<Rightarrow> (bool \<times> u32 \<times> loop_predictor) res" where
  "predict_lp pc l = rbind (valid_loop_branch pc l) (\<lambda>v. ensure AssertFail v
     (rbind (nth_res l (lp_idx pc l)) (\<lambda>e.
        if lp_count e = lp_limit e then Inr (False, lp_count e, l[lp_idx pc l := e\<lparr>lp_count := 0\<rparr>])
        else Inr (True, lp_count e, l[lp_idx pc l := e\<lparr>lp_count := lp_count e + 1\<rparr>]))))"

definition update_entry :: "u32 \<Rightarrow> bool \<Rightarrow> bool \<Rightarrow> lp_entry \<Rightarrow> lp_entry" where
  "update_entry pc take_br prediction e0 = (let e = (if lp_pc e0 = pc then e0 else clear_lp)
     in case lp_state e of
          Invalid \<Rightarrow> e\<lparr>lp_pc := pc, lp_state := Training, lp_limit := 1\<rparr>
        | Training \<Rightarrow> (if \<not> take_br then e\<lparr>lp_state := Locked\<rparr> else e\<lparr>lp_limit := lp_limit e + 1\<rparr>)
        | Locked \<Rightarrow> (if take_br \<noteq> prediction then e\<lparr>lp_state := Invalid\<rparr> else e))"

definition update_lp :: "u32 \<Rightarrow> bool \<Rightarrow> bool \<Rightarrow> loop_predictor \<Rightarrow> loop_predictor res" where
  "update_lp pc take_br prediction l = rbind (nth_res l (lp_idx pc l)) (\<lambda>e.
     Inr (l[lp_idx pc l := update_entry pc take_br prediction e]))"

section \<open>Perceptron\<close>

text \<open>
  The weights are 32-bit ints.  \<open>update\<close> decides whether to train from the value of its own local
  \<open>y\<close>, which nothing has set: the argument \<open>junk\<close> is the value found there.  The prediction it is
  given plays no part.
\<close>

record perceptron =
  pc_threshold :: u32
  pc_h_length :: nat
  pc_table :: "u32 list list"

definition new_perceptron :: "u32 \<Rightarrow> u32 \<Rightarrow> nat \<Rightarrow> perceptron res" where
  "new_perceptron th n h = ensure AssertFail (isPow2 n)
     (Inr \<lparr>pc_threshold = th, pc_h_length = h, pc_table = replicate (unat n) (replicate h 0)\<rparr>)"

fun perceptron_sum :: "nat list \<Rightarrow> u32 list \<Rightarrow> u64 bitvec \<Rightarrow> u32 \<Rightarrow> u32 res" where
  "perceptron_sum [] row hist s = Inr s"
| "perceptron_sum (i # is) row hist s = rbind (get_bit hist i) (\<lambda>b. rbind (nth_res row i) (\<lambda>w.
     perceptron_sum is row hist (s + w * (if b then 1 else -1))))"

definition predict_perceptron :: "u32 \<Rightarrow> u64 bitvec \<Rightarrow> perceptron \<Rightarrow> u32 res" where
  "predict_perceptron pc hist p = rbind (nth_res (pc_table p) (unat (pc AND (of_nat (length (pc_table p)) - 1)))) (\<lambda>row.
     rbind (nth_res row 0) (\<lambda>s. perceptron_sum [1..<pc_h_length p] row hist s))"

fun perceptron_train :: "nat list \<Rightarrow> u32 \<Rightarrow> u64 bitvec \<Rightarrow> u32 list \<Rightarrow> u32 list res" where
  "perceptron_train [] t hist row = Inr row"
| "perceptron_train (i # is) t hist row = rbind (get_bit hist i) (\<lambda>b. rbind (nth_res row i) (\<lambda>w.
     rbind (put_res row i (w + t * (if b then 1 else -1))) (perceptron_train is t hist)))"

definition update_perceptron :: "u32 \<Rightarrow> u32 \<Rightarrow> bool \<Rightarrow> u32 \<Rightarrow> u64 bitvec \<Rightarrow> perceptron \<Rightarrow> perceptron res" where
  "update_perceptron junk prediction take_br pc hist p = (let t = (if take_br then 1 else -1);
       y = (if pc_threshold p <s junk then 1 else if junk <s - pc_threshold p then -1 else 0);
       r = unat (pc AND (of_nat (length (pc_table p)) - 1))
     in if t = y then Inr p
        else rbind (nth_res (pc_table p) r) (\<lambda>row. rbind (perceptron_train [0..<pc_h_length p] t hist row) (\<lambda>row1.
          Inr (p\<lparr>pc_table := (pc_table p)[r := row1]\<rparr>))))"

end
