(* ===== verification/Predictor_Proofs.thy ===== *)
theory Predictor_Proofs
  imports Predictors
begin

text \<open>
  What training does to the predictors.  A saturating counter that has seen the same outcome twice
  predicts it, whatever came before, and entries of a table do not disturb each other; a loop
  predictor that has counted one run of a loop predicts every later run of the same length.
\<close>

section \<open>Tables of saturating counters\<close>

definition step2 :: "bool \<Rightarrow> nat \<Rightarrow> nat" where
  "step2 b v = (if b then min 3 (v + 1) else v - 1)"

lemma step2_le: "v \<le> 3 \<Longrightarrow> step2 b v \<le> 3"
  by (auto simp: step2_def)

lemma fold_step2_le: "v \<le> 3 \<Longrightarrow> fold step2 bs v \<le> 3"
  by (induction bs arbitrary: v) (auto simp: step2_le)

lemma step2_twice:
  assumes "v \<le> 3" shows "1 < step2 b (step2 b v) \<longleftrightarrow> b"
proof -
  have "v \<in> {0, 1, 2, 3}" using assms by auto
  then show ?thesis by (auto simp: step2_def)
qed

fun train :: "(bool \<Rightarrow> 't \<Rightarrow> 't res) \<Rightarrow> bool list \<Rightarrow> 't \<Rightarrow> 't res" where
  "train upd [] t = Inr t"
| "train upd (b # bs) t = rbind (upd b t) (train upd bs)"

locale counter_table =
  fixes inv :: "'t \<Rightarrow> bool" and ok :: "'t \<Rightarrow> 'i \<Rightarrow> bool" and val :: "'t \<Rightarrow> 'i \<Rightarrow> nat"
    and upd :: "'i \<Rightarrow> bool \<Rightarrow> 't \<Rightarrow> 't res"
  assumes val_le: "inv t \<Longrightarrow> ok t i \<Longrightarrow> val t i \<le> 3"
    and upd_ok: "inv t \<Longrightarrow> ok t i \<Longrightarrow> \<exists>t'. upd i b t = Inr t' \<and> inv t' \<and> ok t' = ok t \<and>
      val t' i = step2 b (val t i) \<and> (\<forall>j. ok t j \<longrightarrow> j \<noteq> i \<longrightarrow> val t' j = val t j)"
begin

lemma train_ok:
  "inv t \<Longrightarrow> ok t i \<Longrightarrow> \<exists>t'. train (upd i) bs t = Inr t' \<and> inv t' \<and> ok t' = ok t \<and>
     val t' i = fold step2 bs (val t i) \<and> (\<forall>j. ok t j \<longrightarrow> j \<noteq> i \<longrightarrow> val t' j = val t j)"
proof (induction bs arbitrary: t)
  case (Cons b bs)
  obtain u where u: "upd i b t = Inr u" "inv u" "ok u = ok t" "val u i = step2 b (val t i)"
      "\<forall>j. ok t j \<longrightarrow> j \<noteq> i \<longrightarrow> val u j = val t j"
    using upd_ok[OF Cons.prems] by blast
  then have "ok u i" using Cons.prems by simp
  from Cons.IH[OF u(2) this] u show ?case by auto
qed simp

lemma twice_learned:
  assumes "inv t" "ok t i"
  shows "\<exists>t'. train (upd i) (bs @ [b, b]) t = Inr t' \<and> inv t' \<and> ok t' = ok t \<and> (1 < val t' i \<longleftrightarrow> b) \<and>
    (\<forall>j. ok t j \<longrightarrow> j \<noteq> i \<longrightarrow> val t' j = val t j)"
  using train_ok[OF assms, of "bs @ [b, b]"] step2_twice[OF fold_step2_le[OF val_le[OF assms], of bs], of b]
  by auto

end

section \<open>The packed array keeps the contract\<close>

definition wf_tc :: "twobit_counter_array \<Rightarrow> bool" where
  "wf_tc t \<longleftrightarrow> length (tc_arr t) = (tc_n t + 3) div 4"

definition tc_val :: "twobit_counter_array \<Rightarrow> nat \<Rightarrow> nat" where
  "tc_val t i = (case get_value i t of Inr v \<Rightarrow> unat v | Inl _ \<Rightarrow> 0)"

lemma unat_2_less: "unat (x :: 2 word) < 4"
  using unsigned_less[of x] by simp

lemma div4_bound: "i < n \<Longrightarrow> i div 4 < (n + 3) div (4 :: nat)"
  by linarith

lemma word_le3:
  assumes "unat x \<le> 3" shows "x = 0 \<or> x = 1 \<or> x = 2 \<or> x = 3"
proof -
  have *: "x = of_nat n" if "unat x = n" for n using that by auto
  have "unat x = 0 \<or> unat x = 1 \<or> unat x = 2 \<or> unat x = 3" using assms by linarith
  then show ?thesis using *[of 0] *[of 1] *[of 2] *[of 3] by fastforce
qed

lemma unat_ucast_2: "unat (ucast (x :: 2 word) :: u8) = unat x"
  using unat_2_less[of x] by (simp add: unsigned_ucast_eq take_bit_nat_eq_self)

lemma saturate_step2:
  assumes "v = ucast (x :: 2 word)"
  shows "unat (ucast (saturate b v) :: 2 word) = step2 b (unat v)"
proof -
  have "x = 0 \<or> x = 1 \<or> x = 2 \<or> x = 3" using unat_2_less[of x] by (intro word_le3) linarith
  then show ?thesis using assms by (cases b) (auto simp: saturate_def step2_def)
qed

definition tc_slot :: "nat \<Rightarrow> tc_entry \<Rightarrow> 2 word" where
  "tc_slot k e = (if k = 0 then tc_x e else if k = 1 then tc_y e else if k = 2 then tc_z e else tc_w e)"

lemma get_value_wf:
  "wf_tc t \<Longrightarrow> i < tc_n t \<Longrightarrow> get_value i t = Inr (ucast (tc_slot (i mod 4) (tc_arr t ! (i div 4))))"
  using div4_bound[of i "tc_n t"] by (simp add: get_value_def wf_tc_def nth_res_def tc_slot_def Let_def)

lemma tc_val_wf: "wf_tc t \<Longrightarrow> i < tc_n t \<Longrightarrow> tc_val t i = unat (tc_slot (i mod 4) (tc_arr t ! (i div 4)))"
  by (simp add: tc_val_def get_value_wf unat_ucast_2)

lemma update_tc_wf:
  assumes "wf_tc t" "i < tc_n t"
  shows "\<exists>t'. update_tc i b t = Inr t' \<and> wf_tc t' \<and> tc_n t' = tc_n t \<and> tc_val t' i = step2 b (tc_val t i) \<and>
    (\<forall>j < tc_n t. j \<noteq> i \<longrightarrow> tc_val t' j = tc_val t j)"
proof -
  let ?e = "tc_arr t ! (i div 4)" and ?k = "i mod 4"
  let ?u = "ucast (saturate b (ucast (tc_slot ?k ?e))) :: 2 word"
  let ?e1 = "if ?k = 0 then ?e\<lparr>tc_x := ?u\<rparr> else if ?k = 1 then ?e\<lparr>tc_y := ?u\<rparr> else if ?k = 2 then ?e\<lparr>tc_z := ?u\<rparr> else ?e\<lparr>tc_w := ?u\<rparr>"
  let ?t = "t\<lparr>tc_arr := (tc_arr t)[i div 4 := ?e1]\<rparr>"
  have len: "i div 4 < length (tc_arr t)" using assms div4_bound by (simp add: wf_tc_def)
  have upd: "update_tc i b t = Inr ?t"
    using assms len by (simp add: update_tc_def get_value_wf nth_res_def Let_def)
  have wf: "wf_tc ?t" using assms by (simp add: wf_tc_def)
  have k4: "?k < 4" by simp
  have slot: "tc_slot k ?e1 = (if k = ?k then ?u else tc_slot k ?e)" if "k < 4" for k
    using that k4 by (auto simp: tc_slot_def)
  have "tc_val ?t j = (if j = i then step2 b (tc_val t i) else tc_val t j)" if j: "j < tc_n t" for j
  proof (cases "j div 4 = i div 4")
    case True
    then have "j mod 4 = ?k \<longleftrightarrow> j = i" using div_mult_mod_eq[of j 4] div_mult_mod_eq[of i 4] by metis
    then show ?thesis
      using True slot[of "j mod 4"] len wf j assms tc_val_wf[of ?t j] tc_val_wf[of t j] tc_val_wf[of t i]
        saturate_step2[OF refl, of b "tc_slot ?k ?e"]
      by (auto simp: unat_ucast_2)
  next
    case False
    then show ?thesis using wf j assms tc_val_wf[of ?t j] tc_val_wf[of t j] by auto
  qed
  then show ?thesis using upd wf assms(2) by auto
qed

interpretation tc: counter_table wf_tc "\<lambda>t i. i < tc_n t" tc_val update_tc
proof (unfold_locales, goal_cases)
  case (1 t i)
  then show ?case using unat_2_less[of "tc_slot (i mod 4) (tc_arr t ! (i div 4))"] by (simp add: tc_val_wf)
next
  case (2 t i b)
  from update_tc_wf[OF this, of b] obtain t' where
    "update_tc i b t = Inr t'" "wf_tc t'" "tc_n t' = tc_n t" "tc_val t' i = step2 b (tc_val t i)"
    "\<forall>j < tc_n t. j \<noteq> i \<longrightarrow> tc_val t' j = tc_val t j" by blast
  then show ?case by (intro exI[of _ t']) simp
qed

text \<open>The map of \<open>gnoalias\<close>, whose counters start at zero.\<close>

definition gn_val :: "(u64 \<rightharpoonup> u8) \<Rightarrow> u64 \<Rightarrow> nat" where
  "gn_val m i = (case m i of None \<Rightarrow> 0 | Some v \<Rightarrow> unat v)"

definition wf_gn :: "(u64 \<rightharpoonup> u8) \<Rightarrow> bool" where
  "wf_gn m \<longleftrightarrow> (\<forall>i. gn_val m i \<le> 3)"

lemma gn_val_update:
  assumes "wf_gn m"
  shows "gn_val (update_gnoalias i b m) j = (if j = i then step2 b (gn_val m i) else gn_val m j)"
proof (cases "m i")
  case None
  then show ?thesis by (auto simp: gn_val_def update_gnoalias_def step2_def)
next
  case (Some v)
  then have "unat v \<le> 3" using assms by (auto simp: wf_gn_def gn_val_def dest: spec[of _ i])
  from word_le3[OF this] Some show ?thesis by (auto simp: gn_val_def update_gnoalias_def step2_def)
qed

interpretation gn: counter_table wf_gn "\<lambda>_ _. True" gn_val "\<lambda>i b m. Inr (update_gnoalias i b m)"
proof (unfold_locales, goal_cases)
  case (1 t i)
  then show ?case by (simp add: wf_gn_def)
next
  case (2 t i b)
  then have "wf_gn (update_gnoalias i b t)"
    using step2_le by (auto simp: wf_gn_def gn_val_update)
  then show ?case using 2 by (auto simp: gn_val_update)
qed


section \<open>Predictions after training\<close>

definition wf_bp :: "branch_predictor \<Rightarrow> bool" where
  "wf_bp p = (case p of Gshare t \<Rightarrow> wf_tc t | Gnoalias m \<Rightarrow> wf_gn m | _ \<Rightarrow> False)"

lemma train_gshare:
  "train (update_br B a idx) bs (Gshare t) = rbind (train (update_tc (unat idx)) bs t) (\<lambda>t'. Inr (Gshare t'))"
proof (induction bs arbitrary: t)
  case (Cons b bs)
  then show ?case by (cases "update_tc (unat idx) b t") (simp_all add: update_br_def)
qed simp

lemma train_gnoalias:
  "train (update_br B a idx) bs (Gnoalias m) =
     rbind (train (\<lambda>b m. Inr (update_gnoalias idx b m)) bs m) (\<lambda>m'. Inr (Gnoalias m'))"
  by (induction bs arbitrary: m) (simp_all add: update_br_def)

lemma get_value_tc_val:
  assumes "wf_tc t" "i < tc_n t" shows "\<exists>v. get_value i t = Inr v \<and> unat v = tc_val t i"
  using get_value_wf[OF assms] tc_val_wf[OF assms] by (simp add: unat_ucast_2)

lemma get_value_eqI:
  assumes "wf_tc t" "wf_tc t'" "tc_n t' = tc_n t" "i < tc_n t \<Longrightarrow> tc_val t' i = tc_val t i"
  shows "get_value i t' = get_value i t"
proof (cases "i < tc_n t")
  case True
  then obtain v v' where "get_value i t = Inr v" "unat v = tc_val t i" "get_value i t' = Inr v'" "unat v' = tc_val t' i"
    using get_value_tc_val assms by metis
  then have "get_value i t = Inr v" "get_value i t' = Inr v'" "unat v' = unat v" using assms(4)[OF True] by simp_all
  then show ?thesis by (simp add: word_unat_eq_iff)
qed (simp add: get_value_def assms(3))

lemma less_bound_eq: "(\<lambda>i. i < a) = (\<lambda>i. i < (b :: nat)) \<Longrightarrow> a = b"
  by (metis nat_neq_iff)

lemma one_less_u8: "(1 < (v :: u8)) \<longleftrightarrow> 1 < unat v"
  by (simp add: word_less_nat_alt)

lemma gshare_learns:
  assumes wf: "wf_tc t" and p: "predict_br B pc bhr (Gshare t) = Inr (v, idx)"
  shows "\<exists>t' v'. train (update_br B a idx) (bs @ [b, b]) (Gshare t) = Inr (Gshare t') \<and> wf_tc t' \<and>
    predict_br B pc bhr (Gshare t') = Inr (v', idx) \<and> (1 < v' \<longleftrightarrow> b) \<and>
    (\<forall>pc2 bhr2 v2 idx2. predict_br B pc2 bhr2 (Gshare t) = Inr (v2, idx2) \<longrightarrow> idx2 \<noteq> idx \<longrightarrow>
       predict_br B pc2 bhr2 (Gshare t') = Inr (v2, idx2))"
proof -
  let ?i = "unat idx"
  have idx: "idx = hist_idx (lg_pht_entries B) B pc bhr" and v: "get_value ?i t = Inr v"
    using p by (auto simp: predict_br_def Let_def rbind_Inr_iff)
  then have i: "?i < tc_n t" by (simp add: get_value_def ensure_Inr_iff)
  from tc.twice_learned[OF wf i, of bs b]
  obtain t' where t': "train (update_tc ?i) (bs @ [b, b]) t = Inr t'" "wf_tc t'" "1 < tc_val t' ?i \<longleftrightarrow> b"
      "\<forall>j. j < tc_n t \<longrightarrow> j \<noteq> ?i \<longrightarrow> tc_val t' j = tc_val t j" "(\<lambda>i. i < tc_n t') = (\<lambda>i. i < tc_n t)"
    by (elim exE conjE) (rule that)
  note n = less_bound_eq[OF t'(5)]
  obtain v' where v': "get_value ?i t' = Inr v'" "unat v' = tc_val t' ?i"
    using get_value_tc_val[OF t'(2)] i n by metis
  have same: "get_value j t' = get_value j t" if "j \<noteq> ?i" for j
    using get_value_eqI[OF wf t'(2) n] t'(4) that by simp
  show ?thesis
  proof (intro exI conjI allI impI)
    show "train (update_br B a idx) (bs @ [b, b]) (Gshare t) = Inr (Gshare t')" using t'(1) by (simp add: train_gshare)
    show "predict_br B pc bhr (Gshare t') = Inr (v', idx)" using v'(1) idx by (simp add: predict_br_def Let_def)
    show "(1 < v') = b" using t'(3) v'(2) by (simp add: one_less_u8)
  next
    fix pc2 bhr2 v2 idx2 assume q: "predict_br B pc2 bhr2 (Gshare t) = Inr (v2, idx2)" "idx2 \<noteq> idx"
    then have "hist_idx (lg_pht_entries B) B pc2 bhr2 = idx2" "get_value (unat idx2) t = Inr v2"
      by (auto simp: predict_br_def Let_def rbind_Inr_iff)
    moreover have "unat idx2 \<noteq> ?i" using q(2) by (simp add: word_unat_eq_iff)
    ultimately show "predict_br B pc2 bhr2 (Gshare t') = Inr (v2, idx2)" using same by (simp add: predict_br_def Let_def)
  qed (rule t'(2))
qed

lemma gnoalias_learns:
  assumes wf: "wf_gn m" and p: "predict_br B pc bhr (Gnoalias m) = Inr (v, idx)"
  shows "\<exists>m' v'. train (update_br B a idx) (bs @ [b, b]) (Gnoalias m) = Inr (Gnoalias m') \<and> wf_gn m' \<and>
    predict_br B pc bhr (Gnoalias m') = Inr (v', idx) \<and> (1 < v' \<longleftrightarrow> b) \<and>
    (\<forall>pc2 bhr2 v2 idx2. predict_br B pc2 bhr2 (Gnoalias m) = Inr (v2, idx2) \<longrightarrow> idx2 \<noteq> idx \<longrightarrow>
       predict_br B pc2 bhr2 (Gnoalias m') = Inr (v2, idx2))"
proof -
  obtain m' where m': "train (\<lambda>b m. Inr (update_gnoalias idx b m)) (bs @ [b, b]) m = Inr m'" "wf_gn m'"
      "1 < gn_val m' idx \<longleftrightarrow> b" "\<forall>j. j \<noteq> idx \<longrightarrow> gn_val m' j = gn_val m j"
    using gn.twice_learned[OF wf, of idx bs b] by auto
  let ?val = "\<lambda>m i. (case m i of None \<Rightarrow> 0 | Some v \<Rightarrow> v) :: u8"
  have val: "unat (?val k i) = gn_val k i" for k i by (simp add: gn_val_def split: option.splits)
  have pr: "predict_br B q h (Gnoalias k) = Inr (w, i) \<longleftrightarrow> (\<exists>g. to_integer h = Inr g \<and>
      i = ucast (drop_bit 2 q) OR push_bit 32 (ucast g) \<and> w = ?val k i)" for q h k w i
    by (auto simp: predict_br_def predict_gnoalias_def Let_def rbind_Inr_iff)
  have same: "?val m' i = ?val m i" if "i \<noteq> idx" for i
    using m'(4) that val[of m' i] val[of m i] by (metis unsigned_word_eqI)
  show ?thesis
  proof (intro exI conjI allI impI)
    show "train (update_br B a idx) (bs @ [b, b]) (Gnoalias m) = Inr (Gnoalias m')" using m'(1) by (simp add: train_gnoalias)
    show "predict_br B pc bhr (Gnoalias m') = Inr (?val m' idx, idx)" using p by (auto simp: pr)
    show "(1 < ?val m' idx) = b" using m'(3) val[of m' idx] by (simp only: one_less_u8)
  next
    fix pc2 bhr2 v2 idx2 assume "predict_br B pc2 bhr2 (Gnoalias m) = Inr (v2, idx2)" "idx2 \<noteq> idx"
    then show "predict_br B pc2 bhr2 (Gnoalias m') = Inr (v2, idx2)" using same by (auto simp: pr)
  qed (rule m'(2))
qed

text \<open>
  C37. Training of the two branch predictors with one table of counters that the theorem covers, \<open>gshare\<close> and \<open>gnoalias\<close>:
  whatever outcomes a branch had before, after two equal ones the prediction for it is that outcome, and a branch that uses
  another counter is predicted as before.  (Not of \<open>bimode\<close>, where training may change which of two tables is
  asked, nor of \<open>gselect\<close>.)
\<close>

theorem counters_learn:
  assumes "wf_bp p" "predict_br B pc bhr p = Inr (v, idx)"
  shows "\<exists>p' v'. train (update_br B addr idx) (bs @ [b, b]) p = Inr p' \<and> wf_bp p' \<and>
    predict_br B pc bhr p' = Inr (v', idx) \<and> (1 < v' \<longleftrightarrow> b) \<and>
    (\<forall>pc2 bhr2 v2 idx2. predict_br B pc2 bhr2 p = Inr (v2, idx2) \<longrightarrow> idx2 \<noteq> idx \<longrightarrow>
       predict_br B pc2 bhr2 p' = Inr (v2, idx2))"
proof (cases p)
  case (Gshare t)
  then have "wf_tc t" "predict_br B pc bhr (Gshare t) = Inr (v, idx)" using assms by (simp_all add: wf_bp_def)
  from gshare_learns[OF this, of addr bs b] obtain t' v' where "train (update_br B addr idx) (bs @ [b, b]) p = Inr (Gshare t')"
    "wf_bp (Gshare t')" "predict_br B pc bhr (Gshare t') = Inr (v', idx)" "(1 < v') = b"
    "\<forall>pc2 bhr2 v2 idx2. predict_br B pc2 bhr2 p = Inr (v2, idx2) \<longrightarrow> idx2 \<noteq> idx \<longrightarrow>
       predict_br B pc2 bhr2 (Gshare t') = Inr (v2, idx2)" using Gshare by (auto simp: wf_bp_def)
  then show ?thesis by blast
next
  case (Gnoalias m)
  then have "wf_gn m" "predict_br B pc bhr (Gnoalias m) = Inr (v, idx)" using assms by (simp_all add: wf_bp_def)
  from gnoalias_learns[OF this, of addr bs b] obtain m' v' where "train (update_br B addr idx) (bs @ [b, b]) p = Inr (Gnoalias m')"
    "wf_bp (Gnoalias m')" "predict_br B pc bhr (Gnoalias m') = Inr (v', idx)" "(1 < v') = b"
    "\<forall>pc2 bhr2 v2 idx2. predict_br B pc2 bhr2 p = Inr (v2, idx2) \<longrightarrow> idx2 \<noteq> idx \<longrightarrow>
       predict_br B pc2 bhr2 (Gnoalias m') = Inr (v2, idx2)" using Gnoalias by (auto simp: wf_bp_def)
  then show ?thesis by blast
qed (use assms in \<open>simp_all add: wf_bp_def\<close>)

definition sample_bp :: bp_params where
  "sample_bp = \<lparr>lg_pht_entries = 2, hash_combine = (\<lambda>h x. 31 * h + ucast x)\<rparr>"

definition sample_bhr :: "u8 bitvec" where
  "sample_bhr = \<lparr>n_bits = 16, arr = [5, 3]\<rparr>"

lemma sample_predict:
  "wf_bp (get_predictor sample_bp 6)" "predict_br sample_bp 0x20 sample_bhr (get_predictor sample_bp 6) = Inr (1, 2)"
  by code_simp+

theorem counters_learn_witness:
  "\<exists>p' v'. train (update_br sample_bp 0x20 2) ([True, False] @ [True, True]) (get_predictor sample_bp 6) = Inr p' \<and>
     predict_br sample_bp 0x20 sample_bhr p' = Inr (v', 2) \<and> 1 < v'"
  using counters_learn[OF sample_predict, where addr = "0x20" and bs = "[True, False]" and b = True] by blast

section \<open>Loops\<close>

text \<open>
  The calls a run of one branch makes, outcome after outcome: a prediction where the entry is
  locked on the branch, then the update with the prediction in force, \<open>d\<close> where there was none.
\<close>

fun lp_run :: "bool \<Rightarrow> u32 \<Rightarrow> bool list \<Rightarrow> loop_predictor \<Rightarrow> (bool option list \<times> loop_predictor) res" where
  "lp_run d pc [] l = Inr ([], l)"
| "lp_run d pc (b # bs) l = rbind (valid_loop_branch pc l) (\<lambda>v.
     rbind (if v then rbind (predict_lp pc l) (\<lambda>(p, n, l1). Inr (Some p, l1)) else Inr (None, l)) (\<lambda>(p, l1).
       rbind (update_lp pc b (case p of Some q \<Rightarrow> q | None \<Rightarrow> d) l1) (\<lambda>l2.
         rbind (lp_run d pc bs l2) (\<lambda>(ps, l3). Inr (p # ps, l3)))))"

lemma lp_run_append:
  "lp_run d pc xs l = Inr (ps, l1) \<Longrightarrow> lp_run d pc ys l1 = Inr (qs, l2) \<Longrightarrow> lp_run d pc (xs @ ys) l = Inr (ps @ qs, l2)"
proof (induction xs arbitrary: l ps)
  case (Cons b xs)
  then show ?case by (force simp: rbind_Inr_iff split: prod.splits)
qed simp

definition put_lp :: "loop_predictor \<Rightarrow> u32 \<Rightarrow> entry_state \<Rightarrow> u32 \<Rightarrow> u32 \<Rightarrow> loop_predictor" where
  "put_lp l pc st c lim = l[lp_idx pc l := \<lparr>lp_state = st, lp_count = c, lp_limit = lim, lp_pc = pc\<rparr>]"

lemma put_lp_simps:
  assumes "lp_idx pc l < length l"
  shows "nth_res (put_lp l pc st c lim) (lp_idx pc (put_lp l pc st c lim)) =
      Inr \<lparr>lp_state = st, lp_count = c, lp_limit = lim, lp_pc = pc\<rparr>"
    "valid_loop_branch pc (put_lp l pc st c lim) = Inr (st = Locked)"
    "(put_lp l pc st c lim)[lp_idx pc (put_lp l pc st c lim) := \<lparr>lp_state = st', lp_count = c', lp_limit = lim', lp_pc = pc\<rparr>] =
      put_lp l pc st' c' lim'"
  using assms by (simp_all add: nth_res_def put_lp_def lp_idx_def valid_loop_branch_def)

lemma run_first:
  assumes "lp_idx pc l < length l" "lp_pc (l ! lp_idx pc l) \<noteq> pc \<or> l ! lp_idx pc l = clear_lp"
  shows "lp_run d pc [b] l = Inr ([None], put_lp l pc Training 0 1)"
  using assms by (auto simp: valid_loop_branch_def update_lp_def nth_res_def update_entry_def clear_lp_def put_lp_def)

lemma run_training:
  assumes "lp_idx pc l < length l"
  shows "lp_run d pc (replicate m True) (put_lp l pc Training 0 lim) =
    Inr (replicate m None, put_lp l pc Training 0 (lim + of_nat m))"
proof (induction m arbitrary: lim)
  case (Suc m)
  then show ?case
    by (simp add: put_lp_simps[OF assms] update_lp_def update_entry_def add.commute add.left_commute)
qed simp

lemma run_lock:
  assumes "lp_idx pc l < length l"
  shows "lp_run d pc [False] (put_lp l pc Training 0 lim) = Inr ([None], put_lp l pc Locked 0 lim)"
  by (simp add: put_lp_simps[OF assms] update_lp_def update_entry_def)

lemma run_locked:
  assumes "lp_idx pc l < length l" "unat c + m \<le> unat lim"
  shows "lp_run d pc (replicate m True) (put_lp l pc Locked c lim) =
    Inr (replicate m (Some True), put_lp l pc Locked (c + of_nat m) lim)"
  using assms(2)
proof (induction m arbitrary: c)
  case (Suc m)
  have c: "c \<noteq> lim" using Suc.prems by auto
  have "unat lim < 2 ^ LENGTH(32)" by (rule unsigned_less)
  then have "unat (c + 1) = Suc (unat c)" using Suc.prems by (simp add: unat_plus_if')
  with Suc.prems have "unat (c + 1) + m \<le> unat lim" by simp
  from Suc.IH[OF this] c show ?case
    by (simp add: put_lp_simps[OF assms(1)] predict_lp_def update_lp_def update_entry_def ac_simps)
qed simp

lemma run_exit:
  assumes "lp_idx pc l < length l"
  shows "lp_run d pc [False] (put_lp l pc Locked lim lim) = Inr ([Some False], put_lp l pc Locked 0 lim)"
  by (simp add: put_lp_simps[OF assms] predict_lp_def update_lp_def update_entry_def)

definition loop_outcomes :: "nat \<Rightarrow> bool list" where
  "loop_outcomes n = replicate n True @ [False]"

lemma run_learned:
  assumes "lp_idx pc l < length l" "n < 2 ^ 32"
  shows "lp_run d pc (concat (replicate k (loop_outcomes n))) (put_lp l pc Locked 0 (of_nat n)) =
    Inr (map Some (concat (replicate k (loop_outcomes n))), put_lp l pc Locked 0 (of_nat n))"
proof (induction k)
  case (Suc k)
  have n: "unat (0 :: u32) + n \<le> unat (of_nat n :: u32)"
    using assms(2) by (simp add: unat_of_nat take_bit_nat_eq_self)
  have "lp_run d pc (loop_outcomes n) (put_lp l pc Locked 0 (of_nat n)) =
      Inr (map Some (loop_outcomes n), put_lp l pc Locked 0 (of_nat n))"
    using lp_run_append[OF run_locked[OF assms(1) n], of d "[False]"] run_exit[OF assms(1), of d "of_nat n"]
    by (simp add: loop_outcomes_def)
  from lp_run_append[OF this Suc.IH] show ?case by simp
qed simp

text \<open>
  C38. The loop predictor on a loop that is taken n times and then left, again and again, whose entry is untrained at the start
  (it belongs to another branch or is clear) and so is locked by the first run: it makes no
  prediction while it counts the first run, and predicts every outcome of all later runs.
\<close>

theorem loop_predictor_counts:
  assumes "lp_idx pc l < length l" "lp_pc (l ! lp_idx pc l) \<noteq> pc \<or> l ! lp_idx pc l = clear_lp" "0 < n" "n < 2 ^ 32"
  shows "\<exists>l'. lp_run d pc (concat (replicate (Suc k) (loop_outcomes n))) l =
    Inr (replicate (Suc n) None @ map Some (concat (replicate k (loop_outcomes n))), l')"
proof -
  obtain m where m: "n = Suc m" using assms(3) by (cases n) auto
  have "lp_run d pc ([True] @ replicate m True) l = Inr ([None] @ replicate m None, put_lp l pc Training 0 (of_nat n))"
    using lp_run_append[OF run_first[OF assms(1,2), of d True] run_training[OF assms(1), of d m 1]] m by simp
  then have "lp_run d pc (replicate n True) l = Inr (replicate n None, put_lp l pc Training 0 (of_nat n))" by (simp add: m)
  from lp_run_append[OF this run_lock[OF assms(1)]]
  have "lp_run d pc (loop_outcomes n) l = Inr (replicate n None @ [None], put_lp l pc Locked 0 (of_nat n))"
    by (simp add: loop_outcomes_def)
  from lp_run_append[OF this run_learned[OF assms(1,4)]]
  have "lp_run d pc (loop_outcomes n @ concat (replicate k (loop_outcomes n))) l =
    Inr ((replicate n None @ [None]) @ map Some (concat (replicate k (loop_outcomes n))), put_lp l pc Locked 0 (of_nat n))" .
  then show ?thesis by (simp only: replicate_Suc concat.simps replicate_append_same[of n] append_Cons) blast
qed

theorem loop_predictor_counts_witness:
  "\<exists>l'. lp_run False 0x40 (concat (replicate (Suc 2) (loop_outcomes 3))) (replicate 4 clear_lp) =
    Inr (replicate (Suc 3) None @ map Some (concat (replicate 2 (loop_outcomes 3))), l')"
  by (rule loop_predictor_counts) (simp_all add: lp_idx_def clear_lp_def)

text \<open>
  A lock lost in the middle of a run keeps its count: learnt again, the loop is predicted to end too
  early.
\<close>

lemma stale_count_after_relock:
  "map_option fst (case lp_run False 0x40 (loop_outcomes 3 @ [True, False] @ loop_outcomes 3 @ loop_outcomes 3)
       (replicate 4 clear_lp) of Inr r \<Rightarrow> Some r | Inl _ \<Rightarrow> None) =
   Some (replicate 4 None @ [Some True, Some True] @ replicate 4 None @ [Some True, Some False, None, None])"
  by code_simp

end
