(* ===== verification/Reg_File.thy ===== *)
theory Reg_File
  imports Bitvec
begin

text \<open>
  Register renaming: the tables \<^verbatim>\<open>sim_ooo/machine_state.hh\<close> keeps once for each register class
  (general registers with lo and hi, coprocessor 0, floating point, floating-point control), and the
  statements of \<^verbatim>\<open>sim_ooo/mips_op.cc\<close> and \<^verbatim>\<open>sim_ooo/ooo_core.cc\<close> that claim, commit, undo and
  restore a mapping.  A physical register index is a signed int in the code, with \<open>-1\<close> for none;
  it becomes a huge index where it is used as one.
\<close>

record regs =
  rat :: "int list"
  rat_retire :: "int list"
  phys :: "u32 list"
  freevec :: "u64 bitvec"
  freevec_retire :: "u64 bitvec"
  valid :: "u64 bitvec"
  arch :: "u32 list"
  arch_last_pc :: "u32 list"

section \<open>Accesses by a signed index\<close>

definition at_idx :: "'a list \<Rightarrow> int \<Rightarrow> 'a res" where
  "at_idx xs i = (if i < 0 then Inl Undefined else nth_res xs (nat i))"

definition put_idx :: "'a list \<Rightarrow> int \<Rightarrow> 'a \<Rightarrow> 'a list res" where
  "put_idx xs i v = (if i < 0 then Inl Undefined else put_res xs (nat i) v)"

definition bv_set :: "u64 bitvec \<Rightarrow> int \<Rightarrow> u64 bitvec res" where
  "bv_set v i = (if i < 0 then Inl Die else set_bit_bv v (nat i))"

definition bv_clear :: "u64 bitvec \<Rightarrow> int \<Rightarrow> u64 bitvec res" where
  "bv_clear v i = (if i < 0 then Inl AssertFail else clear_bit v (nat i))"

definition bv_get :: "u64 bitvec \<Rightarrow> int \<Rightarrow> bool res" where
  "bv_get v i = (if i < 0 then Inl Undefined else get_bit v (nat i))"

section \<open>The statements of a renaming\<close>

definition mapped :: "nat \<Rightarrow> regs \<Rightarrow> int res" where
  "mapped d r = nth_res (rat r) d"

definition claim :: "nat \<Rightarrow> int \<Rightarrow> regs \<Rightarrow> regs res" where
  "claim d nid r = rbind (bv_set (freevec r) nid) (\<lambda>fv. rbind (put_res (rat r) d nid) (\<lambda>m.
     rbind (bv_clear (valid r) nid) (\<lambda>v. Inr (r\<lparr>freevec := fv, rat := m, valid := v\<rparr>))))"

definition undo :: "nat \<Rightarrow> int \<Rightarrow> int \<Rightarrow> regs \<Rightarrow> regs res" where
  "undo d prev nid r = rbind (put_res (rat r) d prev) (\<lambda>m. rbind (bv_clear (freevec r) nid) (\<lambda>fv.
     rbind (bv_clear (valid r) nid) (\<lambda>v. Inr (r\<lparr>freevec := fv, rat := m, valid := v\<rparr>))))"

definition free_prev :: "int \<Rightarrow> regs \<Rightarrow> regs res" where
  "free_prev prev r = rbind (bv_clear (freevec r) prev) (\<lambda>fv. rbind (bv_clear (valid r) prev) (\<lambda>v.
     Inr (r\<lparr>freevec := fv, valid := v\<rparr>)))"

definition commit_value :: "nat \<Rightarrow> int \<Rightarrow> regs \<Rightarrow> regs res" where
  "commit_value d nid r = rbind (at_idx (phys r) nid) (\<lambda>x. rbind (put_res (arch r) d x) (\<lambda>a. Inr (r\<lparr>arch := a\<rparr>)))"

definition commit_pc :: "nat \<Rightarrow> u32 \<Rightarrow> regs \<Rightarrow> regs res" where
  "commit_pc d pc r = rbind (put_res (arch_last_pc r) d pc) (\<lambda>a. Inr (r\<lparr>arch_last_pc := a\<rparr>))"

definition commit_map :: "nat \<Rightarrow> int \<Rightarrow> int \<Rightarrow> regs \<Rightarrow> regs res" where
  "commit_map d prev nid r = rbind (put_res (rat_retire r) d nid) (\<lambda>m.
     rbind (bv_set (freevec_retire r) nid) (\<lambda>f1. rbind (bv_clear f1 prev) (\<lambda>f2.
       Inr (r\<lparr>rat_retire := m, freevec_retire := f2\<rparr>))))"

definition set_valid :: "int \<Rightarrow> regs \<Rightarrow> regs res" where
  "set_valid nid r = rbind (bv_set (valid r) nid) (\<lambda>v. Inr (r\<lparr>valid := v\<rparr>))"

definition write_prf :: "int \<Rightarrow> u32 \<Rightarrow> regs \<Rightarrow> regs res" where
  "write_prf nid x r = rbind (put_idx (phys r) nid x) (\<lambda>p. Inr (r\<lparr>phys := p\<rparr>))"

text \<open>Retirement of a renaming; some instructions commit no value, and some no program counter.\<close>

definition retire_reg :: "bool \<Rightarrow> u32 option \<Rightarrow> nat \<Rightarrow> int \<Rightarrow> int \<Rightarrow> regs \<Rightarrow> regs res" where
  "retire_reg vals pc d prev nid r = rbind (free_prev prev r) (\<lambda>r1.
     rbind (if vals then commit_value d nid r1 else Inr r1) (\<lambda>r2.
       rbind (case pc of None \<Rightarrow> Inr r2 | Some p \<Rightarrow> commit_pc d p r2) (commit_map d prev nid)))"

text \<open>The flash copy of a restart, and the marking of the mapped registers as valid.\<close>

fun set_all :: "int list \<Rightarrow> u64 bitvec \<Rightarrow> u64 bitvec res" where
  "set_all [] v = Inr v"
| "set_all (i # is) v = rbind (bv_set v i) (set_all is)"

definition restore_map :: "regs \<Rightarrow> regs res" where
  "restore_map r = rbind (copy_bv (freevec r) (freevec_retire r)) (\<lambda>fv. Inr (r\<lparr>rat := rat_retire r, freevec := fv\<rparr>))"

definition restore_valid :: "regs \<Rightarrow> regs res" where
  "restore_valid r = rbind (set_all (rat r) (clear_bv (valid r))) (\<lambda>v. Inr (r\<lparr>valid := v\<rparr>))"

text \<open>The tables at start: architectural register \<open>i\<close> is in physical register \<open>i\<close>.\<close>

definition init_maps :: "nat \<Rightarrow> regs \<Rightarrow> regs res" where
  "init_maps k r = (let ids = map int [0..<k] in
     rbind (set_all ids (freevec r)) (\<lambda>f. rbind (set_all ids (freevec_retire r)) (\<lambda>fr. rbind (set_all ids (valid r)) (\<lambda>v.
       Inr (r\<lparr>rat := ids, rat_retire := ids, freevec := f, freevec_retire := fr, valid := v\<rparr>)))))"

definition new_regs :: "nat \<Rightarrow> nat \<Rightarrow> regs" where
  "new_regs k n = \<lparr>rat = replicate k 0, rat_retire = replicate k 0, phys = replicate n 0, freevec = new_bitvec n,
     freevec_retire = new_bitvec n, valid = new_bitvec n, arch = replicate k 0, arch_last_pc = replicate k 0\<rparr>"

section \<open>The invariant of renaming\<close>

text \<open>
  A renaming in flight is the register, the mapping before and the mapping it made.  \<open>renamed m fs m'\<close>
  says that the renamings \<open>fs\<close>, oldest first, lead from the mapping \<open>m\<close> to \<open>m'\<close>.
\<close>

type_synonym renaming = "nat \<times> int \<times> int"

fun renamed :: "int list \<Rightarrow> renaming list \<Rightarrow> int list \<Rightarrow> bool" where
  "renamed m [] m' \<longleftrightarrow> m' = m"
| "renamed m ((d, prev, nid) # fs) m' \<longleftrightarrow> d < length m \<and> m ! d = prev \<and> renamed (m[d := nid]) fs m'"

definition new_ids :: "renaming list \<Rightarrow> int list" where
  "new_ids fs = map (\<lambda>(d, prev, nid). nid) fs"

definition wf_vec :: "nat \<Rightarrow> u64 bitvec \<Rightarrow> bool" where
  "wf_vec n v \<longleftrightarrow> wf_bv v \<and> n_bits v = n"

definition used :: "u64 bitvec \<Rightarrow> int set" where
  "used v = int ` used_bits v"

text \<open>
  \<open>renaming_inv k n fs r\<close>: \<open>k\<close> architectural and \<open>n\<close> physical registers; the retired mapping is
  injective, the renamings in flight lead from it to the current one, each with a register of its
  own, and the two free lists hold exactly the registers in use.
\<close>

definition renaming_inv :: "nat \<Rightarrow> nat \<Rightarrow> renaming list \<Rightarrow> regs \<Rightarrow> bool" where
  "renaming_inv k n fs r \<longleftrightarrow> length (rat_retire r) = k \<and> length (phys r) = n \<and>
     wf_vec n (freevec r) \<and> wf_vec n (freevec_retire r) \<and> wf_vec n (valid r) \<and>
     renamed (rat_retire r) fs (rat r) \<and> distinct (rat_retire r @ new_ids fs) \<and>
     used (freevec r) = set (rat_retire r @ new_ids fs) \<and> used (freevec_retire r) = set (rat_retire r)"

lemma length_renamed: "renamed m fs m' \<Longrightarrow> length m' = length m"
  by (induction m fs m' rule: renamed.induct) auto

lemma renamed_append:
  "renamed m (fs @ gs) m' \<longleftrightarrow> (\<exists>m1. renamed m fs m1 \<and> renamed m1 gs m')"
  by (induction m fs m' rule: renamed.induct) auto

lemma renamed_subset: "renamed m fs m' \<Longrightarrow> set m' \<subseteq> set m \<union> set (new_ids fs)"
proof (induction m fs m' rule: renamed.induct)
  case (2 m d prev nid fs m')
  then show ?case using set_update_subset_insert[of m d nid] by (auto simp: new_ids_def)
qed (simp add: new_ids_def)

lemma distinct_update_new: "distinct (m @ nid # xs) \<Longrightarrow> d < length m \<Longrightarrow> distinct (m[d := nid] @ xs)"
  using set_update_subset_insert[of m d nid] by (auto simp: distinct_list_update)

lemma renamed_distinct: "renamed m fs m' \<Longrightarrow> distinct (m @ new_ids fs) \<Longrightarrow> distinct m'"
proof (induction m fs m' rule: renamed.induct)
  case (2 m d prev nid fs m')
  then have "distinct (m[d := nid] @ new_ids fs)" by (intro distinct_update_new) (simp_all add: new_ids_def)
  with 2 show ?case by simp
qed (simp add: new_ids_def)

section \<open>Vectors by their sets\<close>

lemma used_int: "0 \<le> i \<Longrightarrow> i \<in> used v \<longleftrightarrow> nat i \<in> used_bits v"
  by (auto simp: used_def image_iff intro: bexI[of _ "nat i"])

lemma used_bounds: "i \<in> used v \<Longrightarrow> wf_vec n v \<Longrightarrow> 0 \<le> i \<and> i < int n"
  by (auto simp: used_def used_bits_def wf_vec_def)

lemma bv_set_ok:
  assumes "wf_vec n v" "0 \<le> i" "i < int n"
  obtains v' where "bv_set v i = Inr v'" "wf_vec n v'" "used v' = insert i (used v)"
proof -
  have "wf_bv v" "nat i < n_bits v" using assms by (auto simp: wf_vec_def)
  then obtain v' where v': "set_bit_bv v (nat i) = Inr v'" "wf_bv v'" "n_bits v' = n_bits v"
    "used_bits v' = insert (nat i) (used_bits v)" by (rule set_bit_bv_wf)
  show thesis
    by (rule that[of v']) (use v' assms in \<open>simp_all add: bv_set_def wf_vec_def used_def\<close>)
qed

lemma bv_clear_ok:
  assumes "wf_vec n v" "0 \<le> i" "i < int n"
  obtains v' where "bv_clear v i = Inr v'" "wf_vec n v'" "used v' = used v - {i}"
proof -
  have "wf_bv v" "nat i < n_bits v" using assms by (auto simp: wf_vec_def)
  then obtain v' where v': "clear_bit v (nat i) = Inr v'" "wf_bv v'" "n_bits v' = n_bits v"
    "used_bits v' = used_bits v - {nat i}" by (rule clear_bit_wf)
  have "used v' = used v - {i}" using v'(4) assms by (simp add: used_def image_set_diff)
  then show thesis
    by (intro that[of v']) (use v' assms in \<open>simp_all add: bv_clear_def wf_vec_def\<close>)
qed

lemma bv_get_ok: "wf_vec n v \<Longrightarrow> 0 \<le> i \<Longrightarrow> i < int n \<Longrightarrow> bv_get v i = Inr (i \<in> used v)"
  by (simp add: bv_get_def wf_vec_def get_bit_wf used_int)

lemma wbit_nth: "w < length xs \<Longrightarrow> b < LENGTH('w) \<Longrightarrow> wbit xs (LENGTH('w) * w + b) = bit (xs ! w) b"
  for xs :: "'w::len word list"
  by (simp add: wbit_def)

lemma bv_eqI:
  assumes "wf_bv v" "wf_bv w" "n_bits v = n_bits w" "used_bits v = used_bits w"
  shows "v = (w :: 'w::len word bitvec)"
proof -
  have bits: "wbit (arr v) i = wbit (arr w) i" for i
    using assms(4) wf_bvD(2)[OF assms(1), of i] wf_bvD(2)[OF assms(2), of i] assms(3)
    by (auto simp: used_bits_def)
  have len: "length (arr v) = length (arr w)" using wf_bvD(1)[OF assms(1)] wf_bvD(1)[OF assms(2)] assms(3) by simp
  have "arr v = arr w"
  proof (rule nth_equalityI[OF len])
    fix i assume i: "i < length (arr v)"
    show "arr v ! i = arr w ! i"
    proof (rule bit_word_eqI)
      fix b assume "b < LENGTH('w)"
      then show "bit (arr v ! i) b = bit (arr w ! i) b"
        using bits[of "LENGTH('w) * i + b"] i len by (simp only: wbit_nth)
    qed
  qed
  then show ?thesis using assms(3) by (cases v, cases w) simp
qed

lemma wf_vec_eqI: "wf_vec n v \<Longrightarrow> wf_vec n w \<Longrightarrow> used v = used w \<Longrightarrow> v = w"
  by (intro bv_eqI) (auto simp: wf_vec_def used_def dest: inj_image_eq_iff[OF inj_of_nat, THEN iffD1])

lemma find_free:
  assumes "wf_vec n v"
  shows "find_first_unset v = -1 \<and> used v = {0..<int n} \<or>
    0 \<le> find_first_unset v \<and> find_first_unset v < int n \<and> find_first_unset v \<notin> used v"
proof -
  have "int ` {..<n} = {0..<int n}" by (simp add: lessThan_atLeast0 image_int_atLeastLessThan)
  then show ?thesis
    using find_first_unset_cases[of v] assms by (auto simp: wf_vec_def used_def)
qed

lemma set_all_ok:
  assumes "wf_vec n v" "\<forall>i \<in> set is. 0 \<le> i \<and> i < int n"
  obtains v' where "set_all is v = Inr v'" "wf_vec n v'" "used v' = used v \<union> set is"
  using assms
proof (induction "is" arbitrary: v thesis)
  case (Cons i "is")
  have "0 \<le> i" "i < int n" using Cons.prems(3) by auto
  with Cons.prems(2) obtain u where u: "bv_set v i = Inr u" "wf_vec n u" "used u = insert i (used v)"
    by (rule bv_set_ok)
  have "\<forall>i \<in> set is. 0 \<le> i \<and> i < int n" using Cons.prems(3) by simp
  with u(2) obtain v' where "set_all is u = Inr v'" "wf_vec n v'" "used v' = used u \<union> set is"
    using Cons.IH by blast
  then show ?case using u by (intro Cons.prems(1)[of v']) auto
qed simp

section \<open>Steps of renaming\<close>

lemma renaming_invD:
  assumes "renaming_inv k n fs r"
  shows "length (rat_retire r) = k" "length (rat r) = k" "length (phys r) = n" "wf_vec n (freevec r)"
    "wf_vec n (freevec_retire r)" "wf_vec n (valid r)" "renamed (rat_retire r) fs (rat r)"
    "distinct (rat_retire r @ new_ids fs)" "used (freevec r) = set (rat_retire r @ new_ids fs)"
    "used (freevec_retire r) = set (rat_retire r)"
  using assms length_renamed[of "rat_retire r" fs "rat r"] by (simp_all add: renaming_inv_def)

lemma renaming_inv_bounds:
  assumes "renaming_inv k n fs r" "i \<in> set (rat_retire r) \<union> set (new_ids fs)"
  shows "0 \<le> i \<and> i < int n"
  using used_bounds[of i "freevec r" n] renaming_invD(4,9)[OF assms(1)] assms(2) by simp

lemma new_ids_simps [simp]:
  "new_ids [] = []" "new_ids ((d, prev, nid) # fs) = nid # new_ids fs" "new_ids (fs @ gs) = new_ids fs @ new_ids gs"
  by (simp_all add: new_ids_def)

lemma claim_ok:
  assumes inv: "renaming_inv k n fs r" and d: "d < k" and nid: "find_first_unset (freevec r) = nid" "nid \<noteq> -1"
  obtains r' where "claim d nid r = Inr r'" "renaming_inv k n (fs @ [(d, rat r ! d, nid)]) r'"
    "phys r' = phys r" "arch r' = arch r" "arch_last_pc r' = arch_last_pc r" "rat_retire r' = rat_retire r"
    "freevec_retire r' = freevec_retire r" "rat r' = (rat r)[d := nid]"
    "used (freevec r') = insert nid (used (freevec r))" "used (valid r') = used (valid r) - {nid}" "nid \<notin> used (freevec r)"
proof -
  note I = renaming_invD[OF inv]
  have fresh: "0 \<le> nid" "nid < int n" "nid \<notin> used (freevec r)" using find_free[OF I(4)] nid by auto
  obtain fv where fv: "bv_set (freevec r) nid = Inr fv" "wf_vec n fv" "used fv = insert nid (used (freevec r))"
    using I(4) fresh(1,2) by (rule bv_set_ok)
  obtain v where v: "bv_clear (valid r) nid = Inr v" "wf_vec n v" "used v = used (valid r) - {nid}"
    using I(6) fresh(1,2) by (rule bv_clear_ok)
  let ?r = "r\<lparr>freevec := fv, rat := (rat r)[d := nid], valid := v\<rparr>"
  have "renaming_inv k n (fs @ [(d, rat r ! d, nid)]) ?r"
    using I fv(2,3) v(2) fresh d by (auto simp: renaming_inv_def renamed_append)
  then show thesis
    using fv v d I(2) fresh by (intro that[of ?r]) (simp_all add: claim_def put_res_def)
qed

lemma undo_ok:
  assumes inv: "renaming_inv k n (fs @ [(d, prev, nid)]) r"
  obtains r' where "undo d prev nid r = Inr r'" "renaming_inv k n fs r'"
    "phys r' = phys r" "arch r' = arch r" "arch_last_pc r' = arch_last_pc r" "rat_retire r' = rat_retire r"
    "freevec_retire r' = freevec_retire r" "rat r' = (rat r)[d := prev]"
    "used (freevec r') = used (freevec r) - {nid}" "used (valid r') = used (valid r) - {nid}"
proof -
  note I = renaming_invD[OF inv]
  obtain m where m: "renamed (rat_retire r) fs m" "d < length m" "m ! d = prev" "rat r = m[d := nid]"
    using I(7) by (auto simp: renamed_append)
  have b: "0 \<le> nid" "nid < int n" using renaming_inv_bounds[OF inv, of nid] by auto
  obtain fv where fv: "bv_clear (freevec r) nid = Inr fv" "wf_vec n fv" "used fv = used (freevec r) - {nid}"
    using I(4) b by (rule bv_clear_ok)
  obtain v where v: "bv_clear (valid r) nid = Inr v" "wf_vec n v" "used v = used (valid r) - {nid}"
    using I(6) b by (rule bv_clear_ok)
  let ?r = "r\<lparr>freevec := fv, rat := (rat r)[d := prev], valid := v\<rparr>"
  have "(rat r)[d := prev] = m" using m by (simp add: list_update_same_conv)
  then have "renaming_inv k n fs ?r" using I fv(2,3) v(2) m(1) by (auto simp: renaming_inv_def)
  then show thesis
    using fv v m I(2) by (intro that[of ?r]) (simp_all add: undo_def put_res_def)
qed

lemma retire_ok:
  assumes inv: "renaming_inv k n ((d, prev, nid) # fs) r"
    and len: "vals \<Longrightarrow> d < length (arch r)" "pc \<noteq> None \<Longrightarrow> d < length (arch_last_pc r)"
  obtains r' where "retire_reg vals pc d prev nid r = Inr r'" "renaming_inv k n fs r'" "phys r' = phys r" "rat r' = rat r"
    "rat_retire r' = (rat_retire r)[d := nid]" "arch r' = (if vals then (arch r)[d := phys r ! nat nid] else arch r)"
    "length (arch_last_pc r') = length (arch_last_pc r)" "used (freevec r') = used (freevec r) - {prev}"
proof -
  note I = renaming_invD[OF inv]
  have d: "d < length (rat_retire r)" "rat_retire r ! d = prev" "renamed ((rat_retire r)[d := nid]) fs (rat r)"
    using I(7) by auto
  then have mem: "prev \<in> set (rat_retire r)" by (metis nth_mem)
  have b: "0 \<le> nid" "nid < int n" "0 \<le> prev" "prev < int n"
    using renaming_inv_bounds[OF inv] mem by auto
  have ds: "distinct (rat_retire r)" "nid \<notin> set (rat_retire r)" using I(8) by auto
  have set_upd: "set ((rat_retire r)[d := nid]) = insert nid (set (rat_retire r)) - {prev}"
    using set_update_distinct[OF ds(1) d(1), of nid] d(2) ds(2) mem by auto
  obtain fv where fv: "bv_clear (freevec r) prev = Inr fv" "wf_vec n fv" "used fv = used (freevec r) - {prev}"
    using I(4) b(3,4) by (rule bv_clear_ok)
  obtain v where v: "bv_clear (valid r) prev = Inr v" "wf_vec n v" "used v = used (valid r) - {prev}"
    using I(6) b(3,4) by (rule bv_clear_ok)
  obtain f1 where f1: "bv_set (freevec_retire r) nid = Inr f1" "wf_vec n f1" "used f1 = insert nid (used (freevec_retire r))"
    using I(5) b(1,2) by (rule bv_set_ok)
  obtain f2 where f2: "bv_clear f1 prev = Inr f2" "wf_vec n f2" "used f2 = used f1 - {prev}"
    using f1(2) b(3,4) by (rule bv_clear_ok)
  define r1 where "r1 = r\<lparr>freevec := fv, valid := v\<rparr>"
  define r2 where "r2 = (if vals then r1\<lparr>arch := (arch r)[d := phys r ! nat nid]\<rparr> else r1)"
  define r3 where "r3 = (case pc of None \<Rightarrow> r2 | Some p \<Rightarrow> r2\<lparr>arch_last_pc := (arch_last_pc r)[d := p]\<rparr>)"
  define r4 where "r4 = r3\<lparr>rat_retire := (rat_retire r)[d := nid], freevec_retire := f2\<rparr>"
  note defs = r4_def r3_def r2_def r1_def
  have "nat nid < length (phys r)" using b I(3) by linarith
  then have run: "retire_reg vals pc d prev nid r = Inr r4"
    using fv(1) v(1) f1(1) f2(1) len d(1) b I(3)
    by (auto simp: retire_reg_def free_prev_def commit_value_def commit_pc_def commit_map_def defs at_idx_def put_res_def
        nth_res_def split: option.splits)
  have dist: "distinct ((rat_retire r)[d := nid] @ new_ids fs)"
    using I(8) d(1) by (intro distinct_update_new) simp_all
  have "used fv = set ((rat_retire r)[d := nid] @ new_ids fs)"
    using fv(3) I(8,9) set_upd mem by auto
  moreover have "used f2 = set ((rat_retire r)[d := nid])"
    using f1(3) f2(3) I(10) set_upd by simp
  ultimately have "renaming_inv k n fs r4"
    using I fv(2) v(2) f2(2) d dist by (simp add: renaming_inv_def defs split: option.split)
  then show thesis
    using run fv(3) by (intro that[of r4]) (simp_all add: defs split: option.split)
qed

lemma restore_ok:
  assumes inv: "renaming_inv k n fs r"
  obtains r1 r' where "restore_map r = Inr r1" "restore_valid r1 = Inr r'" "renaming_inv k n [] r'" "phys r' = phys r"
    "arch r' = arch r" "arch_last_pc r' = arch_last_pc r" "rat r' = rat_retire r" "rat_retire r' = rat_retire r"
    "used (valid r') = set (rat_retire r)" "used (freevec r1) = set (rat_retire r)" "wf_vec n (freevec r1)"
proof -
  note I = renaming_invD[OF inv]
  have copy: "copy_bv (freevec r) (freevec_retire r) = Inr (freevec_retire r)"
    using I(4,5) by (simp add: copy_bv_def wf_vec_def wf_bv_def)
  define r1 where "r1 = r\<lparr>rat := rat_retire r, freevec := freevec_retire r\<rparr>"
  have run: "restore_map r = Inr r1" by (simp add: restore_map_def copy r1_def)
  have "wf_vec n (clear_bv (valid r))" "used (clear_bv (valid r)) = {}"
    using I(6) wf_clear_bv[of "valid r"] by (simp_all add: wf_vec_def used_def)
  moreover have "\<forall>i \<in> set (rat_retire r). 0 \<le> i \<and> i < int n" using renaming_inv_bounds[OF inv] by blast
  ultimately obtain v where v: "set_all (rat_retire r) (clear_bv (valid r)) = Inr v" "wf_vec n v" "used v = set (rat_retire r)"
    using set_all_ok[of n "clear_bv (valid r)" "rat_retire r"] by (metis Un_empty_left)
  let ?r = "r1\<lparr>valid := v\<rparr>"
  have "renaming_inv k n [] ?r" using I v(2) by (simp add: renaming_inv_def r1_def)
  then show thesis
    using run v I(5,10) by (intro that[of r1 ?r]) (simp_all add: restore_valid_def r1_def)
qed

lemma init_maps_ok:
  assumes "k \<le> n"
  obtains r where "init_maps k (new_regs k n) = Inr r" "renaming_inv k n [] r" "rat r = map int [0..<k]"
    "phys r = replicate n 0" "arch r = replicate k 0" "length (arch_last_pc r) = k" "used (valid r) = set (rat r)"
proof -
  have v: "wf_vec n (new_bitvec n)" "used (new_bitvec n) = {}" by (simp_all add: wf_vec_def used_def)
  have "\<forall>i \<in> set (map int [0..<k]). 0 \<le> i \<and> i < int n" using assms by auto
  from set_all_ok[OF v(1) this] v(2) obtain u where u: "set_all (map int [0..<k]) (new_bitvec n) = Inr u" "wf_vec n u"
    "used u = set (map int [0..<k])" by (metis Un_empty_left)
  let ?r = "(new_regs k n)\<lparr>rat := map int [0..<k], rat_retire := map int [0..<k], freevec := u, freevec_retire := u, valid := u\<rparr>"
  have "renaming_inv k n [] ?r"
    using u by (simp add: renaming_inv_def new_regs_def distinct_map inj_on_def)
  then show thesis
    using u by (intro that[of ?r]) (simp_all add: init_maps_def new_regs_def Let_def)
qed

section \<open>Runs of renaming\<close>

text \<open>
  What the stages do to the tables of one register class, as a step relation on the tables and the
  renamings in flight, oldest first: claims in program order, writes and completions of registers in
  flight in any order, undoing from the youngest, retirement from the oldest, and the flash restart
  that forgets all of them.
\<close>

type_synonym ren_state = "regs \<times> renaming list"

inductive ren_step :: "ren_state \<Rightarrow> ren_state \<Rightarrow> bool" where
  claim: "find_first_unset (freevec r) = nid \<Longrightarrow> nid \<noteq> -1 \<Longrightarrow> mapped d r = Inr prev \<Longrightarrow> claim d nid r = Inr r' \<Longrightarrow>
    ren_step (r, fs) (r', fs @ [(d, prev, nid)])"
| result: "nid \<in> set (new_ids fs) \<Longrightarrow> write_prf nid x r = Inr r' \<Longrightarrow> ren_step (r, fs) (r', fs)"
| complete: "nid \<in> set (new_ids fs) \<Longrightarrow> set_valid nid r = Inr r' \<Longrightarrow> ren_step (r, fs) (r', fs)"
| undo: "undo d prev nid r = Inr r' \<Longrightarrow> ren_step (r, fs @ [(d, prev, nid)]) (r', fs)"
| retire: "retire_reg True (Some pc) d prev nid r = Inr r' \<Longrightarrow> ren_step (r, (d, prev, nid) # fs) (r', fs)"
| restart: "restore_map r = Inr r1 \<Longrightarrow> restore_valid r1 = Inr r' \<Longrightarrow> ren_step (r, fs) (r', [])"

inductive ren_reachable :: "nat \<Rightarrow> nat \<Rightarrow> ren_state \<Rightarrow> bool" for k n where
  init: "init_maps k (new_regs k n) = Inr r \<Longrightarrow> ren_reachable k n (r, [])"
| step: "ren_reachable k n s \<Longrightarrow> ren_step s s' \<Longrightarrow> ren_reachable k n s'"

inductive_cases ren_stepE: "ren_step s s'"

text \<open>The architectural copy mirrors the retired mapping.\<close>

definition mirrors :: "regs \<Rightarrow> bool" where
  "mirrors r \<longleftrightarrow> length (arch r) = length (rat_retire r) \<and> length (arch_last_pc r) = length (rat_retire r) \<and>
     (\<forall>d < length (rat_retire r). arch r ! d = phys r ! nat (rat_retire r ! d))"

definition ren_inv :: "nat \<Rightarrow> nat \<Rightarrow> ren_state \<Rightarrow> bool" where
  "ren_inv k n s \<longleftrightarrow> renaming_inv k n (snd s) (fst s) \<and> mirrors (fst s)"

lemma renamed_regs: "renamed m fs m' \<Longrightarrow> (d, prev, nid) \<in> set fs \<Longrightarrow> d < length m"
  by (induction m fs m' rule: renamed.induct) auto

lemma write_prf_ok:
  assumes inv: "renaming_inv k n fs r" and nid: "nid \<in> set (new_ids fs)"
  obtains r' where "write_prf nid x r = Inr r'" "r' = r\<lparr>phys := (phys r)[nat nid := x]\<rparr>" "renaming_inv k n fs r'"
    "\<And>i. i \<in> set (rat_retire r) \<Longrightarrow> phys r' ! nat i = phys r ! nat i"
proof -
  note I = renaming_invD[OF inv]
  have b: "0 \<le> nid" "nid < int n" using renaming_inv_bounds[OF inv] nid by auto
  let ?r = "r\<lparr>phys := (phys r)[nat nid := x]\<rparr>"
  have "nid \<noteq> i" "0 \<le> i" if "i \<in> set (rat_retire r)" for i
    using I(8) nid renaming_inv_bounds[OF inv, of i] that by auto
  then have "phys ?r ! nat i = phys r ! nat i" if "i \<in> set (rat_retire r)" for i
    using that b by (simp add: nth_list_update_neq nat_eq_iff)
  moreover have "write_prf nid x r = Inr ?r"
    using b I(3) by (simp add: write_prf_def put_idx_def put_res_def nat_less_iff)
  moreover have "renaming_inv k n fs ?r" using inv by (simp add: renaming_inv_def)
  ultimately show thesis by (intro that[of ?r]) simp_all
qed

lemma set_valid_ok:
  assumes inv: "renaming_inv k n fs r" and nid: "nid \<in> set (new_ids fs)"
  obtains r' where "set_valid nid r = Inr r'" "renaming_inv k n fs r'" "phys r' = phys r" "rat r' = rat r"
    "rat_retire r' = rat_retire r" "arch r' = arch r" "arch_last_pc r' = arch_last_pc r" "used (valid r') = insert nid (used (valid r))"
proof -
  note I = renaming_invD[OF inv]
  have "0 \<le> nid" "nid < int n" using renaming_inv_bounds[OF inv] nid by auto
  with I(6) obtain v where v: "bv_set (valid r) nid = Inr v" "wf_vec n v" "used v = insert nid (used (valid r))"
    by (rule bv_set_ok)
  let ?r = "r\<lparr>valid := v\<rparr>"
  have "renaming_inv k n fs ?r" using inv v(2) by (simp add: renaming_inv_def)
  then show thesis using v by (intro that[of ?r]) (simp_all add: set_valid_def)
qed

lemma ren_inv_init:
  assumes "k \<le> n" "init_maps k (new_regs k n) = Inr r" shows "ren_inv k n (r, [])"
proof -
  from init_maps_ok[OF assms(1)] assms(2) have "renaming_inv k n [] r" "rat r = map int [0..<k]" "phys r = replicate n 0"
    "arch r = replicate k 0" "length (arch_last_pc r) = k" by (metis Inr_inject)+
  moreover have "rat_retire r = rat r" using renaming_invD(7)[OF calculation(1)] by simp
  ultimately show ?thesis using assms(1) by (simp add: ren_inv_def mirrors_def)
qed

end
