(* ===== verification/Reg_Proofs.thy ===== *)
theory Reg_Proofs
  imports Reg_File
begin

text \<open>
  What renaming guarantees in every reachable state of the tables of a register class: mappings
  never clash, no step of an instruction faults, undoing an allocation puts the tables back, and a
  restart recovers the architectural registers.
\<close>

lemma ren_inv_claim:
  assumes inv: "ren_inv k n (r, fs)"
    and c: "find_first_unset (freevec r) = nid" "nid \<noteq> -1" "mapped d r = Inr prev" "claim d nid r = Inr r'"
  shows "ren_inv k n (r', fs @ [(d, prev, nid)])"
proof -
  have I: "renaming_inv k n fs r" using inv by (simp add: ren_inv_def)
  have d: "d < k" "prev = rat r ! d"
    using c(3) renaming_invD(2)[OF I] by (auto simp: mapped_def nth_res_def ensure_Inr_iff)
  from claim_ok[OF I d(1) c(1,2)] c(4) have "renaming_inv k n (fs @ [(d, rat r ! d, nid)]) r'" "phys r' = phys r"
    "arch r' = arch r" "arch_last_pc r' = arch_last_pc r" "rat_retire r' = rat_retire r" by (metis Inr_inject)+
  then show ?thesis using inv d(2) by (simp add: ren_inv_def mirrors_def)
qed

lemma ren_inv_undo:
  assumes inv: "ren_inv k n (r, fs @ [(d, prev, nid)])" and u: "undo d prev nid r = Inr r'"
  shows "ren_inv k n (r', fs)"
proof -
  have I: "renaming_inv k n (fs @ [(d, prev, nid)]) r" using inv by (simp add: ren_inv_def)
  from undo_ok[OF I] u have "renaming_inv k n fs r'" "phys r' = phys r" "arch r' = arch r"
    "arch_last_pc r' = arch_last_pc r" "rat_retire r' = rat_retire r" by (metis Inr_inject)+
  then show ?thesis using inv by (simp add: ren_inv_def mirrors_def)
qed

lemma ren_inv_retire:
  assumes inv: "ren_inv k n (r, (d, prev, nid) # fs)" and u: "retire_reg True (Some pc) d prev nid r = Inr r'"
  shows "ren_inv k n (r', fs)"
proof -
  have I: "renaming_inv k n ((d, prev, nid) # fs) r" and m: "mirrors r" using inv by (simp_all add: ren_inv_def)
  have d: "d < length (rat_retire r)" using renaming_invD(7)[OF I] by simp
  have len: "True \<Longrightarrow> d < length (arch r)" "Some pc \<noteq> None \<Longrightarrow> d < length (arch_last_pc r)" using m d by (auto simp: mirrors_def)
  from retire_ok[OF I len] u have r': "renaming_inv k n fs r'" "phys r' = phys r" "rat_retire r' = (rat_retire r)[d := nid]"
    "arch r' = (arch r)[d := phys r ! nat nid]" "length (arch_last_pc r') = length (arch_last_pc r)" by (metis Inr_inject)+
  then show ?thesis using m d by (auto simp: ren_inv_def mirrors_def nth_list_update)
qed

lemma ren_inv_restart:
  assumes inv: "ren_inv k n (r, fs)" and u: "restore_map r = Inr r1" "restore_valid r1 = Inr r'"
  shows "ren_inv k n (r', [])"
proof -
  have I: "renaming_inv k n fs r" and m: "mirrors r" using inv by (simp_all add: ren_inv_def)
  from restore_ok[OF I] u have "renaming_inv k n [] r'" "phys r' = phys r" "arch r' = arch r"
    "arch_last_pc r' = arch_last_pc r" "rat_retire r' = rat_retire r" by (metis Inr_inject)+
  then show ?thesis using m by (simp add: ren_inv_def mirrors_def)
qed

lemma ren_inv_result:
  assumes inv: "ren_inv k n (r, fs)" and u: "nid \<in> set (new_ids fs)" "write_prf nid x r = Inr r'"
  shows "ren_inv k n (r', fs)"
proof -
  have I: "renaming_inv k n fs r" and m: "mirrors r" using inv by (simp_all add: ren_inv_def)
  from write_prf_ok[OF I u(1), of x] u(2) have "r' = r\<lparr>phys := (phys r)[nat nid := x]\<rparr>" "renaming_inv k n fs r'"
    "\<And>i. i \<in> set (rat_retire r) \<Longrightarrow> phys r' ! nat i = phys r ! nat i" by (metis Inr_inject)+
  then show ?thesis using m by (simp add: ren_inv_def mirrors_def)
qed

lemma ren_inv_complete:
  assumes inv: "ren_inv k n (r, fs)" and u: "nid \<in> set (new_ids fs)" "set_valid nid r = Inr r'"
  shows "ren_inv k n (r', fs)"
proof -
  have I: "renaming_inv k n fs r" and m: "mirrors r" using inv by (simp_all add: ren_inv_def)
  from set_valid_ok[OF I u(1)] u(2) have "renaming_inv k n fs r'" "phys r' = phys r" "rat_retire r' = rat_retire r"
    "arch r' = arch r" "arch_last_pc r' = arch_last_pc r" by (metis Inr_inject)+
  then show ?thesis using m by (simp add: ren_inv_def mirrors_def)
qed

lemma ren_inv_step: "ren_step s s' \<Longrightarrow> ren_inv k n s \<Longrightarrow> ren_inv k n s'"
proof (induction rule: ren_step.induct)
  case claim then show ?case using ren_inv_claim by blast
next
  case result then show ?case using ren_inv_result by blast
next
  case complete then show ?case using ren_inv_complete by blast
next
  case undo then show ?case using ren_inv_undo by blast
next
  case retire then show ?case using ren_inv_retire by blast
next
  case restart then show ?case using ren_inv_restart by blast
qed

lemma reachable_inv: "ren_reachable k n s \<Longrightarrow> k \<le> n \<Longrightarrow> ren_inv k n s"
proof (induction rule: ren_reachable.induct)
  case init then show ?case using ren_inv_init by blast
next
  case step then show ?case using ren_inv_step by blast
qed

lemma reachable_renaming:
  assumes "ren_reachable k n (r, fs)" "k \<le> n" shows "renaming_inv k n fs r" "mirrors r"
  using reachable_inv[OF assms] by (simp_all add: ren_inv_def)

text \<open>A state with an instruction in flight, in the general registers of the default configuration.\<close>

lemma sample_in_flight: "\<exists>r nid. ren_reachable 34 128 (r, [(4, 4, nid)]) \<and> find_first_unset (freevec r) \<noteq> -1"
proof -
  obtain r0 where r0: "init_maps 34 (new_regs 34 128) = Inr r0" "renaming_inv 34 128 [] r0" "rat r0 = map int [0..<34]"
    by (rule init_maps_ok[of 34 128]) simp_all
  have card: "card (used (freevec r)) < 128" if "renaming_inv 34 128 fs r" "length fs \<le> 1" for r fs
    using distinct_card[OF renaming_invD(8)[OF that(1)]] renaming_invD(1,9)[OF that(1)] that(2) by (simp add: new_ids_def)
  have free: "find_first_unset (freevec r) \<noteq> -1" if "renaming_inv 34 128 fs r" "length fs \<le> 1" for r fs
    using find_free[OF renaming_invD(4)[OF that(1)]] card[OF that] by auto
  have f0: "find_first_unset (freevec r0) \<noteq> -1" by (rule free[OF r0(2)]) simp
  obtain r1 where r1: "claim 4 (find_first_unset (freevec r0)) r0 = Inr r1"
    "renaming_inv 34 128 ([] @ [(4, rat r0 ! 4, find_first_unset (freevec r0))]) r1"
    by (rule claim_ok[OF r0(2), of 4, OF _ refl f0]) simp_all
  have "mapped 4 r0 = Inr 4" using r0(3) by (simp add: mapped_def nth_res_def)
  from ren_step.claim[OF refl _ this r1(1), of "[]"] f0
  have "ren_reachable 34 128 (r1, [(4, 4, find_first_unset (freevec r0))])"
    using ren_reachable.init[OF r0(1)] ren_reachable.step by auto
  moreover have "find_first_unset (freevec r1) \<noteq> -1" by (rule free[OF r1(2)]) simp
  ultimately show ?thesis by blast
qed

text \<open>
  C15. No two registers share a physical register: in every reachable state the current mapping is
  injective, the free list holds exactly the registers of the retired mapping and of the instructions in flight, which are
  all different, and the retired free list exactly those of the retired mapping; a claimed register is one that no mapping,
  retired mapping or instruction in flight uses, and the claim fails only when all registers beyond the architectural ones
  are in flight.
\<close>

theorem renaming_no_clash:
  assumes "ren_reachable k n (r, fs)" "k \<le> n"
  shows "distinct (rat r) \<and> distinct (rat_retire r @ new_ids fs) \<and> used (freevec r) = set (rat_retire r @ new_ids fs) \<and>
    used (freevec_retire r) = set (rat_retire r) \<and>
    (case find_first_unset (freevec r) of nid \<Rightarrow>
      if nid = -1 then length fs = n - k
      else nid \<notin> set (rat r) \<union> set (rat_retire r) \<union> set (new_ids fs))"
proof -
  note inv = reachable_renaming(1)[OF assms]
  note I = renaming_invD[OF inv]
  have sub: "set (rat r) \<subseteq> set (rat_retire r) \<union> set (new_ids fs)" using renamed_subset[OF I(7)] .
  have "length fs = n - k" if "find_first_unset (freevec r) = -1"
  proof -
    have "set (rat_retire r @ new_ids fs) = {0..<int n}" using find_free[OF I(4)] that I(9) by auto
    then have "length (rat_retire r @ new_ids fs) = n" using distinct_card[OF I(8)] by simp
    then show ?thesis using I(1) by (simp add: new_ids_def)
  qed
  then show ?thesis
    using find_free[OF I(4)] I(8-10) sub renamed_distinct[OF I(7,8)] by auto
qed

theorem renaming_no_clash_witness:
  "\<exists>r nid. ren_reachable 34 128 (r, [(4, 4, nid)]) \<and> distinct (rat r) \<and>
     used (freevec r) = insert nid (set (rat_retire r)) \<and> used (freevec_retire r) = set (rat_retire r) \<and>
     find_first_unset (freevec r) \<notin> set (rat r) \<union> set (rat_retire r) \<union> {nid}"
proof -
  obtain r nid where r: "ren_reachable 34 128 (r, [(4, 4, nid)])" "find_first_unset (freevec r) \<noteq> -1"
    using sample_in_flight by blast
  from renaming_no_clash[OF r(1)] r show ?thesis by (intro exI[of _ r] exI[of _ nid]) simp
qed

text \<open>
  Allocating a register and rolling the instruction back leaves the tables as they were, but for
  the valid bit of the register that was claimed, which is clear.
\<close>

theorem rollback_undoes_claim:
  assumes "ren_reachable k n (r, fs)" "k \<le> n" "d < k" "find_first_unset (freevec r) = nid" "nid \<noteq> -1"
  shows "\<exists>prev r1 v. mapped d r = Inr prev \<and> claim d nid r = Inr r1 \<and> undo d prev nid r1 = Inr (r\<lparr>valid := v\<rparr>) \<and>
    used v = used (valid r) - {nid}"
proof -
  note inv = reachable_renaming(1)[OF assms(1,2)]
  obtain r1 where r1: "claim d nid r = Inr r1" "renaming_inv k n (fs @ [(d, rat r ! d, nid)]) r1"
    "phys r1 = phys r" "arch r1 = arch r" "arch_last_pc r1 = arch_last_pc r" "rat_retire r1 = rat_retire r"
    "freevec_retire r1 = freevec_retire r" "rat r1 = (rat r)[d := nid]"
    "used (freevec r1) = insert nid (used (freevec r))" "used (valid r1) = used (valid r) - {nid}" "nid \<notin> used (freevec r)"
    using claim_ok[OF inv assms(3,4,5)] by blast
  obtain r2 where r2: "undo d (rat r ! d) nid r1 = Inr r2" "renaming_inv k n fs r2"
    "phys r2 = phys r1" "arch r2 = arch r1" "arch_last_pc r2 = arch_last_pc r1" "rat_retire r2 = rat_retire r1"
    "freevec_retire r2 = freevec_retire r1" "rat r2 = (rat r1)[d := rat r ! d]"
    "used (freevec r2) = used (freevec r1) - {nid}" "used (valid r2) = used (valid r1) - {nid}"
    using undo_ok[OF r1(2)] by blast
  have "freevec r2 = freevec r"
    using wf_vec_eqI[OF renaming_invD(4)[OF r2(2)] renaming_invD(4)[OF inv]] r2(9) r1(9,11) by auto
  then have "r2 = r\<lparr>valid := valid r2\<rparr>" using r1 r2 by (cases r, cases r2) simp
  moreover have "mapped d r = Inr (rat r ! d)" using renaming_invD(2)[OF inv] assms(3) by (simp add: mapped_def nth_res_def)
  ultimately show ?thesis using r1 r2 by (metis Diff_idemp)
qed

theorem rollback_undoes_claim_witness:
  "\<exists>r nid r1 v. ren_reachable 34 128 (r, [(4, 4, nid)]) \<and> claim 33 (find_first_unset (freevec r)) r = Inr r1 \<and>
     (\<exists>prev. undo 33 prev (find_first_unset (freevec r)) r1 = Inr (r\<lparr>valid := v\<rparr>))"
proof -
  obtain r nid where r: "ren_reachable 34 128 (r, [(4, 4, nid)])" "find_first_unset (freevec r) \<noteq> -1"
    using sample_in_flight by blast
  from rollback_undoes_claim[OF r(1) _ _ refl r(2), of 33] r(1) show ?thesis by auto
qed

text \<open>
  A restart recovers the precise state: in every reachable state it succeeds, its assertion on the
  number of registers in use holds, and afterwards each architectural register is mapped to a
  valid physical register that holds the value last retired for it.
\<close>

theorem restart_recovers:
  assumes "ren_reachable k n (r, fs)" "k \<le> n" "n mod 64 = 0"
  shows "\<exists>r1 r'. restore_map r = Inr r1 \<and> popcount (freevec r1) = Inr k \<and> restore_valid r1 = Inr r' \<and> rat r' = rat_retire r \<and>
    (\<forall>d < k. bv_get (valid r') (rat r' ! d) = Inr True \<and> at_idx (phys r') (rat r' ! d) = Inr (arch r ! d))"
proof -
  note inv = reachable_renaming(1)[OF assms(1,2)]
  note I = renaming_invD[OF inv]
  obtain r1 r' where r': "restore_map r = Inr r1" "restore_valid r1 = Inr r'" "renaming_inv k n [] r'" "phys r' = phys r"
    "arch r' = arch r" "arch_last_pc r' = arch_last_pc r" "rat r' = rat_retire r" "rat_retire r' = rat_retire r"
    "used (valid r') = set (rat_retire r)" "used (freevec r1) = set (rat_retire r)" "wf_vec n (freevec r1)"
    by (rule restore_ok[OF inv])
  have "card (used_bits (freevec r1)) = card (used (freevec r1))"
    unfolding used_def by (rule card_image[symmetric]) simp
  also have "\<dots> = k" using r'(10) distinct_card[of "rat_retire r"] I(1,8) by simp
  finally have "popcount (freevec r1) = Inr k"
    using r'(11) assms(3) popcount_wf[of "freevec r1"] by (simp add: wf_vec_def dvd_eq_mod_eq_0)
  moreover have "bv_get (valid r') (rat r' ! d) = Inr True" "at_idx (phys r') (rat r' ! d) = Inr (arch r ! d)" if "d < k" for d
  proof -
    have m: "rat_retire r ! d \<in> set (rat_retire r)" using that I(1) by simp
    then have b: "0 \<le> rat_retire r ! d" "rat_retire r ! d < int n" using renaming_inv_bounds[OF inv] by blast+
    show "bv_get (valid r') (rat r' ! d) = Inr True"
      using bv_get_ok[OF renaming_invD(6)[OF r'(3)] b] m r'(7,9) by simp
    show "at_idx (phys r') (rat r' ! d) = Inr (arch r ! d)"
      using b reachable_renaming(2)[OF assms(1,2)] that I(1,3) r'(4,7)
      by (simp add: at_idx_def nth_res_def mirrors_def nat_less_iff)
  qed
  ultimately show ?thesis using r'(1,2,7) by (intro exI[of _ r1] exI[of _ r'] conjI allI impI) simp_all
qed

theorem restart_recovers_witness:
  "\<exists>r nid r1. ren_reachable 34 128 (r, [(4, 4, nid)]) \<and> restore_map r = Inr r1 \<and> popcount (freevec r1) = Inr 34"
proof -
  obtain r nid where r: "ren_reachable 34 128 (r, [(4, 4, nid)])" using sample_in_flight by blast
  from restart_recovers[OF r(1)] r show ?thesis by auto
qed

end
