(* ===== verification/Machine.thy ===== *)
theory Machine
  imports Interp Reg_File Predictors Queue Stack
begin

text \<open>
  The state of the out-of-order core: the operation descriptor \<open>mips_meta_op\<close> and the class of its
  operation (\<^verbatim>\<open>sim_ooo/mips_op.hh\<close>, \<^verbatim>\<open>sim_ooo/mips_op.cc\<close>), and the machine
  (\<^verbatim>\<open>sim_ooo/machine_state.hh\<close>, \<^verbatim>\<open>sim_ooo/sim_parameters.hh\<close>), with the steps the operations share.

  Descriptors are objects on the heap of the core: queues, tables and reservation stations hold
  their addresses, and \<open>ops\<close> maps an address to the descriptor.  The object of the operation's
  class is owned by its descriptor; its class is \<open>mop\<close> and its members are fields of the
  descriptor.  The fields \<open>src0_prf\<close> to \<open>src5_prf\<close> are the function \<open>src\<close>.  Cycle counts are 64-bit
  with \<open>-1\<close> for none.  The log of retired instructions and printing have no effect on the state.
\<close>

section \<open>Operations\<close>

datatype exception_type = No_exception | Load_exception | Branch_exception

datatype oper_type = Op_unknown | Op_alu | Op_fp | Op_jmp | Op_load | Op_store | Op_system

datatype lo_hi_type = Mfhi | Mflo | Mthi | Mtlo

datatype r_type = Sll | Srl | Sra | Srlv | Srav | Addu | Add | Subu | Sub | And | Or | Xor | Nor | Slt | Sltu
  | Teq | Sllv | Movn | Movz

datatype jump_type = Jalr | Jr | J | Jal

datatype load_type = Lb | Lbu | Lh | Lhu | Lw | Ldc1 | Lwc1 | Lwxc1 | Ldxc1 | Lwl | Lwr

datatype store_type = Sb | Sh | Sw | Swl | Swr

datatype fp_store_type = Sdc1 | Swc1

datatype mult_div_type = Mult | Multu | Div | Divu | Madd | Msub | Maddu

datatype se_type = Seb | Seh

datatype fp_op_type = Fadd | Fsub | Fmul | Fdiv | Fsqrt | Fabs | Fmov | Fneg | Frecip | Frsqrt

datatype fma_type = F32 | F64

datatype cvt_type = Cvts | Truncw

datatype mips_op =
    Mtc0 | Mtc1 | Mfc1 | Lo_hi_move lo_hi_type | Nop
  | Rtype_alu r_type | Rtype_const_shift r_type | Itype_alu | Itype_lui
  | Jump jump_type | Branch branch_type
  | Load_op load_type | Store_op store_type | Fp_load load_type | Fp_store fp_store_type
  | Mul_op | Clz_op | Mult_div mult_div_type | Se_op se_type | Ext_op | Ins_op | Movci_op
  | Fmovc_op | Fmovn_op | Fmovz_op | Fp_cmp | Fp_arith fp_op_type | Fp_fma bool fma_type
  | Cvts_truncw cvt_type | Cvtd_op | Break_op | Sync_op | Monitor_op

record mips_meta_op = op_cycles +
  fetch_icnt :: u64
  op_pc :: u32
  op_inst :: u32
  fetch_npc :: u32
  predict_taken :: bool
  prediction :: u32
  pht_idx :: u64
  pop_return_stack :: bool
  alloc_id :: u64
  fetch_cycle :: u64
  decode_cycle :: u64
  alloc_cycle :: u64
  ready_cycle :: u64
  dispatch_cycle :: u64
  retire_cycle :: u64
  is_complete :: bool
  could_cause_exception :: bool
  exc :: exception_type
  load_exception :: bool
  has_delay_slot :: bool
  likely_squash :: bool
  correct_pc :: u32
  is_store :: bool
  rob_idx :: int
  prf_idx :: int
  aux_prf_idx :: int
  prev_prf_idx :: int
  aux_prev_prf_idx :: int
  src :: "nat \<Rightarrow> int"
  load_tbl_idx :: int
  store_tbl_idx :: int
  hi_prf_idx :: int
  lo_prf_idx :: int
  prev_hi_prf_idx :: int
  prev_lo_prf_idx :: int
  return_stack_idx :: u64
  mop :: "mips_op option"
  retired :: bool
  take_trap :: bool
  take_br :: bool
  br_target :: u32
  effective_address :: u32
  prev_value :: u32
  store_data :: u32
  store_data1 :: u32
  src_regs :: "nat \<Rightarrow> u32"

definition new_meta_op :: "u64 \<Rightarrow> u32 \<Rightarrow> u32 \<Rightarrow> u32 \<Rightarrow> u64 \<Rightarrow> bool \<Rightarrow> bool \<Rightarrow> mips_meta_op" where
  "new_meta_op ic ip inst npc cycle taken popped = \<lparr>aux_cycle = -1, complete_cycle = -1, fetch_icnt = ic, op_pc = ip,
     op_inst = inst, fetch_npc = npc, predict_taken = taken, prediction = 0, pht_idx = 0, pop_return_stack = popped,
     alloc_id = -1, fetch_cycle = cycle, decode_cycle = -1, alloc_cycle = -1, ready_cycle = -1, dispatch_cycle = -1,
     retire_cycle = -1, is_complete = False, could_cause_exception = False, exc = No_exception, load_exception = False,
     has_delay_slot = False, likely_squash = False, correct_pc = 0, is_store = False, rob_idx = -1, prf_idx = -1,
     aux_prf_idx = -1, prev_prf_idx = -1, aux_prev_prf_idx = -1, src = (\<lambda>_. -1), load_tbl_idx = -1, store_tbl_idx = -1,
     hi_prf_idx = -1, lo_prf_idx = -1, prev_hi_prf_idx = -1, prev_lo_prf_idx = -1, return_stack_idx = -1, mop = None,
     retired = False, take_trap = False, take_br = False, br_target = 0, effective_address = NOT 0, prev_value = 0,
     store_data = NOT 0, store_data1 = 0, src_regs = (\<lambda>_. 0)\<rparr>"

section \<open>Machine\<close>

datatype rfile = GPR | CPR0 | CPR1 | FCR1

record counters =
  n_branches :: u64
  n_jumps :: u64
  mispredicted_branches :: u64
  mispredicted_jumps :: u64
  mispredicted_jrs :: u64
  mispredicted_jalrs :: u64
  nukes :: u64
  branch_nukes :: u64
  load_nukes :: u64
  total_ready_insns :: u64
  total_allocated_insns :: u64
  total_dispatched_insns :: u64

record stations =
  alu_rs :: "nat sim_list list"
  fpu_rs :: "nat sim_list list"
  jmp_rs :: "nat sim_list"
  load_rs :: "nat sim_list list"
  store_rs :: "nat sim_list list"
  system_rs :: "nat sim_list"

record sim_state =
  curr :: u64
  terminate_sim :: bool
  nuke :: bool
  alloc_blocked :: bool
  fetch_blocked :: bool
  delay_slot_npc :: u32
  fetch_pc :: u32
  last_retire_cycle :: u64
  last_retire_pc :: u32
  rf :: "rfile \<Rightarrow> regs"
  load_tbl :: "nat option list"
  store_tbl :: "nat option list"
  load_tbl_freevec :: "u64 bitvec"
  store_tbl_freevec :: "u64 bitvec"
  fetch_queue :: "nat sim_queue"
  decode_queue :: "nat sim_queue"
  rob :: "nat sim_queue"
  alu_alloc :: "u64 bitvec"
  fpu_alloc :: "u64 bitvec"
  load_alloc :: "u64 bitvec"
  store_alloc :: "u64 bitvec"
  stations :: stations
  smem :: sparse_mem
  branch_pred :: branch_predictor
  loop_pred :: "loop_predictor option"
  bhr :: "u8 bitvec"
  spec_bhr :: "u8 bitvec"
  bht :: "u64 bitvec list"
  sicnt :: u64
  maxicnt :: u64
  skipicnt :: u64
  fetched_insns :: u64
  stats :: counters
  return_stack :: "u32 sim_stack"
  l1cache :: "cache list"
  branch_target_map :: "u32 \<rightharpoonup> u32"
  branch_prediction_map :: "u32 \<rightharpoonup> int"
  load_alias_map :: "u32 \<Rightarrow> u32 set"
  alloc_counter :: u64
  ops :: "nat \<rightharpoonup> mips_meta_op"

text \<open>The parameters of a run that the operations and the stages read.\<close>

record sim_param =
  l1d_latency :: u64
  fetch_bw :: int
  decode_bw :: int
  alloc_bw :: int
  retire_bw :: int
  taken_branches_per_cycle :: int
  num_alu_ports :: nat
  num_fpu_ports :: nat
  num_load_ports :: nat
  num_store_ports :: nat
  num_alu_sched :: int
  num_fpu_sched :: int
  num_load_sched :: int
  num_store_sched :: int
  ready_to_dispatch_latency :: u64
  flash_restart :: bool
  use_interp_check :: bool
  bpar :: bp_params
  host :: params

section \<open>Steps the operations share\<close>

definition on_rf :: "rfile \<Rightarrow> (regs \<Rightarrow> regs res) \<Rightarrow> sim_state \<Rightarrow> sim_state res" where
  "on_rf k f M = rbind (f (rf M k)) (\<lambda>r. Inr (M\<lparr>rf := (rf M)(k := r)\<rparr>))"

definition set_src :: "nat \<Rightarrow> rfile \<Rightarrow> nat \<Rightarrow> sim_state \<Rightarrow> mips_meta_op \<Rightarrow> mips_meta_op res" where
  "set_src i k d M u = rbind (mapped d (rf M k)) (\<lambda>p. Inr (u\<lparr>src := (src u)(i := p)\<rparr>))"

text \<open>The mapping of one destination: false, with only the old mapping noted, when no register is free.\<close>

definition rename_reg :: "rfile \<Rightarrow> nat \<Rightarrow> mips_meta_op \<Rightarrow> sim_state \<Rightarrow> (mips_meta_op \<times> sim_state \<times> bool) res" where
  "rename_reg k d u M = rbind (mapped d (rf M k)) (\<lambda>prev. let u1 = u\<lparr>prev_prf_idx := prev\<rparr>;
       nid = find_first_unset (freevec (rf M k))
     in if nid = -1 then Inr (u1, M, False)
        else rbind (on_rf k (claim d nid) M) (\<lambda>M1. Inr (u1\<lparr>prf_idx := nid\<rparr>, M1, True)))"

definition val :: "rfile \<Rightarrow> int \<Rightarrow> sim_state \<Rightarrow> u32 res" where
  "val k p M = at_idx (phys (rf M k)) p"

definition src_val :: "rfile \<Rightarrow> nat \<Rightarrow> mips_meta_op \<Rightarrow> sim_state \<Rightarrow> u32 res" where
  "src_val k i u M = val k (src u i) M"

fun all_valid :: "(rfile \<times> int) list \<Rightarrow> sim_state \<Rightarrow> bool res" where
  "all_valid [] M = Inr True"
| "all_valid ((k, p) # ps) M = rbind (bv_get (valid (rf M k)) p) (\<lambda>b. if \<not> b then Inr False else all_valid ps M)"

text \<open>The sources of an operation; an optional one is left out where it is \<open>-1\<close>.\<close>

definition need :: "rfile \<Rightarrow> nat \<Rightarrow> mips_meta_op \<Rightarrow> (rfile \<times> int) list" where
  "need k i u = [(k, src u i)]"

definition opt :: "rfile \<Rightarrow> nat \<Rightarrow> mips_meta_op \<Rightarrow> (rfile \<times> int) list" where
  "opt k i u = (if src u i = -1 then [] else [(k, src u i)])"

definition finish_in :: "u64 \<Rightarrow> mips_meta_op \<Rightarrow> sim_state \<Rightarrow> mips_meta_op" where
  "finish_in lat u M = u\<lparr>complete_cycle := curr M + lat\<rparr>"

definition result :: "rfile \<Rightarrow> u32 \<Rightarrow> u64 \<Rightarrow> mips_meta_op \<Rightarrow> sim_state \<Rightarrow> (mips_meta_op \<times> sim_state) res" where
  "result k x lat u M = rbind (on_rf k (write_prf (prf_idx u) x) M) (\<lambda>M1. Inr (finish_in lat u M, M1))"

definition completes :: "mips_meta_op \<Rightarrow> sim_state \<Rightarrow> bool" where
  "completes u M \<longleftrightarrow> \<not> is_complete u \<and> curr M = complete_cycle u"

definition complete_with :: "(sim_state \<Rightarrow> sim_state res) \<Rightarrow> mips_meta_op \<Rightarrow> sim_state \<Rightarrow> (mips_meta_op \<times> sim_state) res" where
  "complete_with f u M = (if completes u M then rbind (f M) (\<lambda>M1. Inr (u\<lparr>is_complete := True\<rparr>, M1)) else Inr (u, M))"

definition complete_reg :: "rfile \<Rightarrow> mips_meta_op \<Rightarrow> sim_state \<Rightarrow> (mips_meta_op \<times> sim_state) res" where
  "complete_reg k u M = complete_with (on_rf k (set_valid (prf_idx u))) u M"

definition count_retired :: "mips_meta_op \<Rightarrow> sim_state \<Rightarrow> (mips_meta_op \<times> sim_state) res" where
  "count_retired u M = Inr (u\<lparr>retired := True, retire_cycle := curr M\<rparr>, M\<lparr>sicnt := sicnt M + 1\<rparr>)"

text \<open>Some classes leave \<open>retired\<close> as it is.\<close>

definition count_icnt :: "mips_meta_op \<Rightarrow> sim_state \<Rightarrow> (mips_meta_op \<times> sim_state) res" where
  "count_icnt u M = Inr (u\<lparr>retire_cycle := curr M\<rparr>, M\<lparr>sicnt := sicnt M + 1\<rparr>)"

definition retire_dest :: "bool \<Rightarrow> u32 option \<Rightarrow> rfile \<Rightarrow> nat \<Rightarrow> mips_meta_op \<Rightarrow> sim_state \<Rightarrow> sim_state res" where
  "retire_dest vals ip k d u M = on_rf k (retire_reg vals ip d (prev_prf_idx u) (prf_idx u)) M"

definition retire_aux :: "u32 option \<Rightarrow> rfile \<Rightarrow> nat \<Rightarrow> mips_meta_op \<Rightarrow> sim_state \<Rightarrow> sim_state res" where
  "retire_aux ip k d u M = on_rf k (retire_reg True ip d (aux_prev_prf_idx u) (aux_prf_idx u)) M"

definition retire_gpr :: "nat \<Rightarrow> mips_meta_op \<Rightarrow> sim_state \<Rightarrow> (mips_meta_op \<times> sim_state) res" where
  "retire_gpr d u M = rbind (retire_dest True (Some (op_pc u)) GPR d u M) (count_retired u)"

definition undo_dest :: "rfile \<Rightarrow> nat \<Rightarrow> mips_meta_op \<Rightarrow> sim_state \<Rightarrow> sim_state res" where
  "undo_dest k d u M = on_rf k (undo d (prev_prf_idx u) (prf_idx u)) M"

definition undo_aux :: "rfile \<Rightarrow> nat \<Rightarrow> mips_meta_op \<Rightarrow> sim_state \<Rightarrow> sim_state res" where
  "undo_aux k d u M = on_rf k (undo d (aux_prev_prf_idx u) (aux_prf_idx u)) M"

text \<open>A rollback that tests both indices first.\<close>

definition undo_opt :: "rfile \<Rightarrow> nat \<Rightarrow> mips_meta_op \<Rightarrow> sim_state \<Rightarrow> sim_state res" where
  "undo_opt k d u M = on_rf k (\<lambda>r.
     rbind (if prev_prf_idx u \<noteq> -1 then rbind (put_res (rat r) d (prev_prf_idx u)) (\<lambda>m. Inr (r\<lparr>rat := m\<rparr>)) else Inr r) (\<lambda>r1.
       if prf_idx u \<noteq> -1 then rbind (bv_clear (freevec r1) (prf_idx u)) (\<lambda>fv. rbind (bv_clear (valid r1) (prf_idx u)) (\<lambda>v.
         Inr (r1\<lparr>freevec := fv, valid := v\<rparr>))) else Inr r1)) M"


definition with_mem :: "(sparse_mem \<Rightarrow> (sparse_mem \<times> 'a) res) \<Rightarrow> sim_state \<Rightarrow> ('a \<Rightarrow> sim_state \<Rightarrow> 'b res) \<Rightarrow> 'b res" where
  "with_mem g M f = rbind (g (smem M)) (\<lambda>(m, v). f v (M\<lparr>smem := m\<rparr>))"

definition put_mem :: "(sparse_mem \<Rightarrow> sparse_mem res) \<Rightarrow> sim_state \<Rightarrow> sim_state res" where
  "put_mem p M = rbind (p (smem M)) (\<lambda>m. Inr (M\<lparr>smem := m\<rparr>))"

text \<open>The environment of the caches in this cycle, and a call of the cache for the operation at \<open>a\<close>.\<close>

definition env_now :: "sim_param \<Rightarrow> sim_state \<Rightarrow> env" where
  "env_now S M = (cenv (host S))\<lparr>curr_cycle := curr M\<rparr>"

definition cyc_table :: "(nat \<rightharpoonup> mips_meta_op) \<Rightarrow> op_table" where
  "cyc_table t = (\<lambda>a. map_option op_cycles.truncate (t a))"

definition with_cycles :: "(nat \<rightharpoonup> mips_meta_op) \<Rightarrow> op_table \<Rightarrow> (nat \<rightharpoonup> mips_meta_op)" where
  "with_cycles t c = (\<lambda>a. case (t a, c a) of
     (Some u, Some oc) \<Rightarrow> Some (u\<lparr>aux_cycle := aux_cycle oc, complete_cycle := complete_cycle oc\<rparr>) | (x, _) \<Rightarrow> x)"

definition cache_op :: "(env \<Rightarrow> nat \<Rightarrow> u32 \<Rightarrow> cache list \<Rightarrow> op_table \<Rightarrow> (u32 \<times> cache list \<times> op_table) res) \<Rightarrow>
  sim_param \<Rightarrow> nat \<Rightarrow> u32 \<Rightarrow> mips_meta_op \<Rightarrow> sim_state \<Rightarrow> (mips_meta_op \<times> sim_state) res" where
  "cache_op f S a addr u M = rbind (f (env_now S M) a addr (l1cache M) ((cyc_table (ops M))(a \<mapsto> op_cycles.truncate u)))
     (\<lambda>(lat, cs, t). case t a of None \<Rightarrow> Inl Undefined | Some oc \<Rightarrow>
        Inr (u\<lparr>aux_cycle := aux_cycle oc, complete_cycle := complete_cycle oc\<rparr>, M\<lparr>l1cache := cs\<rparr>))"

definition getCC :: "u32 \<Rightarrow> nat \<Rightarrow> bool" where
  "getCC cr cc \<longleftrightarrow> drop_bit cc (cr AND push_bit cc 1) AND 1 \<noteq> 0"

end
