(* ===== verification/Op_Int.thy ===== *)
theory Op_Int
  imports Machine
begin

text \<open>
  The integer operations of \<^verbatim>\<open>sim_ooo/mips_op.cc\<close>, one group of methods per class: allocate, ready,
  execute, complete, retire and rollback.  Registers are words; the code holds the general
  registers as signed ints and casts, so a signed comparison or shift is written as such.
\<close>

section \<open>Moves to and from the coprocessors\<close>

definition mtc0_allocate :: "mips_meta_op \<Rightarrow> sim_state \<Rightarrow> (mips_meta_op \<times> sim_state \<times> bool) res" where
  "mtc0_allocate u M = rbind (set_src 0 GPR (rt_of (op_inst u)) M u) (\<lambda>u1. rename_reg CPR0 (rd_of (op_inst u)) u1 M)"

definition mtc0_ready :: "mips_meta_op \<Rightarrow> sim_state \<Rightarrow> bool res" where
  "mtc0_ready u M = all_valid (opt GPR 0 u) M"

definition mtc0_execute :: "mips_meta_op \<Rightarrow> sim_state \<Rightarrow> (mips_meta_op \<times> sim_state) res" where
  "mtc0_execute u M = rbind (mtc0_ready u M) (\<lambda>b. ensure Die b (rbind (src_val GPR 0 u M) (\<lambda>x. result CPR0 x 1 u M)))"

definition mtc0_complete :: "mips_meta_op \<Rightarrow> sim_state \<Rightarrow> (mips_meta_op \<times> sim_state) res" where
  "mtc0_complete = complete_reg CPR0"

definition mtc0_retire :: "mips_meta_op \<Rightarrow> sim_state \<Rightarrow> (mips_meta_op \<times> sim_state) res" where
  "mtc0_retire u M = rbind (retire_dest False None CPR0 (rd_of (op_inst u)) u M) (count_retired u)"

definition mtc0_rollback :: "mips_meta_op \<Rightarrow> sim_state \<Rightarrow> sim_state res" where
  "mtc0_rollback u M = undo_opt CPR0 (rd_of (op_inst u)) u M"

definition mtc1_allocate :: "mips_meta_op \<Rightarrow> sim_state \<Rightarrow> (mips_meta_op \<times> sim_state \<times> bool) res" where
  "mtc1_allocate u M = rbind (set_src 0 GPR (rt_of (op_inst u)) M u) (\<lambda>u1. rename_reg CPR1 (rd_of (op_inst u)) u1 M)"

definition mtc1_ready :: "mips_meta_op \<Rightarrow> sim_state \<Rightarrow> bool res" where
  "mtc1_ready u M = all_valid (opt GPR 0 u) M"

definition mtc1_execute :: "mips_meta_op \<Rightarrow> sim_state \<Rightarrow> (mips_meta_op \<times> sim_state) res" where
  "mtc1_execute u M = rbind (src_val GPR 0 u M) (\<lambda>x. result CPR1 x 1 u M)"

definition mtc1_complete :: "mips_meta_op \<Rightarrow> sim_state \<Rightarrow> (mips_meta_op \<times> sim_state) res" where
  "mtc1_complete = complete_reg CPR1"

definition mtc1_retire :: "mips_meta_op \<Rightarrow> sim_state \<Rightarrow> (mips_meta_op \<times> sim_state) res" where
  "mtc1_retire u M = rbind (retire_dest True (Some (op_pc u)) CPR1 (rd_of (op_inst u)) u M) (count_retired u)"

definition mtc1_rollback :: "mips_meta_op \<Rightarrow> sim_state \<Rightarrow> sim_state res" where
  "mtc1_rollback u M = undo_dest CPR1 (rd_of (op_inst u)) u M"

definition mfc1_allocate :: "mips_meta_op \<Rightarrow> sim_state \<Rightarrow> (mips_meta_op \<times> sim_state \<times> bool) res" where
  "mfc1_allocate u M = rbind (set_src 0 CPR1 (rd_of (op_inst u)) M u) (\<lambda>u1. rename_reg GPR (rt_of (op_inst u)) u1 M)"

definition mfc1_ready :: "mips_meta_op \<Rightarrow> sim_state \<Rightarrow> bool res" where
  "mfc1_ready u M = all_valid (opt CPR1 0 u) M"

definition mfc1_execute :: "mips_meta_op \<Rightarrow> sim_state \<Rightarrow> (mips_meta_op \<times> sim_state) res" where
  "mfc1_execute u M = rbind (mfc1_ready u M) (\<lambda>b. ensure Die b (rbind (src_val CPR1 0 u M) (\<lambda>x. result GPR x 1 u M)))"

definition mfc1_complete :: "mips_meta_op \<Rightarrow> sim_state \<Rightarrow> (mips_meta_op \<times> sim_state) res" where
  "mfc1_complete = complete_reg GPR"

definition mfc1_retire :: "mips_meta_op \<Rightarrow> sim_state \<Rightarrow> (mips_meta_op \<times> sim_state) res" where
  "mfc1_retire u M = retire_gpr (rt_of (op_inst u)) u M"

definition mfc1_rollback :: "mips_meta_op \<Rightarrow> sim_state \<Rightarrow> sim_state res" where
  "mfc1_rollback u M = undo_opt GPR (rt_of (op_inst u)) u M"

section \<open>Moves to and from lo and hi\<close>

definition lo_hi_dest :: "lo_hi_type \<Rightarrow> u32 \<Rightarrow> nat" where
  "lo_hi_dest lht inst = (case lht of Mtlo \<Rightarrow> 32 | Mthi \<Rightarrow> 33 | _ \<Rightarrow> rd_of inst)"

definition lo_hi_src0 :: "lo_hi_type \<Rightarrow> u32 \<Rightarrow> nat" where
  "lo_hi_src0 lht inst = (case lht of Mflo \<Rightarrow> 32 | Mfhi \<Rightarrow> 33 | _ \<Rightarrow> rs_of inst)"

definition lo_hi_allocate :: "lo_hi_type \<Rightarrow> mips_meta_op \<Rightarrow> sim_state \<Rightarrow> (mips_meta_op \<times> sim_state \<times> bool) res" where
  "lo_hi_allocate lht u M = rbind (set_src 0 GPR (lo_hi_src0 lht (op_inst u)) M u)
     (\<lambda>u1. rename_reg GPR (lo_hi_dest lht (op_inst u)) u1 M)"

definition lo_hi_ready :: "mips_meta_op \<Rightarrow> sim_state \<Rightarrow> bool res" where
  "lo_hi_ready u M = all_valid (need GPR 0 u) M"

definition lo_hi_execute :: "mips_meta_op \<Rightarrow> sim_state \<Rightarrow> (mips_meta_op \<times> sim_state) res" where
  "lo_hi_execute u M = rbind (src_val GPR 0 u M) (\<lambda>x. result GPR x 1 u M)"

definition lo_hi_complete :: "mips_meta_op \<Rightarrow> sim_state \<Rightarrow> (mips_meta_op \<times> sim_state) res" where
  "lo_hi_complete = complete_reg GPR"

definition lo_hi_retire :: "lo_hi_type \<Rightarrow> mips_meta_op \<Rightarrow> sim_state \<Rightarrow> (mips_meta_op \<times> sim_state) res" where
  "lo_hi_retire lht u M = retire_gpr (lo_hi_dest lht (op_inst u)) u M"

definition lo_hi_rollback :: "lo_hi_type \<Rightarrow> mips_meta_op \<Rightarrow> sim_state \<Rightarrow> sim_state res" where
  "lo_hi_rollback lht u M = undo_dest GPR (lo_hi_dest lht (op_inst u)) u M"

section \<open>No operation\<close>

text \<open>The class is not produced by the decoder, and inherits \<open>ready\<close>, which is false.\<close>

definition nop_execute :: "mips_meta_op \<Rightarrow> sim_state \<Rightarrow> (mips_meta_op \<times> sim_state) res" where
  "nop_execute u M = Inr (finish_in 1 u M, M)"

definition nop_complete :: "mips_meta_op \<Rightarrow> sim_state \<Rightarrow> (mips_meta_op \<times> sim_state) res" where
  "nop_complete = complete_with Inr"

definition nop_retire :: "mips_meta_op \<Rightarrow> sim_state \<Rightarrow> (mips_meta_op \<times> sim_state) res" where
  "nop_retire u M = Inr (u\<lparr>retire_cycle := curr M\<rparr>, M)"

section \<open>Register arithmetic\<close>

definition rtype_dest :: "r_type \<Rightarrow> u32 \<Rightarrow> int" where
  "rtype_dest rt inst = (if rt \<noteq> Teq then int (rd_of inst) else -1)"

definition rtype_src2 :: "r_type \<Rightarrow> u32 \<Rightarrow> int" where
  "rtype_src2 rt inst = (if rt \<in> {Movn, Movz} then rtype_dest rt inst else -1)"

text \<open>\<open>two\<close> is false in the subclass of the shifts by a constant, which have no second source.\<close>

definition rtype_allocate :: "bool \<Rightarrow> r_type \<Rightarrow> mips_meta_op \<Rightarrow> sim_state \<Rightarrow> (mips_meta_op \<times> sim_state \<times> bool) res" where
  "rtype_allocate two rt u M = (let inst = op_inst u
     in rbind (set_src 0 GPR (rt_of inst) M u) (\<lambda>u1.
        rbind (if two then set_src 1 GPR (rs_of inst) M u1 else Inr u1) (\<lambda>u2.
        rbind (if rtype_src2 rt inst \<noteq> -1 then set_src 2 GPR (nat (rtype_src2 rt inst)) M u2 else Inr u2) (\<lambda>u3.
          if 0 < rtype_dest rt inst then rename_reg GPR (nat (rtype_dest rt inst)) u3 M else Inr (u3, M, True)))))"

definition rtype_ready :: "mips_meta_op \<Rightarrow> sim_state \<Rightarrow> bool res" where
  "rtype_ready u M = all_valid (opt GPR 0 u @ opt GPR 1 u @ opt GPR 2 u) M"

definition sar :: "nat \<Rightarrow> u32 \<Rightarrow> u32" where
  "sar n x = signed_drop_bit n x"

definition low5 :: "u32 \<Rightarrow> nat" where
  "low5 x = unat (x AND 0x1f)"

text \<open>The value of an operation of two sources, \<open>b\<close> the first (\<open>rt\<close>) and \<open>a\<close> the second (\<open>rs\<close>).\<close>

definition rtype_value2 :: "r_type \<Rightarrow> u32 \<Rightarrow> u32 \<Rightarrow> u32 res" where
  "rtype_value2 rt b a = (case rt of
     Sllv \<Rightarrow> Inr (push_bit (low5 a) b) | Srlv \<Rightarrow> Inr (drop_bit (low5 a) b) | Srav \<Rightarrow> Inr (sar (low5 a) b)
   | Addu \<Rightarrow> Inr (a + b) | Subu \<Rightarrow> Inr (a - b)
   | And \<Rightarrow> Inr (b AND a) | Or \<Rightarrow> Inr (b OR a) | Xor \<Rightarrow> Inr (b XOR a) | Nor \<Rightarrow> Inr (NOT (b OR a))
   | Slt \<Rightarrow> Inr (of_bool (a <s b)) | Sltu \<Rightarrow> Inr (of_bool (a < b))
   | _ \<Rightarrow> Inl Die)"

definition rtype_execute :: "r_type \<Rightarrow> mips_meta_op \<Rightarrow> sim_state \<Rightarrow> (mips_meta_op \<times> sim_state) res" where
  "rtype_execute rt u M = (let sa = sa_of (op_inst u)
     in if prf_idx u = -1 then Inr (finish_in 1 u M, M)
        else if rt \<in> {Sll, Srl, Sra} then rbind (src_val GPR 0 u M) (\<lambda>b.
          result GPR (if rt = Sll then push_bit sa b else if rt = Srl then drop_bit sa b else sar sa b) 1 u M)
        else if rt \<in> {Movn, Movz} then rbind (src_val GPR 0 u M) (\<lambda>b.
          rbind (if (b \<noteq> 0) = (rt = Movn) then src_val GPR 1 u M else src_val GPR 2 u M) (\<lambda>x. result GPR x 1 u M))
        else if rt = Teq then rbind (src_val GPR 0 u M) (\<lambda>b. rbind (src_val GPR 1 u M) (\<lambda>a.
          Inr (finish_in 1 (u\<lparr>take_trap := (b = a)\<rparr>) M, M)))
        else if rt \<in> {Add, Sub} then Inl Die
        else rbind (src_val GPR 0 u M) (\<lambda>b. rbind (src_val GPR 1 u M) (\<lambda>a.
          rbind (rtype_value2 rt b a) (\<lambda>x. result GPR x 1 u M))))"

definition rtype_complete :: "mips_meta_op \<Rightarrow> sim_state \<Rightarrow> (mips_meta_op \<times> sim_state) res" where
  "rtype_complete u M = complete_with (\<lambda>M. if prf_idx u \<noteq> -1 then on_rf GPR (set_valid (prf_idx u)) M else Inr M) u M"

definition rtype_retire :: "r_type \<Rightarrow> mips_meta_op \<Rightarrow> sim_state \<Rightarrow> (mips_meta_op \<times> sim_state) res" where
  "rtype_retire rt u M = (let d = nat (rtype_dest rt (op_inst u))
     in rbind (if prev_prf_idx u \<noteq> -1 then on_rf GPR (\<lambda>r. rbind (free_prev (prev_prf_idx u) r) (\<lambda>r1.
          rbind (commit_value d (prf_idx u) r1) (commit_pc d (op_pc u)))) M else Inr M) (\<lambda>M1.
        ensure Die (\<not> take_trap u)
          (rbind (if prf_idx u \<noteq> -1 then on_rf GPR (commit_map d (prev_prf_idx u) (prf_idx u)) M1 else Inr M1)
            (count_retired u))))"

definition rtype_rollback :: "r_type \<Rightarrow> mips_meta_op \<Rightarrow> sim_state \<Rightarrow> sim_state res" where
  "rtype_rollback rt u M = (if 0 < rtype_dest rt (op_inst u) then undo_opt GPR (nat (rtype_dest rt (op_inst u))) u M else Inr M)"

section \<open>Immediate arithmetic\<close>

text \<open>\<open>src0\<close> is false in the subclass of \<open>lui\<close>, which has no source.\<close>

definition itype_allocate :: "bool \<Rightarrow> mips_meta_op \<Rightarrow> sim_state \<Rightarrow> (mips_meta_op \<times> sim_state \<times> bool) res" where
  "itype_allocate src0 u M = (let inst = op_inst u
     in rbind (if src0 then set_src 0 GPR (rs_of inst) M u else Inr u) (\<lambda>u1.
          if 0 < rt_of inst then rename_reg GPR (rt_of inst) u1 M else Inr (u1, M, True)))"

definition itype_ready :: "mips_meta_op \<Rightarrow> sim_state \<Rightarrow> bool res" where
  "itype_ready u M = all_valid (opt GPR 0 u) M"

definition itype_value :: "u32 \<Rightarrow> u32 \<Rightarrow> u32 res" where
  "itype_value inst a = (let opcode = opcode_of inst; uimm32 = uimm inst; simm32 = simm inst
     in if opcode = 0x09 then Inr (a + simm32)
        else if opcode = 0x0a then Inr (of_bool (a <s simm32))
        else if opcode = 0x0b then Inr (of_bool (a < simm32))
        else if opcode = 0x0c then Inr (a AND uimm32)
        else if opcode = 0x0d then Inr (a OR uimm32)
        else if opcode = 0x0e then Inr (a XOR uimm32)
        else Inl Die)"

definition itype_execute :: "mips_meta_op \<Rightarrow> sim_state \<Rightarrow> (mips_meta_op \<times> sim_state) res" where
  "itype_execute u M = rbind (src_val GPR 0 u M) (\<lambda>a. rbind (itype_value (op_inst u) a) (\<lambda>x. result GPR x 1 u M))"

definition itype_complete :: "mips_meta_op \<Rightarrow> sim_state \<Rightarrow> (mips_meta_op \<times> sim_state) res" where
  "itype_complete = complete_reg GPR"

definition itype_retire :: "mips_meta_op \<Rightarrow> sim_state \<Rightarrow> (mips_meta_op \<times> sim_state) res" where
  "itype_retire u M = ensure Die (is_complete u) (retire_gpr (rt_of (op_inst u)) u M)"

definition itype_rollback :: "mips_meta_op \<Rightarrow> sim_state \<Rightarrow> sim_state res" where
  "itype_rollback u M = (if 0 < rt_of (op_inst u) then undo_opt GPR (rt_of (op_inst u)) u M else Inr M)"

definition lui_execute :: "mips_meta_op \<Rightarrow> sim_state \<Rightarrow> (mips_meta_op \<times> sim_state) res" where
  "lui_execute u M = result GPR (push_bit 16 (uimm (op_inst u))) 1 u M"

section \<open>Multiplication, division and leading zeros\<close>

definition mul_allocate :: "mips_meta_op \<Rightarrow> sim_state \<Rightarrow> (mips_meta_op \<times> sim_state \<times> bool) res" where
  "mul_allocate u M = rbind (set_src 0 GPR (rs_of (op_inst u)) M u) (\<lambda>u1. rbind (set_src 1 GPR (rt_of (op_inst u)) M u1)
     (\<lambda>u2. rename_reg GPR (rd_of (op_inst u)) u2 M))"

definition mul_ready :: "mips_meta_op \<Rightarrow> sim_state \<Rightarrow> bool res" where
  "mul_ready u M = all_valid (need GPR 0 u @ need GPR 1 u) M"

definition mul_execute :: "mips_meta_op \<Rightarrow> sim_state \<Rightarrow> (mips_meta_op \<times> sim_state) res" where
  "mul_execute u M = rbind (src_val GPR 1 u M) (\<lambda>a. rbind (src_val GPR 0 u M) (\<lambda>b.
     result GPR (lo32 (scast a * scast b)) 4 u M))"

definition mul_complete :: "mips_meta_op \<Rightarrow> sim_state \<Rightarrow> (mips_meta_op \<times> sim_state) res" where
  "mul_complete = complete_reg GPR"

definition mul_retire :: "mips_meta_op \<Rightarrow> sim_state \<Rightarrow> (mips_meta_op \<times> sim_state) res" where
  "mul_retire u M = retire_gpr (rd_of (op_inst u)) u M"

definition mul_rollback :: "mips_meta_op \<Rightarrow> sim_state \<Rightarrow> sim_state res" where
  "mul_rollback u M = undo_dest GPR (rd_of (op_inst u)) u M"

definition clz_allocate :: "mips_meta_op \<Rightarrow> sim_state \<Rightarrow> (mips_meta_op \<times> sim_state \<times> bool) res" where
  "clz_allocate u M = rbind (set_src 0 GPR (rs_of (op_inst u)) M u) (\<lambda>u1. rename_reg GPR (rd_of (op_inst u)) u1 M)"

definition clz_ready :: "mips_meta_op \<Rightarrow> sim_state \<Rightarrow> bool res" where
  "clz_ready u M = all_valid (need GPR 0 u) M"

definition clz_execute :: "mips_meta_op \<Rightarrow> sim_state \<Rightarrow> (mips_meta_op \<times> sim_state) res" where
  "clz_execute u M = rbind (src_val GPR 0 u M) (\<lambda>a. result GPR (if a = 0 then 32 else clz32 a) 1 u M)"

definition clz_complete :: "mips_meta_op \<Rightarrow> sim_state \<Rightarrow> (mips_meta_op \<times> sim_state) res" where
  "clz_complete = complete_reg GPR"

definition clz_retire :: "mips_meta_op \<Rightarrow> sim_state \<Rightarrow> (mips_meta_op \<times> sim_state) res" where
  "clz_retire u M = retire_gpr (rd_of (op_inst u)) u M"

definition clz_rollback :: "mips_meta_op \<Rightarrow> sim_state \<Rightarrow> sim_state res" where
  "clz_rollback u M = undo_dest GPR (rd_of (op_inst u)) u M"

definition uses_acc :: "mult_div_type \<Rightarrow> bool" where
  "uses_acc mdt \<longleftrightarrow> mdt \<in> {Madd, Maddu, Msub}"

definition num_free_regs :: "rfile \<Rightarrow> sim_state \<Rightarrow> nat res" where
  "num_free_regs k M = num_free (freevec (rf M k))"

definition mult_div_allocate :: "mult_div_type \<Rightarrow> mips_meta_op \<Rightarrow> sim_state \<Rightarrow> (mips_meta_op \<times> sim_state \<times> bool) res" where
  "mult_div_allocate mdt u M = rbind (num_free_regs GPR M) (\<lambda>n. if n < 2 then Inr (u, M, False) else
     rbind (set_src 0 GPR (rs_of (op_inst u)) M u) (\<lambda>u1. rbind (set_src 1 GPR (rt_of (op_inst u)) M u1) (\<lambda>u2.
     rbind (if uses_acc mdt then rbind (set_src 2 GPR 32 M u2) (set_src 3 GPR 33 M) else Inr u2) (\<lambda>u3.
     rbind (mapped 32 (rf M GPR)) (\<lambda>pl. rbind (mapped 33 (rf M GPR)) (\<lambda>ph.
     let l = find_first_unset (freevec (rf M GPR)) in ensure Die (l \<noteq> -1) (rbind (on_rf GPR (claim 32 l) M) (\<lambda>M1.
     let h = find_first_unset (freevec (rf M1 GPR)) in ensure Die (h \<noteq> -1) (rbind (on_rf GPR (claim 33 h) M1) (\<lambda>M2.
       Inr (u3\<lparr>prev_lo_prf_idx := pl, prev_hi_prf_idx := ph, lo_prf_idx := l, hi_prf_idx := h\<rparr>, M2, True)))))))))))"

definition mult_div_ready :: "mips_meta_op \<Rightarrow> sim_state \<Rightarrow> bool res" where
  "mult_div_ready u M = all_valid (need GPR 0 u @ need GPR 1 u @ opt GPR 2 u @ opt GPR 3 u) M"

definition set_lo_hi :: "u64 \<Rightarrow> mips_meta_op \<Rightarrow> sim_state \<Rightarrow> sim_state res" where
  "set_lo_hi y u M = rbind (on_rf GPR (write_prf (lo_prf_idx u) (lo32 y)) M) (on_rf GPR (write_prf (hi_prf_idx u) (hi32 y)))"

definition acc_of :: "u32 \<Rightarrow> u32 \<Rightarrow> u64" where
  "acc_of h l = push_bit 32 (scast h) OR scast l"

text \<open>The first source is \<open>rs\<close>, the dividend, and the second \<open>rt\<close>.  A division by zero leaves the
  two registers as they are.\<close>

definition mult_div_execute :: "mult_div_type \<Rightarrow> mips_meta_op \<Rightarrow> sim_state \<Rightarrow> (mips_meta_op \<times> sim_state) res" where
  "mult_div_execute mdt u M = rbind (src_val GPR 1 u M) (\<lambda>b. rbind (src_val GPR 0 u M) (\<lambda>a.
     let sprod = scast b * scast a :: u64; lat = (if mdt \<in> {Div, Divu} then 32 else 4)
     in rbind (case mdt of
          Mult \<Rightarrow> set_lo_hi sprod u M
        | Madd \<Rightarrow> rbind (src_val GPR 3 u M) (\<lambda>h. rbind (src_val GPR 2 u M) (\<lambda>l. set_lo_hi (sprod + acc_of h l) u M))
        | Msub \<Rightarrow> rbind (src_val GPR 3 u M) (\<lambda>h. rbind (src_val GPR 2 u M) (\<lambda>l. set_lo_hi (acc_of h l - sprod) u M))
        | Multu \<Rightarrow> set_lo_hi (ucast b * ucast a) u M
        | Div \<Rightarrow> (if b = 0 then Inr M else ensure Trap (\<not> (sint a = - (2 ^ 31) \<and> sint b = -1))
            (set_lo_hi (le64 (word_of_int (sint a sdiv sint b)) (word_of_int (sint a smod sint b))) u M))
        | Divu \<Rightarrow> (if b = 0 then Inr M else set_lo_hi (le64 (a div b) (a mod b)) u M)
        | Maddu \<Rightarrow> Inl Die) (\<lambda>M1. Inr (finish_in lat u M, M1))))"

definition mult_div_latency :: "mult_div_type \<Rightarrow> u64 res" where
  "mult_div_latency mdt = (case mdt of Div \<Rightarrow> Inr 32 | Divu \<Rightarrow> Inr 32 | Maddu \<Rightarrow> Inl Die | _ \<Rightarrow> Inr 4)"

definition mult_div_complete :: "mips_meta_op \<Rightarrow> sim_state \<Rightarrow> (mips_meta_op \<times> sim_state) res" where
  "mult_div_complete u M = complete_with (\<lambda>M. rbind (on_rf GPR (set_valid (lo_prf_idx u)) M)
     (on_rf GPR (set_valid (hi_prf_idx u)))) u M"

definition mult_div_retire :: "mips_meta_op \<Rightarrow> sim_state \<Rightarrow> (mips_meta_op \<times> sim_state) res" where
  "mult_div_retire u M = rbind (on_rf GPR (retire_reg True (Some (op_pc u)) 32 (prev_lo_prf_idx u) (lo_prf_idx u)) M) (\<lambda>M1.
     rbind (on_rf GPR (retire_reg True (Some (op_pc u)) 33 (prev_hi_prf_idx u) (hi_prf_idx u)) M1) (count_retired u))"

definition mult_div_rollback :: "mips_meta_op \<Rightarrow> sim_state \<Rightarrow> sim_state res" where
  "mult_div_rollback u M = rbind (on_rf GPR (undo 33 (prev_hi_prf_idx u) (hi_prf_idx u)) M)
     (on_rf GPR (undo 32 (prev_lo_prf_idx u) (lo_prf_idx u)))"

section \<open>Bit fields and sign extension\<close>

text \<open>These classes look for a register before they note the old mapping, and do not set \<open>retired\<close>.\<close>

definition rename_late :: "rfile \<Rightarrow> nat \<Rightarrow> mips_meta_op \<Rightarrow> sim_state \<Rightarrow> (mips_meta_op \<times> sim_state \<times> bool) res" where
  "rename_late k d u M = (let nid = find_first_unset (freevec (rf M k)); u1 = u\<lparr>prf_idx := nid\<rparr>
     in if nid = -1 then Inr (u1, M, False)
        else rbind (mapped d (rf M k)) (\<lambda>prev. rbind (on_rf k (claim d nid) M) (\<lambda>M1.
          Inr (u1\<lparr>prev_prf_idx := prev\<rparr>, M1, True))))"

definition retire_gpr_quiet :: "nat \<Rightarrow> mips_meta_op \<Rightarrow> sim_state \<Rightarrow> (mips_meta_op \<times> sim_state) res" where
  "retire_gpr_quiet d u M = rbind (retire_dest True (Some (op_pc u)) GPR d u M) (count_icnt u)"

definition se_allocate :: "mips_meta_op \<Rightarrow> sim_state \<Rightarrow> (mips_meta_op \<times> sim_state \<times> bool) res" where
  "se_allocate u M = rbind (set_src 0 GPR (rt_of (op_inst u)) M u) (\<lambda>u1. rename_late GPR (rd_of (op_inst u)) u1 M)"

definition se_ready :: "mips_meta_op \<Rightarrow> sim_state \<Rightarrow> bool res" where
  "se_ready u M = all_valid (need GPR 0 u) M"

definition se_execute :: "se_type \<Rightarrow> mips_meta_op \<Rightarrow> sim_state \<Rightarrow> (mips_meta_op \<times> sim_state) res" where
  "se_execute st u M = rbind (src_val GPR 0 u M) (\<lambda>x.
     result GPR (case st of Seb \<Rightarrow> scast (ucast x :: u8) | Seh \<Rightarrow> scast (ucast x :: u16)) 1 u M)"

definition se_complete :: "mips_meta_op \<Rightarrow> sim_state \<Rightarrow> (mips_meta_op \<times> sim_state) res" where
  "se_complete = complete_reg GPR"

definition se_retire :: "mips_meta_op \<Rightarrow> sim_state \<Rightarrow> (mips_meta_op \<times> sim_state) res" where
  "se_retire u M = retire_gpr_quiet (rd_of (op_inst u)) u M"

definition se_rollback :: "mips_meta_op \<Rightarrow> sim_state \<Rightarrow> sim_state res" where
  "se_rollback u M = undo_dest GPR (rd_of (op_inst u)) u M"

definition ext_allocate :: "mips_meta_op \<Rightarrow> sim_state \<Rightarrow> (mips_meta_op \<times> sim_state \<times> bool) res" where
  "ext_allocate u M = rbind (set_src 0 GPR (rs_of (op_inst u)) M u) (\<lambda>u1. rename_late GPR (rt_of (op_inst u)) u1 M)"

definition ext_ready :: "mips_meta_op \<Rightarrow> sim_state \<Rightarrow> bool res" where
  "ext_ready u M = all_valid (need GPR 0 u) M"

definition ext_execute :: "mips_meta_op \<Rightarrow> sim_state \<Rightarrow> (mips_meta_op \<times> sim_state) res" where
  "ext_execute u M = (let pos = sa_of (op_inst u); size = rd_of (op_inst u) + 1
     in rbind (src_val GPR 0 u M) (\<lambda>x. ensure Undefined (size < 32)
          (result GPR (sar pos x AND (push_bit size 1 - 1)) 1 u M)))"

definition ext_complete :: "mips_meta_op \<Rightarrow> sim_state \<Rightarrow> (mips_meta_op \<times> sim_state) res" where
  "ext_complete = complete_reg GPR"

definition ext_retire :: "mips_meta_op \<Rightarrow> sim_state \<Rightarrow> (mips_meta_op \<times> sim_state) res" where
  "ext_retire u M = retire_gpr_quiet (rt_of (op_inst u)) u M"

definition ext_rollback :: "mips_meta_op \<Rightarrow> sim_state \<Rightarrow> sim_state res" where
  "ext_rollback u M = undo_dest GPR (rt_of (op_inst u)) u M"

definition ins_allocate :: "mips_meta_op \<Rightarrow> sim_state \<Rightarrow> (mips_meta_op \<times> sim_state \<times> bool) res" where
  "ins_allocate u M = rbind (set_src 0 GPR (rs_of (op_inst u)) M u) (\<lambda>u1. rbind (set_src 1 GPR (rt_of (op_inst u)) M u1)
     (\<lambda>u2. rename_late GPR (rt_of (op_inst u)) u2 M))"

definition ins_ready :: "mips_meta_op \<Rightarrow> sim_state \<Rightarrow> bool res" where
  "ins_ready u M = all_valid (need GPR 0 u @ need GPR 1 u) M"

definition ins_execute :: "mips_meta_op \<Rightarrow> sim_state \<Rightarrow> (mips_meta_op \<times> sim_state) res" where
  "ins_execute u M = (let op = sa_of (op_inst u); rd = rd_of (op_inst u); size = unat (of_nat rd - of_nat op + 1 :: u32)
     in ensure Undefined (size < 32) (let msk = push_bit size 1 - 1; cmask = NOT (push_bit op msk)
       in rbind (src_val GPR 0 u M) (\<lambda>x. rbind (src_val GPR 1 u M) (\<lambda>y.
            result GPR ((y AND cmask) OR push_bit op (x AND msk)) 1 u M))))"

definition ins_complete :: "mips_meta_op \<Rightarrow> sim_state \<Rightarrow> (mips_meta_op \<times> sim_state) res" where
  "ins_complete = complete_reg GPR"

definition ins_retire :: "mips_meta_op \<Rightarrow> sim_state \<Rightarrow> (mips_meta_op \<times> sim_state) res" where
  "ins_retire u M = retire_gpr_quiet (rt_of (op_inst u)) u M"

definition ins_rollback :: "mips_meta_op \<Rightarrow> sim_state \<Rightarrow> sim_state res" where
  "ins_rollback u M = undo_dest GPR (rt_of (op_inst u)) u M"

section \<open>Conditional move on a floating-point condition\<close>

definition movci_allocate :: "mips_meta_op \<Rightarrow> sim_state \<Rightarrow> (mips_meta_op \<times> sim_state \<times> bool) res" where
  "movci_allocate u M = rbind (set_src 0 GPR (rd_of (op_inst u)) M u) (\<lambda>u1. rbind (set_src 1 GPR (rs_of (op_inst u)) M u1)
     (\<lambda>u2. rbind (set_src 2 FCR1 2 M u2) (\<lambda>u3. rename_late GPR (rd_of (op_inst u)) u3 M)))"

definition movci_ready :: "mips_meta_op \<Rightarrow> sim_state \<Rightarrow> bool res" where
  "movci_ready u M = all_valid (need GPR 0 u @ need GPR 1 u @ need FCR1 2 u) M"

definition movci_execute :: "mips_meta_op \<Rightarrow> sim_state \<Rightarrow> (mips_meta_op \<times> sim_state) res" where
  "movci_execute u M = rbind (src_val FCR1 2 u M) (\<lambda>cr. let z = getCC cr (cc_of (op_inst u))
     in rbind (if z = (tf_of (op_inst u) = 0) then src_val GPR 0 u M else src_val GPR 1 u M) (\<lambda>x. result GPR x 1 u M))"

definition movci_complete :: "mips_meta_op \<Rightarrow> sim_state \<Rightarrow> (mips_meta_op \<times> sim_state) res" where
  "movci_complete = complete_reg GPR"

definition movci_retire :: "mips_meta_op \<Rightarrow> sim_state \<Rightarrow> (mips_meta_op \<times> sim_state) res" where
  "movci_retire u M = retire_gpr_quiet (rd_of (op_inst u)) u M"

definition movci_rollback :: "mips_meta_op \<Rightarrow> sim_state \<Rightarrow> sim_state res" where
  "movci_rollback u M = undo_dest GPR (rd_of (op_inst u)) u M"

end
