(* ===== verification/Op_Branch.thy ===== *)
theory Op_Branch
  imports Op_Int
begin

text \<open>
  The jumps and branches of \<^verbatim>\<open>sim_ooo/mips_op.cc\<close>: they find the correct next address, raise an
  exception where the fetch stage predicted another, and train the predictors when they retire.
\<close>

section \<open>Jumps\<close>

definition jump_dest :: "jump_type \<Rightarrow> int" where
  "jump_dest jt = (if jt \<in> {Jalr, Jal} then 31 else -1)"

definition jump_src0 :: "jump_type \<Rightarrow> u32 \<Rightarrow> int" where
  "jump_src0 jt inst = (if jt \<in> {Jr, Jalr} then int (rs_of inst) else -1)"

definition jump_allocate :: "jump_type \<Rightarrow> mips_meta_op \<Rightarrow> sim_state \<Rightarrow> (mips_meta_op \<times> sim_state \<times> bool) res" where
  "jump_allocate jt u M = rbind (if jump_src0 jt (op_inst u) \<noteq> -1 then set_src 0 GPR (nat (jump_src0 jt (op_inst u))) M u else Inr u)
     (\<lambda>u1. if jump_dest jt \<noteq> -1 then rename_reg GPR (nat (jump_dest jt)) u1 M else Inr (u1, M, True))"

definition jump_ready :: "mips_meta_op \<Rightarrow> sim_state \<Rightarrow> bool res" where
  "jump_ready u M = all_valid (opt GPR 0 u) M"

definition jump_target :: "jump_type \<Rightarrow> mips_meta_op \<Rightarrow> sim_state \<Rightarrow> u32 res" where
  "jump_target jt u M = (if jt \<in> {Jr, Jalr} then src_val GPR 0 u M
     else Inr (((op_pc u + 4) AND NOT (mask 28)) OR push_bit 2 (op_inst u AND mask 26)))"

definition jump_execute :: "jump_type \<Rightarrow> mips_meta_op \<Rightarrow> sim_state \<Rightarrow> (mips_meta_op \<times> sim_state) res" where
  "jump_execute jt u M = rbind (jump_target jt u M) (\<lambda>t. let u1 = u\<lparr>correct_pc := t\<rparr>;
       u2 = (if fetch_npc u1 \<noteq> t then u1\<lparr>exc := Branch_exception\<rparr> else u1)
     in if jump_dest jt \<noteq> -1 then result GPR (op_pc u + 8) 1 u2 M else Inr (finish_in 1 u2 M, M))"

definition jump_complete :: "mips_meta_op \<Rightarrow> sim_state \<Rightarrow> (mips_meta_op \<times> sim_state) res" where
  "jump_complete u M = complete_with (\<lambda>M. if prf_idx u \<noteq> -1 then on_rf GPR (set_valid (prf_idx u)) M else Inr M) u M"

text \<open>The histories shift in the outcome; a local history is chosen by the address.\<close>

definition shift_in :: "bool \<Rightarrow> 'w::len word bitvec \<Rightarrow> 'w word bitvec res" where
  "shift_in b v = rbind (shift_left v 1) (\<lambda>v1. if b then set_bit_bv v1 0 else Inr v1)"

definition update_histories :: "u32 \<Rightarrow> bool \<Rightarrow> sim_state \<Rightarrow> sim_state res" where
  "update_histories ip taken M = (let i = unat ((drop_bit 2 ip) AND (of_nat (length (bht M)) - 1))
     in ensure Die (i < length (bht M)) (rbind (shift_in taken (bht M ! i)) (\<lambda>h.
        rbind (shift_in taken (bhr M)) (\<lambda>g. Inr (M\<lparr>bht := (bht M)[i := h], bhr := g\<rparr>)))))"

definition count :: "(counters \<Rightarrow> counters) \<Rightarrow> sim_state \<Rightarrow> sim_state" where
  "count f M = M\<lparr>stats := f (stats M)\<rparr>"

definition count_jump_miss :: "jump_type \<Rightarrow> counters \<Rightarrow> counters" where
  "count_jump_miss jt c = (let c1 = c\<lparr>mispredicted_jumps := mispredicted_jumps c + 1\<rparr>
     in case jt of Jr \<Rightarrow> c1\<lparr>mispredicted_jrs := mispredicted_jrs c + 1\<rparr>
        | Jalr \<Rightarrow> c1\<lparr>mispredicted_jalrs := mispredicted_jalrs c + 1\<rparr> | _ \<Rightarrow> c1)"

definition jump_retire :: "sim_param \<Rightarrow> jump_type \<Rightarrow> mips_meta_op \<Rightarrow> sim_state \<Rightarrow> (mips_meta_op \<times> sim_state) res" where
  "jump_retire S jt u M = rbind (if prev_prf_idx u \<noteq> -1 then retire_dest True (Some (op_pc u)) GPR (nat (jump_dest jt)) u M else Inr M)
     (\<lambda>M1. let M2 = count (\<lambda>c. c\<lparr>n_jumps := n_jumps c + 1\<rparr>) (M1\<lparr>
         branch_target_map := (branch_target_map M1)(op_pc u \<mapsto> correct_pc u),
         branch_prediction_map := (branch_prediction_map M1)(op_pc u \<mapsto> 3)\<rparr>)
       in rbind (update_br (bpar S) (op_pc u) (pht_idx u) True (branch_pred M2)) (\<lambda>bp.
          rbind (update_histories (op_pc u) True (M2\<lparr>branch_pred := bp\<rparr>)) (\<lambda>M3.
            count_retired u (if exc u = Branch_exception then (count (count_jump_miss jt) M3)\<lparr>alloc_blocked := True\<rparr> else M3))))"

definition jump_rollback :: "jump_type \<Rightarrow> mips_meta_op \<Rightarrow> sim_state \<Rightarrow> sim_state res" where
  "jump_rollback jt u M = rbind (if jump_dest jt \<noteq> -1 then undo_opt GPR (nat (jump_dest jt)) u M else Inr M) (\<lambda>M1.
     Inr (if jt \<in> {Jal, Jr} \<and> return_stack_idx u \<noteq> -1
       then M1\<lparr>return_stack := set_tos_idx (return_stack_idx u) (return_stack M1)\<rparr> else M1))"

section \<open>Branches\<close>

definition is_likely_op :: "branch_type \<Rightarrow> bool" where
  "is_likely_op bt \<longleftrightarrow> bt \<in> {Beql, Bnel, Blezl, Bgtzl, Bgezl, Bltzl, Bc1fl, Bc1tl}"

definition is_fp_branch :: "branch_type \<Rightarrow> bool" where
  "is_fp_branch bt \<longleftrightarrow> bt \<in> {Bc1f, Bc1t, Bc1fl, Bc1tl}"

definition branch_two :: "branch_type \<Rightarrow> bool" where
  "branch_two bt \<longleftrightarrow> bt \<in> {Beq, Bne, Beql, Bnel}"

definition branch_allocate :: "branch_type \<Rightarrow> mips_meta_op \<Rightarrow> sim_state \<Rightarrow> (mips_meta_op \<times> sim_state \<times> bool) res" where
  "branch_allocate bt u M = rbind (if is_fp_branch bt then set_src 0 FCR1 2 M u
     else rbind (set_src 0 GPR (rs_of (op_inst u)) M u) (\<lambda>u1. if branch_two bt then set_src 1 GPR (rt_of (op_inst u)) M u1 else Inr u1))
     (\<lambda>u2. Inr (u2, M, True))"

definition branch_ready :: "branch_type \<Rightarrow> mips_meta_op \<Rightarrow> sim_state \<Rightarrow> bool res" where
  "branch_ready bt u M = all_valid (if is_fp_branch bt then need FCR1 0 u else opt GPR 0 u @ opt GPR 1 u) M"

definition branch_cond :: "branch_type \<Rightarrow> mips_meta_op \<Rightarrow> sim_state \<Rightarrow> bool res" where
  "branch_cond bt u M =
    (if is_fp_branch bt then rbind (src_val FCR1 0 u M) (\<lambda>cr.
       Inr (getCC cr (cc_of (op_inst u)) = (bt \<in> {Bc1t, Bc1tl})))
     else rbind (src_val GPR 0 u M) (\<lambda>a.
       if branch_two bt then rbind (src_val GPR 1 u M) (\<lambda>b. Inr ((a = b) = (bt \<in> {Beq, Beql})))
       else Inr (if bt \<in> {Blez, Blezl} then a \<le>s 0 else if bt \<in> {Bgtz, Bgtzl} then 0 <s a
         else if bt \<in> {Bltz, Bltzl} then a <s 0 else 0 \<le>s a)))"

text \<open>The squash mark of a likely branch is not set for \<open>blezl\<close>.\<close>

definition branch_execute :: "branch_type \<Rightarrow> mips_meta_op \<Rightarrow> sim_state \<Rightarrow> (mips_meta_op \<times> sim_state) res" where
  "branch_execute bt u M = rbind (branch_cond bt u M) (\<lambda>take.
     let u1 = u\<lparr>take_br := take, has_delay_slot := (if is_likely_op bt then take else True),
         likely_squash := (if is_likely_op bt \<and> bt \<noteq> Blezl then \<not> take else likely_squash u)\<rparr>;
       u2 = (if take then u1\<lparr>correct_pc := br_target u1\<rparr>
         else let v = u1\<lparr>correct_pc := op_pc u1 + 8\<rparr> in
           if is_likely_op bt \<and> fetch_npc v \<noteq> op_pc v + 8 then v\<lparr>exc := Branch_exception\<rparr> else v);
       u3 = (if predict_taken u2 \<noteq> take then u2\<lparr>exc := Branch_exception\<rparr> else u2)
     in Inr (finish_in 1 u3 M, if exc u3 = Branch_exception then M\<lparr>alloc_blocked := True\<rparr> else M))"

definition branch_complete :: "mips_meta_op \<Rightarrow> sim_state \<Rightarrow> (mips_meta_op \<times> sim_state) res" where
  "branch_complete = complete_with Inr"

definition bump_prediction :: "u32 \<Rightarrow> bool \<Rightarrow> (u32 \<rightharpoonup> int) \<Rightarrow> (u32 \<rightharpoonup> int)" where
  "bump_prediction ip taken m = m(ip \<mapsto> (case m ip of None \<Rightarrow> if taken then 2 else 1
     | Some c \<Rightarrow> max 0 (min 3 (if taken then c + 1 else c - 1))))"

definition branch_retire :: "sim_param \<Rightarrow> mips_meta_op \<Rightarrow> sim_state \<Rightarrow> (mips_meta_op \<times> sim_state) res" where
  "branch_retire S u M = (let taken = take_br u; ip = op_pc u;
       M1 = count (\<lambda>c. c\<lparr>n_branches := n_branches c + 1,
         mispredicted_branches := mispredicted_branches c + of_bool (exc u = Branch_exception)\<rparr>) M
     in rbind (case loop_pred M1 of Some l \<Rightarrow>
          (if br_target u < ip then rbind (update_lp ip taken (predict_taken u) l) (\<lambda>l1. Inr (M1\<lparr>loop_pred := Some l1\<rparr>)) else Inr M1)
        | None \<Rightarrow> Inr M1) (\<lambda>M2.
        rbind (update_br (bpar S) ip (pht_idx u) taken (branch_pred M2)) (\<lambda>bp.
        rbind (update_histories ip taken (M2\<lparr>branch_pred := bp\<rparr>)) (\<lambda>M3.
          count_retired u (M3\<lparr>branch_target_map := (branch_target_map M3)(ip \<mapsto> br_target u),
            branch_prediction_map := bump_prediction ip taken (branch_prediction_map M3)\<rparr>)))))"

definition branch_rollback :: "mips_meta_op \<Rightarrow> sim_state \<Rightarrow> sim_state res" where
  "branch_rollback u M = Inr M"

end
