(* ===== verification/Op_Mem.thy ===== *)
theory Op_Mem
  imports Op_Int
begin

text \<open>
  The loads and stores of \<^verbatim>\<open>sim_ooo/mips_op.cc\<close>.  A load reads memory when it completes; a store
  writes when it retires, and then looks for younger loads of the same eight bytes that have
  completed, which have read too early.  Such loads are marked, and the pair is remembered so that
  the load waits for the store the next time.
\<close>

section \<open>The load and store tables\<close>

definition op_at :: "nat \<Rightarrow> sim_state \<Rightarrow> mips_meta_op res" where
  "op_at a M = (case ops M a of None \<Rightarrow> Inl Undefined | Some u \<Rightarrow> Inr u)"

fun stall_scan :: "nat option list \<Rightarrow> u32 set \<Rightarrow> mips_meta_op \<Rightarrow> sim_state \<Rightarrow> bool res" where
  "stall_scan [] pcs u M = Inr False"
| "stall_scan (None # ts) pcs u M = stall_scan ts pcs u M"
| "stall_scan (Some a # ts) pcs u M = rbind (op_at a M) (\<lambda>st.
     rbind (at_idx (q_data (rob M)) (rob_idx st)) (\<lambda>x. ensure AssertFail (x = Some a)
       (if op_pc st \<in> pcs \<and> alloc_id st <s alloc_id u then Inr True else stall_scan ts pcs u M)))"

definition stall_for_load :: "mips_meta_op \<Rightarrow> sim_state \<Rightarrow> bool res" where
  "stall_for_load u M = (if load_alias_map M (op_pc u) = {} then Inr False
     else stall_scan (store_tbl M) (load_alias_map M (op_pc u)) u M)"

definition enter_load :: "nat \<Rightarrow> int \<Rightarrow> sim_state \<Rightarrow> sim_state res" where
  "enter_load a i M = rbind (put_idx (load_tbl M) i (Some a)) (\<lambda>t. rbind (bv_set (load_tbl_freevec M) i) (\<lambda>v.
     Inr (M\<lparr>load_tbl := t, load_tbl_freevec := v\<rparr>)))"

definition leave_load :: "int \<Rightarrow> sim_state \<Rightarrow> sim_state res" where
  "leave_load i M = rbind (put_idx (load_tbl M) i None) (\<lambda>t. rbind (bv_clear (load_tbl_freevec M) i) (\<lambda>v.
     Inr (M\<lparr>load_tbl := t, load_tbl_freevec := v\<rparr>)))"

definition enter_store :: "nat \<Rightarrow> int \<Rightarrow> sim_state \<Rightarrow> sim_state res" where
  "enter_store a i M = rbind (put_idx (store_tbl M) i (Some a)) (\<lambda>t. rbind (bv_set (store_tbl_freevec M) i) (\<lambda>v.
     Inr (M\<lparr>store_tbl := t, store_tbl_freevec := v\<rparr>)))"

definition leave_store :: "int \<Rightarrow> sim_state \<Rightarrow> sim_state res" where
  "leave_store i M = rbind (bv_clear (store_tbl_freevec M) i) (\<lambda>v. rbind (put_idx (store_tbl M) i None) (\<lambda>t.
     Inr (M\<lparr>store_tbl := t, store_tbl_freevec := v\<rparr>)))"

text \<open>The scan of a retiring store: the alias map with the pairs found, and whether there was one.\<close>

definition same_dword :: "u32 \<Rightarrow> u32 \<Rightarrow> bool" where
  "same_dword a b \<longleftrightarrow> drop_bit 3 a = drop_bit 3 b"

fun violation_scan :: "nat option list \<Rightarrow> mips_meta_op \<Rightarrow> sim_state \<Rightarrow> (u32 \<Rightarrow> u32 set) \<Rightarrow> ((u32 \<Rightarrow> u32 set) \<times> bool) res" where
  "violation_scan [] u M al = Inr (al, False)"
| "violation_scan (None # ts) u M al = violation_scan ts u M al"
| "violation_scan (Some a # ts) u M al = rbind (op_at a M) (\<lambda>ld.
     if alloc_cycle ld <s alloc_cycle u then violation_scan ts u M al
     else ensure Die (mop ld \<noteq> None)
       (if is_complete ld \<and> same_dword (effective_address u) (effective_address ld)
        then rbind (violation_scan ts u M (al(op_pc ld := insert (op_pc u) (al (op_pc ld))))) (\<lambda>(al1, _). Inr (al1, True))
        else violation_scan ts u M al))"

definition mark_loads :: "nat option list \<Rightarrow> (nat \<rightharpoonup> mips_meta_op) \<Rightarrow> (nat \<rightharpoonup> mips_meta_op)" where
  "mark_loads t m = (\<lambda>a. if Some a \<in> set t then map_option (\<lambda>u. u\<lparr>load_exception := True\<rparr>) (m a) else m a)"

definition check_violation :: "mips_meta_op \<Rightarrow> sim_state \<Rightarrow> sim_state res" where
  "check_violation u M = rbind (violation_scan (load_tbl M) u M (load_alias_map M)) (\<lambda>(al, bad).
     let M1 = M\<lparr>load_alias_map := al\<rparr> in Inr (if bad then M1\<lparr>ops := mark_loads (load_tbl M) (ops M1)\<rparr> else M1))"

section \<open>Integer loads\<close>

definition load_src1 :: "load_type \<Rightarrow> bool" where
  "load_src1 lt \<longleftrightarrow> lt \<in> {Lwl, Lwr}"

definition load_allocate :: "load_type \<Rightarrow> nat \<Rightarrow> mips_meta_op \<Rightarrow> sim_state \<Rightarrow> (mips_meta_op \<times> sim_state \<times> bool) res" where
  "load_allocate lt a u M = (let inst = op_inst u
     in rbind (set_src 0 GPR (rs_of inst) M u) (\<lambda>u1.
        rbind (if load_src1 lt then set_src 1 GPR (rt_of inst) M u1 else Inr u1) (\<lambda>u2.
        rbind (mapped (rt_of inst) (rf M GPR)) (\<lambda>prev.
        let nid = find_first_unset (freevec (rf M GPR)); li = find_first_unset (load_tbl_freevec M);
          u3 = u2\<lparr>prev_prf_idx := prev, prf_idx := nid, load_tbl_idx := li\<rparr>
        in if nid = -1 \<or> li = -1 then Inr (u3, M, False)
           else rbind (enter_load a li M) (\<lambda>M1. rbind (on_rf GPR (claim (rt_of inst) nid) M1) (\<lambda>M2. Inr (u3, M2, True)))))))"

definition load_ready :: "mips_meta_op \<Rightarrow> sim_state \<Rightarrow> bool res" where
  "load_ready u M = rbind (all_valid (need GPR 0 u @ opt GPR 1 u) M) (\<lambda>b. if \<not> b then Inr False
     else rbind (stall_for_load u M) (\<lambda>s. Inr (\<not> s)))"

definition l1d_load :: "sim_param \<Rightarrow> nat \<Rightarrow> u32 \<Rightarrow> mips_meta_op \<Rightarrow> sim_state \<Rightarrow> (mips_meta_op \<times> sim_state) res" where
  "l1d_load S a addr u M = (if l1cache M = [] then Inr (finish_in (l1d_latency S) u M, M) else cache_op read_op S a addr u M)"

definition load_execute :: "sim_param \<Rightarrow> load_type \<Rightarrow> nat \<Rightarrow> mips_meta_op \<Rightarrow> sim_state \<Rightarrow> (mips_meta_op \<times> sim_state) res" where
  "load_execute S lt a u M = rbind (src_val GPR 0 u M) (\<lambda>b. let ea = b + simm (op_inst u);
       u1 = u\<lparr>effective_address := ea, load_exception := (load_exception u \<or>
         (if lt \<in> {Lh, Lhu} then ea AND 1 \<noteq> 0 else if lt = Lw then ea AND 3 \<noteq> 0 else False))\<rparr>
     in rbind (if load_src1 lt then rbind (src_val GPR 1 u M) (\<lambda>x. Inr (u1\<lparr>prev_value := x\<rparr>)) else Inr u1) (\<lambda>u2.
          l1d_load S a (ea AND NOT 3) u2 M))"

definition lwl_word :: "u32 \<Rightarrow> u32 \<Rightarrow> u32 \<Rightarrow> u32" where
  "lwl_word ea r x = (let ma = ea AND 3 in
     if ma = 0 then r
     else if ma = 1 then push_bit 8 (r AND 0x00ffffff) OR (x AND 0x000000ff)
     else if ma = 2 then push_bit 16 (r AND 0x0000ffff) OR (x AND 0x0000ffff)
     else push_bit 24 (r AND 0x00ffffff) OR (x AND 0x00ffffff))"

definition lwr_word :: "u32 \<Rightarrow> u32 \<Rightarrow> u32 \<Rightarrow> u32" where
  "lwr_word ea r x = (let ma = ea AND 3 in
     if ma = 0 then (x AND 0xffffff00) OR drop_bit 24 r
     else if ma = 1 then (x AND 0xffff0000) OR drop_bit 16 r
     else if ma = 2 then (x AND 0xff000000) OR drop_bit 8 r
     else r)"

definition load_value :: "load_type \<Rightarrow> u32 \<Rightarrow> u32 \<Rightarrow> sparse_mem \<Rightarrow> (sparse_mem \<times> u32) res" where
  "load_value lt ea x m = (case lt of
     Lb \<Rightarrow> rbind (get8 ea m) (\<lambda>(m1, v). Inr (m1, scast v))
   | Lbu \<Rightarrow> rbind (get8 ea m) (\<lambda>(m1, v). Inr (m1, ucast v))
   | Lh \<Rightarrow> rbind (get16 ea m) (\<lambda>(m1, v). Inr (m1, scast (bswap16 v)))
   | Lhu \<Rightarrow> rbind (get16 ea m) (\<lambda>(m1, v). Inr (m1, ucast (bswap16 v)))
   | Lw \<Rightarrow> rbind (get32 ea m) (\<lambda>(m1, v). Inr (m1, bswap32 v))
   | Lwl \<Rightarrow> rbind (get32 (ea AND 0xfffffffc) m) (\<lambda>(m1, v). Inr (m1, lwl_word ea (bswap32 v) x))
   | Lwr \<Rightarrow> rbind (get32 (ea AND 0xfffffffc) m) (\<lambda>(m1, v). Inr (m1, lwr_word ea (bswap32 v) x))
   | _ \<Rightarrow> Inl Die)"

definition load_complete :: "load_type \<Rightarrow> mips_meta_op \<Rightarrow> sim_state \<Rightarrow> (mips_meta_op \<times> sim_state) res" where
  "load_complete lt u M = complete_with (\<lambda>M. if load_exception u then Inr M
     else with_mem (load_value lt (effective_address u) (prev_value u)) M (\<lambda>x M1.
       rbind (on_rf GPR (write_prf (prf_idx u) x) M1) (on_rf GPR (set_valid (prf_idx u))))) u M"

definition load_retire :: "mips_meta_op \<Rightarrow> sim_state \<Rightarrow> (mips_meta_op \<times> sim_state) res" where
  "load_retire u M = ensure Die (\<not> load_exception u) (rbind (leave_load (load_tbl_idx u) M) (retire_gpr (rt_of (op_inst u)) u))"

definition load_rollback :: "mips_meta_op \<Rightarrow> sim_state \<Rightarrow> sim_state res" where
  "load_rollback u M = rbind (undo_dest GPR (rt_of (op_inst u)) u M) (leave_load (load_tbl_idx u))"

section \<open>Integer stores\<close>

definition store_allocate :: "nat \<Rightarrow> mips_meta_op \<Rightarrow> sim_state \<Rightarrow> (mips_meta_op \<times> sim_state \<times> bool) res" where
  "store_allocate a u M = rbind (set_src 0 GPR (rt_of (op_inst u)) M u) (\<lambda>u1. rbind (set_src 1 GPR (rs_of (op_inst u)) M u1) (\<lambda>u2.
     let si = find_first_unset (store_tbl_freevec M); u3 = u2\<lparr>store_tbl_idx := si\<rparr>
     in if si = -1 then Inr (u3, M, False) else rbind (enter_store a si M) (\<lambda>M1. Inr (u3, M1, True))))"

definition store_ready :: "mips_meta_op \<Rightarrow> sim_state \<Rightarrow> bool res" where
  "store_ready u M = all_valid (need GPR 0 u @ need GPR 1 u) M"

definition l1d_store :: "sim_param \<Rightarrow> u64 \<Rightarrow> nat \<Rightarrow> u32 \<Rightarrow> mips_meta_op \<Rightarrow> sim_state \<Rightarrow> (mips_meta_op \<times> sim_state) res" where
  "l1d_store S lat a addr u M = (if l1cache M = [] then Inr (finish_in lat u M, M) else cache_op write_op S a addr u M)"

definition store_execute :: "sim_param \<Rightarrow> nat \<Rightarrow> mips_meta_op \<Rightarrow> sim_state \<Rightarrow> (mips_meta_op \<times> sim_state) res" where
  "store_execute S a u M = rbind (src_val GPR 1 u M) (\<lambda>b. rbind (src_val GPR 0 u M) (\<lambda>x. let ea = b + simm (op_inst u)
     in l1d_store S 1 a (ea AND NOT 3) (u\<lparr>effective_address := ea, store_data := x\<rparr>) M))"

definition store_complete :: "mips_meta_op \<Rightarrow> sim_state \<Rightarrow> (mips_meta_op \<times> sim_state) res" where
  "store_complete = complete_with Inr"

text \<open>The data is a signed int, so \<open>swl\<close> shifts copies of its sign bit in.\<close>

definition swl_word :: "u32 \<Rightarrow> u32 \<Rightarrow> u32 \<Rightarrow> u32" where
  "swl_word ea x r = (let ma = unat (ea AND 3);
       msk = (if ma = 0 then 0 else if ma = 1 then 0xff000000 else if ma = 2 then 0xffff0000 else 0xffffff00)
     in sar (8 * ma) x OR (r AND msk))"

definition swr_word :: "u32 \<Rightarrow> u32 \<Rightarrow> u32 \<Rightarrow> u32" where
  "swr_word ea x r = (let ma = unat (ea AND 3);
       msk = (if ma = 0 then 0x00ffffff else if ma = 1 then 0x0000ffff else if ma = 2 then 0x000000ff else 0)
     in push_bit ((3 - ma) * 8) x OR (msk AND r))"

definition store_write :: "store_type \<Rightarrow> u32 \<Rightarrow> u32 \<Rightarrow> sparse_mem \<Rightarrow> sparse_mem res" where
  "store_write st ea x m = (case st of
     Sb \<Rightarrow> set8 ea (ucast x) m
   | Sh \<Rightarrow> set16 ea (bswap16 (ucast x)) m
   | Sw \<Rightarrow> set32 ea (bswap32 x) m
   | Swl \<Rightarrow> (let wa = ea AND 0xfffffffc in rbind (get32 wa m) (\<lambda>(m1, v). set32 wa (bswap32 (swl_word ea x (bswap32 v))) m1))
   | Swr \<Rightarrow> (let wa = ea AND 0xfffffffc in rbind (get32 wa m) (\<lambda>(m1, v). set32 wa (bswap32 (swr_word ea x (bswap32 v))) m1)))"

definition store_retire :: "store_type \<Rightarrow> mips_meta_op \<Rightarrow> sim_state \<Rightarrow> (mips_meta_op \<times> sim_state) res" where
  "store_retire st u M = rbind (put_mem (store_write st (effective_address u) (store_data u)) M) (\<lambda>M1.
     rbind (check_violation u M1) (\<lambda>M2. rbind (leave_store (store_tbl_idx u) M2) (count_retired u)))"

definition store_rollback :: "mips_meta_op \<Rightarrow> sim_state \<Rightarrow> sim_state res" where
  "store_rollback u M = leave_store (store_tbl_idx u) M"

section \<open>Floating-point loads\<close>

text \<open>
  The mapping of the register after the destination is read for single loads too, and the class has
  no second source, so the indexed loads would read one at index \<open>-1\<close>.
\<close>

definition is_double_load :: "load_type \<Rightarrow> bool" where
  "is_double_load lt \<longleftrightarrow> lt \<in> {Ldc1, Ldxc1}"

definition claim_next :: "rfile \<Rightarrow> nat \<Rightarrow> sim_state \<Rightarrow> (int \<times> sim_state) res" where
  "claim_next k d M = (let nid = find_first_unset (freevec (rf M k)) in rbind (on_rf k (claim d nid) M) (\<lambda>M1. Inr (nid, M1)))"

definition fp_load_allocate :: "load_type \<Rightarrow> nat \<Rightarrow> mips_meta_op \<Rightarrow> sim_state \<Rightarrow> (mips_meta_op \<times> sim_state \<times> bool) res" where
  "fp_load_allocate lt a u M = (let inst = op_inst u; d = rt_of inst
     in rbind (num_free_regs CPR1 M) (\<lambda>n. if n < (if is_double_load lt then 2 else 1) then Inr (u, M, False) else
        let li = find_first_unset (load_tbl_freevec M); u1 = u\<lparr>load_tbl_idx := li\<rparr>
        in if li = -1 then Inr (u1, M, False) else
          rbind (enter_load a li M) (\<lambda>M1. rbind (set_src 0 GPR (rs_of inst) M1 u1) (\<lambda>u2.
          rbind (mapped d (rf M1 CPR1)) (\<lambda>p0. rbind (mapped (d + 1) (rf M1 CPR1)) (\<lambda>p1.
          rbind (claim_next CPR1 d M1) (\<lambda>(i0, M2).
          let u3 = u2\<lparr>prev_prf_idx := p0, aux_prev_prf_idx := p1, prf_idx := i0\<rparr>
          in if is_double_load lt then rbind (claim_next CPR1 (d + 1) M2) (\<lambda>(i1, M3). Inr (u3\<lparr>aux_prf_idx := i1\<rparr>, M3, True))
             else Inr (u3, M2, True))))))))"

definition fp_load_ready :: "mips_meta_op \<Rightarrow> sim_state \<Rightarrow> bool res" where
  "fp_load_ready u M = rbind (all_valid (need GPR 0 u) M) (\<lambda>b. if \<not> b then Inr False
     else rbind (stall_for_load u M) (\<lambda>s. Inr (\<not> s)))"

definition fp_load_execute :: "sim_param \<Rightarrow> load_type \<Rightarrow> nat \<Rightarrow> mips_meta_op \<Rightarrow> sim_state \<Rightarrow> (mips_meta_op \<times> sim_state) res" where
  "fp_load_execute S lt a u M = rbind (src_val GPR 0 u M) (\<lambda>b. ensure Die (lt \<in> {Ldxc1, Ldc1, Lwxc1, Lwc1})
     (rbind (if lt \<in> {Ldxc1, Lwxc1} then src_val GPR 1 u M else Inr 0) (\<lambda>x. let ea = b + simm (op_inst u) + x;
        m = (if is_double_load lt then 7 else 3)
      in l1d_load S a ea (u\<lparr>effective_address := ea, load_exception := (load_exception u \<or> ea AND m \<noteq> 0)\<rparr>) M)))"

definition fp_load_complete :: "load_type \<Rightarrow> mips_meta_op \<Rightarrow> sim_state \<Rightarrow> (mips_meta_op \<times> sim_state) res" where
  "fp_load_complete lt u M = complete_with (\<lambda>M. if load_exception u then Inr M
     else if is_double_load lt then with_mem (get64 (effective_address u)) M (\<lambda>v M1. let x = bswap64 v
       in rbind (on_rf CPR1 (write_prf (prf_idx u) (lo32 x)) M1) (\<lambda>M2. rbind (on_rf CPR1 (write_prf (aux_prf_idx u) (hi32 x)) M2) (\<lambda>M3.
          rbind (on_rf CPR1 (set_valid (prf_idx u)) M3) (on_rf CPR1 (set_valid (aux_prf_idx u))))))
     else if lt \<in> {Lwxc1, Lwc1} then with_mem (get32 (effective_address u)) M (\<lambda>v M1.
       rbind (on_rf CPR1 (write_prf (prf_idx u) (bswap32 v)) M1) (on_rf CPR1 (set_valid (prf_idx u))))
     else Inl Die) u M"

text \<open>The second register of a pair.\<close>

definition retire_pair :: "bool \<Rightarrow> u32 option \<Rightarrow> u32 option \<Rightarrow> nat \<Rightarrow> mips_meta_op \<Rightarrow> sim_state \<Rightarrow> sim_state res" where
  "retire_pair two p0 p1 d u M = rbind (retire_dest True p0 CPR1 d u M) (\<lambda>M1.
     if two then retire_aux p1 CPR1 (d + 1) u M1 else Inr M1)"

definition undo_pair :: "bool \<Rightarrow> nat \<Rightarrow> mips_meta_op \<Rightarrow> sim_state \<Rightarrow> sim_state res" where
  "undo_pair two d u M = rbind (if two then undo_aux CPR1 (d + 1) u M else Inr M) (undo_dest CPR1 d u)"

definition fp_load_retire :: "mips_meta_op \<Rightarrow> sim_state \<Rightarrow> (mips_meta_op \<times> sim_state) res" where
  "fp_load_retire u M = rbind (leave_load (load_tbl_idx u) M) (\<lambda>M1.
     rbind (retire_pair (aux_prf_idx u \<noteq> -1) (Some (op_pc u)) (Some (op_pc u)) (rt_of (op_inst u)) u M1) (count_retired u))"

definition fp_load_rollback :: "mips_meta_op \<Rightarrow> sim_state \<Rightarrow> sim_state res" where
  "fp_load_rollback u M = rbind (leave_load (load_tbl_idx u) M) (undo_pair (aux_prf_idx u \<noteq> -1) (rt_of (op_inst u)) u)"

section \<open>Floating-point stores\<close>

definition fp_store_allocate :: "fp_store_type \<Rightarrow> nat \<Rightarrow> mips_meta_op \<Rightarrow> sim_state \<Rightarrow> (mips_meta_op \<times> sim_state \<times> bool) res" where
  "fp_store_allocate st a u M = (let si = find_first_unset (store_tbl_freevec M); u1 = u\<lparr>store_tbl_idx := si\<rparr>; inst = op_inst u
     in if si = -1 then Inr (u1, M, False) else rbind (enter_store a si M) (\<lambda>M1.
        rbind (set_src 0 CPR1 (rt_of inst) M1 u1) (\<lambda>u2. rbind (set_src 1 GPR (rs_of inst) M1 u2) (\<lambda>u3.
        rbind (if st = Sdc1 then set_src 2 CPR1 (rt_of inst + 1) M1 u3 else Inr u3) (\<lambda>u4. Inr (u4, M1, True))))))"

definition fp_store_ready :: "mips_meta_op \<Rightarrow> sim_state \<Rightarrow> bool res" where
  "fp_store_ready u M = all_valid (need CPR1 0 u @ need GPR 1 u @ opt CPR1 2 u) M"

text \<open>The double store reads each half through a pointer to eight bytes.\<close>

definition fp_store_execute :: "sim_param \<Rightarrow> fp_store_type \<Rightarrow> nat \<Rightarrow> mips_meta_op \<Rightarrow> sim_state \<Rightarrow> (mips_meta_op \<times> sim_state) res" where
  "fp_store_execute S st a u M = rbind (src_val GPR 1 u M) (\<lambda>b. let ea = b + simm (op_inst u)
     in rbind (src_val CPR1 0 u M) (\<lambda>x0. case st of
          Swc1 \<Rightarrow> l1d_store S (l1d_latency S) a ea (u\<lparr>effective_address := ea, store_data := x0\<rparr>) M
        | Sdc1 \<Rightarrow> rbind (val CPR1 (src u 0 + 1) M) (\<lambda>_. rbind (src_val CPR1 2 u M) (\<lambda>x1. rbind (val CPR1 (src u 2 + 1) M) (\<lambda>_.
            l1d_store S (l1d_latency S) a ea (u\<lparr>effective_address := ea, store_data := x0, store_data1 := x1\<rparr>) M)))))"

definition fp_store_complete :: "mips_meta_op \<Rightarrow> sim_state \<Rightarrow> (mips_meta_op \<times> sim_state) res" where
  "fp_store_complete = complete_with Inr"

definition fp_store_retire :: "fp_store_type \<Rightarrow> mips_meta_op \<Rightarrow> sim_state \<Rightarrow> (mips_meta_op \<times> sim_state) res" where
  "fp_store_retire st u M = rbind (put_mem (case st of Swc1 \<Rightarrow> set32 (effective_address u) (bswap32 (store_data u))
       | Sdc1 \<Rightarrow> set64 (effective_address u) (bswap64 (le64 (store_data u) (store_data1 u)))) M) (\<lambda>M1.
     rbind (check_violation u M1) (\<lambda>M2. rbind (leave_store (store_tbl_idx u) M2) (count_retired u)))"

definition fp_store_rollback :: "mips_meta_op \<Rightarrow> sim_state \<Rightarrow> sim_state res" where
  "fp_store_rollback u M = leave_store (store_tbl_idx u) M"

end
