(* ===== verification/Op_Fp.thy ===== *)
theory Op_Fp
  imports Op_Mem
begin

text \<open>
  The floating-point operations of \<^verbatim>\<open>sim_ooo/mips_op.cc\<close>.  A double is a pair of neighbouring
  registers, each renamed on its own; register 31 has no neighbour, so the read past the table is
  \<open>Undefined\<close>.  Arithmetic is the host's, as in the interpreter.
\<close>

definition FMT_S :: nat where "FMT_S = 16"
definition FMT_D :: nat where "FMT_D = 17"
definition FMT_W :: nat where "FMT_W = 20"

section \<open>Pairs of registers\<close>

text \<open>Two registers of each operand for a double, one for a single: the first operand's sources are
  numbered \<open>i\<close> and \<open>j\<close>.\<close>

definition set_pair :: "bool \<Rightarrow> nat \<Rightarrow> nat \<Rightarrow> nat \<Rightarrow> sim_state \<Rightarrow> mips_meta_op \<Rightarrow> mips_meta_op res" where
  "set_pair two i j d M u = rbind (set_src i CPR1 d M u) (\<lambda>u1. if two then set_src j CPR1 (d + 1) M u1 else Inr u1)"

definition note_prev :: "bool \<Rightarrow> nat \<Rightarrow> sim_state \<Rightarrow> mips_meta_op \<Rightarrow> mips_meta_op res" where
  "note_prev two d M u = rbind (mapped d (rf M CPR1)) (\<lambda>p0. if two then
       rbind (mapped (d + 1) (rf M CPR1)) (\<lambda>p1. Inr (u\<lparr>prev_prf_idx := p0, aux_prev_prf_idx := p1\<rparr>))
     else Inr (u\<lparr>prev_prf_idx := p0\<rparr>))"

definition claim_pair :: "bool \<Rightarrow> nat \<Rightarrow> mips_meta_op \<Rightarrow> sim_state \<Rightarrow> (mips_meta_op \<times> sim_state \<times> bool) res" where
  "claim_pair two d u M = rbind (claim_next CPR1 d M) (\<lambda>(i0, M1). let u1 = u\<lparr>prf_idx := i0\<rparr>
     in if two then rbind (claim_next CPR1 (d + 1) M1) (\<lambda>(i1, M2). Inr (u1\<lparr>aux_prf_idx := i1\<rparr>, M2, True)) else Inr (u1, M1, True))"

definition if_free :: "bool \<Rightarrow> mips_meta_op \<Rightarrow> sim_state \<Rightarrow> (mips_meta_op \<times> sim_state \<times> bool) res \<Rightarrow> (mips_meta_op \<times> sim_state \<times> bool) res" where
  "if_free two u M f = rbind (num_free_regs CPR1 M) (\<lambda>n. if n < (if two then 2 else 1) then Inr (u, M, False) else f)"

definition complete_pair :: "bool \<Rightarrow> mips_meta_op \<Rightarrow> sim_state \<Rightarrow> (mips_meta_op \<times> sim_state) res" where
  "complete_pair two u M = complete_with (\<lambda>M. rbind (on_rf CPR1 (set_valid (prf_idx u)) M) (\<lambda>M1.
     if two then on_rf CPR1 (set_valid (aux_prf_idx u)) M1 else Inr M1)) u M"

definition write_pair :: "u64 \<Rightarrow> mips_meta_op \<Rightarrow> sim_state \<Rightarrow> sim_state res" where
  "write_pair x u M = rbind (on_rf CPR1 (write_prf (prf_idx u) (lo32 x)) M) (on_rf CPR1 (write_prf (aux_prf_idx u) (hi32 x)))"

definition pair_val :: "nat \<Rightarrow> nat \<Rightarrow> mips_meta_op \<Rightarrow> sim_state \<Rightarrow> u64 res" where
  "pair_val i j u M = rbind (src_val CPR1 i u M) (\<lambda>l. rbind (src_val CPR1 j u M) (\<lambda>h. Inr (le64 l h)))"

section \<open>Conditional moves\<close>

definition is_d :: "mips_meta_op \<Rightarrow> bool" where
  "is_d u \<longleftrightarrow> fmt_of (op_inst u) = FMT_D"

text \<open>Sources: fs is 0 (and 2), the old fd is 1 (and 3), the condition is 4.\<close>

definition cond_move_allocate :: "rfile \<Rightarrow> nat \<Rightarrow> mips_meta_op \<Rightarrow> sim_state \<Rightarrow> (mips_meta_op \<times> sim_state \<times> bool) res" where
  "cond_move_allocate ck cd u M = (let inst = op_inst u; two = is_d u
     in if_free two u M (rbind (note_prev two (fd_of inst) M u) (\<lambda>u1. rbind (set_pair two 0 2 (fs_of inst) M u1) (\<lambda>u2.
        rbind (set_pair two 1 3 (fd_of inst) M u2) (\<lambda>u3. rbind (set_src 4 ck cd M u3) (\<lambda>u4. claim_pair two (fd_of inst) u4 M))))))"

definition cond_move_ready :: "rfile \<Rightarrow> mips_meta_op \<Rightarrow> sim_state \<Rightarrow> bool res" where
  "cond_move_ready ck u M = all_valid (need CPR1 0 u @ need CPR1 1 u @ need ck 4 u @ opt CPR1 2 u @ opt CPR1 3 u) M"

definition move_if :: "bool \<Rightarrow> mips_meta_op \<Rightarrow> sim_state \<Rightarrow> (mips_meta_op \<times> sim_state) res" where
  "move_if c u M = (if is_d u then
       rbind (src_val CPR1 (if c then 0 else 1) u M) (\<lambda>x. rbind (on_rf CPR1 (write_prf (prf_idx u) x) M) (\<lambda>M1.
         rbind (src_val CPR1 (if c then 2 else 3) u M1) (\<lambda>y. rbind (on_rf CPR1 (write_prf (aux_prf_idx u) y) M1) (\<lambda>M2.
           Inr (finish_in 1 u M2, M2)))))
     else if fmt_of (op_inst u) = FMT_S then rbind (src_val CPR1 (if c then 0 else 1) u M) (\<lambda>x. result CPR1 x 1 u M)
     else Inl Die)"

definition cond_move_retire :: "mips_meta_op \<Rightarrow> sim_state \<Rightarrow> (mips_meta_op \<times> sim_state) res" where
  "cond_move_retire u M = rbind (retire_pair (is_d u) None None (fd_of (op_inst u)) u M) (count_retired u)"

definition fmovc_allocate :: "mips_meta_op \<Rightarrow> sim_state \<Rightarrow> (mips_meta_op \<times> sim_state \<times> bool) res" where
  "fmovc_allocate = cond_move_allocate FCR1 2"

definition fmovc_ready :: "mips_meta_op \<Rightarrow> sim_state \<Rightarrow> bool res" where
  "fmovc_ready = cond_move_ready FCR1"

definition fmovc_execute :: "mips_meta_op \<Rightarrow> sim_state \<Rightarrow> (mips_meta_op \<times> sim_state) res" where
  "fmovc_execute u M = rbind (src_val FCR1 4 u M) (\<lambda>cr. let cc = getCC cr (cc_of (op_inst u))
     in move_if (if tf_of (op_inst u) = 0 then \<not> cc else cc) u M)"

definition fmovc_complete :: "mips_meta_op \<Rightarrow> sim_state \<Rightarrow> (mips_meta_op \<times> sim_state) res" where
  "fmovc_complete u M = complete_pair (is_d u) u M"

definition fmovc_retire :: "mips_meta_op \<Rightarrow> sim_state \<Rightarrow> (mips_meta_op \<times> sim_state) res" where
  "fmovc_retire = cond_move_retire"

definition fmovc_rollback :: "mips_meta_op \<Rightarrow> sim_state \<Rightarrow> sim_state res" where
  "fmovc_rollback u M = undo_pair (is_d u) (fd_of (op_inst u)) u M"

definition fmov_allocate :: "mips_meta_op \<Rightarrow> sim_state \<Rightarrow> (mips_meta_op \<times> sim_state \<times> bool) res" where
  "fmov_allocate u = cond_move_allocate GPR (rt_of (op_inst u)) u"

definition fmov_ready :: "mips_meta_op \<Rightarrow> sim_state \<Rightarrow> bool res" where
  "fmov_ready = cond_move_ready GPR"

definition fmovn_execute :: "mips_meta_op \<Rightarrow> sim_state \<Rightarrow> (mips_meta_op \<times> sim_state) res" where
  "fmovn_execute u M = rbind (src_val GPR 4 u M) (\<lambda>x. move_if (x \<noteq> 0) u M)"

definition fmovz_execute :: "mips_meta_op \<Rightarrow> sim_state \<Rightarrow> (mips_meta_op \<times> sim_state) res" where
  "fmovz_execute u M = rbind (src_val GPR 4 u M) (\<lambda>x. move_if (x = 0) u M)"

definition fmov_complete :: "mips_meta_op \<Rightarrow> sim_state \<Rightarrow> (mips_meta_op \<times> sim_state) res" where
  "fmov_complete u M = complete_pair (is_d u) u M"

definition fmov_retire :: "mips_meta_op \<Rightarrow> sim_state \<Rightarrow> (mips_meta_op \<times> sim_state) res" where
  "fmov_retire = cond_move_retire"

definition fmov_rollback :: "mips_meta_op \<Rightarrow> sim_state \<Rightarrow> sim_state res" where
  "fmov_rollback u M = undo_pair (is_d u) (fd_of (op_inst u)) u M"

section \<open>Comparison\<close>

definition cmp_allocate :: "mips_meta_op \<Rightarrow> sim_state \<Rightarrow> (mips_meta_op \<times> sim_state \<times> bool) res" where
  "cmp_allocate u M = (let inst = op_inst u; two = is_d u
     in rbind (set_pair two 0 2 (fs_of inst) M u) (\<lambda>u1. rbind (set_pair two 1 3 (ft_of inst) M u1) (\<lambda>u2.
        rbind (set_src 4 FCR1 2 M u2) (\<lambda>u3. rename_reg FCR1 2 u3 M))))"

definition cmp_ready :: "mips_meta_op \<Rightarrow> sim_state \<Rightarrow> bool res" where
  "cmp_ready u M = all_valid (need CPR1 0 u @ need CPR1 1 u @ need FCR1 4 u @ opt CPR1 2 u @ opt CPR1 3 u) M"

definition setCC :: "u32 \<Rightarrow> u32 \<Rightarrow> nat \<Rightarrow> u32" where
  "setCC old_cr v cc = (let m0 = push_bit cc 1; m1 = NOT m0; m2 = NOT (v - 1) in (old_cr AND m1) OR (push_bit cc 1 AND m2))"

definition compare_cond :: "nat \<Rightarrow> bool \<Rightarrow> bool \<Rightarrow> bool \<Rightarrow> bool res" where
  "compare_cond cond eq lt le = (if cond = 1 then Inr eq else if cond = 2 then Inr eq
     else if cond = 12 then Inr lt else if cond = 14 then Inr le else Inl Die)"

definition cmp_value :: "mips_meta_op \<Rightarrow> sim_state \<Rightarrow> bool res" where
  "cmp_value u M = (let cond = fld (op_inst u) 0 4
     in if is_d u then rbind (pair_val 0 2 u M) (\<lambda>x. rbind (pair_val 1 3 u M) (\<lambda>y.
          compare_cond cond (fp_eq inf_d x y) (fp_lt inf_d x y) (fp_le inf_d x y)))
        else if fmt_of (op_inst u) = FMT_S then rbind (src_val CPR1 0 u M) (\<lambda>x. rbind (src_val CPR1 1 u M) (\<lambda>y.
          compare_cond cond (fp_eq inf_s x y) (fp_lt inf_s x y) (fp_le inf_s x y)))
        else Inl Die)"

definition cmp_execute :: "mips_meta_op \<Rightarrow> sim_state \<Rightarrow> (mips_meta_op \<times> sim_state) res" where
  "cmp_execute u M = rbind (cmp_value u M) (\<lambda>v. rbind (src_val FCR1 4 u M) (\<lambda>cr.
     result FCR1 (setCC cr (of_bool v) (fld (op_inst u) 8 3)) 1 u M))"

definition cmp_complete :: "mips_meta_op \<Rightarrow> sim_state \<Rightarrow> (mips_meta_op \<times> sim_state) res" where
  "cmp_complete = complete_reg FCR1"

definition cmp_retire :: "mips_meta_op \<Rightarrow> sim_state \<Rightarrow> (mips_meta_op \<times> sim_state) res" where
  "cmp_retire u M = rbind (retire_dest True (Some (op_pc u)) FCR1 2 u M) (count_retired u)"

definition cmp_rollback :: "mips_meta_op \<Rightarrow> sim_state \<Rightarrow> sim_state res" where
  "cmp_rollback u M = undo_dest FCR1 2 u M"

section \<open>Arithmetic\<close>

text \<open>The sources of a double are 0 and 1, then 2 and 3; of a single 0, then 1.\<close>

definition arith_two_srcs :: "fp_op_type \<Rightarrow> bool" where
  "arith_two_srcs fot \<longleftrightarrow> fot \<in> {Fadd, Fsub, Fmul, Fdiv}"

definition arith_allocate_double :: "fp_op_type \<Rightarrow> mips_meta_op \<Rightarrow> sim_state \<Rightarrow> (mips_meta_op \<times> sim_state \<times> bool) res" where
  "arith_allocate_double fot u M = (let inst = op_inst u in if_free True u M
     (rbind (note_prev True (fd_of inst) M u) (\<lambda>u1. rbind (set_pair True 0 1 (fs_of inst) M u1) (\<lambda>u2.
      rbind (if arith_two_srcs fot then set_pair True 2 3 (ft_of inst) M u2 else Inr u2) (\<lambda>u3. claim_pair True (fd_of inst) u3 M)))))"

definition arith_allocate_float :: "fp_op_type \<Rightarrow> mips_meta_op \<Rightarrow> sim_state \<Rightarrow> (mips_meta_op \<times> sim_state \<times> bool) res" where
  "arith_allocate_float fot u M = (let inst = op_inst u in if_free False u M
     (rbind (note_prev False (fd_of inst) M u) (\<lambda>u1. rbind (set_src 0 CPR1 (fs_of inst) M u1) (\<lambda>u2.
      rbind (if arith_two_srcs fot then set_src 1 CPR1 (ft_of inst) M u2 else Inr u2) (\<lambda>u3. claim_pair False (fd_of inst) u3 M)))))"

definition arith_allocate :: "fp_op_type \<Rightarrow> mips_meta_op \<Rightarrow> sim_state \<Rightarrow> (mips_meta_op \<times> sim_state \<times> bool) res" where
  "arith_allocate fot u M = (if is_d u then arith_allocate_double fot u M else arith_allocate_float fot u M)"

definition arith_ready :: "mips_meta_op \<Rightarrow> sim_state \<Rightarrow> bool res" where
  "arith_ready u M = all_valid (opt CPR1 0 u @ opt CPR1 1 u @ opt CPR1 2 u @ opt CPR1 3 u) M"

definition fp_abs :: "'a::len word \<Rightarrow> 'a word" where
  "fp_abs x = take_bit (LENGTH('a) - 1) x"

definition arith_d :: "fpu \<Rightarrow> fp_op_type \<Rightarrow> u64 \<Rightarrow> u64 \<Rightarrow> (u64 \<times> u64) res" where
  "arith_d F fot x y = (case fot of Fadd \<Rightarrow> Inr (d_add F x y, 2) | Fsub \<Rightarrow> Inr (d_sub F x y, 2) | Fmul \<Rightarrow> Inr (d_mul F x y, 3)
     | Fdiv \<Rightarrow> Inr (d_div F x y, 32) | Fsqrt \<Rightarrow> Inr (d_sqrt F x, 32) | Fabs \<Rightarrow> Inr (fp_abs x, 1) | Fmov \<Rightarrow> Inr (x, 1)
     | Fneg \<Rightarrow> Inr (fp_neg x, 1) | _ \<Rightarrow> Inl Die)"

definition arith_s :: "fpu \<Rightarrow> fp_op_type \<Rightarrow> u32 \<Rightarrow> u32 \<Rightarrow> (u32 \<times> u64) res" where
  "arith_s F fot x y = (case fot of Fadd \<Rightarrow> Inr (f_add F x y, 2) | Fsub \<Rightarrow> Inr (f_sub F x y, 2) | Fmul \<Rightarrow> Inr (f_mul F x y, 3)
     | Fdiv \<Rightarrow> Inr (f_div F x y, 32) | Fsqrt \<Rightarrow> Inr (f_sqrt F x, 32) | Fabs \<Rightarrow> Inr (fp_abs x, 1) | Fmov \<Rightarrow> Inr (x, 1)
     | Fneg \<Rightarrow> Inr (fp_neg x, 1) | _ \<Rightarrow> Inl Die)"

definition arith_execute_double :: "sim_param \<Rightarrow> fp_op_type \<Rightarrow> mips_meta_op \<Rightarrow> sim_state \<Rightarrow> (mips_meta_op \<times> sim_state) res" where
  "arith_execute_double S fot u M = rbind (pair_val 0 1 u M) (\<lambda>x.
     rbind (if arith_two_srcs fot then pair_val 2 3 u M else Inr 0) (\<lambda>y. rbind (arith_d (fp (host S)) fot x y) (\<lambda>(z, lat).
       rbind (write_pair z u M) (\<lambda>M1. Inr (finish_in lat u M1, M1)))))"

definition arith_execute_float :: "sim_param \<Rightarrow> fp_op_type \<Rightarrow> mips_meta_op \<Rightarrow> sim_state \<Rightarrow> (mips_meta_op \<times> sim_state) res" where
  "arith_execute_float S fot u M = rbind (src_val CPR1 0 u M) (\<lambda>x.
     rbind (if arith_two_srcs fot then src_val CPR1 1 u M else Inr 0) (\<lambda>y. rbind (arith_s (fp (host S)) fot x y) (\<lambda>(z, lat).
       result CPR1 z lat u M)))"

definition arith_execute :: "sim_param \<Rightarrow> fp_op_type \<Rightarrow> mips_meta_op \<Rightarrow> sim_state \<Rightarrow> (mips_meta_op \<times> sim_state) res" where
  "arith_execute S fot u M = (if is_d u then arith_execute_double S fot u M else arith_execute_float S fot u M)"

definition arith_latency :: "fp_op_type \<Rightarrow> u64 res" where
  "arith_latency fot = (case fot of Fadd \<Rightarrow> Inr 2 | Fsub \<Rightarrow> Inr 2 | Fmul \<Rightarrow> Inr 3 | Fdiv \<Rightarrow> Inr 32 | Fsqrt \<Rightarrow> Inr 32
     | Fabs \<Rightarrow> Inr 1 | Fmov \<Rightarrow> Inr 1 | Fneg \<Rightarrow> Inr 1 | _ \<Rightarrow> Inl Die)"

definition arith_complete :: "mips_meta_op \<Rightarrow> sim_state \<Rightarrow> (mips_meta_op \<times> sim_state) res" where
  "arith_complete u M = complete_pair (aux_prf_idx u \<noteq> -1) u M"

definition arith_retire :: "mips_meta_op \<Rightarrow> sim_state \<Rightarrow> (mips_meta_op \<times> sim_state) res" where
  "arith_retire u M = rbind (retire_pair (aux_prf_idx u \<noteq> -1) (Some (op_pc u)) (Some (op_pc u)) (fd_of (op_inst u)) u M) (count_icnt u)"

definition arith_rollback :: "mips_meta_op \<Rightarrow> sim_state \<Rightarrow> sim_state res" where
  "arith_rollback u M = undo_pair (aux_prf_idx u \<noteq> -1) (fd_of (op_inst u)) u M"

section \<open>Multiply-add\<close>

definition fma_allocate_double :: "mips_meta_op \<Rightarrow> sim_state \<Rightarrow> (mips_meta_op \<times> sim_state \<times> bool) res" where
  "fma_allocate_double u M = (let inst = op_inst u in if_free True u M
     (rbind (note_prev True (fd_of inst) M u) (\<lambda>u1. rbind (set_pair True 0 1 (fs_of inst) M u1) (\<lambda>u2.
      rbind (set_pair True 2 3 (ft_of inst) M u2) (\<lambda>u3. rbind (set_pair True 4 5 (rs_of inst) M u3) (\<lambda>u4.
        claim_pair True (fd_of inst) u4 M))))))"

definition fma_allocate_float :: "mips_meta_op \<Rightarrow> sim_state \<Rightarrow> (mips_meta_op \<times> sim_state \<times> bool) res" where
  "fma_allocate_float u M = (let inst = op_inst u in if_free False u M
     (rbind (note_prev False (fd_of inst) M u) (\<lambda>u1. rbind (set_src 0 CPR1 (fs_of inst) M u1) (\<lambda>u2.
      rbind (set_src 1 CPR1 (ft_of inst) M u2) (\<lambda>u3. rbind (set_src 2 CPR1 (rs_of inst) M u3) (\<lambda>u4.
        claim_pair False (fd_of inst) u4 M))))))"

definition fma_allocate :: "fma_type \<Rightarrow> mips_meta_op \<Rightarrow> sim_state \<Rightarrow> (mips_meta_op \<times> sim_state \<times> bool) res" where
  "fma_allocate fmt u M = (if fmt = F64 then fma_allocate_double u M else fma_allocate_float u M)"

definition fma_ready :: "mips_meta_op \<Rightarrow> sim_state \<Rightarrow> bool res" where
  "fma_ready u M = all_valid (opt CPR1 0 u @ opt CPR1 1 u @ opt CPR1 2 u @ opt CPR1 3 u @ opt CPR1 4 u @ opt CPR1 5 u) M"

definition fma_execute_double :: "sim_param \<Rightarrow> bool \<Rightarrow> mips_meta_op \<Rightarrow> sim_state \<Rightarrow> (mips_meta_op \<times> sim_state) res" where
  "fma_execute_double S msub u M = rbind (pair_val 0 1 u M) (\<lambda>x. rbind (pair_val 2 3 u M) (\<lambda>y. rbind (pair_val 4 5 u M) (\<lambda>r.
     rbind (write_pair (if msub then d_msub (fp (host S)) x y r else d_madd (fp (host S)) x y r) u M) (\<lambda>M1.
       Inr (finish_in 3 u M1, M1)))))"

definition fma_execute_float :: "sim_param \<Rightarrow> bool \<Rightarrow> mips_meta_op \<Rightarrow> sim_state \<Rightarrow> (mips_meta_op \<times> sim_state) res" where
  "fma_execute_float S msub u M = rbind (src_val CPR1 0 u M) (\<lambda>x. rbind (src_val CPR1 1 u M) (\<lambda>y. rbind (src_val CPR1 2 u M) (\<lambda>r.
     result CPR1 (if msub then f_msub (fp (host S)) x y r else f_madd (fp (host S)) x y r) 3 u M)))"

definition fma_execute :: "sim_param \<Rightarrow> bool \<Rightarrow> fma_type \<Rightarrow> mips_meta_op \<Rightarrow> sim_state \<Rightarrow> (mips_meta_op \<times> sim_state) res" where
  "fma_execute S msub fmt u M = (if fmt = F64 then fma_execute_double S msub u M else fma_execute_float S msub u M)"

definition fma_complete :: "mips_meta_op \<Rightarrow> sim_state \<Rightarrow> (mips_meta_op \<times> sim_state) res" where
  "fma_complete u M = complete_pair (aux_prf_idx u \<noteq> -1) u M"

definition fma_retire :: "mips_meta_op \<Rightarrow> sim_state \<Rightarrow> (mips_meta_op \<times> sim_state) res" where
  "fma_retire u M = rbind (retire_pair (aux_prf_idx u \<noteq> -1) (Some (op_pc u)) (Some (op_pc u)) (fd_of (op_inst u)) u M) (count_icnt u)"

definition fma_rollback :: "mips_meta_op \<Rightarrow> sim_state \<Rightarrow> sim_state res" where
  "fma_rollback u M = undo_pair (aux_prf_idx u \<noteq> -1) (fd_of (op_inst u)) u M"

section \<open>Conversions\<close>

text \<open>A format that is not listed writes nothing.\<close>

definition execute_cvts :: "sim_param \<Rightarrow> mips_meta_op \<Rightarrow> sim_state \<Rightarrow> sim_state res" where
  "execute_cvts S u M = (if is_d u then rbind (pair_val 0 1 u M) (\<lambda>x. on_rf CPR1 (write_prf (prf_idx u) (d_to_s (fp (host S)) x)) M)
     else if fmt_of (op_inst u) = FMT_W then
       rbind (src_val CPR1 0 u M) (\<lambda>x. on_rf CPR1 (write_prf (prf_idx u) (w_to_s (fp (host S)) x)) M)
     else Inr M)"

definition execute_truncw :: "sim_param \<Rightarrow> mips_meta_op \<Rightarrow> sim_state \<Rightarrow> sim_state res" where
  "execute_truncw S u M = (if is_d u then rbind (pair_val 0 1 u M) (\<lambda>x. rbind (d_to_w (fp (host S)) x) (\<lambda>w.
       on_rf CPR1 (write_prf (prf_idx u) w) M))
     else if fmt_of (op_inst u) = FMT_S then rbind (src_val CPR1 0 u M) (\<lambda>x. rbind (s_to_w (fp (host S)) x) (\<lambda>w.
       on_rf CPR1 (write_prf (prf_idx u) w) M))
     else Inr M)"

definition cvts_allocate :: "mips_meta_op \<Rightarrow> sim_state \<Rightarrow> (mips_meta_op \<times> sim_state \<times> bool) res" where
  "cvts_allocate u M = rbind (set_pair (is_d u) 0 1 (fs_of (op_inst u)) M u) (\<lambda>u1. rename_late CPR1 (fd_of (op_inst u)) u1 M)"

definition cvts_ready :: "mips_meta_op \<Rightarrow> sim_state \<Rightarrow> bool res" where
  "cvts_ready u M = all_valid (need CPR1 0 u @ opt CPR1 1 u) M"

definition cvts_execute :: "sim_param \<Rightarrow> cvt_type \<Rightarrow> mips_meta_op \<Rightarrow> sim_state \<Rightarrow> (mips_meta_op \<times> sim_state) res" where
  "cvts_execute S ot u M = rbind (case ot of Cvts \<Rightarrow> execute_cvts S u M | Truncw \<Rightarrow> execute_truncw S u M) (\<lambda>M1.
     Inr (finish_in 1 u M1, M1))"

definition cvts_complete :: "mips_meta_op \<Rightarrow> sim_state \<Rightarrow> (mips_meta_op \<times> sim_state) res" where
  "cvts_complete = complete_reg CPR1"

definition cvts_retire :: "mips_meta_op \<Rightarrow> sim_state \<Rightarrow> (mips_meta_op \<times> sim_state) res" where
  "cvts_retire u M = rbind (retire_dest True (Some (op_pc u)) CPR1 (fd_of (op_inst u)) u M) (count_retired u)"

definition cvts_rollback :: "mips_meta_op \<Rightarrow> sim_state \<Rightarrow> sim_state res" where
  "cvts_rollback u M = undo_dest CPR1 (fd_of (op_inst u)) u M"

definition cvtd_allocate :: "mips_meta_op \<Rightarrow> sim_state \<Rightarrow> (mips_meta_op \<times> sim_state \<times> bool) res" where
  "cvtd_allocate u M = (let inst = op_inst u in if_free True u M
     (rbind (note_prev True (fd_of inst) M u) (\<lambda>u1. rbind (set_src 0 CPR1 (fs_of inst) M u1) (\<lambda>u2. claim_pair True (fd_of inst) u2 M))))"

definition cvtd_ready :: "mips_meta_op \<Rightarrow> sim_state \<Rightarrow> bool res" where
  "cvtd_ready u M = all_valid (need CPR1 0 u) M"

definition cvtd_execute :: "sim_param \<Rightarrow> mips_meta_op \<Rightarrow> sim_state \<Rightarrow> (mips_meta_op \<times> sim_state) res" where
  "cvtd_execute S u M = rbind (src_val CPR1 0 u M) (\<lambda>x.
     rbind (if fmt_of (op_inst u) = FMT_S then Inr (s_to_d (fp (host S)) x)
       else if fmt_of (op_inst u) = FMT_W then Inr (w_to_d (fp (host S)) x) else Inl Die) (\<lambda>y.
     rbind (write_pair y u M) (\<lambda>M1. Inr (finish_in 1 u M1, M1))))"

definition cvtd_complete :: "mips_meta_op \<Rightarrow> sim_state \<Rightarrow> (mips_meta_op \<times> sim_state) res" where
  "cvtd_complete u M = complete_pair True u M"

definition cvtd_retire :: "mips_meta_op \<Rightarrow> sim_state \<Rightarrow> (mips_meta_op \<times> sim_state) res" where
  "cvtd_retire u M = rbind (retire_pair True (Some (op_pc u)) None (fd_of (op_inst u)) u M) (count_retired u)"

definition cvtd_rollback :: "mips_meta_op \<Rightarrow> sim_state \<Rightarrow> sim_state res" where
  "cvtd_rollback u M = undo_pair True (fd_of (op_inst u)) u M"

end
