(* ===== verification/Op_Sys.thy ===== *)
theory Op_Sys
  imports Op_Mem
begin

text \<open>
  The operations of class \<open>system\<close> in \<^verbatim>\<open>sim_ooo/mips_op.cc\<close>: break, sync and the monitor call, whose
  service is performed when it retires.  A call the core does not know stops the simulation.
\<close>

definition break_allocate :: "mips_meta_op \<Rightarrow> sim_state \<Rightarrow> (mips_meta_op \<times> sim_state \<times> bool) res" where
  "break_allocate u M = Inr (u, M, True)"

definition break_execute :: "mips_meta_op \<Rightarrow> sim_state \<Rightarrow> (mips_meta_op \<times> sim_state) res" where
  "break_execute u M = Inr (finish_in 1 u M, M)"

definition break_complete :: "mips_meta_op \<Rightarrow> sim_state \<Rightarrow> (mips_meta_op \<times> sim_state) res" where
  "break_complete = complete_with Inr"

definition break_retire :: "mips_meta_op \<Rightarrow> sim_state \<Rightarrow> (mips_meta_op \<times> sim_state) res" where
  "break_retire u M = count_retired u M"

definition sync_allocate :: "mips_meta_op \<Rightarrow> sim_state \<Rightarrow> (mips_meta_op \<times> sim_state \<times> bool) res" where
  "sync_allocate u M = Inr (u, M\<lparr>alloc_blocked := True\<rparr>, True)"

definition sync_execute :: "mips_meta_op \<Rightarrow> sim_state \<Rightarrow> (mips_meta_op \<times> sim_state) res" where
  "sync_execute u M = Inr (finish_in 1 u M, M)"

definition sync_complete :: "mips_meta_op \<Rightarrow> sim_state \<Rightarrow> (mips_meta_op \<times> sim_state) res" where
  "sync_complete = complete_with Inr"

definition sync_retire :: "mips_meta_op \<Rightarrow> sim_state \<Rightarrow> (mips_meta_op \<times> sim_state) res" where
  "sync_retire u M = rbind (count_retired u M) (\<lambda>(u1, M1). Inr (u1, M1\<lparr>alloc_blocked := False\<rparr>))"

definition sync_rollback :: "mips_meta_op \<Rightarrow> sim_state \<Rightarrow> sim_state res" where
  "sync_rollback u M = Inr (M\<lparr>alloc_blocked := False\<rparr>)"

section \<open>Monitor calls\<close>

definition monitor_allocate :: "mips_meta_op \<Rightarrow> sim_state \<Rightarrow> (mips_meta_op \<times> sim_state \<times> bool) res" where
  "monitor_allocate u M = rbind (set_src 0 GPR 4 M u) (\<lambda>u1. rbind (set_src 1 GPR 5 M u1) (\<lambda>u2. rbind (set_src 2 GPR 6 M u2) (\<lambda>u3.
     rbind (set_src 3 GPR 31 M u3) (\<lambda>u4. rbind (rename_reg GPR 2 u4 M) (\<lambda>(u5, M1, ok).
       Inr (u5, if ok then M1\<lparr>alloc_blocked := True\<rparr> else M1, ok))))))"

definition monitor_ready :: "mips_meta_op \<Rightarrow> sim_state \<Rightarrow> bool res" where
  "monitor_ready u M = all_valid (need GPR 0 u @ need GPR 1 u @ need GPR 2 u @ need GPR 3 u) M"

definition monitor_execute :: "mips_meta_op \<Rightarrow> sim_state \<Rightarrow> (mips_meta_op \<times> sim_state) res" where
  "monitor_execute u M = rbind (src_val GPR 0 u M) (\<lambda>a. rbind (src_val GPR 1 u M) (\<lambda>b. rbind (src_val GPR 2 u M) (\<lambda>c.
     rbind (src_val GPR 3 u M) (\<lambda>d. Inr (finish_in 1 (u\<lparr>src_regs := (src_regs u)(0 := a, 1 := b, 2 := c, 3 := d),
       correct_pc := d, exc := Branch_exception\<rparr>) M, M)))))"

definition monitor_complete :: "mips_meta_op \<Rightarrow> sim_state \<Rightarrow> (mips_meta_op \<times> sim_state) res" where
  "monitor_complete = complete_with Inr"

definition stop_run :: "sim_state \<Rightarrow> sim_state" where
  "stop_run M = M\<lparr>terminate_sim := True\<rparr>"

definition ret_prf :: "mips_meta_op \<Rightarrow> u32 \<Rightarrow> sim_state \<Rightarrow> sim_state res" where
  "ret_prf u x = on_rf GPR (write_prf (prf_idx u) x)"

definition svc_open :: "sim_param \<Rightarrow> mips_meta_op \<Rightarrow> sim_state \<Rightarrow> sim_state res" where
  "svc_open S u M = (if use_interp_check S then Inr (stop_run M)
     else with_mem (cstring (src_regs u 0)) M (\<lambda>path M1.
       ret_prf u (h_open (os (host S)) (sicnt M1) path (remapIOFlags (io_flags (os (host S))) (src_regs u 1))) M1))"

definition svc_read :: "sim_param \<Rightarrow> mips_meta_op \<Rightarrow> sim_state \<Rightarrow> sim_state res" where
  "svc_read S u M = (if use_interp_check S then Inr (stop_run M)
     else with_mem (mem_read (h_read (os (host S)) (sicnt M) (src_regs u 0)) (src_regs u 1) (src_regs u 2)) M (\<lambda>rc M1.
       ret_prf u (word_of_int rc) M1))"

definition svc_write :: "sim_param \<Rightarrow> mips_meta_op \<Rightarrow> sim_state \<Rightarrow> sim_state res" where
  "svc_write S u M = (if use_interp_check S \<and> \<not> src_regs u 0 <s 2 then Inr (stop_run M)
     else with_mem (mem_write (h_write (os (host S)) (sicnt M) (src_regs u 0)) (rdwr_fuel (src_regs u 2)) (src_regs u 1)
       (src_regs u 2)) M (\<lambda>rc M1. ret_prf u (word_of_int rc) M1))"

definition svc_lseek :: "sim_param \<Rightarrow> mips_meta_op \<Rightarrow> sim_state \<Rightarrow> sim_state res" where
  "svc_lseek S u M = (if use_interp_check S then Inr (stop_run M)
     else ret_prf u (h_lseek (os (host S)) (sicnt M) (src_regs u 0) (src_regs u 1) (src_regs u 2)) M)"

definition svc_close :: "sim_param \<Rightarrow> mips_meta_op \<Rightarrow> sim_state \<Rightarrow> sim_state res" where
  "svc_close S u M = (if 2 <s src_regs u 0 then ret_prf u (h_close (os (host S)) (sicnt M) (src_regs u 0)) M
     else if use_interp_check S then Inr (stop_run M) else Inr M)"

definition monitor_service :: "sim_param \<Rightarrow> nat \<Rightarrow> mips_meta_op \<Rightarrow> sim_state \<Rightarrow> sim_state res" where
  "monitor_service S reason u M = (let a0 = src_regs u 0
     in if reason = 6 then svc_open S u M
        else if reason = 7 then svc_read S u M
        else if reason = 8 then svc_write S u M
        else if reason = 9 then svc_lseek S u M
        else if reason = 10 then svc_close S u M
        else if reason = 33 \<or> reason = 34 then put_mem (poke_all a0 [(0, bytes32 0), (4, bytes32 0)]) M
        else if reason = 35 then rbind (put_mem (put_args a0 (take margs (sysArgv (os (host S))))) M)
          (ret_prf u (of_nat (length (sysArgv (os (host S))))))
        else if reason = 50 then ret_prf u (ucast (curr M)) M
        else if reason = 51 then rbind (flush (l1cache M)) (\<lambda>cs. Inr (M\<lparr>l1cache := cs\<rparr>))
        else if reason = 52 then rbind (flush_line (l1cache M) a0) (\<lambda>cs. Inr (M\<lparr>l1cache := cs\<rparr>))
        else if reason = 53 then ret_prf u (ucast (sicnt M)) M
        else if reason = 55 then put_mem (poke_all a0 [(0, bytes32 (bswap32 K1SIZE)), (4, bytes32 0), (8, bytes32 0)]) M
        else Inr (stop_run M))"

text \<open>The valid bit of the register that is freed is left as it is.\<close>

definition monitor_retire :: "sim_param \<Rightarrow> mips_meta_op \<Rightarrow> sim_state \<Rightarrow> (mips_meta_op \<times> sim_state) res" where
  "monitor_retire S u M = rbind (ret_prf u 0 M) (\<lambda>M1. rbind (monitor_service S (monitor_reason (op_inst u)) u M1) (\<lambda>M2.
     rbind (on_rf GPR (\<lambda>r. rbind (set_valid (prf_idx u) r) (\<lambda>r1. rbind (bv_clear (freevec r1) (prev_prf_idx u)) (\<lambda>fv.
       rbind (commit_value 2 (prf_idx u) (r1\<lparr>freevec := fv\<rparr>)) (\<lambda>r2. rbind (commit_pc 2 (op_pc u) r2)
         (commit_map 2 (prev_prf_idx u) (prf_idx u)))))) M2) (\<lambda>M3.
     count_retired u (M3\<lparr>alloc_blocked := False, fetch_blocked := False\<rparr>))))"

definition monitor_rollback :: "mips_meta_op \<Rightarrow> sim_state \<Rightarrow> sim_state res" where
  "monitor_rollback u M = rbind (undo_dest GPR 2 u M) (\<lambda>M1. Inr (M1\<lparr>alloc_blocked := False\<rparr>))"

end
