(* ===== verification/Decode.thy ===== *)
theory Decode
  imports Op_Branch Op_Fp Op_Sys
begin

text \<open>
  The decoder of \<^verbatim>\<open>sim_ooo/mips_op.cc\<close> and the virtual methods of \<open>mips_op\<close> as functions of the
  operation's class.  The decoder returns no operation for an instruction it does not know.
\<close>

section \<open>Decoding\<close>

definition decode_jtype_insn :: "u32 \<Rightarrow> mips_op option" where
  "decode_jtype_insn inst = (if opcode_of inst = 2 then Some (Jump J) else if opcode_of inst = 3 then Some (Jump Jal) else None)"

definition op_table_itype :: "(nat \<times> mips_op) list" where
  "op_table_itype = [(0x04, Branch Beq), (0x05, Branch Bne), (0x06, Branch Blez), (0x07, Branch Bgtz),
     (0x08, Itype_alu), (0x09, Itype_alu), (0x0A, Itype_alu), (0x0B, Itype_alu), (0x0c, Itype_alu), (0x0d, Itype_alu),
     (0x0e, Itype_alu), (0x0F, Itype_lui), (0x14, Branch Beql), (0x16, Branch Blezl), (0x15, Branch Bnel), (0x17, Branch Bgtzl),
     (0x20, Load_op Lb), (0x21, Load_op Lh), (0x22, Load_op Lwl), (0x23, Load_op Lw), (0x24, Load_op Lbu), (0x25, Load_op Lhu),
     (0x26, Load_op Lwr), (0x28, Store_op Sb), (0x29, Store_op Sh), (0x2A, Store_op Swl), (0x2B, Store_op Sw),
     (0x2E, Store_op Swr), (0x31, Fp_load Lwc1), (0x35, Fp_load Ldc1), (0x39, Fp_store Swc1), (0x3d, Fp_store Sdc1)]"

definition decode_itype_insn :: "u32 \<Rightarrow> mips_op option" where
  "decode_itype_insn inst = (if opcode_of inst = 1 then
       map_of [(0, Branch Bltz), (1, Branch Bgez), (2, Branch Bltzl), (3, Branch Bgezl)] (rt_of inst)
     else map_of op_table_itype (opcode_of inst))"

definition op_table_rtype :: "(nat \<times> mips_op) list" where
  "op_table_rtype = [(0x00, Rtype_const_shift Sll), (0x01, Movci_op), (0x02, Rtype_const_shift Srl), (0x03, Rtype_const_shift Sra),
     (0x04, Rtype_alu Sllv), (0x05, Monitor_op), (0x06, Rtype_alu Srlv), (0x07, Rtype_alu Srav), (0x08, Jump Jr), (0x09, Jump Jalr),
     (0x0a, Rtype_alu Movz), (0x0b, Rtype_alu Movn), (0x0D, Break_op), (0x0f, Sync_op), (0x10, Lo_hi_move Mfhi),
     (0x11, Lo_hi_move Mthi), (0x12, Lo_hi_move Mflo), (0x13, Lo_hi_move Mtlo), (0x18, Mult_div Mult), (0x19, Mult_div Multu),
     (0x1A, Mult_div Div), (0x1B, Mult_div Divu), (0x20, Rtype_alu Add), (0x21, Rtype_alu Addu), (0x22, Rtype_alu Sub),
     (0x23, Rtype_alu Subu), (0x24, Rtype_alu And), (0x25, Rtype_alu Or), (0x26, Rtype_alu Xor), (0x27, Rtype_alu Nor),
     (0x2A, Rtype_alu Slt), (0x2B, Rtype_alu Sltu), (0x34, Rtype_alu Teq)]"

definition decode_rtype_insn :: "u32 \<Rightarrow> mips_op option res" where
  "decode_rtype_insn inst = ensure Die (funct_of inst \<noteq> 0x0C) (Inr (map_of op_table_rtype (funct_of inst)))"

definition op_table_cp1 :: "(nat \<times> mips_op) list" where
  "op_table_cp1 = [(0x0, Fp_arith Fadd), (0x1, Fp_arith Fsub), (0x2, Fp_arith Fmul), (0x3, Fp_arith Fdiv), (0x4, Fp_arith Fsqrt),
     (0x5, Fp_arith Fabs), (0x6, Fp_arith Fmov), (0x7, Fp_arith Fneg), (0xd, Cvts_truncw Truncw), (0x11, Fmovc_op), (0x12, Fmovz_op),
     (0x13, Fmovn_op), (0x15, Fp_arith Frecip), (0x16, Fp_arith Frsqrt), (0x20, Cvts_truncw Cvts), (0x21, Cvtd_op)]"

definition decode_coproc1_insn :: "u32 \<Rightarrow> mips_op option res" where
  "decode_coproc1_insn inst = (let lowop = funct_of inst; fmt = fmt_of inst; nd_tf = fld inst 16 2; lowbits = fld inst 0 11
     in if fmt = 8 then Inr (map_of [(0, Branch Bc1f), (1, Branch Bc1t), (2, Branch Bc1fl), (3, Branch Bc1tl)] nd_tf)
        else if lowbits = 0 \<and> (fmt = 0 \<or> fmt = 4) then Inr (Some (if fmt = 0 then Mfc1 else Mtc1))
        else if lowop div 16 = 3 then Inr (Some Fp_cmp)
        else (case map_of op_table_cp1 lowop of None \<Rightarrow> Inl Die | x \<Rightarrow> Inr x))"

definition decode_special2_insn :: "u32 \<Rightarrow> mips_op option" where
  "decode_special2_insn inst = map_of [(0x0, Mult_div Madd), (0x1, Mult_div Maddu), (0x2, Mul_op), (0x4, Mult_div Msub), (0x20, Clz_op)]
     (funct_of inst)"

definition decode_special3_insn :: "u32 \<Rightarrow> mips_op option res" where
  "decode_special3_insn inst = (let funct = funct_of inst; op = sa_of inst
     in if funct = 0 then Inr (Some Ext_op) else if funct = 4 then Inr (Some Ins_op)
        else if funct = 0x20 then (if op = 0x10 then Inr (Some (Se_op Seb)) else if op = 0x18 then Inr (Some (Se_op Seh)) else Inl Die)
        else Inr None)"

definition decode_coproc1x_insn :: "u32 \<Rightarrow> mips_op option res" where
  "decode_coproc1x_insn inst = (let i = fld inst 3 3; fma = (if fld inst 0 3 = 0 then F32 else F64)
     in if i = 4 then Inr (Some (Fp_fma False fma)) else if i = 5 then Inr (Some (Fp_fma True fma)) else Inl AssertFail)"

definition decode_op :: "u32 \<Rightarrow> mips_op option res" where
  "decode_op inst = (let opcode = opcode_of inst in
     if opcode = 0 then decode_rtype_insn inst
     else if opcode = 0x1c then Inr (decode_special2_insn inst)
     else if opcode = 0x1f then decode_special3_insn inst
     else if opcode div 2 = 1 then Inr (decode_jtype_insn inst)
     else if opcode = 0x10 then Inr (if fmt_of inst = 4 then Some Mtc0 else None)
     else if opcode = 0x11 then decode_coproc1_insn inst
     else if opcode = 0x13 then decode_coproc1x_insn inst
     else if opcode = 0x12 then Inr None
     else if opcode = 0x30 then Inr None
     else if opcode = 0x38 then Inr None
     else Inr (decode_itype_insn inst))"

text \<open>What the constructor of the class sets in the descriptor.\<close>

definition construct :: "mips_op \<Rightarrow> mips_meta_op \<Rightarrow> mips_meta_op" where
  "construct op u0 = (let u = u0\<lparr>mop := Some op\<rparr> in case op of
     Jump jt \<Rightarrow> u\<lparr>has_delay_slot := True, could_cause_exception := True\<rparr>
   | Branch bt \<Rightarrow> u\<lparr>could_cause_exception := True, br_target := push_bit 2 (simm (op_inst u)) + (op_pc u + 4)\<rparr>
   | Load_op lt \<Rightarrow> u\<lparr>could_cause_exception := True\<rparr>
   | Fp_load lt \<Rightarrow> u\<lparr>could_cause_exception := True\<rparr>
   | Store_op st \<Rightarrow> u\<lparr>is_store := True\<rparr>
   | Fp_store st \<Rightarrow> u\<lparr>is_store := True\<rparr>
   | Monitor_op \<Rightarrow> u\<lparr>could_cause_exception := True\<rparr>
   | _ \<Rightarrow> u)"

definition decode_insn :: "mips_meta_op \<Rightarrow> mips_meta_op res" where
  "decode_insn u = rbind (decode_op (op_inst u)) (\<lambda>x. Inr (case x of None \<Rightarrow> u | Some op \<Rightarrow> construct op u))"

section \<open>Methods by class\<close>

fun get_op_class :: "mips_op \<Rightarrow> oper_type" where
  "get_op_class (Jump jt) = Op_jmp" | "get_op_class (Branch bt) = Op_jmp"
| "get_op_class (Load_op lt) = Op_load" | "get_op_class (Fp_load lt) = Op_load"
| "get_op_class (Store_op st) = Op_store" | "get_op_class (Fp_store st) = Op_store"
| "get_op_class (Se_op st) = Op_system" | "get_op_class Break_op = Op_system" | "get_op_class Sync_op = Op_system"
| "get_op_class Monitor_op = Op_system"
| "get_op_class Fmovc_op = Op_fp" | "get_op_class Fmovn_op = Op_fp" | "get_op_class Fmovz_op = Op_fp"
| "get_op_class Fp_cmp = Op_fp" | "get_op_class (Fp_arith f) = Op_fp" | "get_op_class (Fp_fma b f) = Op_fp"
| "get_op_class (Cvts_truncw c) = Op_fp" | "get_op_class Cvtd_op = Op_fp"
| "get_op_class _ = Op_alu"

fun count_rd_ports :: "mips_op \<Rightarrow> int" where
  "count_rd_ports Nop = 0" | "count_rd_ports Itype_lui = 0" | "count_rd_ports Break_op = 0" | "count_rd_ports Sync_op = 0"
| "count_rd_ports (Rtype_alu rt) = (if rt \<in> {Movn, Movz} then 3 else 2)"
| "count_rd_ports (Rtype_const_shift rt) = 1"
| "count_rd_ports (Jump jt) = (if jt \<in> {Jr, Jalr} then 1 else 0)"
| "count_rd_ports (Branch bt) = (if branch_two bt then 2 else 1)"
| "count_rd_ports (Load_op lt) = (if load_src1 lt then 2 else 1)"
| "count_rd_ports (Store_op st) = 2" | "count_rd_ports (Fp_store st) = 2"
| "count_rd_ports Mul_op = 2" | "count_rd_ports Ins_op = 2" | "count_rd_ports Movci_op = 2"
| "count_rd_ports (Mult_div mdt) = (if uses_acc mdt then 4 else 2)"
| "count_rd_ports Fmovc_op = 2" | "count_rd_ports Fmovn_op = 3" | "count_rd_ports Fmovz_op = 3"
| "count_rd_ports Fp_cmp = 2" | "count_rd_ports (Fp_arith f) = (if arith_two_srcs f then 2 else 1)"
| "count_rd_ports (Fp_fma b f) = 3" | "count_rd_ports Monitor_op = 4"
| "count_rd_ports _ = 1"

fun get_latency :: "sim_param \<Rightarrow> mips_op \<Rightarrow> u64 res" where
  "get_latency S (Load_op lt) = Inr (l1d_latency S)" | "get_latency S (Store_op st) = Inr (l1d_latency S)"
| "get_latency S (Fp_store st) = Inr (l1d_latency S)" | "get_latency S Mul_op = Inr 4"
| "get_latency S (Mult_div mdt) = mult_div_latency mdt" | "get_latency S (Fp_arith f) = arith_latency f"
| "get_latency S (Fp_fma b f) = Inr 3" | "get_latency S _ = Inr 1"

fun allocate_op :: "mips_op \<Rightarrow> nat \<Rightarrow> mips_meta_op \<Rightarrow> sim_state \<Rightarrow> (mips_meta_op \<times> sim_state \<times> bool) res" where
  "allocate_op Mtc0 a = mtc0_allocate" | "allocate_op Mtc1 a = mtc1_allocate" | "allocate_op Mfc1 a = mfc1_allocate"
| "allocate_op (Lo_hi_move t) a = lo_hi_allocate t" | "allocate_op Nop a = (\<lambda>u M. Inr (u, M, True))"
| "allocate_op (Rtype_alu t) a = rtype_allocate True t" | "allocate_op (Rtype_const_shift t) a = rtype_allocate False t"
| "allocate_op Itype_alu a = itype_allocate True" | "allocate_op Itype_lui a = itype_allocate False"
| "allocate_op (Jump t) a = jump_allocate t" | "allocate_op (Branch t) a = branch_allocate t"
| "allocate_op (Load_op t) a = load_allocate t a" | "allocate_op (Store_op t) a = store_allocate a"
| "allocate_op (Fp_load t) a = fp_load_allocate t a" | "allocate_op (Fp_store t) a = fp_store_allocate t a"
| "allocate_op Mul_op a = mul_allocate" | "allocate_op Clz_op a = clz_allocate" | "allocate_op (Mult_div t) a = mult_div_allocate t"
| "allocate_op (Se_op t) a = se_allocate" | "allocate_op Ext_op a = ext_allocate" | "allocate_op Ins_op a = ins_allocate"
| "allocate_op Movci_op a = movci_allocate" | "allocate_op Fmovc_op a = fmovc_allocate" | "allocate_op Fmovn_op a = fmov_allocate"
| "allocate_op Fmovz_op a = fmov_allocate" | "allocate_op Fp_cmp a = cmp_allocate" | "allocate_op (Fp_arith t) a = arith_allocate t"
| "allocate_op (Fp_fma b t) a = fma_allocate t" | "allocate_op (Cvts_truncw t) a = cvts_allocate" | "allocate_op Cvtd_op a = cvtd_allocate"
| "allocate_op Break_op a = break_allocate" | "allocate_op Sync_op a = sync_allocate" | "allocate_op Monitor_op a = monitor_allocate"

fun ready_op :: "mips_op \<Rightarrow> mips_meta_op \<Rightarrow> sim_state \<Rightarrow> bool res" where
  "ready_op Mtc0 = mtc0_ready" | "ready_op Mtc1 = mtc1_ready" | "ready_op Mfc1 = mfc1_ready" | "ready_op (Lo_hi_move t) = lo_hi_ready"
| "ready_op Nop = (\<lambda>u M. Inr False)" | "ready_op (Rtype_alu t) = rtype_ready" | "ready_op (Rtype_const_shift t) = rtype_ready"
| "ready_op Itype_alu = itype_ready" | "ready_op Itype_lui = itype_ready" | "ready_op (Jump t) = jump_ready"
| "ready_op (Branch t) = branch_ready t" | "ready_op (Load_op t) = load_ready" | "ready_op (Store_op t) = store_ready"
| "ready_op (Fp_load t) = fp_load_ready" | "ready_op (Fp_store t) = fp_store_ready" | "ready_op Mul_op = mul_ready"
| "ready_op Clz_op = clz_ready" | "ready_op (Mult_div t) = mult_div_ready" | "ready_op (Se_op t) = se_ready" | "ready_op Ext_op = ext_ready"
| "ready_op Ins_op = ins_ready" | "ready_op Movci_op = movci_ready" | "ready_op Fmovc_op = fmovc_ready" | "ready_op Fmovn_op = fmov_ready"
| "ready_op Fmovz_op = fmov_ready" | "ready_op Fp_cmp = cmp_ready" | "ready_op (Fp_arith t) = arith_ready" | "ready_op (Fp_fma b t) = fma_ready"
| "ready_op (Cvts_truncw t) = cvts_ready" | "ready_op Cvtd_op = cvtd_ready" | "ready_op Break_op = (\<lambda>u M. Inr True)"
| "ready_op Sync_op = (\<lambda>u M. Inr True)" | "ready_op Monitor_op = monitor_ready"

fun execute_op :: "sim_param \<Rightarrow> mips_op \<Rightarrow> nat \<Rightarrow> mips_meta_op \<Rightarrow> sim_state \<Rightarrow> (mips_meta_op \<times> sim_state) res" where
  "execute_op S Mtc0 a = mtc0_execute" | "execute_op S Mtc1 a = mtc1_execute" | "execute_op S Mfc1 a = mfc1_execute"
| "execute_op S (Lo_hi_move t) a = lo_hi_execute" | "execute_op S Nop a = nop_execute" | "execute_op S (Rtype_alu t) a = rtype_execute t"
| "execute_op S (Rtype_const_shift t) a = rtype_execute t" | "execute_op S Itype_alu a = itype_execute" | "execute_op S Itype_lui a = lui_execute"
| "execute_op S (Jump t) a = jump_execute t" | "execute_op S (Branch t) a = branch_execute t" | "execute_op S (Load_op t) a = load_execute S t a"
| "execute_op S (Store_op t) a = store_execute S a" | "execute_op S (Fp_load t) a = fp_load_execute S t a"
| "execute_op S (Fp_store t) a = fp_store_execute S t a" | "execute_op S Mul_op a = mul_execute" | "execute_op S Clz_op a = clz_execute"
| "execute_op S (Mult_div t) a = mult_div_execute t" | "execute_op S (Se_op t) a = se_execute t" | "execute_op S Ext_op a = ext_execute"
| "execute_op S Ins_op a = ins_execute" | "execute_op S Movci_op a = movci_execute" | "execute_op S Fmovc_op a = fmovc_execute"
| "execute_op S Fmovn_op a = fmovn_execute" | "execute_op S Fmovz_op a = fmovz_execute" | "execute_op S Fp_cmp a = cmp_execute"
| "execute_op S (Fp_arith t) a = arith_execute S t" | "execute_op S (Fp_fma b t) a = fma_execute S b t"
| "execute_op S (Cvts_truncw t) a = cvts_execute S t" | "execute_op S Cvtd_op a = cvtd_execute S" | "execute_op S Break_op a = break_execute"
| "execute_op S Sync_op a = sync_execute" | "execute_op S Monitor_op a = monitor_execute"

fun complete_op :: "mips_op \<Rightarrow> mips_meta_op \<Rightarrow> sim_state \<Rightarrow> (mips_meta_op \<times> sim_state) res" where
  "complete_op Mtc0 = mtc0_complete" | "complete_op Mtc1 = mtc1_complete" | "complete_op Mfc1 = mfc1_complete"
| "complete_op (Lo_hi_move t) = lo_hi_complete" | "complete_op Nop = nop_complete" | "complete_op (Rtype_alu t) = rtype_complete"
| "complete_op (Rtype_const_shift t) = rtype_complete" | "complete_op Itype_alu = itype_complete" | "complete_op Itype_lui = itype_complete"
| "complete_op (Jump t) = jump_complete" | "complete_op (Branch t) = branch_complete" | "complete_op (Load_op t) = load_complete t"
| "complete_op (Store_op t) = store_complete" | "complete_op (Fp_load t) = fp_load_complete t" | "complete_op (Fp_store t) = fp_store_complete"
| "complete_op Mul_op = mul_complete" | "complete_op Clz_op = clz_complete" | "complete_op (Mult_div t) = mult_div_complete"
| "complete_op (Se_op t) = se_complete" | "complete_op Ext_op = ext_complete" | "complete_op Ins_op = ins_complete"
| "complete_op Movci_op = movci_complete" | "complete_op Fmovc_op = fmovc_complete" | "complete_op Fmovn_op = fmov_complete"
| "complete_op Fmovz_op = fmov_complete" | "complete_op Fp_cmp = cmp_complete" | "complete_op (Fp_arith t) = arith_complete"
| "complete_op (Fp_fma b t) = fma_complete" | "complete_op (Cvts_truncw t) = cvts_complete" | "complete_op Cvtd_op = cvtd_complete"
| "complete_op Break_op = break_complete" | "complete_op Sync_op = sync_complete" | "complete_op Monitor_op = monitor_complete"

fun retire_op :: "sim_param \<Rightarrow> mips_op \<Rightarrow> mips_meta_op \<Rightarrow> sim_state \<Rightarrow> (mips_meta_op \<times> sim_state) res" where
  "retire_op S Mtc0 = mtc0_retire" | "retire_op S Mtc1 = mtc1_retire" | "retire_op S Mfc1 = mfc1_retire"
| "retire_op S (Lo_hi_move t) = lo_hi_retire t" | "retire_op S Nop = nop_retire" | "retire_op S (Rtype_alu t) = rtype_retire t"
| "retire_op S (Rtype_const_shift t) = rtype_retire t" | "retire_op S Itype_alu = itype_retire" | "retire_op S Itype_lui = itype_retire"
| "retire_op S (Jump t) = jump_retire S t" | "retire_op S (Branch t) = branch_retire S" | "retire_op S (Load_op t) = load_retire"
| "retire_op S (Store_op t) = store_retire t" | "retire_op S (Fp_load t) = fp_load_retire" | "retire_op S (Fp_store t) = fp_store_retire t"
| "retire_op S Mul_op = mul_retire" | "retire_op S Clz_op = clz_retire" | "retire_op S (Mult_div t) = mult_div_retire"
| "retire_op S (Se_op t) = se_retire" | "retire_op S Ext_op = ext_retire" | "retire_op S Ins_op = ins_retire"
| "retire_op S Movci_op = movci_retire" | "retire_op S Fmovc_op = fmovc_retire" | "retire_op S Fmovn_op = fmov_retire"
| "retire_op S Fmovz_op = fmov_retire" | "retire_op S Fp_cmp = cmp_retire" | "retire_op S (Fp_arith t) = arith_retire"
| "retire_op S (Fp_fma b t) = fma_retire" | "retire_op S (Cvts_truncw t) = cvts_retire" | "retire_op S Cvtd_op = cvtd_retire"
| "retire_op S Break_op = break_retire" | "retire_op S Sync_op = sync_retire" | "retire_op S Monitor_op = monitor_retire S"

fun rollback_op :: "mips_op \<Rightarrow> mips_meta_op \<Rightarrow> sim_state \<Rightarrow> sim_state res" where
  "rollback_op Mtc0 = mtc0_rollback" | "rollback_op Mtc1 = mtc1_rollback" | "rollback_op Mfc1 = mfc1_rollback"
| "rollback_op (Lo_hi_move t) = lo_hi_rollback t" | "rollback_op Nop = (\<lambda>u M. Inr M)" | "rollback_op (Rtype_alu t) = rtype_rollback t"
| "rollback_op (Rtype_const_shift t) = rtype_rollback t" | "rollback_op Itype_alu = itype_rollback" | "rollback_op Itype_lui = itype_rollback"
| "rollback_op (Jump t) = jump_rollback t" | "rollback_op (Branch t) = branch_rollback" | "rollback_op (Load_op t) = load_rollback"
| "rollback_op (Store_op t) = store_rollback" | "rollback_op (Fp_load t) = fp_load_rollback" | "rollback_op (Fp_store t) = fp_store_rollback"
| "rollback_op Mul_op = mul_rollback" | "rollback_op Clz_op = clz_rollback" | "rollback_op (Mult_div t) = mult_div_rollback"
| "rollback_op (Se_op t) = se_rollback" | "rollback_op Ext_op = ext_rollback" | "rollback_op Ins_op = ins_rollback"
| "rollback_op Movci_op = movci_rollback" | "rollback_op Fmovc_op = fmovc_rollback" | "rollback_op Fmovn_op = fmov_rollback"
| "rollback_op Fmovz_op = fmov_rollback" | "rollback_op Fp_cmp = cmp_rollback" | "rollback_op (Fp_arith t) = arith_rollback"
| "rollback_op (Fp_fma b t) = fma_rollback" | "rollback_op (Cvts_truncw t) = cvts_rollback" | "rollback_op Cvtd_op = cvtd_rollback"
| "rollback_op Break_op = (\<lambda>u M. Inr M)" | "rollback_op Sync_op = sync_rollback" | "rollback_op Monitor_op = monitor_rollback"

definition stop_sim :: "mips_op \<Rightarrow> bool" where
  "stop_sim op \<longleftrightarrow> op = Break_op"

end
