(* ===== verification/Op_Rename.thy ===== *)
theory Op_Rename
  imports Decode Reg_Proofs
begin

text \<open>
  What allocation does to the renaming tables of the core, and what a result written to a claimed
  register means for the mapped registers.  \<open>holds M s\<close> says that reading the physical registers
  of \<open>M\<close> through its mapping gives the registers of the architectural state \<open>s\<close>.
\<close>

section \<open>Mapped registers\<close>

fun arch_count :: "rfile \<Rightarrow> nat" where
  "arch_count GPR = 34" | "arch_count CPR0 = 32" | "arch_count CPR1 = 32" | "arch_count FCR1 = 5"

fun arch_reg :: "rfile \<Rightarrow> nat \<Rightarrow> state \<Rightarrow> u32" where
  "arch_reg GPR r s = (if r = 32 then lo s else if r = 33 then hi s else gpr s r)"
| "arch_reg CPR0 r s = cpr0 s r"
| "arch_reg CPR1 r s = cpr1 s r"
| "arch_reg FCR1 r s = fcr1 s r"

definition reg_val :: "rfile \<Rightarrow> nat \<Rightarrow> sim_state \<Rightarrow> u32" where
  "reg_val k r M = phys (rf M k) ! nat (rat (rf M k) ! r)"

definition holds :: "sim_state \<Rightarrow> state \<Rightarrow> bool" where
  "holds M s \<longleftrightarrow> (\<forall>k r. r < arch_count k \<longrightarrow> reg_val k r M = arch_reg k r s)"

text \<open>The architectural copies, and those of them that the check against the interpreter compares.\<close>

definition banks_ok :: "sim_state \<Rightarrow> bool" where
  "banks_ok M \<longleftrightarrow> (\<forall>k. length (arch (rf M k)) = arch_count k \<and> length (arch_last_pc (rf M k)) = arch_count k)"

fun shown :: "rfile \<Rightarrow> nat" where
  "shown GPR = 32" | "shown CPR0 = 0" | "shown CPR1 = 32" | "shown FCR1 = 5"

definition shows_regs :: "sim_state \<Rightarrow> state \<Rightarrow> bool" where
  "shows_regs M s \<longleftrightarrow> (\<forall>k r. r < shown k \<longrightarrow> arch (rf M k) ! r = arch_reg k r s)"

text \<open>\<open>N\<close> is the number of physical registers of a file, \<open>F\<close> its renamings in flight.\<close>

definition ren_ok :: "(rfile \<Rightarrow> nat) \<Rightarrow> (rfile \<Rightarrow> renaming list) \<Rightarrow> sim_state \<Rightarrow> bool" where
  "ren_ok N F M \<longleftrightarrow> (\<forall>k. renaming_inv (arch_count k) (N k) (F k) (rf M k))"

lemma ren_okD: "ren_ok N F M \<Longrightarrow> renaming_inv (arch_count k) (N k) (F k) (rf M k)"
  by (simp add: ren_ok_def)

lemma mapped_ok: "ren_ok N F M \<Longrightarrow> d < arch_count k \<Longrightarrow> mapped d (rf M k) = Inr (rat (rf M k) ! d)"
  using renaming_invD(2)[OF ren_okD] by (simp add: mapped_def nth_res_def)

lemma set_src_ok:
  "ren_ok N F M \<Longrightarrow> d < arch_count k \<Longrightarrow> set_src i k d M u = Inr (u\<lparr>src := (src u)(i := rat (rf M k) ! d)\<rparr>)"
  by (simp add: set_src_def mapped_ok)

lemma rat_bounds:
  assumes "ren_ok N F M" "r < arch_count k"
  shows "0 \<le> rat (rf M k) ! r \<and> rat (rf M k) ! r < int (N k) \<and>
    rat (rf M k) ! r \<in> set (rat_retire (rf M k)) \<union> set (new_ids (F k))"
proof -
  note inv = ren_okD[OF assms(1), of k]
  have "rat (rf M k) ! r \<in> set (rat (rf M k))" using renaming_invD(2)[OF inv] assms(2) by simp
  then have "rat (rf M k) ! r \<in> set (rat_retire (rf M k)) \<union> set (new_ids (F k))"
    using renamed_subset[OF renaming_invD(7)[OF inv]] by blast
  then show ?thesis using renaming_inv_bounds[OF inv] by blast
qed

lemma val_mapped: "ren_ok N F M \<Longrightarrow> r < arch_count k \<Longrightarrow> val k (rat (rf M k) ! r) M = Inr (reg_val k r M)"
  using rat_bounds[of N F M r k] renaming_invD(3)[OF ren_okD, of N F M k]
  by (simp add: val_def at_idx_def nth_res_def reg_val_def nat_less_iff)

section \<open>Claims\<close>

fun remap :: "renaming list \<Rightarrow> int list \<Rightarrow> int list" where
  "remap [] m = m"
| "remap ((d, prev, nid) # fs) m = remap fs (m[d := nid])"

definition one :: "rfile \<Rightarrow> renaming \<Rightarrow> rfile \<Rightarrow> renaming list" where
  "one k x = (\<lambda>j. if j = k then [x] else [])"

text \<open>
  \<open>grows N F G M M1\<close>: the renamings \<open>G\<close> are added to those in flight, \<open>F\<close>; the new registers are
  not valid, and nothing else that an operation computes with has changed.
\<close>

definition grows :: "(rfile \<Rightarrow> nat) \<Rightarrow> (rfile \<Rightarrow> renaming list) \<Rightarrow> (rfile \<Rightarrow> renaming list) \<Rightarrow> sim_state \<Rightarrow> sim_state \<Rightarrow> bool" where
  "grows N F G M M1 \<longleftrightarrow> ren_ok N (\<lambda>k. F k @ G k) M1 \<and> smem M1 = smem M \<and> curr M1 = curr M \<and> l1cache M1 = l1cache M \<and>
     (\<forall>k. phys (rf M1 k) = phys (rf M k) \<and> rat (rf M1 k) = remap (G k) (rat (rf M k)) \<and>
        rat_retire (rf M1 k) = rat_retire (rf M k) \<and> arch (rf M1 k) = arch (rf M k) \<and>
        arch_last_pc (rf M1 k) = arch_last_pc (rf M k) \<and>
        used (valid (rf M1 k)) = used (valid (rf M k)) - set (new_ids (G k)) \<and>
        used (freevec (rf M1 k)) = used (freevec (rf M k)) \<union> set (new_ids (G k)))"

lemma remap_append [simp]: "remap (fs @ gs) m = remap gs (remap fs m)"
  by (induction fs m rule: remap.induct) auto

lemma grows_refl: "ren_ok N F M \<Longrightarrow> grows N F (\<lambda>_. []) M M"
  by (simp add: grows_def)

lemma grows_trans:
  "grows N F G M M1 \<Longrightarrow> grows N (\<lambda>k. F k @ G k) H M1 M2 \<Longrightarrow> grows N F (\<lambda>k. G k @ H k) M M2"
  by (auto simp: grows_def)

lemma grows_frame:
  "grows N F G M M1 \<Longrightarrow> rf M2 = rf M1 \<Longrightarrow> smem M2 = smem M1 \<Longrightarrow> curr M2 = curr M1 \<Longrightarrow> l1cache M2 = l1cache M1 \<Longrightarrow>
    grows N F G M M2"
  by (simp add: grows_def ren_ok_def)

lemma grows_frame_left:
  "grows N F G M0 M1 \<Longrightarrow> rf M0 = rf M \<Longrightarrow> smem M0 = smem M \<Longrightarrow> curr M0 = curr M \<Longrightarrow> l1cache M0 = l1cache M \<Longrightarrow>
    grows N F G M M1"
  by (simp add: grows_def)

lemma claim_step:
  assumes ok: "ren_ok N F M" and d: "d < arch_count k" and nid: "find_first_unset (freevec (rf M k)) = nid" "nid \<noteq> -1"
  obtains M1 where "on_rf k (claim d nid) M = Inr M1" "grows N F (one k (d, rat (rf M k) ! d, nid)) M M1"
proof -
  obtain r where r: "claim d nid (rf M k) = Inr r" "renaming_inv (arch_count k) (N k) (F k @ [(d, rat (rf M k) ! d, nid)]) r"
    "phys r = phys (rf M k)" "rat r = (rat (rf M k))[d := nid]" "used (valid r) = used (valid (rf M k)) - {nid}"
    "used (freevec r) = insert nid (used (freevec (rf M k)))" "rat_retire r = rat_retire (rf M k)" "arch r = arch (rf M k)"
    "arch_last_pc r = arch_last_pc (rf M k)"
    using claim_ok[OF ren_okD[OF ok] d nid] by metis
  show thesis
    by (rule that[of "M\<lparr>rf := (rf M)(k := r)\<rparr>"])
      (use r ok in \<open>auto simp: on_rf_def grows_def ren_ok_def one_def\<close>)
qed

lemma rename_reg_ok:
  assumes "ren_ok N F M" "d < arch_count k"
  shows "(\<exists>u'. rename_reg k d u M = Inr (u', M, False)) \<or>
     (\<exists>nid M1. rename_reg k d u M = Inr (u\<lparr>prev_prf_idx := rat (rf M k) ! d, prf_idx := nid\<rparr>, M1, True) \<and>
       grows N F (one k (d, rat (rf M k) ! d, nid)) M M1)"
proof (cases "find_first_unset (freevec (rf M k)) = -1")
  case True
  then show ?thesis using mapped_ok[OF assms] by (simp add: rename_reg_def Let_def)
next
  case False
  obtain M1 where "on_rf k (claim d (find_first_unset (freevec (rf M k)))) M = Inr M1"
    "grows N F (one k (d, rat (rf M k) ! d, find_first_unset (freevec (rf M k)))) M M1"
    using assms refl False by (rule claim_step)
  then show ?thesis using mapped_ok[OF assms] False by (auto simp: rename_reg_def Let_def)
qed

lemma rename_late_ok:
  assumes "ren_ok N F M" "d < arch_count k"
  shows "(\<exists>u'. rename_late k d u M = Inr (u', M, False)) \<or>
     (\<exists>nid M1. rename_late k d u M = Inr (u\<lparr>prev_prf_idx := rat (rf M k) ! d, prf_idx := nid\<rparr>, M1, True) \<and>
       grows N F (one k (d, rat (rf M k) ! d, nid)) M M1)"
proof (cases "find_first_unset (freevec (rf M k)) = -1")
  case True
  then show ?thesis by (simp add: rename_late_def Let_def)
next
  case False
  obtain M1 where "on_rf k (claim d (find_first_unset (freevec (rf M k)))) M = Inr M1"
    "grows N F (one k (d, rat (rf M k) ! d, find_first_unset (freevec (rf M k)))) M M1"
    using assms refl False by (rule claim_step)
  then show ?thesis using mapped_ok[OF assms] False
    by (intro disjI2 exI[of _ "find_first_unset (freevec (rf M k))"] exI[of _ M1]) (simp add: rename_late_def Let_def)
qed

section \<open>Two registers at once\<close>

lemma num_free_ok:
  assumes "ren_ok N F M" "64 dvd N k"
  shows "num_free_regs k M = Inr (N k - card (used (freevec (rf M k))))"
proof -
  have wf: "wf_vec (N k) (freevec (rf M k))" by (rule renaming_invD(4)[OF ren_okD[OF assms(1)]])
  then have "num_free (freevec (rf M k)) = Inr (N k - card (used_bits (freevec (rf M k))))"
    using num_free_wf[of "freevec (rf M k)"] assms(2) by (simp add: wf_vec_def)
  then show ?thesis by (simp add: num_free_regs_def used_def card_image)
qed

lemma claim_next_ok:
  assumes ok: "ren_ok N F M" and d: "d < arch_count k" and free: "card (used (freevec (rf M k))) < N k"
  obtains nid M1 where "claim_next k d M = Inr (nid, M1)" "grows N F (one k (d, rat (rf M k) ! d, nid)) M M1"
    "card (used (freevec (rf M1 k))) \<le> card (used (freevec (rf M k))) + 1"
proof -
  have wf: "wf_vec (N k) (freevec (rf M k))" by (rule renaming_invD(4)[OF ren_okD[OF ok]])
  have "find_first_unset (freevec (rf M k)) \<noteq> -1" using find_free[OF wf] free by auto
  then obtain M1 where M1: "on_rf k (claim d (find_first_unset (freevec (rf M k)))) M = Inr M1"
    "grows N F (one k (d, rat (rf M k) ! d, find_first_unset (freevec (rf M k)))) M M1"
    using claim_step[OF ok d refl] by blast
  have "finite (used (freevec (rf M k)))" using wf by (simp add: used_def used_bits_def)
  with M1 show thesis
    by (intro that[of "find_first_unset (freevec (rf M k))" M1]) (auto simp: claim_next_def Let_def grows_def one_def card_insert_if)
qed

text \<open>A destination of one register, or of a register and the one after it.\<close>

definition pair_of :: "bool \<Rightarrow> nat \<Rightarrow> int \<Rightarrow> int \<Rightarrow> int \<Rightarrow> int \<Rightarrow> rfile \<Rightarrow> renaming list" where
  "pair_of two d p0 i0 p1 i1 = (\<lambda>k. if k = CPR1 then (d, p0, i0) # (if two then [(d + 1, p1, i1)] else []) else [])"

lemma claim_pair_ok:
  assumes ok: "ren_ok N F M" and d: "d < 32" "two \<Longrightarrow> d + 1 < 32"
    and free: "(if two then 2 else 1) \<le> N CPR1 - card (used (freevec (rf M CPR1)))"
  obtains u' i0 i1 M1 where "claim_pair two d u M = Inr (u', M1, True)"
    "u' = (if two then u\<lparr>prf_idx := i0, aux_prf_idx := i1\<rparr> else u\<lparr>prf_idx := i0\<rparr>)"
    "grows N F (pair_of two d (rat (rf M CPR1) ! d) i0 (rat (rf M CPR1) ! (d + 1)) i1) M M1"
proof -
  have d0: "d < arch_count CPR1" "card (used (freevec (rf M CPR1))) < N CPR1" using d(1) free by (auto split: if_splits)
  obtain i0 M1 where M1: "claim_next CPR1 d M = Inr (i0, M1)" "grows N F (one CPR1 (d, rat (rf M CPR1) ! d, i0)) M M1"
    "card (used (freevec (rf M1 CPR1))) \<le> card (used (freevec (rf M CPR1))) + 1"
    using ok d0 by (rule claim_next_ok)
  show thesis
  proof (cases two)
    case False
    then show thesis using M1 by (intro that[of "u\<lparr>prf_idx := i0\<rparr>" M1 _ i0])
        (simp_all add: claim_pair_def pair_of_def one_def cong: if_cong)
  next
    case True
    have ok1: "ren_ok N (\<lambda>k. F k @ one CPR1 (d, rat (rf M CPR1) ! d, i0) k) M1" using M1(2) by (simp add: grows_def)
    have d1: "d + 1 < arch_count CPR1" "card (used (freevec (rf M1 CPR1))) < N CPR1" using d(2) free M1(3) True by simp_all
    obtain i1 M2 where M2: "claim_next CPR1 (d + 1) M1 = Inr (i1, M2)"
      "grows N (\<lambda>k. F k @ one CPR1 (d, rat (rf M CPR1) ! d, i0) k) (one CPR1 (d + 1, rat (rf M1 CPR1) ! (d + 1), i1)) M1 M2"
      using ok1 d1 by (rule claim_next_ok)
    have "rat (rf M1 CPR1) ! (d + 1) = rat (rf M CPR1) ! (d + 1)" using M1(2) by (simp add: grows_def one_def)
    with grows_trans[OF M1(2) M2(2)] True
    have "grows N F (pair_of two d (rat (rf M CPR1) ! d) i0 (rat (rf M CPR1) ! (d + 1)) i1) M M2"
      by (simp add: pair_of_def one_def if_distrib cong: if_cong)
    then show thesis using M1(1) M2(1) True
      by (intro that[of "u\<lparr>prf_idx := i0, aux_prf_idx := i1\<rparr>" M2 i1 i0]) (simp_all add: claim_pair_def)
  qed
qed

end
