(* ===== verification/Op_Allocate.thy ===== *)
theory Op_Allocate
  imports Op_Rename
begin

text \<open>
  Allocation of an operation, for every class: the architectural registers each class reads and
  writes, and the proof that \<open>allocate\<close> renames exactly the destinations and notes the mapping the
  sources had before, or leaves the machine as it is.
\<close>

section \<open>Sources and destinations\<close>

text \<open>A source is its number in the descriptor, its file and its register.\<close>

definition fp_srcs :: "bool \<Rightarrow> nat \<Rightarrow> nat \<Rightarrow> nat \<Rightarrow> (nat \<times> rfile \<times> nat) list" where
  "fp_srcs two i j d = (i, CPR1, d) # (if two then [(j, CPR1, d + 1)] else [])"

fun op_srcs :: "mips_op \<Rightarrow> u32 \<Rightarrow> (nat \<times> rfile \<times> nat) list" where
  "op_srcs Mtc0 w = [(0, GPR, rt_of w)]"
| "op_srcs Mtc1 w = [(0, GPR, rt_of w)]"
| "op_srcs Mfc1 w = [(0, CPR1, rd_of w)]"
| "op_srcs (Lo_hi_move t) w = [(0, GPR, lo_hi_src0 t w)]"
| "op_srcs (Rtype_alu t) w = [(0, GPR, rt_of w), (1, GPR, rs_of w)] @ (if t \<in> {Movn, Movz} then [(2, GPR, rd_of w)] else [])"
| "op_srcs (Rtype_const_shift t) w = [(0, GPR, rt_of w)]"
| "op_srcs Itype_alu w = [(0, GPR, rs_of w)]"
| "op_srcs (Jump t) w = (if t \<in> {Jr, Jalr} then [(0, GPR, rs_of w)] else [])"
| "op_srcs (Branch t) w = (if is_fp_branch t then [(0, FCR1, 2)] else (0, GPR, rs_of w) # (if branch_two t then [(1, GPR, rt_of w)] else []))"
| "op_srcs (Load_op t) w = (0, GPR, rs_of w) # (if load_src1 t then [(1, GPR, rt_of w)] else [])"
| "op_srcs (Store_op t) w = [(0, GPR, rt_of w), (1, GPR, rs_of w)]"
| "op_srcs (Fp_load t) w = [(0, GPR, rs_of w)]"
| "op_srcs (Fp_store t) w = [(0, CPR1, rt_of w), (1, GPR, rs_of w)] @ (if t = Sdc1 then [(2, CPR1, rt_of w + 1)] else [])"
| "op_srcs Mul_op w = [(0, GPR, rs_of w), (1, GPR, rt_of w)]"
| "op_srcs Clz_op w = [(0, GPR, rs_of w)]"
| "op_srcs (Mult_div t) w = [(0, GPR, rs_of w), (1, GPR, rt_of w)] @ (if uses_acc t then [(2, GPR, 32), (3, GPR, 33)] else [])"
| "op_srcs (Se_op t) w = [(0, GPR, rt_of w)]"
| "op_srcs Ext_op w = [(0, GPR, rs_of w)]"
| "op_srcs Ins_op w = [(0, GPR, rs_of w), (1, GPR, rt_of w)]"
| "op_srcs Movci_op w = [(0, GPR, rd_of w), (1, GPR, rs_of w), (2, FCR1, 2)]"
| "op_srcs Fmovc_op w = fp_srcs (fmt_of w = FMT_D) 0 2 (fs_of w) @ fp_srcs (fmt_of w = FMT_D) 1 3 (fd_of w) @ [(4, FCR1, 2)]"
| "op_srcs Fmovn_op w = fp_srcs (fmt_of w = FMT_D) 0 2 (fs_of w) @ fp_srcs (fmt_of w = FMT_D) 1 3 (fd_of w) @ [(4, GPR, rt_of w)]"
| "op_srcs Fmovz_op w = fp_srcs (fmt_of w = FMT_D) 0 2 (fs_of w) @ fp_srcs (fmt_of w = FMT_D) 1 3 (fd_of w) @ [(4, GPR, rt_of w)]"
| "op_srcs Fp_cmp w = fp_srcs (fmt_of w = FMT_D) 0 2 (fs_of w) @ fp_srcs (fmt_of w = FMT_D) 1 3 (ft_of w) @ [(4, FCR1, 2)]"
| "op_srcs (Fp_arith f) w = (if fmt_of w = FMT_D then fp_srcs True 0 1 (fs_of w) @ (if arith_two_srcs f then fp_srcs True 2 3 (ft_of w) else [])
     else (0, CPR1, fs_of w) # (if arith_two_srcs f then [(1, CPR1, ft_of w)] else []))"
| "op_srcs (Fp_fma b f) w = (if f = F64 then fp_srcs True 0 1 (fs_of w) @ fp_srcs True 2 3 (ft_of w) @ fp_srcs True 4 5 (rs_of w)
     else [(0, CPR1, fs_of w), (1, CPR1, ft_of w), (2, CPR1, rs_of w)])"
| "op_srcs (Cvts_truncw t) w = fp_srcs (fmt_of w = FMT_D) 0 1 (fs_of w)"
| "op_srcs Cvtd_op w = [(0, CPR1, fs_of w)]"
| "op_srcs Monitor_op w = [(0, GPR, 4), (1, GPR, 5), (2, GPR, 6), (3, GPR, 31)]"
| "op_srcs _ w = []"

definition fp_dests :: "bool \<Rightarrow> nat \<Rightarrow> (rfile \<times> nat) list" where
  "fp_dests two d = (CPR1, d) # (if two then [(CPR1, d + 1)] else [])"

fun op_dests :: "mips_op \<Rightarrow> u32 \<Rightarrow> (rfile \<times> nat) list" where
  "op_dests Mtc0 w = [(CPR0, rd_of w)]"
| "op_dests Mtc1 w = [(CPR1, rd_of w)]"
| "op_dests Mfc1 w = [(GPR, rt_of w)]"
| "op_dests (Lo_hi_move t) w = [(GPR, lo_hi_dest t w)]"
| "op_dests (Rtype_alu t) w = (if 0 < rtype_dest t w then [(GPR, rd_of w)] else [])"
| "op_dests (Rtype_const_shift t) w = (if 0 < rtype_dest t w then [(GPR, rd_of w)] else [])"
| "op_dests Itype_alu w = (if 0 < rt_of w then [(GPR, rt_of w)] else [])"
| "op_dests Itype_lui w = (if 0 < rt_of w then [(GPR, rt_of w)] else [])"
| "op_dests (Jump t) w = (if jump_dest t \<noteq> -1 then [(GPR, 31)] else [])"
| "op_dests (Load_op t) w = [(GPR, rt_of w)]"
| "op_dests (Fp_load t) w = fp_dests (is_double_load t) (rt_of w)"
| "op_dests Mul_op w = [(GPR, rd_of w)]"
| "op_dests Clz_op w = [(GPR, rd_of w)]"
| "op_dests (Mult_div t) w = [(GPR, 32), (GPR, 33)]"
| "op_dests (Se_op t) w = [(GPR, rd_of w)]"
| "op_dests Ext_op w = [(GPR, rt_of w)]"
| "op_dests Ins_op w = [(GPR, rt_of w)]"
| "op_dests Movci_op w = [(GPR, rd_of w)]"
| "op_dests Fmovc_op w = fp_dests (fmt_of w = FMT_D) (fd_of w)"
| "op_dests Fmovn_op w = fp_dests (fmt_of w = FMT_D) (fd_of w)"
| "op_dests Fmovz_op w = fp_dests (fmt_of w = FMT_D) (fd_of w)"
| "op_dests Fp_cmp w = [(FCR1, 2)]"
| "op_dests (Fp_arith f) w = fp_dests (fmt_of w = FMT_D) (fd_of w)"
| "op_dests (Fp_fma b f) w = fp_dests (f = F64) (fd_of w)"
| "op_dests (Cvts_truncw t) w = [(CPR1, fd_of w)]"
| "op_dests Cvtd_op w = fp_dests True (fd_of w)"
| "op_dests Monitor_op w = [(GPR, 2)]"
| "op_dests _ w = []"

text \<open>The old and the new physical registers of the destinations, from the descriptor.\<close>

definition op_ids :: "mips_op \<Rightarrow> mips_meta_op \<Rightarrow> (int \<times> int) list" where
  "op_ids op u = (case op of Mult_div t \<Rightarrow> [(prev_lo_prf_idx u, lo_prf_idx u), (prev_hi_prf_idx u, hi_prf_idx u)]
     | _ \<Rightarrow> [(prev_prf_idx u, prf_idx u), (aux_prev_prf_idx u, aux_prf_idx u)])"

definition op_renamings :: "mips_op \<Rightarrow> mips_meta_op \<Rightarrow> rfile \<Rightarrow> renaming list" where
  "op_renamings op u k = map (\<lambda>(kd, pn). (snd kd, pn)) (filter (\<lambda>(kd, pn). fst kd = k) (zip (op_dests op (op_inst u)) (op_ids op u)))"

text \<open>
  A double in register 31 reads or writes past the tables, and so does a single load to it, which
  reads the mapping of the next register.
\<close>

definition regs_ok :: "mips_op \<Rightarrow> u32 \<Rightarrow> bool" where
  "regs_ok op w \<longleftrightarrow> list_all (\<lambda>(i, k, d). d < arch_count k) (op_srcs op w) \<and> list_all (\<lambda>(k, d). d < arch_count k) (op_dests op w) \<and>
     (case op of Fp_load t \<Rightarrow> rt_of w \<noteq> 31 | _ \<Rightarrow> True)"

section \<open>The load and store tables\<close>

definition tables_ok :: "sim_state \<Rightarrow> bool" where
  "tables_ok M \<longleftrightarrow> wf_vec (length (load_tbl M)) (load_tbl_freevec M) \<and> wf_vec (length (store_tbl M)) (store_tbl_freevec M)"

lemma put_idx_ok: "0 \<le> i \<Longrightarrow> i < int (length xs) \<Longrightarrow> put_idx xs i v = Inr (xs[nat i := v])"
  by (simp add: put_idx_def put_res_def nat_less_iff)

lemma enter_load_ok:
  assumes "tables_ok M" "find_first_unset (load_tbl_freevec M) \<noteq> -1"
  obtains t v where "enter_load a (find_first_unset (load_tbl_freevec M)) M = Inr (M\<lparr>load_tbl := t, load_tbl_freevec := v\<rparr>)"
    "tables_ok (M\<lparr>load_tbl := t, load_tbl_freevec := v\<rparr>)"
proof -
  let ?i = "find_first_unset (load_tbl_freevec M)"
  have wf: "wf_vec (length (load_tbl M)) (load_tbl_freevec M)" using assms(1) by (simp add: tables_ok_def)
  have i: "0 \<le> ?i" "?i < int (length (load_tbl M))" using find_free[OF wf] assms(2) by auto
  obtain v where v: "bv_set (load_tbl_freevec M) ?i = Inr v" "wf_vec (length (load_tbl M)) v"
    using wf i by (rule bv_set_ok)
  show thesis
    by (rule that[of v "(load_tbl M)[nat ?i := Some a]"])
      (use v i assms(1) in \<open>simp_all add: enter_load_def put_idx_ok tables_ok_def\<close>)
qed

lemma enter_store_ok:
  assumes "tables_ok M" "find_first_unset (store_tbl_freevec M) \<noteq> -1"
  obtains t v where "enter_store a (find_first_unset (store_tbl_freevec M)) M = Inr (M\<lparr>store_tbl := t, store_tbl_freevec := v\<rparr>)"
    "tables_ok (M\<lparr>store_tbl := t, store_tbl_freevec := v\<rparr>)"
proof -
  let ?i = "find_first_unset (store_tbl_freevec M)"
  have wf: "wf_vec (length (store_tbl M)) (store_tbl_freevec M)" using assms(1) by (simp add: tables_ok_def)
  have i: "0 \<le> ?i" "?i < int (length (store_tbl M))" using find_free[OF wf] assms(2) by auto
  obtain v where v: "bv_set (store_tbl_freevec M) ?i = Inr v" "wf_vec (length (store_tbl M)) v"
    using wf i by (rule bv_set_ok)
  show thesis
    by (rule that[of v "(store_tbl M)[nat ?i := Some a]"])
      (use v i assms(1) in \<open>simp_all add: enter_store_def put_idx_ok tables_ok_def\<close>)
qed

section \<open>What allocation does\<close>

definition kept :: "mips_meta_op \<Rightarrow> mips_meta_op \<Rightarrow> bool" where
  "kept u u' \<longleftrightarrow> op_inst u' = op_inst u \<and> op_pc u' = op_pc u \<and> fetch_npc u' = fetch_npc u \<and> predict_taken u' = predict_taken u \<and>
     br_target u' = br_target u \<and> exc u' = exc u \<and> is_complete u' = is_complete u \<and> load_exception u' = load_exception u"

definition allocates :: "(rfile \<Rightarrow> nat) \<Rightarrow> (rfile \<Rightarrow> renaming list) \<Rightarrow> mips_op \<Rightarrow> sim_state \<Rightarrow> mips_meta_op \<Rightarrow>
    (mips_meta_op \<times> sim_state \<times> bool) res \<Rightarrow> bool" where
  "allocates N F op M u x \<longleftrightarrow> (\<exists>u' M' ok. x = Inr (u', M', ok) \<and>
     (if ok then grows N F (op_renamings op u') M M' \<and> kept u u' \<and> tables_ok M' \<and>
        list_all (\<lambda>(i, k, d). src u' i = rat (rf M k) ! d) (op_srcs op (op_inst u))
      else M' = M))"

lemma allocates_fail [simp]: "allocates N F op M u (Inr (u', M, False))"
  unfolding allocates_def by (rule exI[of _ u'], rule exI[of _ M], rule exI[of _ False]) simp

lemma allocates_done:
  "allocates N F op M u (Inr (u', M', True)) \<longleftrightarrow> grows N F (op_renamings op u') M M' \<and> kept u u' \<and> tables_ok M' \<and>
     list_all (\<lambda>(i, k, d). src u' i = rat (rf M k) ! d) (op_srcs op (op_inst u))"
  unfolding allocates_def by (metis Inr_inject Pair_inject)

lemma allocates_rename:
  assumes ok: "ren_ok N F M" "tables_ok M" and v: "kept u v"
    and d: "op_dests op (op_inst u) = [(k, d)]" "\<And>t. op \<noteq> Mult_div t" "d < arch_count k"
    and s: "list_all (\<lambda>(i, k, d). src v i = rat (rf M k) ! d) (op_srcs op (op_inst u))"
  shows "allocates N F op M u (rename_reg k d v M)" "allocates N F op M u (rename_late k d v M)"
proof -
  have *: "allocates N F op M u (Inr (v\<lparr>prev_prf_idx := p, prf_idx := nid\<rparr>, M1, True))"
    if g: "grows N F (one k (d, p, nid)) M M1" and tab: "tables_ok M1" for p nid M1
  proof -
    have "op_ids op (v\<lparr>prev_prf_idx := p, prf_idx := nid\<rparr>) = [(p, nid), (aux_prev_prf_idx v, aux_prf_idx v)]"
      using d(2) by (cases op) (auto simp: op_ids_def)
    then have "op_renamings op (v\<lparr>prev_prf_idx := p, prf_idx := nid\<rparr>) = one k (d, p, nid)"
      using d(1) v by (auto simp: op_renamings_def one_def kept_def)
    then show ?thesis using g tab v s by (simp add: allocates_done kept_def)
  qed
  have tab: "tables_ok M1" if "rename_reg k d v M = Inr (u', M1, True) \<or> rename_late k d v M = Inr (u', M1, True)" for u' M1
  proof -
    have "\<exists>r. M1 = M\<lparr>rf := r\<rparr>"
      using that by (auto simp: rename_reg_def rename_late_def on_rf_def Let_def rbind_Inr_iff split: if_splits)
    then show ?thesis using ok(2) by (auto simp: tables_ok_def)
  qed
  show "allocates N F op M u (rename_reg k d v M)"
    using rename_reg_ok[OF ok(1) d(3), of v] tab * by fastforce
  show "allocates N F op M u (rename_late k d v M)"
    using rename_late_ok[OF ok(1) d(3), of v] tab * by fastforce
qed

lemma allocates_none:
  assumes "ren_ok N F M" "tables_ok M" "kept u v" "op_dests op (op_inst u) = []"
    "list_all (\<lambda>(i, k, d). src v i = rat (rf M k) ! d) (op_srcs op (op_inst u))"
    "tables_ok M1" "rf M1 = rf M" "smem M1 = smem M" "curr M1 = curr M" "l1cache M1 = l1cache M"
  shows "allocates N F op M u (Inr (v, M1, True))"
proof -
  have "grows N F (\<lambda>_. []) M M1" by (rule grows_frame[OF grows_refl[OF assms(1)]]) (use assms in simp_all)
  moreover have "op_renamings op v = (\<lambda>_. [])" using assms(3,4) by (auto simp: op_renamings_def kept_def)
  ultimately show ?thesis using assms by (simp add: allocates_done)
qed

section \<open>Classes of one destination\<close>

lemmas reg_bounds = reg_less[THEN less_trans, of 34] reg_less

lemma fp_reg_less: "fd_of w < 32" "fs_of w < 32" "ft_of w < 32"
  using fld_less[of w _ 5] by (simp_all add: fd_of_def fs_of_def ft_of_def)

lemma reg_less34: "rs_of w < 34" "rt_of w < 34" "rd_of w < 34" "lo_hi_src0 t w < 34" "lo_hi_dest t w < 34"
  using reg_less[of w] by (auto simp: lo_hi_src0_def lo_hi_dest_def split: lo_hi_type.splits)

named_theorems alloc_simps \<open>what a class reads and writes\<close>

lemmas alloc_basic [alloc_simps] = kept_def reg_less34 reg_less fp_reg_less

lemma mtc_allocate_ok:
  assumes "ren_ok N F M" "tables_ok M"
  shows "allocates N F Mtc0 M u (mtc0_allocate u M)" "allocates N F Mtc1 M u (mtc1_allocate u M)"
    "allocates N F Mfc1 M u (mfc1_allocate u M)" "allocates N F (Lo_hi_move t) M u (lo_hi_allocate t u M)"
    "allocates N F Mul_op M u (mul_allocate u M)" "allocates N F Clz_op M u (clz_allocate u M)"
    "allocates N F (Se_op st) M u (se_allocate u M)" "allocates N F Ext_op M u (ext_allocate u M)"
    "allocates N F Ins_op M u (ins_allocate u M)" "allocates N F Movci_op M u (movci_allocate u M)"
  using assms
  by (simp_all add: mtc0_allocate_def mtc1_allocate_def mfc1_allocate_def lo_hi_allocate_def mul_allocate_def clz_allocate_def
      se_allocate_def ext_allocate_def ins_allocate_def movci_allocate_def set_src_ok allocates_rename alloc_simps)

lemma rtype_allocate_ok:
  assumes "ren_ok N F M" "tables_ok M"
  shows "allocates N F (Rtype_alu t) M u (rtype_allocate True t u M)"
    "allocates N F (Rtype_const_shift t') M u (rtype_allocate False t' u M)"
    "allocates N F Itype_alu M u (itype_allocate True u M)" "allocates N F Itype_lui M u (itype_allocate False u M)"
  using assms
  by (auto simp: rtype_allocate_def itype_allocate_def Let_def set_src_ok rtype_src2_def rtype_dest_def alloc_simps
      intro!: allocates_rename allocates_none)

lemma control_allocate_ok:
  assumes "ren_ok N F M" "tables_ok M"
  shows "allocates N F (Jump jt) M u (jump_allocate jt u M)" "allocates N F (Branch bt) M u (branch_allocate bt u M)"
    "allocates N F Break_op M u (break_allocate u M)" "allocates N F Sync_op M u (sync_allocate u M)"
    "allocates N F Nop M u (Inr (u, M, True))"
  using assms
  by (auto simp: jump_allocate_def branch_allocate_def break_allocate_def sync_allocate_def jump_src0_def jump_dest_def set_src_ok
      tables_ok_def alloc_simps intro!: allocates_rename allocates_none)

lemma cmp_allocate_ok:
  assumes "ren_ok N F M" "tables_ok M" "regs_ok Fp_cmp (op_inst u)"
  shows "allocates N F Fp_cmp M u (cmp_allocate u M)"
  using assms
  by (auto simp: cmp_allocate_def Let_def set_pair_def set_src_ok is_d_def regs_ok_def fp_srcs_def alloc_simps intro!: allocates_rename)

lemma cvts_allocate_ok:
  assumes "ren_ok N F M" "tables_ok M" "regs_ok (Cvts_truncw t) (op_inst u)"
  shows "allocates N F (Cvts_truncw t) M u (cvts_allocate u M)"
  using assms
  by (auto simp: cvts_allocate_def Let_def set_pair_def set_src_ok is_d_def regs_ok_def fp_srcs_def alloc_simps intro!: allocates_rename)

section \<open>Classes of two destinations\<close>

lemma claim_pair_tables: "claim_pair two d v M = Inr (u', M1, ok) \<Longrightarrow> tables_ok M \<Longrightarrow> tables_ok M1"
  by (cases two) (auto simp: claim_pair_def claim_next_def on_rf_def Let_def rbind_Inr_iff tables_ok_def split: prod.splits)

lemma allocates_pair:
  assumes ok: "ren_ok N F M" "tables_ok M" and v: "kept u v"
    and d: "op_dests op (op_inst u) = fp_dests two d" "\<And>t. op \<noteq> Mult_div t" "d < 32" "two \<Longrightarrow> d + 1 < 32"
    and free: "(if two then 2 else 1) \<le> N CPR1 - card (used (freevec (rf M CPR1)))"
    and prev: "prev_prf_idx v = rat (rf M CPR1) ! d" "two \<Longrightarrow> aux_prev_prf_idx v = rat (rf M CPR1) ! (d + 1)"
    and s: "list_all (\<lambda>(i, k, d). src v i = rat (rf M k) ! d) (op_srcs op (op_inst u))"
  shows "allocates N F op M u (claim_pair two d v M)"
proof -
  obtain u' i0 i1 M1 where c: "claim_pair two d v M = Inr (u', M1, True)"
    "u' = (if two then v\<lparr>prf_idx := i0, aux_prf_idx := i1\<rparr> else v\<lparr>prf_idx := i0\<rparr>)"
    "grows N F (pair_of two d (rat (rf M CPR1) ! d) i0 (rat (rf M CPR1) ! (d + 1)) i1) M M1"
    using ok(1) d(3,4) free by (rule claim_pair_ok)
  have "op_ids op u' = [(prev_prf_idx u', prf_idx u'), (aux_prev_prf_idx u', aux_prf_idx u')]"
    using d(2) by (cases op) (auto simp: op_ids_def)
  then have "op_renamings op u' = pair_of two d (rat (rf M CPR1) ! d) i0 (rat (rf M CPR1) ! (d + 1)) i1"
    using d(1) c(2) v prev by (auto simp: op_renamings_def pair_of_def fp_dests_def kept_def)
  then show ?thesis
    using c v s claim_pair_tables[OF c(1) ok(2)] by (auto simp: allocates_done kept_def)
qed

lemma if_free_ok:
  assumes "ren_ok N F M" "64 dvd N CPR1"
    and "(if two then 2 else 1) \<le> N CPR1 - card (used (freevec (rf M CPR1))) \<Longrightarrow> allocates N F op M u x"
  shows "allocates N F op M u (if_free two u M x)"
  using assms by (auto simp: if_free_def num_free_ok)

lemma note_prev_ok:
  assumes "ren_ok N F M" "d < 32" "two \<Longrightarrow> d + 1 < 32"
  shows "note_prev two d M u = Inr (if two then u\<lparr>prev_prf_idx := rat (rf M CPR1) ! d, aux_prev_prf_idx := rat (rf M CPR1) ! (d + 1)\<rparr>
     else u\<lparr>prev_prf_idx := rat (rf M CPR1) ! d\<rparr>)"
  using assms by (simp add: note_prev_def mapped_ok)

lemma cond_move_allocate_ok:
  assumes ok: "ren_ok N F M" "tables_ok M" "64 dvd N CPR1" "regs_ok op (op_inst u)"
    and "op = Fmovc_op \<and> ck = FCR1 \<and> cd = 2 \<or> op \<in> {Fmovn_op, Fmovz_op} \<and> ck = GPR \<and> cd = rt_of (op_inst u)"
  shows "allocates N F op M u (cond_move_allocate ck cd u M)"
proof (cases "fmt_of (op_inst u) = FMT_D")
  case True
  then show ?thesis unfolding cond_move_allocate_def Let_def is_d_def using assms
    by (auto simp: set_pair_def set_src_ok note_prev_ok regs_ok_def fp_srcs_def fp_dests_def alloc_simps
        intro!: if_free_ok[OF ok(1,3)] allocates_pair)
next
  case False
  then show ?thesis unfolding cond_move_allocate_def Let_def is_d_def using assms
    by (auto simp: set_pair_def set_src_ok note_prev_ok regs_ok_def fp_srcs_def fp_dests_def alloc_simps
        intro!: if_free_ok[OF ok(1,3)] allocates_pair)
qed

lemma arith_allocate_ok:
  assumes ok: "ren_ok N F M" "tables_ok M" "64 dvd N CPR1" "regs_ok (Fp_arith t) (op_inst u)"
  shows "allocates N F (Fp_arith t) M u (arith_allocate t u M)"
proof (cases "fmt_of (op_inst u) = FMT_D")
  case True
  then show ?thesis unfolding arith_allocate_def arith_allocate_double_def Let_def is_d_def using assms
    by (auto simp: set_pair_def set_src_ok note_prev_ok regs_ok_def fp_srcs_def fp_dests_def alloc_simps
        intro!: if_free_ok[OF ok(1,3)] allocates_pair)
next
  case False
  then show ?thesis unfolding arith_allocate_def arith_allocate_float_def Let_def is_d_def using assms
    by (auto simp: set_pair_def set_src_ok note_prev_ok regs_ok_def fp_srcs_def fp_dests_def alloc_simps
        intro!: if_free_ok[OF ok(1,3)] allocates_pair)
qed

lemma fma_allocate_ok:
  assumes ok: "ren_ok N F M" "tables_ok M" "64 dvd N CPR1" "regs_ok (Fp_fma b t) (op_inst u)"
  shows "allocates N F (Fp_fma b t) M u (fma_allocate t u M)"
proof (cases "t = F64")
  case True
  then show ?thesis unfolding fma_allocate_def fma_allocate_double_def Let_def using assms
    by (auto simp: set_pair_def set_src_ok note_prev_ok regs_ok_def fp_srcs_def fp_dests_def alloc_simps
        intro!: if_free_ok[OF ok(1,3)] allocates_pair)
next
  case False
  then show ?thesis unfolding fma_allocate_def fma_allocate_float_def Let_def using assms
    by (auto simp: set_pair_def set_src_ok note_prev_ok regs_ok_def fp_srcs_def fp_dests_def alloc_simps
        intro!: if_free_ok[OF ok(1,3)] allocates_pair)
qed

lemma cvtd_allocate_ok:
  assumes ok: "ren_ok N F M" "tables_ok M" "64 dvd N CPR1" "regs_ok Cvtd_op (op_inst u)"
  shows "allocates N F Cvtd_op M u (cvtd_allocate u M)"
  unfolding cvtd_allocate_def Let_def using assms
  by (auto simp: set_src_ok note_prev_ok regs_ok_def fp_dests_def alloc_simps intro!: if_free_ok[OF ok(1,3)] allocates_pair)

section \<open>Memory operations\<close>

lemma ren_ok_frame: "rf M1 = rf M \<Longrightarrow> ren_ok N F M1 = ren_ok N F M"
  by (simp add: ren_ok_def)

lemma store_allocate_ok:
  assumes ok: "ren_ok N F M" "tables_ok M"
  shows "allocates N F (Store_op st) M u (store_allocate a u M)"
proof (cases "find_first_unset (store_tbl_freevec M) = -1")
  case False
  obtain t v where e: "enter_store a (find_first_unset (store_tbl_freevec M)) M = Inr (M\<lparr>store_tbl := t, store_tbl_freevec := v\<rparr>)"
    "tables_ok (M\<lparr>store_tbl := t, store_tbl_freevec := v\<rparr>)" using ok(2) False by (rule enter_store_ok)
  with ok False show ?thesis
    by (auto simp: store_allocate_def Let_def set_src_ok alloc_simps intro!: allocates_none)
qed (use ok in \<open>simp add: store_allocate_def Let_def set_src_ok alloc_simps\<close>)

lemma fp_store_allocate_ok:
  assumes ok: "ren_ok N F M" "tables_ok M" "regs_ok (Fp_store st) (op_inst u)"
  shows "allocates N F (Fp_store st) M u (fp_store_allocate st a u M)"
proof (cases "find_first_unset (store_tbl_freevec M) = -1")
  case False
  obtain t v where e: "enter_store a (find_first_unset (store_tbl_freevec M)) M = Inr (M\<lparr>store_tbl := t, store_tbl_freevec := v\<rparr>)"
    "tables_ok (M\<lparr>store_tbl := t, store_tbl_freevec := v\<rparr>)" using ok(2) False by (rule enter_store_ok)
  have r: "ren_ok N F (M\<lparr>store_tbl := t, store_tbl_freevec := v\<rparr>)" using ok(1) by (simp add: ren_ok_def)
  from e ok False show ?thesis
    by (cases st) (auto simp: fp_store_allocate_def Let_def set_src_ok[OF r] regs_ok_def alloc_simps intro!: allocates_none)
qed (simp add: fp_store_allocate_def Let_def)

lemma allocates_frame:
  "allocates N F op M0 u x \<Longrightarrow> rf M0 = rf M \<Longrightarrow> smem M0 = smem M \<Longrightarrow> curr M0 = curr M \<Longrightarrow> l1cache M0 = l1cache M \<Longrightarrow>
    x = Inr (u', M', True) \<Longrightarrow> allocates N F op M u x"
  by (auto simp: allocates_done grows_def)

lemma load_allocate_ok:
  assumes ok: "ren_ok N F M" "tables_ok M"
  shows "allocates N F (Load_op lt) M u (load_allocate lt a u M)"
proof (cases "find_first_unset (freevec (rf M GPR)) = -1 \<or> find_first_unset (load_tbl_freevec M) = -1")
  case False
  let ?i = "find_first_unset (load_tbl_freevec M)" and ?n = "find_first_unset (freevec (rf M GPR))"
  obtain t v where e: "enter_load a ?i M = Inr (M\<lparr>load_tbl := t, load_tbl_freevec := v\<rparr>)"
    "tables_ok (M\<lparr>load_tbl := t, load_tbl_freevec := v\<rparr>)" using ok(2) False by (metis enter_load_ok)
  let ?M = "M\<lparr>load_tbl := t, load_tbl_freevec := v\<rparr>"
  have r: "ren_ok N F ?M" using ok(1) by (simp add: ren_ok_def)
  obtain M1 where c: "on_rf GPR (claim (rt_of (op_inst u)) ?n) ?M = Inr M1"
    "grows N F (one GPR (rt_of (op_inst u), rat (rf M GPR) ! rt_of (op_inst u), ?n)) ?M M1"
    using claim_step[OF r, of "rt_of (op_inst u)" GPR] False by (auto simp: alloc_simps)
  have g: "grows N F (one GPR (rt_of (op_inst u), rat (rf M GPR) ! rt_of (op_inst u), ?n)) M M1"
    using c(2) by (rule grows_frame_left) simp_all
  have tab: "tables_ok M1" using c(1) e(2) by (auto simp: on_rf_def rbind_Inr_iff tables_ok_def)
  have *: "op_renamings (Load_op lt) (w\<lparr>prev_prf_idx := p, prf_idx := n, load_tbl_idx := ?i\<rparr>) = one GPR (rt_of (op_inst w), p, n)" for w p n
    by (auto simp: op_renamings_def op_ids_def one_def)
  show ?thesis
    using ok False e(1) c(1) g tab *
    by (auto simp: load_allocate_def Let_def set_src_ok mapped_ok allocates_done alloc_simps)
qed (use ok in \<open>auto simp: load_allocate_def Let_def set_src_ok mapped_ok alloc_simps\<close>)

lemma fp_load_allocate_ok:
  assumes ok: "ren_ok N F M" "tables_ok M" "64 dvd N CPR1" "regs_ok (Fp_load lt) (op_inst u)"
  shows "allocates N F (Fp_load lt) M u (fp_load_allocate lt a u M)"
proof (cases "(if is_double_load lt then 2 else 1) \<le> N CPR1 - card (used (freevec (rf M CPR1))) \<and>
    find_first_unset (load_tbl_freevec M) \<noteq> -1")
  case True
  let ?i = "find_first_unset (load_tbl_freevec M)" and ?d = "rt_of (op_inst u)"
  obtain t v where e: "enter_load a ?i M = Inr (M\<lparr>load_tbl := t, load_tbl_freevec := v\<rparr>)"
    "tables_ok (M\<lparr>load_tbl := t, load_tbl_freevec := v\<rparr>)" using ok(2) True by (metis enter_load_ok)
  let ?M = "M\<lparr>load_tbl := t, load_tbl_freevec := v\<rparr>"
  have r: "ren_ok N F ?M" using ok(1) by (simp add: ren_ok_def)
  have d: "?d + 1 < 32" "?d < 32" "rt_of (op_inst u) < 34" using ok(4) reg_less(2)[of "op_inst u"] by (auto simp: regs_ok_def)
  let ?u = "u\<lparr>load_tbl_idx := ?i, src := (src u)(0 := rat (rf M GPR) ! rs_of (op_inst u)),
     prev_prf_idx := rat (rf M CPR1) ! ?d, aux_prev_prf_idx := rat (rf M CPR1) ! (?d + 1)\<rparr>"
  have eq: "fp_load_allocate lt a u M = claim_pair (is_double_load lt) ?d ?u ?M"
    using ok True e(1) d
    by (auto simp: fp_load_allocate_def Let_def num_free_ok set_src_ok[OF r] mapped_ok[OF r, unfolded] mapped_ok alloc_simps
        claim_pair_def intro!: arg_cong[where f = "rbind _"] split: prod.splits)
  have free: "(if is_double_load lt then 2 else 1) \<le> N CPR1 - card (used (freevec (rf ?M CPR1)))" using True by simp
  have "allocates N F (Fp_load lt) ?M u (claim_pair (is_double_load lt) ?d ?u ?M)"
    by (rule allocates_pair[OF r e(2)]) (use d free in \<open>auto simp: kept_def\<close>)
  then have "allocates N F (Fp_load lt) M u (claim_pair (is_double_load lt) ?d ?u ?M)"
  proof (rule allocates_frame)
    show "claim_pair (is_double_load lt) ?d ?u ?M = Inr (fst (projr (claim_pair (is_double_load lt) ?d ?u ?M)),
        fst (snd (projr (claim_pair (is_double_load lt) ?d ?u ?M))), True)"
      using claim_pair_ok[OF r d(2,1) free, where u = ?u] by fastforce
  qed simp_all
  then show ?thesis using eq by simp
next
  case False
  then show ?thesis using ok by (auto simp: fp_load_allocate_def Let_def num_free_ok)
qed

lemma mult_div_allocate_ok:
  assumes ok: "ren_ok N F M" "tables_ok M" "64 dvd N GPR"
  shows "allocates N F (Mult_div t) M u (mult_div_allocate t u M)"
proof (cases "2 \<le> N GPR - card (used (freevec (rf M GPR)))")
  case True
  have l0: "32 < arch_count GPR" "card (used (freevec (rf M GPR))) < N GPR" using True by simp_all
  obtain l M1 where l: "claim_next GPR 32 M = Inr (l, M1)" "grows N F (one GPR (32, rat (rf M GPR) ! 32, l)) M M1"
    "card (used (freevec (rf M1 GPR))) \<le> card (used (freevec (rf M GPR))) + 1"
    using ok(1) l0 by (rule claim_next_ok)
  have ok1: "ren_ok N (\<lambda>k. F k @ one GPR (32, rat (rf M GPR) ! 32, l) k) M1" using l(2) by (simp add: grows_def)
  have h0: "33 < arch_count GPR" "card (used (freevec (rf M1 GPR))) < N GPR" using True l(3) by simp_all
  obtain h M2 where h: "claim_next GPR 33 M1 = Inr (h, M2)"
    "grows N (\<lambda>k. F k @ one GPR (32, rat (rf M GPR) ! 32, l) k) (one GPR (33, rat (rf M1 GPR) ! 33, h)) M1 M2"
    using ok1 h0 by (rule claim_next_ok)
  have "rat (rf M1 GPR) ! 33 = rat (rf M GPR) ! 33" using l(2) by (simp add: grows_def one_def)
  then have g: "grows N F (\<lambda>k. one GPR (32, rat (rf M GPR) ! 32, l) k @ one GPR (33, rat (rf M GPR) ! 33, h) k) M M2"
    using grows_trans[OF l(2) h(2)] by simp
  have free: "find_first_unset (freevec (rf M GPR)) = l" "on_rf GPR (claim 32 l) M = Inr M1"
    "find_first_unset (freevec (rf M1 GPR)) = h" "on_rf GPR (claim 33 h) M1 = Inr M2"
    using l(1) h(1) by (auto simp: claim_next_def Let_def rbind_Inr_iff)
  have nz: "l \<noteq> -1" "h \<noteq> -1" using free(2,4) by (auto simp: on_rf_def claim_def bv_set_def)
  have tab: "tables_ok M2" using free(2,4) ok(2) by (auto simp: on_rf_def rbind_Inr_iff tables_ok_def)
  have ren: "op_renamings (Mult_div t) w = (\<lambda>k. one GPR (32, prev_lo_prf_idx w, lo_prf_idx w) k @ one GPR (33, prev_hi_prf_idx w, hi_prf_idx w) k)" for w
    by (auto simp: op_renamings_def op_ids_def one_def)
  show ?thesis
    using ok True free nz tab g
    by (auto simp: mult_div_allocate_def Let_def num_free_ok set_src_ok mapped_ok allocates_done ren alloc_simps)
next
  case False
  then show ?thesis using ok by (simp add: mult_div_allocate_def num_free_ok)
qed

lemma allocates_block:
  assumes "allocates N F op M u x"
  shows "allocates N F op M u (rbind x (\<lambda>(u5, M1, ok). Inr (u5, if ok then M1\<lparr>alloc_blocked := True\<rparr> else M1, ok)))"
proof -
  obtain u' M' b where x: "x = Inr (u', M', b)" using assms by (auto simp: allocates_def)
  show ?thesis
  proof (cases b)
    case True
    then show ?thesis using assms x by (simp add: allocates_done grows_def ren_ok_def tables_ok_def)
  next
    case False
    then show ?thesis using assms x by (auto simp: allocates_def)
  qed
qed

lemma monitor_allocate_ok:
  assumes "ren_ok N F M" "tables_ok M"
  shows "allocates N F Monitor_op M u (monitor_allocate u M)"
  unfolding monitor_allocate_def using assms
  by (auto simp: set_src_ok alloc_simps intro!: allocates_block allocates_rename)

section \<open>Every class\<close>

lemma allocate_op_ok:
  assumes "ren_ok N F M" "tables_ok M" "64 dvd N GPR" "64 dvd N CPR1" "regs_ok op (op_inst u)"
  shows "allocates N F op M u (allocate_op op a u M)"
  using assms
  by (cases op)
    (auto simp: mtc_allocate_ok rtype_allocate_ok control_allocate_ok cmp_allocate_ok cvts_allocate_ok fmovc_allocate_def
      fmov_allocate_def cond_move_allocate_ok arith_allocate_ok fma_allocate_ok cvtd_allocate_ok store_allocate_ok
      fp_store_allocate_ok load_allocate_ok fp_load_allocate_ok mult_div_allocate_ok monitor_allocate_ok)

end
