(* ===== verification/Op_Refine.thy ===== *)
theory Op_Refine
  imports Op_Allocate Interp_Proofs
begin

text \<open>
  The operations of the core against the interpreter: where the mapped registers hold the registers
  of an architectural state, an instruction that is allocated and executed leaves the mapped
  registers as the interpreter leaves its own.
\<close>

section \<open>Sources and results\<close>

lemma holdsD: "holds M s \<Longrightarrow> r < arch_count k \<Longrightarrow> reg_val k r M = arch_reg k r s"
  by (simp add: holds_def)

lemma src_val_ok:
  assumes "ren_ok N F M" "grows N F G M M1" "holds M s" "r < arch_count k" "src u i = rat (rf M k) ! r"
  shows "src_val k i u M1 = Inr (arch_reg k r s)"
proof -
  have "val k (rat (rf M k) ! r) M1 = val k (rat (rf M k) ! r) M" using assms(2) by (simp add: val_def grows_def)
  then show ?thesis using val_mapped[OF assms(1,4)] holdsD[OF assms(3,4)] assms(5) by (simp add: src_val_def)
qed

lemma write_prf_mapped:
  assumes ok: "ren_ok N F M" and d: "d < arch_count k" "rat (rf M k) ! d = p"
  obtains M2 where "on_rf k (write_prf p x) M = Inr M2" "ren_ok N F M2" "smem M2 = smem M" "curr M2 = curr M" "l1cache M2 = l1cache M"
    "\<And>j. rat (rf M2 j) = rat (rf M j)"
    "\<And>j r. r < arch_count j \<Longrightarrow> reg_val j r M2 = (if j = k \<and> r = d then x else reg_val j r M)"
    "\<And>j i. i \<noteq> p \<Longrightarrow> val j i M2 = val j i M" "\<And>j. j \<noteq> k \<Longrightarrow> rf M2 j = rf M j"
proof -
  note inv = ren_okD[OF ok, of k]
  note I = renaming_invD[OF inv]
  have b: "0 \<le> p" "p < int (N k)" using rat_bounds[OF ok d(1)] d(2) by auto
  let ?r = "(rf M k)\<lparr>phys := (phys (rf M k))[nat p := x]\<rparr>" and ?M = "M\<lparr>rf := (rf M)(k := (rf M k)\<lparr>phys := (phys (rf M k))[nat p := x]\<rparr>)\<rparr>"
  have w: "on_rf k (write_prf p x) M = Inr ?M"
    using b I(3) by (simp add: on_rf_def write_prf_def put_idx_ok)
  have "renaming_inv (arch_count k) (N k) (F k) ?r" using inv by (simp add: renaming_inv_def)
  then have ok2: "ren_ok N F ?M" using ok by (simp add: ren_ok_def)
  have "reg_val j r ?M = (if j = k \<and> r = d then x else reg_val j r M)" if r: "r < arch_count j" for j r
  proof (cases "j = k \<and> r \<noteq> d")
    case True
    have "distinct (rat (rf M k))" by (rule renamed_distinct[OF I(7,8)])
    then have "rat (rf M k) ! r \<noteq> p" using True r d I(2) by (metis nth_eq_iff_index_eq)
    moreover have "0 \<le> rat (rf M k) ! r" using rat_bounds[OF ok] r True by simp
    ultimately show ?thesis using True b by (simp add: reg_val_def nth_list_update_neq nat_eq_iff)
  next
    case False
    then show ?thesis using d b I(3) by (auto simp: reg_val_def nat_less_iff)
  qed
  moreover have "val j i ?M = val j i M" if "i \<noteq> p" for j i
    using that b by (auto simp: val_def at_idx_def nth_res_def nat_eq_iff)
  ultimately show thesis using w ok2 by (intro that[of ?M]) auto
qed

text \<open>The outcome of an execution: no error, and the registers of \<open>s'\<close>.\<close>

definition reaches :: "(rfile \<Rightarrow> nat) \<Rightarrow> (rfile \<Rightarrow> renaming list) \<Rightarrow> sparse_mem \<Rightarrow> state \<Rightarrow> (mips_meta_op \<times> sim_state) res \<Rightarrow> bool" where
  "reaches N F m s' x \<longleftrightarrow> (\<exists>u2 M2. x = Inr (u2, M2) \<and> holds M2 s' \<and> ren_ok N F M2 \<and> smem M2 = m)"

lemma result_reaches:
  assumes ok: "ren_ok N F M" "holds M s" and d: "d < arch_count k" and g: "grows N F G M M1" "G = one k (d, p, prf_idx u)"
    and s': "\<And>j r. r < arch_count j \<Longrightarrow> arch_reg j r s' = (if j = k \<and> r = d then x else arch_reg j r s)"
  shows "reaches N (\<lambda>j. F j @ G j) (smem M) s' (result k x lat u M1)"
proof -
  have ok1: "ren_ok N (\<lambda>j. F j @ G j) M1" using g(1) by (simp add: grows_def)
  have len: "length (rat (rf M j)) = arch_count j" for j by (rule renaming_invD(2)[OF ren_okD[OF ok(1)]])
  have rat1: "rat (rf M1 j) = (if j = k then (rat (rf M k))[d := prf_idx u] else rat (rf M j))" for j
    using g by (simp add: grows_def one_def)
  have "rat (rf M1 k) ! d = prf_idx u" using rat1 d len by simp
  from write_prf_mapped[OF ok1 d this, of x] obtain M2 where
    M2: "on_rf k (write_prf (prf_idx u) x) M1 = Inr M2" "ren_ok N (\<lambda>j. F j @ G j) M2" "smem M2 = smem M1"
    "\<And>j r. r < arch_count j \<Longrightarrow> reg_val j r M2 = (if j = k \<and> r = d then x else reg_val j r M1)" by metis
  have "reg_val j r M1 = reg_val j r M" if "\<not> (j = k \<and> r = d)" for j r
    using that g(1) rat1[of j] by (auto simp: reg_val_def grows_def)
  then have "holds M2 s'" using M2(4) s' ok(2) by (auto simp: holds_def)
  moreover have "result k x lat u M1 = Inr (finish_in lat u M1, M2)" using M2(1) by (simp add: result_def)
  ultimately show ?thesis using M2 g(1) by (auto simp: reaches_def grows_def)
qed

section \<open>Allocated operations\<close>

definition started :: "(rfile \<Rightarrow> nat) \<Rightarrow> (rfile \<Rightarrow> renaming list) \<Rightarrow> mips_op \<Rightarrow> state \<Rightarrow> sim_state \<Rightarrow> mips_meta_op \<Rightarrow>
    mips_meta_op \<Rightarrow> sim_state \<Rightarrow> bool" where
  "started N F op s M u u1 M1 \<longleftrightarrow> ren_ok N F M \<and> holds M s \<and> grows N F (op_renamings op u1) M M1 \<and> kept u u1 \<and>
     list_all (\<lambda>(i, k, d). src u1 i = rat (rf M k) ! d) (op_srcs op (op_inst u))"

lemma startedI:
  assumes "ren_ok N F M" "tables_ok M" "64 dvd N GPR" "64 dvd N CPR1" "regs_ok op (op_inst u)" "holds M s"
    "allocate_op op a u M = Inr (u1, M1, True)"
  shows "started N F op s M u u1 M1"
  using allocate_op_ok[OF assms(1-5), of a] assms by (simp add: started_def allocates_done)

lemma started_src:
  assumes "started N F op s M u u1 M1" "(i, k, r) \<in> set (op_srcs op (op_inst u))" "r < arch_count k"
  shows "src_val k i u1 M1 = Inr (arch_reg k r s)"
  using assms by (auto simp: started_def list_all_iff intro!: src_val_ok)

lemma started_inst: "started N F op s M u u1 M1 \<Longrightarrow> op_inst u1 = op_inst u \<and> op_pc u1 = op_pc u"
  by (simp add: started_def kept_def)

lemma renamings_single:
  assumes "op_dests op (op_inst u) = [(k, d)]" "\<And>t. op \<noteq> Mult_div t"
  shows "op_renamings op u = one k (d, prev_prf_idx u, prf_idx u)"
proof -
  have "op_ids op u = [(prev_prf_idx u, prf_idx u), (aux_prev_prf_idx u, aux_prf_idx u)]"
    using assms(2) by (cases op) (auto simp: op_ids_def)
  then show ?thesis using assms(1) by (auto simp: op_renamings_def one_def)
qed

lemma started_result:
  assumes st: "started N F op s M u u1 M1" and d: "op_dests op (op_inst u) = [(k, d)]" "\<And>t. op \<noteq> Mult_div t" "d < arch_count k"
    and s': "\<And>j r. r < arch_count j \<Longrightarrow> arch_reg j r s' = (if j = k \<and> r = d then x else arch_reg j r s)"
  shows "reaches N (\<lambda>j. F j @ op_renamings op u1 j) (smem M) s' (result k x lat u1 M1)"
proof (rule result_reaches)
  show "op_renamings op u1 = one k (d, prev_prf_idx u1, prf_idx u1)"
    using renamings_single[of op u1 k d] d started_inst[OF st] by simp
qed (use assms in \<open>simp_all add: started_def\<close>)

lemma arch_reg_simps [simp]:
  "arch_reg j r (next_insn s) = arch_reg j r s"
  "arch_reg j r (s\<lparr>pc := y\<rparr>) = arch_reg j r s"
  "d < 32 \<Longrightarrow> arch_reg j r (set_gpr d x s) = (if j = GPR \<and> r = d then x else arch_reg j r s)"
  "arch_reg j r (set_s d x s) = (if j = CPR1 \<and> r = d then x else arch_reg j r s)"
  "arch_reg j r (s\<lparr>lo := x\<rparr>) = (if j = GPR \<and> r = 32 then x else arch_reg j r s)"
  "arch_reg j r (s\<lparr>hi := x\<rparr>) = (if j = GPR \<and> r = 33 then x else arch_reg j r s)"
  "arch_reg j r (s\<lparr>cpr0 := (cpr0 s)(d := x)\<rparr>) = (if j = CPR0 \<and> r = d then x else arch_reg j r s)"
  "arch_reg j r (s\<lparr>fcr1 := (fcr1 s)(d := x)\<rparr>) = (if j = FCR1 \<and> r = d then x else arch_reg j r s)"
  by (cases j; auto simp: next_insn_def set_gpr_def set_s_def)+

section \<open>The instruction of an operation\<close>

lemma decode_rtype_op:
  assumes "decode_op w = Inr (Some op)" "opcode_of w = 0"
  shows "(funct_of w, op) \<in> set op_table_rtype"
  using assms unfolding decode_op_def Let_def decode_rtype_insn_def by (auto simp: ensure_Inr_iff dest: map_of_SomeD)

lemma decode_special2_op:
  assumes "decode_op w = Inr (Some op)" "opcode_of w = 0x1c"
  shows "(funct_of w, op) \<in> set [(0x0, Mult_div Madd), (0x1, Mult_div Maddu), (0x2, Mul_op), (0x4, Mult_div Msub), (0x20, Clz_op)]"
  using assms unfolding decode_op_def Let_def decode_special2_insn_def by (simp del: map_of.simps list.set) (rule map_of_SomeD)

lemma decode_special3_op:
  assumes "decode_op w = Inr (Some op)" "opcode_of w = 0x1f"
  shows "op = Ext_op \<and> funct_of w = 0 \<or> op = Ins_op \<and> funct_of w = 4 \<or>
    funct_of w = 0x20 \<and> (sa_of w = 0x10 \<and> op = Se_op Seb \<or> sa_of w = 0x18 \<and> op = Se_op Seh)"
  using assms unfolding decode_op_def Let_def decode_special3_insn_def by (auto split: if_split_asm)

lemma decode_coproc1_op:
  assumes "decode_op w = Inr (Some op)" "opcode_of w = 0x11"
  shows "fmt_of w = 8 \<and> (fld w 16 2, op) \<in> set [(0, Branch Bc1f), (1, Branch Bc1t), (2, Branch Bc1fl), (3, Branch Bc1tl)] \<or>
    fmt_of w \<noteq> 8 \<and> fmt_of w = 0 \<and> fld w 0 11 = 0 \<and> op = Mfc1 \<or> fmt_of w = 4 \<and> fld w 0 11 = 0 \<and> op = Mtc1 \<or>
    fmt_of w \<noteq> 8 \<and> \<not> (fld w 0 11 = 0 \<and> (fmt_of w = 0 \<or> fmt_of w = 4)) \<and>
      (funct_of w div 16 = 3 \<and> op = Fp_cmp \<or> funct_of w div 16 \<noteq> 3 \<and> (funct_of w, op) \<in> set op_table_cp1)"
proof -
  have "decode_coproc1_insn w = Inr (Some op)" using assms by (simp add: decode_op_def)
  then show ?thesis unfolding decode_coproc1_insn_def Let_def
    by (auto split: if_split_asm option.split_asm dest: map_of_SomeD simp del: map_of.simps)
qed

lemma decode_itype_op:
  assumes "decode_op w = Inr (Some op)" "opcode_of w \<notin> {0, 0x1c, 0x1f, 2, 3, 0x10, 0x11, 0x13, 1}"
  shows "(opcode_of w, op) \<in> set op_table_itype"
proof -
  have "opcode_of w div 2 \<noteq> 1" using assms(2) by auto
  then have "map_of op_table_itype (opcode_of w) = Some op"
    using assms unfolding decode_op_def Let_def decode_itype_insn_def by (simp split: if_split_asm)
  then show ?thesis by (rule map_of_SomeD)
qed

lemma decode_regimm_op:
  assumes "decode_op w = Inr (Some op)" "opcode_of w = 1"
  shows "(rt_of w, op) \<in> set [(0, Branch Bltz), (1, Branch Bgez), (2, Branch Bltzl), (3, Branch Bgezl)]"
  using assms unfolding decode_op_def Let_def decode_itype_insn_def by (simp del: map_of.simps list.set) (rule map_of_SomeD)

lemma decode_other_op:
  assumes "decode_op w = Inr (Some op)"
  shows "opcode_of w = 2 \<Longrightarrow> op = Jump J" "opcode_of w = 3 \<Longrightarrow> op = Jump Jal" "opcode_of w = 0x10 \<Longrightarrow> fmt_of w = 4 \<and> op = Mtc0"
    "opcode_of w = 0x13 \<Longrightarrow> fld w 3 3 \<in> {4, 5} \<and> op = Fp_fma (fld w 3 3 = 5) (if fld w 0 3 = 0 then F32 else F64)"
  using assms unfolding decode_op_def Let_def decode_jtype_insn_def decode_coproc1x_insn_def by (auto split: if_split_asm)

lemmas op_tables = op_table_itype_def op_table_rtype_def op_table_cp1_def

lemma decode_cases [consumes 1, case_names rtype special2 special3 jump cp0 cp1 cp1x regimm itype]:
  assumes D: "decode_op w = Inr (Some op)"
  obtains "opcode_of w = 0" "(funct_of w, op) \<in> set op_table_rtype"
  | "opcode_of w = 0x1c" "(funct_of w, op) \<in> set [(0x0, Mult_div Madd), (0x1, Mult_div Maddu), (0x2, Mul_op), (0x4, Mult_div Msub), (0x20, Clz_op)]"
  | "opcode_of w = 0x1f" "op = Ext_op \<and> funct_of w = 0 \<or> op = Ins_op \<and> funct_of w = 4 \<or>
      funct_of w = 0x20 \<and> (sa_of w = 0x10 \<and> op = Se_op Seb \<or> sa_of w = 0x18 \<and> op = Se_op Seh)"
  | "opcode_of w = 2 \<and> op = Jump J \<or> opcode_of w = 3 \<and> op = Jump Jal"
  | "opcode_of w = 0x10" "fmt_of w = 4" "op = Mtc0"
  | "opcode_of w = 0x11" "fmt_of w = 8 \<and> (fld w 16 2, op) \<in> set [(0, Branch Bc1f), (1, Branch Bc1t), (2, Branch Bc1fl), (3, Branch Bc1tl)] \<or>
      fmt_of w \<noteq> 8 \<and> fmt_of w = 0 \<and> fld w 0 11 = 0 \<and> op = Mfc1 \<or> fmt_of w = 4 \<and> fld w 0 11 = 0 \<and> op = Mtc1 \<or>
      fmt_of w \<noteq> 8 \<and> \<not> (fld w 0 11 = 0 \<and> (fmt_of w = 0 \<or> fmt_of w = 4)) \<and>
        (funct_of w div 16 = 3 \<and> op = Fp_cmp \<or> funct_of w div 16 \<noteq> 3 \<and> (funct_of w, op) \<in> set op_table_cp1)"
  | "opcode_of w = 0x13" "fld w 3 3 \<in> {4, 5}" "op = Fp_fma (fld w 3 3 = 5) (if fld w 0 3 = 0 then F32 else F64)"
  | "opcode_of w = 1" "(rt_of w, op) \<in> set [(0, Branch Bltz), (1, Branch Bgez), (2, Branch Bltzl), (3, Branch Bgezl)]"
  | "opcode_of w \<notin> {0, 0x1c, 0x1f, 2, 3, 0x10, 0x11, 0x13, 1}" "(opcode_of w, op) \<in> set op_table_itype"
proof -
  consider "opcode_of w = 0" | "opcode_of w = 0x1c" | "opcode_of w = 0x1f" | "opcode_of w = 2" | "opcode_of w = 3"
    | "opcode_of w = 0x10" | "opcode_of w = 0x11" | "opcode_of w = 0x13" | "opcode_of w = 1"
    | "opcode_of w \<notin> {0, 0x1c, 0x1f, 2, 3, 0x10, 0x11, 0x13, 1}" by auto
  then show thesis
  proof cases
    case 1 with decode_rtype_op[OF D] show thesis by (intro that(1))
  next
    case 2 with decode_special2_op[OF D] show thesis by (intro that(2))
  next
    case 3 with decode_special3_op[OF D] show thesis by (intro that(3))
  next
    case 4 with decode_other_op(1)[OF D] show thesis by (intro that(4)) simp
  next
    case 5 with decode_other_op(2)[OF D] show thesis by (intro that(4)) simp
  next
    case 6 with decode_other_op(3)[OF D] show thesis by (intro that(5)) simp_all
  next
    case 7 with decode_coproc1_op[OF D] show thesis by (intro that(6))
  next
    case 8 with decode_other_op(4)[OF D] show thesis by (intro that(7)) simp_all
  next
    case 9 with decode_regimm_op[OF D] show thesis by (intro that(8))
  next
    case 10 with decode_itype_op[OF D] show thesis by (intro that(9))
  qed
qed

lemma decode_Rtype:
  assumes "decode_op w = Inr (Some op)" "op = Rtype_alu t \<or> op = Rtype_const_shift t \<or> op = Lo_hi_move lht \<or> op = Movci_op"
  shows "opcode_of w = 0 \<and> (funct_of w, op) \<in> set op_table_rtype"
  using assms by (cases rule: decode_cases) (auto simp: op_tables)

lemma decode_Itype:
  assumes "decode_op w = Inr (Some op)" "op = Itype_alu \<or> op = Itype_lui \<or> op = Load_op lt \<or> op = Store_op st \<or> op = Fp_load lt \<or> op = Fp_store ft"
  shows "opcode_of w \<notin> {0, 0x1c, 0x1f, 2, 3, 0x10, 0x11, 0x13, 1} \<and> (opcode_of w, op) \<in> set op_table_itype"
  using assms by (cases rule: decode_cases) (auto simp: op_tables)

lemma decode_Special:
  assumes "decode_op w = Inr (Some op)"
  shows "op = Mul_op \<Longrightarrow> opcode_of w = 0x1c \<and> funct_of w = 2" "op = Clz_op \<Longrightarrow> opcode_of w = 0x1c \<and> funct_of w = 0x20"
    "op = Se_op st \<Longrightarrow> opcode_of w = 0x1f \<and> funct_of w = 0x20 \<and> (sa_of w = 0x10 \<and> st = Seb \<or> sa_of w = 0x18 \<and> st = Seh)"
    "op = Ext_op \<Longrightarrow> opcode_of w = 0x1f \<and> funct_of w = 0" "op = Ins_op \<Longrightarrow> opcode_of w = 0x1f \<and> funct_of w = 4"
    "op = Mtc0 \<Longrightarrow> opcode_of w = 0x10 \<and> fmt_of w = 4"
    "op = Mtc1 \<Longrightarrow> opcode_of w = 0x11 \<and> fmt_of w = 4 \<and> fld w 0 11 = 0" "op = Mfc1 \<Longrightarrow> opcode_of w = 0x11 \<and> fmt_of w = 0 \<and> fld w 0 11 = 0"
  using assms by (cases rule: decode_cases; auto simp: op_tables)+

section \<open>Arithmetic\<close>

lemma started_prf:
  assumes st: "started N F op s M u u1 M1" and d: "op_dests op (op_inst u) = [(k, d)]" "\<And>t. op \<noteq> Mult_div t"
  shows "prf_idx u1 \<noteq> -1"
proof -
  have "op_renamings op u1 = one k (d, prev_prf_idx u1, prf_idx u1)"
    using renamings_single[of op u1 k d] d started_inst[OF st] by simp
  moreover have "ren_ok N (\<lambda>k. F k @ op_renamings op u1 k) M1" using st by (simp add: started_def grows_def)
  ultimately have "renaming_inv (arch_count k) (N k) (F k @ [(d, prev_prf_idx u1, prf_idx u1)]) (rf M1 k)"
    using ren_okD[of N "\<lambda>k. F k @ op_renamings op u1 k" M1 k] by (simp add: one_def)
  from renaming_inv_bounds[OF this, of "prf_idx u1"] show ?thesis by auto
qed

lemma gpr_reaches:
  assumes "started N F op s M u u1 M1" "op_dests op (op_inst u) = [(GPR, d)]" "\<And>t. op \<noteq> Mult_div t" "d < 32"
    "s' = next_insn (set_gpr d x s)"
  shows "reaches N (\<lambda>j. F j @ op_renamings op u1 j) (smem M) s' (result GPR x lat u1 M1)"
  using assms by (intro started_result) auto

lemma exec_opcode0: "opcode_of w = 0 \<Longrightarrow> exec_insn P K w s = execRType P K w s"
  by (simp add: exec_insn_def getInsnType_def)

lemma word_sless_sint: "a <s b \<longleftrightarrow> sint a < sint b" "a \<le>s b \<longleftrightarrow> sint a \<le> sint b"
  by (simp_all add: word_sless_alt word_sle_eq)

lemma rtype_value:
  assumes "decode_op w = Inr (Some (Rtype_alu t))" "t \<notin> {Add, Sub, Teq}" "exec_insn P K w s = Inr s'"
  shows "let b = gpr s (rt_of w); a = gpr s (rs_of w) in
    if t \<in> {Movn, Movz} then s' = next_insn (set_gpr (rd_of w) (if (b \<noteq> 0) = (t = Movn) then a else gpr s (rd_of w)) s)
    else t \<notin> {Sll, Srl, Sra} \<and> (\<exists>x. rtype_value2 t b a = Inr x \<and> s' = next_insn (set_gpr (rd_of w) x s))"
proof -
  have f: "opcode_of w = 0" "(funct_of w, Rtype_alu t) \<in> set op_table_rtype" using decode_Rtype[OF assms(1)] by auto
  then show ?thesis
    using assms(2,3)
    by (cases t) (auto simp: exec_opcode0 execRType_def rtype_shift_def rtype_hilo_def rtype_alu_def op_table_rtype_def alu_def
        rtype_value2_def word_sless_sint low5_def sar_def and.commute or.commute xor.commute Let_def)
qed

lemma rtype_refines:
  assumes st: "started N F (Rtype_alu t) s M u u1 M1" and dec: "decode_op (op_inst u) = Inr (Some (Rtype_alu t))"
    and t: "t \<notin> {Add, Sub, Teq}" "rd_of (op_inst u) \<noteq> 0" and ex: "exec_insn P K (op_inst u) s = Inr s'"
  shows "reaches N (\<lambda>j. F j @ op_renamings (Rtype_alu t) u1 j) (smem M) s' (rtype_execute t u1 M1)"
proof -
  let ?w = "op_inst u"
  have d: "op_dests (Rtype_alu t) ?w = [(GPR, rd_of ?w)]" using t by (auto simp: rtype_dest_def)
  have p: "prf_idx u1 \<noteq> -1" by (rule started_prf[OF st d]) simp
  have src: "src_val GPR 0 u1 M1 = Inr (gpr s (rt_of ?w))" "src_val GPR 1 u1 M1 = Inr (gpr s (rs_of ?w))"
    "t \<in> {Movn, Movz} \<Longrightarrow> src_val GPR 2 u1 M1 = Inr (gpr s (rd_of ?w))"
    using started_src[OF st, of 0 GPR "rt_of ?w"] started_src[OF st, of 1 GPR "rs_of ?w"] started_src[OF st, of 2 GPR "rd_of ?w"]
      reg_less[of ?w] by auto
  note v = rtype_value[OF dec t(1) ex, unfolded Let_def]
  show ?thesis
  proof (cases "t \<in> {Movn, Movz}")
    case True
    have "rtype_execute t u1 M1 = result GPR (if (gpr s (rt_of ?w) \<noteq> 0) = (t = Movn) then gpr s (rs_of ?w) else gpr s (rd_of ?w)) 1 u1 M1"
      using True p src by (auto simp: rtype_execute_def Let_def)
    then show ?thesis using True v by (simp only: if_True) (rule gpr_reaches[OF st d], simp_all add: reg_less)
  next
    case False
    then obtain x where x: "t \<notin> {Sll, Srl, Sra}" "rtype_value2 t (gpr s (rt_of ?w)) (gpr s (rs_of ?w)) = Inr x"
      "s' = next_insn (set_gpr (rd_of ?w) x s)" using v by auto
    have "rtype_execute t u1 M1 = result GPR x 1 u1 M1" using False t(1) p src x(1,2) by (auto simp: rtype_execute_def Let_def)
    then show ?thesis using x(3) by (simp only:) (rule gpr_reaches[OF st d], simp_all add: reg_less)
  qed
qed

lemma shift_refines:
  assumes st: "started N F (Rtype_const_shift t) s M u u1 M1" and dec: "decode_op (op_inst u) = Inr (Some (Rtype_const_shift t))"
    and r: "rd_of (op_inst u) \<noteq> 0" and ex: "exec_insn P K (op_inst u) s = Inr s'"
  shows "reaches N (\<lambda>j. F j @ op_renamings (Rtype_const_shift t) u1 j) (smem M) s' (rtype_execute t u1 M1)"
proof -
  let ?w = "op_inst u"
  have f: "opcode_of ?w = 0" "(funct_of ?w, Rtype_const_shift t) \<in> set op_table_rtype" using decode_Rtype[OF dec] by auto
  then have t: "t = Sll \<and> funct_of ?w = 0 \<or> t = Srl \<and> funct_of ?w = 2 \<or> t = Sra \<and> funct_of ?w = 3"
    by (auto simp: op_table_rtype_def)
  then have d: "op_dests (Rtype_const_shift t) ?w = [(GPR, rd_of ?w)]" using r by (auto simp: rtype_dest_def)
  have p: "prf_idx u1 \<noteq> -1" by (rule started_prf[OF st d]) simp
  let ?b = "gpr s (rt_of ?w)"
  let ?x = "if t = Sll then push_bit (sa_of ?w) ?b else if t = Srl then drop_bit (sa_of ?w) ?b else sar (sa_of ?w) ?b"
  have src: "src_val GPR 0 u1 M1 = Inr ?b" using started_src[OF st, of 0 GPR "rt_of ?w"] reg_less[of ?w] by auto
  have "rtype_execute t u1 M1 = result GPR ?x 1 u1 M1"
    using t p src started_inst[OF st] by (auto simp: rtype_execute_def Let_def)
  moreover have "s' = next_insn (set_gpr (rd_of ?w) ?x s)"
    using ex t f by (auto simp: exec_opcode0 execRType_def rtype_shift_def alu_def sar_def Let_def)
  ultimately show ?thesis by (simp only:) (rule gpr_reaches[OF st d], simp_all add: reg_less)
qed

lemma exec_itype:
  "opcode_of w \<notin> {0, 0x1c, 0x1f, 2, 3, 0x10, 0x11, 0x13, 1} \<Longrightarrow> opcode_of w \<notin> {0x12, 0x30, 0x38} \<Longrightarrow>
    exec_insn P K w s = execIType P K w s"
proof -
  assume a: "opcode_of w \<notin> {0, 0x1c, 0x1f, 2, 3, 0x10, 0x11, 0x13, 1}" "opcode_of w \<notin> {0x12, 0x30, 0x38}"
  then have "opcode_of w \<noteq> 2 \<and> opcode_of w \<noteq> 3" by simp
  then have "opcode_of w div 2 \<noteq> 1" by presburger
  with a show ?thesis by (simp add: exec_insn_def getInsnType_def)
qed

lemma itype_refines:
  assumes st: "started N F Itype_alu s M u u1 M1" and dec: "decode_op (op_inst u) = Inr (Some Itype_alu)"
    and r: "rt_of (op_inst u) \<noteq> 0" "opcode_of (op_inst u) \<noteq> 0x08" and ex: "exec_insn P K (op_inst u) s = Inr s'"
  shows "reaches N (\<lambda>j. F j @ op_renamings Itype_alu u1 j) (smem M) s' (itype_execute u1 M1)"
proof -
  let ?w = "op_inst u" and ?a = "gpr s (rs_of (op_inst u))"
  have f: "opcode_of ?w \<in> {0x09, 0x0A, 0x0B, 0x0c, 0x0d, 0x0e}"
    using decode_Itype[OF dec] r(2) by (auto simp: op_table_itype_def)
  have d: "op_dests Itype_alu ?w = [(GPR, rt_of ?w)]" using r by simp
  have src: "src_val GPR 0 u1 M1 = Inr ?a" using started_src[OF st, of 0 GPR "rs_of ?w"] reg_less[of ?w] by auto
  obtain x where x: "itype_value ?w ?a = Inr x" "s' = next_insn (set_gpr (rt_of ?w) x s)"
    using ex f by (auto simp: exec_itype execIType_def itype_alu_def itype_value_def alu_def word_sless_sint Let_def)
  have "itype_execute u1 M1 = result GPR x 1 u1 M1" using src x(1) started_inst[OF st] by (simp add: itype_execute_def)
  then show ?thesis using x(2) by (simp only:) (rule gpr_reaches[OF st d], simp_all add: reg_less)
qed

lemma lui_refines:
  assumes st: "started N F Itype_lui s M u u1 M1" and dec: "decode_op (op_inst u) = Inr (Some Itype_lui)"
    and r: "rt_of (op_inst u) \<noteq> 0" and ex: "exec_insn P K (op_inst u) s = Inr s'"
  shows "reaches N (\<lambda>j. F j @ op_renamings Itype_lui u1 j) (smem M) s' (lui_execute u1 M1)"
proof -
  let ?w = "op_inst u"
  have f: "opcode_of ?w = 0x0F" using decode_Itype[OF dec] by (auto simp: op_table_itype_def)
  have d: "op_dests Itype_lui ?w = [(GPR, rt_of ?w)]" using r by simp
  have "s' = next_insn (set_gpr (rt_of ?w) (push_bit 16 (uimm ?w)) s)"
    using ex f by (auto simp: exec_itype execIType_def itype_alu_def alu_def Let_def)
  moreover have "lui_execute u1 M1 = result GPR (push_bit 16 (uimm ?w)) 1 u1 M1" using started_inst[OF st] by (simp add: lui_execute_def)
  ultimately show ?thesis by (simp only:) (rule gpr_reaches[OF st d], simp_all add: reg_less)
qed

lemma lo_hi_refines:
  assumes st: "started N F (Lo_hi_move t) s M u u1 M1" and dec: "decode_op (op_inst u) = Inr (Some (Lo_hi_move t))"
    and ex: "exec_insn P K (op_inst u) s = Inr s'"
  shows "reaches N (\<lambda>j. F j @ op_renamings (Lo_hi_move t) u1 j) (smem M) s' (lo_hi_execute u1 M1)"
proof -
  let ?w = "op_inst u"
  have f: "opcode_of ?w = 0" "(funct_of ?w, Lo_hi_move t) \<in> set op_table_rtype" using decode_Rtype[OF dec] by auto
  have d: "op_dests (Lo_hi_move t) ?w = [(GPR, lo_hi_dest t ?w)]" by simp
  let ?x = "arch_reg GPR (lo_hi_src0 t ?w) s"
  have "src_val GPR 0 u1 M1 = Inr ?x" using started_src[OF st, of 0 GPR "lo_hi_src0 t ?w"] reg_less34 by auto
  then have "lo_hi_execute u1 M1 = result GPR ?x 1 u1 M1" by (simp add: lo_hi_execute_def)
  moreover have "reaches N (\<lambda>j. F j @ op_renamings (Lo_hi_move t) u1 j) (smem M) s' (result GPR ?x 1 u1 M1)"
  proof (rule started_result[OF st d])
    show "arch_reg j r s' = (if j = GPR \<and> r = lo_hi_dest t ?w then ?x else arch_reg j r s)" for j r
      using ex f reg_less[of ?w]
      by (auto simp: exec_opcode0 execRType_def rtype_hilo_def alu_def Let_def op_table_rtype_def lo_hi_dest_def lo_hi_src0_def next_insn_def)
  qed (simp_all add: reg_less34)
  ultimately show ?thesis by simp
qed

end
