(* ===== verification/Op_Refine_Special.thy ===== *)
theory Op_Refine_Special
  imports Op_Refine
begin

text \<open>
  The remaining integer operations against the interpreter: multiplication and division, which
  write \<open>lo\<close> and \<open>hi\<close>, leading zeros, bit fields, conditional moves and the moves to and from the
  coprocessors.
\<close>

section \<open>Multiplication, leading zeros and bit fields\<close>

lemma exec_special2: "opcode_of w = 0x1c \<Longrightarrow> exec_insn P K w s = execSpecial2 w s"
  by (simp add: exec_insn_def getInsnType_def)

lemma exec_special3: "opcode_of w = 0x1f \<Longrightarrow> exec_insn P K w s = execSpecial3 w s"
  by (simp add: exec_insn_def getInsnType_def)

lemma mul_refines:
  assumes st: "started N F Mul_op s M u u1 M1" and dec: "decode_op (op_inst u) = Inr (Some Mul_op)"
    and ex: "exec_insn P K (op_inst u) s = Inr s'"
  shows "reaches N (\<lambda>j. F j @ op_renamings Mul_op u1 j) (smem M) s' (mul_execute u1 M1)"
proof -
  let ?w = "op_inst u"
  have d: "op_dests Mul_op ?w = [(GPR, rd_of ?w)]" by simp
  have src: "src_val GPR 0 u1 M1 = Inr (gpr s (rs_of ?w))" "src_val GPR 1 u1 M1 = Inr (gpr s (rt_of ?w))"
    using started_src[OF st, of 0 GPR "rs_of ?w"] started_src[OF st, of 1 GPR "rt_of ?w"] reg_less[of ?w] by auto
  let ?x = "lo32 (scast (gpr s (rt_of ?w)) * scast (gpr s (rs_of ?w)))"
  have "s' = next_insn (set_gpr (rd_of ?w) ?x s)"
    using ex decode_Special(1)[OF dec] by (auto simp: exec_special2 execSpecial2_def Let_def mult.commute)
  moreover have "mul_execute u1 M1 = result GPR ?x 4 u1 M1" using src by (simp add: mul_execute_def)
  ultimately show ?thesis by (simp only:) (rule gpr_reaches[OF st d], simp_all add: reg_less)
qed

lemma clz_refines:
  assumes st: "started N F Clz_op s M u u1 M1" and dec: "decode_op (op_inst u) = Inr (Some Clz_op)"
    and ex: "exec_insn P K (op_inst u) s = Inr s'"
  shows "reaches N (\<lambda>j. F j @ op_renamings Clz_op u1 j) (smem M) s' (clz_execute u1 M1)"
proof -
  let ?w = "op_inst u" and ?a = "gpr s (rs_of (op_inst u))"
  have d: "op_dests Clz_op ?w = [(GPR, rd_of ?w)]" by simp
  have src: "src_val GPR 0 u1 M1 = Inr ?a" using started_src[OF st, of 0 GPR "rs_of ?w"] reg_less[of ?w] by auto
  have "s' = next_insn (set_gpr (rd_of ?w) (if ?a = 0 then 32 else clz32 ?a) s)"
    using ex decode_Special(2)[OF dec] by (auto simp: exec_special2 execSpecial2_def Let_def)
  moreover have "clz_execute u1 M1 = result GPR (if ?a = 0 then 32 else clz32 ?a) 1 u1 M1" using src by (simp add: clz_execute_def)
  ultimately show ?thesis by (simp only:) (rule gpr_reaches[OF st d], simp_all add: reg_less)
qed

lemma se_refines:
  assumes st: "started N F (Se_op t) s M u u1 M1" and dec: "decode_op (op_inst u) = Inr (Some (Se_op t))"
    and ex: "exec_insn P K (op_inst u) s = Inr s'"
  shows "reaches N (\<lambda>j. F j @ op_renamings (Se_op t) u1 j) (smem M) s' (se_execute t u1 M1)"
proof -
  let ?w = "op_inst u" and ?b = "gpr s (rt_of (op_inst u))"
  have d: "op_dests (Se_op t) ?w = [(GPR, rd_of ?w)]" by simp
  have src: "src_val GPR 0 u1 M1 = Inr ?b" using started_src[OF st, of 0 GPR "rt_of ?w"] reg_less[of ?w] by auto
  let ?x = "case t of Seb \<Rightarrow> scast (ucast ?b :: u8) | Seh \<Rightarrow> scast (ucast ?b :: u16)"
  have "s' = next_insn (set_gpr (rd_of ?w) ?x s)"
    using ex decode_Special(3)[OF dec] by (auto simp: exec_special3 execSpecial3_def Let_def)
  moreover have "se_execute t u1 M1 = result GPR ?x 1 u1 M1" using src by (simp add: se_execute_def)
  ultimately show ?thesis by (simp only:) (rule gpr_reaches[OF st d], simp_all add: reg_less)
qed

lemma ext_refines:
  assumes st: "started N F Ext_op s M u u1 M1" and dec: "decode_op (op_inst u) = Inr (Some Ext_op)"
    and ex: "exec_insn P K (op_inst u) s = Inr s'"
  shows "reaches N (\<lambda>j. F j @ op_renamings Ext_op u1 j) (smem M) s' (ext_execute u1 M1)"
proof -
  let ?w = "op_inst u" and ?a = "gpr s (rs_of (op_inst u))"
  have d: "op_dests Ext_op ?w = [(GPR, rt_of ?w)]" by simp
  have src: "src_val GPR 0 u1 M1 = Inr ?a" using started_src[OF st, of 0 GPR "rs_of ?w"] reg_less[of ?w] by auto
  let ?x = "sar (sa_of ?w) ?a AND (push_bit (rd_of ?w + 1) 1 - 1)"
  have s': "rd_of ?w + 1 < 32 \<and> s' = next_insn (set_gpr (rt_of ?w) ?x s)"
    using ex decode_Special(4)[OF dec] by (simp add: exec_special3 execSpecial3_def Let_def ensure_Inr_iff rbind_Inr_iff sar_def)
  then have "ext_execute u1 M1 = result GPR ?x 1 u1 M1" using src started_inst[OF st] by (simp add: ext_execute_def Let_def)
  then show ?thesis using s' by (simp only:) (rule gpr_reaches[OF st d], simp_all add: reg_less)
qed

lemma ins_refines:
  assumes st: "started N F Ins_op s M u u1 M1" and dec: "decode_op (op_inst u) = Inr (Some Ins_op)"
    and ex: "exec_insn P K (op_inst u) s = Inr s'"
  shows "reaches N (\<lambda>j. F j @ op_renamings Ins_op u1 j) (smem M) s' (ins_execute u1 M1)"
proof -
  let ?w = "op_inst u" and ?a = "gpr s (rs_of (op_inst u))" and ?b = "gpr s (rt_of (op_inst u))"
  have d: "op_dests Ins_op ?w = [(GPR, rt_of ?w)]" by simp
  have src: "src_val GPR 0 u1 M1 = Inr ?a" "src_val GPR 1 u1 M1 = Inr ?b"
    using started_src[OF st, of 0 GPR "rs_of ?w"] started_src[OF st, of 1 GPR "rt_of ?w"] reg_less[of ?w] by auto
  define n where "n = unat (of_nat (rd_of ?w) - of_nat (sa_of ?w) + 1 :: u32)"
  let ?m = "push_bit n 1 - 1 :: u32"
  let ?x = "(?b AND NOT (push_bit (sa_of ?w) ?m)) OR push_bit (sa_of ?w) (?a AND ?m)"
  have s': "n < 32 \<and> s' = next_insn (set_gpr (rt_of ?w) ?x s)"
    using ex decode_Special(5)[OF dec] by (simp add: exec_special3 execSpecial3_def Let_def ensure_Inr_iff rbind_Inr_iff n_def)
  then have "ins_execute u1 M1 = result GPR ?x 1 u1 M1"
    using src started_inst[OF st] by (simp add: ins_execute_def Let_def flip: n_def)
  then show ?thesis using s' by (simp only:) (rule gpr_reaches[OF st d], simp_all add: reg_less)
qed

section \<open>Conditional moves and moves to and from the coprocessors\<close>

lemma getCC_interp: "getCC (fcr1 s 2) c \<longleftrightarrow> getConditionCode s c \<noteq> 0"
  by (simp add: getCC_def getConditionCode_def)

lemma movci_refines:
  assumes st: "started N F Movci_op s M u u1 M1" and dec: "decode_op (op_inst u) = Inr (Some Movci_op)"
    and ex: "exec_insn P K (op_inst u) s = Inr s'"
  shows "reaches N (\<lambda>j. F j @ op_renamings Movci_op u1 j) (smem M) s' (movci_execute u1 M1)"
proof -
  let ?w = "op_inst u"
  have f: "opcode_of ?w = 0" "funct_of ?w = 1" using decode_Rtype[OF dec] by (auto simp: op_table_rtype_def)
  have d: "op_dests Movci_op ?w = [(GPR, rd_of ?w)]" by simp
  have src: "src_val GPR 0 u1 M1 = Inr (gpr s (rd_of ?w))" "src_val GPR 1 u1 M1 = Inr (gpr s (rs_of ?w))"
    "src_val FCR1 2 u1 M1 = Inr (fcr1 s 2)"
    using started_src[OF st, of 0 GPR "rd_of ?w"] started_src[OF st, of 1 GPR "rs_of ?w"] started_src[OF st, of 2 FCR1 2] reg_less[of ?w]
    by auto
  let ?z = "getConditionCode s (cc_of ?w) \<noteq> 0"
  let ?x = "if ?z = (tf_of ?w = 0) then gpr s (rd_of ?w) else gpr s (rs_of ?w)"
  have "s' = next_insn (set_gpr (rd_of ?w) ?x s)"
    using ex f by (auto simp: exec_opcode0 execRType_def rtype_shift_def movci_def Let_def)
  moreover have "movci_execute u1 M1 = result GPR ?x 1 u1 M1"
    using src started_inst[OF st] unfolding movci_execute_def Let_def by (cases ?z; cases "tf_of ?w = 0") (simp_all add: getCC_interp)
  ultimately show ?thesis by (simp only:) (rule gpr_reaches[OF st d], simp_all add: reg_less)
qed

lemma mtc0_refines:
  assumes st: "started N F Mtc0 s M u u1 M1" and dec: "decode_op (op_inst u) = Inr (Some Mtc0)"
    and ex: "exec_insn P K (op_inst u) s = Inr s'" and r: "mtc0_ready u1 M1 = Inr True"
  shows "reaches N (\<lambda>j. F j @ op_renamings Mtc0 u1 j) (smem M) s' (mtc0_execute u1 M1)"
proof -
  let ?w = "op_inst u" and ?b = "gpr s (rt_of (op_inst u))"
  have d: "op_dests Mtc0 ?w = [(CPR0, rd_of ?w)]" by simp
  have src: "src_val GPR 0 u1 M1 = Inr ?b" using started_src[OF st, of 0 GPR "rt_of ?w"] reg_less[of ?w] by auto
  have "opcode_of ?w = 0x10" "rs_of ?w = 4" using decode_Special(6)[OF dec] by (simp_all add: fmt_of_def rs_of_def)
  then have s': "s' = next_insn (s\<lparr>cpr0 := (cpr0 s)(rd_of ?w := ?b)\<rparr>)"
    using ex by (auto simp: exec_insn_def getInsnType_def execCoproc0_def Let_def)
  have "mtc0_execute u1 M1 = result CPR0 ?b 1 u1 M1" using src r by (simp add: mtc0_execute_def)
  moreover have "reaches N (\<lambda>j. F j @ op_renamings Mtc0 u1 j) (smem M) s' (result CPR0 ?b 1 u1 M1)"
    by (rule started_result[OF st d]) (simp_all add: s' reg_less)
  ultimately show ?thesis by simp
qed

lemma exec_cp1_move:
  assumes "opcode_of w = 0x11" "fmt_of w \<in> {0, 4}" "fld w 0 11 = 0"
  shows "exec_insn P K w s = (if fmt_of w = 0 then exec_mfc1 w s else exec_mtc1 w s)"
  using assms by (auto simp: exec_insn_def getInsnType_def execCoproc1_def fmt_of_def Let_def)

lemma mtc1_refines:
  assumes st: "started N F Mtc1 s M u u1 M1" and dec: "decode_op (op_inst u) = Inr (Some Mtc1)"
    and ex: "exec_insn P K (op_inst u) s = Inr s'"
  shows "reaches N (\<lambda>j. F j @ op_renamings Mtc1 u1 j) (smem M) s' (mtc1_execute u1 M1)"
proof -
  let ?w = "op_inst u" and ?b = "gpr s (rt_of (op_inst u))"
  have d: "op_dests Mtc1 ?w = [(CPR1, rd_of ?w)]" by simp
  have src: "src_val GPR 0 u1 M1 = Inr ?b" using started_src[OF st, of 0 GPR "rt_of ?w"] reg_less[of ?w] by auto
  have s': "s' = next_insn (set_s (rd_of ?w) ?b s)"
    using ex decode_Special(7)[OF dec] by (auto simp: exec_cp1_move exec_mtc1_def Let_def)
  have "mtc1_execute u1 M1 = result CPR1 ?b 1 u1 M1" using src by (simp add: mtc1_execute_def)
  moreover have "reaches N (\<lambda>j. F j @ op_renamings Mtc1 u1 j) (smem M) s' (result CPR1 ?b 1 u1 M1)"
    by (rule started_result[OF st d]) (simp_all add: s' reg_less)
  ultimately show ?thesis by simp
qed

lemma mfc1_refines:
  assumes st: "started N F Mfc1 s M u u1 M1" and dec: "decode_op (op_inst u) = Inr (Some Mfc1)"
    and ex: "exec_insn P K (op_inst u) s = Inr s'" and r: "mfc1_ready u1 M1 = Inr True"
  shows "reaches N (\<lambda>j. F j @ op_renamings Mfc1 u1 j) (smem M) s' (mfc1_execute u1 M1)"
proof -
  let ?w = "op_inst u" and ?b = "cpr1 s (rd_of (op_inst u))"
  have d: "op_dests Mfc1 ?w = [(GPR, rt_of ?w)]" by simp
  have src: "src_val CPR1 0 u1 M1 = Inr ?b" using started_src[OF st, of 0 CPR1 "rd_of ?w"] reg_less[of ?w] by auto
  have s': "s' = next_insn (set_gpr (rt_of ?w) ?b s)"
    using ex decode_Special(8)[OF dec] by (auto simp: exec_cp1_move exec_mfc1_def alu_def Let_def)
  moreover have "mfc1_execute u1 M1 = result GPR ?b 1 u1 M1" using src r by (simp add: mfc1_execute_def)
  ultimately show ?thesis by (simp only:) (rule gpr_reaches[OF st d], simp_all add: reg_less)
qed

section \<open>Results of two registers\<close>

definition wrote :: "(rfile \<Rightarrow> nat) \<Rightarrow> (rfile \<Rightarrow> renaming list) \<Rightarrow> rfile \<Rightarrow> nat \<Rightarrow> u32 \<Rightarrow> sim_state \<Rightarrow> sim_state \<Rightarrow> bool" where
  "wrote N F k d x M M2 \<longleftrightarrow> ren_ok N F M2 \<and> smem M2 = smem M \<and> curr M2 = curr M \<and> (\<forall>j. rat (rf M2 j) = rat (rf M j)) \<and>
     (\<forall>j r. r < arch_count j \<longrightarrow> reg_val j r M2 = (if j = k \<and> r = d then x else reg_val j r M))"

lemma write_mapped:
  assumes "ren_ok N F M" "d < arch_count k" "rat (rf M k) ! d = p"
  shows "\<exists>M2. on_rf k (write_prf p x) M = Inr M2 \<and> wrote N F k d x M M2"
proof (rule write_prf_mapped[OF assms, of x])
  fix M2 assume a: "on_rf k (write_prf p x) M = Inr M2" "ren_ok N F M2" "smem M2 = smem M" "curr M2 = curr M"
    "\<And>j. rat (rf M2 j) = rat (rf M j)"
    "\<And>j r. r < arch_count j \<Longrightarrow> reg_val j r M2 = (if j = k \<and> r = d then x else reg_val j r M)"
  then have "wrote N F k d x M M2" unfolding wrote_def by blast
  with a(1) show ?thesis by blast
qed

lemma two_results:
  assumes ok: "ren_ok N F M" "holds M s" and d: "d < arch_count k" "d' < arch_count k" "d \<noteq> d'"
    and g: "grows N F G M M1" "G = (\<lambda>j. if j = k then [(d, p, i), (d', p', i')] else [])"
    and s': "\<And>j r. r < arch_count j \<Longrightarrow>
      arch_reg j r s' = (if j = k \<and> r = d then x else if j = k \<and> r = d' then y else arch_reg j r s)"
  shows "\<exists>M2 M3. on_rf k (write_prf i x) M1 = Inr M2 \<and> on_rf k (write_prf i' y) M2 = Inr M3 \<and> holds M3 s' \<and>
    ren_ok N (\<lambda>j. F j @ G j) M3 \<and> smem M3 = smem M \<and> curr M3 = curr M"
proof -
  let ?F = "\<lambda>j. F j @ G j"
  have ok1: "ren_ok N ?F M1" using g(1) by (simp add: grows_def)
  have len: "length (rat (rf M j)) = arch_count j" for j by (rule renaming_invD(2)[OF ren_okD[OF ok(1)]])
  have rat1: "rat (rf M1 j) = (if j = k then (rat (rf M k))[d := i, d' := i'] else rat (rf M j))" for j
    using g by (simp add: grows_def)
  have m: "rat (rf M1 k) ! d = i" "rat (rf M1 k) ! d' = i'" using rat1 d len by simp_all
  obtain M2 where M2: "on_rf k (write_prf i x) M1 = Inr M2" "wrote N ?F k d x M1 M2"
    using write_mapped[OF ok1 d(1) m(1)] by blast
  have ok2: "ren_ok N ?F M2" "rat (rf M2 k) ! d' = i'" using M2(2) m(2) by (simp_all add: wrote_def)
  obtain M3 where M3: "on_rf k (write_prf i' y) M2 = Inr M3" "wrote N ?F k d' y M2 M3"
    using write_mapped[OF ok2(1) d(2) ok2(2)] by blast
  have eq: "reg_val j r M1 = reg_val j r M" if "\<not> (j = k \<and> (r = d \<or> r = d'))" for j r
    using that g(1) rat1[of j] by (auto simp: reg_val_def grows_def)
  have "reg_val j r M3 = arch_reg j r s'" if r: "r < arch_count j" for j r
    using r M2(2) M3(2) s'[OF r] ok(2) d(3) eq[of j r] by (auto simp: wrote_def holds_def)
  then have "holds M3 s'" by (simp add: holds_def)
  then show ?thesis using M2 M3 g(1) by (auto simp: grows_def wrote_def)
qed

section \<open>Multiplication and division\<close>

lemma mult_div_renamings:
  "op_renamings (Mult_div t) u = (\<lambda>j. if j = GPR then [(32, prev_lo_prf_idx u, lo_prf_idx u), (33, prev_hi_prf_idx u, hi_prf_idx u)] else [])"
  by (auto simp: op_renamings_def op_ids_def)

lemma set_lo_hi_reaches:
  assumes st: "started N F (Mult_div t) s M u u1 M1" and s': "s' = next_insn (set_hilo y s)"
  shows "reaches N (\<lambda>j. F j @ op_renamings (Mult_div t) u1 j) (smem M) s'
    (rbind (set_lo_hi y u1 M1) (\<lambda>M2. Inr (finish_in lat u1 M1, M2)))"
proof -
  have s: "ren_ok N F M" "holds M s" "grows N F (op_renamings (Mult_div t) u1) M M1" using st by (simp_all add: started_def)
  have "arch_reg j r s' = (if j = GPR \<and> r = 32 then lo32 y else if j = GPR \<and> r = 33 then hi32 y else arch_reg j r s)" for j r
    by (cases j) (simp_all add: s' set_hilo_def)
  then obtain M2 M3 where "on_rf GPR (write_prf (lo_prf_idx u1) (lo32 y)) M1 = Inr M2"
    "on_rf GPR (write_prf (hi_prf_idx u1) (hi32 y)) M2 = Inr M3" "holds M3 s'"
    "ren_ok N (\<lambda>j. F j @ op_renamings (Mult_div t) u1 j) M3" "smem M3 = smem M"
    using two_results[OF s(1,2) _ _ _ s(3) mult_div_renamings, of s' "lo32 y" "hi32 y"] by auto
  then show ?thesis by (simp add: reaches_def set_lo_hi_def)
qed

lemma mult_div_value:
  assumes "decode_op w = Inr (Some (Mult_div t))" "exec_insn P K w s = Inr s'" "t \<in> {Div, Divu} \<Longrightarrow> gpr s (rt_of w) \<noteq> 0" "t \<noteq> Maddu"
  defines "a \<equiv> gpr s (rs_of w)" and "b \<equiv> gpr s (rt_of w)"
  shows "\<not> (t = Div \<and> sint a = - (2 ^ 31) \<and> sint b = -1) \<and> s' = next_insn (set_hilo (case t of Mult \<Rightarrow> scast b * scast a | Multu \<Rightarrow> ucast b * ucast a
      | Madd \<Rightarrow> scast b * scast a + acc_of (hi s) (lo s) | Msub \<Rightarrow> acc_of (hi s) (lo s) - scast b * scast a
      | Div \<Rightarrow> le64 (word_of_int (sint a sdiv sint b)) (word_of_int (sint a smod sint b)) | _ \<Rightarrow> le64 (a div b) (a mod b)) s)"
proof -
  have "opcode_of w = 0 \<and> (t = Mult \<and> funct_of w = 0x18 \<or> t = Multu \<and> funct_of w = 0x19 \<or> t = Div \<and> funct_of w = 0x1A \<or> t = Divu \<and> funct_of w = 0x1B) \<or>
    opcode_of w = 0x1c \<and> (t = Madd \<and> funct_of w = 0 \<or> t = Msub \<and> funct_of w = 4)"
    using assms(1,4) by (cases rule: decode_cases) (auto simp: op_tables)
  then show ?thesis
    using assms(2,3)
    by (elim disjE conjE) (auto simp: exec_opcode0 exec_special2 execSpecial2_def execRType_def rtype_hilo_def ensure_Inr_iff set_hilo_def
        Let_def a_def b_def madd_acc_def acc_of_def mult.commute add.commute)
qed

lemma mult_div_refines:
  assumes st: "started N F (Mult_div t) s M u u1 M1" and dec: "decode_op (op_inst u) = Inr (Some (Mult_div t))"
    and ex: "exec_insn P K (op_inst u) s = Inr s'" and t: "t \<in> {Div, Divu} \<Longrightarrow> gpr s (rt_of (op_inst u)) \<noteq> 0" "t \<noteq> Maddu"
  shows "reaches N (\<lambda>j. F j @ op_renamings (Mult_div t) u1 j) (smem M) s' (mult_div_execute t u1 M1)"
proof -
  let ?w = "op_inst u"
  have src: "src_val GPR 0 u1 M1 = Inr (gpr s (rs_of ?w))" "src_val GPR 1 u1 M1 = Inr (gpr s (rt_of ?w))"
    "uses_acc t \<Longrightarrow> src_val GPR 2 u1 M1 = Inr (lo s)" "uses_acc t \<Longrightarrow> src_val GPR 3 u1 M1 = Inr (hi s)"
    using started_src[OF st, of 0 GPR "rs_of ?w"] started_src[OF st, of 1 GPR "rt_of ?w"] started_src[OF st, of 2 GPR 32]
      started_src[OF st, of 3 GPR 33] reg_less[of ?w] by auto
  note v = mult_div_value[OF dec ex t]
  have "\<exists>y lat. mult_div_execute t u1 M1 = rbind (set_lo_hi y u1 M1) (\<lambda>M2. Inr (finish_in lat u1 M1, M2)) \<and> s' = next_insn (set_hilo y s)"
    using v src t by (cases t) (auto simp: mult_div_execute_def uses_acc_def Let_def intro!: exI)
  then show ?thesis using set_lo_hi_reaches[OF st] by auto
qed

section \<open>All of them\<close>

text \<open>
  The integer operations that compute what the interpreter computes.  The core stops at \<open>add\<close>,
  \<open>sub\<close>, \<open>addi\<close> and \<open>maddu\<close>, keeps register zero by not renaming it in the two arithmetic classes,
  and leaves the registers of a division by zero with what they held.  A nop is the shift of
  register zero into itself by zero: it has no destination in the core and changes nothing.
\<close>

definition exact_op :: "mips_op \<Rightarrow> u32 \<Rightarrow> state \<Rightarrow> bool" where
  "exact_op op w s \<longleftrightarrow> (case op of
     Rtype_alu t \<Rightarrow> t \<notin> {Add, Sub, Teq} \<and> rd_of w \<noteq> 0
   | Rtype_const_shift t \<Rightarrow> rd_of w \<noteq> 0 \<or> w = 0
   | Itype_alu \<Rightarrow> rt_of w \<noteq> 0 \<and> opcode_of w \<noteq> 0x08
   | Itype_lui \<Rightarrow> rt_of w \<noteq> 0
   | Mult_div t \<Rightarrow> t \<noteq> Maddu \<and> (t \<in> {Div, Divu} \<longrightarrow> gpr s (rt_of w) \<noteq> 0)
   | Lo_hi_move t \<Rightarrow> True
   | Se_op t \<Rightarrow> True
   | _ \<Rightarrow> op \<in> {Mul_op, Clz_op, Ext_op, Ins_op, Movci_op, Mtc0, Mtc1, Mfc1})"

lemma exact_regs: "exact_op op w s \<Longrightarrow> regs_ok op w"
  by (cases op) (auto simp: exact_op_def regs_ok_def reg_less34 reg_less rtype_dest_def)

lemma rtype_no_dest:
  assumes "rtype_allocate two t u M = Inr (u1, M1, True)" "\<not> 0 < rtype_dest t (op_inst u)"
  shows "prf_idx u1 = prf_idx u"
proof -
  have s: "set_src i k d M v = Inr v' \<Longrightarrow> prf_idx v' = prf_idx v" for i k d v v' by (auto simp: set_src_def rbind_Inr_iff)
  obtain v1 v2 v3 where v: "set_src 0 GPR (rt_of (op_inst u)) M u = Inr v1" "(if two then set_src 1 GPR (rs_of (op_inst u)) M v1 else Inr v1) = Inr v2"
    "(if rtype_src2 t (op_inst u) \<noteq> -1 then set_src 2 GPR (nat (rtype_src2 t (op_inst u))) M v2 else Inr v2) = Inr v3" "u1 = v3"
    using assms by (simp add: rtype_allocate_def Let_def rbind_Inr_iff) blast
  have "prf_idx v1 = prf_idx u" by (rule s[OF v(1)])
  moreover have "prf_idx v2 = prf_idx v1" using v(2) s by (cases two) auto
  moreover have "prf_idx v3 = prf_idx v2" using v(3) s by (cases "rtype_src2 t (op_inst u) \<noteq> -1") auto
  ultimately show ?thesis using v(4) by simp
qed

lemma nop_refines:
  assumes st: "started N F (Rtype_const_shift t) s M u u1 M1" and w: "op_inst u = 0"
    and ex: "exec_insn P K (op_inst u) s = Inr s'" and p: "prf_idx u1 = -1"
  shows "reaches N (\<lambda>j. F j @ op_renamings (Rtype_const_shift t) u1 j) (smem M) s' (rtype_execute t u1 M1)"
proof -
  have f: "opcode_of 0 = 0" "funct_of 0 = 0" "rd_of 0 = 0" "rt_of 0 = 0" "sa_of 0 = 0" by code_simp+
  have s: "s' = next_insn (set_gpr 0 (gpr s 0) s)"
    using ex w f by (simp add: exec_opcode0 execRType_def rtype_shift_def alu_def Let_def)
  have R: "op_renamings (Rtype_const_shift t) u1 = (\<lambda>_. [])"
    using started_inst[OF st] w f(3) by (auto simp: op_renamings_def rtype_dest_def)
  have g: "ren_ok N F M1" "smem M1 = smem M" "\<And>k r. reg_val k r M1 = reg_val k r M"
    using st R by (simp_all add: started_def grows_def reg_val_def)
  have "holds M1 s'" using st s g(3) by (simp add: started_def holds_def)
  then show ?thesis using p g(1,2) R by (simp add: rtype_execute_def reaches_def Let_def)
qed

lemma nop_no_dest: "decode_op w = Inr (Some op) \<Longrightarrow> w = 0 \<Longrightarrow> op = Rtype_const_shift Sll \<and> op_dests op w = [] \<and> \<not> 0 < rtype_dest Sll w"
proof -
  assume a: "decode_op w = Inr (Some op)" "w = 0"
  have "decode_op 0 = Inr (Some (Rtype_const_shift Sll))" "rtype_dest Sll 0 = 0" by code_simp+
  then show ?thesis using a by auto
qed

lemma nop_no_reg:
  assumes "decode_op (op_inst u) = Inr (Some op)" "allocate_op op a u M = Inr (u1, M1, True)" "prf_idx u = -1" "op_inst u = 0"
  shows "prf_idx u1 = -1"
  using rtype_no_dest[of False Sll u M u1 M1] nop_no_dest[OF assms(1,4)] assms(2,3) by auto

lemma exact_refines:
  assumes st: "started N F op s M u u1 M1" and dec: "decode_op (op_inst u) = Inr (Some op)" and e: "exact_op op (op_inst u) s"
    and ex: "exec_insn P K (op_inst u) s = Inr s'" and r: "op \<in> {Mtc0, Mfc1} \<Longrightarrow> ready_op op u1 M1 = Inr True"
    and n: "op_inst u = 0 \<Longrightarrow> prf_idx u1 = -1"
  shows "reaches N (\<lambda>j. F j @ op_renamings op u1 j) (smem M) s' (execute_op S op a u1 M1)"
proof (cases op)
  case (Mult_div t)
  then show ?thesis using mult_div_refines[OF st[unfolded Mult_div] dec[unfolded Mult_div] ex] e r by (auto simp: exact_op_def)
next
  case (Rtype_alu t)
  then show ?thesis using rtype_refines[OF st[unfolded Rtype_alu] dec[unfolded Rtype_alu] _ _ ex] e by (auto simp: exact_op_def)
next
  case (Rtype_const_shift t)
  then show ?thesis
    using shift_refines[OF st[unfolded Rtype_const_shift] dec[unfolded Rtype_const_shift] _ ex] nop_refines[OF st[unfolded Rtype_const_shift] _ ex] e n
    by (auto simp: exact_op_def)
next
  case Itype_alu
  then show ?thesis using itype_refines[OF st[unfolded Itype_alu] dec[unfolded Itype_alu] _ _ ex] e by (auto simp: exact_op_def)
next
  case Itype_lui
  then show ?thesis using lui_refines[OF st[unfolded Itype_lui] dec[unfolded Itype_lui] _ ex] e by (auto simp: exact_op_def)
next
  case (Lo_hi_move t)
  then show ?thesis using lo_hi_refines[OF st[unfolded Lo_hi_move] dec[unfolded Lo_hi_move] ex] e r by (auto simp: exact_op_def)
next
  case Mul_op
  then show ?thesis using mul_refines[OF st[unfolded Mul_op] dec[unfolded Mul_op] ex] e r by (auto simp: exact_op_def)
next
  case Clz_op
  then show ?thesis using clz_refines[OF st[unfolded Clz_op] dec[unfolded Clz_op] ex] e r by (auto simp: exact_op_def)
next
  case (Se_op t)
  then show ?thesis using se_refines[OF st[unfolded Se_op] dec[unfolded Se_op] ex] e r by (auto simp: exact_op_def)
next
  case Ext_op
  then show ?thesis using ext_refines[OF st[unfolded Ext_op] dec[unfolded Ext_op] ex] e r by (auto simp: exact_op_def)
next
  case Ins_op
  then show ?thesis using ins_refines[OF st[unfolded Ins_op] dec[unfolded Ins_op] ex] e r by (auto simp: exact_op_def)
next
  case Movci_op
  then show ?thesis using movci_refines[OF st[unfolded Movci_op] dec[unfolded Movci_op] ex] e r by (auto simp: exact_op_def)
next
  case Mtc1
  then show ?thesis using mtc1_refines[OF st[unfolded Mtc1] dec[unfolded Mtc1] ex] e r by (auto simp: exact_op_def)
next
  case Mtc0
  then show ?thesis using mtc0_refines[OF st[unfolded Mtc0] dec[unfolded Mtc0] ex] e r by (auto simp: exact_op_def)
next
  case Mfc1
  then show ?thesis using mfc1_refines[OF st[unfolded Mfc1] dec[unfolded Mfc1] ex] e r by (auto simp: exact_op_def)
qed (use e in \<open>auto simp: exact_op_def\<close>)

end
