(* ===== verification/Op_Commit.thy ===== *)
theory Op_Commit
  imports Op_Refine_Special
begin

text \<open>
  Retirement and rollback of the operations: retiring the oldest instruction commits its renamings
  and its values, and rolling the youngest one back undoes what its allocation did.
\<close>

section \<open>Committed registers\<close>

fun put_committed :: "renaming list \<Rightarrow> u32 list \<Rightarrow> u32 list \<Rightarrow> u32 list" where
  "put_committed [] ph a = a"
| "put_committed ((d, prev, nid) # fs) ph a = put_committed fs ph (a[d := ph ! nat nid])"

text \<open>
  \<open>commits N R G M M1\<close>: the renamings \<open>R\<close> leave those in flight, of which \<open>G\<close> remain, and enter the
  retired mapping; their values enter the architectural registers, except those of coprocessor 0.
\<close>

definition commits :: "(rfile \<Rightarrow> nat) \<Rightarrow> (rfile \<Rightarrow> renaming list) \<Rightarrow> (rfile \<Rightarrow> renaming list) \<Rightarrow> sim_state \<Rightarrow> sim_state \<Rightarrow> bool" where
  "commits N R G M M1 \<longleftrightarrow> ren_ok N G M1 \<and> banks_ok M1 \<and> (\<forall>k. phys (rf M1 k) = phys (rf M k) \<and> rat (rf M1 k) = rat (rf M k) \<and>
     rat_retire (rf M1 k) = remap (R k) (rat_retire (rf M k)) \<and>
     (k \<noteq> CPR0 \<longrightarrow> arch (rf M1 k) = put_committed (R k) (phys (rf M k)) (arch (rf M k))))"

lemma put_committed_append: "put_committed (fs @ gs) ph a = put_committed gs ph (put_committed fs ph a)"
  by (induction fs ph a rule: put_committed.induct) auto

lemma commits_trans:
  "commits N R G' M M1 \<Longrightarrow> commits N R' G M1 M2 \<Longrightarrow> commits N (\<lambda>k. R k @ R' k) G M M2"
  by (simp add: commits_def put_committed_append)

lemma commits_none: "ren_ok N G M \<Longrightarrow> banks_ok M \<Longrightarrow> rf M1 = rf M \<Longrightarrow> commits N (\<lambda>_. []) G M M1"
  by (simp add: commits_def ren_ok_def banks_ok_def)

lemma commits_frame: "commits N R G M M1 \<Longrightarrow> rf M2 = rf M1 \<Longrightarrow> commits N R G M M2"
  by (simp add: commits_def ren_ok_def banks_ok_def)

lemma commits_frame_left: "commits N R G M0 M1 \<Longrightarrow> rf M0 = rf M \<Longrightarrow> commits N R G M M1"
  by (simp add: commits_def)

lemma commit_one:
  assumes ok: "ren_ok N (\<lambda>j. one k (d, p, nid) j @ G j) M" and b: "banks_ok M" and v: "vals \<or> k = CPR0"
  shows "\<exists>r. on_rf k (retire_reg vals ip d p nid) M = Inr (M\<lparr>rf := (rf M)(k := r)\<rparr>) \<and>
    commits N (one k (d, p, nid)) G M (M\<lparr>rf := (rf M)(k := r)\<rparr>)"
proof -
  have inv: "renaming_inv (arch_count k) (N k) ((d, p, nid) # G k) (rf M k)" using ren_okD[OF ok, of k] by (simp add: one_def)
  have d: "d < arch_count k" using renaming_invD(1,7)[OF inv] by simp
  then have len: "vals \<Longrightarrow> d < length (arch (rf M k))" "ip \<noteq> None \<Longrightarrow> d < length (arch_last_pc (rf M k))"
    using b by (simp_all add: banks_ok_def)
  obtain r where r: "retire_reg vals ip d p nid (rf M k) = Inr r" "renaming_inv (arch_count k) (N k) (G k) r"
    "phys r = phys (rf M k)" "rat r = rat (rf M k)" "rat_retire r = (rat_retire (rf M k))[d := nid]"
    "arch r = (if vals then (arch (rf M k))[d := phys (rf M k) ! nat nid] else arch (rf M k))"
    "length (arch_last_pc r) = length (arch_last_pc (rf M k))"
    using retire_ok[OF inv len] by metis
  have others: "renaming_inv (arch_count j) (N j) (G j) (rf M j)" if "j \<noteq> k" for j
    using ren_okD[OF ok, of j] that by (simp add: one_def)
  have "commits N (one k (d, p, nid)) G M (M\<lparr>rf := (rf M)(k := r)\<rparr>)"
    using r others b v by (auto simp: commits_def ren_ok_def banks_ok_def one_def)
  then show ?thesis using r(1) by (auto simp: on_rf_def)
qed

lemma commit_two:
  assumes ok: "ren_ok N (\<lambda>j. (if j = k then [(d, p, i), (d', p', i')] else []) @ G j) M" and b: "banks_ok M" and k: "k \<noteq> CPR0"
  shows "\<exists>r1 r2. on_rf k (retire_reg True ip d p i) M = Inr (M\<lparr>rf := (rf M)(k := r1)\<rparr>) \<and>
    on_rf k (retire_reg True ip' d' p' i') (M\<lparr>rf := (rf M)(k := r1)\<rparr>) = Inr (M\<lparr>rf := (rf M)(k := r2)\<rparr>) \<and>
    commits N (\<lambda>j. if j = k then [(d, p, i), (d', p', i')] else []) G M (M\<lparr>rf := (rf M)(k := r2)\<rparr>)"
proof -
  let ?G = "\<lambda>j. one k (d', p', i') j @ G j"
  have eq: "(\<lambda>j. (if j = k then [(d, p, i), (d', p', i')] else []) @ G j) = (\<lambda>j. one k (d, p, i) j @ ?G j)"
    by (auto simp: one_def)
  obtain r1 where r1: "on_rf k (retire_reg True ip d p i) M = Inr (M\<lparr>rf := (rf M)(k := r1)\<rparr>)"
    "commits N (one k (d, p, i)) ?G M (M\<lparr>rf := (rf M)(k := r1)\<rparr>)" using commit_one[of N k d p i ?G M True ip] ok b eq by auto
  have ok1: "ren_ok N ?G (M\<lparr>rf := (rf M)(k := r1)\<rparr>)" "banks_ok (M\<lparr>rf := (rf M)(k := r1)\<rparr>)" using r1(2) by (simp_all add: commits_def)
  from commit_one[OF ok1, of True ip'] obtain r2 where
    r2: "on_rf k (retire_reg True ip' d' p' i') (M\<lparr>rf := (rf M)(k := r1)\<rparr>) = Inr (M\<lparr>rf := (rf M)(k := r2)\<rparr>)"
    "commits N (one k (d', p', i')) G (M\<lparr>rf := (rf M)(k := r1)\<rparr>) (M\<lparr>rf := (rf M)(k := r2)\<rparr>)" by auto
  have "(\<lambda>j. one k (d, p, i) j @ one k (d', p', i') j) = (\<lambda>j. if j = k then [(d, p, i), (d', p', i')] else [])"
    by (auto simp: one_def)
  then show ?thesis using r1(1) r2(1) commits_trans[OF r1(2) r2(2)] by auto
qed

section \<open>Retirement\<close>

text \<open>What allocation leaves in a descriptor that has no destination, or only one.\<close>

definition settled :: "mips_op \<Rightarrow> mips_meta_op \<Rightarrow> bool" where
  "settled op u \<longleftrightarrow> (op_dests op (op_inst u) = [] \<longrightarrow> prf_idx u = -1 \<and> prev_prf_idx u = -1) \<and>
     (length (op_dests op (op_inst u)) \<le> 1 \<longrightarrow> aux_prf_idx u = -1)"

definition in_table :: "int \<Rightarrow> nat option list \<Rightarrow> bool" where
  "in_table i t \<longleftrightarrow> 0 \<le> i \<and> i < int (length t)"

text \<open>
  What the retirement of a class relies on beside its registers: an immediate operation on register
  zero, a trap, a load that is to be repeated and predictors that cannot be trained stop the
  simulator.  The monitor call is left out, for its services call the host.
\<close>

definition trainable :: "sim_param \<Rightarrow> mips_meta_op \<Rightarrow> bool \<Rightarrow> sim_state \<Rightarrow> bool" where
  "trainable S u t M \<longleftrightarrow> (\<exists>bp. update_br (bpar S) (op_pc u) (pht_idx u) t (branch_pred M) = Inr bp) \<and>
     (\<exists>M1. update_histories (op_pc u) t M = Inr M1) \<and>
     (case loop_pred M of None \<Rightarrow> True | Some l \<Rightarrow> \<exists>l1. update_lp (op_pc u) t (predict_taken u) l = Inr l1)"

definition storable :: "(sparse_mem \<Rightarrow> sparse_mem res) \<Rightarrow> mips_meta_op \<Rightarrow> sim_state \<Rightarrow> bool" where
  "storable f u M \<longleftrightarrow> (\<exists>m. f (smem M) = Inr m) \<and> in_table (store_tbl_idx u) (store_tbl M) \<and>
     (\<forall>a. Some a \<in> set (load_tbl M) \<longrightarrow> (\<exists>ld. ops M a = Some ld \<and> mop ld \<noteq> None))"

definition retirable :: "sim_param \<Rightarrow> mips_op \<Rightarrow> mips_meta_op \<Rightarrow> sim_state \<Rightarrow> bool" where
  "retirable S op u M \<longleftrightarrow> (case op of
     Itype_alu \<Rightarrow> is_complete u \<and> 0 < rt_of (op_inst u) | Itype_lui \<Rightarrow> is_complete u \<and> 0 < rt_of (op_inst u)
   | Rtype_alu t \<Rightarrow> \<not> take_trap u | Rtype_const_shift t \<Rightarrow> \<not> take_trap u
   | Jump t \<Rightarrow> trainable S u True M | Branch t \<Rightarrow> trainable S u (take_br u) M
   | Load_op t \<Rightarrow> \<not> load_exception u \<and> in_table (load_tbl_idx u) (load_tbl M)
   | Fp_load t \<Rightarrow> in_table (load_tbl_idx u) (load_tbl M)
   | Store_op t \<Rightarrow> storable (store_write t (effective_address u) (store_data u)) u M
   | Fp_store t \<Rightarrow> storable (case t of Swc1 \<Rightarrow> set32 (effective_address u) (bswap32 (store_data u))
       | Sdc1 \<Rightarrow> set64 (effective_address u) (bswap64 (le64 (store_data u) (store_data1 u)))) u M
   | Monitor_op \<Rightarrow> False | _ \<Rightarrow> True)"

definition retires :: "(rfile \<Rightarrow> nat) \<Rightarrow> (rfile \<Rightarrow> renaming list) \<Rightarrow> (rfile \<Rightarrow> renaming list) \<Rightarrow> sim_state \<Rightarrow>
    (mips_meta_op \<times> sim_state) res \<Rightarrow> bool" where
  "retires N R G M x \<longleftrightarrow> (\<exists>u' M'. x = Inr (u', M') \<and> commits N R G M M' \<and> sicnt M' = sicnt M + 1 \<and> tables_ok M')"

lemma retires_from:
  assumes "commits N R G M (M\<lparr>rf := r\<rparr>)" "tables_ok M" "x = Inr (M\<lparr>rf := r\<rparr>)"
  shows "retires N R G M (rbind x (count_retired v))" "retires N R G M (rbind x (count_icnt v))"
  using assms by (simp_all add: retires_def count_retired_def count_icnt_def tables_ok_def commits_def ren_ok_def banks_ok_def)

lemma retires_dest:
  assumes "ren_ok N (\<lambda>j. one k (d, prev_prf_idx u, prf_idx u) j @ G j) M" "banks_ok M" "vals \<or> k = CPR0" "tables_ok M"
  shows "retires N (one k (d, prev_prf_idx u, prf_idx u)) G M (rbind (retire_dest vals ip k d u M) (count_retired v))"
    "retires N (one k (d, prev_prf_idx u, prf_idx u)) G M (rbind (retire_dest vals ip k d u M) (count_icnt v))"
  using commit_one[OF assms(1-3), of ip] retires_from[OF _ assms(4)] by (auto simp: retire_dest_def)

lemma one_bounds:
  assumes "ren_ok N (\<lambda>j. one k (d, p, i) j @ G j) M"
  shows "0 \<le> p" "0 \<le> i" "d < arch_count k"
proof -
  have inv: "renaming_inv (arch_count k) (N k) ((d, p, i) # G k) (rf M k)" using ren_okD[OF assms, of k] by (simp add: one_def)
  have d: "d < length (rat_retire (rf M k))" "rat_retire (rf M k) ! d = p" using renaming_invD(7)[OF inv] by simp_all
  then have "p \<in> set (rat_retire (rf M k))" by (metis nth_mem)
  then show "0 \<le> p" "0 \<le> i" using renaming_inv_bounds[OF inv] by auto
  show "d < arch_count k" using d(1) renaming_invD(1)[OF inv] by simp
qed

lemma two_bounds:
  assumes "ren_ok N (\<lambda>j. (if j = k then [(d, p, i), (d', p', i')] else []) @ G j) M"
  shows "0 \<le> i'"
proof -
  have "renaming_inv (arch_count k) (N k) ([(d, p, i), (d', p', i')] @ G k) (rf M k)" using ren_okD[OF assms, of k] by simp
  from renaming_inv_bounds[OF this, of i'] show ?thesis by simp
qed

lemma pair_of_eq:
  "pair_of True d p i p' i' = (\<lambda>j. if j = CPR1 then [(d, p, i), (d + 1, p', i')] else [])"
  "pair_of False d p i p' i' = one CPR1 (d, p, i)"
  by (auto simp: pair_of_def one_def)

lemma retires_pair:
  assumes "ren_ok N (\<lambda>j. pair_of two d (prev_prf_idx u) (prf_idx u) (aux_prev_prf_idx u) (aux_prf_idx u) j @ G j) M" "banks_ok M" "tables_ok M"
  defines "R \<equiv> pair_of two d (prev_prf_idx u) (prf_idx u) (aux_prev_prf_idx u) (aux_prf_idx u)"
  shows "retires N R G M (rbind (retire_pair two p0 p1 d u M) (count_retired v))"
    "retires N R G M (rbind (retire_pair two p0 p1 d u M) (count_icnt v))"
proof -
  have "\<exists>r. retire_pair two p0 p1 d u M = Inr (M\<lparr>rf := (rf M)(CPR1 := r)\<rparr>) \<and> commits N R G M (M\<lparr>rf := (rf M)(CPR1 := r)\<rparr>)"
  proof (cases two)
    case True
    then show ?thesis
      using commit_two[of N CPR1 d "prev_prf_idx u" "prf_idx u" "d + 1" "aux_prev_prf_idx u" "aux_prf_idx u" G M p0 p1] assms(1,2)
      by (auto simp: R_def pair_of_eq retire_pair_def retire_dest_def retire_aux_def)
  next
    case False
    then show ?thesis
      using commit_one[of N CPR1 d "prev_prf_idx u" "prf_idx u" G M True p0] assms(1,2)
      by (auto simp: R_def pair_of_eq retire_pair_def retire_dest_def)
  qed
  then show "retires N R G M (rbind (retire_pair two p0 p1 d u M) (count_retired v))"
    "retires N R G M (rbind (retire_pair two p0 p1 d u M) (count_icnt v))"
    using retires_from[OF _ assms(3)] by blast+
qed

lemma renamings_none: "op_dests op (op_inst u) = [] \<Longrightarrow> op_renamings op u = (\<lambda>_. [])"
  by (auto simp: op_renamings_def)

lemma renamings_pair:
  assumes "op_dests op (op_inst u) = fp_dests two d" "\<And>t. op \<noteq> Mult_div t"
  shows "op_renamings op u = pair_of two d (prev_prf_idx u) (prf_idx u) (aux_prev_prf_idx u) (aux_prf_idx u)"
proof -
  have "op_ids op u = [(prev_prf_idx u, prf_idx u), (aux_prev_prf_idx u, aux_prf_idx u)]"
    using assms(2) by (cases op) (auto simp: op_ids_def)
  then show ?thesis using assms(1) by (auto simp: op_renamings_def pair_of_def fp_dests_def)
qed

lemma retires_none:
  "ren_ok N G M \<Longrightarrow> banks_ok M \<Longrightarrow> tables_ok M \<Longrightarrow> retires N (\<lambda>_. []) G M (count_retired u M)"
  by (auto simp: retires_def count_retired_def tables_ok_def intro: commits_none)

section \<open>The classes\<close>

lemma rtype_retire_ok:
  assumes ok: "ren_ok N (\<lambda>j. op_renamings op u j @ G j) M" "banks_ok M" "tables_ok M" and op: "op \<in> {Rtype_alu t, Rtype_const_shift t}"
    and s: "settled op u" "\<not> take_trap u"
  shows "retires N (op_renamings op u) G M (rtype_retire t u M)"
proof (cases "0 < rtype_dest t (op_inst u)")
  case True
  let ?d = "nat (rtype_dest t (op_inst u))"
  have d: "op_dests op (op_inst u) = [(GPR, ?d)]" using op True by (auto simp: rtype_dest_def split: if_splits)
  have R: "op_renamings op u = one GPR (?d, prev_prf_idx u, prf_idx u)" by (rule renamings_single[OF d]) (use op in auto)
  have "prev_prf_idx u \<noteq> -1" "prf_idx u \<noteq> -1" using one_bounds(1,2)[OF ok(1)[unfolded R]] by simp_all
  then have "rtype_retire t u M = rbind (retire_dest True (Some (op_pc u)) GPR ?d u M) (count_retired u)"
    using s(2) by (simp add: rtype_retire_def Let_def retire_dest_def retire_reg_def on_rf_def rbind_assoc)
  then show ?thesis using retires_dest(1)[OF ok(1)[unfolded R] ok(2) _ ok(3)] by (simp add: R)
next
  case False
  then have "op_dests op (op_inst u) = []" using op by auto
  then show ?thesis using retires_none[OF _ ok(2,3)] ok(1) s
    by (simp add: rtype_retire_def settled_def renamings_none Let_def)
qed

lemma mult_div_retire_ok:
  assumes ok: "ren_ok N (\<lambda>j. op_renamings (Mult_div t) u j @ G j) M" "banks_ok M" "tables_ok M"
  shows "retires N (op_renamings (Mult_div t) u) G M (mult_div_retire u M)"
proof -
  obtain r1 r2 where r: "on_rf GPR (retire_reg True (Some (op_pc u)) 32 (prev_lo_prf_idx u) (lo_prf_idx u)) M = Inr (M\<lparr>rf := (rf M)(GPR := r1)\<rparr>)"
    "on_rf GPR (retire_reg True (Some (op_pc u)) 33 (prev_hi_prf_idx u) (hi_prf_idx u)) (M\<lparr>rf := (rf M)(GPR := r1)\<rparr>) = Inr (M\<lparr>rf := (rf M)(GPR := r2)\<rparr>)"
    "commits N (op_renamings (Mult_div t) u) G M (M\<lparr>rf := (rf M)(GPR := r2)\<rparr>)"
    using commit_two[OF ok(1)[unfolded mult_div_renamings] ok(2)] unfolding mult_div_renamings by blast
  show ?thesis using retires_from(1)[OF r(3) ok(3) refl, of u] r(1,2) by (simp add: mult_div_retire_def)
qed

lemma retires_frame_left:
  "retires N R G M1 x \<Longrightarrow> rf M1 = rf M \<Longrightarrow> sicnt M1 = sicnt M \<Longrightarrow> retires N R G M x"
  by (auto simp: retires_def intro: commits_frame_left)

lemma leave_load_ok:
  assumes "tables_ok M" "in_table i (load_tbl M)"
  shows "\<exists>t v. leave_load i M = Inr (M\<lparr>load_tbl := t, load_tbl_freevec := v\<rparr>) \<and> tables_ok (M\<lparr>load_tbl := t, load_tbl_freevec := v\<rparr>)"
proof -
  have i: "0 \<le> i" "i < int (length (load_tbl M))" using assms(2) by (simp_all add: in_table_def)
  have "wf_vec (length (load_tbl M)) (load_tbl_freevec M)" using assms(1) by (simp add: tables_ok_def)
  then obtain v where v: "bv_clear (load_tbl_freevec M) i = Inr v" "wf_vec (length (load_tbl M)) v" using i by (rule bv_clear_ok)
  show ?thesis
    by (rule exI[of _ "(load_tbl M)[nat i := None]"], rule exI[of _ v])
      (use v i assms(1) in \<open>simp add: leave_load_def put_idx_ok tables_ok_def\<close>)
qed

lemma leave_store_ok:
  assumes "tables_ok M" "in_table i (store_tbl M)"
  shows "\<exists>t v. leave_store i M = Inr (M\<lparr>store_tbl := t, store_tbl_freevec := v\<rparr>) \<and> tables_ok (M\<lparr>store_tbl := t, store_tbl_freevec := v\<rparr>)"
proof -
  have i: "0 \<le> i" "i < int (length (store_tbl M))" using assms(2) by (simp_all add: in_table_def)
  have "wf_vec (length (store_tbl M)) (store_tbl_freevec M)" using assms(1) by (simp add: tables_ok_def)
  then obtain v where v: "bv_clear (store_tbl_freevec M) i = Inr v" "wf_vec (length (store_tbl M)) v" using i by (rule bv_clear_ok)
  show ?thesis
    by (rule exI[of _ "(store_tbl M)[nat i := None]"], rule exI[of _ v])
      (use v i assms(1) in \<open>simp add: leave_store_def put_idx_ok tables_ok_def\<close>)
qed

lemma load_retire_ok:
  assumes ok: "ren_ok N (\<lambda>j. op_renamings (Load_op t) u j @ G j) M" "banks_ok M" "tables_ok M"
    and l: "\<not> load_exception u" "in_table (load_tbl_idx u) (load_tbl M)"
  shows "retires N (op_renamings (Load_op t) u) G M (load_retire u M)"
proof -
  obtain tb v where x: "leave_load (load_tbl_idx u) M = Inr (M\<lparr>load_tbl := tb, load_tbl_freevec := v\<rparr>)"
    "tables_ok (M\<lparr>load_tbl := tb, load_tbl_freevec := v\<rparr>)" using leave_load_ok[OF ok(3) l(2)] by blast
  let ?M = "M\<lparr>load_tbl := tb, load_tbl_freevec := v\<rparr>"
  have R: "op_renamings (Load_op t) u = one GPR (rt_of (op_inst u), prev_prf_idx u, prf_idx u)" by (simp add: renamings_single)
  have "retires N (one GPR (rt_of (op_inst u), prev_prf_idx u, prf_idx u)) G ?M (rbind (retire_dest True (Some (op_pc u)) GPR (rt_of (op_inst u)) u ?M) (count_retired u))"
    by (rule retires_dest) (use ok x in \<open>simp_all add: R ren_ok_def banks_ok_def\<close>)
  then show ?thesis using x(1) l(1)
    by (auto simp: R load_retire_def retire_gpr_def intro: retires_frame_left)
qed

lemma fp_load_retire_ok:
  assumes ok: "ren_ok N (\<lambda>j. op_renamings (Fp_load t) u j @ G j) M" "banks_ok M" "tables_ok M"
    and l: "settled (Fp_load t) u" "in_table (load_tbl_idx u) (load_tbl M)"
  shows "retires N (op_renamings (Fp_load t) u) G M (fp_load_retire u M)"
proof -
  obtain tb v where x: "leave_load (load_tbl_idx u) M = Inr (M\<lparr>load_tbl := tb, load_tbl_freevec := v\<rparr>)"
    "tables_ok (M\<lparr>load_tbl := tb, load_tbl_freevec := v\<rparr>)" using leave_load_ok[OF ok(3) l(2)] by blast
  let ?M = "M\<lparr>load_tbl := tb, load_tbl_freevec := v\<rparr>" and ?two = "is_double_load t" and ?d = "rt_of (op_inst u)"
  have R: "op_renamings (Fp_load t) u = pair_of ?two ?d (prev_prf_idx u) (prf_idx u) (aux_prev_prf_idx u) (aux_prf_idx u)"
    by (simp add: renamings_pair)
  have two: "(aux_prf_idx u \<noteq> -1) = ?two"
    using l(1) two_bounds[of N CPR1 ?d "prev_prf_idx u" "prf_idx u" "?d + 1" "aux_prev_prf_idx u" "aux_prf_idx u" G M] ok(1)[unfolded R]
    by (cases ?two) (auto simp: pair_of_eq settled_def fp_dests_def)
  have "retires N (pair_of ?two ?d (prev_prf_idx u) (prf_idx u) (aux_prev_prf_idx u) (aux_prf_idx u)) G ?M
      (rbind (retire_pair ?two (Some (op_pc u)) (Some (op_pc u)) ?d u ?M) (count_retired u))"
    by (rule retires_pair) (use ok x in \<open>simp_all add: R ren_ok_def banks_ok_def\<close>)
  then show ?thesis using x(1) two
    by (auto simp: R fp_load_retire_def intro: retires_frame_left)
qed

lemma check_violation_ok:
  assumes "\<forall>a. Some a \<in> set (load_tbl M) \<longrightarrow> (\<exists>ld. ops M a = Some ld \<and> mop ld \<noteq> None)"
  shows "\<exists>al t. check_violation u M = Inr (M\<lparr>load_alias_map := al, ops := t\<rparr>)"
proof -
  have scan: "\<exists>al' b. violation_scan ts u M al = Inr (al', b)" if "set ts \<subseteq> set (load_tbl M)" for ts al
    using that
  proof (induction ts arbitrary: al)
    case (Cons x ts)
    then have IH: "\<exists>al' b. violation_scan ts u M al = Inr (al', b)" for al by simp
    show ?case
    proof (cases x)
      case (Some a)
      then obtain ld where ld: "ops M a = Some ld" "mop ld \<noteq> None" using Cons.prems assms by auto
      show ?thesis
        using IH[of al] IH[of "al(op_pc ld := insert (op_pc u) (al (op_pc ld)))"] ld Some by (auto simp: op_at_def)
    qed (use IH[of al] in simp)
  qed auto
  obtain al b where "violation_scan (load_tbl M) u M (load_alias_map M) = Inr (al, b)" using scan by blast
  then have "check_violation u M = Inr (M\<lparr>load_alias_map := al, ops := if b then mark_loads (load_tbl M) (ops M) else ops M\<rparr>)"
    by (simp add: check_violation_def)
  then show ?thesis by blast
qed

lemma store_done_ok:
  assumes ok: "ren_ok N G M" "banks_ok M" "tables_ok M" and s: "storable f u M"
  shows "retires N (\<lambda>_. []) G M (rbind (put_mem f M) (\<lambda>M1. rbind (check_violation u M1) (\<lambda>M2.
    rbind (leave_store (store_tbl_idx u) M2) (count_retired u))))"
proof -
  obtain m where m: "f (smem M) = Inr m" using s by (auto simp: storable_def)
  have "\<forall>a. Some a \<in> set (load_tbl (M\<lparr>smem := m\<rparr>)) \<longrightarrow> (\<exists>ld. ops (M\<lparr>smem := m\<rparr>) a = Some ld \<and> mop ld \<noteq> None)"
    using s by (simp add: storable_def)
  from check_violation_ok[OF this, of u] obtain al t where
    c: "check_violation u (M\<lparr>smem := m\<rparr>) = Inr (M\<lparr>smem := m, load_alias_map := al, ops := t\<rparr>)" by auto
  let ?M = "M\<lparr>smem := m, load_alias_map := al, ops := t\<rparr>"
  have "tables_ok ?M" "in_table (store_tbl_idx u) (store_tbl ?M)" using ok(3) s by (simp_all add: tables_ok_def storable_def)
  from leave_store_ok[OF this] obtain tb v where l: "leave_store (store_tbl_idx u) ?M = Inr (?M\<lparr>store_tbl := tb, store_tbl_freevec := v\<rparr>)"
    "tables_ok (?M\<lparr>store_tbl := tb, store_tbl_freevec := v\<rparr>)" by blast
  have "retires N (\<lambda>_. []) G (?M\<lparr>store_tbl := tb, store_tbl_freevec := v\<rparr>) (count_retired u (?M\<lparr>store_tbl := tb, store_tbl_freevec := v\<rparr>))"
    by (rule retires_none) (use ok l(2) in \<open>simp_all add: ren_ok_def banks_ok_def\<close>)
  then have "retires N (\<lambda>_. []) G M (count_retired u (?M\<lparr>store_tbl := tb, store_tbl_freevec := v\<rparr>))"
    by (rule retires_frame_left) simp_all
  then show ?thesis using m c l(1) by (simp add: put_mem_def)
qed

lemma update_histories_ok:
  assumes "\<exists>M1. update_histories ip t M0 = Inr M1" "bht M = bht M0" "bhr M = bhr M0"
  shows "\<exists>h g. update_histories ip t M = Inr (M\<lparr>bht := h, bhr := g\<rparr>)"
  using assms by (auto simp: update_histories_def Let_def ensure_Inr_iff rbind_Inr_iff)

lemma jump_retire_ok:
  assumes ok: "ren_ok N (\<lambda>j. op_renamings (Jump t) u j @ G j) M" "banks_ok M" "tables_ok M"
    and s: "settled (Jump t) u" "trainable S u True M"
  shows "retires N (op_renamings (Jump t) u) G M (jump_retire S t u M)"
proof -
  have "\<exists>r. (if prev_prf_idx u \<noteq> -1 then retire_dest True (Some (op_pc u)) GPR (nat (jump_dest t)) u M else Inr M) = Inr (M\<lparr>rf := r\<rparr>) \<and>
      commits N (op_renamings (Jump t) u) G M (M\<lparr>rf := r\<rparr>)"
  proof (cases "jump_dest t = -1")
    case True
    then have R: "op_renamings (Jump t) u = (\<lambda>_. [])" by (simp add: renamings_none)
    have "prev_prf_idx u = -1" using s(1) True by (simp add: settled_def)
    moreover have "commits N (\<lambda>_. []) G M (M\<lparr>rf := rf M\<rparr>)" by (rule commits_none) (use ok R in simp_all)
    ultimately show ?thesis using R by (intro exI[of _ "rf M"]) simp
  next
    case False
    then have d: "op_dests (Jump t) (op_inst u) = [(GPR, 31)]" "nat (jump_dest t) = 31"
      by (simp_all add: jump_dest_def split: if_splits)
    have R: "op_renamings (Jump t) u = one GPR (31, prev_prf_idx u, prf_idx u)" by (rule renamings_single[OF d(1)]) simp
    have "prev_prf_idx u \<noteq> -1" using one_bounds(1)[OF ok(1)[unfolded R]] by simp
    then show ?thesis
      using commit_one[OF ok(1)[unfolded R] ok(2), of True "Some (op_pc u)"] d(2) R by (auto simp: retire_dest_def)
  qed
  then obtain r where r: "(if prev_prf_idx u \<noteq> -1 then retire_dest True (Some (op_pc u)) GPR (nat (jump_dest t)) u M else Inr M) = Inr (M\<lparr>rf := r\<rparr>)"
    "commits N (op_renamings (Jump t) u) G M (M\<lparr>rf := r\<rparr>)" by blast
  obtain bp where bp: "update_br (bpar S) (op_pc u) (pht_idx u) True (branch_pred M) = Inr bp" using s(2) by (auto simp: trainable_def)
  let ?M2 = "count (\<lambda>c. c\<lparr>n_jumps := n_jumps c + 1\<rparr>) (M\<lparr>rf := r, branch_target_map := (branch_target_map M)(op_pc u \<mapsto> correct_pc u),
         branch_prediction_map := (branch_prediction_map M)(op_pc u \<mapsto> 3)\<rparr>)"
  have "\<exists>M1. update_histories (op_pc u) True M = Inr M1" using s(2) by (simp add: trainable_def)
  from update_histories_ok[OF this, of "?M2\<lparr>branch_pred := bp\<rparr>"] obtain h g where
    h: "update_histories (op_pc u) True (?M2\<lparr>branch_pred := bp\<rparr>) = Inr (?M2\<lparr>branch_pred := bp, bht := h, bhr := g\<rparr>)"
    by (auto simp: count_def)
  have "jump_retire S t u M = count_retired u (if exc u = Branch_exception
      then (count (count_jump_miss t) (?M2\<lparr>branch_pred := bp, bht := h, bhr := g\<rparr>))\<lparr>alloc_blocked := True\<rparr>
      else ?M2\<lparr>branch_pred := bp, bht := h, bhr := g\<rparr>)"
    using r(1) bp h by (simp add: jump_retire_def Let_def count_def)
  moreover have "commits N (op_renamings (Jump t) u) G M M'" if "rf M' = r" for M' using commits_frame[OF r(2), of M'] that by simp
  ultimately show ?thesis using ok(3) by (auto simp: retires_def count_retired_def count_def tables_ok_def)
qed

lemma loop_update_ok:
  assumes "case loop_pred M of None \<Rightarrow> True | Some l \<Rightarrow> \<exists>l1. update_lp ip t p l = Inr l1"
  shows "\<exists>lp. (case loop_pred M of Some l \<Rightarrow> (if b then rbind (update_lp ip t p l) (\<lambda>l1. Inr (M\<lparr>loop_pred := Some l1\<rparr>)) else Inr M)
    | None \<Rightarrow> Inr M) = Inr (M\<lparr>loop_pred := lp\<rparr>)"
proof (cases "loop_pred M")
  case None
  then show ?thesis by (intro exI[of _ None]) simp
next
  case (Some l)
  then obtain l1 where "update_lp ip t p l = Inr l1" using assms by auto
  then show ?thesis using Some by (intro exI[of _ "if b then Some l1 else Some l"]) simp
qed

lemma branch_retire_ok:
  assumes ok: "ren_ok N G M" "banks_ok M" "tables_ok M" and s: "trainable S u (take_br u) M"
  shows "retires N (\<lambda>_. []) G M (branch_retire S u M)"
proof -
  let ?M1 = "count (\<lambda>c. c\<lparr>n_branches := n_branches c + 1,
         mispredicted_branches := mispredicted_branches c + of_bool (exc u = Branch_exception)\<rparr>) M"
  have "case loop_pred ?M1 of None \<Rightarrow> True | Some l \<Rightarrow> \<exists>l1. update_lp (op_pc u) (take_br u) (predict_taken u) l = Inr l1"
    using s by (simp add: trainable_def count_def)
  from loop_update_ok[OF this, of "br_target u < op_pc u"] obtain lp where
    lp: "(case loop_pred ?M1 of Some l \<Rightarrow>
          (if br_target u < op_pc u then rbind (update_lp (op_pc u) (take_br u) (predict_taken u) l) (\<lambda>l1. Inr (?M1\<lparr>loop_pred := Some l1\<rparr>)) else Inr ?M1)
        | None \<Rightarrow> Inr ?M1) = Inr (?M1\<lparr>loop_pred := lp\<rparr>)" by blast
  let ?M2 = "?M1\<lparr>loop_pred := lp\<rparr>"
  obtain bp where bp: "update_br (bpar S) (op_pc u) (pht_idx u) (take_br u) (branch_pred ?M2) = Inr bp"
    using s by (auto simp: trainable_def count_def)
  have "\<exists>M1. update_histories (op_pc u) (take_br u) M = Inr M1" using s by (simp add: trainable_def)
  from update_histories_ok[OF this, of "?M2\<lparr>branch_pred := bp\<rparr>"] obtain h g where
    h: "update_histories (op_pc u) (take_br u) (?M2\<lparr>branch_pred := bp\<rparr>) = Inr (?M2\<lparr>branch_pred := bp, bht := h, bhr := g\<rparr>)"
    by (auto simp: count_def)
  let ?M4 = "?M2\<lparr>branch_pred := bp, bht := h, bhr := g, branch_target_map := (branch_target_map M)(op_pc u \<mapsto> br_target u),
            branch_prediction_map := bump_prediction (op_pc u) (take_br u) (branch_prediction_map M)\<rparr>"
  have "branch_retire S u M = count_retired u ?M4"
    unfolding branch_retire_def Let_def lp by (simp add: bp[simplified] h) (simp add: count_def)
  moreover have "retires N (\<lambda>_. []) G ?M4 (count_retired u ?M4)"
    by (rule retires_none) (use ok in \<open>simp_all add: ren_ok_def banks_ok_def tables_ok_def count_def\<close>)
  ultimately show ?thesis by (auto simp: count_def intro: retires_frame_left)
qed

lemma retires_fp_pair:
  assumes ok: "ren_ok N (\<lambda>j. op_renamings op u j @ G j) M" "banks_ok M" "tables_ok M"
    and d: "op_dests op (op_inst u) = fp_dests two d" "\<And>t. op \<noteq> Mult_div t" and s: "settled op u"
  shows "retires N (op_renamings op u) G M (rbind (retire_pair two p0 p1 d u M) (count_retired v))"
    "retires N (op_renamings op u) G M (rbind (retire_pair (aux_prf_idx u \<noteq> -1) p0 p1 d u M) (count_icnt v))"
proof -
  have R: "op_renamings op u = pair_of two d (prev_prf_idx u) (prf_idx u) (aux_prev_prf_idx u) (aux_prf_idx u)"
    by (rule renamings_pair[OF d])
  have "(aux_prf_idx u \<noteq> -1) = two"
    using s d(1) two_bounds[of N CPR1 d "prev_prf_idx u" "prf_idx u" "d + 1" "aux_prev_prf_idx u" "aux_prf_idx u" G M] ok(1)[unfolded R]
    by (cases two) (auto simp: pair_of_eq settled_def fp_dests_def)
  then show "retires N (op_renamings op u) G M (rbind (retire_pair two p0 p1 d u M) (count_retired v))"
    "retires N (op_renamings op u) G M (rbind (retire_pair (aux_prf_idx u \<noteq> -1) p0 p1 d u M) (count_icnt v))"
    using retires_pair[OF ok(1)[unfolded R] ok(2,3)] unfolding R by simp_all
qed

lemma retires_single:
  assumes ok: "ren_ok N (\<lambda>j. op_renamings op u j @ G j) M" "banks_ok M" "tables_ok M"
    and d: "op_dests op (op_inst u) = [(k, d)]" "\<And>t. op \<noteq> Mult_div t" "vals \<or> k = CPR0"
  shows "retires N (op_renamings op u) G M (rbind (retire_dest vals ip k d u M) (count_retired v))"
    "retires N (op_renamings op u) G M (rbind (retire_dest vals ip k d u M) (count_icnt v))"
proof -
  have R: "op_renamings op u = one k (d, prev_prf_idx u, prf_idx u)" by (rule renamings_single[OF d(1,2)])
  show "retires N (op_renamings op u) G M (rbind (retire_dest vals ip k d u M) (count_retired v))"
    "retires N (op_renamings op u) G M (rbind (retire_dest vals ip k d u M) (count_icnt v))"
    using retires_dest[OF ok(1)[unfolded R] ok(2) d(3) ok(3)] unfolding R by simp_all
qed

named_theorems retire_simps \<open>the retirement of the classes\<close>

lemmas retire_defs [retire_simps] = mtc0_retire_def mtc1_retire_def mfc1_retire_def lo_hi_retire_def itype_retire_def mul_retire_def
  clz_retire_def se_retire_def ext_retire_def ins_retire_def movci_retire_def cmp_retire_def cvts_retire_def retire_gpr_def
  retire_gpr_quiet_def

lemma single_retire_ok:
  assumes "ren_ok N (\<lambda>j. op_renamings op u j @ G j) M" "banks_ok M" "tables_ok M" "retirable S op u M"
    and "\<exists>t. op \<in> {Mtc0, Mtc1, Mfc1, Lo_hi_move t, Itype_alu, Itype_lui, Mul_op, Clz_op, Ext_op, Ins_op, Movci_op, Fp_cmp}"
  shows "retires N (op_renamings op u) G M (retire_op S op u M)"
  using assms by (auto simp: retire_simps retirable_def intro!: retires_single)

lemma special_retire_ok:
  assumes "ren_ok N (\<lambda>j. op_renamings op u j @ G j) M" "banks_ok M" "tables_ok M" "settled op u"
    and "(\<exists>t. op = Se_op t) \<or> (\<exists>t. op = Cvts_truncw t) \<or> op \<in> {Fmovc_op, Fmovn_op, Fmovz_op, Cvtd_op} \<or> (\<exists>t. op = Fp_arith t) \<or> (\<exists>b t. op = Fp_fma b t)"
  shows "retires N (op_renamings op u) G M (retire_op S op u M)"
  using assms
  by (auto simp: retire_simps fmovc_retire_def fmov_retire_def cond_move_retire_def cvtd_retire_def arith_retire_def fma_retire_def is_d_def
      intro!: retires_single retires_fp_pair)

lemma plain_retire_ok:
  assumes "ren_ok N (\<lambda>j. op_renamings op u j @ G j) M" "banks_ok M" "tables_ok M" "op \<in> {Break_op, Sync_op}"
  shows "retires N (op_renamings op u) G M (retire_op S op u M)"
proof -
  have "op_renamings op u = (\<lambda>_. [])" using assms(4) by (auto intro: renamings_none)
  with assms show ?thesis
    by (auto simp: break_retire_def sync_retire_def count_retired_def retires_def tables_ok_def intro!: commits_none)
qed

lemma retire_op_ok:
  assumes ok: "ren_ok N (\<lambda>j. op_renamings op u j @ G j) M" "banks_ok M" "tables_ok M"
    and s: "settled op u" "retirable S op u M" and "op \<noteq> Nop"
  shows "retires N (op_renamings op u) G M (retire_op S op u M)"
proof (cases op)
  case (Mult_div t)
  then show ?thesis using mult_div_retire_ok[of N t u G M] ok by simp
next
  case (Rtype_alu t)
  then show ?thesis using rtype_retire_ok[OF ok, of t] s by (simp add: retirable_def)
next
  case (Rtype_const_shift t)
  then show ?thesis using rtype_retire_ok[OF ok, of t] s by (simp add: retirable_def)
next
  case (Jump t)
  then show ?thesis using jump_retire_ok[of N t u G M S] ok s by (simp add: retirable_def)
next
  case (Branch t)
  then have "op_renamings op u = (\<lambda>_. [])" by (simp add: renamings_none)
  then show ?thesis using branch_retire_ok[of N G M S u] ok s Branch by (simp add: retirable_def)
next
  case (Load_op t)
  then show ?thesis using load_retire_ok[of N t u G M] ok s by (simp add: retirable_def)
next
  case (Fp_load t)
  then show ?thesis using fp_load_retire_ok[of N t u G M] ok s by (simp add: retirable_def)
next
  case (Store_op t)
  then have "op_renamings op u = (\<lambda>_. [])" by (simp add: renamings_none)
  then show ?thesis using store_done_ok[of N G M] ok s Store_op by (simp add: retirable_def store_retire_def)
next
  case (Fp_store t)
  then have "op_renamings op u = (\<lambda>_. [])" by (simp add: renamings_none)
  then show ?thesis using store_done_ok[of N G M] ok s Fp_store by (simp add: retirable_def fp_store_retire_def)
qed (use assms in \<open>simp_all add: retirable_def single_retire_ok special_retire_ok plain_retire_ok del: retire_op.simps\<close>)

section \<open>Rollback\<close>

text \<open>
  \<open>undoes N G R M M1\<close>: the youngest renamings \<open>R\<close> are taken back and \<open>G\<close> remain in flight; nothing
  else of the register files changes but the valid bits.
\<close>

definition undoes :: "(rfile \<Rightarrow> nat) \<Rightarrow> (rfile \<Rightarrow> renaming list) \<Rightarrow> sim_state \<Rightarrow> sim_state \<Rightarrow> bool" where
  "undoes N G M M1 \<longleftrightarrow> ren_ok N G M1 \<and> (\<forall>k. phys (rf M1 k) = phys (rf M k) \<and> rat_retire (rf M1 k) = rat_retire (rf M k) \<and>
     arch (rf M1 k) = arch (rf M k) \<and> arch_last_pc (rf M1 k) = arch_last_pc (rf M k))"

lemma undoes_trans: "undoes N G' M M1 \<Longrightarrow> undoes N G M1 M2 \<Longrightarrow> undoes N G M M2"
  by (simp add: undoes_def)

lemma undo_one:
  assumes ok: "ren_ok N (\<lambda>j. G j @ one k (d, p, i) j) M"
  shows "\<exists>r. on_rf k (undo d p i) M = Inr (M\<lparr>rf := (rf M)(k := r)\<rparr>) \<and> undoes N G M (M\<lparr>rf := (rf M)(k := r)\<rparr>)"
proof -
  have inv: "renaming_inv (arch_count k) (N k) (G k @ [(d, p, i)]) (rf M k)" using ren_okD[OF ok, of k] by (simp add: one_def)
  obtain r where r: "undo d p i (rf M k) = Inr r" "renaming_inv (arch_count k) (N k) (G k) r"
    "phys r = phys (rf M k)" "arch r = arch (rf M k)" "arch_last_pc r = arch_last_pc (rf M k)" "rat_retire r = rat_retire (rf M k)"
    using undo_ok[OF inv] by metis
  have others: "renaming_inv (arch_count j) (N j) (G j) (rf M j)" if "j \<noteq> k" for j
    using ren_okD[OF ok, of j] that by (simp add: one_def)
  have "undoes N G M (M\<lparr>rf := (rf M)(k := r)\<rparr>)" using r others by (auto simp: undoes_def ren_ok_def)
  then show ?thesis using r(1) by (auto simp: on_rf_def)
qed

lemma undo_two:
  assumes ok: "ren_ok N (\<lambda>j. G j @ (if j = k then [(d, p, i), (d', p', i')] else [])) M"
  shows "\<exists>r1 r2. on_rf k (undo d' p' i') M = Inr (M\<lparr>rf := (rf M)(k := r1)\<rparr>) \<and>
    on_rf k (undo d p i) (M\<lparr>rf := (rf M)(k := r1)\<rparr>) = Inr (M\<lparr>rf := (rf M)(k := r2)\<rparr>) \<and> undoes N G M (M\<lparr>rf := (rf M)(k := r2)\<rparr>)"
proof -
  let ?G = "\<lambda>j. G j @ one k (d, p, i) j"
  have eq: "(\<lambda>j. G j @ (if j = k then [(d, p, i), (d', p', i')] else [])) = (\<lambda>j. ?G j @ one k (d', p', i') j)"
    by (auto simp: one_def)
  obtain r1 where r1: "on_rf k (undo d' p' i') M = Inr (M\<lparr>rf := (rf M)(k := r1)\<rparr>)" "undoes N ?G M (M\<lparr>rf := (rf M)(k := r1)\<rparr>)"
    using undo_one[of N ?G k d' p' i' M] ok eq by auto
  have "ren_ok N ?G (M\<lparr>rf := (rf M)(k := r1)\<rparr>)" using r1(2) by (simp add: undoes_def)
  from undo_one[OF this] obtain r2 where r2: "on_rf k (undo d p i) (M\<lparr>rf := (rf M)(k := r1)\<rparr>) = Inr (M\<lparr>rf := (rf M)(k := r2)\<rparr>)"
    "undoes N G (M\<lparr>rf := (rf M)(k := r1)\<rparr>) (M\<lparr>rf := (rf M)(k := r2)\<rparr>)" by auto
  show ?thesis using r1(1) r2(1) undoes_trans[OF r1(2) r2(2)] by blast
qed

lemma undone_bounds:
  assumes "ren_ok N (\<lambda>j. G j @ one k (d, p, i) j) M"
  shows "0 \<le> p" "0 \<le> i"
proof -
  have inv: "renaming_inv (arch_count k) (N k) (G k @ [(d, p, i)]) (rf M k)" using ren_okD[OF assms, of k] by (simp add: one_def)
  obtain m where m: "renamed (rat_retire (rf M k)) (G k) m" "d < length m" "m ! d = p"
    using renaming_invD(7)[OF inv] by (auto simp: renamed_append)
  then have "p \<in> set m" by (metis nth_mem)
  then have "p \<in> set (rat_retire (rf M k)) \<union> set (new_ids (G k @ [(d, p, i)]))" using renamed_subset[OF m(1)] by auto
  from renaming_inv_bounds[OF inv this] show "0 \<le> p" by simp
  show "0 \<le> i" using renaming_inv_bounds[OF inv, of i] by simp
qed

text \<open>The two ways to undo a single destination agree on a renaming in flight.\<close>

lemma undo_opt_eq:
  assumes "prev_prf_idx u \<noteq> -1" "prf_idx u \<noteq> -1"
  shows "undo_opt k d u M = undo_dest k d u M"
proof -
  have "rbind (if prev_prf_idx u \<noteq> -1 then rbind (put_res (rat r) d (prev_prf_idx u)) (\<lambda>m. Inr (r\<lparr>rat := m\<rparr>)) else Inr r) (\<lambda>r1.
       if prf_idx u \<noteq> -1 then rbind (bv_clear (freevec r1) (prf_idx u)) (\<lambda>fv. rbind (bv_clear (valid r1) (prf_idx u)) (\<lambda>v.
         Inr (r1\<lparr>freevec := fv, valid := v\<rparr>))) else Inr r1) = undo d (prev_prf_idx u) (prf_idx u) r" for r
    using assms by (cases r) (simp add: undo_def rbind_assoc)
  then show ?thesis by (simp add: undo_opt_def undo_dest_def)
qed

definition rolls_back :: "(rfile \<Rightarrow> nat) \<Rightarrow> (rfile \<Rightarrow> renaming list) \<Rightarrow> sim_state \<Rightarrow> sim_state res \<Rightarrow> bool" where
  "rolls_back N G M x \<longleftrightarrow> (\<exists>M1. x = Inr M1 \<and> undoes N G M M1 \<and> tables_ok M1 \<and> smem M1 = smem M \<and> sicnt M1 = sicnt M)"

lemma rolls_back_from:
  "x = Inr (M\<lparr>rf := r\<rparr>) \<Longrightarrow> undoes N G M (M\<lparr>rf := r\<rparr>) \<Longrightarrow> tables_ok M \<Longrightarrow> rolls_back N G M x"
  by (simp add: rolls_back_def tables_ok_def)

lemma rolls_back_none:
  "ren_ok N G M \<Longrightarrow> tables_ok M1 \<Longrightarrow> rf M1 = rf M \<Longrightarrow> smem M1 = smem M \<Longrightarrow> sicnt M1 = sicnt M \<Longrightarrow> rolls_back N G M (Inr M1)"
  by (simp add: rolls_back_def undoes_def ren_ok_def)

lemma rolls_back_then:
  assumes "rolls_back N G M x" "\<And>M1. x = Inr M1 \<Longrightarrow> tables_ok M1 \<Longrightarrow>
    \<exists>M2. f M1 = Inr M2 \<and> rf M2 = rf M1 \<and> smem M2 = smem M1 \<and> sicnt M2 = sicnt M1 \<and> tables_ok M2"
  shows "rolls_back N G M (rbind x f)"
proof -
  obtain M1 where M1: "x = Inr M1" "undoes N G M M1" "tables_ok M1" "smem M1 = smem M" "sicnt M1 = sicnt M"
    using assms(1) by (auto simp: rolls_back_def)
  obtain M2 where M2: "f M1 = Inr M2" "rf M2 = rf M1" "smem M2 = smem M1" "sicnt M2 = sicnt M1" "tables_ok M2"
    using assms(2)[OF M1(1,3)] by blast
  then show ?thesis using M1 by (simp add: rolls_back_def undoes_def ren_ok_def)
qed

lemma rolls_back_dest:
  assumes ok: "ren_ok N (\<lambda>j. G j @ op_renamings op u j) M" "tables_ok M"
    and d: "op_dests op (op_inst u) = [(k, d)]" "\<And>t. op \<noteq> Mult_div t"
  shows "rolls_back N G M (undo_dest k d u M)" "rolls_back N G M (undo_opt k d u M)"
proof -
  note R = renamings_single[OF d]
  obtain r where "undo_dest k d u M = Inr (M\<lparr>rf := (rf M)(k := r)\<rparr>)" "undoes N G M (M\<lparr>rf := (rf M)(k := r)\<rparr>)"
    using undo_one[OF ok(1)[unfolded R]] by (auto simp: undo_dest_def)
  then show *: "rolls_back N G M (undo_dest k d u M)" using ok(2) by (rule rolls_back_from)
  have "prev_prf_idx u \<noteq> -1" "prf_idx u \<noteq> -1" using undone_bounds[OF ok(1)[unfolded R]] by auto
  then show "rolls_back N G M (undo_opt k d u M)" using * by (simp add: undo_opt_eq)
qed

lemma rolls_back_pair:
  assumes ok: "ren_ok N (\<lambda>j. G j @ op_renamings op u j) M" "tables_ok M"
    and d: "op_dests op (op_inst u) = fp_dests two d" "\<And>t. op \<noteq> Mult_div t" and s: "settled op u"
  shows "rolls_back N G M (undo_pair two d u M)" "rolls_back N G M (undo_pair (aux_prf_idx u \<noteq> -1) d u M)"
proof -
  have *: "rolls_back N G M (undo_pair two d u M) \<and> (aux_prf_idx u \<noteq> -1) = two"
  proof (cases two)
    case True
    have R2: "op_renamings op u = (\<lambda>j. if j = CPR1 then [(d, prev_prf_idx u, prf_idx u), (d + 1, aux_prev_prf_idx u, aux_prf_idx u)] else [])"
      using renamings_pair[OF d] True by (simp add: pair_of_eq)
    obtain r1 r2 where "on_rf CPR1 (undo (d + 1) (aux_prev_prf_idx u) (aux_prf_idx u)) M = Inr (M\<lparr>rf := (rf M)(CPR1 := r1)\<rparr>)"
      "on_rf CPR1 (undo d (prev_prf_idx u) (prf_idx u)) (M\<lparr>rf := (rf M)(CPR1 := r1)\<rparr>) = Inr (M\<lparr>rf := (rf M)(CPR1 := r2)\<rparr>)"
      "undoes N G M (M\<lparr>rf := (rf M)(CPR1 := r2)\<rparr>)" using undo_two[OF ok(1)[unfolded R2]] by blast
    then have "rolls_back N G M (undo_pair two d u M)"
      using True by (intro rolls_back_from[OF _ _ ok(2)]) (simp_all add: undo_pair_def undo_aux_def undo_dest_def)
    moreover have "renaming_inv (arch_count CPR1) (N CPR1) (G CPR1 @ op_renamings op u CPR1) (rf M CPR1)" by (rule ren_okD[OF ok(1)])
    then have "0 \<le> aux_prf_idx u" using renaming_inv_bounds[of 32 "N CPR1" _ "rf M CPR1" "aux_prf_idx u"] by (simp add: R2)
    ultimately show ?thesis using True by simp
  next
    case False
    have R1: "op_renamings op u = one CPR1 (d, prev_prf_idx u, prf_idx u)" using renamings_pair[OF d] False by (simp add: pair_of_eq)
    obtain r where "undo_dest CPR1 d u M = Inr (M\<lparr>rf := (rf M)(CPR1 := r)\<rparr>)" "undoes N G M (M\<lparr>rf := (rf M)(CPR1 := r)\<rparr>)"
      using undo_one[OF ok(1)[unfolded R1]] by (auto simp: undo_dest_def)
    then have "rolls_back N G M (undo_pair two d u M)"
      using False by (intro rolls_back_from[OF _ _ ok(2)]) (simp_all add: undo_pair_def)
    then show ?thesis using False s d(1) by (simp add: settled_def fp_dests_def)
  qed
  then show "rolls_back N G M (undo_pair two d u M)" "rolls_back N G M (undo_pair (aux_prf_idx u \<noteq> -1) d u M)" by simp_all
qed

text \<open>The rollback of a load or store relies on its table entry.\<close>

definition undoable :: "mips_op \<Rightarrow> mips_meta_op \<Rightarrow> sim_state \<Rightarrow> bool" where
  "undoable op u M \<longleftrightarrow> (case op of
     Load_op t \<Rightarrow> in_table (load_tbl_idx u) (load_tbl M) | Fp_load t \<Rightarrow> in_table (load_tbl_idx u) (load_tbl M)
   | Store_op t \<Rightarrow> in_table (store_tbl_idx u) (store_tbl M) | Fp_store t \<Rightarrow> in_table (store_tbl_idx u) (store_tbl M)
   | _ \<Rightarrow> True)"

lemma mult_div_rollback_ok:
  assumes ok: "ren_ok N (\<lambda>j. G j @ op_renamings (Mult_div t) u j) M" "tables_ok M"
  shows "rolls_back N G M (mult_div_rollback u M)"
proof -
  obtain r1 r2 where "on_rf GPR (undo 33 (prev_hi_prf_idx u) (hi_prf_idx u)) M = Inr (M\<lparr>rf := (rf M)(GPR := r1)\<rparr>)"
    "on_rf GPR (undo 32 (prev_lo_prf_idx u) (lo_prf_idx u)) (M\<lparr>rf := (rf M)(GPR := r1)\<rparr>) = Inr (M\<lparr>rf := (rf M)(GPR := r2)\<rparr>)"
    "undoes N G M (M\<lparr>rf := (rf M)(GPR := r2)\<rparr>)" using undo_two[OF ok(1)[unfolded mult_div_renamings]] by blast
  then show ?thesis by (intro rolls_back_from[OF _ _ ok(2)]) (simp_all add: mult_div_rollback_def)
qed

lemma rtype_rollback_ok:
  assumes ok: "ren_ok N (\<lambda>j. G j @ op_renamings op u j) M" "tables_ok M" and op: "op \<in> {Rtype_alu t, Rtype_const_shift t}"
  shows "rolls_back N G M (rtype_rollback t u M)"
proof (cases "0 < rtype_dest t (op_inst u)")
  case True
  then have "op_dests op (op_inst u) = [(GPR, nat (rtype_dest t (op_inst u)))]" using op by (auto simp: rtype_dest_def split: if_splits)
  from rolls_back_dest(2)[OF ok this] True op show ?thesis by (auto simp: rtype_rollback_def)
next
  case False
  then have "op_dests op (op_inst u) = []" using op by auto
  then show ?thesis using ok False by (simp add: rtype_rollback_def renamings_none rolls_back_none)
qed

lemma itype_rollback_ok:
  assumes ok: "ren_ok N (\<lambda>j. G j @ op_renamings op u j) M" "tables_ok M" and op: "op \<in> {Itype_alu, Itype_lui}"
  shows "rolls_back N G M (itype_rollback u M)"
proof (cases "0 < rt_of (op_inst u)")
  case True
  then have "op_dests op (op_inst u) = [(GPR, rt_of (op_inst u))]" using op by auto
  from rolls_back_dest(2)[OF ok this] True op show ?thesis by (auto simp: itype_rollback_def)
next
  case False
  then have "op_dests op (op_inst u) = []" using op by auto
  then show ?thesis using ok False by (simp add: itype_rollback_def renamings_none rolls_back_none)
qed

lemma jump_rollback_ok:
  assumes ok: "ren_ok N (\<lambda>j. G j @ op_renamings (Jump t) u j) M" "tables_ok M"
  shows "rolls_back N G M (jump_rollback t u M)"
proof -
  have "rolls_back N G M (if jump_dest t \<noteq> -1 then undo_opt GPR (nat (jump_dest t)) u M else Inr M)"
  proof (cases "jump_dest t = -1")
    case True
    then show ?thesis using ok by (simp add: renamings_none rolls_back_none)
  next
    case False
    then have "op_dests (Jump t) (op_inst u) = [(GPR, nat (jump_dest t))]" by (simp add: jump_dest_def split: if_splits)
    from rolls_back_dest(2)[OF ok this] False show ?thesis by simp
  qed
  then show ?thesis unfolding jump_rollback_def by (rule rolls_back_then) (simp add: tables_ok_def)
qed

lemma monitor_rollback_ok:
  assumes ok: "ren_ok N (\<lambda>j. G j @ op_renamings Monitor_op u j) M" "tables_ok M"
  shows "rolls_back N G M (monitor_rollback u M)"
proof -
  have "rolls_back N G M (undo_dest GPR 2 u M)" by (rule rolls_back_dest(1)[OF ok]) simp_all
  then show ?thesis unfolding monitor_rollback_def by (rule rolls_back_then) (simp add: tables_ok_def)
qed

lemma load_rollback_ok:
  assumes ok: "ren_ok N (\<lambda>j. G j @ op_renamings (Load_op t) u j) M" "tables_ok M" and l: "in_table (load_tbl_idx u) (load_tbl M)"
  shows "rolls_back N G M (load_rollback u M)"
proof -
  have "rolls_back N G M (undo_dest GPR (rt_of (op_inst u)) u M)" by (rule rolls_back_dest(1)[OF ok]) simp_all
  then show ?thesis unfolding load_rollback_def
  proof (rule rolls_back_then)
    fix M1 assume M1: "undo_dest GPR (rt_of (op_inst u)) u M = Inr M1" "tables_ok M1"
    then have "in_table (load_tbl_idx u) (load_tbl M1)" using l by (auto simp: undo_dest_def on_rf_def rbind_Inr_iff)
    from leave_load_ok[OF M1(2) this] show "\<exists>M2. leave_load (load_tbl_idx u) M1 = Inr M2 \<and> rf M2 = rf M1 \<and> smem M2 = smem M1 \<and>
      sicnt M2 = sicnt M1 \<and> tables_ok M2" by auto
  qed
qed

lemma fp_load_rollback_ok:
  assumes ok: "ren_ok N (\<lambda>j. G j @ op_renamings (Fp_load t) u j) M" "tables_ok M" and l: "in_table (load_tbl_idx u) (load_tbl M)"
    and s: "settled (Fp_load t) u"
  shows "rolls_back N G M (fp_load_rollback u M)"
proof -
  obtain tb v where x: "leave_load (load_tbl_idx u) M = Inr (M\<lparr>load_tbl := tb, load_tbl_freevec := v\<rparr>)"
    "tables_ok (M\<lparr>load_tbl := tb, load_tbl_freevec := v\<rparr>)" using leave_load_ok[OF ok(2) l] by blast
  have "ren_ok N (\<lambda>j. G j @ op_renamings (Fp_load t) u j) (M\<lparr>load_tbl := tb, load_tbl_freevec := v\<rparr>)" using ok(1) by (simp add: ren_ok_def)
  from rolls_back_pair(2)[OF this x(2) _ _ s] have
    "rolls_back N G (M\<lparr>load_tbl := tb, load_tbl_freevec := v\<rparr>) (undo_pair (aux_prf_idx u \<noteq> -1) (rt_of (op_inst u)) u (M\<lparr>load_tbl := tb, load_tbl_freevec := v\<rparr>))"
    by simp
  then show ?thesis using x(1) by (auto simp: fp_load_rollback_def rolls_back_def undoes_def)
qed

lemma store_rollback_ok:
  assumes "ren_ok N G M" "tables_ok M" "in_table (store_tbl_idx u) (store_tbl M)"
  shows "rolls_back N G M (leave_store (store_tbl_idx u) M)"
proof -
  obtain tb v where x: "leave_store (store_tbl_idx u) M = Inr (M\<lparr>store_tbl := tb, store_tbl_freevec := v\<rparr>)"
    "tables_ok (M\<lparr>store_tbl := tb, store_tbl_freevec := v\<rparr>)" using leave_store_ok[OF assms(2,3)] by blast
  show ?thesis unfolding x(1) by (rule rolls_back_none) (use assms(1) x(2) in simp_all)
qed

lemma single_rollback_ok:
  assumes "ren_ok N (\<lambda>j. G j @ op_renamings op u j) M" "tables_ok M"
    and "(\<exists>t. op = Lo_hi_move t) \<or> (\<exists>t. op = Se_op t) \<or> (\<exists>t. op = Cvts_truncw t) \<or>
      op \<in> {Mtc0, Mtc1, Mfc1, Mul_op, Clz_op, Ext_op, Ins_op, Movci_op, Fp_cmp}"
  shows "rolls_back N G M (rollback_op op u M)"
  using assms
  by (auto simp: mtc0_rollback_def mtc1_rollback_def mfc1_rollback_def lo_hi_rollback_def mul_rollback_def clz_rollback_def
      se_rollback_def ext_rollback_def ins_rollback_def movci_rollback_def cmp_rollback_def cvts_rollback_def intro!: rolls_back_dest)

lemma pair_rollback_ok:
  assumes "ren_ok N (\<lambda>j. G j @ op_renamings op u j) M" "tables_ok M" "settled op u"
    and "op \<in> {Fmovc_op, Fmovn_op, Fmovz_op, Cvtd_op} \<or> (\<exists>t. op = Fp_arith t) \<or> (\<exists>b t. op = Fp_fma b t)"
  shows "rolls_back N G M (rollback_op op u M)"
  using assms
  by (auto simp: fmovc_rollback_def fmov_rollback_def cvtd_rollback_def arith_rollback_def fma_rollback_def is_d_def intro!: rolls_back_pair)

lemma rollback_op_ok:
  assumes ok: "ren_ok N (\<lambda>j. G j @ op_renamings op u j) M" "tables_ok M" and s: "settled op u" "undoable op u M"
  shows "rolls_back N G M (rollback_op op u M)"
proof (cases op)
  case (Mult_div t)
  then show ?thesis using mult_div_rollback_ok[of N G t u M] ok by simp
next
  case (Rtype_alu t)
  then show ?thesis using rtype_rollback_ok[OF ok, of t] by simp
next
  case (Rtype_const_shift t)
  then show ?thesis using rtype_rollback_ok[OF ok, of t] by simp
next
  case (Jump t)
  then show ?thesis using jump_rollback_ok[of N G t u M] ok by simp
next
  case (Load_op t)
  then show ?thesis using load_rollback_ok[of N G t u M] ok s by (simp add: undoable_def)
next
  case (Fp_load t)
  then show ?thesis using fp_load_rollback_ok[of N G t u M] ok s by (simp add: undoable_def)
next
  case (Store_op t)
  then show ?thesis using store_rollback_ok[of N G M u] ok s by (simp add: undoable_def renamings_none store_rollback_def)
next
  case (Fp_store t)
  then show ?thesis using store_rollback_ok[of N G M u] ok s by (simp add: undoable_def renamings_none fp_store_rollback_def)
next
  case Monitor_op
  then show ?thesis using monitor_rollback_ok[of N G u M] ok by simp
next
  case Sync_op
  then show ?thesis using ok rolls_back_none[of N G M "M\<lparr>alloc_blocked := False\<rparr>"]
    by (simp add: renamings_none sync_rollback_def tables_ok_def)
next
  case (Branch t)
  then show ?thesis using ok rolls_back_none[of N G M M] by (simp add: renamings_none branch_rollback_def)
next
  case Nop
  then show ?thesis using ok rolls_back_none[of N G M M] by (simp add: renamings_none)
next
  case Break_op
  then show ?thesis using ok rolls_back_none[of N G M M] by (simp add: renamings_none)
next
  case Itype_alu
  then show ?thesis using itype_rollback_ok[OF ok] by simp
next
  case Itype_lui
  then show ?thesis using itype_rollback_ok[OF ok] by simp
qed (use assms in \<open>simp_all add: single_rollback_ok pair_rollback_ok del: rollback_op.simps\<close>)

section \<open>What allocation leaves in a descriptor\<close>

definition unset :: "mips_meta_op \<Rightarrow> bool" where
  "unset u \<longleftrightarrow> prf_idx u = -1 \<and> prev_prf_idx u = -1 \<and> aux_prf_idx u = -1"

lemma unset_new: "unset (new_meta_op n ip inst npc cyc pt pr)"
  by (simp add: unset_def new_meta_op_def)

text \<open>The indices that a statement of an allocation keeps; with \<open>b\<close> those of the destination too.\<close>

definition same_ids :: "bool \<Rightarrow> mips_meta_op \<Rightarrow> mips_meta_op \<Rightarrow> bool" where
  "same_ids b u v \<longleftrightarrow> aux_prf_idx v = aux_prf_idx u \<and> op_inst v = op_inst u \<and> take_trap v = take_trap u \<and>
     (b \<longrightarrow> prf_idx v = prf_idx u \<and> prev_prf_idx v = prev_prf_idx u)"

definition keeps_ids :: "bool \<Rightarrow> mips_meta_op \<Rightarrow> mips_meta_op res \<Rightarrow> bool" where
  "keeps_ids b u x \<longleftrightarrow> (\<forall>v. x = Inr v \<longrightarrow> same_ids b u v)"

definition leaves_ids :: "bool \<Rightarrow> mips_meta_op \<Rightarrow> (mips_meta_op \<times> sim_state \<times> bool) res \<Rightarrow> bool" where
  "leaves_ids b u x \<longleftrightarrow> (\<forall>v M ok. x = Inr (v, M, ok) \<longrightarrow> same_ids b u v)"

named_theorems ids_intros \<open>what keeps the indices\<close>

lemma same_ids_refl [ids_intros]: "same_ids b u u"
  by (simp add: same_ids_def)

lemma keeps_bind [ids_intros]:
  "keeps_ids b u x \<Longrightarrow> (\<And>v. same_ids b u v \<Longrightarrow> leaves_ids b u (f v)) \<Longrightarrow> leaves_ids b u (rbind x f)"
  by (auto simp: keeps_ids_def leaves_ids_def rbind_Inr_iff)

lemma keeps_bind_res [ids_intros]:
  "keeps_ids b u x \<Longrightarrow> (\<And>v. same_ids b u v \<Longrightarrow> keeps_ids b u (f v)) \<Longrightarrow> keeps_ids b u (rbind x f)"
  by (auto simp: keeps_ids_def rbind_Inr_iff)

lemma keeps_set [ids_intros]: "same_ids b u v \<Longrightarrow> keeps_ids b u (set_src i k d M v)"
  by (auto simp: keeps_ids_def same_ids_def set_src_def rbind_Inr_iff)

lemma keeps_done [ids_intros]: "same_ids b u v \<Longrightarrow> keeps_ids b u (Inr v)" "same_ids b u v \<Longrightarrow> leaves_ids b u (Inr (v, M, ok))"
  by (auto simp: keeps_ids_def leaves_ids_def)

lemma keeps_if [ids_intros]:
  "(c \<Longrightarrow> keeps_ids b u x) \<Longrightarrow> (\<not> c \<Longrightarrow> keeps_ids b u y) \<Longrightarrow> keeps_ids b u (if c then x else y)"
  "(c \<Longrightarrow> leaves_ids b u x1) \<Longrightarrow> (\<not> c \<Longrightarrow> leaves_ids b u y1) \<Longrightarrow> leaves_ids b u (if c then x1 else y1)"
  by simp_all

lemma keeps_pair [ids_intros]: "same_ids b u v \<Longrightarrow> keeps_ids b u (set_pair two i j d M v)"
  unfolding set_pair_def by (intro keeps_bind_res keeps_if keeps_set keeps_done)

lemma keeps_prev [ids_intros]: "same_ids False u v \<Longrightarrow> keeps_ids False u (note_prev two d M v)"
  by (cases two) (auto simp: keeps_ids_def same_ids_def note_prev_def rbind_Inr_iff)

lemma leaves_rename [ids_intros]:
  "same_ids False u v \<Longrightarrow> leaves_ids False u (rename_reg k d v M)" "same_ids False u v \<Longrightarrow> leaves_ids False u (rename_late k d v M)"
  by (auto simp: leaves_ids_def same_ids_def rename_reg_def rename_late_def Let_def rbind_Inr_iff split: if_splits)

lemma leaves_claim [ids_intros]: "same_ids False u v \<Longrightarrow> leaves_ids False u (claim_pair False d v M)"
  by (auto simp: leaves_ids_def same_ids_def claim_pair_def Let_def rbind_Inr_iff split: prod.splits)

lemma leaves_if_free [ids_intros]: "same_ids b u v \<Longrightarrow> leaves_ids b u x \<Longrightarrow> leaves_ids b u (if_free two v M x)"
  by (auto simp: leaves_ids_def if_free_def rbind_Inr_iff split: if_splits)

lemmas single_allocates = mtc0_allocate_def mtc1_allocate_def mfc1_allocate_def lo_hi_allocate_def rtype_allocate_def itype_allocate_def
  jump_allocate_def branch_allocate_def mul_allocate_def clz_allocate_def se_allocate_def ext_allocate_def ins_allocate_def
  movci_allocate_def cmp_allocate_def cvts_allocate_def break_allocate_def sync_allocate_def

lemma no_dest_ids:
  assumes "op_dests op (op_inst u) = []" "get_op_class op \<noteq> Op_store"
  shows "leaves_ids True u (allocate_op op a u M)"
  using assms by (cases op; simp add: single_allocates fp_dests_def Let_def split del: if_split; (intro ids_intros; simp)?)

lemma one_dest_ids:
  assumes "(\<exists>t. op = Lo_hi_move t) \<or> (\<exists>t. op = Rtype_alu t) \<or> (\<exists>t. op = Rtype_const_shift t) \<or> (\<exists>t. op = Jump t) \<or>
      (\<exists>t. op = Se_op t) \<or> (\<exists>t. op = Cvts_truncw t) \<or>
      op \<in> {Mtc0, Mtc1, Mfc1, Itype_alu, Itype_lui, Mul_op, Clz_op, Ext_op, Ins_op, Movci_op, Fp_cmp}"
  shows "leaves_ids False u (allocate_op op a u M)"
  using assms by (elim disjE exE insertE emptyE; simp add: single_allocates Let_def split del: if_split; intro ids_intros; simp)

lemma pair_ids:
  assumes "\<not> 1 < length (op_dests op (op_inst u))"
    and "op \<in> {Fmovc_op, Fmovn_op, Fmovz_op, Cvtd_op} \<or> (\<exists>t. op = Fp_arith t) \<or> (\<exists>b t. op = Fp_fma b t) \<or> (\<exists>t. op = Mult_div t)"
  shows "leaves_ids False u (allocate_op op a u M)"
  using assms(2,1)
  by (elim disjE exE insertE emptyE; simp add: fp_dests_def fmovc_allocate_def fmov_allocate_def cond_move_allocate_def arith_allocate_def
      arith_allocate_float_def fma_allocate_def fma_allocate_float_def is_d_def Let_def split: if_splits; intro ids_intros; simp?)

lemma monitor_ids: "leaves_ids False u (monitor_allocate u M)"
  unfolding monitor_allocate_def by (intro ids_intros; auto simp: leaves_ids_def same_ids_def rbind_Inr_iff rename_late_def rename_reg_def Let_def split: if_splits)

lemma enter_bounds:
  "enter_load a i M = Inr M1 \<Longrightarrow> in_table i (load_tbl M1)" "enter_store a i M = Inr M1 \<Longrightarrow> in_table i (store_tbl M1)"
  by (auto simp: enter_load_def enter_store_def put_idx_def put_res_def in_table_def rbind_Inr_iff ensure_Inr_iff split: if_splits)

lemma on_rf_tables: "on_rf k f M = Inr M1 \<Longrightarrow> load_tbl M1 = load_tbl M \<and> store_tbl M1 = store_tbl M"
  by (auto simp: on_rf_def rbind_Inr_iff)

lemma claim_next_tables: "claim_next k d M = Inr (i, M1) \<Longrightarrow> load_tbl M1 = load_tbl M \<and> store_tbl M1 = store_tbl M"
  by (auto simp: claim_next_def Let_def rbind_Inr_iff dest: on_rf_tables)

lemma set_src_tables:
  "set_src i k d M u = Inr v \<Longrightarrow> same_ids True u v \<and> load_tbl_idx v = load_tbl_idx u \<and> store_tbl_idx v = store_tbl_idx u"
  by (auto simp: set_src_def same_ids_def rbind_Inr_iff)

lemma load_ids:
  assumes "load_allocate t a u M = Inr (u1, M1, True)"
  shows "same_ids False u u1 \<and> in_table (load_tbl_idx u1) (load_tbl M1)"
  using assms
  by (cases "load_src1 t") (auto simp: load_allocate_def Let_def rbind_Inr_iff same_ids_def split: if_splits
      dest!: set_src_tables on_rf_tables enter_bounds)

lemma store_ids:
  assumes "store_allocate a u M = Inr (u1, M1, True)"
  shows "same_ids True u u1 \<and> in_table (store_tbl_idx u1) (store_tbl M1)"
  using assms
  by (auto simp: store_allocate_def Let_def rbind_Inr_iff same_ids_def split: if_splits dest!: set_src_tables enter_bounds)

lemma fp_store_ids:
  assumes "fp_store_allocate t a u M = Inr (u1, M1, True)"
  shows "same_ids True u u1 \<and> in_table (store_tbl_idx u1) (store_tbl M1)"
  using assms
  by (cases "t = Sdc1") (auto simp: fp_store_allocate_def Let_def rbind_Inr_iff same_ids_def split: if_splits dest!: set_src_tables enter_bounds)

lemma fp_load_ids:
  assumes "fp_load_allocate t a u M = Inr (u1, M1, True)"
  shows "(is_double_load t \<or> same_ids False u u1) \<and> op_inst u1 = op_inst u \<and> in_table (load_tbl_idx u1) (load_tbl M1)"
  using assms
  by (cases "is_double_load t") (auto simp: fp_load_allocate_def Let_def rbind_Inr_iff same_ids_def split: if_splits prod.splits
      dest!: set_src_tables enter_bounds claim_next_tables)

lemma op_ids_cases:
  assumes "allocate_op op a u M = Inr (u1, M1, True)"
  shows "op_inst u1 = op_inst u \<and> (op_dests op (op_inst u) = [] \<longrightarrow> same_ids True u u1) \<and>
    (length (op_dests op (op_inst u)) \<le> 1 \<longrightarrow> same_ids False u u1) \<or> (\<exists>t. op = Mult_div t) \<or> 1 < length (op_dests op (op_inst u))"
proof -
  consider (none) "op_dests op (op_inst u) = []" "get_op_class op \<noteq> Op_store"
    | (mem) "get_op_class op = Op_store \<or> get_op_class op = Op_load"
    | (one) "op_dests op (op_inst u) \<noteq> []" "(\<exists>t. op = Lo_hi_move t) \<or> (\<exists>t. op = Rtype_alu t) \<or> (\<exists>t. op = Rtype_const_shift t) \<or> (\<exists>t. op = Jump t) \<or>
      (\<exists>t. op = Se_op t) \<or> (\<exists>t. op = Cvts_truncw t) \<or>
      op \<in> {Mtc0, Mtc1, Mfc1, Itype_alu, Itype_lui, Mul_op, Clz_op, Ext_op, Ins_op, Movci_op, Fp_cmp}"
    | (pair) "op_dests op (op_inst u) \<noteq> []" "op \<in> {Fmovc_op, Fmovn_op, Fmovz_op, Cvtd_op} \<or> (\<exists>t. op = Fp_arith t) \<or> (\<exists>b t. op = Fp_fma b t) \<or> (\<exists>t. op = Mult_div t)"
    | (mon) "op = Monitor_op"
    by (cases op) auto
  then show ?thesis
  proof cases
    case none
    from no_dest_ids[OF this, of a M] assms have "same_ids True u u1" by (auto simp: leaves_ids_def)
    then show ?thesis by (auto simp: same_ids_def)
  next
    case mem
    have "same_ids True u u1 \<or> same_ids False u u1 \<and> op_dests op (op_inst u) \<noteq> [] \<or> 1 < length (op_dests op (op_inst u))"
      using mem assms
      by (cases op) (auto simp: fp_dests_def dest!: load_ids fp_load_ids store_ids fp_store_ids split: if_splits)
    then show ?thesis by (auto simp: same_ids_def)
  next
    case one
    from one_dest_ids[OF one(2), of u a M] assms one(1) show ?thesis by (auto simp: leaves_ids_def same_ids_def)
  next
    case pair
    then show ?thesis using pair_ids[OF _ pair(2), of u a M] assms by (auto simp: leaves_ids_def same_ids_def)
  next
    case mon
    then show ?thesis using monitor_ids[of u M] assms by (auto simp: leaves_ids_def same_ids_def)
  qed
qed

lemma allocate_settled:
  assumes "allocate_op op a u M = Inr (u1, M1, True)" "unset u" "op_inst u1 = op_inst u"
  shows "settled op u1" "undoable op u1 M1"
proof -
  show "settled op u1"
    using op_ids_cases[OF assms(1)] assms(2,3) by (auto simp: settled_def same_ids_def unset_def)
  show "undoable op u1 M1"
    using assms(1) by (cases op) (auto simp: undoable_def dest!: load_ids fp_load_ids store_ids fp_store_ids)
qed

end
