(* ===== verification/Core_Init.thy ===== *)
theory Core_Init
  imports Decode
begin

text \<open>
  \<^verbatim>\<open>sim_ooo/ooo_core.cc\<close>, the start of the core: the members of \<open>sim_state\<close> before and after
  \<open>initialize\<close>, the copy of the interpreter's registers, and \<open>initialize_ooo_core\<close>; the oracle it
  may make is in \<open>Core_Oracle\<close>.
  The memory the code passes beside the interpreter's state is the memory of that state.
\<close>

section \<open>Sizes\<close>

text \<open>The parameters of \<^verbatim>\<open>sim_ooo/sim_parameters.hh\<close> that only \<open>initialize\<close> reads.\<close>

record core_sizes =
  num_prf :: "rfile \<Rightarrow> nat"
  load_tbl_size :: nat
  store_tbl_size :: nat
  fetchq_size :: u64
  decodeq_size :: u64
  rob_size :: u64
  num_alu_sched_entries :: nat
  num_fpu_sched_entries :: nat
  num_jmp_sched_entries :: nat
  num_load_sched_entries :: nat
  num_store_sched_entries :: nat
  num_system_sched_entries :: nat
  predictor_id :: nat
  num_loop_entries :: u32
  bhr_length :: nat
  num_bht_entries :: nat
  bht_length :: nat

text \<open>The defaults of the options, for a host and a hash.\<close>

definition default_sizes :: core_sizes where
  "default_sizes = \<lparr>num_prf = (\<lambda>k. case k of GPR \<Rightarrow> 128 | CPR0 \<Rightarrow> 64 | CPR1 \<Rightarrow> 64 | FCR1 \<Rightarrow> 16), load_tbl_size = 64,
     store_tbl_size = 64, fetchq_size = 8, decodeq_size = 8, rob_size = 64, num_alu_sched_entries = 16,
     num_fpu_sched_entries = 16, num_jmp_sched_entries = 16, num_load_sched_entries = 16, num_store_sched_entries = 16,
     num_system_sched_entries = 1, predictor_id = 6, num_loop_entries = 0, bhr_length = 32, num_bht_entries = 16, bht_length = 8\<rparr>"

definition default_param :: "params \<Rightarrow> (u64 \<Rightarrow> u8 \<Rightarrow> u64) \<Rightarrow> sim_param" where
  "default_param P h = \<lparr>l1d_latency = 3, fetch_bw = 4, decode_bw = 4, alloc_bw = 4, retire_bw = 4, taken_branches_per_cycle = 1,
     num_alu_ports = 2, num_fpu_ports = 2, num_load_ports = 2, num_store_ports = 1, num_alu_sched = 1, num_fpu_sched = 1,
     num_load_sched = 1, num_store_sched = 1, ready_to_dispatch_latency = 0, flash_restart = True, use_interp_check = False,
     bpar = \<lparr>lg_pht_entries = 16, hash_combine = h\<rparr>, host = P\<rparr>"

fun num_regs :: "rfile \<Rightarrow> nat" where
  "num_regs GPR = 34" | "num_regs CPR0 = 32" | "num_regs CPR1 = 32" | "num_regs FCR1 = 5"

section \<open>The members of a new machine\<close>

definition default_queue :: "nat sim_queue" where
  "default_queue = \<lparr>q_len = 1, q_len2 = 2, q_data = [None], q_rd = 0, q_wr = 0\<rparr>"

definition zero_counters :: counters where
  "zero_counters = \<lparr>n_branches = 0, n_jumps = 0, mispredicted_branches = 0, mispredicted_jumps = 0, mispredicted_jrs = 0,
     mispredicted_jalrs = 0, nukes = 0, branch_nukes = 0, load_nukes = 0, total_ready_insns = 0, total_allocated_insns = 0,
     total_dispatched_insns = 0\<rparr>"

text \<open>
  The mappings and the predictor have no initial value in the code; \<open>initialize\<close> sets them.  The
  histories and the memory are set there too.
\<close>

definition new_machine :: "sparse_mem \<Rightarrow> cache list \<Rightarrow> sim_state" where
  "new_machine m cs = \<lparr>curr = 0, terminate_sim = False, nuke = False, alloc_blocked = False, fetch_blocked = False, delay_slot_npc = 0,
     fetch_pc = 0, last_retire_cycle = 0, last_retire_pc = 0, rf = (\<lambda>k. new_regs (num_regs k) 0), load_tbl = [], store_tbl = [],
     load_tbl_freevec = new_bitvec 64, store_tbl_freevec = new_bitvec 64, fetch_queue = default_queue,
     decode_queue = default_queue, rob = default_queue, alu_alloc = new_bitvec 64, fpu_alloc = new_bitvec 64,
     load_alloc = new_bitvec 64, store_alloc = new_bitvec 64,
     stations = \<lparr>alu_rs = [], fpu_rs = [], jmp_rs = new_sim_list 16, load_rs = [], store_rs = [], system_rs = new_sim_list 16\<rparr>,
     smem = m, branch_pred = Gnoalias (\<lambda>_. None), loop_pred = None, bhr = new_bitvec 64, spec_bhr = new_bitvec 64, bht = [],
     sicnt = 0, maxicnt = -1, skipicnt = 0, fetched_insns = 0, stats = zero_counters,
     return_stack = \<lparr>stack_sz = 32, st_idx = 31, st_arr = replicate 32 0\<rparr>, l1cache = cs, branch_target_map = (\<lambda>_. None),
     branch_prediction_map = (\<lambda>_. None), load_alias_map = (\<lambda>_. {}), alloc_counter = 0, ops = (\<lambda>_. None)\<rparr>"

section \<open>Initialization\<close>

definition new_stations :: "nat \<Rightarrow> nat \<Rightarrow> nat sim_list list" where
  "new_stations ports n = replicate ports (resize_list n (new_sim_list 16))"

definition init_stations :: "sim_param \<Rightarrow> core_sizes \<Rightarrow> stations \<Rightarrow> stations" where
  "init_stations S C st = st\<lparr>alu_rs := new_stations (num_alu_ports S) (num_alu_sched_entries C),
     fpu_rs := new_stations (num_fpu_ports S) (num_fpu_sched_entries C),
     load_rs := new_stations (num_load_ports S) (num_load_sched_entries C),
     store_rs := new_stations (num_store_ports S) (num_store_sched_entries C),
     jmp_rs := resize_list (num_jmp_sched_entries C) (jmp_rs st),
     system_rs := resize_list (num_system_sched_entries C) (system_rs st)\<rparr>"

definition size_regs :: "nat \<Rightarrow> regs \<Rightarrow> regs" where
  "size_regs n r = r\<lparr>phys := replicate n 0, freevec := clear_and_resize n (freevec r),
     freevec_retire := clear_and_resize n (freevec_retire r), valid := clear_and_resize n (valid r)\<rparr>"

definition initialize_rat_mappings :: "sim_state \<Rightarrow> sim_state res" where
  "initialize_rat_mappings M = rbind (on_rf GPR (init_maps 34) M) (\<lambda>M1. rbind (on_rf CPR0 (init_maps 32) M1) (\<lambda>M2.
     rbind (on_rf CPR1 (init_maps 32) M2) (on_rf FCR1 (init_maps 5))))"

definition initialize :: "sim_param \<Rightarrow> core_sizes \<Rightarrow> sim_state \<Rightarrow> sim_state res" where
  "initialize S C M = rbind (if num_loop_entries C \<noteq> 0 then rbind (new_loop_predictor (num_loop_entries C)) (\<lambda>l. Inr (Some l))
      else Inr (loop_pred M)) (\<lambda>lp.
     initialize_rat_mappings (M\<lparr>rf := (\<lambda>k. size_regs (num_prf C k) (rf M k)),
       load_tbl_freevec := clear_and_resize (load_tbl_size C) (load_tbl_freevec M), load_tbl := replicate (load_tbl_size C) None,
       store_tbl_freevec := clear_and_resize (store_tbl_size C) (store_tbl_freevec M), store_tbl := replicate (store_tbl_size C) None,
       fetch_queue := resize_queue (fetchq_size C) (fetch_queue M), decode_queue := resize_queue (decodeq_size C) (decode_queue M),
       rob := resize_queue (rob_size C) (rob M), stations := init_stations S C (stations M),
       branch_pred := get_predictor (bpar S) (predictor_id C), loop_pred := lp,
       bhr := clear_and_resize (bhr_length C) (bhr M), spec_bhr := clear_and_resize (bhr_length C) (spec_bhr M),
       bht := replicate (num_bht_entries C) (clear_and_resize (bht_length C) (new_bitvec 64)),
       alu_alloc := clear_and_resize (num_alu_ports S * nat (num_alu_sched S)) (alu_alloc M),
       fpu_alloc := clear_and_resize (num_fpu_ports S * nat (num_fpu_sched S)) (fpu_alloc M),
       load_alloc := clear_and_resize (num_load_ports S * nat (num_load_sched S)) (load_alloc M),
       store_alloc := clear_and_resize (num_store_ports S * nat (num_store_sched S)) (store_alloc M)\<rparr>))"

section \<open>The registers of the interpreter\<close>

fun put_regs :: "bool \<Rightarrow> (nat \<times> u32) list \<Rightarrow> regs \<Rightarrow> regs res" where
  "put_regs both [] r = Inr r"
| "put_regs both ((d, x) # xs) r = rbind (mapped d r) (\<lambda>p. rbind (write_prf p x r) (\<lambda>r1.
     rbind (if both then rbind (put_res (arch r1) d x) (\<lambda>a. Inr (r1\<lparr>arch := a\<rparr>)) else Inr r1) (put_regs both xs)))"

definition copy_state_core :: "state \<Rightarrow> sim_state \<Rightarrow> sim_state res" where
  "copy_state_core s M0 = (let M = M0\<lparr>fetch_pc := pc s\<rparr> in
     rbind (on_rf GPR (put_regs True (map (\<lambda>i. (i, gpr s i)) [0..<32])) M) (\<lambda>M1.
     rbind (on_rf GPR (put_regs False [(32, lo s), (33, hi s)]) M1) (\<lambda>M2.
     rbind (on_rf CPR0 (put_regs False (map (\<lambda>i. (i, cpr0 s i)) [0..<32])) M2) (\<lambda>M3.
     rbind (on_rf CPR1 (put_regs True (map (\<lambda>i. (i, cpr1 s i)) [0..<32])) M3) (\<lambda>M4.
     rbind (on_rf FCR1 (put_regs True (map (\<lambda>i. (i, fcr1 s i)) [0..<5])) M4) (\<lambda>M5.
       Inr (M5\<lparr>sicnt := icnt s\<rparr>)))))))"

section \<open>The start of a run\<close>

text \<open>The interpreter runs first, to the next system call or for a number of instructions; \<open>n\<close> is fuel.\<close>

fun run_while :: "(state \<Rightarrow> bool) \<Rightarrow> params \<Rightarrow> nat \<Rightarrow> nat \<Rightarrow> state \<Rightarrow> state res" where
  "run_while c P k n s = (if \<not> c s then Inr s else case n of 0 \<Rightarrow> Inl OutOfFuel
     | Suc n1 \<Rightarrow> rbind (execMips P k s) (run_while c P k n1))"

declare run_while.simps [simp del]

definition skip_insns :: "params \<Rightarrow> nat \<Rightarrow> nat \<Rightarrow> bool \<Rightarrow> u64 \<Rightarrow> state \<Rightarrow> state res" where
  "skip_insns P k n use_syscall_skip skip s = (
     if use_syscall_skip then rbind (run_while (\<lambda>s. syscall s = 0 \<and> brk s = 0) P k n s) (\<lambda>s1. Inr (s1\<lparr>pc := pc s1 + 4\<rparr>))
     else if skip \<noteq> 0 then run_while (\<lambda>s. icnt s < skip \<and> brk s = 0) P k n s else Inr s)"

text \<open>The interpreter has no data cache or the one of the core, which its accesses have warmed.\<close>

definition take_cache :: "state \<Rightarrow> sim_state \<Rightarrow> sim_state" where
  "take_cache s M = (if l1d s = [] then M else M\<lparr>l1cache := l1d s\<rparr>)"

definition initialize_ooo_core :: "sim_param \<Rightarrow> core_sizes \<Rightarrow> nat \<Rightarrow> nat \<Rightarrow> cache list \<Rightarrow> bool \<Rightarrow> u64 \<Rightarrow> u64 \<Rightarrow> state \<Rightarrow> sim_state \<Rightarrow>
    (state \<times> sim_state) res" where
  "initialize_ooo_core S C k n cs use_syscall_skip skip maxi s M = rbind (skip_insns (host S) k n use_syscall_skip skip s) (\<lambda>s1.
     rbind (copy_mem (new_mem 0) (mem s1)) (\<lambda>m.
     rbind (initialize S C (take_cache s1 (M\<lparr>l1cache := cs, smem := m\<rparr>))) (\<lambda>M1.
     rbind (copy_state_core s1 (M1\<lparr>maxicnt := maxi, skipicnt := icnt s1\<rparr>)) (\<lambda>M2. Inr (s1, M2)))))"

end
