(* ===== verification/Core_Init_Proofs.thy ===== *)
theory Core_Init_Proofs
  imports Core_Init Op_Allocate Interp_Mem_Proofs
begin

text \<open>
  The start of the core: after \<open>initialize\<close> and the copy of the interpreter's state, the renaming
  tables satisfy their invariant with nothing in flight, the tables and queues are empty, and the
  mapped registers are the interpreter's.
\<close>

lemma num_regs_arch: "num_regs k = arch_count k"
  by (cases k) simp_all

lemma size_new_regs: "size_regs n (new_regs k 0) = new_regs k n"
  by (simp add: size_regs_def new_regs_def clear_and_resize_def new_bitvec_def)

lemma put_regs_ok:
  assumes "renaming_inv k n fs r" "fst ` set xs \<subseteq> {..<k}" "distinct (map fst xs)" "length (arch r) = k"
  shows "\<exists>r'. put_regs both xs r = Inr r' \<and> renaming_inv k n fs r' \<and> rat r' = rat r \<and> length (arch r') = k \<and>
    arch_last_pc r' = arch_last_pc r \<and>
    (\<forall>d < k. arch r' ! d = (if both then case map_of xs d of Some x \<Rightarrow> x | None \<Rightarrow> arch r ! d else arch r ! d)) \<and>
    (\<forall>d < k. phys r' ! nat (rat r ! d) = (case map_of xs d of Some x \<Rightarrow> x | None \<Rightarrow> phys r ! nat (rat r ! d)))"
  using assms
proof (induction xs arbitrary: r)
  case (Cons dx xs)
  obtain d x where dx: "dx = (d, x)" by (cases dx)
  note inv = Cons.prems(1)
  note I = renaming_invD[OF inv]
  have d: "d < k" "d \<notin> set (map fst xs)" using Cons.prems(2,3) dx by auto
  let ?p = "rat r ! d"
  have sub: "set (rat r) \<subseteq> set (rat_retire r) \<union> set (new_ids fs)" by (rule renamed_subset[OF I(7)])
  have b: "0 \<le> rat r ! e \<and> rat r ! e < int n" if "e < k" for e
  proof -
    have "rat r ! e \<in> set (rat r)" using that I(2) by simp
    then show ?thesis using sub renaming_inv_bounds[OF inv, of "rat r ! e"] by blast
  qed
  have dist: "distinct (rat r)" by (rule renamed_distinct[OF I(7,8)])
  let ?r1 = "r\<lparr>phys := (phys r)[nat ?p := x]\<rparr>"
  let ?r2 = "if both then ?r1\<lparr>arch := (arch r)[d := x]\<rparr> else ?r1"
  have w: "write_prf ?p x r = Inr ?r1" using b[OF d(1)] I(3) by (simp add: write_prf_def put_idx_def put_res_def nat_less_iff)
  have step: "put_regs both (dx # xs) r = put_regs both xs ?r2"
    using dx d(1) I(2) w Cons.prems(4) by (simp add: mapped_def nth_res_def put_res_def)
  have inv2: "renaming_inv k n fs ?r2" using inv by (auto simp: renaming_inv_def)
  have eq: "rat ?r2 = rat r" "length (arch ?r2) = k" "arch_last_pc ?r2 = arch_last_pc r" using Cons.prems(4) by auto
  have ph2: "phys ?r2 = (phys r)[nat ?p := x]" by simp
  have xs: "fst ` set xs \<subseteq> {..<k}" "distinct (map fst xs)" using Cons.prems(2,3) by auto
  obtain r' where r': "put_regs both xs ?r2 = Inr r'" "renaming_inv k n fs r'" "rat r' = rat r" "length (arch r') = k"
    "\<forall>e < k. phys r' ! nat (rat r ! e) = (case map_of xs e of Some x \<Rightarrow> x | None \<Rightarrow> (phys r)[nat ?p := x] ! nat (rat r ! e))"
    "arch_last_pc r' = arch_last_pc r"
    "\<forall>e < k. arch r' ! e = (if both then case map_of xs e of Some x \<Rightarrow> x | None \<Rightarrow> arch ?r2 ! e else arch ?r2 ! e)"
    using Cons.IH[OF inv2 xs eq(2)] unfolding eq(1,3) ph2 by blast
  have ph: "(phys r)[nat ?p := x] ! nat (rat r ! e) = (if e = d then x else phys r ! nat (rat r ! e))" if e: "e < k" for e
  proof -
    have "rat r ! e = ?p \<longleftrightarrow> e = d" using dist e d(1) I(2) by (simp add: nth_eq_iff_index_eq)
    then have "nat (rat r ! e) = nat ?p \<longleftrightarrow> e = d" using b[OF e] b[OF d(1)] by auto
    moreover have "nat ?p < length (phys r)" using b[OF d(1)] I(3) by (simp add: nat_less_iff)
    ultimately show ?thesis by (auto simp: nth_list_update)
  qed
  have "map_of xs d = None" using d(2) by (simp add: map_of_eq_None_iff)
  from this have "\<forall>e < k. phys r' ! nat (rat r ! e) = (case map_of (dx # xs) e of Some x \<Rightarrow> x | None \<Rightarrow> phys r ! nat (rat r ! e))"
    using r'(5) ph dx by (auto split: option.splits)
  moreover have "\<forall>e < k. arch r' ! e = (if both then case map_of (dx # xs) e of Some x \<Rightarrow> x | None \<Rightarrow> arch r ! e else arch r ! e)"
    using r'(7) dx \<open>map_of xs d = None\<close> Cons.prems(4) by (cases both) (auto simp: nth_list_update split: option.splits)
  ultimately show ?case using r'(1-4,6) step by auto
qed simp

lemma map_of_regs: "map_of (map (\<lambda>i. (i, f i)) [0..<n]) d = (if d < n then Some (f d) else None)"
  using map_of_map_restrict[of f "[0..<n]"] by (simp add: restrict_map_def)

lemma on_rf_ok: "f (rf M k) = Inr r \<Longrightarrow> on_rf k f M = Inr (M\<lparr>rf := (rf M)(k := r)\<rparr>)"
  by (simp add: on_rf_def)

definition regs_new :: "rfile \<Rightarrow> nat \<Rightarrow> regs \<Rightarrow> bool" where
  "regs_new k n r \<longleftrightarrow> renaming_inv (arch_count k) n [] r \<and> length (arch r) = arch_count k \<and> length (arch_last_pc r) = arch_count k"

lemma init_mappings_ok:
  assumes "\<And>k. rf M k = new_regs (num_regs k) (N k)" "\<And>k. num_regs k \<le> N k"
  shows "\<exists>R. initialize_rat_mappings M = Inr (M\<lparr>rf := R\<rparr>) \<and>
    (\<forall>k. regs_new k (N k) (R k))"
proof -
  have "\<exists>r. init_maps (num_regs k) (rf M k) = Inr r \<and> regs_new k (N k) r" for k
    using init_maps_ok[OF assms(2)[of k]] assms(1)[of k] num_regs_arch unfolding regs_new_def by (metis length_replicate)
  then obtain R where R: "\<And>k. init_maps (num_regs k) (rf M k) = Inr (R k)" "\<And>k. regs_new k (N k) (R k)" by metis
  have "(rf M)(GPR := R GPR, CPR0 := R CPR0, CPR1 := R CPR1, FCR1 := R FCR1) = R"
    by (rule ext) (case_tac x, simp_all)
  then have "initialize_rat_mappings M = Inr (M\<lparr>rf := R\<rparr>)"
    using R(1)[of GPR] R(1)[of CPR0] R(1)[of CPR1] R(1)[of FCR1] by (simp add: initialize_rat_mappings_def on_rf_def)
  with R(2) show ?thesis by blast
qed

text \<open>What the copy puts in a register file.\<close>

definition copies :: "rfile \<Rightarrow> nat \<Rightarrow> state \<Rightarrow> regs \<Rightarrow> regs \<Rightarrow> bool" where
  "copies k n s r r' \<longleftrightarrow> regs_new k n r' \<and> rat r' = rat r \<and> (\<forall>d < shown k. arch r' ! d = arch_reg k d s) \<and>
     (\<forall>d < arch_count k. phys r' ! nat (rat r ! d) = arch_reg k d s)"

lemma copy_regs_ok:
  assumes "regs_new k n r" "k \<noteq> GPR" "both \<or> k = CPR0"
  shows "\<exists>r'. put_regs both (map (\<lambda>i. (i, arch_reg k i s)) [0..<arch_count k]) r = Inr r' \<and> copies k n s r r'"
proof -
  let ?xs = "map (\<lambda>i. (i, arch_reg k i s)) [0..<arch_count k]"
  have "fst ` set ?xs \<subseteq> {..<arch_count k}" "distinct (map fst ?xs)" by (auto simp: comp_def)
  moreover have "renaming_inv (arch_count k) n [] r" "length (arch r) = arch_count k" using assms(1) by (simp_all add: regs_new_def)
  ultimately obtain r' where r': "put_regs both ?xs r = Inr r'" "renaming_inv (arch_count k) n [] r'" "rat r' = rat r"
    "length (arch r') = arch_count k" "arch_last_pc r' = arch_last_pc r"
    "\<forall>d < arch_count k. arch r' ! d = (if both then case map_of ?xs d of Some x \<Rightarrow> x | None \<Rightarrow> arch r ! d else arch r ! d)"
    "\<forall>d < arch_count k. phys r' ! nat (rat r ! d) = (case map_of ?xs d of Some x \<Rightarrow> x | None \<Rightarrow> phys r ! nat (rat r ! d))"
    using put_regs_ok[of "arch_count k" n "[]" r ?xs both] by blast
  moreover have "shown k \<le> arch_count k" by (cases k) simp_all
  ultimately have "copies k n s r r'" using assms by (auto simp: copies_def regs_new_def map_of_regs)
  with r'(1) show ?thesis by blast
qed

lemma copy_gpr_ok:
  assumes new: "regs_new GPR n r"
  shows "\<exists>r1 r'. put_regs True (map (\<lambda>i. (i, gpr s i)) [0..<32]) r = Inr r1 \<and> put_regs False [(32, lo s), (33, hi s)] r1 = Inr r' \<and>
    copies GPR n s r r'"
proof -
  have assms: "renaming_inv 34 n [] r" "length (arch r) = 34" "length (arch_last_pc r) = 34" using new by (simp_all add: regs_new_def)
  let ?xs = "map (\<lambda>i. (i, gpr s i)) [0..<32]" and ?ys = "[(32 :: nat, lo s), (33, hi s)]"
  have xs: "fst ` set ?xs \<subseteq> {..<34}" "distinct (map fst ?xs)" by (auto simp: comp_def)
  have ys: "fst ` set ?ys \<subseteq> {..<34}" "distinct (map fst ?ys)" by auto
  obtain r1 where r1: "put_regs True ?xs r = Inr r1" "renaming_inv 34 n [] r1" "rat r1 = rat r" "length (arch r1) = 34"
    "arch_last_pc r1 = arch_last_pc r" "\<forall>d < 34. arch r1 ! d = (case map_of ?xs d of Some x \<Rightarrow> x | None \<Rightarrow> arch r ! d)"
    "\<forall>d < 34. phys r1 ! nat (rat r ! d) = (case map_of ?xs d of Some x \<Rightarrow> x | None \<Rightarrow> phys r ! nat (rat r ! d))"
    using put_regs_ok[OF assms(1) xs assms(2), of True] by (simp only: if_True) blast
  obtain r' where r': "put_regs False ?ys r1 = Inr r'" "renaming_inv 34 n [] r'" "rat r' = rat r1" "length (arch r') = 34"
    "arch_last_pc r' = arch_last_pc r1" "\<forall>d < 34. arch r' ! d = arch r1 ! d"
    "\<forall>d < 34. phys r' ! nat (rat r1 ! d) = (case map_of ?ys d of Some x \<Rightarrow> x | None \<Rightarrow> phys r1 ! nat (rat r1 ! d))"
    using put_regs_ok[OF r1(2) ys r1(4), of False] by (simp only: if_False) blast
  have "phys r' ! nat (rat r ! d) = arch_reg GPR d s" if "d < 34" for d
    using that r'(3,7) r1(3,7) by (auto simp: map_of_regs split: if_splits)
  moreover have "arch r' ! d = arch_reg GPR d s" if "d < 32" for d using that r'(6) r1(6) by (simp add: map_of_regs)
  ultimately have "copies GPR n s r r'" using r1(3,5) r'(2-5) assms(3) by (simp add: copies_def regs_new_def)
  with r1(1) r'(1) show ?thesis by blast
qed

lemma copy_state_ok:
  assumes ok: "\<And>k. regs_new k (N k) (rf M k)"
  shows "\<exists>R. copy_state_core s M = Inr (M\<lparr>fetch_pc := pc s, rf := R, sicnt := icnt s\<rparr>) \<and> (\<forall>k. copies k (N k) s (rf M k) (R k))"
proof -
  obtain g1 g where g: "put_regs True (map (\<lambda>i. (i, gpr s i)) [0..<32]) (rf M GPR) = Inr g1"
    "put_regs False [(32, lo s), (33, hi s)] g1 = Inr g" "copies GPR (N GPR) s (rf M GPR) g"
    using copy_gpr_ok[of "N GPR" "rf M GPR" s] ok[of GPR] by auto
  obtain c0 where c0: "put_regs False (map (\<lambda>i. (i, cpr0 s i)) [0..<32]) (rf M CPR0) = Inr c0" "copies CPR0 (N CPR0) s (rf M CPR0) c0"
    using copy_regs_ok[of CPR0 "N CPR0" "rf M CPR0" False s] ok[of CPR0] by auto
  obtain c1 where c1: "put_regs True (map (\<lambda>i. (i, cpr1 s i)) [0..<32]) (rf M CPR1) = Inr c1" "copies CPR1 (N CPR1) s (rf M CPR1) c1"
    using copy_regs_ok[of CPR1 "N CPR1" "rf M CPR1" True s] ok[of CPR1] by auto
  obtain f1 where f1: "put_regs True (map (\<lambda>i. (i, fcr1 s i)) [0..<5]) (rf M FCR1) = Inr f1" "copies FCR1 (N FCR1) s (rf M FCR1) f1"
    using copy_regs_ok[of FCR1 "N FCR1" "rf M FCR1" True s] ok[of FCR1] by auto
  let ?R = "(rf M)(GPR := g, CPR0 := c0, CPR1 := c1, FCR1 := f1)"
  have "copies k (N k) s (rf M k) (?R k)" for k using g c0 c1 f1 by (cases k) simp_all
  moreover have "copy_state_core s M = Inr (M\<lparr>fetch_pc := pc s, rf := ?R, sicnt := icnt s\<rparr>)"
    using g c0 c1 f1 by (simp add: copy_state_core_def Let_def on_rf_def fun_upd_def cong: if_cong)
  ultimately show ?thesis by blast
qed

section \<open>The whole start\<close>

definition sizes_ok :: "core_sizes \<Rightarrow> bool" where
  "sizes_ok C \<longleftrightarrow> (\<forall>k. num_regs k \<le> num_prf C k) \<and> (num_loop_entries C = 0 \<or> isPow2 (num_loop_entries C))"

definition idle :: "sim_state \<Rightarrow> bool" where
  "idle M \<longleftrightarrow> empty_q (fetch_queue M) \<and> empty_q (decode_queue M) \<and> empty_q (rob M) \<and>
     list_all empty_list (alu_rs (stations M) @ fpu_rs (stations M) @ load_rs (stations M) @ store_rs (stations M)) \<and>
     empty_list (jmp_rs (stations M)) \<and> empty_list (system_rs (stations M)) \<and>
     set (load_tbl M) \<subseteq> {None} \<and> set (store_tbl M) \<subseteq> {None} \<and> \<not> nuke M \<and> \<not> alloc_blocked M \<and> \<not> fetch_blocked M"

text \<open>No descriptor is left anywhere, and the two global histories have the same size.\<close>

definition blank :: "sim_state \<Rightarrow> bool" where
  "blank M \<longleftrightarrow> ops M = Map.empty \<and> set (q_data (rob M) @ q_data (fetch_queue M) @ q_data (decode_queue M)) \<subseteq> {None} \<and>
     n_bits (spec_bhr M) = n_bits (bhr M) \<and> length (arr (spec_bhr M)) = length (arr (bhr M))"

lemma initialize_ok:
  assumes "sizes_ok C" "rf M = (\<lambda>k. new_regs (num_regs k) 0)" "\<not> nuke M" "\<not> alloc_blocked M" "\<not> fetch_blocked M" "ops M = Map.empty"
  shows "\<exists>M1. initialize S C M = Inr M1 \<and> tables_ok M1 \<and> idle M1 \<and> blank M1 \<and> smem M1 = smem M \<and>
    (\<forall>k. regs_new k (num_prf C k) (rf M1 k))"
proof -
  have lp: "\<exists>lp. (if num_loop_entries C \<noteq> 0 then rbind (new_loop_predictor (num_loop_entries C)) (\<lambda>l. Inr (Some l))
      else Inr (loop_pred M)) = Inr lp"
    using assms(1) by (auto simp: sizes_ok_def new_loop_predictor_def)
  then obtain lp where lp: "(if num_loop_entries C \<noteq> 0 then rbind (new_loop_predictor (num_loop_entries C)) (\<lambda>l. Inr (Some l))
      else Inr (loop_pred M)) = Inr lp" by blast
  define M0 where "M0 = M\<lparr>rf := (\<lambda>k. size_regs (num_prf C k) (rf M k)),
       load_tbl_freevec := clear_and_resize (load_tbl_size C) (load_tbl_freevec M), load_tbl := replicate (load_tbl_size C) None,
       store_tbl_freevec := clear_and_resize (store_tbl_size C) (store_tbl_freevec M), store_tbl := replicate (store_tbl_size C) None,
       fetch_queue := resize_queue (fetchq_size C) (fetch_queue M), decode_queue := resize_queue (decodeq_size C) (decode_queue M),
       rob := resize_queue (rob_size C) (rob M), stations := init_stations S C (stations M),
       branch_pred := get_predictor (bpar S) (predictor_id C), loop_pred := lp,
       bhr := clear_and_resize (bhr_length C) (bhr M), spec_bhr := clear_and_resize (bhr_length C) (spec_bhr M),
       bht := replicate (num_bht_entries C) (clear_and_resize (bht_length C) (new_bitvec 64)),
       alu_alloc := clear_and_resize (num_alu_ports S * nat (num_alu_sched S)) (alu_alloc M),
       fpu_alloc := clear_and_resize (num_fpu_ports S * nat (num_fpu_sched S)) (fpu_alloc M),
       load_alloc := clear_and_resize (num_load_ports S * nat (num_load_sched S)) (load_alloc M),
       store_alloc := clear_and_resize (num_store_ports S * nat (num_store_sched S)) (store_alloc M)\<rparr>"
  have "initialize S C M = initialize_rat_mappings M0" unfolding initialize_def lp M0_def by simp
  moreover have "rf M0 k = new_regs (num_regs k) (num_prf C k)" for k by (simp add: M0_def assms(2) size_new_regs)
  then obtain R where "initialize_rat_mappings M0 = Inr (M0\<lparr>rf := R\<rparr>)"
    "\<forall>k. regs_new k (num_prf C k) (R k)"
    using init_mappings_ok[of M0 "num_prf C"] assms(1) by (auto simp: sizes_ok_def)
  moreover have "wf_vec n (clear_and_resize n v)" for n and v :: "u64 bitvec"
  proof -
    have "clear_and_resize n v = new_bitvec n" by (cases v) (simp add: clear_and_resize_def new_bitvec_def)
    then show ?thesis by (simp add: wf_vec_def)
  qed
  then have "tables_ok (M0\<lparr>rf := R\<rparr>)" for R by (simp add: tables_ok_def M0_def)
  moreover have "idle (M0\<lparr>rf := R\<rparr>)" for R
    using assms(3-5) by (auto simp: idle_def M0_def empty_q_def resize_queue_def init_stations_def new_stations_def empty_list_def
        resize_list_def list_all_iff)
  moreover have "blank (M0\<lparr>rf := R\<rparr>)" for R
    by (auto simp: blank_def M0_def assms(6) resize_queue_def clear_and_resize_def)
  ultimately show ?thesis by (auto simp: M0_def)
qed

lemma start_ok:
  assumes "sizes_ok C"
  shows "\<exists>M1 M. initialize S C (new_machine m cs) = Inr M1 \<and>
    copy_state_core s (M1\<lparr>maxicnt := x, skipicnt := y\<rparr>) = Inr M \<and> ren_ok (num_prf C) (\<lambda>_. []) M \<and> tables_ok M \<and> banks_ok M \<and> holds M s \<and>
    shows_regs M s \<and> idle M \<and> blank M \<and> fetch_pc M = pc s \<and> sicnt M = icnt s \<and> smem M = m"
proof -
  have "rf (new_machine m cs) = (\<lambda>k. new_regs (num_regs k) 0)" "smem (new_machine m cs) = m"
    "\<not> nuke (new_machine m cs) \<and> \<not> alloc_blocked (new_machine m cs) \<and> \<not> fetch_blocked (new_machine m cs)"
    "ops (new_machine m cs) = Map.empty" by (simp_all add: new_machine_def)
  then obtain M1 where M1: "initialize S C (new_machine m cs) = Inr M1" "tables_ok M1" "idle M1" "smem M1 = m" "blank M1"
    "\<And>k. regs_new k (num_prf C k) (rf M1 k)"
    using initialize_ok[OF assms, of "new_machine m cs" S] by metis
  let ?M2 = "M1\<lparr>maxicnt := x, skipicnt := y\<rparr>"
  obtain R where R: "copy_state_core s ?M2 = Inr (?M2\<lparr>fetch_pc := pc s, rf := R, sicnt := icnt s\<rparr>)"
    "\<And>k. copies k (num_prf C k) s (rf ?M2 k) (R k)"
    using copy_state_ok[of "num_prf C" ?M2 s] M1(6) by auto
  have "ren_ok (num_prf C) (\<lambda>_. []) (?M2\<lparr>fetch_pc := pc s, rf := R, sicnt := icnt s\<rparr>)"
    "holds (?M2\<lparr>fetch_pc := pc s, rf := R, sicnt := icnt s\<rparr>) s" "banks_ok (?M2\<lparr>fetch_pc := pc s, rf := R, sicnt := icnt s\<rparr>)"
    "shows_regs (?M2\<lparr>fetch_pc := pc s, rf := R, sicnt := icnt s\<rparr>) s"
    using R(2) by (auto simp: ren_ok_def copies_def holds_def reg_val_def regs_new_def banks_ok_def shows_regs_def)
  then show ?thesis using M1 R(1) by (auto simp: tables_ok_def idle_def blank_def)
qed

lemma core_start_ok:
  assumes "skip_insns (host S) k n sk skip s = Inr s1" "wf_mem (mem s1)" "sizes_ok C"
  shows "\<exists>M. initialize_ooo_core S C k n cs sk skip maxi s (new_machine m0 cs0) = Inr (s1, M) \<and>
    ren_ok (num_prf C) (\<lambda>_. []) M \<and> tables_ok M \<and> banks_ok M \<and> holds M s1 \<and> shows_regs M s1 \<and> idle M \<and> fetch_pc M = pc s1 \<and> sicnt M = icnt s1 \<and>
    byte_at (smem M) = byte_at (mem s1)"
proof -
  obtain m where m: "copy_mem (new_mem 0) (mem s1) = Inr m" "byte_at m = byte_at (mem s1)"
    using copy_mem_ok[OF assms(2), of "new_mem 0"] by auto
  let ?cs = "if l1d s1 = [] then cs else l1d s1"
  have "take_cache s1 (new_machine m0 cs0\<lparr>l1cache := cs, smem := m\<rparr>) = new_machine m ?cs" by (simp add: new_machine_def take_cache_def)
  then show ?thesis
    using start_ok[OF assms(3), where S = S and m = m and cs = ?cs and s = s1 and x = maxi and y = "icnt s1"] assms(1) m by (auto simp: initialize_ooo_core_def)
qed

text \<open>
  C13. The core starts in the state of the interpreter: once the interpreter has run the instructions
  to skip, initialization succeeds, the renaming tables satisfy their invariant with nothing in
  flight, every mapped register holds the interpreter's register, the architectural copies that the
  check compares agree with it, fetch starts at its program
  counter, the core's memory is a copy of the interpreter's, and all queues and stations are empty.
\<close>

theorem core_starts_at_interpreter:
  assumes "skip_insns (host S) k n sk skip s = Inr s1" "wf_mem (mem s1)" "sizes_ok C"
  shows "\<exists>M. initialize_ooo_core S C k n cs sk skip maxi s (new_machine m0 cs0) = Inr (s1, M) \<and>
    ren_ok (num_prf C) (\<lambda>_. []) M \<and> tables_ok M \<and> banks_ok M \<and> holds M s1 \<and> shows_regs M s1 \<and> idle M \<and> fetch_pc M = pc s1 \<and> sicnt M = icnt s1 \<and>
    byte_at (smem M) = byte_at (mem s1)"
  using core_start_ok[OF assms] .

lemma default_sizes_ok: "sizes_ok default_sizes"
proof -
  have "num_regs k \<le> num_prf default_sizes k" for k by (cases k) (simp_all add: default_sizes_def)
  then show ?thesis by (simp add: sizes_ok_def default_sizes_def)
qed

theorem core_starts_at_interpreter_witness:
  "\<exists>M. initialize_ooo_core (default_param sample_params (\<lambda>h w. h)) default_sizes 0 0 [] False 0 100 sample_state
      (new_machine (new_mem 0) []) = Inr (sample_state, M) \<and> holds M sample_state \<and> idle M"
proof -
  have "skip_insns (host (default_param sample_params (\<lambda>h w. h))) 0 0 False 0 sample_state = Inr sample_state"
    by (simp add: skip_insns_def)
  moreover have "wf_mem (mem sample_state)" by (simp add: sample_facts)
  ultimately show ?thesis using core_starts_at_interpreter default_sizes_ok by blast
qed

end
