(* ===== verification/Rename_Properties.thy ===== *)
theory Rename_Properties
  imports Op_Refine_Special Core_Init_Proofs
begin

text \<open>
  Allocation and execution of the operations, as properties of the dispatch functions: what
  allocation does for every class, and the refinement of the interpreter by the integer classes.
\<close>

section \<open>Allocation\<close>

lemma renaming_inv_card: "renaming_inv k n fs r \<Longrightarrow> card (used (freevec r)) = k + length fs \<and> finite (used (freevec r))"
  using distinct_card[of "rat_retire r @ new_ids fs"] by (auto simp: renaming_inv_def new_ids_def)

lemma grows_fresh:
  assumes "ren_ok N F M" "grows N F G M M1"
  shows "set (new_ids (G k)) \<inter> used (freevec (rf M k)) = {}"
proof -
  let ?A = "used (freevec (rf M k))" and ?B = "set (new_ids (G k))"
  have a: "card ?A = arch_count k + length (F k)" "finite ?A" using renaming_inv_card[OF ren_okD[OF assms(1)]] by blast+
  have "renaming_inv (arch_count k) (N k) (F k @ G k) (rf M1 k)" using ren_okD[of N "\<lambda>k. F k @ G k" M1 k] assms(2) by (simp add: grows_def)
  then have "card (?A \<union> ?B) = arch_count k + (length (F k) + length (G k))"
    using renaming_inv_card assms(2) by (fastforce simp: grows_def)
  moreover have "card (?A \<union> ?B) + card (?A \<inter> ?B) = card ?A + card ?B" using card_Un_Int[of ?A ?B] a(2) by simp
  moreover have "card ?B \<le> length (G k)" using card_length[of "new_ids (G k)"] by (simp add: new_ids_def)
  ultimately have "card (?A \<inter> ?B) = 0" using a(1) by linarith
  then show ?thesis using a(2) by auto
qed

text \<open>
  C9. Allocation of any operation whose registers exist returns in a well-formed state: it notes the physical registers of the
  sources under the mapping of that moment, claims for each destination a register that nothing in flight
  uses and clears its valid bit, and keeps the invariant of renaming with the new renamings as the
  youngest; where a register or a table entry is missing the machine is left as it was.  Excluded by \<open>regs_ok\<close> is only
  what the code indexes out of bounds: a double in floating-point register 31, and any floating-point load into it (the code
  reads the mapping of the register after it even for a single).
\<close>

theorem allocate_renames:
  assumes "ren_ok N F M" "tables_ok M" "64 dvd N GPR" "64 dvd N CPR1" "regs_ok op (op_inst u)"
  shows "\<exists>u1 M1 ok. allocate_op op a u M = Inr (u1, M1, ok) \<and>
    (if ok then ren_ok N (\<lambda>k. F k @ op_renamings op u1 k) M1 \<and> tables_ok M1 \<and> smem M1 = smem M \<and>
         list_all (\<lambda>(i, k, d). src u1 i = rat (rf M k) ! d) (op_srcs op (op_inst u)) \<and>
         (\<forall>k. rat (rf M1 k) = remap (op_renamings op u1 k) (rat (rf M k)) \<and>
            set (new_ids (op_renamings op u1 k)) \<inter> used (freevec (rf M k)) = {} \<and>
            set (new_ids (op_renamings op u1 k)) \<inter> used (valid (rf M1 k)) = {})
     else M1 = M)"
proof -
  note A = allocate_op_ok[OF assms, of a]
  obtain u1 M1 ok where x: "allocate_op op a u M = Inr (u1, M1, ok)" using A by (auto simp: allocates_def)
  show ?thesis
  proof (cases ok)
    case True
    then have g: "grows N F (op_renamings op u1) M M1" "tables_ok M1"
      "list_all (\<lambda>(i, k, d). src u1 i = rat (rf M k) ! d) (op_srcs op (op_inst u))"
      using A x unfolding True by (simp_all add: allocates_done)
    then show ?thesis using x True grows_fresh[OF assms(1) g(1)] unfolding grows_def by auto
  next
    case False
    then have "M1 = M" using A x unfolding allocates_def by auto
    then show ?thesis using x False by auto
  qed
qed

text \<open>A machine that has just started, for the instruction \<open>w\<close>.\<close>

definition sample_op :: "u32 \<Rightarrow> mips_meta_op" where
  "sample_op w = new_meta_op 0 0x100 w 0x104 0 False False"

lemma sample_op_inst [simp]: "op_inst (sample_op w) = w"
  by (simp add: sample_op_def new_meta_op_def)

lemma sample_start:
  obtains M where "ren_ok (num_prf default_sizes) (\<lambda>_. []) M" "tables_ok M" "holds M sample_state"
    "banks_ok M" "shows_regs M sample_state" "idle M" "blank M"
  using start_ok[OF default_sizes_ok, of undefined "new_mem 0" "[]" sample_state] by blast

lemma sample_prf: "64 dvd num_prf default_sizes GPR" "64 dvd num_prf default_sizes CPR1"
  by (simp_all add: default_sizes_def)

theorem allocate_renames_witness:
  "\<exists>M u1 M1 ok. ren_ok (num_prf default_sizes) (\<lambda>_. []) M \<and> allocate_op (Rtype_alu Addu) 7 (sample_op 0x00851821) M = Inr (u1, M1, ok) \<and>
     (ok \<longrightarrow> ren_ok (num_prf default_sizes) (op_renamings (Rtype_alu Addu) u1) M1)"
proof -
  obtain M where M: "ren_ok (num_prf default_sizes) (\<lambda>_. []) M" "tables_ok M" by (rule sample_start)
  have "regs_ok (Rtype_alu Addu) (op_inst (sample_op 0x00851821))" by (simp add: regs_ok_def reg_less34)
  from allocate_renames[OF M sample_prf this, of 7] show ?thesis using M(1) by (auto split: if_splits)
qed

section \<open>The integer operations and the interpreter\<close>

text \<open>
  C2. The core computes what the interpreter computes: where the mapped physical registers hold the
  registers of an architectural state, an integer instruction that is decoded, allocated
  and executed (when ready, for the two moves that check it) leaves the mapped registers as the interpreter leaves its registers.
  The classes are arithmetic, shifts, multiplication, division, bit fields, sign extension, moves to and from
  \<open>lo\<close>, \<open>hi\<close> and the coprocessors, and conditional moves, with these exceptions (\<open>exact_op\<close>): \<open>add\<close>, \<open>sub\<close>, \<open>addi\<close>
  and \<open>maddu\<close>, at which the core stops; \<open>teq\<close>; a destination of register 0 in the arithmetic, constant-shift, immediate and \<open>lui\<close>
  classes other than \<open>nop\<close> itself, which the core does not write and the interpreter does; and a division by zero, where the two
  differ.  The descriptor has no register before it is allocated, as the decoder leaves it.
\<close>

theorem integer_ops_refine_interpreter:
  assumes "ren_ok N F M" "tables_ok M" "64 dvd N GPR" "64 dvd N CPR1" "holds M s"
    and "decode_op (op_inst u) = Inr (Some op)" "exact_op op (op_inst u) s"
    and "allocate_op op a u M = Inr (u1, M1, True)" "op \<in> {Mtc0, Mfc1} \<Longrightarrow> ready_op op u1 M1 = Inr True"
    and "exec_insn P K (op_inst u) s = Inr s'" "prf_idx u = -1"
  shows "\<exists>u2 M2. execute_op S op a u1 M1 = Inr (u2, M2) \<and> holds M2 s' \<and> smem M2 = smem M \<and>
    ren_ok N (\<lambda>k. F k @ op_renamings op u1 k) M2"
proof -
  have "started N F op s M u u1 M1"
    using assms(1-4) exact_regs[OF assms(7)] assms(5,8) by (rule startedI)
  from exact_refines[OF this assms(6,7,10,9) nop_no_reg[OF assms(6,8,11)], of S a] show ?thesis by (auto simp: reaches_def)
qed

lemma sample_allocates:
  assumes M: "ren_ok (num_prf default_sizes) (\<lambda>_. []) M"
  shows "\<exists>u1 M1. allocate_op (Rtype_alu Addu) 7 (sample_op 0x00851821) M = Inr (u1, M1, True)"
proof -
  let ?r = "rf M GPR"
  have inv: "renaming_inv 34 128 [] ?r" using ren_okD[OF M, of GPR] by (simp add: default_sizes_def)
  have free: "find_first_unset (freevec ?r) \<noteq> -1"
    using find_free[OF renaming_invD(4)[OF inv]] renaming_inv_card[OF inv] by auto
  then obtain M1 where "on_rf GPR (claim 3 (find_first_unset (freevec ?r))) M = Inr M1"
    using claim_step[OF M, of 3 GPR] by auto
  moreover have "rtype_dest Addu 0x00851821 = 3" by code_simp
  ultimately show ?thesis using M free
    by (simp add: rtype_allocate_def Let_def set_src_ok reg_less34 rtype_src2_def rename_reg_def mapped_ok)
qed

text \<open>\<open>addu $3, $4, $5\<close> on a machine that has just started.\<close>

theorem integer_ops_refine_interpreter_witness:
  "\<exists>M u1 M1 u2 M2. ren_ok (num_prf default_sizes) (\<lambda>_. []) M \<and> holds M sample_state \<and>
     allocate_op (Rtype_alu Addu) 7 (sample_op 0x00851821) M = Inr (u1, M1, True) \<and>
     execute_op (default_param sample_params (\<lambda>h w. h)) (Rtype_alu Addu) 7 u1 M1 = Inr (u2, M2) \<and> reg_val GPR 3 M2 = 0x12346679"
proof -
  let ?w = "0x00851821" and ?op = "Rtype_alu Addu" and ?N = "num_prf default_sizes"
  have w: "rd_of ?w = 3" "rs_of ?w = 4" "rt_of ?w = 5" "decode_op ?w = Inr (Some ?op)" "opcode_of ?w = 0" "funct_of ?w = 0x21"
    by code_simp+
  obtain M where M: "ren_ok ?N (\<lambda>_. []) M" "tables_ok M" "holds M sample_state" by (rule sample_start)
  obtain u1 M1 where a: "allocate_op ?op 7 (sample_op ?w) M = Inr (u1, M1, True)"
    using sample_allocates[OF M(1)] by blast
  let ?s = "next_insn (set_gpr 3 0x12346679 sample_state)"
  have d: "decode_op (op_inst (sample_op ?w)) = Inr (Some ?op)" using w by simp
  have x: "exact_op ?op (op_inst (sample_op ?w)) sample_state" using w by (simp add: exact_op_def)
  have r: "?op \<in> {Mtc0, Mfc1} \<Longrightarrow> ready_op ?op u1 M1 = Inr True" by simp
  have e: "exec_insn sample_params Inr (op_inst (sample_op ?w)) sample_state = Inr ?s"
    using w by (simp add: exec_opcode0 execRType_def rtype_alu_def alu_def Let_def sample_facts)
  obtain u2 M2 where m: "execute_op (default_param sample_params (\<lambda>h w. h)) ?op 7 u1 M1 = Inr (u2, M2)" "holds M2 ?s"
    using integer_ops_refine_interpreter[OF M(1,2) sample_prf M(3) d x a r e] by (auto simp: sample_op_def new_meta_op_def)
  have "reg_val GPR 3 M2 = 0x12346679" using holdsD[OF m(2), of 3 GPR] by simp
  with M(1,3) a m(1) show ?thesis by blast
qed

end
