(* ===== verification/Op_Pipeline.thy ===== *)
theory Op_Pipeline
  imports Op_Commit Rename_Properties
begin

text \<open>
  An operation from allocation to retirement: execution writes only the registers that were claimed,
  completion only marks them valid, retirement commits them, and rollback takes them back.
\<close>

section \<open>Execution\<close>

definition writes :: "mips_op \<Rightarrow> mips_meta_op \<Rightarrow> sim_state \<Rightarrow> (mips_meta_op \<times> sim_state) res \<Rightarrow> bool" where
  "writes op u M x \<longleftrightarrow> (\<forall>u2 M2. x = Inr (u2, M2) \<longrightarrow> (\<exists>c. u2 = u\<lparr>complete_cycle := c\<rparr>) \<and>
     (\<exists>R. M2 = M\<lparr>rf := R\<rparr> \<and> (\<forall>k. \<exists>ph. R k = (rf M k)\<lparr>phys := ph\<rparr> \<and>
        (\<forall>p. 0 \<le> p \<longrightarrow> p \<notin> set (new_ids (op_renamings op u k)) \<longrightarrow> ph ! nat p = phys (rf M k) ! nat p))))"

named_theorems writes_intros \<open>executions that write only their destinations\<close>

lemma writes_bind [writes_intros]: "(\<And>x. writes op u M (f x)) \<Longrightarrow> writes op u M (rbind r f)"
  by (auto simp: writes_def rbind_Inr_iff)

lemma writes_ensure [writes_intros]: "writes op u M x \<Longrightarrow> writes op u M (ensure e c x)"
  by (auto simp: writes_def ensure_Inr_iff)

lemma writes_if [writes_intros]: "writes op u M x \<Longrightarrow> writes op u M y \<Longrightarrow> writes op u M (if c then x else y)"
  by simp

lemma writes_finish [writes_intros]: "writes op u M (Inr (finish_in lat u M, M))" "writes op u M (Inl e)"
proof -
  have "\<forall>k. \<exists>ph. rf M k = (rf M k)\<lparr>phys := ph\<rparr> \<and> (\<forall>p. 0 \<le> p \<longrightarrow> p \<notin> set (new_ids (op_renamings op u k)) \<longrightarrow> ph ! nat p = phys (rf M k) ! nat p)"
    by (rule allI, rule_tac x = "phys (rf M k)" in exI) simp
  then show "writes op u M (Inr (finish_in lat u M, M))"
    unfolding writes_def by (intro allI impI conjI exI[of _ "rf M"]) (auto simp: finish_in_def)
qed (simp add: writes_def)

lemma write_prf_frame:
  assumes "on_rf k (write_prf i x) M = Inr M2"
  shows "0 \<le> i" "M2 = M\<lparr>rf := (rf M)(k := (rf M k)\<lparr>phys := (phys (rf M k))[nat i := x]\<rparr>)\<rparr>"
  using assms by (auto simp: on_rf_def write_prf_def put_idx_def put_res_def rbind_Inr_iff ensure_Inr_iff split: if_splits)

lemma writes_result [writes_intros]:
  assumes "op_dests op (op_inst u) = [(k, d)]" "\<And>t. op \<noteq> Mult_div t"
  shows "writes op u M (result k x lat u M)"
  unfolding writes_def
proof (intro allI impI)
  fix u2 M2 assume "result k x lat u M = Inr (u2, M2)"
  then have r: "on_rf k (write_prf (prf_idx u) x) M = Inr M2" "u2 = finish_in lat u M" by (auto simp: result_def rbind_Inr_iff)
  note w = write_prf_frame[OF r(1)]
  have R: "op_renamings op u = one k (d, prev_prf_idx u, prf_idx u)" by (rule renamings_single[OF assms])
  let ?R = "(rf M)(k := (rf M k)\<lparr>phys := (phys (rf M k))[nat (prf_idx u) := x]\<rparr>)"
  have "\<exists>ph. ?R j = (rf M j)\<lparr>phys := ph\<rparr> \<and> (\<forall>p. 0 \<le> p \<longrightarrow> p \<notin> set (new_ids (op_renamings op u j)) \<longrightarrow> ph ! nat p = phys (rf M j) ! nat p)" for j
    by (rule exI[of _ "phys (?R j)"]) (use w(1) in \<open>auto simp: R one_def nth_list_update_neq nat_eq_iff\<close>)
  then show "(\<exists>c. u2 = u\<lparr>complete_cycle := c\<rparr>) \<and> (\<exists>R. M2 = M\<lparr>rf := R\<rparr> \<and> (\<forall>k. \<exists>ph. R k = (rf M k)\<lparr>phys := ph\<rparr> \<and>
        (\<forall>p. 0 \<le> p \<longrightarrow> p \<notin> set (new_ids (op_renamings op u k)) \<longrightarrow> ph ! nat p = phys (rf M k) ! nat p)))"
    using w(2) r(2) by (auto simp: finish_in_def)
qed

lemma writes_lo_hi [writes_intros]:
  "writes (Mult_div t) u M (rbind (set_lo_hi y u M) (\<lambda>M1. Inr (finish_in lat u M, M1)))"
  unfolding writes_def
proof (intro allI impI)
  fix u2 M2 assume "rbind (set_lo_hi y u M) (\<lambda>M1. Inr (finish_in lat u M, M1)) = Inr (u2, M2)"
  then obtain M1 where r: "on_rf GPR (write_prf (lo_prf_idx u) (lo32 y)) M = Inr M1"
    "on_rf GPR (write_prf (hi_prf_idx u) (hi32 y)) M1 = Inr M2" "u2 = finish_in lat u M" by (auto simp: set_lo_hi_def rbind_Inr_iff)
  note w1 = write_prf_frame[OF r(1)] and w2 = write_prf_frame[OF r(2)]
  let ?ph = "(phys (rf M GPR))[nat (lo_prf_idx u) := lo32 y, nat (hi_prf_idx u) := hi32 y]"
  let ?R = "(rf M)(GPR := (rf M GPR)\<lparr>phys := ?ph\<rparr>)"
  have "\<exists>ph. ?R j = (rf M j)\<lparr>phys := ph\<rparr> \<and> (\<forall>p. 0 \<le> p \<longrightarrow> p \<notin> set (new_ids (op_renamings (Mult_div t) u j)) \<longrightarrow> ph ! nat p = phys (rf M j) ! nat p)" for j
    by (rule exI[of _ "phys (?R j)"]) (use w1(1) w2(1) in \<open>auto simp: mult_div_renamings nth_list_update_neq nat_eq_iff\<close>)
  then show "(\<exists>c. u2 = u\<lparr>complete_cycle := c\<rparr>) \<and> (\<exists>R. M2 = M\<lparr>rf := R\<rparr> \<and> (\<forall>k. \<exists>ph. R k = (rf M k)\<lparr>phys := ph\<rparr> \<and>
        (\<forall>p. 0 \<le> p \<longrightarrow> p \<notin> set (new_ids (op_renamings (Mult_div t) u k)) \<longrightarrow> ph ! nat p = phys (rf M k) ! nat p)))"
    using w1(2) w2(2) r(3) by (auto simp: finish_in_def)
qed

lemmas int_executes = mtc0_execute_def mtc1_execute_def mfc1_execute_def lo_hi_execute_def rtype_execute_def itype_execute_def
  lui_execute_def mul_execute_def clz_execute_def se_execute_def ext_execute_def ins_execute_def movci_execute_def

lemma writes_set:
  assumes "\<And>M1. g = Inr M1 \<Longrightarrow> M1 = M \<or> (\<exists>y. set_lo_hi y u M = Inr M1)"
  shows "writes (Mult_div t) u M (rbind g (\<lambda>M1. Inr (finish_in lat u M, M1)))"
proof (cases g)
  case (Inr M1)
  then consider "M1 = M" | y where "set_lo_hi y u M = Inr M1" using assms by blast
  then show ?thesis
  proof cases
    case 2
    then show ?thesis using writes_lo_hi[of t u M y lat] Inr by simp
  qed (use Inr in \<open>simp add: writes_finish\<close>)
qed (simp add: writes_finish)

lemma mult_div_writes: "writes (Mult_div t) u M (mult_div_execute t u M)"
  unfolding mult_div_execute_def Let_def
  by (rule writes_bind, rule writes_bind, rule writes_set, cases t; simp add: rbind_Inr_iff ensure_Inr_iff split: if_splits; blast)

lemma rtype_writes:
  assumes "op_dests op (op_inst u) = [(GPR, d)]" "\<And>t. op \<noteq> Mult_div t" "t \<noteq> Teq"
  shows "writes op u M (rtype_execute t u M)"
  unfolding rtype_execute_def Let_def if_not_P[OF assms(3)] by (intro writes_bind writes_if writes_ensure writes_finish writes_result[OF assms(1,2)])

lemma int_writes:
  assumes "exact_op op (op_inst u) s" "op \<noteq> Rtype_const_shift Teq" "op_inst u = 0 \<Longrightarrow> prf_idx u = -1"
  shows "writes op u M (execute_op S op a u M)"
proof (cases op)
  case (Mult_div t)
  then show ?thesis using mult_div_writes by simp
next
  case (Rtype_alu t)
  then show ?thesis using rtype_writes[of op u "rd_of (op_inst u)" t M] assms by (simp add: exact_op_def rtype_dest_def)
next
  case (Rtype_const_shift t)
  show ?thesis
  proof (cases "op_inst u = 0")
    case True
    then show ?thesis using assms(3) Rtype_const_shift by (simp add: rtype_execute_def Let_def writes_finish)
  next
    case False
    then show ?thesis using rtype_writes[of op u "rd_of (op_inst u)" t M] assms Rtype_const_shift by (auto simp: exact_op_def rtype_dest_def)
  qed
qed (use assms in \<open>simp only: exact_op_def mips_op.case execute_op.simps int_executes Let_def; (intro writes_intros; simp)?; simp?\<close>)+

section \<open>Completion\<close>

text \<open>Only the valid bits of the files differ.\<close>

definition only_valid :: "sim_state \<Rightarrow> sim_state \<Rightarrow> bool" where
  "only_valid M M1 \<longleftrightarrow> (\<exists>R. M1 = M\<lparr>rf := R\<rparr> \<and> (\<forall>k. \<exists>v. R k = (rf M k)\<lparr>valid := v\<rparr>))"

lemma only_valid_refl: "only_valid M M"
proof -
  have "\<forall>k. \<exists>v. rf M k = (rf M k)\<lparr>valid := v\<rparr>" by (rule allI, rule_tac x = "valid (rf M k)" in exI) simp
  then show ?thesis unfolding only_valid_def by (intro exI[of _ "rf M"]) simp
qed

lemma only_valid_trans:
  assumes "only_valid M M1" "only_valid M1 M2"
  shows "only_valid M M2"
proof -
  obtain R where R: "M1 = M\<lparr>rf := R\<rparr>" "\<And>k. \<exists>v. R k = (rf M k)\<lparr>valid := v\<rparr>" using assms(1) by (auto simp: only_valid_def)
  obtain R' where R': "M2 = M1\<lparr>rf := R'\<rparr>" "\<And>k. \<exists>v. R' k = (rf M1 k)\<lparr>valid := v\<rparr>" using assms(2) by (auto simp: only_valid_def)
  have "\<exists>v. R' k = (rf M k)\<lparr>valid := v\<rparr>" for k using R(2)[of k] R'(2)[of k] R(1) by auto
  then show ?thesis using R(1) R'(1) by (auto simp: only_valid_def)
qed

lemma set_valid_step:
  assumes "ren_ok N F M" "i \<in> set (new_ids (F k))"
  obtains M1 where "on_rf k (set_valid i) M = Inr M1" "ren_ok N F M1" "only_valid M M1"
proof -
  note inv = ren_okD[OF assms(1), of k]
  have i: "0 \<le> i" "i < int (N k)" using renaming_inv_bounds[OF inv, of i] assms(2) by auto
  obtain v where v: "bv_set (valid (rf M k)) i = Inr v" "wf_vec (N k) v" using renaming_invD(6)[OF inv] i by (rule bv_set_ok)
  let ?R = "(rf M)(k := (rf M k)\<lparr>valid := v\<rparr>)"
  have "\<exists>v. ?R j = (rf M j)\<lparr>valid := v\<rparr>" for j by (rule exI[of _ "valid (?R j)"]) auto
  then have "only_valid M (M\<lparr>rf := ?R\<rparr>)" by (auto simp: only_valid_def)
  moreover have "ren_ok N F (M\<lparr>rf := ?R\<rparr>)" using assms(1) v(2) by (auto simp: ren_ok_def renaming_inv_def)
  ultimately show thesis using v(1) by (intro that[of "M\<lparr>rf := ?R\<rparr>"]) (simp_all add: on_rf_def set_valid_def)
qed

definition becomes_complete :: "(rfile \<Rightarrow> nat) \<Rightarrow> (rfile \<Rightarrow> renaming list) \<Rightarrow> mips_meta_op \<Rightarrow> sim_state \<Rightarrow>
    (mips_meta_op \<times> sim_state) res \<Rightarrow> bool" where
  "becomes_complete N F u M x \<longleftrightarrow> (\<exists>M1. x = Inr (u\<lparr>is_complete := True\<rparr>, M1) \<and> ren_ok N F M1 \<and> only_valid M M1)"

lemma complete_single:
  assumes "ren_ok N (\<lambda>j. op_renamings op u j @ G j) M" "completes u M"
    and "op_dests op (op_inst u) = [(k, d)]" "\<And>t. op \<noteq> Mult_div t"
  shows "becomes_complete N (\<lambda>j. op_renamings op u j @ G j) u M (complete_reg k u M)"
proof -
  have "prf_idx u \<in> set (new_ids (op_renamings op u k @ G k))" using renamings_single[OF assms(3,4)] by (simp add: one_def)
  with assms(1) obtain M1 where "on_rf k (set_valid (prf_idx u)) M = Inr M1" "ren_ok N (\<lambda>j. op_renamings op u j @ G j) M1" "only_valid M M1"
    by (rule set_valid_step)
  then show ?thesis using assms(2) by (auto simp: becomes_complete_def complete_reg_def complete_with_def)
qed

lemma complete_mult_div:
  assumes "ren_ok N (\<lambda>j. op_renamings (Mult_div t) u j @ G j) M" "completes u M"
  shows "becomes_complete N (\<lambda>j. op_renamings (Mult_div t) u j @ G j) u M (mult_div_complete u M)"
proof -
  let ?F = "\<lambda>j. op_renamings (Mult_div t) u j @ G j"
  have i: "lo_prf_idx u \<in> set (new_ids (?F GPR))" "hi_prf_idx u \<in> set (new_ids (?F GPR))" by (simp_all add: mult_div_renamings)
  obtain M1 where M1: "on_rf GPR (set_valid (lo_prf_idx u)) M = Inr M1" "ren_ok N ?F M1" "only_valid M M1"
    using assms(1) i(1) by (rule set_valid_step)
  obtain M2 where M2: "on_rf GPR (set_valid (hi_prf_idx u)) M1 = Inr M2" "ren_ok N ?F M2" "only_valid M1 M2"
    using M1(2) i(2) by (rule set_valid_step)
  show ?thesis using M1(1) M2(1,2) only_valid_trans[OF M1(3) M2(3)] assms(2)
    by (auto simp: becomes_complete_def mult_div_complete_def complete_with_def)
qed

lemma complete_rtype:
  assumes "ren_ok N (\<lambda>j. op_renamings op u j @ G j) M" "completes u M"
    and "op_dests op (op_inst u) = [(GPR, d)]" "\<And>t. op \<noteq> Mult_div t"
  shows "becomes_complete N (\<lambda>j. op_renamings op u j @ G j) u M (rtype_complete u M)"
proof -
  have "0 \<le> prf_idx u" using one_bounds(2)[OF assms(1)[unfolded renamings_single[OF assms(3,4)]]] .
  then have "rtype_complete u M = complete_reg GPR u M" by (simp add: rtype_complete_def complete_reg_def complete_with_def)
  then show ?thesis using complete_single[OF assms] by simp
qed

lemmas int_completes = mtc0_complete_def mtc1_complete_def mfc1_complete_def lo_hi_complete_def itype_complete_def mul_complete_def
  clz_complete_def se_complete_def ext_complete_def ins_complete_def movci_complete_def

lemma int_completes_ok:
  assumes "ren_ok N (\<lambda>j. op_renamings op u j @ G j) M" "completes u M" "exact_op op (op_inst u) s" "op \<noteq> Rtype_const_shift Teq"
    and "op_inst u = 0 \<Longrightarrow> prf_idx u = -1"
  shows "becomes_complete N (\<lambda>j. op_renamings op u j @ G j) u M (complete_op op u M)"
proof (cases "op_inst u = 0 \<and> (\<exists>t. op = Rtype_const_shift t)")
  case True
  then show ?thesis using assms(1,2,5) by (auto simp: becomes_complete_def rtype_complete_def complete_with_def completes_def only_valid_refl)
next
  case False
  with assms show ?thesis by (cases op) (auto simp: exact_op_def int_completes rtype_dest_def intro!: complete_mult_div complete_rtype[where d = "rd_of (op_inst u)"] complete_single)
qed

text \<open>A load on a machine that has just started, where its table has a free entry.\<close>

lemma sample_load_allocates:
  assumes "ren_ok (num_prf default_sizes) (\<lambda>_. []) M" "tables_ok M" "find_first_unset (load_tbl_freevec M) \<noteq> -1"
  obtains u1 M1 where "allocate_op (Load_op Lw) 7 (sample_op 0x8c850003) M = Inr (u1, M1, True)"
proof -
  have w: "rs_of 0x8c850003 = 4" "rt_of 0x8c850003 = 5" by code_simp+
  have inv: "renaming_inv 34 128 [] (rf M GPR)" using ren_okD[OF assms(1), of GPR] by (simp add: default_sizes_def)
  have f: "find_first_unset (freevec (rf M GPR)) \<noteq> -1"
    using find_free[OF renaming_invD(4)[OF inv]] renaming_inv_card[OF inv] by auto
  obtain t v where e: "enter_load 7 (find_first_unset (load_tbl_freevec M)) M = Inr (M\<lparr>load_tbl := t, load_tbl_freevec := v\<rparr>)"
    using enter_load_ok[OF assms(2,3)] by blast
  have "ren_ok (num_prf default_sizes) (\<lambda>_. []) (M\<lparr>load_tbl := t, load_tbl_freevec := v\<rparr>)" using assms(1) by (simp add: ren_ok_def)
  then obtain M1 where "on_rf GPR (claim 5 (find_first_unset (freevec (rf M GPR)))) (M\<lparr>load_tbl := t, load_tbl_freevec := v\<rparr>) = Inr M1"
    using f by (rule_tac claim_step[of _ "\<lambda>_. []" "M\<lparr>load_tbl := t, load_tbl_freevec := v\<rparr>" 5 GPR]) simp_all
  then show thesis
    using assms(1,3) f e w by (intro that) (simp add: load_allocate_def load_src1_def Let_def set_src_ok reg_less34 mapped_ok)
qed

end
