(* ===== verification/Core_Stages.thy ===== *)
theory Core_Stages
  imports Core_Init
begin

text \<open>
  \<^verbatim>\<open>sim_ooo/ooo_core.cc\<close>: what the stages fetch, decode, allocate, execute and complete do between
  two yields.  The fetch stage is the instance without the oracle; the other is in \<open>Core_Oracle\<close>.
  A descriptor gets the address of the number of instructions fetched when it is made.  The counters
  of the write ports have no effect and are left out.
\<close>

section \<open>Descriptors\<close>

definition the_op :: "nat option \<Rightarrow> sim_state \<Rightarrow> (nat \<times> mips_meta_op) res" where
  "the_op p M = (case p of None \<Rightarrow> Inl Undefined | Some a \<Rightarrow> rbind (op_at a M) (\<lambda>u. Inr (a, u)))"

definition the_class :: "mips_meta_op \<Rightarrow> mips_op res" where
  "the_class u = (case mop u of None \<Rightarrow> Inl Undefined | Some op \<Rightarrow> Inr op)"

definition put_op :: "nat \<Rightarrow> mips_meta_op \<Rightarrow> sim_state \<Rightarrow> sim_state" where
  "put_op a u M = M\<lparr>ops := (ops M)(a \<mapsto> u)\<rparr>"

definition delete_op :: "nat \<Rightarrow> sim_state \<Rightarrow> sim_state res" where
  "delete_op a M = ensure Undefined (ops M a \<noteq> None) (Inr (M\<lparr>ops := (ops M)(a := None)\<rparr>))"

text \<open>A call of a virtual method on the operation at an address.\<close>

definition call_op :: "(mips_op \<Rightarrow> mips_meta_op \<Rightarrow> sim_state \<Rightarrow> (mips_meta_op \<times> sim_state) res) \<Rightarrow> nat \<Rightarrow> sim_state \<Rightarrow> sim_state res" where
  "call_op f a M = rbind (op_at a M) (\<lambda>u. rbind (the_class u) (\<lambda>op. rbind (f op u M) (\<lambda>(u1, M1). Inr (put_op a u1 M1))))"

text \<open>The visitor that rolls back an entry of the reorder buffer.\<close>

definition rollback_rob_entry :: "nat option \<Rightarrow> sim_state \<Rightarrow> (sim_state \<times> bool) res" where
  "rollback_rob_entry e M = (case e of None \<Rightarrow> Inr (M, False) | Some a \<Rightarrow> rbind (op_at a M) (\<lambda>u. rbind (the_class u) (\<lambda>op.
     rbind (rollback_op op u M) (\<lambda>M1. rbind (delete_op a M1) (\<lambda>M2. Inr (M2, True))))))"

section \<open>Fetch\<close>

definition is_likely_branch :: "u32 \<Rightarrow> bool" where
  "is_likely_branch inst \<longleftrightarrow> opcode_of inst \<in> {0x14, 0x16, 0x15, 0x17}"

definition is_nonlikely_branch :: "u32 \<Rightarrow> bool" where
  "is_nonlikely_branch inst \<longleftrightarrow> opcode_of inst \<in> {0x01, 0x04, 0x05, 0x06, 0x07}"

definition is_monitor :: "u32 \<Rightarrow> bool" where
  "is_monitor inst \<longleftrightarrow> opcode_of inst = 0 \<and> funct_of inst = 0x05"

definition push_fetched :: "mips_meta_op \<Rightarrow> sim_state \<Rightarrow> sim_state res" where
  "push_fetched f M = (let a = unat (fetched_insns M) in rbind (push (fetch_queue M) (Some a)) (\<lambda>(q, _).
     Inr ((put_op a f M)\<lparr>fetch_queue := q, fetched_insns := fetched_insns M + 1\<rparr>)))"

definition block_on_monitor :: "u32 \<Rightarrow> sim_state \<Rightarrow> sim_state" where
  "block_on_monitor inst M = (if is_monitor inst then M\<lparr>fetch_blocked := True\<rparr> else M)"

definition fetch_delay_slot :: "sim_state \<Rightarrow> sim_state res" where
  "fetch_delay_slot M = with_mem (get32 (delay_slot_npc M)) M (\<lambda>w M1. let inst = bswap32 w; ip = delay_slot_npc M in
     rbind (push_fetched (new_meta_op (fetched_insns M) ip inst (ip + 4) (curr M) False False) (block_on_monitor inst M1))
       (\<lambda>M2. Inr (M2\<lparr>delay_slot_npc := 0\<rparr>)))"

text \<open>The prediction of a branch that has retired before; the loop predictor may override it.\<close>

definition predict_known :: "u32 \<Rightarrow> bool \<Rightarrow> mips_meta_op \<Rightarrow> sim_state \<Rightarrow> (bool \<times> mips_meta_op \<times> sim_state) res" where
  "predict_known ip backwards f M = (let p = 1 <s prediction f in case loop_pred M of
       Some l \<Rightarrow> if \<not> backwards then Inr (p, f, M) else rbind (valid_loop_branch ip l) (\<lambda>v. if \<not> v then Inr (p, f, M) else
         rbind (predict_lp ip l) (\<lambda>(b, n, l1). Inr (b, f\<lparr>prediction := n\<rparr>, M\<lparr>loop_pred := Some l1\<rparr>)))
     | None \<Rightarrow> Inr (p, f, M))"

text \<open>
  The next address: the descriptor, the address, whether it is predicted taken, whether the return
  stack was used, the slots it costs beside its own, and the machine.
\<close>

type_synonym prediction_result = "mips_meta_op \<times> u32 \<times> bool \<times> bool \<times> int \<times> sim_state"

definition predict_next :: "u32 \<Rightarrow> mips_meta_op \<Rightarrow> sim_state \<Rightarrow> prediction_result res" where
  "predict_next inst f M = (let ip = fetch_pc M; M1 = M\<lparr>delay_slot_npc := ip + 4\<rparr>; tos = get_tos_idx (return_stack M);
       target = get_branch_target ip inst; backwards = target < ip
     in if is_jr inst then rbind (pop_st (return_stack M)) (\<lambda>(st, npc).
          Inr (f\<lparr>return_stack_idx := tos\<rparr>, npc, False, True, 0, M1\<lparr>return_stack := st\<rparr>))
        else if is_jal inst then rbind (get_jump_target ip inst) (\<lambda>npc. rbind (push_st (ip + 8) (return_stack M)) (\<lambda>st.
          Inr (f\<lparr>return_stack_idx := tos\<rparr>, npc, True, False, 1, M1\<lparr>return_stack := st\<rparr>)))
        else if is_j inst then rbind (get_jump_target ip inst) (\<lambda>npc. Inr (f, npc, True, False, 0, M1))
        else if branch_prediction_map M ip \<noteq> None then rbind (predict_known ip backwards f M) (\<lambda>(p, f1, M2).
          if p then (case branch_target_map M2 ip of None \<Rightarrow> Inl Die
            | Some npc \<Rightarrow> Inr (f1, npc, True, False, 0, M2\<lparr>delay_slot_npc := ip + 4\<rparr>))
          else Inr (f1, ip + 4, False, False, 0, M2))
        else if is_likely_branch inst then Inr (f, target, True, False, 0, M1)
        else if is_nonlikely_branch inst \<and> backwards then Inr (f, target, True, False, 0, M1)
        else Inr (f, ip + 4, False, False, 0, M))"

definition fetch_insn :: "sim_param \<Rightarrow> sim_state \<Rightarrow> (int \<times> bool \<times> sim_state) res" where
  "fetch_insn S M = with_mem (get32 (fetch_pc M)) M (\<lambda>w M1. let inst = bswap32 w; ip = fetch_pc M;
       M2 = block_on_monitor inst M1; f = new_meta_op (fetched_insns M) ip inst 0 (curr M) False False
     in rbind (predict_br (bpar S) ip (bhr M2) (branch_pred M2)) (\<lambda>(v, idx).
        rbind (predict_next inst (f\<lparr>prediction := ucast v, pht_idx := idx\<rparr>) M2) (\<lambda>(f1, npc, taken, used_ras, extra, M3).
        rbind (push_fetched (f1\<lparr>fetch_npc := npc, predict_taken := taken, pop_return_stack := used_ras\<rparr>) M3) (\<lambda>M4.
          Inr (extra + 1, taken, M4\<lparr>fetch_pc := npc\<rparr>)))))"

text \<open>One activation; each round fetches an instruction, so the bandwidth is fuel enough.\<close>

fun fetch_loop :: "sim_param \<Rightarrow> nat \<Rightarrow> int \<Rightarrow> int \<Rightarrow> sim_state \<Rightarrow> sim_state res" where
  "fetch_loop S n amt taken M = (if full_q (fetch_queue M) \<or> fetch_bw S \<le> amt \<or> nuke M \<or> fetch_blocked M then Inr M
     else case n of 0 \<Rightarrow> Inl OutOfFuel | Suc n1 \<Rightarrow>
       if delay_slot_npc M \<noteq> 0 then rbind (fetch_delay_slot M) (\<lambda>M1.
         if taken = taken_branches_per_cycle S then Inr M1 else fetch_loop S n1 (amt + 1) taken M1)
       else rbind (fetch_insn S M) (\<lambda>(k, t, M1). fetch_loop S n1 (amt + k) (if t then taken + 1 else taken) M1))"

declare fetch_loop.simps [simp del]

definition fetch_stage :: "sim_param \<Rightarrow> sim_state \<Rightarrow> sim_state res" where
  "fetch_stage S M = fetch_loop S (nat (fetch_bw S)) 0 0 M"

section \<open>Decode\<close>

fun decode_loop :: "sim_param \<Rightarrow> nat \<Rightarrow> sim_state \<Rightarrow> sim_state res" where
  "decode_loop S 0 M = Inr M"
| "decode_loop S (Suc n) M = (if empty_q (fetch_queue M) \<or> full_q (decode_queue M) \<or> nuke M then Inr M else
     rbind (peek (fetch_queue M)) (\<lambda>p. rbind (the_op p M) (\<lambda>(a, u).
       if \<not> fetch_cycle u + 1 < curr M then Inr M else
       rbind (pop (fetch_queue M)) (\<lambda>(q, _). rbind (decode_insn (u\<lparr>decode_cycle := curr M\<rparr>)) (\<lambda>u1.
       rbind (push (decode_queue M) p) (\<lambda>(d, _).
         decode_loop S n ((put_op a u1 M)\<lparr>fetch_queue := q, decode_queue := d\<rparr>)))))))"

definition decode_stage :: "sim_param \<Rightarrow> sim_state \<Rightarrow> sim_state res" where
  "decode_stage S M = decode_loop S (nat (decode_bw S)) M"

section \<open>Allocate\<close>

datatype station_id = Alu_rs nat | Fpu_rs nat | Jmp_rs | Load_rs nat | Store_rs nat | System_rs

text \<open>A vector of stations is accessed with \<open>at\<close>, which throws when it is out of range.\<close>

definition vec_at :: "'a list \<Rightarrow> nat \<Rightarrow> 'a res" where
  "vec_at xs i = ensure Die (i < length xs) (Inr (xs ! i))"

fun get_station :: "station_id \<Rightarrow> stations \<Rightarrow> nat sim_list res" where
  "get_station (Alu_rs i) t = vec_at (alu_rs t) i" | "get_station (Fpu_rs i) t = vec_at (fpu_rs t) i"
| "get_station Jmp_rs t = Inr (jmp_rs t)" | "get_station (Load_rs i) t = vec_at (load_rs t) i"
| "get_station (Store_rs i) t = vec_at (store_rs t) i" | "get_station System_rs t = Inr (system_rs t)"

fun set_station :: "station_id \<Rightarrow> nat sim_list \<Rightarrow> stations \<Rightarrow> stations" where
  "set_station (Alu_rs i) l t = t\<lparr>alu_rs := (alu_rs t)[i := l]\<rparr>" | "set_station (Fpu_rs i) l t = t\<lparr>fpu_rs := (fpu_rs t)[i := l]\<rparr>"
| "set_station Jmp_rs l t = t\<lparr>jmp_rs := l\<rparr>" | "set_station (Load_rs i) l t = t\<lparr>load_rs := (load_rs t)[i := l]\<rparr>"
| "set_station (Store_rs i) l t = t\<lparr>store_rs := (store_rs t)[i := l]\<rparr>" | "set_station System_rs l t = t\<lparr>system_rs := l\<rparr>"

definition put_station :: "station_id \<Rightarrow> nat sim_list \<Rightarrow> sim_state \<Rightarrow> sim_state" where
  "put_station i l M = M\<lparr>stations := set_station i l (stations M)\<rparr>"

text \<open>The ports of a class in turn: the next free one, if its station has room, and the vector with its bit set.\<close>

definition pick_port :: "(nat \<Rightarrow> station_id) \<Rightarrow> nat \<Rightarrow> u64 bitvec \<Rightarrow> sim_state \<Rightarrow> (station_id \<times> u64 bitvec) option res" where
  "pick_port mk ports v M = rbind (find_first_unset_rr v) (\<lambda>p. if p = -1 then Inr None else let i = mk (nat p mod ports)
     in rbind (get_station i (stations M)) (\<lambda>l. if full_list l then Inr None else
          rbind (bv_set v p) (\<lambda>v1. Inr (Some (i, v1)))))"

definition pick_single :: "station_id \<Rightarrow> sim_state \<Rightarrow> (station_id \<times> sim_state) option res" where
  "pick_single i M = rbind (get_station i (stations M)) (\<lambda>l. Inr (if full_list l then None else Some (i, M)))"

definition pick_station :: "sim_param \<Rightarrow> oper_type \<Rightarrow> sim_state \<Rightarrow> (station_id \<times> sim_state) option res" where
  "pick_station S c M = (case c of
     Op_unknown \<Rightarrow> Inl Die
   | Op_alu \<Rightarrow> rbind (pick_port Alu_rs (num_alu_ports S) (alu_alloc M) M) (\<lambda>x. Inr (map_option (\<lambda>(i, v). (i, M\<lparr>alu_alloc := v\<rparr>)) x))
   | Op_fp \<Rightarrow> rbind (pick_port Fpu_rs (num_fpu_ports S) (fpu_alloc M) M) (\<lambda>x. Inr (map_option (\<lambda>(i, v). (i, M\<lparr>fpu_alloc := v\<rparr>)) x))
   | Op_jmp \<Rightarrow> pick_single Jmp_rs M
   | Op_load \<Rightarrow> rbind (pick_port Load_rs (num_load_ports S) (load_alloc M) M) (\<lambda>x. Inr (map_option (\<lambda>(i, v). (i, M\<lparr>load_alloc := v\<rparr>)) x))
   | Op_store \<Rightarrow> rbind (pick_port Store_rs (num_store_ports S) (store_alloc M) M) (\<lambda>x. Inr (map_option (\<lambda>(i, v). (i, M\<lparr>store_alloc := v\<rparr>)) x))
   | Op_system \<Rightarrow> pick_single System_rs M)"

text \<open>The entry of an allocated operation into its station and the reorder buffer.\<close>

definition enter_op :: "station_id \<Rightarrow> nat \<Rightarrow> mips_meta_op \<Rightarrow> sim_state \<Rightarrow> sim_state res" where
  "enter_op i a u M = rbind (get_station i (stations M)) (\<lambda>l. rbind (push_list (Some a) l) (\<lambda>l1.
     rbind (pop (decode_queue M)) (\<lambda>(d, _). rbind (push (rob M) (Some a)) (\<lambda>(r, idx).
       Inr ((put_op a (u\<lparr>alloc_id := alloc_counter M, alloc_cycle := curr M, rob_idx := int idx\<rparr>) (put_station i l1 M))
         \<lparr>alloc_counter := alloc_counter M + 1, decode_queue := d, rob := r\<rparr>)))))"

text \<open>One round; false when the stage stops for this cycle.\<close>

definition alloc_round :: "sim_param \<Rightarrow> sim_state \<Rightarrow> (sim_state \<times> bool) res" where
  "alloc_round S M = rbind (peek (decode_queue M)) (\<lambda>p. rbind (the_op p M) (\<lambda>(a, u). case mop u of
       None \<Rightarrow> Inl Die
     | Some op \<Rightarrow> if decode_cycle u = curr M then Inr (M, False)
         else rbind (pick_station S (get_op_class op) M) (\<lambda>x. case x of None \<Rightarrow> Inr (M, False) | Some (i, M1) \<Rightarrow>
           rbind (allocate_op op a u M1) (\<lambda>(u1, M2, ok). if \<not> ok then Inr (put_op a u1 M2, False)
             else rbind (enter_op i a u1 M2) (\<lambda>M3. Inr (M3, True))))))"

fun alloc_loop :: "sim_param \<Rightarrow> nat \<Rightarrow> int \<Rightarrow> sim_state \<Rightarrow> (int \<times> sim_state) res" where
  "alloc_loop S 0 amt M = Inr (amt, M)"
| "alloc_loop S (Suc n) amt M = (if empty_q (decode_queue M) \<or> full_q (rob M) \<or> nuke M \<or> alloc_blocked M then Inr (amt, M)
     else rbind (alloc_round S M) (\<lambda>(M1, go). if go then alloc_loop S n (amt + 1) M1 else Inr (amt, M1)))"

definition allocate_stage :: "sim_param \<Rightarrow> sim_state \<Rightarrow> sim_state res" where
  "allocate_stage S M = rbind (alloc_loop S (nat (alloc_bw S)) 0 (M\<lparr>alu_alloc := clear_bv (alu_alloc M),
       fpu_alloc := clear_bv (fpu_alloc M), load_alloc := clear_bv (load_alloc M), store_alloc := clear_bv (store_alloc M)\<rparr>))
     (\<lambda>(amt, M1). Inr (count (\<lambda>c. c\<lparr>total_allocated_insns := total_allocated_insns c + of_int amt\<rparr>) M1))"

end
