(* ===== verification/Core_Exec.thy ===== *)
theory Core_Exec
  imports Core_Stages
begin

text \<open>
  \<^verbatim>\<open>sim_ooo/ooo_core.cc\<close>: the schedulers of the execute stage and the complete stage.
\<close>

section \<open>Readiness\<close>

definition ready_of :: "nat \<Rightarrow> sim_state \<Rightarrow> bool res" where
  "ready_of a M = rbind (op_at a M) (\<lambda>u. rbind (the_class u) (\<lambda>op. ready_op op u M))"

definition note_ready :: "nat option \<Rightarrow> sim_state \<Rightarrow> sim_state res" where
  "note_ready p M = rbind (the_op p M) (\<lambda>(a, u). rbind (ready_of a M) (\<lambda>r.
     Inr (if r then count (\<lambda>c. c\<lparr>total_ready_insns := total_ready_insns c + 1\<rparr>)
       (if ready_cycle u = -1 then put_op a (u\<lparr>ready_cycle := curr M\<rparr>) M else M) else M)))"

text \<open>The entries of a station from an iterator on; the number of its nodes is fuel.\<close>

fun mark_ready :: "nat \<Rightarrow> nat option \<Rightarrow> nat sim_list \<Rightarrow> sim_state \<Rightarrow> sim_state res" where
  "mark_ready n None l M = Inr M"
| "mark_ready 0 (Some p) l M = Inl OutOfFuel"
| "mark_ready (Suc n) (Some p) l M = rbind (deref_list l (Some p)) (\<lambda>v. rbind (note_ready v M) (\<lambda>M1.
     rbind (next_list l (Some p)) (\<lambda>it. mark_ready n it l M1)))"

definition may_dispatch :: "sim_param \<Rightarrow> nat \<Rightarrow> sim_state \<Rightarrow> bool res" where
  "may_dispatch S a M = rbind (ready_of a M) (\<lambda>r. rbind (op_at a M) (\<lambda>u.
     Inr (r \<and> ready_to_dispatch_latency S + ready_cycle u \<le> curr M)))"

definition dispatch :: "sim_param \<Rightarrow> nat \<Rightarrow> sim_state \<Rightarrow> sim_state res" where
  "dispatch S a M = rbind (call_op (\<lambda>op. execute_op S op a) a M) (\<lambda>M1. rbind (op_at a M1) (\<lambda>u.
     Inr (put_op a (u\<lparr>dispatch_cycle := curr M1\<rparr>) M1)))"

section \<open>The scheduler of a station\<close>

text \<open>
  Dispatch in age order of what is ready; \<open>ns\<close> counts the dispatches and \<open>ports\<close> the read ports that
  are left.  The test on the count admits one more than the number per cycle.
\<close>

type_synonym sched = "nat sim_list \<times> int \<times> int \<times> sim_state"

fun sched_loop :: "sim_param \<Rightarrow> int \<Rightarrow> nat \<Rightarrow> nat option \<Rightarrow> sched \<Rightarrow> sched res" where
  "sched_loop S num n None x = Inr x"
| "sched_loop S num n (Some p) (l, ns, ports, M) = (if \<not> (ns \<le> num \<and> 0 \<le> ports) then Inr (l, ns, ports, M)
     else case n of 0 \<Rightarrow> Inl OutOfFuel | Suc n1 \<Rightarrow>
       rbind (deref_list l (Some p)) (\<lambda>v. rbind (the_op v M) (\<lambda>(a, u). rbind (may_dispatch S a M) (\<lambda>go.
         if \<not> go then rbind (next_list l (Some p)) (\<lambda>it. sched_loop S num n1 it (l, ns, ports, M))
         else rbind (the_class u) (\<lambda>op. rbind (get_latency S op) (\<lambda>lat.
           if ports - count_rd_ports op < 0 then rbind (next_list l (Some p)) (\<lambda>it. sched_loop S num n1 it (l, ns, ports, M))
           else rbind (erase_list (Some p) l) (\<lambda>(l1, it). rbind (dispatch S a M) (\<lambda>M1.
             sched_loop S num n1 it (l1, ns + 1, ports - count_rd_ports op, M1)))))))))"

text \<open>Both passes over a station; the number dispatched, the ports left and the machine.\<close>

definition ooo_sched :: "sim_param \<Rightarrow> station_id \<Rightarrow> int \<Rightarrow> int \<times> int \<times> sim_state \<Rightarrow> (int \<times> int \<times> sim_state) res" where
  "ooo_sched S i num = (\<lambda>(cnt, ports, M). rbind (get_station i (stations M)) (\<lambda>l. let n = num_entries l in
     rbind (mark_ready n (begin_list l) l M) (\<lambda>M1.
     rbind (sched_loop S num n (begin_list l) (l, 0, ports, M1)) (\<lambda>(l1, ns, ports1, M2).
       Inr (cnt + ns, ports1, put_station i l1 M2)))))"

definition inorder_sched :: "sim_param \<Rightarrow> station_id \<Rightarrow> int \<times> sim_state \<Rightarrow> (int \<times> sim_state) res" where
  "inorder_sched S i = (\<lambda>(cnt, M). rbind (get_station i (stations M)) (\<lambda>l.
     rbind (mark_ready (num_entries l) (begin_list l) l M) (\<lambda>M1.
     if empty_list l then Inr (cnt, M1) else rbind (peek_list l) (\<lambda>a. rbind (may_dispatch S a M1) (\<lambda>go.
       if \<not> go then Inr (cnt, M1) else rbind (pop_list l) (\<lambda>(l1, _). rbind (dispatch S a (put_station i l1 M1)) (\<lambda>M2.
         Inr (cnt + 1, M2))))))))"

fun sched_all :: "sim_param \<Rightarrow> int \<Rightarrow> station_id list \<Rightarrow> int \<times> int \<times> sim_state \<Rightarrow> (int \<times> int \<times> sim_state) res" where
  "sched_all S num [] x = Inr x"
| "sched_all S num (i # is) x = rbind (ooo_sched S i num x) (sched_all S num is)"

definition execute_stage :: "sim_param \<Rightarrow> sim_state \<Rightarrow> sim_state res" where
  "execute_stage S M = (if nuke M then Inr M else
     rbind (sched_all S (num_alu_sched S) (map Alu_rs [0..<num_alu_ports S]) (0, 1024, M)) (\<lambda>x1.
     rbind (sched_all S (num_load_sched S) (map Load_rs [0..<num_load_ports S]) x1) (\<lambda>x2.
     rbind (sched_all S (num_store_sched S) (map Store_rs [0..<num_store_ports S]) x2) (\<lambda>(c3, int_ports, M3).
     rbind (sched_all S (num_fpu_sched S) (map Fpu_rs [0..<num_fpu_ports S]) (c3, 1024, M3)) (\<lambda>(c4, fp_ports, M4).
     rbind (ooo_sched S Jmp_rs 1 (c4, int_ports, M4)) (\<lambda>(c5, _, M5).
     rbind (inorder_sched S System_rs (c5, M5)) (\<lambda>(c6, M6).
       Inr (count (\<lambda>c. c\<lparr>total_dispatched_insns := total_dispatched_insns c + of_int c6\<rparr>) M6))))))))"

section \<open>Complete\<close>

definition complete_slot :: "nat \<Rightarrow> sim_state \<Rightarrow> sim_state res" where
  "complete_slot i M = rbind (at_q (rob M) i) (\<lambda>p. case p of None \<Rightarrow> Inr M | Some a \<Rightarrow> rbind (op_at a M) (\<lambda>u.
     if is_complete u then Inr M else ensure Exit (mop u \<noteq> None) (call_op complete_op a M)))"

fun complete_loop :: "nat list \<Rightarrow> sim_state \<Rightarrow> sim_state res" where
  "complete_loop [] M = Inr M"
| "complete_loop (i # is) M = (if nuke M then Inr M else rbind (complete_slot i M) (complete_loop is))"

definition complete_stage :: "sim_state \<Rightarrow> sim_state res" where
  "complete_stage M = complete_loop [0..<unat (capacity_q (rob M))] M"

section \<open>The caches and the clock\<close>

definition cache_stage :: "sim_state \<Rightarrow> sim_state res" where
  "cache_stage M = (if l1cache M = [] then Inr M else rbind (tick (curr M) (l1cache M) (cyc_table (ops M))) (\<lambda>(cs, t).
     Inr (M\<lparr>l1cache := cs, ops := with_cycles (ops M) t\<rparr>)))"

text \<open>The clock advances, and the run ends when nothing has retired for twice the latency of memory.\<close>

definition cycle_count :: "u32 \<Rightarrow> sim_state \<Rightarrow> sim_state" where
  "cycle_count lat M0 = (let M = M0\<lparr>curr := curr M0 + 1\<rparr>; delta = curr M - last_retire_cycle M
     in if 100 \<le>s lat \<and> scast (lat * 2) < delta then M\<lparr>terminate_sim := True\<rparr> else M)"

end
