(* ===== verification/Core_Retire.thy ===== *)
theory Core_Retire
  imports Core_Exec
begin

text \<open>
  \<^verbatim>\<open>sim_ooo/ooo_core.cc\<close>: the retire stage without the oracle, as a thread that may yield in the
  middle.  \<open>retire_at\<close> says where it goes on, with its local variables; \<open>s\<close> is the interpreter's
  state that the retired instructions are checked against, and \<open>k\<close> the fuel of its step.
\<close>

section \<open>Places of the thread\<close>

text \<open>
  The addresses are \<open>u\<close>, the oldest instruction, and \<open>uu\<close>, its delay slot; the number is \<open>retire_amt\<close>.
  The loops that wait for a delay slot do not look at \<open>terminate_sim\<close>.
\<close>

datatype retire_at = At_top
  | At_slot nat int
  | At_slot_done nat nat int
  | At_exc nat
  | At_exc_slot nat
  | At_exc_done nat nat
  | At_drain nat
  | At_end bool
  | At_done

datatype step = Step_go | Step_stop bool | Step_exc nat int | Step_yield retire_at

type_synonym ref_pair = "sim_state \<times> state"

section \<open>One instruction\<close>

text \<open>The registers that are compared: all but \<open>lo\<close>, \<open>hi\<close> and those of coprocessor 0.\<close>

definition regs_agree :: "sim_state \<Rightarrow> state \<Rightarrow> bool" where
  "regs_agree M s \<longleftrightarrow> map (gpr s) [0..<32] = take 32 (arch (rf M GPR)) \<and> map (cpr1 s) [0..<32] = take 32 (arch (rf M CPR1)) \<and>
     map (fcr1 s) [0..<5] = take 5 (arch (rf M FCR1))"

text \<open>The interpreter steps on the data cache of the core when it has one.\<close>

definition step_interp :: "sim_param \<Rightarrow> nat \<Rightarrow> ref_pair \<Rightarrow> ref_pair res" where
  "step_interp S k = (\<lambda>(M, s). rbind (execMips (host S) k (if l1d s = [] then s else s\<lparr>l1d := l1cache M\<rparr>))
     (\<lambda>s1. Inr (take_cache s1 M, s1)))"

text \<open>The check against the interpreter, and its step; true when the registers differ.\<close>

definition check_ref :: "sim_param \<Rightarrow> nat \<Rightarrow> mips_meta_op \<Rightarrow> ref_pair \<Rightarrow> (bool \<times> ref_pair) res" where
  "check_ref S k u = (\<lambda>(M, s). if use_interp_check S \<and> pc s = op_pc u
     then (if regs_agree M s then rbind (step_interp S k (M, s)) (\<lambda>(M1, s1). Inr (False, M1, s1))
       else Inr (True, M\<lparr>terminate_sim := True\<rparr>, s))
     else Inr (False, M, s))"

definition step_ref :: "sim_param \<Rightarrow> nat \<Rightarrow> mips_meta_op \<Rightarrow> ref_pair \<Rightarrow> ref_pair res" where
  "step_ref S k u x = (if use_interp_check S \<and> pc (snd x) = op_pc u then step_interp S k x else Inr x)"

definition retire_insn :: "sim_param \<Rightarrow> nat \<Rightarrow> sim_state \<Rightarrow> sim_state res" where
  "retire_insn S a M = rbind (call_op (retire_op S) a M) (\<lambda>M1. rbind (op_at a M1) (\<lambda>u.
     Inr (M1\<lparr>last_retire_cycle := curr M1, last_retire_pc := op_pc u\<rparr>)))"

definition pop_rob :: "sim_state \<Rightarrow> sim_state res" where
  "pop_rob M = rbind (pop (rob M)) (\<lambda>(q, _). Inr (M\<lparr>rob := q\<rparr>))"

text \<open>The rest of a round, once nothing stands against the instruction.\<close>

definition retire_tail :: "sim_param \<Rightarrow> nat \<Rightarrow> nat \<Rightarrow> ref_pair \<Rightarrow> (step \<times> ref_pair) res" where
  "retire_tail S k a = (\<lambda>(M, s). rbind (op_at a M) (\<lambda>u. rbind (check_ref S k u (M, s)) (\<lambda>(error, M1, s1).
     if error then Inr (Step_stop False, M1, s1) else rbind (retire_insn S a M1) (\<lambda>M2.
       rbind (the_class u) (\<lambda>op. rbind (delete_op a M2) (\<lambda>M3. rbind (pop_rob M3) (\<lambda>M4.
         Inr (if stop_sim op then Step_stop True else Step_go, M4, s1))))))))"

definition count_nuke :: "bool \<Rightarrow> sim_state \<Rightarrow> sim_state" where
  "count_nuke br = count (\<lambda>c. if br then c\<lparr>nukes := nukes c + 1, branch_nukes := branch_nukes c + 1\<rparr>
     else c\<lparr>nukes := nukes c + 1, load_nukes := load_nukes c + 1\<rparr>)"

text \<open>From the delay slot on; the test of the branch exception is made on \<open>u\<close>.\<close>

definition retire_with_slot :: "sim_param \<Rightarrow> nat \<Rightarrow> nat \<Rightarrow> nat \<Rightarrow> int \<Rightarrow> ref_pair \<Rightarrow> (step \<times> ref_pair) res" where
  "retire_with_slot S k a b amt = (\<lambda>(M, s). rbind (op_at b M) (\<lambda>uu.
     if \<not> is_complete uu then Inr (Step_yield (At_slot_done a b amt), M, s)
     else rbind (op_at a M) (\<lambda>u. if exc u = Branch_exception \<or> load_exception uu
       then Inr (Step_exc a amt, count_nuke (exc uu = Branch_exception) M, s)
       else retire_tail S k a (M, s))))"

definition retire_wait_slot :: "sim_param \<Rightarrow> nat \<Rightarrow> nat \<Rightarrow> int \<Rightarrow> ref_pair \<Rightarrow> (step \<times> ref_pair) res" where
  "retire_wait_slot S k a amt = (\<lambda>(M, s). rbind (peek_next_pop (rob M)) (\<lambda>p. case p of
     None \<Rightarrow> Inr (Step_yield (At_slot a amt), M, s) | Some b \<Rightarrow> retire_with_slot S k a b amt (M, s)))"

definition retire_entry :: "sim_param \<Rightarrow> nat \<Rightarrow> int \<Rightarrow> ref_pair \<Rightarrow> (step \<times> ref_pair) res" where
  "retire_entry S k amt = (\<lambda>(M, s). rbind (peek (rob M)) (\<lambda>p. rbind (the_op p M) (\<lambda>(a, u).
     if \<not> is_complete u \<or> complete_cycle u = curr M then Inr (Step_stop False, M, s)
     else if exc u = Branch_exception then Inr (Step_exc a amt, count_nuke True M, s)
     else if load_exception u then Inr (Step_exc a amt, count_nuke False M, s)
     else if has_delay_slot u then retire_wait_slot S k a amt (M, s)
     else retire_tail S k a (M, s))))"

text \<open>The loop of a cycle; each round retires an instruction, so the bandwidth is fuel enough.\<close>

fun retire_loop :: "sim_param \<Rightarrow> nat \<Rightarrow> nat \<Rightarrow> int \<Rightarrow> ref_pair \<Rightarrow> (step \<times> ref_pair) res" where
  "retire_loop S k n amt (M, s) = (if empty_q (rob M) \<or> retire_bw S \<le> amt \<or> maxicnt M \<le> sicnt M then Inr (Step_stop False, M, s)
     else case n of 0 \<Rightarrow> Inl OutOfFuel | Suc n1 \<Rightarrow> rbind (retire_entry S k amt (M, s)) (\<lambda>(r, x).
       case r of Step_go \<Rightarrow> retire_loop S k n1 (amt + 1) x | _ \<Rightarrow> Inr (r, x)))"

declare retire_loop.simps [simp del]

definition retire_more :: "sim_param \<Rightarrow> nat \<Rightarrow> int \<Rightarrow> step \<times> ref_pair \<Rightarrow> (step \<times> ref_pair) res" where
  "retire_more S k amt = (\<lambda>(r, x). case r of
     Step_go \<Rightarrow> retire_loop S k (nat (retire_bw S - (amt + 1))) (amt + 1) x | _ \<Rightarrow> Inr (r, x))"

section \<open>Restart\<close>

fun delete_all :: "nat option list \<Rightarrow> sim_state \<Rightarrow> sim_state res" where
  "delete_all [] M = Inr M"
| "delete_all (p # ps) M = (case p of None \<Rightarrow> delete_all ps M | Some a \<Rightarrow> rbind (delete_op a M) (delete_all ps))"

definition restore_regs :: "sim_state \<Rightarrow> sim_state res" where
  "restore_regs M = rbind (on_rf GPR restore_map M) (\<lambda>M1. rbind (on_rf CPR0 restore_map M1) (\<lambda>M2.
     rbind (on_rf CPR1 restore_map M2) (\<lambda>M3. rbind (on_rf FCR1 restore_map M3) (\<lambda>M4.
     rbind (copy_bv (spec_bhr M4) (bhr M4)) (\<lambda>h. let M5 = M4\<lparr>spec_bhr := h\<rparr> in
     rbind (popcount (freevec (rf M5 GPR))) (\<lambda>n. ensure AssertFail (n = num_regs GPR)
     (rbind (popcount (freevec (rf M5 CPR1))) (\<lambda>m. ensure AssertFail (m = num_regs CPR1)
     (rbind (on_rf GPR restore_valid M5) (\<lambda>M6. rbind (on_rf CPR0 restore_valid M6) (\<lambda>M7.
     rbind (on_rf CPR1 restore_valid M7) (on_rf FCR1 restore_valid))))))))))))"

definition clear_stations :: "stations \<Rightarrow> stations" where
  "clear_stations t = t\<lparr>alu_rs := map clear_list (alu_rs t), fpu_rs := map clear_list (fpu_rs t), load_rs := map clear_list (load_rs t),
     jmp_rs := clear_list (jmp_rs t), store_rs := map clear_list (store_rs t), system_rs := clear_list (system_rs t)\<rparr>"

text \<open>The entries of a table are cleared up to the size of its free vector.\<close>

definition clear_table :: "u64 bitvec \<Rightarrow> nat option list \<Rightarrow> nat option list res" where
  "clear_table v t = ensure Undefined (n_bits v \<le> length t) (Inr (replicate (n_bits v) None @ drop (n_bits v) t))"

definition end_restart :: "sim_state \<Rightarrow> sim_state res" where
  "end_restart M0 = (let M = M0\<lparr>rob := clear_q (rob M0)\<rparr> in
     rbind (delete_all (q_data (fetch_queue M)) M) (\<lambda>M1. rbind (delete_all (q_data (decode_queue M1)) M1) (\<lambda>M2.
     rbind (clear_table (load_tbl_freevec M2) (load_tbl M2)) (\<lambda>lt. rbind (clear_table (store_tbl_freevec M2) (store_tbl M2)) (\<lambda>st.
       Inr (M2\<lparr>decode_queue := clear_q (decode_queue M2), fetch_queue := clear_q (fetch_queue M2), delay_slot_npc := 0,
         alloc_blocked := False, fetch_blocked := False, stations := clear_stations (stations M2),
         load_tbl_freevec := clear_bv (load_tbl_freevec M2), store_tbl_freevec := clear_bv (store_tbl_freevec M2),
         load_tbl := lt, store_tbl := st, nuke := False\<rparr>))))))"

text \<open>The new address of fetch; a branch that has retired is deleted here.\<close>

definition redirect :: "nat \<Rightarrow> bool \<Rightarrow> sim_state \<Rightarrow> sim_state res" where
  "redirect a slot_exc M = rbind (op_at a M) (\<lambda>u.
     if slot_exc \<or> exc u \<noteq> Branch_exception then Inr (M\<lparr>fetch_pc := op_pc u\<rparr>)
     else delete_op a (M\<lparr>fetch_pc := correct_pc u\<rparr>))"

text \<open>The restart up to the first yield; \<open>flash_restart\<close> makes it last no cycles.\<close>

definition restart :: "sim_param \<Rightarrow> nat \<Rightarrow> bool \<Rightarrow> ref_pair \<Rightarrow> (retire_at \<times> ref_pair) res" where
  "restart S a slot_exc = (\<lambda>(M, s). rbind (redirect a slot_exc (M\<lparr>nuke := True\<rparr>)) (\<lambda>M1.
     let M2 = M1\<lparr>l1cache := nuke_inflight (l1cache M1)\<rparr>; ps = q_data (rob M2); c = length (filter (\<lambda>p. p \<noteq> None) ps)
     in rbind (delete_all ps M2) (\<lambda>M3. rbind (restore_regs (M3\<lparr>rob := (rob M3)\<lparr>q_data := map (\<lambda>_. None) ps\<rparr>\<rparr>)) (\<lambda>M4.
        let n = (if flash_restart S then 0 else nat ((int c + retire_bw S - 1) div retire_bw S))
        in if n = 0 then rbind (end_restart M4) (\<lambda>M5. Inr (At_end False, M5, s)) else Inr (At_drain n, M4, s)))))"

section \<open>Exceptions\<close>

definition retire_pair_of :: "sim_param \<Rightarrow> nat \<Rightarrow> nat \<Rightarrow> nat \<Rightarrow> ref_pair \<Rightarrow> (retire_at \<times> ref_pair) res" where
  "retire_pair_of S k a b = (\<lambda>(M, s). rbind (op_at b M) (\<lambda>uu.
     if \<not> is_complete uu \<or> complete_cycle uu = curr M then Inr (At_exc_done a b, M, s)
     else if exc uu = Branch_exception \<or> load_exception uu then restart S a True (M, s)
     else rbind (retire_insn S a M) (\<lambda>M1. rbind (retire_insn S b M1) (\<lambda>M2. rbind (op_at a M2) (\<lambda>u. rbind (step_ref S k u (M2, s)) (\<lambda>(M2, s1).
       rbind (pop_rob M2) (\<lambda>M3. rbind (pop_rob M3) (\<lambda>M4. rbind (delete_op b M4) (\<lambda>M5. restart S a False (M5, s1))))))))))"

definition exc_wait_slot :: "sim_param \<Rightarrow> nat \<Rightarrow> nat \<Rightarrow> ref_pair \<Rightarrow> (retire_at \<times> ref_pair) res" where
  "exc_wait_slot S k a = (\<lambda>(M, s). rbind (peek_next_pop (rob M)) (\<lambda>p. case p of
     None \<Rightarrow> Inr (At_exc_slot a, M, s) | Some b \<Rightarrow> retire_pair_of S k a b (M, s)))"

definition handle_exc :: "sim_param \<Rightarrow> nat \<Rightarrow> nat \<Rightarrow> ref_pair \<Rightarrow> (retire_at \<times> ref_pair) res" where
  "handle_exc S k a = (\<lambda>(M, s). rbind (op_at a M) (\<lambda>u. if exc u \<noteq> Branch_exception then restart S a False (M, s)
     else if has_delay_slot u then exc_wait_slot S k a (M\<lparr>alloc_blocked := False\<rparr>, s)
     else rbind (retire_insn S a M) (\<lambda>M1. rbind (step_ref S k u (M1, s)) (\<lambda>(M1, s1). rbind (pop_rob M1) (\<lambda>M2. restart S a False (M2, s1))))))"

section \<open>The thread\<close>

text \<open>What follows the loop: an exception is handled after a yield, for the test on the number is always true.\<close>

definition after_loop :: "sim_param \<Rightarrow> nat \<Rightarrow> step \<times> ref_pair \<Rightarrow> (retire_at \<times> ref_pair) res" where
  "after_loop S k = (\<lambda>(r, M, s). case r of
     Step_exc a amt \<Rightarrow> rbind (op_at a M) (\<lambda>u. ensure AssertFail (could_cause_exception u)
       (if amt - retire_bw S < 2 then Inr (At_exc a, M, s) else handle_exc S k a (M, s)))
   | Step_stop b \<Rightarrow> Inr (At_end b, M, s)
   | Step_yield w \<Rightarrow> Inr (w, M, s)
   | Step_go \<Rightarrow> Inr (At_end False, M, s))"

definition retire_top :: "sim_param \<Rightarrow> nat \<Rightarrow> ref_pair \<Rightarrow> (retire_at \<times> ref_pair) res" where
  "retire_top S k = (\<lambda>(M, s). if terminate_sim M then Inr (At_done, M, s)
     else rbind (retire_loop S k (nat (retire_bw S)) 0 (M, s)) (after_loop S k))"

fun retire_resume :: "sim_param \<Rightarrow> nat \<Rightarrow> retire_at \<Rightarrow> ref_pair \<Rightarrow> (retire_at \<times> ref_pair) res" where
  "retire_resume S k At_top x = retire_top S k x"
| "retire_resume S k (At_slot a amt) x = rbind (rbind (retire_wait_slot S k a amt x) (retire_more S k amt)) (after_loop S k)"
| "retire_resume S k (At_slot_done a b amt) x = rbind (rbind (retire_with_slot S k a b amt x) (retire_more S k amt)) (after_loop S k)"
| "retire_resume S k (At_exc a) x = handle_exc S k a x"
| "retire_resume S k (At_exc_slot a) x = exc_wait_slot S k a x"
| "retire_resume S k (At_exc_done a b) x = retire_pair_of S k a b x"
| "retire_resume S k (At_drain n) (M, s) = (if 1 < n then Inr (At_drain (n - 1), M, s)
     else rbind (end_restart M) (\<lambda>M1. Inr (At_end False, M1, s)))"
| "retire_resume S k (At_end b) (M, s) = retire_top S k (if maxicnt M \<le> sicnt M \<or> b then M\<lparr>terminate_sim := True\<rparr> else M, s)"
| "retire_resume S k At_done x = Inr (At_done, x)"

section \<open>A round of the threads\<close>

text \<open>
  The threads run in the order in which \<open>run_ooo_core\<close> makes them, each to its next yield; all but the
  retire stage test \<open>terminate_sim\<close> there.
\<close>

record core =
  mach :: sim_state
  ref :: state
  at :: retire_at

definition unless_done :: "(sim_state \<Rightarrow> sim_state res) \<Rightarrow> sim_state \<Rightarrow> sim_state res" where
  "unless_done f M = (if terminate_sim M then Inr M else f M)"

definition other_stages :: "sim_param \<Rightarrow> u32 \<Rightarrow> sim_state \<Rightarrow> sim_state res" where
  "other_stages S lat M = rbind (unless_done complete_stage M) (\<lambda>M1. rbind (unless_done (execute_stage S) M1) (\<lambda>M2.
     rbind (unless_done (allocate_stage S) M2) (\<lambda>M3. rbind (unless_done (decode_stage S) M3) (\<lambda>M4.
     rbind (unless_done (fetch_stage S) M4) (\<lambda>M5. rbind (unless_done cache_stage M5) (unless_done (\<lambda>M. Inr (cycle_count lat M))))))))"

definition round :: "sim_param \<Rightarrow> nat \<Rightarrow> u32 \<Rightarrow> core \<Rightarrow> core res" where
  "round S k lat c = rbind (retire_resume S k (at c) (mach c, ref c)) (\<lambda>(w, M, s).
     rbind (other_stages S lat M) (\<lambda>M1. Inr \<lparr>mach = M1, ref = s, at = w\<rparr>))"

text \<open>The run ends when the retire thread has; \<open>n\<close> bounds the number of rounds.\<close>

fun run_ooo_core :: "sim_param \<Rightarrow> nat \<Rightarrow> u32 \<Rightarrow> nat \<Rightarrow> core \<Rightarrow> core res" where
  "run_ooo_core S k lat n c = (if at c = At_done then Inr c else case n of 0 \<Rightarrow> Inl OutOfFuel
     | Suc n1 \<Rightarrow> rbind (round S k lat c) (run_ooo_core S k lat n1))"

declare run_ooo_core.simps [simp del]

text \<open>The descriptors that are left at the end are deleted with the machine.\<close>

definition destroy_ooo_core :: "sim_state \<Rightarrow> sim_state res" where
  "destroy_ooo_core M = rbind (delete_all (q_data (fetch_queue M)) M) (\<lambda>M1.
     rbind (delete_all (q_data (decode_queue M1)) M1) (\<lambda>M2. delete_all (q_data (rob M2)) M2))"

end
