(* ===== verification/Pipeline_Properties.thy ===== *)
theory Pipeline_Properties
  imports Op_Pipeline Core_Retire
begin

text \<open>
  An instruction through the pipe as properties of the dispatch functions: retirement, rollback, and
  the whole way of an integer instruction with the check against the interpreter.
\<close>

section \<open>An instruction on a machine that has just started\<close>

abbreviation sample_addu :: u32 where
  "sample_addu \<equiv> 0x00851821"

definition fresh_op :: "mips_meta_op \<Rightarrow> bool" where
  "fresh_op u \<longleftrightarrow> unset u \<and> \<not> is_complete u \<and> \<not> take_trap u"

lemma rtype_trap:
  assumes "allocate_op op a u M = Inr (u1, M1, True)" "op = Rtype_alu t \<or> op = Rtype_const_shift t" "\<not> take_trap u"
  shows "\<not> take_trap u1"
proof -
  have "length (op_dests op (op_inst u)) \<le> 1" using assms(2) by auto
  then show ?thesis using op_ids_cases[OF assms(1)] assms(2,3) by (auto simp: same_ids_def)
qed

lemma fresh_new: "fresh_op (new_meta_op n ip inst npc cyc pt pr)"
  by (simp add: fresh_op_def unset_new) (simp add: new_meta_op_def)

lemma sample_started:
  obtains M u1 M1 where "ren_ok (num_prf default_sizes) (\<lambda>_. []) M" "tables_ok M" "banks_ok M" "holds M sample_state" "shows_regs M sample_state"
    "allocate_op (Rtype_alu Addu) 7 (sample_op sample_addu) M = Inr (u1, M1, True)" "regs_ok (Rtype_alu Addu) (op_inst (sample_op sample_addu))"
    "ren_ok (num_prf default_sizes) (\<lambda>k. op_renamings (Rtype_alu Addu) u1 k @ []) M1" "banks_ok M1" "tables_ok M1"
    "settled (Rtype_alu Addu) u1" "\<not> take_trap u1"
proof -
  obtain M where M: "ren_ok (num_prf default_sizes) (\<lambda>_. []) M" "tables_ok M" "holds M sample_state" "banks_ok M" "shows_regs M sample_state"
    by (rule sample_start)
  obtain u1 M1 where a: "allocate_op (Rtype_alu Addu) 7 (sample_op sample_addu) M = Inr (u1, M1, True)" using sample_allocates[OF M(1)] by blast
  have r: "regs_ok (Rtype_alu Addu) (op_inst (sample_op sample_addu))" by (simp add: regs_ok_def reg_less34)
  have g: "grows (num_prf default_sizes) (\<lambda>_. []) (op_renamings (Rtype_alu Addu) u1) M M1" "kept (sample_op sample_addu) u1" "tables_ok M1"
    using allocate_op_ok[OF M(1,2) sample_prf r, of 7] a by (simp_all add: allocates_done del: allocate_op.simps)
  have f: "fresh_op (sample_op sample_addu)" unfolding sample_op_def by (rule fresh_new)
  have "settled (Rtype_alu Addu) u1" using allocate_settled(1)[OF a] f g(2) by (simp add: fresh_op_def kept_def)
  moreover have "\<not> take_trap u1" using rtype_trap[OF a] f by (simp add: fresh_op_def)
  moreover have "banks_ok M1" using M(4) g(1) by (simp add: banks_ok_def grows_def)
  ultimately show thesis using M a r g by (intro that[of M u1 M1]) (simp_all add: grows_def del: allocate_op.simps)
qed

section \<open>The tables of loads and stores\<close>

text \<open>
  Only loads and stores touch the tables and their bit vectors: an allocation takes one entry and the
  rollback of what was just allocated gives it back.
\<close>

definition tables :: "sim_state \<Rightarrow> nat option list \<times> u64 bitvec \<times> nat option list \<times> u64 bitvec" where
  "tables M = (load_tbl M, load_tbl_freevec M, store_tbl M, store_tbl_freevec M)"

definition leaves_tables :: "sim_state \<Rightarrow> (mips_meta_op \<times> sim_state \<times> bool) res \<Rightarrow> bool" where
  "leaves_tables M x \<longleftrightarrow> (\<forall>u1 M1 ok. x = Inr (u1, M1, ok) \<longrightarrow> tables M1 = tables M)"

definition keeps_tables :: "sim_state \<Rightarrow> sim_state res \<Rightarrow> bool" where
  "keeps_tables M x \<longleftrightarrow> (\<forall>M1. x = Inr M1 \<longrightarrow> tables M1 = tables M)"

named_theorems table_intros \<open>what keeps the tables of loads and stores\<close>

lemma tables_on_rf: "on_rf k f M = Inr M1 \<Longrightarrow> tables M1 = tables M"
  by (auto simp: on_rf_def rbind_Inr_iff tables_def)

lemma tables_claim_next: "claim_next k d M = Inr (i, M1) \<Longrightarrow> tables M1 = tables M"
  by (auto simp: claim_next_def Let_def rbind_Inr_iff dest: tables_on_rf)

lemma leaves_tables_basic [table_intros]:
  "leaves_tables M (Inr (u, M, ok))" "leaves_tables M (Inl e)" "leaves_tables M (Inr (u, M\<lparr>alloc_blocked := b\<rparr>, ok))"
  "(c \<Longrightarrow> leaves_tables M x) \<Longrightarrow> (\<not> c \<Longrightarrow> leaves_tables M y) \<Longrightarrow> leaves_tables M (if c then x else y)"
  "(\<And>v. leaves_tables M (f v)) \<Longrightarrow> leaves_tables M (rbind r f)"
  "leaves_tables M x \<Longrightarrow> leaves_tables M (ensure e c x)"
  "leaves_tables M x \<Longrightarrow> leaves_tables M (if_free two u M x)"
  "leaves_tables M (rename_reg k d u M)" "leaves_tables M (rename_late k d u M)" "leaves_tables M (claim_pair two d u M)"
  by (auto simp: leaves_tables_def rbind_Inr_iff ensure_Inr_iff if_free_def rename_reg_def rename_late_def claim_pair_def Let_def
      split: if_splits prod.splits dest!: tables_on_rf tables_claim_next)
    (simp_all add: tables_def)

lemma leaves_tables_monitor: "leaves_tables M (monitor_allocate u M)"
  unfolding monitor_allocate_def rename_reg_def
  by (auto simp: leaves_tables_def rbind_Inr_iff Let_def tables_def[of "_\<lparr>alloc_blocked := _\<rparr>"] split: if_splits dest!: tables_on_rf)
     (auto simp: tables_def)

lemma leaves_tables_mult_div: "leaves_tables M (mult_div_allocate t u M)"
  unfolding mult_div_allocate_def Let_def
  by (intro leaves_tables_basic(4,5)) (auto simp: leaves_tables_def rbind_Inr_iff ensure_Inr_iff split: if_splits dest!: tables_on_rf)

lemma allocate_tables:
  assumes "get_op_class op \<noteq> Op_load" "get_op_class op \<noteq> Op_store"
  shows "leaves_tables M (allocate_op op a u M)"
  using assms
  by (cases op; simp add: leaves_tables_monitor leaves_tables_mult_div single_allocates fmovc_allocate_def fmov_allocate_def cond_move_allocate_def arith_allocate_def
      arith_allocate_double_def arith_allocate_float_def fma_allocate_def fma_allocate_double_def fma_allocate_float_def is_d_def Let_def cvtd_allocate_def cong: if_cong split del: if_split; (intro table_intros)?)

lemma keeps_tables_basic [table_intros]:
  "keeps_tables M (Inr M)" "keeps_tables M (on_rf k g M)"
  "(c \<Longrightarrow> keeps_tables M x) \<Longrightarrow> (\<not> c \<Longrightarrow> keeps_tables M y) \<Longrightarrow> keeps_tables M (if c then x else y)"
  "keeps_tables M x \<Longrightarrow> (\<And>M1. keeps_tables M1 (f M1)) \<Longrightarrow> keeps_tables M (rbind x f)"
  "keeps_tables M (Inr (M\<lparr>alloc_blocked := b\<rparr>))"
  by (auto simp: keeps_tables_def rbind_Inr_iff tables_on_rf) (simp_all add: tables_def)

lemma keeps_tables_undo [table_intros]:
  "keeps_tables M (undo_dest k d u M)" "keeps_tables M (undo_opt k d u M)" "keeps_tables M (undo_pair two d u M)"
  unfolding undo_dest_def undo_opt_def undo_pair_def undo_aux_def by (intro table_intros)+

lemmas single_rollbacks = mtc0_rollback_def mtc1_rollback_def mfc1_rollback_def lo_hi_rollback_def mul_rollback_def clz_rollback_def
  se_rollback_def ext_rollback_def ins_rollback_def movci_rollback_def cmp_rollback_def cvts_rollback_def fmovc_rollback_def
  fmov_rollback_def cvtd_rollback_def arith_rollback_def fma_rollback_def is_d_def sync_rollback_def branch_rollback_def
  monitor_rollback_def mult_div_rollback_def rtype_rollback_def itype_rollback_def

lemma keeps_tables_jump: "keeps_tables M (jump_rollback t u M)"
  unfolding jump_rollback_def by (intro table_intros) (simp_all add: keeps_tables_def tables_def)

lemma rollback_tables:
  assumes "get_op_class op \<noteq> Op_load" "get_op_class op \<noteq> Op_store"
  shows "keeps_tables M (rollback_op op u M)"
  using assms
  by (cases op; simp add: single_rollbacks keeps_tables_jump split del: if_split; (intro table_intros)?)

text \<open>An entry that is claimed and then given up.\<close>

definition null_where_free :: "sim_state \<Rightarrow> bool" where
  "null_where_free M \<longleftrightarrow> (\<forall>i < length (load_tbl M). int i \<notin> used (load_tbl_freevec M) \<longrightarrow> load_tbl M ! i = None) \<and>
     (\<forall>i < length (store_tbl M). int i \<notin> used (store_tbl_freevec M) \<longrightarrow> store_tbl M ! i = None)"

lemma entry_and_back:
  assumes "wf_vec (length t) v" "i = find_first_unset v" "i \<noteq> -1" "bv_set v i = Inr v1" "bv_clear v1 i = Inr v2"
    and "\<forall>j < length t. int j \<notin> used v \<longrightarrow> t ! j = None"
  shows "v2 = v" "(t[nat i := Some a])[nat i := None] = t"
proof -
  have i: "0 \<le> i" "i < int (length t)" "i \<notin> used v" using find_free[OF assms(1)] assms(2,3) by auto
  obtain v3 where "bv_set v i = Inr v3" "wf_vec (length t) v3" "used v3 = insert i (used v)" using assms(1) i(1,2) by (rule bv_set_ok)
  then have v1: "wf_vec (length t) v1" "used v1 = insert i (used v)" using assms(4) by simp_all
  obtain v4 where "bv_clear v1 i = Inr v4" "wf_vec (length t) v4" "used v4 = used v1 - {i}" using v1(1) i(1,2) by (rule bv_clear_ok)
  then show "v2 = v" using assms(5) v1(2) i(3) wf_vec_eqI[OF _ assms(1), of v2] by simp
  have "t ! nat i = None" using assms(6) i by (simp add: nat_less_iff)
  then show "(t[nat i := Some a])[nat i := None] = t" by (metis list_update_id list_update_overwrite)
qed

lemma load_entry:
  assumes "tables_ok M" "null_where_free M" "enter_load a i M = Inr M1" "tables M2 = tables M1"
    "i = find_first_unset (load_tbl_freevec M)" "i \<noteq> -1" "leave_load i M2 = Inr M3"
  shows "tables M3 = tables M"
proof -
  have v: "wf_vec (length (load_tbl M)) (load_tbl_freevec M)" using assms(1) by (simp add: tables_ok_def)
  show ?thesis
  using entry_and_back[OF v assms(5,6)] assms(2-4,7)
  by (auto simp: tables_def enter_load_def leave_load_def rbind_Inr_iff put_idx_def put_res_def ensure_Inr_iff null_where_free_def split: if_splits)
qed

lemma store_entry:
  assumes "tables_ok M" "null_where_free M" "enter_store a i M = Inr M1" "tables M2 = tables M1"
    "i = find_first_unset (store_tbl_freevec M)" "i \<noteq> -1" "leave_store i M2 = Inr M3"
  shows "tables M3 = tables M"
proof -
  have v: "wf_vec (length (store_tbl M)) (store_tbl_freevec M)" using assms(1) by (simp add: tables_ok_def)
  show ?thesis
  using entry_and_back[OF v assms(5,6)] assms(2-4,7)
  by (auto simp: tables_def enter_store_def leave_store_def rbind_Inr_iff put_idx_def put_res_def ensure_Inr_iff null_where_free_def split: if_splits)
qed

lemma load_enters:
  assumes "op = Load_op lt \<or> op = Fp_load lt" "allocate_op op a u M = Inr (u1, M1, True)"
  obtains M' where "enter_load a (load_tbl_idx u1) M = Inr M'" "tables M1 = tables M'"
    "load_tbl_idx u1 = find_first_unset (load_tbl_freevec M)" "load_tbl_idx u1 \<noteq> -1"
  using assms(1)
proof
  assume "op = Load_op lt"
  then show thesis
    using assms(2) that by (auto simp: load_allocate_def Let_def rbind_Inr_iff split: if_splits dest!: tables_on_rf)
next
  assume "op = Fp_load lt"
  then show thesis
    using assms(2) that by (auto simp: fp_load_allocate_def Let_def rbind_Inr_iff split: if_splits prod.splits dest!: tables_claim_next set_src_tables)
qed

lemma store_enters:
  assumes "op = Store_op st \<or> op = Fp_store ft" "allocate_op op a u M = Inr (u1, M1, True)"
  shows "enter_store a (store_tbl_idx u1) M = Inr M1 \<and> store_tbl_idx u1 = find_first_unset (store_tbl_freevec M) \<and> store_tbl_idx u1 \<noteq> -1"
  using assms
  by (cases op) (auto simp: store_allocate_def fp_store_allocate_def Let_def rbind_Inr_iff split: if_splits dest!: set_src_tables)

lemma tables_leave_load:
  "leave_load i M = Inr M1 \<Longrightarrow> tables M' = tables M \<Longrightarrow> \<exists>M1'. leave_load i M' = Inr M1' \<and> tables M1' = tables M1"
  by (auto simp: leave_load_def rbind_Inr_iff tables_def)

text \<open>Rolling back what was just allocated gives back the entry it took.\<close>

lemma allocate_rollback_tables:
  assumes "tables_ok M" "null_where_free M" "allocate_op op a u M = Inr (u1, M1, True)" "rollback_op op u1 M1 = Inr M2"
  shows "tables M2 = tables M"
proof -
  consider (load) lt where "op = Load_op lt \<or> op = Fp_load lt" | (store) st ft where "op = Store_op st \<or> op = Fp_store ft"
    | (other) "get_op_class op \<noteq> Op_load" "get_op_class op \<noteq> Op_store" by (cases op) auto
  then show ?thesis
  proof cases
    case load
    obtain M' where e: "enter_load a (load_tbl_idx u1) M = Inr M'" "tables M1 = tables M'"
      "load_tbl_idx u1 = find_first_unset (load_tbl_freevec M)" "load_tbl_idx u1 \<noteq> -1" using load assms(3) by (rule load_enters)
    note restored = load_entry[OF assms(1,2) e(1) _ e(3,4)]
    from load show ?thesis
    proof
      assume "op = Load_op lt"
      then obtain M0 where "undo_dest GPR (rt_of (op_inst u1)) u1 M1 = Inr M0" "leave_load (load_tbl_idx u1) M0 = Inr M2"
        using assms(4) by (auto simp: load_rollback_def rbind_Inr_iff)
      then show ?thesis using restored[of M0 M2] e(2) tables_on_rf by (metis undo_dest_def)
    next
      assume "op = Fp_load lt"
      then obtain M0 where "leave_load (load_tbl_idx u1) M1 = Inr M0" "undo_pair (aux_prf_idx u1 \<noteq> -1) (rt_of (op_inst u1)) u1 M0 = Inr M2"
        using assms(4) by (auto simp: fp_load_rollback_def rbind_Inr_iff)
      then show ?thesis using restored[of M1 M0] e(2) keeps_tables_undo(3)[of M0] by (simp add: keeps_tables_def)
    qed
  next
    case store
    note e = store_enters[OF store assms(3)]
    have "leave_store (store_tbl_idx u1) M1 = Inr M2"
      using store assms(4) by (auto simp: store_rollback_def fp_store_rollback_def)
    then show ?thesis using store_entry[OF assms(1,2), of a "store_tbl_idx u1" M1 M1 M2] e by metis
  next
    case other
    then show ?thesis
      using allocate_tables[OF other, of M a u] rollback_tables[OF other, of M1 u1] assms(3,4) by (fastforce simp: leaves_tables_def keeps_tables_def)
  qed
qed

section \<open>Retirement and rollback\<close>

text \<open>
  C8. Retiring the oldest instruction in flight, of any class but the monitor call, returns where its class allows it: its renamings
  enter the retired mapping, its values the architectural registers, and the invariant of renaming
  holds for the instructions that remain; the speculative mapping does not change.
\<close>

theorem retire_commits:
  assumes "ren_ok N (\<lambda>k. op_renamings op u k @ G k) M" "banks_ok M" "tables_ok M"
    and "settled op u" "retirable S op u M" "op \<noteq> Nop"
  shows "\<exists>u' M'. retire_op S op u M = Inr (u', M') \<and> ren_ok N G M' \<and> tables_ok M' \<and> sicnt M' = sicnt M + 1 \<and>
    (\<forall>k. rat (rf M' k) = rat (rf M k) \<and> rat_retire (rf M' k) = remap (op_renamings op u k) (rat_retire (rf M k)) \<and>
       (k \<noteq> CPR0 \<longrightarrow> arch (rf M' k) = put_committed (op_renamings op u k) (phys (rf M k)) (arch (rf M k))))"
  using retire_op_ok[OF assms] by (auto simp: retires_def commits_def)

theorem retire_commits_witness:
  "\<exists>M u1 M1 u' M'. ren_ok (num_prf default_sizes) (\<lambda>_. []) M \<and>
     allocate_op (Rtype_alu Addu) 7 (sample_op sample_addu) M = Inr (u1, M1, True) \<and>
     retire_op (default_param sample_params (\<lambda>h w. h)) (Rtype_alu Addu) u1 M1 = Inr (u', M') \<and> sicnt M' = sicnt M1 + 1 \<and>
     ren_ok (num_prf default_sizes) (\<lambda>_. []) M'"
proof -
  obtain M u1 M1 where s: "ren_ok (num_prf default_sizes) (\<lambda>_. []) M"
    "allocate_op (Rtype_alu Addu) 7 (sample_op sample_addu) M = Inr (u1, M1, True)"
    "ren_ok (num_prf default_sizes) (\<lambda>k. op_renamings (Rtype_alu Addu) u1 k @ []) M1" "banks_ok M1" "tables_ok M1"
    "settled (Rtype_alu Addu) u1" "\<not> take_trap u1" by (rule sample_started)
  have "retirable (default_param sample_params (\<lambda>h w. h)) (Rtype_alu Addu) u1 M1" using s(7) by (simp add: retirable_def)
  from retire_commits[OF s(3-6) this] s(1,2) show ?thesis by blast
qed

lemma renamed_unique: "renamed m fs m1 \<Longrightarrow> renamed m fs m2 \<Longrightarrow> m1 = m2"
  by (induction m fs m1 rule: renamed.induct) auto

text \<open>
  C11. Rolling back an instruction that has just been allocated undoes the allocation: the mapping and the free list of every
  register file, its retired mapping and free list and its architectural registers, the tables of loads and stores with the
  bit vectors of their entries, and memory are those from before it, and the invariant holds again.  The tables are taken to
  be null where an entry is free, which a rollback or a retirement leaves.  (What is not restored is what allocation does not
  rely on: the valid bits of the registers that are free again.)
\<close>

theorem rollback_undoes_allocation:
  assumes "ren_ok N F M" "tables_ok M" "null_where_free M" "64 dvd N GPR" "64 dvd N CPR1" "regs_ok op (op_inst u)" "unset u"
    and "allocate_op op a u M = Inr (u1, M1, True)"
  shows "\<exists>M2. rollback_op op u1 M1 = Inr M2 \<and> ren_ok N F M2 \<and> smem M2 = smem M \<and>
    load_tbl M2 = load_tbl M \<and> load_tbl_freevec M2 = load_tbl_freevec M \<and>
    store_tbl M2 = store_tbl M \<and> store_tbl_freevec M2 = store_tbl_freevec M \<and>
    (\<forall>k. rat (rf M2 k) = rat (rf M k) \<and> freevec (rf M2 k) = freevec (rf M k) \<and> rat_retire (rf M2 k) = rat_retire (rf M k) \<and>
       freevec_retire (rf M2 k) = freevec_retire (rf M k) \<and> arch (rf M2 k) = arch (rf M k))"
proof -
  have g: "grows N F (op_renamings op u1) M M1" "kept u u1" "tables_ok M1"
    using allocate_op_ok[OF assms(1,2,4-6), of a] assms(8) by (simp_all add: allocates_done)
  have "op_inst u1 = op_inst u" using g(2) by (simp add: kept_def)
  note s = allocate_settled[OF assms(8,7) this]
  have "ren_ok N (\<lambda>j. F j @ op_renamings op u1 j) M1" using g(1) by (simp add: grows_def)
  from rollback_op_ok[OF this g(3) s] obtain M2 where M2: "rollback_op op u1 M1 = Inr M2" "ren_ok N F M2" "smem M2 = smem M1"
    "\<And>k. rat_retire (rf M2 k) = rat_retire (rf M1 k) \<and> arch (rf M2 k) = arch (rf M1 k)"
    by (auto simp: rolls_back_def undoes_def)
  have rr: "rat_retire (rf M2 k) = rat_retire (rf M k)" "arch (rf M2 k) = arch (rf M k)" for k
    using M2(4)[of k] g(1) by (simp_all add: grows_def)
  have "rat (rf M2 k) = rat (rf M k) \<and> freevec (rf M2 k) = freevec (rf M k) \<and> freevec_retire (rf M2 k) = freevec_retire (rf M k)" for k
  proof -
    note I = renaming_invD[OF ren_okD[OF assms(1), of k]] and I2 = renaming_invD[OF ren_okD[OF M2(2), of k]]
    show ?thesis
      using renamed_unique[OF I2(7)[unfolded rr] I(7)] wf_vec_eqI[OF I2(4) I(4)] wf_vec_eqI[OF I2(5) I(5)] I(9,10) I2(9,10) rr(1)[of k] by simp
  qed
  then show ?thesis
    using M2(1-3) rr g(1) allocate_rollback_tables[OF assms(2,3,8) M2(1)] by (auto simp: grows_def tables_def)
qed

text \<open>A machine that has just started, with one free entry in each table.\<close>

lemma sample_tables:
  obtains M where "ren_ok (num_prf default_sizes) (\<lambda>_. []) M" "tables_ok M" "null_where_free M" "find_first_unset (load_tbl_freevec M) \<noteq> -1"
proof -
  obtain M where M: "ren_ok (num_prf default_sizes) (\<lambda>_. []) M" by (rule sample_start)
  let ?M = "M\<lparr>load_tbl := [None], store_tbl := [None], load_tbl_freevec := new_bitvec 1, store_tbl_freevec := new_bitvec 1\<rparr>"
  have v: "wf_vec 1 (new_bitvec 1)" "used (new_bitvec 1) = {}" by (simp_all add: wf_vec_def used_def)
  have "find_first_unset (new_bitvec 1 :: u64 bitvec) \<noteq> -1" using find_free[OF v(1)] v(2) by auto
  with M v(1) show thesis by (intro that[of ?M]) (simp_all add: ren_ok_def tables_ok_def null_where_free_def)
qed

theorem rollback_undoes_allocation_witness:
  "\<exists>M u1 M1 M2. ren_ok (num_prf default_sizes) (\<lambda>_. []) M \<and>
     allocate_op (Load_op Lw) 7 (sample_op 0x8c850003) M = Inr (u1, M1, True) \<and> rollback_op (Load_op Lw) u1 M1 = Inr M2 \<and>
     rat (rf M2 GPR) = rat (rf M GPR) \<and> freevec (rf M2 GPR) = freevec (rf M GPR) \<and> load_tbl M2 = load_tbl M \<and>
     load_tbl_freevec M2 = load_tbl_freevec M"
proof -
  obtain M where M: "ren_ok (num_prf default_sizes) (\<lambda>_. []) M" "tables_ok M" "null_where_free M" "find_first_unset (load_tbl_freevec M) \<noteq> -1"
    by (rule sample_tables)
  obtain u1 M1 where a: "allocate_op (Load_op Lw) 7 (sample_op 0x8c850003) M = Inr (u1, M1, True)"
    using M(1,2,4) by (rule sample_load_allocates)
  have "regs_ok (Load_op Lw) (op_inst (sample_op 0x8c850003))" by (simp add: regs_ok_def reg_less34 load_src1_def)
  moreover have "unset (sample_op 0x8c850003)" by (simp add: sample_op_def unset_new)
  ultimately show ?thesis using rollback_undoes_allocation[OF M(1-3) sample_prf _ _ a] M(1) a by blast
qed

section \<open>The check against the interpreter\<close>

lemma take_eq_iff: "n \<le> length xs \<Longrightarrow> map f [0..<n] = take n xs \<longleftrightarrow> (\<forall>r < n. xs ! r = f r)"
  by (auto simp: list_eq_iff_nth_eq)

lemma regs_agree_iff:
  assumes "banks_ok M"
  shows "regs_agree M s \<longleftrightarrow> shows_regs M s"
proof -
  have l: "32 \<le> length (arch (rf M GPR))" "32 \<le> length (arch (rf M CPR1))" "5 \<le> length (arch (rf M FCR1))"
    using assms by (simp_all add: banks_ok_def)
  have "regs_agree M s \<longleftrightarrow> (\<forall>r < 32. arch (rf M GPR) ! r = gpr s r) \<and> (\<forall>r < 32. arch (rf M CPR1) ! r = cpr1 s r) \<and>
      (\<forall>r < 5. arch (rf M FCR1) ! r = fcr1 s r)"
    unfolding regs_agree_def take_eq_iff[OF l(1)] take_eq_iff[OF l(2)] take_eq_iff[OF l(3)] ..
  also have "\<dots> \<longleftrightarrow> shows_regs M s" unfolding shows_regs_def by (auto; case_tac k; simp)
  finally show ?thesis .
qed

lemma remap_other: "d \<notin> fst ` set fs \<Longrightarrow> remap fs m ! d = m ! d"
  by (induction fs m rule: remap.induct) auto

lemma put_committed_nth:
  assumes "\<forall>x \<in> set fs. fst x < length m" "length a = length m" "r < length a"
  shows "put_committed fs ph a ! r = (if r \<in> fst ` set fs then ph ! nat (remap fs m ! r) else a ! r)"
  using assms
proof (induction fs ph a arbitrary: m rule: put_committed.induct)
  case (2 d prev nid fs ph a)
  have "put_committed fs ph (a[d := ph ! nat nid]) ! r =
      (if r \<in> fst ` set fs then ph ! nat (remap fs (m[d := nid]) ! r) else a[d := ph ! nat nid] ! r)"
    using 2 by simp
  moreover have "d < length m" "length a = length m" "r < length a" using 2(2-4) by simp_all
  moreover have "d \<notin> fst ` set fs \<Longrightarrow> remap fs (m[d := nid]) ! d = nid" using remap_other[of d fs "m[d := nid]"] 2(2) by simp
  ultimately show ?case by (cases "r = d") (simp_all add: nth_list_update)
qed simp

lemma dest_bound:
  assumes "renaming_inv k n fs r" "x \<in> set fs"
  shows "fst x < k"
proof -
  obtain gs d p i hs where x: "x = (d, p, i)" "fs = gs @ (d, p, i) # hs" using assms(2) by (metis split_list prod_cases3)
  then obtain m where m: "renamed (rat_retire r) gs m" "d < length m"
    using renaming_invD(7)[OF assms(1)] by (auto simp: renamed_append)
  then show ?thesis using length_renamed[OF m(1)] renaming_invD(1)[OF assms(1)] x(1) by simp
qed

text \<open>The registers that are compared after an instruction whose destinations are \<open>R\<close>.\<close>

lemma agree_after:
  assumes idle: "ren_ok N (\<lambda>_. []) M" "banks_ok M" "holds M s" "regs_agree M s"
    and g: "grows N (\<lambda>_. []) R M M1" and ph: "\<And>k p. 0 \<le> p \<Longrightarrow> p \<notin> set (new_ids (R k)) \<Longrightarrow> phys (rf M3 k) ! nat p = phys (rf M1 k) ! nat p"
    and M3: "\<And>k. rat (rf M3 k) = rat (rf M1 k) \<and> rat_retire (rf M3 k) = rat_retire (rf M1 k) \<and> arch (rf M3 k) = arch (rf M1 k)"
    and c: "commits N R (\<lambda>_. []) M3 M4" and h: "holds M4 s'"
  shows "regs_agree M4 s'"
proof -
  have b: "banks_ok M4" using c by (simp add: commits_def)
  have "arch (rf M4 k) ! r = arch_reg k r s'" if r: "r < shown k" for k r
  proof -
    have k: "k \<noteq> CPR0" "r < arch_count k" using r by (cases k; simp)+
    note I = renaming_invD[OF ren_okD[OF idle(1), of k]]
    have len: "length (rat (rf M k)) = arch_count k" "length (arch (rf M k)) = arch_count k"
      using I(2) idle(2) by (simp_all add: banks_ok_def)
    have inv1: "renaming_inv (arch_count k) (N k) (R k) (rf M1 k)" using g ren_okD[of N "\<lambda>k. [] @ R k" M1 k] by (simp add: grows_def)
    have "fst x < arch_count k" if "x \<in> set (R k)" for x using dest_bound[OF inv1 that] .
    then have d: "\<forall>x \<in> set (R k). fst x < length (rat (rf M k))" using len by simp
    have rat4: "rat (rf M4 k) = remap (R k) (rat (rf M k))" and phys4: "phys (rf M4 k) = phys (rf M3 k)"
      and arch4: "arch (rf M4 k) = put_committed (R k) (phys (rf M3 k)) (arch (rf M k))"
      using c M3[of k] g k(1) by (simp_all add: commits_def grows_def)
    have v: "arch (rf M4 k) ! r = (if r \<in> fst ` set (R k) then reg_val k r M4 else arch (rf M k) ! r)"
      unfolding arch4 reg_val_def rat4 phys4 using put_committed_nth[OF d, of "arch (rf M k)" r] len k(2) by simp
    have h': "reg_val k r M4 = arch_reg k r s'" using h k(2) by (simp add: holds_def)
    show ?thesis
    proof (cases "r \<in> fst ` set (R k)")
      case False
      let ?p = "rat (rf M k) ! r"
      have p: "?p \<in> set (rat (rf M k))" using len k(2) by simp
      have "?p \<in> used (freevec (rf M k))" using renamed_subset[OF I(7)] p I(9) by auto
      then have "?p \<notin> set (new_ids (R k))" using grows_fresh[OF idle(1) g, of k] by auto
      moreover have "0 \<le> ?p" using rat_bounds[OF idle(1) k(2)] by simp
      ultimately have "reg_val k r M4 = reg_val k r M"
        using ph[of ?p k] False g by (simp add: reg_val_def rat4 phys4 remap_other grows_def)
      also have "\<dots> = arch (rf M k) ! r"
        using idle(3) k(2) idle(4)[unfolded regs_agree_iff[OF idle(2)]] r by (simp add: holds_def shows_regs_def)
      finally show ?thesis using v False h' by simp
    qed (use v h' in simp)
  qed
  then show ?thesis unfolding regs_agree_iff[OF b] shows_regs_def by blast
qed

lemma renamings_cong:
  assumes "op_inst v = op_inst u" "prf_idx v = prf_idx u" "prev_prf_idx v = prev_prf_idx u" "aux_prf_idx v = aux_prf_idx u"
    "aux_prev_prf_idx v = aux_prev_prf_idx u" "lo_prf_idx v = lo_prf_idx u" "prev_lo_prf_idx v = prev_lo_prf_idx u"
    "hi_prf_idx v = hi_prf_idx u" "prev_hi_prf_idx v = prev_hi_prf_idx u"
  shows "op_renamings op v = op_renamings op u"
  using assms by (auto simp: op_renamings_def op_ids_def split: mips_op.splits)

lemma not_shift_teq: "decode_op w = Inr (Some op) \<Longrightarrow> op \<noteq> Rtype_const_shift Teq"
proof
  assume "decode_op w = Inr (Some op)" "op = Rtype_const_shift Teq"
  then show False by (cases rule: decode_cases) (auto simp: op_tables)
qed

lemma exact_retirable:
  assumes "exact_op op (op_inst u) s" "is_complete u" "(\<exists>t. op = Rtype_alu t \<or> op = Rtype_const_shift t) \<Longrightarrow> \<not> take_trap u"
  shows "retirable S op u M" "op \<noteq> Nop"
  using assms by (cases op; simp add: exact_op_def retirable_def)+

text \<open>
  C1. Where nothing is in flight and the architectural registers agree with the interpreter's, an
  integer instruction that is allocated, executed, completed in the cycle it asked for and retired
  leaves them in agreement with the state after the interpreter's step: the check of the retire stage does not fail.
  The integer instructions meant are those on which core and interpreter agree (\<open>exact_op\<close>, the same as in C2).  Left out are
  \<open>add\<close>, \<open>sub\<close>, \<open>addi\<close> and \<open>maddu\<close>, at which the core stops, and \<open>teq\<close>; an arithmetic operation, constant shift,
  immediate operation or \<open>lui\<close> whose destination is register 0, other than \<open>nop\<close> itself; a division by zero; and the memory, control,
  floating-point and system classes.
\<close>

theorem integer_insn_stays_checked:
  assumes "ren_ok N (\<lambda>_. []) M" "tables_ok M" "64 dvd N GPR" "64 dvd N CPR1" "banks_ok M" "holds M s" "regs_agree M s"
    and "fresh_op u" "decode_op (op_inst u) = Inr (Some op)" "exact_op op (op_inst u) s"
    and "allocate_op op a u M = Inr (u1, M1, True)" "op \<in> {Mtc0, Mfc1} \<Longrightarrow> ready_op op u1 M1 = Inr True"
    and "exec_insn P K (op_inst u) s = Inr s'"
  shows "\<exists>u2 M2 u3 M3 u4 M4. execute_op S op a u1 M1 = Inr (u2, M2) \<and>
    complete_op op u2 (M2\<lparr>curr := complete_cycle u2\<rparr>) = Inr (u3, M3) \<and> retire_op S op u3 M3 = Inr (u4, M4) \<and>
    ren_ok N (\<lambda>_. []) M4 \<and> tables_ok M4 \<and> banks_ok M4 \<and> holds M4 s' \<and> regs_agree M4 s' \<and> sicnt M4 = sicnt M3 + 1"
proof -
  let ?R = "op_renamings op u1"
  have st: "started N (\<lambda>_. []) op s M u u1 M1"
    using assms(1-4) exact_regs[OF assms(10)] assms(6,11) by (rule startedI)
  have g: "grows N (\<lambda>_. []) ?R M M1" "kept u u1" "tables_ok M1"
    using allocate_op_ok[OF assms(1-4) exact_regs[OF assms(10)], of a] assms(11) by (simp_all add: allocates_done)
  have inst: "op_inst u1 = op_inst u" "\<not> is_complete u1" using g(2) assms(8) by (auto simp: kept_def fresh_op_def)
  have nt: "op \<noteq> Rtype_const_shift Teq" by (rule not_shift_teq[OF assms(9)])
  have trap: "\<not> take_trap u1" if "\<exists>t. op = Rtype_alu t \<or> op = Rtype_const_shift t"
    using that rtype_trap[OF assms(11)] assms(8) by (auto simp: fresh_op_def)
  have settled: "settled op u1" using allocate_settled(1)[OF assms(11) _ inst(1)] assms(8) by (simp add: fresh_op_def)
  have nop: "op_inst u = 0 \<Longrightarrow> prf_idx u1 = -1" using settled nop_no_dest[OF assms(9)] inst(1) by (simp add: settled_def)
  obtain u2 M2 where x: "execute_op S op a u1 M1 = Inr (u2, M2)" "holds M2 s'" "ren_ok N ?R M2"
    using exact_refines[OF st assms(9,10,13,12) nop, of S a] by (auto simp: reaches_def)
  have "writes op u1 M1 (execute_op S op a u1 M1)" by (rule int_writes) (use assms(10) inst nt nop in simp_all)
  then obtain c R2 where w: "u2 = u1\<lparr>complete_cycle := c\<rparr>" "M2 = M1\<lparr>rf := R2\<rparr>"
    "\<And>k. \<exists>ph. R2 k = (rf M1 k)\<lparr>phys := ph\<rparr> \<and> (\<forall>p. 0 \<le> p \<longrightarrow> p \<notin> set (new_ids (?R k)) \<longrightarrow> ph ! nat p = phys (rf M1 k) ! nat p)"
    unfolding writes_def x(1) by blast
  have w2: "rat (rf M2 k) = rat (rf M1 k) \<and> rat_retire (rf M2 k) = rat_retire (rf M1 k) \<and> arch (rf M2 k) = arch (rf M1 k) \<and>
    arch_last_pc (rf M2 k) = arch_last_pc (rf M1 k)" for k using w(3)[of k] w(2) by auto
  have ph2: "phys (rf M2 k) ! nat p = phys (rf M1 k) ! nat p" if "0 \<le> p" "p \<notin> set (new_ids (?R k))" for k p
    using w(3)[of k] w(2) that by auto
  let ?M2 = "M2\<lparr>curr := c\<rparr>"
  have R2: "op_renamings op u2 = ?R" by (rule renamings_cong) (simp_all add: w(1))
  have c1: "ren_ok N (\<lambda>j. op_renamings op u2 j @ []) ?M2" using x(3) by (simp add: R2 ren_ok_def)
  have c2: "completes u2 ?M2" using inst(2) by (simp add: completes_def w(1))
  have e2: "exact_op op (op_inst u2) s" using assms(10) inst(1) w(1) by simp
  obtain M3 where M3: "complete_op op u2 ?M2 = Inr (u2\<lparr>is_complete := True\<rparr>, M3)" "ren_ok N (\<lambda>j. op_renamings op u2 j @ []) M3"
    "only_valid ?M2 M3" using int_completes_ok[OF c1 c2 e2 nt] nop inst(1) w(1) by (auto simp: becomes_complete_def)
  let ?u3 = "u2\<lparr>is_complete := True\<rparr>"
  have v3: "phys (rf M3 k) = phys (rf M2 k) \<and> rat (rf M3 k) = rat (rf M2 k) \<and> rat_retire (rf M3 k) = rat_retire (rf M2 k) \<and>
    arch (rf M3 k) = arch (rf M2 k) \<and> arch_last_pc (rf M3 k) = arch_last_pc (rf M2 k)" for k
  proof -
    obtain R3 where "M3 = ?M2\<lparr>rf := R3\<rparr>" "\<exists>v. R3 k = (rf ?M2 k)\<lparr>valid := v\<rparr>" using M3(3) by (auto simp: only_valid_def)
    then show ?thesis by auto
  qed
  have R3: "op_renamings op ?u3 = ?R" by (rule renamings_cong) (simp_all add: w(1))
  have "tables_ok M3" using M3(3) g(3) w(2) by (auto simp: only_valid_def tables_ok_def)
  moreover have "banks_ok M3" using assms(5) g(1) w2 v3 by (simp add: banks_ok_def grows_def)
  moreover have "settled op ?u3" using settled w(1) by (simp add: settled_def)
  moreover have "retirable S op ?u3 M3" "op \<noteq> Nop"
    using exact_retirable(1)[of op ?u3 s S M3] exact_retirable(2)[of op ?u3 s] e2 trap w(1) by simp_all
  moreover have "ren_ok N (\<lambda>j. op_renamings op ?u3 j @ []) M3" using M3(2) R2 R3 by simp
  ultimately obtain u4 M4 where M4: "retire_op S op ?u3 M3 = Inr (u4, M4)" "commits N ?R (\<lambda>_. []) M3 M4" "sicnt M4 = sicnt M3 + 1" "tables_ok M4"
    using retire_op_ok[of N op ?u3 "\<lambda>_. []" M3 S] unfolding R3 by (auto simp: retires_def)
  have "reg_val k r M4 = reg_val k r M2" for k r using M4(2) v3[of k] by (simp add: commits_def reg_val_def)
  then have h: "holds M4 s'" using x(2) by (simp add: holds_def)
  have "regs_agree M4 s'"
    by (rule agree_after[OF assms(1,5,6,7) g(1) _ _ M4(2) h]) (use v3 w2 ph2 in simp_all)
  with x(1) M3(1) M4 h show ?thesis using w(1) unfolding commits_def by auto
qed

theorem integer_insn_stays_checked_witness:
  "\<exists>M u1 M1 u2 M2 u3 M3 u4 M4. holds M sample_state \<and> allocate_op (Rtype_alu Addu) 7 (sample_op sample_addu) M = Inr (u1, M1, True) \<and>
     execute_op (default_param sample_params (\<lambda>h w. h)) (Rtype_alu Addu) 7 u1 M1 = Inr (u2, M2) \<and>
     complete_op (Rtype_alu Addu) u2 (M2\<lparr>curr := complete_cycle u2\<rparr>) = Inr (u3, M3) \<and>
     retire_op (default_param sample_params (\<lambda>h w. h)) (Rtype_alu Addu) u3 M3 = Inr (u4, M4) \<and>
     regs_agree M4 (next_insn (set_gpr 3 0x12346679 sample_state))"
proof -
  let ?w = sample_addu and ?op = "Rtype_alu Addu"
  have w: "rd_of ?w = 3" "rs_of ?w = 4" "rt_of ?w = 5" "decode_op ?w = Inr (Some ?op)" "opcode_of ?w = 0" "funct_of ?w = 0x21"
    by code_simp+
  obtain M u1 M1 where s: "ren_ok (num_prf default_sizes) (\<lambda>_. []) M" "tables_ok M" "banks_ok M" "holds M sample_state"
    "shows_regs M sample_state" "allocate_op ?op 7 (sample_op ?w) M = Inr (u1, M1, True)" by (rule sample_started)
  have r: "regs_agree M sample_state" using s(5) by (simp add: regs_agree_iff[OF s(3)])
  have d: "decode_op (op_inst (sample_op ?w)) = Inr (Some ?op)" using w by simp
  have x: "exact_op ?op (op_inst (sample_op ?w)) sample_state" using w by (simp add: exact_op_def)
  have f: "fresh_op (sample_op ?w)" unfolding sample_op_def by (rule fresh_new)
  have m: "?op \<in> {Mtc0, Mfc1} \<Longrightarrow> ready_op ?op u1 M1 = Inr True" by simp
  have e: "exec_insn sample_params Inr (op_inst (sample_op ?w)) sample_state = Inr (next_insn (set_gpr 3 0x12346679 sample_state))"
    using w by (simp add: exec_opcode0 execRType_def rtype_alu_def alu_def Let_def sample_facts)
  from integer_insn_stays_checked[OF s(1,2) sample_prf s(3,4) r f d x s(6) m e] s(4,6) show ?thesis by blast
qed

end
