(* ===== verification/Core_Restart.thy ===== *)
theory Core_Restart
  imports Pipeline_Properties
begin

text \<open>
  The restart of the core after a wrong prediction or a load that came too early: who owns the
  descriptors, and the state from which fetch goes on.
\<close>

section \<open>Ownership of descriptors\<close>

text \<open>The addresses in a table; the three queues; what else is held, as \<open>xs\<close>.\<close>

definition live :: "nat option list \<Rightarrow> nat list" where
  "live ps = map the (filter (\<lambda>p. p \<noteq> None) ps)"

definition in_pipe :: "sim_state \<Rightarrow> nat list" where
  "in_pipe M = live (q_data (rob M)) @ live (q_data (fetch_queue M)) @ live (q_data (decode_queue M))"

definition owned :: "nat list \<Rightarrow> sim_state \<Rightarrow> bool" where
  "owned xs M \<longleftrightarrow> distinct (xs @ in_pipe M) \<and> dom (ops M) = set (xs @ in_pipe M)"

lemma live_simps [simp]: "live [] = []" "live (None # ps) = live ps" "live (Some a # ps) = a # live ps"
  "live (ps @ qs) = live ps @ live qs"
  by (simp_all add: live_def)

lemma live_None [simp]: "live (map (\<lambda>_. None) ps) = []" "live (replicate n None) = []"
  by (simp_all add: live_def)

lemma set_live: "set (live ps) = {a. Some a \<in> set ps}"
  by (induction ps) (auto simp: live_def)

lemma delete_op_ok: "a \<in> dom (ops M) \<Longrightarrow> delete_op a M = Inr (M\<lparr>ops := (ops M)(a := None)\<rparr>)"
  by (simp add: delete_op_def domIff)

lemma delete_all_Some: "delete_op a M = Inr M1 \<Longrightarrow> delete_all (Some a # ps) M = delete_all ps M1"
  by simp

lemma delete_all_ok:
  assumes "distinct (live ps)" "set (live ps) \<subseteq> dom (ops M)"
  shows "delete_all ps M = Inr (M\<lparr>ops := ops M |` (- set (live ps))\<rparr>)"
  using assms
proof (induction ps arbitrary: M)
  case (Cons p ps)
  show ?case
  proof (cases p)
    case (Some a)
    have a: "a \<in> dom (ops M)" "a \<notin> set (live ps)" "distinct (live ps)" "set (live ps) \<subseteq> dom (ops M)"
      using Cons.prems unfolding Some by simp_all
    have "set (live ps) \<subseteq> dom (ops M) - {a}" using a(2,4) by (simp add: subset_Diff_insert)
    then have "set (live ps) \<subseteq> dom (ops (M\<lparr>ops := (ops M)(a := None)\<rparr>))" by simp
    note IH = Cons.IH[OF a(3) this]
    show ?thesis unfolding Some delete_all_Some[OF delete_op_ok[OF a(1)]] IH using a(2) by (simp add: Compl_insert)
  next
    case None
    then show ?thesis using Cons.IH[of M] Cons.prems by simp
  qed
qed (simp add: restrict_map_def)

section \<open>The registers\<close>

lemma restore_all_ok:
  assumes ok: "ren_ok N F M" and N: "64 dvd N GPR" "64 dvd N CPR1" and h: "copy_bv (spec_bhr M) (bhr M) = Inr h"
  shows "\<exists>R. restore_regs M = Inr (M\<lparr>rf := R, spec_bhr := h\<rparr>) \<and> ren_ok N (\<lambda>_. []) (M\<lparr>rf := R\<rparr>) \<and>
    (\<forall>k. phys (R k) = phys (rf M k) \<and> arch (R k) = arch (rf M k) \<and> arch_last_pc (R k) = arch_last_pc (rf M k) \<and>
       rat (R k) = rat_retire (rf M k) \<and> rat_retire (R k) = rat_retire (rf M k) \<and> used (valid (R k)) = set (rat_retire (rf M k)))"
proof -
  have "\<exists>r1 r'. restore_map (rf M k) = Inr r1 \<and> restore_valid r1 = Inr r' \<and> renaming_inv (arch_count k) (N k) [] r' \<and>
      phys r' = phys (rf M k) \<and> arch r' = arch (rf M k) \<and> arch_last_pc r' = arch_last_pc (rf M k) \<and> rat r' = rat_retire (rf M k) \<and>
      rat_retire r' = rat_retire (rf M k) \<and> used (valid r') = set (rat_retire (rf M k)) \<and>
      used (freevec r1) = set (rat_retire (rf M k)) \<and> wf_vec (N k) (freevec r1)" for k
    using restore_ok[OF ren_okD[OF ok, of k]] by metis
  then obtain R1 R where R: "\<And>k. restore_map (rf M k) = Inr (R1 k)" "\<And>k. restore_valid (R1 k) = Inr (R k)"
    "\<And>k. renaming_inv (arch_count k) (N k) [] (R k)" "\<And>k. phys (R k) = phys (rf M k)" "\<And>k. arch (R k) = arch (rf M k)"
    "\<And>k. arch_last_pc (R k) = arch_last_pc (rf M k)" "\<And>k. rat (R k) = rat_retire (rf M k)" "\<And>k. rat_retire (R k) = rat_retire (rf M k)"
    "\<And>k. used (valid (R k)) = set (rat_retire (rf M k))" "\<And>k. used (freevec (R1 k)) = set (rat_retire (rf M k))"
    "\<And>k. wf_vec (N k) (freevec (R1 k))" by metis
  have pop: "popcount (freevec (R1 k)) = Inr (arch_count k)" if "64 dvd N k" for k
  proof -
    note I = renaming_invD[OF ren_okD[OF ok, of k]]
    have "card (used_bits (freevec (R1 k))) = card (used (freevec (R1 k)))" unfolding used_def by (rule card_image[symmetric]) simp
    also have "\<dots> = arch_count k" using R(10)[of k] distinct_card[of "rat_retire (rf M k)"] I(1,8) by simp
    finally show ?thesis using R(11)[of k] that popcount_wf[of "freevec (R1 k)"] by (simp add: wf_vec_def)
  qed
  have u1: "(rf M)(GPR := R1 GPR, CPR0 := R1 CPR0, CPR1 := R1 CPR1, FCR1 := R1 FCR1) = R1"
    and u2: "R1(GPR := R GPR, CPR0 := R CPR0, CPR1 := R CPR1, FCR1 := R FCR1) = R"
    by (rule ext; case_tac x; simp)+
  have "restore_regs M = Inr (M\<lparr>rf := R, spec_bhr := h\<rparr>)"
    unfolding restore_regs_def on_rf_def Let_def using R(1,2) pop[OF N(1)] pop[OF N(2)] h u1 u2 by simp
  moreover have "ren_ok N (\<lambda>_. []) (M\<lparr>rf := R\<rparr>)" using R(3) by (simp add: ren_ok_def)
  ultimately show ?thesis using R(4-9) by blast
qed

text \<open>A register file of an odd size cannot be counted.\<close>

lemma restore_dies:
  assumes ok: "ren_ok N F M" and N: "64 dvd N GPR" "\<not> 64 dvd N CPR1" and h: "copy_bv (spec_bhr M) (bhr M) = Inr h"
  shows "restore_regs M = Inl Die"
proof -
  have "\<exists>r1. restore_map (rf M k) = Inr r1 \<and> card (used_bits (freevec r1)) = arch_count k \<and> wf_vec (N k) (freevec r1)" for k
  proof -
    obtain r1 where r1: "restore_map (rf M k) = Inr r1" "used (freevec r1) = set (rat_retire (rf M k))" "wf_vec (N k) (freevec r1)"
      using restore_ok[OF ren_okD[OF ok, of k]] by metis
    have "card (used_bits (freevec r1)) = card (used (freevec r1))" unfolding used_def by (rule card_image[symmetric]) simp
    then show ?thesis using r1 renaming_invD(1,8)[OF ren_okD[OF ok, of k]] distinct_card[of "rat_retire (rf M k)"] by auto
  qed
  then obtain R1 where R: "\<And>k. restore_map (rf M k) = Inr (R1 k)" "\<And>k. card (used_bits (freevec (R1 k))) = arch_count k"
    "\<And>k. wf_vec (N k) (freevec (R1 k))" by metis
  have "popcount (freevec (R1 GPR)) = Inr 34" using R(2,3)[of GPR] N(1) popcount_wf[of "freevec (R1 GPR)"] by (simp add: wf_vec_def)
  moreover have "popcount (freevec (R1 CPR1)) = Inl Die"
    using R(3)[of CPR1] N(2) by (auto simp: popcount_def wf_vec_def ensure_def) (metis dvd_triv_left)
  moreover have "(rf M)(GPR := R1 GPR, CPR0 := R1 CPR0, CPR1 := R1 CPR1, FCR1 := R1 FCR1) = R1" by (rule ext; case_tac x; simp)
  ultimately show ?thesis unfolding restore_regs_def on_rf_def Let_def using R(1) h by simp
qed

section \<open>The whole restart\<close>

text \<open>\<open>M'\<close> is an idle machine whose mapped registers are those that \<open>M\<close> has retired.\<close>

definition recovers :: "(rfile \<Rightarrow> nat) \<Rightarrow> sim_state \<Rightarrow> sim_state \<Rightarrow> bool" where
  "recovers N M M' \<longleftrightarrow> ren_ok N (\<lambda>_. []) M' \<and> tables_ok M' \<and> idle M' \<and> ops M' = Map.empty \<and> smem M' = smem M \<and> sicnt M' = sicnt M \<and>
     (\<forall>k. phys (rf M' k) = phys (rf M k) \<and> arch (rf M' k) = arch (rf M k) \<and> arch_last_pc (rf M' k) = arch_last_pc (rf M k) \<and>
        rat (rf M' k) = rat_retire (rf M k) \<and> rat_retire (rf M' k) = rat_retire (rf M k) \<and>
        used (valid (rf M' k)) = set (rat_retire (rf M k)))"

lemma clear_table_ok:
  assumes "wf_vec (length t) v"
  shows "clear_table v t = Inr (replicate (length t) None)" "wf_vec (length t) (clear_bv v)"
  using assms wf_clear_bv[of v] by (simp_all add: clear_table_def wf_vec_def)

lemma clear_empty: "empty_q (clear_q q)" "empty_list (clear_list l)"
  by (simp_all add: empty_q_def clear_q_def empty_list_def clear_list_def)

lemma restrict_twice: "(m |` A) |` B = m |` (A \<inter> B)"
  by (rule ext) (simp add: restrict_map_def)

lemma end_restart_ok:
  assumes tab: "tables_ok M" and own: "distinct (live (q_data (fetch_queue M)) @ live (q_data (decode_queue M)))"
    "dom (ops M) = set (live (q_data (fetch_queue M)) @ live (q_data (decode_queue M)))"
  shows "\<exists>M'. end_restart M = Inr M' \<and> ops M' = Map.empty \<and> idle M' \<and> tables_ok M' \<and> rf M' = rf M \<and> smem M' = smem M \<and> sicnt M' = sicnt M \<and>
    fetch_pc M' = fetch_pc M \<and> spec_bhr M' = spec_bhr M \<and> bhr M' = bhr M"
proof -
  let ?F = "live (q_data (fetch_queue M))" and ?D = "live (q_data (decode_queue M))"
  let ?M0 = "M\<lparr>rob := clear_q (rob M)\<rparr>"
  let ?M1 = "?M0\<lparr>ops := ops M |` (- set ?F)\<rparr>"
  let ?M2 = "?M0\<lparr>ops := ops M |` (- set ?F \<inter> - set ?D)\<rparr>"
  have d1: "delete_all (q_data (fetch_queue M)) ?M0 = Inr ?M1"
    using delete_all_ok[of "q_data (fetch_queue M)" ?M0] own by simp
  have "set ?D \<subseteq> dom (ops ?M1)" using own by auto
  then have d2: "delete_all (q_data (decode_queue M)) ?M1 = Inr ?M2"
    using delete_all_ok[of "q_data (decode_queue M)" ?M1] own(1) by (simp add: restrict_twice)
  have e: "ops M |` (- set ?F \<inter> - set ?D) = Map.empty" using own(2) by (auto simp: restrict_map_def dom_def fun_eq_iff)
  note lt = clear_table_ok[of "load_tbl M" "load_tbl_freevec M"] clear_table_ok[of "store_tbl M" "store_tbl_freevec M"]
  have w: "wf_vec (length (load_tbl M)) (load_tbl_freevec M)" "wf_vec (length (store_tbl M)) (store_tbl_freevec M)"
    using tab by (simp_all add: tables_ok_def)
  let ?M' = "?M2\<lparr>decode_queue := clear_q (decode_queue M), fetch_queue := clear_q (fetch_queue M), delay_slot_npc := 0,
         alloc_blocked := False, fetch_blocked := False, stations := clear_stations (stations M),
         load_tbl_freevec := clear_bv (load_tbl_freevec M), store_tbl_freevec := clear_bv (store_tbl_freevec M),
         load_tbl := replicate (length (load_tbl M)) None, store_tbl := replicate (length (store_tbl M)) None, nuke := False\<rparr>"
  have "end_restart M = Inr ?M'"
    using d1 d2 lt(1)[OF w(1)] lt(3)[OF w(2)] by (simp add: end_restart_def Let_def)
  moreover have "idle ?M'" by (auto simp: idle_def clear_empty clear_stations_def list_all_iff)
  moreover have "tables_ok ?M'" using lt(2)[OF w(1)] lt(4)[OF w(2)] by (simp add: tables_ok_def)
  ultimately show ?thesis using e by auto
qed

lemma redirect_ok:
  assumes "ops M a = Some u"
  shows "redirect a sl M = Inr (if sl \<or> exc u \<noteq> Branch_exception then M\<lparr>fetch_pc := op_pc u\<rparr>
    else M\<lparr>fetch_pc := correct_pc u, ops := (ops M)(a := None)\<rparr>)"
  using assms by (simp add: redirect_def op_at_def delete_op_def)

text \<open>
  C7. A restart recovers the precise state: with every descriptor in exactly one of the three queues (or,
  for a mispredicted branch that has retired, held by the retire stage), it returns in the same cycle,
  frees every descriptor once, and leaves an idle core whose mapping is the retired one, with those
  registers alone in use and valid and their values unchanged; fetch goes on at the corrected
  address of the branch or at the address of the instruction that is to be repeated.
\<close>

theorem restart_recovers_core:
  assumes "ren_ok N F M" "tables_ok M" "64 dvd N GPR" "64 dvd N CPR1" "copy_bv (spec_bhr M) (bhr M) = Inr h"
    and "ops M a = Some u" "owned (if slot_exc \<or> exc u \<noteq> Branch_exception then [] else [a]) M" "flash_restart S"
  shows "\<exists>M'. restart S a slot_exc (M, s) = Inr (At_end False, M', s) \<and> recovers N M M' \<and> spec_bhr M' = h \<and>
    fetch_pc M' = (if slot_exc \<or> exc u \<noteq> Branch_exception then op_pc u else correct_pc u)"
proof -
  let ?go = "slot_exc \<or> exc u \<noteq> Branch_exception" and ?ps = "q_data (rob M)"
  define T where "T = (if ?go then ops M else (ops M)(a := None))"
  define M2 where "M2 = M\<lparr>nuke := True, fetch_pc := if ?go then op_pc u else correct_pc u, ops := T, l1cache := nuke_inflight (l1cache M)\<rparr>"
  have own: "distinct (in_pipe M)" "dom T = set (in_pipe M)" using assms(7) by (auto simp: owned_def T_def split: if_splits)
  have r: "redirect a slot_exc (M\<lparr>nuke := True\<rparr>) = Inr (M\<lparr>nuke := True, fetch_pc := if ?go then op_pc u else correct_pc u, ops := T\<rparr>)"
    using redirect_ok[of "M\<lparr>nuke := True\<rparr>" a u slot_exc] assms(6) by (auto simp: T_def)
  have d: "delete_all ?ps M2 = Inr (M2\<lparr>ops := T |` (- set (live ?ps))\<rparr>)"
    using delete_all_ok[of ?ps M2] own by (simp add: in_pipe_def M2_def)
  define M3 where "M3 = M2\<lparr>ops := T |` (- set (live ?ps)), rob := (rob M)\<lparr>q_data := map (\<lambda>_. None) ?ps\<rparr>\<rparr>"
  have rob2: "rob M2 = rob M" by (simp add: M2_def)
  have rf3: "rf M3 = rf M" by (simp add: M3_def M2_def)
  have "ren_ok N F M3" "copy_bv (spec_bhr M3) (bhr M3) = Inr h" using assms(1,5) by (simp_all add: ren_ok_def M3_def M2_def)
  from restore_all_ok[OF this(1) assms(3,4) this(2)] obtain R where
    R: "restore_regs M3 = Inr (M3\<lparr>rf := R, spec_bhr := h\<rparr>)" "ren_ok N (\<lambda>_. []) (M3\<lparr>rf := R\<rparr>)"
      "\<forall>k. phys (R k) = phys (rf M k) \<and> arch (R k) = arch (rf M k) \<and> arch_last_pc (R k) = arch_last_pc (rf M k) \<and>
       rat (R k) = rat_retire (rf M k) \<and> rat_retire (R k) = rat_retire (rf M k) \<and> used (valid (R k)) = set (rat_retire (rf M k))"
    unfolding rf3 by blast
  define M4 where "M4 = M3\<lparr>rf := R, spec_bhr := h\<rparr>"
  have f4: "fetch_queue M4 = fetch_queue M" "decode_queue M4 = decode_queue M" "ops M4 = T |` (- set (live ?ps))" "tables_ok M4"
    "rf M4 = R" "smem M4 = smem M" "sicnt M4 = sicnt M" "fetch_pc M4 = (if ?go then op_pc u else correct_pc u)" "spec_bhr M4 = h"
    using assms(2) by (simp_all add: M4_def M3_def M2_def tables_ok_def)
  have "distinct (live (q_data (fetch_queue M4)) @ live (q_data (decode_queue M4)))" using own(1) by (simp add: in_pipe_def f4)
  moreover have "dom (ops M4) = set (live (q_data (fetch_queue M4)) @ live (q_data (decode_queue M4)))"
    using own by (auto simp: f4 in_pipe_def)
  ultimately obtain M' where M': "end_restart M4 = Inr M'" "ops M' = Map.empty" "idle M'" "tables_ok M'" "rf M' = R" "smem M' = smem M"
    "sicnt M' = sicnt M" "fetch_pc M' = (if ?go then op_pc u else correct_pc u)" "spec_bhr M' = h"
    using end_restart_ok[OF f4(4)] f4 by auto
  have "restart S a slot_exc (M, s) = Inr (At_end False, M', s)"
    using r d R(1) M'(1) assms(8) by (simp add: restart_def Let_def rob2 M2_def[symmetric] M3_def[symmetric] M4_def[symmetric])
  moreover have "ren_ok N (\<lambda>_. []) M'" using R(2) M'(5) by (simp add: ren_ok_def)
  ultimately show ?thesis using M' R(3) by (auto simp: recovers_def)
qed

text \<open>A mispredicted branch has retired from an otherwise empty core.\<close>

lemma blank_in_pipe: "blank M \<Longrightarrow> in_pipe M = []"
proof -
  have "live ps = []" if "set ps \<subseteq> {None}" for ps :: "nat option list" using that by (induction ps) (auto simp: live_def)
  then show "blank M \<Longrightarrow> in_pipe M = []" by (simp add: blank_def in_pipe_def)
qed

theorem restart_recovers_core_witness:
  "\<exists>M M'. restart (default_param sample_params (\<lambda>h w. h)) 7 False (M, sample_state) = Inr (At_end False, M', sample_state) \<and>
     recovers (num_prf default_sizes) M M' \<and> fetch_pc M' = 0x200"
proof -
  obtain M where M: "ren_ok (num_prf default_sizes) (\<lambda>_. []) M" "tables_ok M" "blank M" by (rule sample_start)
  define u where "u = (sample_op 0)\<lparr>exc := Branch_exception, correct_pc := 0x200\<rparr>"
  define M1 where "M1 = M\<lparr>ops := [7 \<mapsto> u]\<rparr>"
  have u: "exc u = Branch_exception" "correct_pc u = 0x200" by (simp_all add: u_def)
  have "ren_ok (num_prf default_sizes) (\<lambda>_. []) M1" "tables_ok M1" "ops M1 7 = Some u"
    using M by (simp_all add: M1_def ren_ok_def tables_ok_def)
  moreover have "copy_bv (spec_bhr M1) (bhr M1) = Inr ((spec_bhr M)\<lparr>arr := arr (bhr M)\<rparr>)"
    using M(3) by (simp add: M1_def blank_def copy_bv_def)
  moreover have "in_pipe M1 = []" using blank_in_pipe[OF M(3)] by (simp add: M1_def in_pipe_def)
  then have "owned (if False \<or> exc u \<noteq> Branch_exception then [] else [7]) M1" by (simp add: u owned_def) (simp add: M1_def)
  moreover have "flash_restart (default_param sample_params (\<lambda>h w. h))" by (simp add: default_param_def)
  ultimately obtain M' where "restart (default_param sample_params (\<lambda>h w. h)) 7 False (M1, sample_state) = Inr (At_end False, M', sample_state)"
    "recovers (num_prf default_sizes) M1 M'" "fetch_pc M' = 0x200"
    using restart_recovers_core[OF _ _ sample_prf, of "\<lambda>_. []" M1 _ 7 u False "default_param sample_params (\<lambda>h w. h)" sample_state] u by auto
  then show ?thesis by blast
qed

end
