(* ===== verification/Op_Control.thy ===== *)
theory Op_Control
  imports Op_Refine_Special Rename_Properties
begin

text \<open>
  Branches and jumps of the core against the interpreter: the address the core resolves is the one the
  interpreter continues at, and the exception is raised where fetch took another path.
\<close>

section \<open>The interpreter\<close>

text \<open>The instruction in the delay slot is not itself a branch.\<close>

definition plain_slot :: "(state \<Rightarrow> state res) \<Rightarrow> bool" where
  "plain_slot K \<longleftrightarrow> (\<forall>t t'. K t = Inr t' \<longrightarrow> pc t' = pc t + 4)"

lemma plain_slotD: "plain_slot K \<Longrightarrow> K t = Inr t' \<Longrightarrow> pc t' = pc t + 4"
  by (simp add: plain_slot_def)

lemma exec_branch:
  assumes "decode_op w = Inr (Some (Branch bt))"
  shows "exec_insn P K w s = branch bt K w s"
  using assms
proof (cases rule: decode_cases)
  case cp1
  then show ?thesis by (auto simp: exec_insn_def getInsnType_def execCoproc1_def Let_def op_table_cp1_def fmt_of_def)
next
  case regimm
  then show ?thesis by (auto simp: exec_insn_def getInsnType_def execIType_def itype_branch_def bgez_bltz_def Let_def)
next
  case itype
  then have "exec_insn P K w s = execIType P K w s" by (intro exec_itype) (auto simp: op_table_itype_def)
  then show ?thesis using itype by (auto simp: execIType_def itype_branch_def Let_def op_table_itype_def)
qed (auto simp: op_tables)

lemma branch_pc:
  assumes "branch bt K w s = Inr t" "plain_slot K"
  shows "pc t = (if branch_taken bt w s then get_branch_target (pc s) w else pc s + 8)"
proof -
  have u: "pc (upd_hist i f s) = pc s" for i f s by (simp add: upd_hist_def)
  have g: "push_bit 2 (simm w) + (pc s + 4) = get_branch_target (pc s) w" by (simp add: get_branch_target_def)
  show ?thesis
    using assms(1) unfolding branch_def Let_def g
    by (cases "is_likely bt"; cases "branch_taken bt w s")
      (auto simp: rbind_Inr_iff u next_insn_def dest!: plain_slotD[OF assms(2)])
qed

text \<open>The address a jump leads to, and its link.\<close>

definition jump_to :: "jump_type \<Rightarrow> u32 \<Rightarrow> state \<Rightarrow> u32" where
  "jump_to jt w s = (if jt \<in> {Jr, Jalr} then gpr s (rs_of w) else ((pc s + 4) AND NOT (mask 28)) OR push_bit 2 (w AND mask 26))"

fun linked :: "mips_op \<Rightarrow> state \<Rightarrow> state" where
  "linked (Jump jt) s = (if jt \<in> {Jal, Jalr} then set_gpr 31 (pc s + 8) s else s)"
| "linked _ s = s"

lemma jump_pc:
  assumes "decode_op w = Inr (Some (Jump jt))" "exec_insn P K w s = Inr t"
  shows "pc t = jump_to jt w s"
  using assms(1)
proof (cases rule: decode_cases)
  case rtype
  then have f: "jt = Jr \<and> funct_of w = 8 \<or> jt = Jalr \<and> funct_of w = 9" by (auto simp: op_table_rtype_def)
  then obtain b where "jump_reg b K w s = Inr t"
    using assms(2) rtype(1) by (auto simp: exec_opcode0 execRType_def rtype_shift_def Let_def)
  then show ?thesis using f by (auto simp: jump_reg_def jump_to_def Let_def rbind_Inr_iff)
next
  case jump
  have u: "pc (upd_hist i f s) = pc s" for i f s by (simp add: upd_hist_def)
  have "execJType K w s = Inr t" using assms(2) jump by (auto simp: exec_insn_def getInsnType_def)
  then show ?thesis using jump
    by (auto simp: execJType_def jump_to_def Let_def rbind_Inr_iff next_insn_def set_gpr_def or.commute u)
qed (auto simp: op_tables)

section \<open>The core\<close>

lemma condition_bit: "getConditionCode s c = 1 \<longleftrightarrow> getConditionCode s c \<noteq> 0"
proof -
  have "x AND 1 = 0 \<or> x AND 1 = 1" for x :: u32 by (simp add: and_one_eq mod2_eq_if)
  then show ?thesis unfolding getConditionCode_def by (metis zero_neq_one)
qed

lemma execute_branch:
  assumes st: "started N F (Branch bt) s M u u1 M1"
  shows "branch_cond bt u1 M1 = Inr (branch_taken bt (op_inst u) s)"
proof -
  let ?w = "op_inst u"
  have i: "op_inst u1 = ?w" using started_inst[OF st] by simp
  note src = started_src[OF st]
  show ?thesis
  proof (cases "is_fp_branch bt")
    case True
    then have "src_val FCR1 0 u1 M1 = Inr (fcr1 s 2)" using src[of 0 FCR1 2] by simp
    then show ?thesis using True by (auto simp: branch_cond_def branch_taken_def is_fp_branch_def i Let_def getCC_interp condition_bit)
  next
    case False
    then have a: "src_val GPR 0 u1 M1 = Inr (gpr s (rs_of ?w))" using src[of 0 GPR "rs_of ?w"] reg_less[of ?w] by auto
    have b: "branch_two bt \<Longrightarrow> src_val GPR 1 u1 M1 = Inr (gpr s (rt_of ?w))"
      using src[of 1 GPR "rt_of ?w"] False reg_less[of ?w] by auto
    show ?thesis using False a b
      by (cases bt) (auto simp: branch_cond_def branch_taken_def is_fp_branch_def branch_two_def word_sless_sint Let_def)
  qed
qed

text \<open>Fetch has gone on elsewhere than at \<open>npc\<close>.\<close>

fun wrong_path :: "mips_op \<Rightarrow> mips_meta_op \<Rightarrow> state \<Rightarrow> u32 \<Rightarrow> bool" where
  "wrong_path (Branch bt) u s npc \<longleftrightarrow> predict_taken u \<noteq> branch_taken bt (op_inst u) s \<or>
     is_likely bt \<and> \<not> branch_taken bt (op_inst u) s \<and> fetch_npc u \<noteq> npc"
| "wrong_path op u s npc \<longleftrightarrow> fetch_npc u \<noteq> npc"

definition resolves :: "(rfile \<Rightarrow> nat) \<Rightarrow> (rfile \<Rightarrow> renaming list) \<Rightarrow> mips_op \<Rightarrow> mips_meta_op \<Rightarrow> state \<Rightarrow> u32 \<Rightarrow>
    (mips_meta_op \<times> sim_state) res \<Rightarrow> bool" where
  "resolves N F op u s npc x \<longleftrightarrow> (\<exists>u2 M2. x = Inr (u2, M2) \<and> correct_pc u2 = npc \<and> (exc u2 = Branch_exception \<longleftrightarrow> wrong_path op u s npc) \<and>
     holds M2 (linked op s) \<and> ren_ok N F M2 \<and> (\<forall>bt. op = Branch bt \<longrightarrow> has_delay_slot u2 = (is_likely bt \<longrightarrow> branch_taken bt (op_inst u) s)))"

lemma branch_resolves:
  assumes st: "started N F (Branch bt) s M u u1 M1" and u: "br_target u = get_branch_target (op_pc u) (op_inst u)" "exc u = No_exception" "pc s = op_pc u"
    and ex: "branch bt K (op_inst u) s = Inr s'" "plain_slot K"
  shows "resolves N (\<lambda>k. F k @ op_renamings (Branch bt) u1 k) (Branch bt) u s (pc s') (branch_execute bt u1 M1)"
proof -
  have k: "kept u u1" and g: "grows N F (op_renamings (Branch bt) u1) M M1" using st by (simp_all add: started_def)
  have r: "op_renamings (Branch bt) u1 = (\<lambda>_. [])" by (simp add: op_renamings_def fun_eq_iff)
  have h: "holds M1 s" using st g unfolding r by (auto simp: started_def holds_def reg_val_def grows_def)
  have h2: "holds (M1\<lparr>alloc_blocked := b\<rparr>) s" "ren_ok N F' (M1\<lparr>alloc_blocked := b\<rparr>) = ren_ok N F' M1" for b F'
    using h by (simp_all add: holds_def reg_val_def ren_ok_def)
  have ok: "ren_ok N (\<lambda>k. F k @ op_renamings (Branch bt) u1 k) M1" using g by (simp add: grows_def)
  have l: "is_likely_op bt = is_likely bt" by (auto simp: is_likely_op_def is_likely_def)
  have p: "pc s' = (if branch_taken bt (op_inst u) s then br_target u else op_pc u + 8)" using branch_pc[OF ex] u by simp
  show ?thesis
    unfolding resolves_def branch_execute_def execute_branch[OF st] rbind_simps Let_def l
    using k u(2) h h2 ok p
    by (cases "branch_taken bt (op_inst u) s"; cases "is_likely bt"; cases "predict_taken u"; cases "fetch_npc u = op_pc u + 8")
      (simp_all add: kept_def finish_in_def)
qed

lemma jump_resolves:
  assumes st: "started N F (Jump jt) s M u u1 M1" and u: "exc u = No_exception" "pc s = op_pc u"
    and p: "pc s' = jump_to jt (op_inst u) s"
  shows "resolves N (\<lambda>k. F k @ op_renamings (Jump jt) u1 k) (Jump jt) u s (pc s') (jump_execute jt u1 M1)"
proof -
  let ?F = "\<lambda>k. F k @ op_renamings (Jump jt) u1 k"
  have k: "kept u u1" and g: "grows N F (op_renamings (Jump jt) u1) M M1" using st by (simp_all add: started_def)
  have t: "jump_target jt u1 M1 = Inr (pc s')"
    using started_src[OF st, of 0 GPR "rs_of (op_inst u)"] reg_less[of "op_inst u"] k u(2) p
    by (auto simp: jump_target_def jump_to_def kept_def)
  define v where "v = (if fetch_npc u1 \<noteq> pc s' then u1\<lparr>correct_pc := pc s', exc := Branch_exception\<rparr> else u1\<lparr>correct_pc := pc s'\<rparr>)"
  have v: "prf_idx v = prf_idx u1" "correct_pc v = pc s'" "exc v = Branch_exception \<longleftrightarrow> fetch_npc u \<noteq> pc s'" "op_pc v = op_pc u"
    using k u(1) by (simp_all add: v_def kept_def)
  have e: "jump_execute jt u1 M1 = (if jump_dest jt \<noteq> -1 then result GPR (op_pc v + 8) 1 v M1 else Inr (finish_in 1 v M1, M1))"
    by (simp add: jump_execute_def t Let_def v_def)
  show ?thesis
  proof (cases "jt \<in> {Jal, Jalr}")
    case True
    then have d: "op_dests (Jump jt) (op_inst u) = [(GPR, 31)]" "jump_dest jt \<noteq> -1" "linked (Jump jt) s = set_gpr 31 (op_pc v + 8) s"
      using u(2) v(4) by (auto simp: jump_dest_def)
    have "reaches N ?F (smem M) (linked (Jump jt) s) (result GPR (op_pc v + 8) 1 u1 M1)"
      by (rule started_result[OF st d(1)]) (use True u(2) v(4) in auto)
    then obtain M2 where M2: "on_rf GPR (write_prf (prf_idx u1) (op_pc v + 8)) M1 = Inr M2" "holds M2 (linked (Jump jt) s)" "ren_ok N ?F M2"
      by (auto simp: reaches_def result_def rbind_Inr_iff)
    then show ?thesis using d(2) v by (simp add: resolves_def e result_def finish_in_def)
  next
    case False
    then have r: "op_renamings (Jump jt) u1 = (\<lambda>_. [])" "jump_dest jt = -1" "linked (Jump jt) s = s"
      by (auto simp: op_renamings_def fun_eq_iff jump_dest_def)
    have "holds M1 s" using st g unfolding r(1) by (auto simp: started_def holds_def reg_val_def grows_def)
    moreover have "ren_ok N ?F M1" using g by (simp add: grows_def)
    ultimately show ?thesis using r(2,3) v by (simp add: resolves_def e finish_in_def)
  qed
qed

text \<open>What the constructor of the class has put into the descriptor.\<close>

lemma decoded:
  assumes "decode_insn u0 = Inr u" "mop u0 = None" "mop u = Some op"
  shows "decode_op (op_inst u) = Inr (Some op)" "op_inst u = op_inst u0" "op_pc u = op_pc u0" "exc u = exc u0"
    "\<And>bt. op = Branch bt \<Longrightarrow> br_target u = get_branch_target (op_pc u) (op_inst u)"
proof -
  have "op' = op" if "mop (construct op' u0) = Some op" for op' using that by (cases op') (auto simp: construct_def Let_def)
  then have c: "decode_op (op_inst u0) = Inr (Some op)" "u = construct op u0"
    using assms by (auto simp: decode_insn_def rbind_Inr_iff split: option.split_asm)
  then show "decode_op (op_inst u) = Inr (Some op)" "op_inst u = op_inst u0" "op_pc u = op_pc u0" "exc u = exc u0"
    by (cases op; simp add: construct_def Let_def)+
  show "br_target u = get_branch_target (op_pc u) (op_inst u)" if "op = Branch bt" for bt
    using c(2) that by (simp add: construct_def Let_def get_branch_target_def)
qed

text \<open>
  C6. Control flow is resolved as the interpreter resolves it: a branch or jump that is decoded, allocated and executed
  where the mapped registers are the interpreter's finds the address at which the interpreter
  continues; it raises the exception exactly when fetch has gone on elsewhere, keeps the delay slot
  exactly when the interpreter executes it, and leaves the registers unchanged but for the link.
\<close>

theorem control_flow_resolved:
  assumes "ren_ok N F M" "tables_ok M" "64 dvd N GPR" "64 dvd N CPR1" "holds M s"
    and "decode_insn u0 = Inr u" "mop u0 = None" "mop u = Some op" "op = Jump jt \<or> op = Branch bt" "exc u0 = No_exception" "pc s = op_pc u"
    and "allocate_op op a u M = Inr (u1, M1, True)" "exec_insn P K (op_inst u) s = Inr s'" "plain_slot K"
  shows "\<exists>u2 M2. execute_op S op a u1 M1 = Inr (u2, M2) \<and> correct_pc u2 = pc s' \<and> (exc u2 = Branch_exception \<longleftrightarrow> wrong_path op u s (pc s')) \<and>
    holds M2 (linked op s) \<and> ren_ok N (\<lambda>k. F k @ op_renamings op u1 k) M2 \<and>
    (\<forall>bt. op = Branch bt \<longrightarrow> has_delay_slot u2 = (is_likely bt \<longrightarrow> branch_taken bt (op_inst u) s))"
proof -
  note d = decoded[OF assms(6-8)]
  have e: "exc u = No_exception" using d(4) assms(10) by simp
  have ok: "regs_ok op (op_inst u)" using assms(9) reg_less34 by (auto simp: regs_ok_def)
  have st: "started N F op s M u u1 M1" by (rule startedI[OF assms(1-4) ok assms(5,12)])
  have "resolves N (\<lambda>k. F k @ op_renamings op u1 k) op u s (pc s') (execute_op S op a u1 M1)"
    using assms(9)
  proof
    assume j: "op = Jump jt"
    show ?thesis using jump_resolves[of N F jt s M u u1 M1 s'] st e assms(11) jump_pc[of "op_inst u" jt P K s s'] d(1) assms(13) j by simp
  next
    assume b: "op = Branch bt"
    then have "branch bt K (op_inst u) s = Inr s'" using exec_branch[of "op_inst u" bt P K s] d(1) assms(13) by simp
    then show ?thesis using branch_resolves[of N F bt s M u u1 M1 K s'] st d(5) e assms(11,14) b by simp
  qed
  then show ?thesis by (simp add: resolves_def)
qed

text \<open>\<open>beq $0, $0, +3\<close> at address 0, predicted not taken.\<close>

theorem control_flow_resolved_witness:
  "\<exists>M u u1 M1 u2 M2. holds M sample_state \<and> decode_insn (new_meta_op 0 0 0x10000003 4 0 False False) = Inr u \<and>
     allocate_op (Branch Beq) 7 u M = Inr (u1, M1, True) \<and>
     execute_op (default_param sample_params (\<lambda>h w. h)) (Branch Beq) 7 u1 M1 = Inr (u2, M2) \<and> correct_pc u2 = 16 \<and> exc u2 = Branch_exception"
proof -
  let ?w = "0x10000003 :: u32"
  obtain M where M: "ren_ok (num_prf default_sizes) (\<lambda>_. []) M" "tables_ok M" "holds M sample_state" by (rule sample_start)
  define u0 where "u0 = new_meta_op 0 0 ?w 4 0 False False"
  define u where "u = construct (Branch Beq) u0"
  have f: "rs_of ?w = 0" "rt_of ?w = 0" "get_branch_target 0 ?w = 16" "decode_op ?w = Inr (Some (Branch Beq))" by code_simp+
  have w: "op_inst u0 = ?w" "op_pc u0 = 0" "mop u0 = None" "exc u0 = No_exception" "predict_taken u0 = False"
    by (simp_all add: u0_def new_meta_op_def)
  have u: "decode_insn u0 = Inr u" "mop u = Some (Branch Beq)" "op_inst u = ?w" "op_pc u = 0" "predict_taken u = False"
    using w f(4) by (simp_all add: decode_insn_def u_def construct_def Let_def)
  obtain u1 where a: "allocate_op (Branch Beq) 7 u M = Inr (u1, M, True)"
    using M(1) by (simp add: branch_allocate_def is_fp_branch_def branch_two_def set_src_ok reg_less34)
  have s: "pc sample_state = op_pc u" "branch_taken Beq ?w sample_state"
    using u(4) by (simp_all add: branch_taken_def f Let_def sample_state_def new_state_def set_gpr_def)
  obtain t where t: "exec_insn sample_params (\<lambda>t. Inr (next_insn t)) ?w sample_state = Inr t"
    by (simp add: exec_branch[OF f(4)] branch_def Let_def is_likely_def s(2))
  have "plain_slot (\<lambda>t. Inr (next_insn t))" by (simp add: plain_slot_def next_insn_def)
  moreover from branch_pc[OF t[unfolded exec_branch[OF f(4)]] this] have p: "pc t = 16" using s f(3) u(4) by simp
  ultimately obtain u2 M2 where "execute_op (default_param sample_params (\<lambda>h w. h)) (Branch Beq) 7 u1 M = Inr (u2, M2)" "correct_pc u2 = 16"
    "exc u2 = Branch_exception \<longleftrightarrow> wrong_path (Branch Beq) u sample_state 16"
    using control_flow_resolved[OF M(1,2) sample_prf M(3) u(1) w(3) u(2) _ w(4) s(1) a, of undefined Beq sample_params "\<lambda>t. Inr (next_insn t)" t
        "default_param sample_params (\<lambda>h w. h)"] t u(3) by auto
  moreover have "wrong_path (Branch Beq) u sample_state 16" using u(3,5) s(2) by simp
  ultimately show ?thesis using M(3) u(1) a unfolding u0_def by blast
qed

end
