(* ===== verification/Op_Memory.thy ===== *)
theory Op_Memory
  imports Op_Pipeline Op_Control
begin

text \<open>
  Loads and stores of the core against the interpreter.  A load computes its address when it executes
  and reads memory when it completes; a store notes address and data when it executes and writes
  memory when it retires.  A load at an address that is not a multiple of its size is marked, and
  leaves the registers alone.
\<close>

section \<open>The interpreter\<close>

lemma exec_memory:
  assumes "(opcode_of w, op) \<in> set op_table_itype" "0x20 \<le> opcode_of w"
  shows "exec_insn P K w s = itype_mem P w s"
  using assms by (subst exec_itype) (auto simp: op_table_itype_def execIType_def Let_def)

definition int_loads :: "load_type set" where
  "int_loads = {Lb, Lbu, Lh, Lhu, Lw, Lwl, Lwr}"

text \<open>The state after a load or a store, whatever it has done to the cache.\<close>

definition after :: "state \<Rightarrow> sparse_mem \<Rightarrow> state \<Rightarrow> bool" where
  "after s m s' \<longleftrightarrow> (\<exists>cs. s' = next_insn (s\<lparr>mem := m, l1d := cs\<rparr>))"

lemma l1d_Inr:
  "l1d_read P a s = Inr t \<Longrightarrow> t = s\<lparr>l1d := l1d t\<rparr>" "l1d_write P a s = Inr t \<Longrightarrow> t = s\<lparr>l1d := l1d t\<rparr>"
  by (auto simp: l1d_read_def l1d_write_def rbind_Inr_iff split: if_split_asm)

lemma load_after_gen:
  assumes "get_with g s (\<lambda>v s1. rbind (l1d_read P a (h v s1)) (\<lambda>s2. Inr (next_insn s2))) = Inr s'"
    and h: "\<And>v m. h v (s\<lparr>mem := m\<rparr>) = (h v s)\<lparr>mem := m\<rparr>"
  shows "\<exists>m v. g (mem s) = Inr (m, v) \<and> after (h v s) m s'"
proof -
  obtain m v t where x: "g (mem s) = Inr (m, v)" "l1d_read P a (h v (s\<lparr>mem := m\<rparr>)) = Inr t" "s' = next_insn t"
    using assms(1) by (auto simp: get_with_def rbind_Inr_iff)
  have "t = (h v s)\<lparr>mem := m, l1d := l1d t\<rparr>" using l1d_Inr(1)[OF x(2)] h by simp
  then have "after (h v s) m s'" unfolding after_def x(3) by (intro exI[of _ "l1d t"] arg_cong[where f = next_insn])
  then show ?thesis using x(1) by blast
qed

lemma load_after:
  assumes "get_with g s (\<lambda>v s1. rbind (l1d_read P a (set_gpr d (f v) s1)) (\<lambda>s2. Inr (next_insn s2))) = Inr s'"
  shows "\<exists>m v. g (mem s) = Inr (m, v) \<and> after (set_gpr d (f v) s) m s'"
  by (rule load_after_gen[OF assms]) (simp add: set_gpr_def)

lemma store_after:
  assumes "put_with p s (\<lambda>s1. rbind (l1d_write P a s1) (\<lambda>s2. Inr (next_insn s2))) = Inr s'"
  shows "\<exists>m. p (mem s) = Inr m \<and> after s m s'"
proof -
  obtain m t where x: "p (mem s) = Inr m" "l1d_write P a (s\<lparr>mem := m\<rparr>) = Inr t" "s' = next_insn t"
    using assms by (auto simp: put_with_def rbind_Inr_iff)
  have "t = s\<lparr>mem := m, l1d := l1d t\<rparr>" using l1d_Inr(2)[OF x(2)] by simp
  then have "after s m s'" unfolding after_def x(3) by (intro exI[of _ "l1d t"] arg_cong[where f = next_insn])
  then show ?thesis using x(1) by blast
qed

lemma itype_memE:
  assumes "itype_mem P w s = Inr s'" "(opcode_of w, Load_op lt) \<in> set op_table_itype"
  shows "lt = Lb \<and> exec_lb P w s = Inr s' \<or> lt = Lh \<and> exec_lh P w s = Inr s' \<or> lt = Lwl \<and> exec_lwl P w s = Inr s' \<or>
    lt = Lw \<and> exec_lw P w s = Inr s' \<or> lt = Lbu \<and> exec_lbu P w s = Inr s' \<or> lt = Lhu \<and> exec_lhu P w s = Inr s' \<or>
    lt = Lwr \<and> exec_lwr P w s = Inr s'"
  using assms by (simp add: op_table_itype_def itype_mem_def Let_def) (elim disjE conjE; simp)

lemma load_value_plain:
  "load_value Lb ea x m = rbind (get8 ea m) (\<lambda>(m1, v). Inr (m1, scast v))"
  "load_value Lbu ea x m = rbind (get8 ea m) (\<lambda>(m1, v). Inr (m1, ucast v))"
  "load_value Lh ea x m = rbind (get16 ea m) (\<lambda>(m1, v). Inr (m1, scast (bswap16 v)))"
  "load_value Lhu ea x m = rbind (get16 ea m) (\<lambda>(m1, v). Inr (m1, ucast (bswap16 v)))"
  "load_value Lw ea x m = rbind (get32 ea m) (\<lambda>(m1, v). Inr (m1, bswap32 v))"
  "load_value Lwl ea x m = rbind (get32 (ea AND 0xfffffffc) m) (\<lambda>(m1, v). Inr (m1, lwl_word ea (bswap32 v) x))"
  "load_value Lwr ea x m = rbind (get32 (ea AND 0xfffffffc) m) (\<lambda>(m1, v). Inr (m1, lwr_word ea (bswap32 v) x))"
  by (simp_all add: load_value_def)

lemma unaligned_load_after:
  "exec_lwl P w s = Inr s' \<Longrightarrow> \<exists>m v. get32 (eff_addr w s AND 0xfffffffc) (mem s) = Inr (m, v) \<and>
     after (set_gpr (rt_of w) (lwl_word (eff_addr w s) (bswap32 v) (gpr s (rt_of w))) s) m s'"
  "exec_lwr P w s = Inr s' \<Longrightarrow> \<exists>m v. get32 (eff_addr w s AND 0xfffffffc) (mem s) = Inr (m, v) \<and>
     after (set_gpr (rt_of w) (lwr_word (eff_addr w s) (bswap32 v) (gpr s (rt_of w))) s) m s'"
  by (rule load_after[of _ _ P "eff_addr w s AND 0xfffffffc" "rt_of w"];
      simp add: exec_lwl_def exec_lwr_def lwl_word_def lwr_word_def Let_def get_with_def cong: if_cong)+

lemma exec_load:
  assumes "decode_op w = Inr (Some (Load_op lt))" "exec_insn P K w s = Inr s'"
  shows "lt \<in> int_loads \<and> (\<exists>m x. load_value lt (eff_addr w s) (gpr s (rt_of w)) (mem s) = Inr (m, x) \<and> after (set_gpr (rt_of w) x s) m s')"
proof -
  have o: "(opcode_of w, Load_op lt) \<in> set op_table_itype" using decode_Itype[OF assms(1)] by blast
  then have "0x20 \<le> opcode_of w" by (auto simp: op_table_itype_def)
  then have "itype_mem P w s = Inr s'" using assms(2) exec_memory[OF o] by simp
  from itype_memE[OF this o] show ?thesis
    by (elim disjE conjE)
      (simp_all add: int_loads_def load_value_plain rbind_Inr_iff,
       auto dest!: load_after unaligned_load_after simp: exec_lb_def exec_lbu_def exec_lh_def exec_lhu_def exec_lw_def Let_def)
qed

lemma exec_fp_load:
  assumes "decode_op w = Inr (Some (Fp_load lt))" "exec_insn P K w s = Inr s'"
  shows "lt = Lwc1 \<and> (\<exists>m v. get32 (eff_addr w s) (mem s) = Inr (m, v) \<and> after (set_s (rt_of w) (bswap32 v) s) m s') \<or>
    lt = Ldc1 \<and> rt_of w + 1 < 32 \<and> (\<exists>m v. get64 (eff_addr w s) (mem s) = Inr (m, v) \<and>
      after (s\<lparr>cpr1 := (cpr1 s)(rt_of w := lo32 (bswap64 v), rt_of w + 1 := hi32 (bswap64 v))\<rparr>) m s')"
proof -
  have o: "(opcode_of w, Fp_load lt) \<in> set op_table_itype" using decode_Itype[OF assms(1)] by blast
  then have "0x20 \<le> opcode_of w" by (auto simp: op_table_itype_def)
  then have "itype_mem P w s = Inr s'" using assms(2) exec_memory[OF o] by simp
  then consider "lt = Lwc1" "exec_lwc1 P w s = Inr s'" | "lt = Ldc1" "exec_ldc1 P w s = Inr s'"
    using o by (simp add: op_table_itype_def itype_mem_def Let_def) (elim disjE conjE; simp)
  then show ?thesis
  proof cases
    case 1
    have "\<exists>m v. get32 (eff_addr w s) (mem s) = Inr (m, v) \<and> after (set_s (rt_of w) (bswap32 v) s) m s'"
      by (rule load_after_gen[where h = "\<lambda>v. set_s (rt_of w) (bswap32 v)"])
        (use 1(2) in \<open>simp add: exec_lwc1_def Let_def\<close>, simp add: set_s_def)
    then show ?thesis using 1(1) by blast
  next
    case 2
    let ?h = "\<lambda>v s. s\<lparr>cpr1 := (cpr1 s)(rt_of w := lo32 (bswap64 v), rt_of w + 1 := hi32 (bswap64 v))\<rparr>"
    have l: "rt_of w + 1 < 32" using 2(2) by (auto simp: exec_ldc1_def get_with_def Let_def rbind_Inr_iff set_d_def ensure_Inr_iff)
    have "\<exists>m v. get64 (eff_addr w s) (mem s) = Inr (m, v) \<and> after (?h v s) m s'"
      by (rule load_after_gen[where h = ?h])
        (use 2(2) l in \<open>simp add: exec_ldc1_def set_d_def ensure_def Let_def\<close>, simp)
    then show ?thesis using 2(1) l by blast
  qed
qed

text \<open>
  The store of the left part shifts a signed word in the core, so it agrees where the data is not
  negative; at an aligned address the interpreter's mask is undefined.
\<close>

definition swl_agrees :: "store_type \<Rightarrow> u32 \<Rightarrow> bool" where
  "swl_agrees st x \<longleftrightarrow> (st = Swl \<longrightarrow> 0 \<le> sint x)"

lemma sar_nonneg: "0 \<le> sint x \<Longrightarrow> sar n (x :: u32) = drop_bit n x"
  using bit_last_iff[of x] by (intro bit_word_eqI) (auto simp: sar_def bit_signed_drop_bit_iff bit_drop_bit_eq dest: bit_imp_le_length)

lemma swl_word_eq:
  assumes "0 \<le> sint x" "8 * (4 - unat (ea AND 3)) < 32"
  shows "swl_word ea x r = (r AND NOT (push_bit (8 * (4 - unat (ea AND 3))) 1 - 1)) OR drop_bit (8 * unat (ea AND 3)) x"
proof -
  have "unat (ea AND 3) < 4" by (simp add: low2)
  then have "unat (ea AND 3) \<in> {1, 2, 3}" using assms(2) by auto
  moreover have "NOT (push_bit 24 1 - 1) = (0xff000000 :: u32)" "NOT (push_bit 16 1 - 1) = (0xffff0000 :: u32)" "NOT (push_bit 8 1 - 1) = (0xffffff00 :: u32)"
    by code_simp+
  ultimately show ?thesis by (auto simp: swl_word_def Let_def sar_nonneg[OF assms(1)] or.commute
        intro!: arg_cong2[where f = "(OR)"] arg_cong2[where f = "(AND)"])
qed

lemma swr_word_eq:
  "swr_word ea x r = push_bit (8 * (3 - unat (ea AND 3))) x OR ((push_bit (8 * (3 - unat (ea AND 3))) 1 - 1) AND r)"
proof -
  have "unat (ea AND 3) < 4" by (simp add: low2)
  then have "unat (ea AND 3) \<in> {0, 1, 2, 3}" by auto
  moreover have "push_bit 24 1 - 1 = (0x00ffffff :: u32)" "push_bit 16 1 - 1 = (0x0000ffff :: u32)" "push_bit 8 1 - 1 = (0xff :: u32)"
    by code_simp+
  ultimately show ?thesis by (auto simp: swr_word_def Let_def mult.commute)
qed

lemma unaligned_store_after:
  "exec_swl P w s = Inr s' \<Longrightarrow> 0 \<le> sint (gpr s (rt_of w)) \<Longrightarrow> \<exists>m. store_write Swl (eff_addr w s) (gpr s (rt_of w)) (mem s) = Inr m \<and> after s m s'"
  "exec_swr P w s = Inr s' \<Longrightarrow> \<exists>m. store_write Swr (eff_addr w s) (gpr s (rt_of w)) (mem s) = Inr m \<and> after s m s'"
proof -
  let ?e = "eff_addr w s" and ?x = "gpr s (rt_of w)"
  have put: "\<exists>m. rbind (get32 (?e AND 0xfffffffc) (mem s)) (\<lambda>(m1, v). set32 (?e AND 0xfffffffc) (bswap32 (h v)) m1) = Inr m \<and> after s m s'"
    if "get_with (get32 (?e AND 0xfffffffc)) s (\<lambda>v s1. put_with (set32 (?e AND 0xfffffffc) (bswap32 (h v))) s1
      (\<lambda>s2. rbind (l1d_write P (?e AND 0xfffffffc) s2) (\<lambda>s3. Inr (next_insn s3)))) = Inr s'" for h
  proof (rule store_after[of _ _ P "?e AND 0xfffffffc"])
    show "put_with (\<lambda>m. rbind (get32 (?e AND 0xfffffffc) m) (\<lambda>(m1, v). set32 (?e AND 0xfffffffc) (bswap32 (h v)) m1)) s
      (\<lambda>s2. rbind (l1d_write P (?e AND 0xfffffffc) s2) (\<lambda>s3. Inr (next_insn s3))) = Inr s'"
      using that by (auto simp: get_with_def put_with_def rbind_Inr_iff)
  qed
  show "exec_swr P w s = Inr s' \<Longrightarrow> \<exists>m. store_write Swr ?e ?x (mem s) = Inr m \<and> after s m s'"
    using put[of "\<lambda>v. swr_word ?e ?x (bswap32 v)"]
    by (simp add: store_write_def exec_swr_def swr_word_eq Let_def get_with_def)
  assume l: "exec_swl P w s = Inr s'" and x: "0 \<le> sint ?x"
  from l have n: "8 * (4 - unat (?e AND 3)) < 32" by (auto simp: exec_swl_def get_with_def rbind_Inr_iff ensure_Inr_iff Let_def)
  show "\<exists>m. store_write Swl ?e ?x (mem s) = Inr m \<and> after s m s'"
    using put[of "\<lambda>v. swl_word ?e ?x (bswap32 v)"] l n
    by (simp add: store_write_def exec_swl_def swl_word_eq[OF x n] ensure_def Let_def get_with_def)
qed

lemma exec_store:
  assumes "decode_op w = Inr (Some (Store_op st))" "exec_insn P K w s = Inr s'" "swl_agrees st (gpr s (rt_of w))"
  shows "\<exists>m. store_write st (eff_addr w s) (gpr s (rt_of w)) (mem s) = Inr m \<and> after s m s'"
proof -
  have o: "(opcode_of w, Store_op st) \<in> set op_table_itype" using decode_Itype[OF assms(1)] by blast
  then have "0x20 \<le> opcode_of w" by (auto simp: op_table_itype_def)
  then have "itype_mem P w s = Inr s'" using assms(2) exec_memory[OF o] by simp
  then have "st = Sb \<and> exec_sb P w s = Inr s' \<or> st = Sh \<and> exec_sh P w s = Inr s' \<or> st = Swl \<and> exec_swl P w s = Inr s' \<or>
    st = Sw \<and> exec_sw P w s = Inr s' \<or> st = Swr \<and> exec_swr P w s = Inr s'"
    using o by (simp add: op_table_itype_def itype_mem_def Let_def) (elim disjE conjE; simp)
  then show ?thesis
    using assms(3) unaligned_store_after[of P w s s']
    by (elim disjE conjE)
      (simp_all add: swl_agrees_def, auto dest!: store_after simp: store_write_def exec_sb_def exec_sh_def exec_sw_def Let_def)
qed

lemma exec_fp_store:
  assumes "decode_op w = Inr (Some (Fp_store st))" "exec_insn P K w s = Inr s'"
  shows "st = Swc1 \<and> (\<exists>m. set32 (eff_addr w s) (bswap32 (cpr1 s (rt_of w))) (mem s) = Inr m \<and> after s m s') \<or>
    st = Sdc1 \<and> rt_of w + 1 < 32 \<and> (\<exists>m. set64 (eff_addr w s) (bswap64 (le64 (cpr1 s (rt_of w)) (cpr1 s (rt_of w + 1)))) (mem s) = Inr m \<and> after s m s')"
proof -
  have o: "(opcode_of w, Fp_store st) \<in> set op_table_itype" using decode_Itype[OF assms(1)] by blast
  then have "0x20 \<le> opcode_of w" by (auto simp: op_table_itype_def)
  then have "itype_mem P w s = Inr s'" using assms(2) exec_memory[OF o] by simp
  then have "st = Swc1 \<and> exec_swc1 P w s = Inr s' \<or> st = Sdc1 \<and> exec_sdc1 P w s = Inr s'"
    using o by (simp add: op_table_itype_def itype_mem_def Let_def) (elim disjE conjE; simp)
  then show ?thesis
    by (elim disjE conjE) (auto dest!: store_after simp: exec_swc1_def exec_sdc1_def get_d_def rbind_Inr_iff ensure_Inr_iff Let_def)
qed

section \<open>Execution in the core\<close>

text \<open>An access of the cache fixes when the operation completes, and changes nothing but the cache.\<close>

definition timed :: "mips_meta_op \<Rightarrow> sim_state \<Rightarrow> (mips_meta_op \<times> sim_state) res \<Rightarrow> bool" where
  "timed u M x \<longleftrightarrow> (l1cache M = [] \<longrightarrow> (\<exists>r. x = Inr r)) \<and>
     (\<forall>u2 M2. x = Inr (u2, M2) \<longrightarrow> (\<exists>y c cs. u2 = u\<lparr>aux_cycle := y, complete_cycle := c\<rparr> \<and> M2 = M\<lparr>l1cache := cs\<rparr>))"

lemma cache_op_timed: "cache_op f S a addr u M = Inr (u2, M2) \<Longrightarrow> \<exists>y c cs. u2 = u\<lparr>aux_cycle := y, complete_cycle := c\<rparr> \<and> M2 = M\<lparr>l1cache := cs\<rparr>"
  by (auto simp: cache_op_def rbind_Inr_iff split: option.split_asm)

lemma finish_timed: "\<exists>y c cs. finish_in lat u M = u\<lparr>aux_cycle := y, complete_cycle := c\<rparr> \<and> M = M\<lparr>l1cache := cs\<rparr>"
  by (rule exI[of _ "aux_cycle u"], rule exI[of _ "curr M + lat"], rule exI[of _ "l1cache M"]) (simp add: finish_in_def)

lemma l1d_timed: "timed u M (l1d_load S a addr u M)" "timed u M (l1d_store S lat a addr u M)"
  using finish_timed[of _ u M] cache_op_timed[of _ S a addr u M]
  by (auto simp: timed_def l1d_load_def l1d_store_def)

lemma load_executes:
  assumes st: "started N F (Load_op lt) s M u u1 M1"
  defines "ea \<equiv> eff_addr (op_inst u) s"
  shows "\<exists>v. timed v M1 (load_execute S lt a u1 M1) \<and> effective_address v = ea \<and> prf_idx v = prf_idx u1 \<and> is_complete v = is_complete u1 \<and>
    (lt \<in> {Lwl, Lwr} \<longrightarrow> prev_value v = gpr s (rt_of (op_inst u))) \<and>
    (load_exception v \<longleftrightarrow> load_exception u1 \<or> lt \<in> {Lh, Lhu} \<and> ea AND 1 \<noteq> 0 \<or> lt = Lw \<and> ea AND 3 \<noteq> 0)"
proof -
  let ?w = "op_inst u"
  have i: "op_inst u1 = ?w" using started_inst[OF st] by simp
  have b: "src_val GPR 0 u1 M1 = Inr (gpr s (rs_of ?w))" using started_src[OF st, of 0 GPR "rs_of ?w"] reg_less[of ?w] by auto
  have x: "lt \<in> {Lwl, Lwr} \<Longrightarrow> src_val GPR 1 u1 M1 = Inr (gpr s (rt_of ?w))"
    using started_src[OF st, of 1 GPR "rt_of ?w"] reg_less[of ?w] by (auto simp: load_src1_def)
  let ?v = "u1\<lparr>effective_address := ea, load_exception := (load_exception u1 \<or>
         (if lt \<in> {Lh, Lhu} then ea AND 1 \<noteq> 0 else if lt = Lw then ea AND 3 \<noteq> 0 else False))\<rparr>"
  let ?v2 = "if load_src1 lt then ?v\<lparr>prev_value := gpr s (rt_of ?w)\<rparr> else ?v"
  have "load_execute S lt a u1 M1 = l1d_load S a (ea AND NOT 3) ?v2 M1"
    using b x by (simp add: load_execute_def i Let_def ea_def eff_addr_def load_src1_def)
  then have "timed ?v2 M1 (load_execute S lt a u1 M1)" using l1d_timed(1) by simp
  moreover have "effective_address ?v2 = ea \<and> prf_idx ?v2 = prf_idx u1 \<and> is_complete ?v2 = is_complete u1 \<and>
    (lt \<in> {Lwl, Lwr} \<longrightarrow> prev_value ?v2 = gpr s (rt_of (op_inst u))) \<and>
    (load_exception ?v2 \<longleftrightarrow> load_exception u1 \<or> lt \<in> {Lh, Lhu} \<and> ea AND 1 \<noteq> 0 \<or> lt = Lw \<and> ea AND 3 \<noteq> 0)"
    by (auto simp: load_src1_def)
  ultimately show ?thesis by blast
qed

lemma fp_load_executes:
  assumes st: "started N F (Fp_load lt) s M u u1 M1" and lt: "lt \<in> {Lwc1, Ldc1}"
  defines "ea \<equiv> eff_addr (op_inst u) s"
  shows "\<exists>v. timed v M1 (fp_load_execute S lt a u1 M1) \<and> effective_address v = ea \<and> prf_idx v = prf_idx u1 \<and> aux_prf_idx v = aux_prf_idx u1 \<and>
    is_complete v = is_complete u1 \<and> (load_exception v \<longleftrightarrow> load_exception u1 \<or> ea AND (if lt = Ldc1 then 7 else 3) \<noteq> 0)"
proof -
  let ?w = "op_inst u"
  have i: "op_inst u1 = ?w" using started_inst[OF st] by simp
  have b: "src_val GPR 0 u1 M1 = Inr (gpr s (rs_of ?w))" using started_src[OF st, of 0 GPR "rs_of ?w"] reg_less[of ?w] by auto
  let ?v = "u1\<lparr>effective_address := ea, load_exception := (load_exception u1 \<or> ea AND (if lt = Ldc1 then 7 else 3) \<noteq> 0)\<rparr>"
  have "fp_load_execute S lt a u1 M1 = l1d_load S a ea ?v M1"
    using b lt by (auto simp: fp_load_execute_def i Let_def ea_def eff_addr_def is_double_load_def)
  then have "timed ?v M1 (fp_load_execute S lt a u1 M1)" using l1d_timed(1) by simp
  then show ?thesis by (intro exI[of _ ?v]) simp
qed

section \<open>Completion of loads\<close>

definition landed :: "(rfile \<Rightarrow> nat) \<Rightarrow> (rfile \<Rightarrow> renaming list) \<Rightarrow> state \<Rightarrow> sim_state \<Rightarrow> sim_state \<Rightarrow> bool" where
  "landed N F s M M3 \<longleftrightarrow> holds M3 s \<and> ren_ok N F M3 \<and> smem M3 = smem M"

lemma on_rf_frame:
  assumes "on_rf k f M = Inr M2" "rf M' = rf M"
  shows "on_rf k f M' = Inr (M'\<lparr>rf := rf M2\<rparr>)"
  using assms by (auto simp: on_rf_def rbind_Inr_iff)

lemma rf_frame: "ren_ok N F M \<Longrightarrow> rf M' = rf M \<Longrightarrow> ren_ok N F M'" "holds M s \<Longrightarrow> rf M' = rf M \<Longrightarrow> holds M' s"
  by (simp_all add: ren_ok_def holds_def reg_val_def)

lemma only_valid_holds: "only_valid M M' \<Longrightarrow> holds M s \<Longrightarrow> holds M' s \<and> smem M' = smem M"
proof -
  assume "only_valid M M'" and h: "holds M s"
  then obtain R where R: "M' = M\<lparr>rf := R\<rparr>" "\<And>k. \<exists>v. R k = (rf M k)\<lparr>valid := v\<rparr>" by (auto simp: only_valid_def)
  have "reg_val k r M' = reg_val k r M" for k r using R(2)[of k] R(1) by (auto simp: reg_val_def)
  then show ?thesis using h R(1) by (simp add: holds_def)
qed

lemma valid_landed:
  assumes "ren_ok N F M" "holds M s" "i \<in> set (new_ids (F k))"
  shows "\<exists>M3. on_rf k (set_valid i) M = Inr M3 \<and> landed N F s M M3"
proof -
  obtain M3 where "on_rf k (set_valid i) M = Inr M3" "ren_ok N F M3" "only_valid M M3"
    using assms(1,3) by (rule set_valid_step)
  then show ?thesis using only_valid_holds[of M M3 s] assms(2) by (auto simp: landed_def)
qed

lemma one_landed:
  assumes st: "started N F op s M u u1 M1" and d: "op_dests op (op_inst u) = [(k, d)]" "\<And>t. op \<noteq> Mult_div t" "d < arch_count k"
    and s': "\<And>j r. r < arch_count j \<Longrightarrow> arch_reg j r s' = (if j = k \<and> r = d then x else arch_reg j r s)" and fr: "rf M' = rf M1"
  shows "\<exists>M3. rbind (on_rf k (write_prf (prf_idx u1) x) M') (on_rf k (set_valid (prf_idx u1))) = Inr M3 \<and>
    landed N (\<lambda>j. F j @ op_renamings op u1 j) s' M' M3"
proof -
  let ?F = "\<lambda>j. F j @ op_renamings op u1 j"
  have "reaches N ?F (smem M) s' (result k x 1 u1 M1)" by (rule started_result[OF st d s'])
  then obtain M2 where M2: "on_rf k (write_prf (prf_idx u1) x) M1 = Inr M2" "holds M2 s'" "ren_ok N ?F M2"
    by (auto simp: reaches_def result_def rbind_Inr_iff)
  let ?M = "M'\<lparr>rf := rf M2\<rparr>"
  have w: "on_rf k (write_prf (prf_idx u1) x) M' = Inr ?M" using M2(1) fr by (rule on_rf_frame)
  have "op_dests op (op_inst u1) = [(k, d)]" using d(1) started_inst[OF st] by simp
  then have "prf_idx u1 \<in> set (new_ids (?F k))" using renamings_single d(2) by (simp add: one_def)
  then obtain M3 where "on_rf k (set_valid (prf_idx u1)) ?M = Inr M3" "landed N ?F s' ?M M3"
    using valid_landed[of N ?F ?M s' "prf_idx u1" k] rf_frame(1)[of N ?F M2 ?M] rf_frame(2)[of M2 s' ?M] M2(2,3) by auto
  then show ?thesis using w by (auto simp: landed_def)
qed

lemma pair_landed:
  assumes st: "started N F (Fp_load Ldc1) s M u u1 M1" and d: "rt_of (op_inst u) + 1 < 32"
    and s': "\<And>j r. r < arch_count j \<Longrightarrow> arch_reg j r s' = (if j = CPR1 \<and> r = rt_of (op_inst u) then x
      else if j = CPR1 \<and> r = rt_of (op_inst u) + 1 then y else arch_reg j r s)" and fr: "rf M' = rf M1"
  shows "\<exists>M3. rbind (on_rf CPR1 (write_prf (prf_idx u1) x) M') (\<lambda>M2. rbind (on_rf CPR1 (write_prf (aux_prf_idx u1) y) M2) (\<lambda>M3.
      rbind (on_rf CPR1 (set_valid (prf_idx u1)) M3) (on_rf CPR1 (set_valid (aux_prf_idx u1))))) = Inr M3 \<and>
    landed N (\<lambda>j. F j @ op_renamings (Fp_load Ldc1) u1 j) s' M' M3"
proof -
  let ?d = "rt_of (op_inst u)" and ?F = "\<lambda>j. F j @ op_renamings (Fp_load Ldc1) u1 j"
  have s: "ren_ok N F M" "holds M s" "grows N F (op_renamings (Fp_load Ldc1) u1) M M1" using st by (simp_all add: started_def)
  have g: "op_renamings (Fp_load Ldc1) u1 = (\<lambda>j. if j = CPR1 then [(?d, prev_prf_idx u1, prf_idx u1), (?d + 1, aux_prev_prf_idx u1, aux_prf_idx u1)] else [])"
    using started_inst[OF st] by (auto simp: op_renamings_def op_ids_def fp_dests_def is_double_load_def fun_eq_iff)
  obtain M2 M3 where M2: "on_rf CPR1 (write_prf (prf_idx u1) x) M1 = Inr M2" and M3: "on_rf CPR1 (write_prf (aux_prf_idx u1) y) M2 = Inr M3"
    "holds M3 s'" "ren_ok N ?F M3"
    using two_results[OF s(1,2) _ _ _ s(3) g, of s' x y] d s' by auto
  let ?M2 = "M'\<lparr>rf := rf M2\<rparr>" and ?M3 = "M'\<lparr>rf := rf M3\<rparr>"
  have w: "on_rf CPR1 (write_prf (prf_idx u1) x) M' = Inr ?M2" using M2 fr by (rule on_rf_frame)
  have w2: "on_rf CPR1 (write_prf (aux_prf_idx u1) y) ?M2 = Inr ?M3" using on_rf_frame[OF M3(1), of ?M2] by simp
  have i: "prf_idx u1 \<in> set (new_ids (?F CPR1))" "aux_prf_idx u1 \<in> set (new_ids (?F CPR1))" using g by simp_all
  have "ren_ok N ?F ?M3" "holds ?M3 s'" by (rule rf_frame(1)[OF M3(3)], simp, rule rf_frame(2)[OF M3(2)], simp)
  from valid_landed[where F = ?F, OF this i(1)] obtain M4 where M4: "on_rf CPR1 (set_valid (prf_idx u1)) ?M3 = Inr M4" "landed N ?F s' ?M3 M4" by blast
  then have "ren_ok N ?F M4" "holds M4 s'" by (simp_all add: landed_def)
  from valid_landed[where F = ?F, OF this i(2)] obtain M5 where M5: "on_rf CPR1 (set_valid (aux_prf_idx u1)) M4 = Inr M5" "landed N ?F s' M4 M5" by blast
  have "landed N ?F s' M' M5" using M4(2) M5(2) by (simp add: landed_def)
  then show ?thesis using w w2 M4(1) M5(1) by simp
qed

definition size_mask :: "load_type \<Rightarrow> u32" where
  "size_mask lt = (if lt \<in> {Lh, Lhu} then 1 else if lt \<in> {Lw, Lwc1} then 3 else if lt = Ldc1 then 7 else 0)"

definition aligned :: "load_type \<Rightarrow> u32 \<Rightarrow> bool" where
  "aligned lt ea \<longleftrightarrow> ea AND size_mask lt = 0"

text \<open>
  What a load that has executed does when its cycle comes: the registers and the memory of \<open>s'\<close> where
  the address is a multiple of the size, and otherwise nothing but the mark.
\<close>

definition load_done :: "(rfile \<Rightarrow> nat) \<Rightarrow> (rfile \<Rightarrow> renaming list) \<Rightarrow> mips_op \<Rightarrow> bool \<Rightarrow> state \<Rightarrow> mips_meta_op \<Rightarrow> sim_state \<Rightarrow> bool" where
  "load_done N F op al s' u2 M2 \<longleftrightarrow> (\<exists>M3. complete_op op u2 (M2\<lparr>curr := complete_cycle u2\<rparr>) = Inr (u2\<lparr>is_complete := True\<rparr>, M3) \<and>
     (load_exception u2 \<longleftrightarrow> \<not> al) \<and>
     (if al then holds M3 s' \<and> ren_ok N F M3 \<and> smem M3 = mem s' else M3 = M2\<lparr>curr := complete_cycle u2\<rparr>))"

lemma after_regs [simp]: "after s m s' \<Longrightarrow> arch_reg j r s' = arch_reg j r s" "after s m s' \<Longrightarrow> mem s' = m"
  by (cases j; auto simp: after_def next_insn_def)+

lemma load_value_prev: "lt \<notin> {Lwl, Lwr} \<Longrightarrow> load_value lt ea x m = load_value lt ea y m"
  by (cases lt) (simp_all add: load_value_def)

lemma complete_now: "\<not> is_complete u2 \<Longrightarrow> complete_with f u2 (M\<lparr>curr := complete_cycle u2\<rparr>) =
    rbind (f (M\<lparr>curr := complete_cycle u2\<rparr>)) (\<lambda>M1. Inr (u2\<lparr>is_complete := True\<rparr>, M1))"
  by (simp add: complete_with_def completes_def)

lemma int_load_done:
  assumes st: "started N F (Load_op lt) s M u u1 M1" and m: "smem M = mem s" and nc: "\<not> is_complete u" "\<not> load_exception u"
    and dec: "decode_op (op_inst u) = Inr (Some (Load_op lt))" and ex: "exec_insn P K (op_inst u) s = Inr s'"
    and x: "load_execute S lt a u1 M1 = Inr (u2, M2)"
  shows "load_done N (\<lambda>j. F j @ op_renamings (Load_op lt) u1 j) (Load_op lt) (aligned lt (eff_addr (op_inst u) s)) s' u2 M2"
proof -
  let ?w = "op_inst u" and ?F = "\<lambda>j. F j @ op_renamings (Load_op lt) u1 j" and ?ea = "eff_addr (op_inst u) s"
  have k: "is_complete u1 = is_complete u" "load_exception u1 = load_exception u" and g: "smem M1 = smem M"
    using st by (simp_all add: started_def kept_def grows_def)
  obtain mm y where l: "lt \<in> int_loads" "load_value lt ?ea (gpr s (rt_of ?w)) (mem s) = Inr (mm, y)" "after (set_gpr (rt_of ?w) y s) mm s'"
    using exec_load[OF dec ex] by blast
  obtain v where v: "timed v M1 (load_execute S lt a u1 M1)" "effective_address v = ?ea" "prf_idx v = prf_idx u1" "is_complete v = is_complete u1"
    "lt \<in> {Lwl, Lwr} \<longrightarrow> prev_value v = gpr s (rt_of ?w)"
    "load_exception v \<longleftrightarrow> load_exception u1 \<or> lt \<in> {Lh, Lhu} \<and> ?ea AND 1 \<noteq> 0 \<or> lt = Lw \<and> ?ea AND 3 \<noteq> 0"
    using load_executes[OF st, of S a] by blast
  obtain z c cs where t: "u2 = v\<lparr>aux_cycle := z, complete_cycle := c\<rparr>" "M2 = M1\<lparr>l1cache := cs\<rparr>" using v(1) x by (auto simp: timed_def)
  have e: "load_exception u2 \<longleftrightarrow> \<not> aligned lt ?ea"
    using v(6) t(1) k nc l(1) by (auto simp: aligned_def size_mask_def int_loads_def)
  have n: "\<not> is_complete u2" using v(4) t(1) k nc by simp
  have f: "effective_address u2 = ?ea" "prf_idx u2 = prf_idx u1" "smem M2 = mem s" using v(2,3) t m g by simp_all
  show ?thesis
  proof (cases "aligned lt ?ea")
    case False
    then show ?thesis using e n by (simp add: load_done_def load_complete_def complete_now)
  next
    case True
    let ?M = "M2\<lparr>curr := complete_cycle u2, smem := mm\<rparr>"
    have "load_value lt ?ea (prev_value u2) (mem s) = Inr (mm, y)"
      using l(2) v(5) t(1) load_value_prev[of lt ?ea "prev_value u2" "mem s" "gpr s (rt_of ?w)"] by (cases "lt \<in> {Lwl, Lwr}") auto
    then have c: "load_complete lt u2 (M2\<lparr>curr := complete_cycle u2\<rparr>) =
        rbind (rbind (on_rf GPR (write_prf (prf_idx u1) y) ?M) (on_rf GPR (set_valid (prf_idx u1)))) (\<lambda>M1. Inr (u2\<lparr>is_complete := True\<rparr>, M1))"
      using e True n f by (simp add: load_complete_def complete_now with_mem_def)
    obtain M3 where "rbind (on_rf GPR (write_prf (prf_idx u1) y) ?M) (on_rf GPR (set_valid (prf_idx u1))) = Inr M3" "landed N ?F s' ?M M3"
      using one_landed[OF st, of GPR "rt_of ?w" s' y ?M] l(3) t(2) reg_less[of ?w] by auto
    then show ?thesis using c e True l(3) by (simp add: load_done_def landed_def)
  qed
qed

lemma fp_load_done:
  assumes st: "started N F (Fp_load lt) s M u u1 M1" and m: "smem M = mem s" and nc: "\<not> is_complete u" "\<not> load_exception u"
    and dec: "decode_op (op_inst u) = Inr (Some (Fp_load lt))" and ex: "exec_insn P K (op_inst u) s = Inr s'"
    and x: "fp_load_execute S lt a u1 M1 = Inr (u2, M2)"
  shows "load_done N (\<lambda>j. F j @ op_renamings (Fp_load lt) u1 j) (Fp_load lt) (aligned lt (eff_addr (op_inst u) s)) s' u2 M2"
proof -
  let ?w = "op_inst u" and ?F = "\<lambda>j. F j @ op_renamings (Fp_load lt) u1 j" and ?ea = "eff_addr (op_inst u) s"
  have k: "is_complete u1 = is_complete u" "load_exception u1 = load_exception u" and g: "smem M1 = smem M"
    using st by (simp_all add: started_def kept_def grows_def)
  note l = exec_fp_load[OF dec ex]
  then have lt: "lt \<in> {Lwc1, Ldc1}" by auto
  obtain v where v: "timed v M1 (fp_load_execute S lt a u1 M1)" "effective_address v = ?ea" "prf_idx v = prf_idx u1" "aux_prf_idx v = aux_prf_idx u1"
    "is_complete v = is_complete u1" "load_exception v \<longleftrightarrow> load_exception u1 \<or> ?ea AND (if lt = Ldc1 then 7 else 3) \<noteq> 0"
    using fp_load_executes[OF st lt, of S a] by blast
  obtain z c cs where t: "u2 = v\<lparr>aux_cycle := z, complete_cycle := c\<rparr>" "M2 = M1\<lparr>l1cache := cs\<rparr>" using v(1) x by (auto simp: timed_def)
  have e: "load_exception u2 \<longleftrightarrow> \<not> aligned lt ?ea"
    using v(6) t(1) k nc lt by (auto simp: aligned_def size_mask_def)
  have n: "\<not> is_complete u2" using v(5) t(1) k nc by simp
  have f: "effective_address u2 = ?ea" "prf_idx u2 = prf_idx u1" "aux_prf_idx u2 = aux_prf_idx u1" "smem M2 = mem s"
    using v(2-4) t m g by simp_all
  show ?thesis
  proof (cases "aligned lt ?ea")
    case False
    then show ?thesis using e n by (simp add: load_done_def fp_load_complete_def complete_now)
  next
    case True
    show ?thesis
      using l
    proof (elim disjE conjE exE)
      fix mm y assume lw: "lt = Lwc1" and y: "get32 ?ea (mem s) = Inr (mm, y)" and a: "after (set_s (rt_of ?w) (bswap32 y) s) mm s'"
      let ?M = "M2\<lparr>curr := complete_cycle u2, smem := mm\<rparr>"
      have c: "fp_load_complete lt u2 (M2\<lparr>curr := complete_cycle u2\<rparr>) =
          rbind (rbind (on_rf CPR1 (write_prf (prf_idx u1) (bswap32 y)) ?M) (on_rf CPR1 (set_valid (prf_idx u1)))) (\<lambda>M1. Inr (u2\<lparr>is_complete := True\<rparr>, M1))"
        using e True n f y lw by (simp add: fp_load_complete_def complete_now with_mem_def is_double_load_def)
      obtain M3 where "rbind (on_rf CPR1 (write_prf (prf_idx u1) (bswap32 y)) ?M) (on_rf CPR1 (set_valid (prf_idx u1))) = Inr M3" "landed N ?F s' ?M M3"
        using one_landed[OF st, of CPR1 "rt_of ?w" s' "bswap32 y" ?M] a t(2) reg_less[of ?w] lw
        by (auto simp: fp_dests_def is_double_load_def)
      then show ?thesis using c e True a by (simp add: load_done_def landed_def)
    next
      fix mm y assume ld: "lt = Ldc1" and d: "rt_of ?w + 1 < 32" and y: "get64 ?ea (mem s) = Inr (mm, y)"
        and a: "after (s\<lparr>cpr1 := (cpr1 s)(rt_of ?w := lo32 (bswap64 y), rt_of ?w + 1 := hi32 (bswap64 y))\<rparr>) mm s'"
      let ?M = "M2\<lparr>curr := complete_cycle u2, smem := mm\<rparr>"
      let ?W = "rbind (on_rf CPR1 (write_prf (prf_idx u1) (lo32 (bswap64 y))) ?M) (\<lambda>M2. rbind (on_rf CPR1 (write_prf (aux_prf_idx u1) (hi32 (bswap64 y))) M2)
        (\<lambda>M3. rbind (on_rf CPR1 (set_valid (prf_idx u1)) M3) (on_rf CPR1 (set_valid (aux_prf_idx u1)))))"
      have c: "fp_load_complete lt u2 (M2\<lparr>curr := complete_cycle u2\<rparr>) = rbind ?W (\<lambda>M1. Inr (u2\<lparr>is_complete := True\<rparr>, M1))"
        using e True n f y ld by (simp add: fp_load_complete_def complete_now with_mem_def is_double_load_def Let_def)
      have s': "arch_reg j r s' = (if j = CPR1 \<and> r = rt_of ?w then lo32 (bswap64 y) else if j = CPR1 \<and> r = rt_of ?w + 1 then hi32 (bswap64 y)
        else arch_reg j r s)" for j r unfolding after_regs(1)[OF a] by (cases j) auto
      obtain M3 where "?W = Inr M3" "landed N ?F s' ?M M3"
        using pair_landed[OF st[unfolded ld] d, of s' "lo32 (bswap64 y)" "hi32 (bswap64 y)" ?M] s' t(2) ld by auto
      then show ?thesis using c e True a by (simp add: load_done_def landed_def)
    qed
  qed
qed

section \<open>Retirement of stores\<close>

text \<open>Every operation in the load table is there, and has been decoded.\<close>

definition loads_known :: "sim_state \<Rightarrow> bool" where
  "loads_known M \<longleftrightarrow> (\<forall>a. Some a \<in> set (load_tbl M) \<longrightarrow> (\<exists>v. ops M a = Some v \<and> mop v \<noteq> None))"

lemma violation_scan_returns:
  assumes "\<And>a. Some a \<in> set ts \<Longrightarrow> \<exists>v. ops M a = Some v \<and> mop v \<noteq> None"
  shows "\<exists>b c. violation_scan ts u M al = Inr (b, c)"
  using assms
proof (induction ts arbitrary: al)
  case (Cons x ts)
  have IH: "\<exists>b c. violation_scan ts u M al = Inr (b, c)" for al using Cons.IH[of al] Cons.prems by simp
  show ?case
  proof (cases x)
    case None
    then show ?thesis using IH[of al] by simp
  next
    case (Some a)
    then obtain v where v: "ops M a = Some v" "mop v \<noteq> None" using Cons.prems[of a] by auto
    obtain b c where "violation_scan ts u M (al(op_pc v := insert (op_pc u) (al (op_pc v)))) = Inr (b, c)" using IH by blast
    moreover obtain d e where "violation_scan ts u M al = Inr (d, e)" using IH by blast
    ultimately show ?thesis using Some v
      by (cases "alloc_cycle v <s alloc_cycle u"; cases "is_complete v \<and> same_dword (effective_address u) (effective_address v)";
          simp add: op_at_def ensure_def; blast)
  qed
qed (simp, blast)

lemma check_violation_returns:
  assumes "loads_known M"
  shows "\<exists>al m. check_violation u M = Inr (M\<lparr>load_alias_map := al, ops := m\<rparr>)"
proof -
  have o: "M\<lparr>load_alias_map := al\<rparr> = M\<lparr>load_alias_map := al, ops := ops M\<rparr>" for al by simp
  obtain al bad where "violation_scan (load_tbl M) u M (load_alias_map M) = Inr (al, bad)"
    using violation_scan_returns[of "load_tbl M" M u "load_alias_map M"] assms by (auto simp: loads_known_def)
  then show ?thesis by (cases bad) (auto simp: check_violation_def Let_def intro: o)
qed

lemma leave_store_returns:
  assumes "tables_ok M" "0 \<le> i" "i < int (length (store_tbl M))"
  shows "\<exists>M1. leave_store i M = Inr M1 \<and> rf M1 = rf M \<and> smem M1 = smem M"
proof -
  have "wf_vec (length (store_tbl M)) (store_tbl_freevec M)" using assms(1) by (simp add: tables_ok_def)
  from bv_clear_ok[OF this assms(2,3)] obtain v where "bv_clear (store_tbl_freevec M) i = Inr v" by blast
  then show ?thesis using assms(2,3) by (simp add: leave_store_def put_idx_ok)
qed

text \<open>The end of the two retirements.\<close>

lemma store_leaves:
  assumes "loads_known M" "tables_ok M" "0 \<le> i" "i < int (length (store_tbl M))"
  shows "\<exists>u3 M3. rbind (check_violation u M) (\<lambda>M2. rbind (leave_store i M2) (count_retired u)) = Inr (u3, M3) \<and> rf M3 = rf M \<and> smem M3 = smem M"
proof -
  obtain al m where M1: "check_violation u M = Inr (M\<lparr>load_alias_map := al, ops := m\<rparr>)" (is "_ = Inr ?M")
    using check_violation_returns[OF assms(1)] by blast
  have "tables_ok ?M" "i < int (length (store_tbl ?M))" using assms(2,4) by (simp_all add: tables_ok_def)
  then obtain M2 where "leave_store i ?M = Inr M2" "rf M2 = rf ?M" "smem M2 = smem ?M" using leave_store_returns assms(3) by blast
  then show ?thesis using M1 by (simp add: count_retired_def)
qed

text \<open>
  What a store that has executed does: it completes without touching the machine, and when it then
  retires it leaves the memory of \<open>s'\<close>, and the registers.
\<close>

definition store_done :: "(rfile \<Rightarrow> nat) \<Rightarrow> (rfile \<Rightarrow> renaming list) \<Rightarrow> sim_param \<Rightarrow> mips_op \<Rightarrow> state \<Rightarrow> mips_meta_op \<Rightarrow> sim_state \<Rightarrow> bool" where
  "store_done N F S op s' u2 M2 \<longleftrightarrow> (let M3 = M2\<lparr>curr := complete_cycle u2\<rparr>; u3 = u2\<lparr>is_complete := True\<rparr> in
     complete_op op u2 M3 = Inr (u3, M3) \<and>
     (\<exists>u4 M4. retire_op S op u3 M3 = Inr (u4, M4) \<and> holds M4 s' \<and> ren_ok N F M4 \<and> smem M4 = mem s'))"

lemma stored_done:
  assumes st: "started N F op s M u u1 M1" "op_dests op (op_inst u) = []" and op: "complete_op op = complete_with Inr" "\<not> is_complete u"
    and w: "retire_op S op = (\<lambda>u M. rbind (put_mem (p u) M) (\<lambda>M1. rbind (check_violation u M1) (\<lambda>M2. rbind (leave_store (store_tbl_idx u) M2) (count_retired u))))"
    and m: "p (u2\<lparr>is_complete := True\<rparr>) (smem M) = Inr m" "after s m s'"
    and t: "u2 = v\<lparr>aux_cycle := y, complete_cycle := c\<rparr>" "M2 = M1\<lparr>l1cache := cs\<rparr>"
      "is_complete v = is_complete u" "store_tbl_idx v = i"
    and tb: "tables_ok M1" "loads_known M1" "0 \<le> i" "i < int (length (store_tbl M1))"
  shows "store_done N F S op s' u2 M2"
proof -
  have g: "ren_ok N F M1" "smem M1 = smem M" "holds M1 s"
    using st started_inst[OF st(1)] by (auto simp: started_def grows_def op_renamings_def holds_def reg_val_def)
  let ?M = "M2\<lparr>curr := complete_cycle u2\<rparr>" and ?u = "u2\<lparr>is_complete := True\<rparr>"
  let ?N = "?M\<lparr>smem := m\<rparr>"
  have c: "complete_op op u2 ?M = Inr (?u, ?M)" using op t(1,3) complete_now[of u2 Inr M2] by simp
  have "loads_known ?N" "tables_ok ?N" "i < int (length (store_tbl ?N))" using tb t(2) by (simp_all add: loads_known_def tables_ok_def)
  then obtain u4 M4 where "rbind (check_violation ?u ?N) (\<lambda>M2. rbind (leave_store i M2) (count_retired ?u)) = Inr (u4, M4)" "rf M4 = rf ?N" "smem M4 = smem ?N"
    using store_leaves[of ?N i ?u] tb(3) by blast
  moreover have "put_mem (p ?u) ?M = Inr ?N" using m(1) g(2) t(2) by (simp add: put_mem_def)
  moreover have "store_tbl_idx ?u = i" using t(1,4) by simp
  ultimately have r: "retire_op S op ?u ?M = Inr (u4, M4)" "rf M4 = rf M1" "smem M4 = m" using w t(2) by simp_all
  have "holds M1 s'" using g(3) after_regs(1)[OF m(2)] by (simp add: holds_def)
  then have "holds M4 s'" "ren_ok N F M4" using rf_frame(2)[of M1 s' M4] rf_frame(1)[of N F M1 M4] g(1) r(2) by auto
  then show ?thesis using c r(1,3) after_regs(2)[OF m(2)] by (auto simp: store_done_def Let_def)
qed

lemma set_src_store: "set_src i k d M u = Inr u' \<Longrightarrow> store_tbl_idx u' = store_tbl_idx u"
  by (auto simp: set_src_def rbind_Inr_iff)

lemma enter_store_length: "enter_store a i M = Inr M1 \<Longrightarrow> length (store_tbl M1) = length (store_tbl M)"
  by (auto simp: enter_store_def put_idx_def put_res_def rbind_Inr_iff ensure_Inr_iff split: if_split_asm)

lemma store_index:
  assumes "tables_ok M" "allocate_op op a u M = Inr (u1, M1, True)" "op = Store_op st \<or> op = Fp_store ft"
  shows "0 \<le> store_tbl_idx u1 \<and> store_tbl_idx u1 < int (length (store_tbl M1))"
proof -
  let ?i = "find_first_unset (store_tbl_freevec M)"
  have x: "store_tbl_idx u1 = ?i \<and> ?i \<noteq> -1 \<and> length (store_tbl M1) = length (store_tbl M)"
    using assms(3)
  proof
    assume "op = Store_op st"
    then show ?thesis using assms(2)
      by (simp add: store_allocate_def rbind_Inr_iff Let_def split: if_split_asm) (auto dest: set_src_store enter_store_length)
  next
    assume "op = Fp_store ft"
    then show ?thesis using assms(2)
      by (simp add: fp_store_allocate_def rbind_Inr_iff Let_def split: if_split_asm) (auto dest!: set_src_store enter_store_length)
  qed
  have "wf_vec (length (store_tbl M)) (store_tbl_freevec M)" using assms(1) by (simp add: tables_ok_def)
  from find_free[OF this] x show ?thesis by auto
qed

lemma store_executes:
  assumes st: "started N F (Store_op t) s M u u1 M1"
  shows "\<exists>v. timed v M1 (store_execute S a u1 M1) \<and> effective_address v = eff_addr (op_inst u) s \<and> store_data v = gpr s (rt_of (op_inst u)) \<and>
    is_complete v = is_complete u1 \<and> store_tbl_idx v = store_tbl_idx u1"
proof -
  let ?w = "op_inst u"
  have i: "op_inst u1 = ?w" using started_inst[OF st] by simp
  have b: "src_val GPR 1 u1 M1 = Inr (gpr s (rs_of ?w))" "src_val GPR 0 u1 M1 = Inr (gpr s (rt_of ?w))"
    using started_src[OF st, of 1 GPR "rs_of ?w"] started_src[OF st, of 0 GPR "rt_of ?w"] reg_less[of ?w] by auto
  let ?v = "u1\<lparr>effective_address := eff_addr ?w s, store_data := gpr s (rt_of ?w)\<rparr>"
  have "store_execute S a u1 M1 = l1d_store S 1 a (eff_addr ?w s AND NOT 3) ?v M1"
    using b by (simp add: store_execute_def i Let_def eff_addr_def)
  then have "timed ?v M1 (store_execute S a u1 M1)" using l1d_timed(2) by simp
  then show ?thesis by (intro exI[of _ ?v]) simp
qed

lemma fp_store_executes:
  assumes st: "started N F (Fp_store t) s M u u1 M1" and d: "t = Sdc1 \<Longrightarrow> rt_of (op_inst u) + 1 < 32"
  defines "x0 \<equiv> cpr1 s (rt_of (op_inst u))" and "x1 \<equiv> cpr1 s (rt_of (op_inst u) + 1)"
  shows "\<exists>v. (t = Swc1 \<longrightarrow> timed v M1 (fp_store_execute S t a u1 M1)) \<and>
    (\<forall>u2 M2. fp_store_execute S t a u1 M1 = Inr (u2, M2) \<longrightarrow> (\<exists>y c cs. u2 = v\<lparr>aux_cycle := y, complete_cycle := c\<rparr> \<and> M2 = M1\<lparr>l1cache := cs\<rparr>)) \<and>
    effective_address v = eff_addr (op_inst u) s \<and> store_data v = x0 \<and> (t = Sdc1 \<longrightarrow> store_data1 v = x1) \<and>
    is_complete v = is_complete u1 \<and> store_tbl_idx v = store_tbl_idx u1"
proof -
  let ?w = "op_inst u"
  have i: "op_inst u1 = ?w" using started_inst[OF st] by simp
  have b: "src_val GPR 1 u1 M1 = Inr (gpr s (rs_of ?w))" "src_val CPR1 0 u1 M1 = Inr x0" "t = Sdc1 \<Longrightarrow> src_val CPR1 2 u1 M1 = Inr x1"
    using started_src[OF st, of 1 GPR "rs_of ?w"] started_src[OF st, of 0 CPR1 "rt_of ?w"] started_src[OF st, of 2 CPR1 "rt_of ?w + 1"]
      reg_less[of ?w] d by (auto simp: x0_def x1_def)
  show ?thesis
  proof (cases t)
    case Swc1
    let ?v = "u1\<lparr>effective_address := eff_addr ?w s, store_data := x0\<rparr>"
    have "fp_store_execute S t a u1 M1 = l1d_store S (l1d_latency S) a (eff_addr ?w s) ?v M1"
      using b Swc1 by (simp add: fp_store_execute_def i Let_def eff_addr_def)
    then have "timed ?v M1 (fp_store_execute S t a u1 M1)" using l1d_timed(2) by simp
    then show ?thesis using Swc1 by (intro exI[of _ ?v]) (simp add: timed_def)
  next
    case Sdc1
    let ?v = "u1\<lparr>effective_address := eff_addr ?w s, store_data := x0, store_data1 := x1\<rparr>"
    have "l1d_store S (l1d_latency S) a (eff_addr ?w s) ?v M1 = Inr (u2, M2)" if "fp_store_execute S t a u1 M1 = Inr (u2, M2)" for u2 M2
      using b Sdc1 that by (auto simp: fp_store_execute_def i Let_def eff_addr_def rbind_Inr_iff)
    then show ?thesis using Sdc1 l1d_timed(2)[of ?v M1] by (intro exI[of _ ?v]) (auto simp: timed_def)
  qed
qed

lemma int_store_done:
  assumes st: "started N F (Store_op t) s M u u1 M1" and m: "smem M = mem s" and nc: "\<not> is_complete u"
    and dec: "decode_op (op_inst u) = Inr (Some (Store_op t))" and ex: "exec_insn P K (op_inst u) s = Inr s'" "swl_agrees t (gpr s (rt_of (op_inst u)))"
    and tb: "tables_ok M1" "loads_known M1" "0 \<le> store_tbl_idx u1" "store_tbl_idx u1 < int (length (store_tbl M1))"
    and x: "store_execute S a u1 M1 = Inr (u2, M2)"
  shows "store_done N F S (Store_op t) s' u2 M2"
proof -
  have k: "is_complete u1 = is_complete u" using st by (simp add: started_def kept_def)
  obtain v where v: "timed v M1 (store_execute S a u1 M1)" "effective_address v = eff_addr (op_inst u) s" "store_data v = gpr s (rt_of (op_inst u))"
    "is_complete v = is_complete u1" "store_tbl_idx v = store_tbl_idx u1" using store_executes[OF st] by blast
  obtain y c cs where t: "u2 = v\<lparr>aux_cycle := y, complete_cycle := c\<rparr>" "M2 = M1\<lparr>l1cache := cs\<rparr>" using v(1) x by (auto simp: timed_def)
  obtain mm where mm: "store_write t (eff_addr (op_inst u) s) (gpr s (rt_of (op_inst u))) (mem s) = Inr mm" "after s mm s'"
    using exec_store[OF dec ex] by blast
  show ?thesis
  proof (rule stored_done[OF st _ _ nc _ _ mm(2) t])
    show "retire_op S (Store_op t) = (\<lambda>u M. rbind (put_mem (store_write t (effective_address u) (store_data u)) M)
        (\<lambda>M1. rbind (check_violation u M1) (\<lambda>M2. rbind (leave_store (store_tbl_idx u) M2) (count_retired u))))"
      by (simp add: store_retire_def fun_eq_iff)
    show "store_write t (effective_address (u2\<lparr>is_complete := True\<rparr>)) (store_data (u2\<lparr>is_complete := True\<rparr>)) (smem M) = Inr mm"
      using mm(1) t(1) v m by simp
  qed (use v k tb in \<open>simp_all add: store_complete_def\<close>)
qed

lemma fp_store_done:
  assumes st: "started N F (Fp_store t) s M u u1 M1" and m: "smem M = mem s" and nc: "\<not> is_complete u"
    and dec: "decode_op (op_inst u) = Inr (Some (Fp_store t))" and ex: "exec_insn P K (op_inst u) s = Inr s'"
    and tb: "tables_ok M1" "loads_known M1" "0 \<le> store_tbl_idx u1" "store_tbl_idx u1 < int (length (store_tbl M1))"
    and x: "fp_store_execute S t a u1 M1 = Inr (u2, M2)"
  shows "store_done N F S (Fp_store t) s' u2 M2"
proof -
  let ?w = "op_inst u"
  have k: "is_complete u1 = is_complete u" using st by (simp add: started_def kept_def)
  note l = exec_fp_store[OF dec ex]
  then have d: "t = Sdc1 \<Longrightarrow> rt_of ?w + 1 < 32" by auto
  obtain v where v: "\<forall>u2 M2. fp_store_execute S t a u1 M1 = Inr (u2, M2) \<longrightarrow> (\<exists>y c cs. u2 = v\<lparr>aux_cycle := y, complete_cycle := c\<rparr> \<and> M2 = M1\<lparr>l1cache := cs\<rparr>)"
    "effective_address v = eff_addr ?w s" "store_data v = cpr1 s (rt_of ?w)" "t = Sdc1 \<longrightarrow> store_data1 v = cpr1 s (rt_of ?w + 1)"
    "is_complete v = is_complete u1" "store_tbl_idx v = store_tbl_idx u1" using fp_store_executes[OF st d] by blast
  obtain y c cs where t: "u2 = v\<lparr>aux_cycle := y, complete_cycle := c\<rparr>" "M2 = M1\<lparr>l1cache := cs\<rparr>" using v(1) x by blast
  let ?p = "\<lambda>u. case t of Swc1 \<Rightarrow> set32 (effective_address u) (bswap32 (store_data u))
       | Sdc1 \<Rightarrow> set64 (effective_address u) (bswap64 (le64 (store_data u) (store_data1 u)))"
  obtain mm where mm: "?p (u2\<lparr>is_complete := True\<rparr>) (smem M) = Inr mm" "after s mm s'" using l v(2-4) t(1) m by (auto split: fp_store_type.split)
  show ?thesis
  proof (rule stored_done[where p = ?p, OF st _ _ nc _ mm t])
    show "retire_op S (Fp_store t) = (\<lambda>u M. rbind (put_mem (?p u) M)
        (\<lambda>M1. rbind (check_violation u M1) (\<lambda>M2. rbind (leave_store (store_tbl_idx u) M2) (count_retired u))))"
      by (simp add: fp_store_retire_def fun_eq_iff)
  qed (use v k tb in \<open>simp_all add: fp_store_complete_def\<close>)
qed

section \<open>The two refinements\<close>

lemma exact_memory_regs:
  assumes "op = Load_op lt \<or> op = Fp_load lt \<and> rt_of w \<noteq> 31 \<or> op = Store_op st \<or> op = Fp_store ft \<and> (ft = Sdc1 \<longrightarrow> rt_of w \<noteq> 31)"
  shows "regs_ok op w"
  using assms reg_less(2)[of w] by (auto simp: regs_ok_def reg_less34 fp_dests_def)

lemma store_keeps_loads:
  assumes "allocate_op op a u M = Inr (u1, M1, True)" "op = Store_op st \<or> op = Fp_store ft" "loads_known M"
  shows "loads_known M1"
proof -
  have "load_tbl M1 = load_tbl M \<and> ops M1 = ops M"
    using assms(2)
  proof
    assume "op = Store_op st"
    then show ?thesis using assms(1)
      by (simp add: store_allocate_def rbind_Inr_iff Let_def split: if_split_asm) (auto simp: enter_store_def rbind_Inr_iff)
  next
    assume "op = Fp_store ft"
    then show ?thesis using assms(1)
      by (simp add: fp_store_allocate_def rbind_Inr_iff Let_def split: if_split_asm) (auto simp: enter_store_def rbind_Inr_iff)
  qed
  then show ?thesis using assms(3) by (simp add: loads_known_def)
qed

text \<open>A machine that has just started, with empty tables of loads and stores.\<close>

lemma sample_memory:
  obtains M where "ren_ok (num_prf default_sizes) (\<lambda>_. []) M" "tables_ok M" "holds M sample_state" "smem M = mem sample_state" "l1cache M = []"
    "loads_known M" "find_first_unset (freevec (rf M GPR)) \<noteq> -1" "find_first_unset (load_tbl_freevec M) \<noteq> -1" "find_first_unset (store_tbl_freevec M) \<noteq> -1"
proof -
  obtain M where M: "ren_ok (num_prf default_sizes) (\<lambda>_. []) M" "holds M sample_state"
    by (rule sample_start)
  let ?M = "M\<lparr>smem := mem sample_state, l1cache := [], load_tbl := [None], store_tbl := [None],
    load_tbl_freevec := new_bitvec 1, store_tbl_freevec := new_bitvec 1\<rparr>"
  have v: "wf_vec 1 (new_bitvec 1)" "used (new_bitvec 1) = {}" by (simp_all add: wf_vec_def used_def)
  have f: "find_first_unset (new_bitvec 1 :: u64 bitvec) \<noteq> -1" using find_free[OF v(1)] v(2) by auto
  have inv: "renaming_inv 34 128 [] (rf M GPR)" using ren_okD[OF M(1), of GPR] by (simp add: default_sizes_def)
  have "find_first_unset (freevec (rf M GPR)) \<noteq> -1"
    using find_free[OF renaming_invD(4)[OF inv]] renaming_inv_card[OF inv] by auto
  moreover have "ren_ok (num_prf default_sizes) (\<lambda>_. []) ?M" "holds ?M sample_state" using M by (simp_all add: ren_ok_def holds_def reg_val_def)
  moreover have "tables_ok ?M" "loads_known ?M" using v(1) by (simp_all add: tables_ok_def loads_known_def)
  ultimately show thesis using f by (intro that[of ?M]) simp_all
qed

lemma sample_fields: "rs_of 0x8c850003 = 4" "rt_of 0x8c850003 = 5" "simm 0x8c850003 = 3" "decode_op 0x8c850003 = Inr (Some (Load_op Lw))"
  "rs_of 0xac850003 = 4" "rt_of 0xac850003 = 5" "simm 0xac850003 = 3" "decode_op 0xac850003 = Inr (Some (Store_op Sw))"
  "opcode_of 0x8c850003 = 0x23" "opcode_of 0xac850003 = 0x2b"
  by code_simp+

lemma sample_op_new: "\<not> is_complete (sample_op w)" "\<not> load_exception (sample_op w)"
  by (simp_all add: sample_op_def new_meta_op_def)

text \<open>
  C4. A load of the core leaves what the interpreter leaves: where the mapped registers and the memory are the
  interpreter's, a load that is decoded and allocated computes its address (without a cache, execution returns), and
  when its cycle comes the destination holds the value the interpreter loads, the other registers and
  the memory are the interpreter's too, for integer and floating-point loads and for the unaligned pair; at an address that is not a
  multiple of the size of the access it is marked instead, and nothing else changes.
\<close>

theorem loads_refine_interpreter:
  assumes "ren_ok N F M" "tables_ok M" "64 dvd N GPR" "64 dvd N CPR1" "holds M s" "smem M = mem s"
    and "decode_op (op_inst u) = Inr (Some op)" "op = Load_op lt \<or> op = Fp_load lt \<and> rt_of (op_inst u) \<noteq> 31"
    and "\<not> is_complete u" "\<not> load_exception u" "allocate_op op a u M = Inr (u1, M1, True)" "exec_insn P K (op_inst u) s = Inr s'"
  shows "(l1cache M = [] \<longrightarrow> (\<exists>r. execute_op S op a u1 M1 = Inr r)) \<and>
    (\<forall>u2 M2. execute_op S op a u1 M1 = Inr (u2, M2) \<longrightarrow>
      (\<exists>M3. complete_op op u2 (M2\<lparr>curr := complete_cycle u2\<rparr>) = Inr (u2\<lparr>is_complete := True\<rparr>, M3) \<and>
        (load_exception u2 \<longleftrightarrow> \<not> aligned lt (eff_addr (op_inst u) s)) \<and>
        (if aligned lt (eff_addr (op_inst u) s)
         then holds M3 s' \<and> ren_ok N (\<lambda>k. F k @ op_renamings op u1 k) M3 \<and> smem M3 = mem s'
         else M3 = M2\<lparr>curr := complete_cycle u2\<rparr>)))"
proof -
  have "regs_ok op (op_inst u)" using exact_memory_regs assms(8) by blast
  then have st: "started N F op s M u u1 M1" using assms(1-5,11) by (intro startedI)
  have l1: "l1cache M1 = l1cache M" using st by (simp add: started_def grows_def)
  consider (int) "op = Load_op lt" | (fp) "op = Fp_load lt" using assms(8) by blast
  then show ?thesis
  proof cases
    case int
    obtain v where "timed v M1 (load_execute S lt a u1 M1)" using load_executes[OF st[unfolded int], of S a] by blast
    then have "l1cache M = [] \<Longrightarrow> \<exists>r. execute_op S op a u1 M1 = Inr r" using l1 int by (simp_all add: timed_def)
    then show ?thesis
      using int_load_done[OF st[unfolded int] assms(6,9,10) assms(7)[unfolded int] assms(12), of S a, unfolded load_done_def]
      unfolding int execute_op.simps by (intro conjI allI impI) simp_all
  next
    case fp
    have "lt \<in> {Lwc1, Ldc1}" using exec_fp_load[OF assms(7)[unfolded fp] assms(12)] by auto
    then obtain v where "timed v M1 (fp_load_execute S lt a u1 M1)" using fp_load_executes[OF st[unfolded fp], of S a] by blast
    then have "l1cache M = [] \<Longrightarrow> \<exists>r. execute_op S op a u1 M1 = Inr r" using l1 fp by (simp_all add: timed_def)
    then show ?thesis
      using fp_load_done[OF st[unfolded fp] assms(6,9,10) assms(7)[unfolded fp] assms(12), of S a, unfolded load_done_def]
      unfolding fp execute_op.simps by (intro conjI allI impI) simp_all
  qed
qed

text \<open>\<open>lw $5, 3($4)\<close>, where \<open>$4\<close> is 0x1001 and memory holds zero.\<close>

theorem loads_refine_interpreter_witness:
  "\<exists>M u1 M1 u2 M2 M3. holds M sample_state \<and> smem M = mem sample_state \<and> allocate_op (Load_op Lw) 7 (sample_op 0x8c850003) M = Inr (u1, M1, True) \<and>
     execute_op (default_param sample_params (\<lambda>h w. h)) (Load_op Lw) 7 u1 M1 = Inr (u2, M2) \<and>
     complete_op (Load_op Lw) u2 (M2\<lparr>curr := complete_cycle u2\<rparr>) = Inr (u2\<lparr>is_complete := True\<rparr>, M3) \<and> reg_val GPR 5 M3 = 0"
proof -
  let ?w = "0x8c850003" and ?op = "Load_op Lw" and ?S = "default_param sample_params (\<lambda>h w. h)"
  obtain M where M: "ren_ok (num_prf default_sizes) (\<lambda>_. []) M" "tables_ok M" "holds M sample_state" "smem M = mem sample_state" "l1cache M = []"
    "find_first_unset (freevec (rf M GPR)) \<noteq> -1" "find_first_unset (load_tbl_freevec M) \<noteq> -1" by (rule sample_memory)
  obtain u1 M1 where a: "allocate_op ?op 7 (sample_op ?w) M = Inr (u1, M1, True)"
    using M(1,2,7) by (rule sample_load_allocates)
  have ea: "eff_addr ?w sample_state = 0x1004" by (simp add: eff_addr_def sample_fields sample_facts)
  then have "plain 4 (eff_addr ?w sample_state) sample_state" using sample_plain[of "0x1004"] by simp
  from exec_lw_ok[OF this, of sample_params] obtain m where x: "same_mem (mem sample_state) m" "exec_lw sample_params ?w sample_state =
    Inr (next_insn (set_gpr 5 (be32 (mem sample_state) 0x1004) (sample_state\<lparr>mem := m\<rparr>)))" unfolding ea sample_fields by auto
  let ?t = "next_insn (set_gpr 5 (be32 (mem sample_state) 0x1004) (sample_state\<lparr>mem := m\<rparr>))"
  have "(opcode_of ?w, ?op) \<in> set op_table_itype" "0x20 \<le> opcode_of ?w" by (simp_all add: sample_fields op_table_itype_def)
  from exec_memory[OF this, of sample_params Inr sample_state] x(2)
  have ex: "exec_insn sample_params Inr (op_inst (sample_op ?w)) sample_state = Inr ?t" by (simp add: itype_mem_def sample_fields)
  have d: "decode_op (op_inst (sample_op ?w)) = Inr (Some ?op)" by (simp add: sample_fields)
  have al: "aligned Lw (eff_addr (op_inst (sample_op ?w)) sample_state)" by (simp add: ea aligned_def size_mask_def)
  note L = loads_refine_interpreter[OF M(1,2) sample_prf M(3,4) d disjI1[OF refl] sample_op_new a ex, of ?S]
  obtain u2 M2 where x2: "execute_op ?S ?op 7 u1 M1 = Inr (u2, M2)" using L M(5) by force
  obtain M3 where M3: "complete_op ?op u2 (M2\<lparr>curr := complete_cycle u2\<rparr>) = Inr (u2\<lparr>is_complete := True\<rparr>, M3)" "holds M3 ?t"
    using L[THEN conjunct2, rule_format, OF x2] unfolding if_P[OF al] by blast
  have "be32 (mem sample_state) 0x1004 = 0"
    by (simp add: be32_def sample_state_def new_state_def wf_new_mem(2) set_gpr_def) (simp add: le32_def)
  then have "reg_val GPR 5 M3 = 0" using holdsD[OF M3(2), of 5 GPR] by simp
  with M(3,4) a x2 M3(1) show ?thesis by blast
qed

text \<open>
  C5. A store of the core leaves what the interpreter leaves: where the mapped registers and the memory are the
  interpreter's, a store that is decoded and allocated computes its address and data (without a cache, execution returns; the
  double store reads eight bytes at each of its registers and may not), completes without touching the machine, and when it
  then retires, past the search for loads that came too early, memory is the interpreter's and the registers are as they were.
  For \<open>swl\<close> this holds of data that is not negative (the core shifts it as a signed number); the double store is meant where it executes at all.
\<close>

theorem stores_refine_interpreter:
  assumes "ren_ok N F M" "tables_ok M" "64 dvd N GPR" "64 dvd N CPR1" "holds M s" "smem M = mem s" "loads_known M"
    and "decode_op (op_inst u) = Inr (Some op)" "op = Store_op t \<and> swl_agrees t (gpr s (rt_of (op_inst u))) \<or> op = Fp_store ft"
    and "\<not> is_complete u" "allocate_op op a u M = Inr (u1, M1, True)" "exec_insn P K (op_inst u) s = Inr s'"
  shows "(l1cache M = [] \<and> op \<noteq> Fp_store Sdc1 \<longrightarrow> (\<exists>r. execute_op S op a u1 M1 = Inr r)) \<and>
    (\<forall>u2 M2. execute_op S op a u1 M1 = Inr (u2, M2) \<longrightarrow>
      complete_op op u2 (M2\<lparr>curr := complete_cycle u2\<rparr>) = Inr (u2\<lparr>is_complete := True\<rparr>, M2\<lparr>curr := complete_cycle u2\<rparr>) \<and>
      (\<exists>u4 M4. retire_op S op (u2\<lparr>is_complete := True\<rparr>) (M2\<lparr>curr := complete_cycle u2\<rparr>) = Inr (u4, M4) \<and>
        holds M4 s' \<and> ren_ok N F M4 \<and> smem M4 = mem s'))"
proof -
  have "op = Fp_store Sdc1 \<Longrightarrow> rt_of (op_inst u) + 1 < 32" using exec_fp_store[of "op_inst u" Sdc1 P K s s'] assms(8,12) by auto
  then have "regs_ok op (op_inst u)" using exact_memory_regs[of op undefined "op_inst u" t ft] assms(9) by (cases ft) auto
  then have st: "started N F op s M u u1 M1" using assms(1-5,11) by (intro startedI)
  have tb: "tables_ok M1" using allocate_op_ok[OF assms(1-4) \<open>regs_ok op (op_inst u)\<close>, of a] assms(11) by (simp add: allocates_done)
  have op: "op = Store_op t \<or> op = Fp_store ft" using assms(9) by blast
  have lk: "loads_known M1" by (rule store_keeps_loads[OF assms(11) op assms(7)])
  have i: "0 \<le> store_tbl_idx u1" "store_tbl_idx u1 < int (length (store_tbl M1))" using store_index[OF assms(2,11) op] by simp_all
  have l1: "l1cache M1 = l1cache M" using st by (simp add: started_def grows_def)
  show ?thesis
    using op
  proof
    assume int: "op = Store_op t"
    then have ag: "swl_agrees t (gpr s (rt_of (op_inst u)))" using assms(9) by simp
    obtain v where "timed v M1 (store_execute S a u1 M1)" using store_executes[OF st[unfolded int], of S a] by blast
    then have "l1cache M = [] \<and> op \<noteq> Fp_store Sdc1 \<Longrightarrow> \<exists>r. execute_op S op a u1 M1 = Inr r" using l1 int by (simp_all add: timed_def)
    then show ?thesis
      using int_store_done[OF st[unfolded int] assms(6,10) assms(8)[unfolded int] assms(12) ag tb lk i, of S a, unfolded store_done_def Let_def]
      unfolding int execute_op.simps by (intro conjI allI impI) simp_all
  next
    assume fp: "op = Fp_store ft"
    have d: "ft = Sdc1 \<Longrightarrow> rt_of (op_inst u) + 1 < 32" using fp \<open>op = Fp_store Sdc1 \<Longrightarrow> rt_of (op_inst u) + 1 < 32\<close> by simp
    obtain v where "ft = Swc1 \<longrightarrow> timed v M1 (fp_store_execute S ft a u1 M1)" using fp_store_executes[OF st[unfolded fp] d, of S a] by blast
    then have "l1cache M = [] \<and> op \<noteq> Fp_store Sdc1 \<Longrightarrow> \<exists>r. execute_op S op a u1 M1 = Inr r" using l1 fp by (cases ft) (simp_all add: timed_def)
    then show ?thesis
      using fp_store_done[OF st[unfolded fp] assms(6,10) assms(8)[unfolded fp] assms(12) tb lk i, of S a, unfolded store_done_def Let_def]
      unfolding fp execute_op.simps by (intro conjI allI impI) simp_all
  qed
qed

text \<open>\<open>sw $5, 3($4)\<close>, where \<open>$4\<close> is 0x1001.\<close>

theorem stores_refine_interpreter_witness:
  "\<exists>M u1 M1 u2 M2 u4 M4. holds M sample_state \<and> smem M = mem sample_state \<and> allocate_op (Store_op Sw) 7 (sample_op 0xac850003) M = Inr (u1, M1, True) \<and>
     execute_op (default_param sample_params (\<lambda>h w. h)) (Store_op Sw) 7 u1 M1 = Inr (u2, M2) \<and>
     retire_op (default_param sample_params (\<lambda>h w. h)) (Store_op Sw) (u2\<lparr>is_complete := True\<rparr>) (M2\<lparr>curr := complete_cycle u2\<rparr>) = Inr (u4, M4) \<and>
     byte_at (smem M4) 0x1004 = 0x12"
proof -
  let ?w = "0xac850003" and ?op = "Store_op Sw" and ?S = "default_param sample_params (\<lambda>h w. h)"
  obtain M where M: "ren_ok (num_prf default_sizes) (\<lambda>_. []) M" "tables_ok M" "holds M sample_state" "smem M = mem sample_state" "l1cache M = []"
    "loads_known M" "find_first_unset (store_tbl_freevec M) \<noteq> -1" by (rule sample_memory)
  obtain t v where e: "enter_store 7 (find_first_unset (store_tbl_freevec M)) M = Inr (M\<lparr>store_tbl := t, store_tbl_freevec := v\<rparr>)"
    using enter_store_ok[OF M(2,7)] by blast
  obtain u1 M1 where a: "allocate_op ?op 7 (sample_op ?w) M = Inr (u1, M1, True)"
    using M(1,7) e by (simp add: store_allocate_def Let_def set_src_ok reg_less34 sample_fields)
  have ea: "eff_addr ?w sample_state = 0x1004" by (simp add: eff_addr_def sample_fields sample_facts)
  then have "plain 4 (eff_addr ?w sample_state) sample_state" using sample_plain[of "0x1004"] by simp
  from exec_sw_ok[OF this, of sample_params] obtain m where x: "stored 0x1004 (be_bytes 0x12345678) (mem sample_state) m"
    "exec_sw sample_params ?w sample_state = Inr (next_insn (sample_state\<lparr>mem := m\<rparr>))" unfolding ea sample_fields by (auto simp: sample_facts)
  have "(opcode_of ?w, ?op) \<in> set op_table_itype" "0x20 \<le> opcode_of ?w" by (simp_all add: sample_fields op_table_itype_def)
  from exec_memory[OF this, of sample_params Inr sample_state] x(2)
  have ex: "exec_insn sample_params Inr (op_inst (sample_op ?w)) sample_state = Inr (next_insn (sample_state\<lparr>mem := m\<rparr>))"
    by (simp add: itype_mem_def sample_fields)
  have d: "decode_op (op_inst (sample_op ?w)) = Inr (Some ?op)" by (simp add: sample_fields)
  have g: "?op = Store_op Sw \<and> swl_agrees Sw (gpr sample_state (rt_of (op_inst (sample_op ?w)))) \<or> ?op = Fp_store Swc1" by (simp add: swl_agrees_def)
  note L = stores_refine_interpreter[OF M(1,2) sample_prf M(3,4,6) d g sample_op_new(1) a ex, of ?S]
  obtain u2 M2 where x2: "execute_op ?S ?op 7 u1 M1 = Inr (u2, M2)" using L M(5) by force
  obtain u4 M4 where M4: "retire_op ?S ?op (u2\<lparr>is_complete := True\<rparr>) (M2\<lparr>curr := complete_cycle u2\<rparr>) = Inr (u4, M4)"
    "smem M4 = mem (next_insn (sample_state\<lparr>mem := m\<rparr>))"
    using L[THEN conjunct2, rule_format, OF x2] by blast
  have "be_bytes 0x12345678 ! 0 = 0x12" by code_simp
  then have "byte_at m 0x1004 = 0x12" using x(1) by (simp add: stored_def)
  then have "byte_at (smem M4) 0x1004 = 0x12" using M4(2) by (simp add: next_insn_def)
  with M(3,4) a x2 M4(1) show ?thesis by blast
qed

end
