(* ===== verification/Op_Types.thy ===== *)
theory Op_Types
  imports Op_Memory Cache_Proofs
begin

text \<open>
  Type soundness of the operations of the core.  A physical register name is typed by the file it
  belongs to; allocation gives each operation the names of its sources and destinations, and an
  operation so typed never reads or writes outside its files when it executes.
\<close>

section \<open>Typed names\<close>

definition in_file :: "(rfile \<Rightarrow> nat) \<Rightarrow> rfile \<Rightarrow> int \<Rightarrow> bool" where
  "in_file N k p \<longleftrightarrow> 0 \<le> p \<and> p < int (N k)"

definition typed :: "(rfile \<Rightarrow> nat) \<Rightarrow> mips_op \<Rightarrow> mips_meta_op \<Rightarrow> bool" where
  "typed N op u \<longleftrightarrow> list_all (\<lambda>(i, k, d). in_file N k (src u i)) (op_srcs op (op_inst u)) \<and>
     list_all (\<lambda>((k, d), (p, i)). in_file N k i) (zip (op_dests op (op_inst u)) (op_ids op u))"

lemma allocated_typed:
  assumes "ren_ok N F M" "grows N F (op_renamings op u1) M M1" "kept u u1"
    "list_all (\<lambda>(i, k, d). src u1 i = rat (rf M k) ! d) (op_srcs op (op_inst u))" and ok: "regs_ok op (op_inst u)"
  shows "typed N op u1"
proof -
  have r: "ren_ok N F M" "ren_ok N (\<lambda>k. F k @ op_renamings op u1 k) M1" "op_inst u1 = op_inst u"
    "\<forall>(i, k, d) \<in> set (op_srcs op (op_inst u)). src u1 i = rat (rf M k) ! d"
    using assms by (simp_all add: grows_def kept_def list_all_iff)
  have "in_file N k (src u1 i)" if "(i, k, d) \<in> set (op_srcs op (op_inst u))" for i k d
  proof -
    have "d < arch_count k" using ok that by (auto simp: regs_ok_def list_all_iff)
    then show ?thesis using rat_bounds[OF r(1), of d k] r(4) that by (auto simp: in_file_def)
  qed
  moreover have "in_file N k i" if "((k, d), (p, i)) \<in> set (zip (op_dests op (op_inst u)) (op_ids op u1))" for d p i k
  proof -
    have "(d, p, i) \<in> set (op_renamings op u1 k)" using that r(3) by (force simp: op_renamings_def)
    then have "i \<in> set (new_ids (F k @ op_renamings op u1 k))" by (force simp: new_ids_def)
    then show ?thesis using renaming_inv_bounds[OF ren_okD[OF r(2), of k], of i] by (auto simp: in_file_def)
  qed
  ultimately show ?thesis using r(3) by (auto simp: typed_def list_all_iff)
qed

section \<open>Computations that do not go wrong\<close>

text \<open>The outcome is no access outside a file, and the machine it leaves is well-formed, its caches included.\<close>

definition core_ok :: "nat \<Rightarrow> (rfile \<Rightarrow> nat) \<Rightarrow> (rfile \<Rightarrow> renaming list) \<Rightarrow> sim_state \<Rightarrow> bool" where
  "core_ok m N F M \<longleftrightarrow> ren_ok N F M \<and> wf_caches m (l1cache M)"

lemma core_okD: "core_ok m N F M \<Longrightarrow> ren_ok N F M" "core_ok m N F M \<Longrightarrow> wf_caches m (l1cache M)"
  by (simp_all add: core_ok_def)

definition fine :: "nat \<Rightarrow> (rfile \<Rightarrow> nat) \<Rightarrow> (rfile \<Rightarrow> renaming list) \<Rightarrow> (mips_meta_op \<times> sim_state) res \<Rightarrow> bool" where
  "fine m N F x \<longleftrightarrow> x \<noteq> Inl Undefined \<and> (\<forall>u M. x = Inr (u, M) \<longrightarrow> core_ok m N F M)"

named_theorems fine_intros \<open>computations that do not go wrong\<close>

lemma fine_basic [fine_intros]:
  "core_ok m N F M \<Longrightarrow> fine m N F (Inr (u, M))"
  "fine m N F (Inl Die)" "fine m N F (Inl Trap)" "fine m N F (Inl AssertFail)"
  "fine m N F x \<Longrightarrow> fine m N F (ensure Die c x)"
  "fine m N F x \<Longrightarrow> fine m N F (ensure Trap c x)"
  by (auto simp: fine_def ensure_def)

lemma fine_if [fine_intros]: "(c \<Longrightarrow> fine m N F x) \<Longrightarrow> (\<not> c \<Longrightarrow> fine m N F y) \<Longrightarrow> fine m N F (if c then x else y)"
  by simp

lemma fine_ensure: "c \<Longrightarrow> fine m N F x \<Longrightarrow> fine m N F (ensure e c x)"
  by (simp add: ensure_def)

lemma val_fine:
  assumes "core_ok m N F M" "in_file N k p"
  shows "\<exists>x. val k p M = Inr x"
  using assms renaming_invD(3)[OF ren_okD[OF core_okD(1)[OF assms(1)], of k]] by (simp add: val_def at_idx_def nth_res_def in_file_def nat_less_iff)

lemma fine_src [fine_intros]:
  assumes "core_ok m N F M" "in_file N k (src u i)" "\<And>x. fine m N F (f x)"
  shows "fine m N F (rbind (src_val k i u M) f)"
  using val_fine[OF assms(1,2)] assms(3) by (auto simp: src_val_def)

lemma fine_pair_src [fine_intros]:
  assumes "core_ok m N F M" "in_file N CPR1 (src u i)" "in_file N CPR1 (src u j)" "\<And>x. fine m N F (f x)"
  shows "fine m N F (rbind (pair_val i j u M) f)"
  using val_fine[OF assms(1,2)] val_fine[OF assms(1,3)] assms(4) by (auto simp: src_val_def pair_val_def)

lemma fine_write [fine_intros]:
  assumes "core_ok m N F M" "in_file N k p" "\<And>M1. core_ok m N F M1 \<Longrightarrow> fine m N F (f M1)"
  shows "fine m N F (rbind (on_rf k (write_prf p x) M) f)"
proof -
  note inv = ren_okD[OF core_okD(1)[OF assms(1)], of k]
  let ?M = "M\<lparr>rf := (rf M)(k := (rf M k)\<lparr>phys := (phys (rf M k))[nat p := x]\<rparr>)\<rparr>"
  have "on_rf k (write_prf p x) M = Inr ?M"
    using assms(2) renaming_invD(3)[OF inv] by (simp add: on_rf_def write_prf_def put_idx_ok in_file_def)
  moreover have "renaming_inv (arch_count k) (N k) (F k) ((rf M k)\<lparr>phys := (phys (rf M k))[nat p := x]\<rparr>)"
    using inv by (simp add: renaming_inv_def)
  then have "core_ok m N F ?M" using assms(1) by (simp add: core_ok_def ren_ok_def)
  ultimately show ?thesis using assms(3) by simp
qed

lemma fine_result [fine_intros]: "core_ok m N F M \<Longrightarrow> in_file N k (prf_idx u) \<Longrightarrow> fine m N F (result k x lat u M)"
  unfolding result_def by (intro fine_intros)

lemma fine_write_pair [fine_intros]:
  assumes "core_ok m N F M" "in_file N CPR1 (prf_idx u)" "in_file N CPR1 (aux_prf_idx u)" "\<And>M1. core_ok m N F M1 \<Longrightarrow> fine m N F (f M1)"
  shows "fine m N F (rbind (write_pair x u M) f)"
  unfolding write_pair_def rbind_assoc by (intro fine_intros assms)

lemma fine_lo_hi [fine_intros]:
  assumes "core_ok m N F M" "in_file N GPR (lo_prf_idx u)" "in_file N GPR (hi_prf_idx u)" "\<And>M1. core_ok m N F M1 \<Longrightarrow> fine m N F (f M1)"
  shows "fine m N F (rbind (set_lo_hi x u M) f)"
  unfolding set_lo_hi_def rbind_assoc by (intro fine_intros assms)

lemma fine_rbind_if [fine_intros]: "(c \<Longrightarrow> fine m N F (rbind x f)) \<Longrightarrow> (\<not> c \<Longrightarrow> fine m N F (rbind y f)) \<Longrightarrow> fine m N F (rbind (if c then x else y) f)"
  by simp

lemma fine_rbind_Inr [fine_intros]: "fine m N F (f x) \<Longrightarrow> fine m N F (rbind (Inr x) f)" "fine m N F (rbind (Inl Die) g)"
  by (simp_all add: fine_basic)

lemma fine_rbind_total: "r \<noteq> Inl Undefined \<Longrightarrow> (\<And>x. fine m N F (f x)) \<Longrightarrow> fine m N F (rbind r f)"
  by (cases r) (auto simp: fine_def)

section \<open>The classes\<close>

lemma ready_total:
  assumes "ren_ok N F M" "\<forall>(k, p) \<in> set ps. in_file N k p"
  shows "\<exists>b. all_valid ps M = Inr b"
  using assms(2)
proof (induction ps)
  case (Cons x ps)
  obtain k p where x: "x = (k, p)" by (cases x)
  have "\<exists>b. bv_get (valid (rf M k)) p = Inr b"
    using bv_get_ok[OF renaming_invD(6)[OF ren_okD[OF assms(1), of k]], of p] Cons.prems x by (auto simp: in_file_def)
  then show ?case using Cons x by auto
qed (simp, blast)

text \<open>What the code leaves undefined, whatever the names: bit fields of 32 bits, an immediate operation
  whose destination is register 0 (it is given no name), and the double store, which reads eight bytes
  at each name.\<close>

definition defined_op :: "mips_op \<Rightarrow> u32 \<Rightarrow> bool" where
  "defined_op op w \<longleftrightarrow> (case op of Itype_alu \<Rightarrow> rt_of w \<noteq> 0 | Itype_lui \<Rightarrow> rt_of w \<noteq> 0 | Ext_op \<Rightarrow> rd_of w + 1 < 32
     | Ins_op \<Rightarrow> unat (of_nat (rd_of w) - of_nat (sa_of w) + 1 :: u32) < 32 | Fp_store t \<Rightarrow> t \<noteq> Sdc1
     | Load_op lt \<Rightarrow> lt \<in> int_loads | Fp_load lt \<Rightarrow> lt \<in> {Lwc1, Ldc1} | Nop \<Rightarrow> False | _ \<Rightarrow> True)"

lemma in_file_nonneg: "in_file N k p \<Longrightarrow> p \<noteq> -1"
  by (simp add: in_file_def)

lemmas typed_simps = typed_def op_ids_def fp_srcs_def fp_dests_def

lemma move_fine:
  assumes t: "typed N op u" "core_ok m N F M"
  shows "op = Mtc0 \<Longrightarrow> fine m N F (mtc0_execute u M)" "op = Mfc1 \<Longrightarrow> fine m N F (mfc1_execute u M)" "op = Mtc1 \<Longrightarrow> fine m N F (mtc1_execute u M)"
    "op = Lo_hi_move lh \<Longrightarrow> fine m N F (lo_hi_execute u M)"
proof -
  assume op: "op = Mtc0"
  then have i: "in_file N GPR (src u 0)" "in_file N CPR0 (prf_idx u)" using t(1) by (simp_all add: typed_simps)
  then obtain b where "mtc0_ready u M = Inr b" using ready_total[OF core_okD(1)[OF t(2)], of "opt GPR 0 u"] by (cases "src u 0 = -1") (auto simp: mtc0_ready_def opt_def)
  then show "fine m N F (mtc0_execute u M)" unfolding mtc0_execute_def using i t(2) by (simp, intro fine_intros)
next
  assume op: "op = Mfc1"
  then have i: "in_file N CPR1 (src u 0)" "in_file N GPR (prf_idx u)" using t(1) by (simp_all add: typed_simps)
  then obtain b where "mfc1_ready u M = Inr b" using ready_total[OF core_okD(1)[OF t(2)], of "opt CPR1 0 u"] by (cases "src u 0 = -1") (auto simp: mfc1_ready_def opt_def)
  then show "fine m N F (mfc1_execute u M)" unfolding mfc1_execute_def using i t(2) by (simp, intro fine_intros)
qed (use t in \<open>auto simp: mtc1_execute_def lo_hi_execute_def typed_simps intro!: fine_intros\<close>)

lemma int_fine:
  assumes t: "typed N op u" "core_ok m N F M" and d: "defined_op op (op_inst u)"
  shows "op = Itype_alu \<Longrightarrow> fine m N F (itype_execute u M)" "op = Itype_lui \<Longrightarrow> fine m N F (lui_execute u M)"
    "op = Mul_op \<Longrightarrow> fine m N F (mul_execute u M)" "op = Clz_op \<Longrightarrow> fine m N F (clz_execute u M)" "op = Se_op se \<Longrightarrow> fine m N F (se_execute se u M)"
    "op = Ext_op \<Longrightarrow> fine m N F (ext_execute u M)" "op = Ins_op \<Longrightarrow> fine m N F (ins_execute u M)" "op = Movci_op \<Longrightarrow> fine m N F (movci_execute u M)"
    "op = Monitor_op \<Longrightarrow> fine m N F (monitor_execute u M)"
  using t d
  by (auto simp: itype_execute_def itype_value_def lui_execute_def mul_execute_def clz_execute_def se_execute_def ext_execute_def ins_execute_def
      movci_execute_def monitor_execute_def typed_simps defined_op_def Let_def intro!: fine_intros fine_ensure)

lemma rtype_fine:
  assumes t: "typed N op u" "core_ok m N F M" and p: "op_dests op (op_inst u) = [] \<Longrightarrow> prf_idx u = -1"
  shows "op = Rtype_alu rt \<Longrightarrow> fine m N F (rtype_execute rt u M)" "op = Rtype_const_shift rt \<Longrightarrow> rt \<in> {Sll, Srl, Sra} \<Longrightarrow> fine m N F (rtype_execute rt u M)"
proof -
  have v: "rtype_value2 rt b a \<noteq> Inl Undefined" for b a by (cases rt) (simp_all add: rtype_value2_def)
  show "op = Rtype_alu rt \<Longrightarrow> fine m N F (rtype_execute rt u M)"
    using t p
    by (auto simp: rtype_execute_def typed_simps Let_def split: if_split_asm intro!: fine_intros fine_rbind_total[OF v])
  show "op = Rtype_const_shift rt \<Longrightarrow> rt \<in> {Sll, Srl, Sra} \<Longrightarrow> fine m N F (rtype_execute rt u M)"
    using t p
    by (auto simp: rtype_execute_def typed_simps Let_def split: if_split_asm intro!: fine_intros)
qed

lemma mult_div_fine:
  assumes t: "typed N (Mult_div mdt) u" "core_ok m N F M"
  shows "fine m N F (mult_div_execute mdt u M)"
  using t
  by (cases mdt) (auto simp: mult_div_execute_def typed_simps uses_acc_def Let_def rbind_assoc ensure_def intro!: fine_intros)

lemma control_fine:
  assumes t: "typed N op u" "core_ok m N F M"
  shows "op = Jump jt \<Longrightarrow> fine m N F (jump_execute jt u M)" "op = Branch bt \<Longrightarrow> fine m N F (branch_execute bt u M)"
proof -
  have m: "core_ok m N F (M\<lparr>alloc_blocked := b\<rparr>)" for b using t(2) by (simp add: core_ok_def ren_ok_def)
  show "op = Jump jt \<Longrightarrow> fine m N F (jump_execute jt u M)"
    using t by (auto simp: jump_execute_def jump_target_def jump_dest_def typed_simps Let_def intro!: fine_intros)
  show "op = Branch bt \<Longrightarrow> fine m N F (branch_execute bt u M)"
    using t m by (cases bt) (auto simp: branch_execute_def branch_cond_def branch_two_def is_fp_branch_def typed_simps rbind_assoc Let_def intro!: fine_intros)
qed

lemma access_fine:
  assumes "core_ok m N F M" "fresh_ok m (fresh (cenv (host S)))"
  shows "fine m N F (l1d_load S a addr u M)" "fine m N F (l1d_store S lat a addr u M)"
proof -
  have q: "fine m N F (cache_op f S a addr u M)" if "l1cache M \<noteq> []" "f = read_op \<or> f = write_op" for f
  proof -
    let ?t = "(cyc_table (ops M))(a \<mapsto> op_cycles.truncate u)"
    have e: "fresh_ok m (fresh (env_now S M))" using assms(2) by (simp add: env_now_def)
    have ta: "?t a = Some (op_cycles.truncate u)" by simp
    from call_ok[where t = ?t and a = a and f = f, OF that(1) core_okD(2)[OF assms(1)] e ta that(2), of addr]
    consider "f (env_now S M) a addr (l1cache M) ?t = Inl AssertFail"
      | lat cs' oc' where "f (env_now S M) a addr (l1cache M) ?t = Inr (lat, cs', ?t(a \<mapsto> oc'))" "wf_caches m cs'" by blast
    then show ?thesis
      using assms(1) by cases (auto simp: cache_op_def fine_def core_ok_def ren_ok_def)
  qed
  show "fine m N F (l1d_load S a addr u M)" "fine m N F (l1d_store S lat a addr u M)"
    using assms(1) q by (simp_all add: l1d_load_def l1d_store_def fine_basic)
qed

lemma memory_fine:
  assumes t: "typed N op u" "core_ok m N F M" "fresh_ok m (fresh (cenv (host S)))" and d: "defined_op op (op_inst u)"
  shows "op = Load_op lt \<Longrightarrow> fine m N F (load_execute S lt a u M)" "op = Store_op st \<Longrightarrow> fine m N F (store_execute S a u M)"
    "op = Fp_load lt \<Longrightarrow> fine m N F (fp_load_execute S lt a u M)" "op = Fp_store ft \<Longrightarrow> fine m N F (fp_store_execute S ft a u M)"
  using t d access_fine[OF t(2,3)]
  by (auto simp: load_execute_def load_src1_def store_execute_def fp_load_execute_def fp_store_execute_def typed_simps defined_op_def rbind_assoc Let_def
      split: fp_store_type.split intro!: fine_intros)

lemma fp_move_fine:
  assumes t: "typed N op u" "core_ok m N F M"
  shows "op = Fmovc_op \<Longrightarrow> fine m N F (fmovc_execute u M)" "op = Fmovn_op \<Longrightarrow> fine m N F (fmovn_execute u M)"
    "op = Fmovz_op \<Longrightarrow> fine m N F (fmovz_execute u M)"
  using t
  by (auto simp: fmovc_execute_def fmovn_execute_def fmovz_execute_def move_if_def is_d_def typed_simps Let_def split: if_split_asm intro!: fine_intros)

lemma cmp_fine:
  assumes t: "typed N Fp_cmp u" "core_ok m N F M"
  shows "fine m N F (cmp_execute u M)"
proof -
  have c: "compare_cond c e l g \<noteq> Inl Undefined" for c e l g by (simp add: compare_cond_def)
  show ?thesis
    using t by (auto simp: cmp_execute_def cmp_value_def is_d_def typed_simps Let_def rbind_assoc split: if_split_asm
        intro!: fine_intros fine_rbind_total[OF c])
qed

lemma arith_fine:
  assumes t: "typed N op u" "core_ok m N F M"
  shows "op = Fp_arith fot \<Longrightarrow> fine m N F (arith_execute S fot u M)" "op = Fp_fma b fmt \<Longrightarrow> fine m N F (fma_execute S b fmt u M)"
proof -
  have c: "arith_d f fot x y \<noteq> Inl Undefined" "arith_s f fot x' y' \<noteq> Inl Undefined" for f x y x' y'
    by (cases fot; simp add: arith_d_def arith_s_def)+
  show "op = Fp_arith fot \<Longrightarrow> fine m N F (arith_execute S fot u M)"
    using t by (auto simp: arith_execute_def arith_execute_double_def arith_execute_float_def is_d_def typed_simps split: if_split_asm
        intro!: fine_intros fine_rbind_total[OF c(1)] fine_rbind_total[OF c(2)])
  show "op = Fp_fma b fmt \<Longrightarrow> fine m N F (fma_execute S b fmt u M)"
    using t by (auto simp: fma_execute_def fma_execute_double_def fma_execute_float_def typed_simps split: if_split_asm intro!: fine_intros)
qed

text \<open>Conversions of the host that are undefined for a value stay undefined.\<close>

definition total_fpu :: "fpu \<Rightarrow> bool" where
  "total_fpu f \<longleftrightarrow> (\<forall>x. s_to_w f x \<noteq> Inl Undefined) \<and> (\<forall>x. d_to_w f x \<noteq> Inl Undefined)"

lemma convert_fine:
  assumes t: "typed N op u" "core_ok m N F M" and f: "total_fpu (fp (host S))"
  shows "op = Cvts_truncw ct \<Longrightarrow> fine m N F (cvts_execute S ct u M)" "op = Cvtd_op \<Longrightarrow> fine m N F (cvtd_execute S u M)"
proof -
  have c: "s_to_w (fp (host S)) x \<noteq> Inl Undefined" "d_to_w (fp (host S)) y \<noteq> Inl Undefined" for x y
    using f by (simp_all add: total_fpu_def)
  show "op = Cvts_truncw ct \<Longrightarrow> fine m N F (cvts_execute S ct u M)"
    using t by (cases ct) (auto simp: cvts_execute_def execute_cvts_def execute_truncw_def is_d_def typed_simps rbind_assoc split: if_split_asm
        intro!: fine_intros fine_rbind_total[OF c(1)] fine_rbind_total[OF c(2)])
  show "op = Cvtd_op \<Longrightarrow> fine m N F (cvtd_execute S u M)"
    using t by (auto simp: cvtd_execute_def typed_simps intro!: fine_intros)
qed

section \<open>Soundness\<close>

lemma shift_types:
  assumes "decode_op w = Inr (Some op)"
  shows "op = Rtype_const_shift t \<Longrightarrow> t \<in> {Sll, Srl, Sra}" "op \<noteq> Nop" "op = Load_op lt \<Longrightarrow> lt \<in> int_loads" "op = Fp_load lt \<Longrightarrow> lt \<in> {Lwc1, Ldc1}"
proof -
  show "op = Rtype_const_shift t \<Longrightarrow> t \<in> {Sll, Srl, Sra}" using decode_Rtype[OF assms, where t = t] by (auto simp: op_table_rtype_def)
  show "op \<noteq> Nop" using assms by (cases rule: decode_cases) (auto simp: op_tables)
  show "op = Load_op lt \<Longrightarrow> lt \<in> int_loads" using decode_Itype[OF assms, where lt = lt] by (auto simp: op_table_itype_def int_loads_def)
  show "op = Fp_load lt \<Longrightarrow> lt \<in> {Lwc1, Ldc1}" using decode_Itype[OF assms, where lt = lt] by (auto simp: op_table_itype_def)
qed

lemma no_dest_prf:
  assumes "allocate_op op a u M = Inr (u1, M1, True)" "op = Rtype_alu t \<or> op = Rtype_const_shift t" "op_dests op (op_inst u) = []"
  shows "prf_idx u1 = prf_idx u"
  using assms(2)
proof
  assume "op = Rtype_alu t"
  then show ?thesis using assms rtype_no_dest[of True t u M u1 M1] by (simp split: if_split_asm)
next
  assume "op = Rtype_const_shift t"
  then show ?thesis using assms rtype_no_dest[of False t u M u1 M1] by (simp split: if_split_asm)
qed

lemma execute_fine:
  assumes t: "typed N op u" "core_ok m N F M" "fresh_ok m (fresh (cenv (host S)))" "total_fpu (fp (host S))" and d: "defined_op op (op_inst u)"
    and p: "\<And>t. op = Rtype_alu t \<or> op = Rtype_const_shift t \<Longrightarrow> op_dests op (op_inst u) = [] \<Longrightarrow> prf_idx u = -1"
      "\<And>t. op = Rtype_const_shift t \<Longrightarrow> t \<in> {Sll, Srl, Sra}"
  shows "fine m N F (execute_op S op a u M)"
proof (cases op)
  case (Rtype_alu x)
  then show ?thesis using rtype_fine(1)[OF t(1,2) p(1), of x x] by simp
next
  case (Rtype_const_shift x)
  then show ?thesis using rtype_fine(2)[OF t(1,2) p(1), of x x] p(2) by simp
qed (use t d in \<open>auto simp: move_fine int_fine mult_div_fine control_fine memory_fine fp_move_fine cmp_fine arith_fine convert_fine
  break_execute_def sync_execute_def fine_basic defined_op_def\<close>)

text \<open>
  C10. Decoded operations are type-safe, with the data caches attached or without: an operation of any class whose registers
  exist (a double is not in register 31) and which is not one of those the code leaves undefined (\<open>defined_op\<close>: a bit field
  of 32 bits, an immediate operation or \<open>lui\<close> into register 0, the double store) is allocated without error in a
  well-formed core, and when it then executes it never accesses a name outside its register file, a cache set, a line of
  one or a miss-queue entry that is not there, or any other undefined place; it may stop the simulator (an assertion
  where the miss queue is full included) or trap, and where it returns the core is well-formed again, its caches and their
  miss queues included, with the operation's renamings in flight.  The caches are any hierarchy of set-associative levels,
  the only class that \<open>main\<close> creates, of an associativity of at least 2 (\<open>wf_level\<close>) and at most \<open>m\<close>, for which the
  allocator returns fresh nodes; the host's conversions from floating point to integer are taken to be defined for every
  value (\<open>total_fpu\<close>).
\<close>

theorem decoded_ops_type_safe:
  assumes "ren_ok N F M" "tables_ok M" "64 dvd N GPR" "64 dvd N CPR1"
    and "decode_op (op_inst u) = Inr (Some op)" "regs_ok op (op_inst u)" "defined_op op (op_inst u)" "prf_idx u = -1"
    and "wf_caches m (l1cache M)" "fresh_ok m (fresh (cenv (host S)))" "total_fpu (fp (host S))"
  shows "\<exists>u1 M1 ok. allocate_op op a u M = Inr (u1, M1, ok) \<and> (ok \<longrightarrow> execute_op S op a u1 M1 \<noteq> Inl Undefined \<and>
    (\<forall>u2 M2. execute_op S op a u1 M1 = Inr (u2, M2) \<longrightarrow>
       ren_ok N (\<lambda>k. F k @ op_renamings op u1 k) M2 \<and> wf_caches m (l1cache M2)))"
proof -
  note A = allocate_op_ok[OF assms(1-4,6), of a]
  then obtain u1 M1 ok where x: "allocate_op op a u M = Inr (u1, M1, ok)" by (auto simp: allocates_def)
  have "fine m N (\<lambda>k. F k @ op_renamings op u1 k) (execute_op S op a u1 M1)" if "ok"
  proof -
    have al: "grows N F (op_renamings op u1) M M1" "kept u u1" "list_all (\<lambda>(i, k, d). src u1 i = rat (rf M k) ! d) (op_srcs op (op_inst u))"
      using A x that by (simp_all add: allocates_done)
    have i: "op_inst u1 = op_inst u" using al(2) by (simp add: kept_def)
    have ok1: "core_ok m N (\<lambda>k. F k @ op_renamings op u1 k) M1" using al(1) assms(9) by (simp add: grows_def core_ok_def)
    have ty: "typed N op u1" by (rule allocated_typed[OF assms(1) al assms(6)])
    have "op_dests op (op_inst u1) = [] \<Longrightarrow> prf_idx u1 = -1" if "op = Rtype_alu t \<or> op = Rtype_const_shift t" for t
      using no_dest_prf[of op a u M u1 M1 t] x \<open>ok\<close> that assms(8) i by simp
    then show ?thesis using execute_fine[OF ty ok1 assms(10,11)] assms(7) i shift_types(1)[OF assms(5)] by simp
  qed
  then show ?thesis using x by (auto simp: fine_def core_ok_def)
qed

text \<open>A word load on a core with a one-level cache of four sets of two lines.\<close>

abbreviation cached_params :: params where
  "cached_params \<equiv> sample_params\<lparr>cenv := sample_env\<rparr>"

theorem decoded_ops_type_safe_witness:
  "\<exists>M u1 M1. ren_ok (num_prf default_sizes) (\<lambda>_. []) M \<and> l1cache M = [sample_cache] \<and>
     allocate_op (Load_op Lw) 7 (sample_op 0x8c850003) M = Inr (u1, M1, True) \<and>
     execute_op (default_param cached_params (\<lambda>h w. h)) (Load_op Lw) 7 u1 M1 \<noteq> Inl Undefined"
proof -
  let ?w = "0x8c850003" and ?op = "Load_op Lw" and ?S = "default_param cached_params (\<lambda>h w. h)"
  obtain M0 where M0: "ren_ok (num_prf default_sizes) (\<lambda>_. []) M0" "tables_ok M0" "find_first_unset (load_tbl_freevec M0) \<noteq> -1"
    by (rule sample_memory)
  let ?M = "M0\<lparr>l1cache := [sample_cache]\<rparr>"
  have M: "ren_ok (num_prf default_sizes) (\<lambda>_. []) ?M" "tables_ok ?M" using M0 by (simp_all add: ren_ok_def tables_ok_def)
  have "inflight sample_cache = new_sim_list 4" by (simp add: sample_cache_def)
  then have c: "wf_caches 2 (l1cache ?M)" using wf_sample_cache conjunct2[OF chain_handles[OF chain_new]] by (simp add: wf_caches_def)
  have d: "decode_op (op_inst (sample_op ?w)) = Inr (Some ?op)" by (subst sample_op_inst) code_simp
  have r: "regs_ok ?op (op_inst (sample_op ?w))" "defined_op ?op (op_inst (sample_op ?w))"
    by (simp_all add: regs_ok_def reg_less34 defined_op_def int_loads_def)
  have p: "prf_idx (sample_op ?w) = -1" by (simp add: sample_op_def new_meta_op_def)
  have f: "fresh_ok 2 (fresh (cenv (host ?S)))" "total_fpu (fp (host ?S))"
    using fresh_ok_first_fit by (simp_all add: total_fpu_def default_param_def sample_params_def sample_env_def)
  obtain u1 M1 where a: "allocate_op ?op 7 (sample_op ?w) ?M = Inr (u1, M1, True)"
    using M by (rule sample_load_allocates) (use M0(3) in simp_all)
  from decoded_ops_type_safe[OF M sample_prf d r p c f, of 7] a have "execute_op ?S ?op 7 u1 M1 \<noteq> Inl Undefined" by (auto simp del: execute_op.simps)
  then show ?thesis using M(1) a by (intro exI[of _ ?M] exI[of _ u1] exI[of _ M1]) simp
qed

end
