(* ===== verification/Op_Float.thy ===== *)
theory Op_Float
  imports Op_Types
begin

text \<open>
  The floating-point operations of the core against the interpreter.  A double is a pair of
  neighbouring registers, each with a name of its own; arithmetic is the host's on both sides.
\<close>

section \<open>The interpreter\<close>

definition dreg :: "state \<Rightarrow> nat \<Rightarrow> u64" where
  "dreg s r = le64 (cpr1 s r) (cpr1 s (r + 1))"

definition put_s :: "nat \<Rightarrow> u32 \<Rightarrow> state \<Rightarrow> state" where
  "put_s d x s = next_insn (set_s d x s)"

definition put_d :: "nat \<Rightarrow> u64 \<Rightarrow> state \<Rightarrow> state" where
  "put_d d z s = next_insn (s\<lparr>cpr1 := (cpr1 s)(d := lo32 z, d + 1 := hi32 z)\<rparr>)"

lemma shapes_Inr:
  "un_s f w s = Inr s' \<Longrightarrow> s' = put_s (fd_of w) (f (cpr1 s (fs_of w))) s"
  "bin_s g w s = Inr s' \<Longrightarrow> s' = put_s (fd_of w) (g (cpr1 s (fs_of w)) (cpr1 s (ft_of w))) s"
  "un_d h w s = Inr s' \<Longrightarrow> s' = put_d (fd_of w) (h (dreg s (fs_of w))) s"
  "bin_d k w s = Inr s' \<Longrightarrow> s' = put_d (fd_of w) (k (dreg s (fs_of w)) (dreg s (ft_of w))) s"
  by (auto simp: un_s_def bin_s_def un_d_def bin_d_def put_s_def put_d_def dreg_def get_d_def set_d_def rbind_Inr_iff ensure_Inr_iff)

text \<open>What the arithmetic of the interpreter puts into the destination.\<close>

definition arith_value_s :: "fpu \<Rightarrow> fp_op_type \<Rightarrow> u32 \<Rightarrow> u32 \<Rightarrow> u32" where
  "arith_value_s f t x y = (case t of Fadd \<Rightarrow> f_add f x y | Fsub \<Rightarrow> f_sub f x y | Fmul \<Rightarrow> f_mul f x y | Fdiv \<Rightarrow> f_div f x y
     | Fsqrt \<Rightarrow> f_sqrt f x | Fabs \<Rightarrow> (if fp_lt inf_s x 0 then fp_neg x else x) | Fneg \<Rightarrow> fp_neg x | _ \<Rightarrow> x)"

definition arith_value_d :: "fpu \<Rightarrow> fp_op_type \<Rightarrow> u64 \<Rightarrow> u64 \<Rightarrow> u64" where
  "arith_value_d f t x y = (case t of Fadd \<Rightarrow> d_add f x y | Fsub \<Rightarrow> d_sub f x y | Fmul \<Rightarrow> d_mul f x y | Fdiv \<Rightarrow> d_div f x y
     | Fsqrt \<Rightarrow> d_sqrt f x | Fabs \<Rightarrow> (if fp_lt inf_d x 0 then fp_neg x else x) | Fneg \<Rightarrow> fp_neg x | _ \<Rightarrow> x)"

lemma exec_cp1:
  assumes "decode_op w = Inr (Some op)" "op = Fp_cmp \<or> op = Fp_arith f \<or> op = Cvts_truncw c \<or> op \<in> {Cvtd_op, Fmovc_op, Fmovn_op, Fmovz_op}"
  shows "op = Fp_cmp \<and> exec_insn P K w s = c_insn w s \<or>
    op \<noteq> Fp_cmp \<and> (funct_of w, op) \<in> set op_table_cp1 \<and> exec_insn P K w s = coproc1_op P w s"
proof -
  have o: "opcode_of w = 0x11" using assms by (cases rule: decode_cases) (auto simp: op_tables)
  have "fmt_of w \<noteq> 8 \<and> \<not> (fld w 0 11 = 0 \<and> (fmt_of w = 0 \<or> fmt_of w = 4)) \<and>
      (funct_of w div 16 = 3 \<and> op = Fp_cmp \<or> funct_of w div 16 \<noteq> 3 \<and> (funct_of w, op) \<in> set op_table_cp1)"
    using decode_coproc1_op[OF assms(1) o] assms(2) by auto
  moreover have "Fp_cmp \<notin> snd ` set op_table_cp1" by (simp add: op_table_cp1_def)
  moreover have "exec_insn P K w s = execCoproc1 P K w s" using o by (simp add: exec_insn_def getInsnType_def)
  ultimately show ?thesis by (auto simp: execCoproc1_def fmt_of_def funct_of_def Let_def image_iff)
qed

lemma copy2_Inr:
  assumes "copy2 b w s = Inr s1" "b \<Longrightarrow> fs_of w + 1 \<noteq> fd_of w"
  shows "next_insn s1 = put_d (fd_of w) (dreg s (if b then fs_of w else fd_of w)) s"
  using assms by (cases b) (auto simp: copy2_def put_d_def dreg_def set_s_def ensure_Inr_iff Let_def)

lemma movd_Inr: "movd w s = Inr s' \<Longrightarrow> fs_of w + 1 \<noteq> fd_of w \<Longrightarrow> s' = put_d (fd_of w) (dreg s (fs_of w)) s"
  by (auto simp: movd_def rbind_Inr_iff dest!: copy2_Inr)

lemma by_fmt_Inr: "by_fmt g h w s = Inr s' \<Longrightarrow> fmt_of w = 16 \<and> g w s = Inr s' \<or> fmt_of w = 17 \<and> h w s = Inr s'"
  by (auto simp: by_fmt_def split: if_splits)

lemmas arith_insn_defs = fadd_insn_def fsub_insn_def fmul_insn_def fdiv_insn_def fsqrt_insn_def fabs_insn_def fmov_insn_def fneg_insn_def
  adds_def addd_def subs_def subd_def muls_def muld_def divs_def divd_def sqrts_def sqrtd_def abss_def absd_def movs_def negs_def negd_def

lemma exec_arith:
  assumes "decode_op w = Inr (Some (Fp_arith t))" "exec_insn P K w s = Inr s'" "t \<notin> {Frecip, Frsqrt}" "t = Fmov \<Longrightarrow> fmt_of w = 17 \<Longrightarrow> fs_of w + 1 \<noteq> fd_of w"
  shows "fmt_of w = 16 \<and> s' = put_s (fd_of w) (arith_value_s (fp P) t (cpr1 s (fs_of w)) (cpr1 s (ft_of w))) s \<or>
    fmt_of w = 17 \<and> s' = put_d (fd_of w) (arith_value_d (fp P) t (dreg s (fs_of w)) (dreg s (ft_of w))) s"
proof -
  have x: "(funct_of w, Fp_arith t) \<in> set op_table_cp1" "coproc1_op P w s = Inr s'"
    using exec_cp1[OF assms(1), of t, of _ P K s] assms(2) by auto
  then have "t = Fadd \<and> fadd_insn P w s = Inr s' \<or> t = Fsub \<and> fsub_insn P w s = Inr s' \<or> t = Fmul \<and> fmul_insn P w s = Inr s' \<or>
    t = Fdiv \<and> fdiv_insn P w s = Inr s' \<or> t = Fsqrt \<and> fsqrt_insn P w s = Inr s' \<or> t = Fabs \<and> fabs_insn w s = Inr s' \<or>
    t = Fmov \<and> fmov_insn w s = Inr s' \<or> t = Fneg \<and> fneg_insn w s = Inr s'"
    using assms(3) by (simp add: op_table_cp1_def coproc1_op_def funct_of_def Let_def) (elim disjE conjE; simp)
  then show ?thesis
    using assms(4)
    by (elim disjE conjE)
      (unfold arith_insn_defs, auto dest!: by_fmt_Inr shapes_Inr movd_Inr simp: arith_value_s_def arith_value_d_def)
qed

text \<open>The comparison, the conversions and the conditional moves.\<close>

definition compare_regs :: "u32 \<Rightarrow> state \<Rightarrow> bool res" where
  "compare_regs w s = (if fmt_of w = 17
     then compare_by (fld w 0 4) (fp_eq inf_d (dreg s (fs_of w)) (dreg s (ft_of w))) (fp_lt inf_d (dreg s (fs_of w)) (dreg s (ft_of w)))
       (fp_le inf_d (dreg s (fs_of w)) (dreg s (ft_of w)))
     else compare_by (fld w 0 4) (fp_eq inf_s (cpr1 s (fs_of w)) (cpr1 s (ft_of w))) (fp_lt inf_s (cpr1 s (fs_of w)) (cpr1 s (ft_of w)))
       (fp_le inf_s (cpr1 s (fs_of w)) (cpr1 s (ft_of w))))"

lemma exec_cmp:
  assumes "decode_op w = Inr (Some Fp_cmp)" "exec_insn P K w s = Inr s'"
  shows "fmt_of w \<in> {16, 17} \<and> (\<exists>v. compare_regs w s = Inr v \<and> s' = next_insn (setConditionCode (of_bool v) (fld w 8 3) s))"
proof -
  have "c_insn w s = Inr s'" using exec_cp1[OF assms(1), of undefined undefined P K s] assms(2) by simp
  then consider "fmt_of w = 16" "cs_insn w s = Inr s'" | "fmt_of w = 17" "cd_insn w s = Inr s'"
    unfolding c_insn_def using by_fmt_Inr by blast
  then show ?thesis
  proof cases
    case 1
    then have "rbind (compare_regs w s) (\<lambda>v. Inr (next_insn (setConditionCode (of_bool v) (fld w 8 3) s))) = Inr s'"
      by (simp add: cs_insn_def compare_regs_def Let_def)
    then show ?thesis using 1(1) unfolding rbind_Inr_iff by blast
  next
    case 2
    then obtain x y where "get_d (fs_of w) s = Inr x" "get_d (ft_of w) s = Inr y"
      "rbind (compare_by (fld w 0 4) (fp_eq inf_d x y) (fp_lt inf_d x y) (fp_le inf_d x y))
        (\<lambda>v. Inr (next_insn (setConditionCode (of_bool v) (fld w 8 3) s))) = Inr s'"
      unfolding cd_insn_def rbind_Inr_iff by blast
    then have "rbind (compare_regs w s) (\<lambda>v. Inr (next_insn (setConditionCode (of_bool v) (fld w 8 3) s))) = Inr s'"
      using 2(1) by (auto simp: compare_regs_def get_d_def dreg_def ensure_Inr_iff)
    then show ?thesis using 2(1) unfolding rbind_Inr_iff by blast
  qed
qed

lemma exec_convert:
  assumes "decode_op w = Inr (Some op)" "exec_insn P K w s = Inr s'"
  shows "op = Cvts_truncw Cvts \<Longrightarrow> fmt_of w = 17 \<and> s' = put_s (fd_of w) (d_to_s (fp P) (dreg s (fs_of w))) s \<or>
      fmt_of w = 20 \<and> s' = put_s (fd_of w) (w_to_s (fp P) (cpr1 s (fs_of w))) s"
    "op = Cvts_truncw Truncw \<Longrightarrow> \<exists>x. (fmt_of w = 16 \<and> s_to_w (fp P) (cpr1 s (fs_of w)) = Inr x \<or>
      fmt_of w = 17 \<and> d_to_w (fp P) (dreg s (fs_of w)) = Inr x) \<and> s' = put_s (fd_of w) x s"
    "op = Cvtd_op \<Longrightarrow> fmt_of w = 16 \<and> s' = put_d (fd_of w) (s_to_d (fp P) (cpr1 s (fs_of w))) s \<or>
      fmt_of w = 20 \<and> s' = put_d (fd_of w) (w_to_d (fp P) (cpr1 s (fs_of w))) s"
proof -
  have x: "(funct_of w, op) \<in> set op_table_cp1 \<and> coproc1_op P w s = Inr s'" if "op = Cvts_truncw c \<or> op = Cvtd_op" for c
    using exec_cp1[OF assms(1), of _ c P K s] assms(2) that by auto
  show "fmt_of w = 17 \<and> s' = put_s (fd_of w) (d_to_s (fp P) (dreg s (fs_of w))) s \<or>
      fmt_of w = 20 \<and> s' = put_s (fd_of w) (w_to_s (fp P) (cpr1 s (fs_of w))) s" if "op = Cvts_truncw Cvts"
    using x[of Cvts] that
    by (auto simp: op_table_cp1_def coproc1_op_def funct_of_def cvts_def put_s_def dreg_def get_d_def rbind_Inr_iff ensure_Inr_iff Let_def split: if_split_asm)
  show "\<exists>x. (fmt_of w = 16 \<and> s_to_w (fp P) (cpr1 s (fs_of w)) = Inr x \<or>
      fmt_of w = 17 \<and> d_to_w (fp P) (dreg s (fs_of w)) = Inr x) \<and> s' = put_s (fd_of w) x s" if "op = Cvts_truncw Truncw"
    using x[of Truncw] that
    by (auto simp: op_table_cp1_def coproc1_op_def funct_of_def truncw_def put_s_def dreg_def get_d_def rbind_Inr_iff ensure_Inr_iff Let_def split: if_split_asm)
  show "fmt_of w = 16 \<and> s' = put_d (fd_of w) (s_to_d (fp P) (cpr1 s (fs_of w))) s \<or>
      fmt_of w = 20 \<and> s' = put_d (fd_of w) (w_to_d (fp P) (cpr1 s (fs_of w))) s" if "op = Cvtd_op"
    using x that
    by (auto simp: op_table_cp1_def coproc1_op_def funct_of_def cvtd_def put_d_def set_d_def rbind_Inr_iff ensure_Inr_iff Let_def split: if_split_asm)
qed

text \<open>A conditional move writes its destination in any case, with what it held where the condition fails.\<close>

definition move_cond :: "mips_op \<Rightarrow> u32 \<Rightarrow> state \<Rightarrow> bool" where
  "move_cond op w s \<longleftrightarrow> (if op = Fmovc_op then (getConditionCode s (cc_of w) \<noteq> 0) = (tf_of w \<noteq> 0)
     else (gpr s (rt_of w) \<noteq> 0) = (op = Fmovn_op))"

lemma put_same: "next_insn s = put_d d (dreg s d) s" "put_s d (cpr1 s d) s = next_insn s"
  by (simp_all add: put_d_def put_s_def dreg_def set_s_def)

lemma exec_cond_move:
  assumes "decode_op w = Inr (Some op)" "exec_insn P K w s = Inr s'" "op \<in> {Fmovc_op, Fmovn_op, Fmovz_op}" "fmt_of w = 17 \<longrightarrow> fs_of w + 1 \<noteq> fd_of w"
  shows "fmt_of w = 16 \<and> s' = put_s (fd_of w) (cpr1 s (if move_cond op w s then fs_of w else fd_of w)) s \<or>
    fmt_of w = 17 \<and> s' = put_d (fd_of w) (dreg s (if move_cond op w s then fs_of w else fd_of w)) s"
proof -
  let ?c = "move_cond op w s"
  have "(funct_of w, op) \<in> set op_table_cp1 \<and> coproc1_op P w s = Inr s'"
    using exec_cp1[OF assms(1), of undefined undefined P K s] assms(2,3) by auto
  then consider "op = Fmovc_op" "fmovc_insn w s = Inr s'" | "op = Fmovn_op" "fmovn_insn w s = Inr s'" | "op = Fmovz_op" "fmovz_insn w s = Inr s'"
    using assms(3) by (auto simp: op_table_cp1_def coproc1_op_def funct_of_def Let_def)
  then obtain g h where "by_fmt g h w s = Inr s'" "g w s = Inr (put_s (fd_of w) (cpr1 s (if ?c then fs_of w else fd_of w)) s)"
    "h w s = rbind (copy2 ?c w s) (\<lambda>s1. Inr (next_insn s1)) \<or> \<not> ?c \<and> h w s = Inr (next_insn s)"
  proof cases
    case 1
    then show thesis
      by (intro that[of movcs movcd])
        (simp_all add: fmovc_insn_def move_cond_def movcs_def movcd_def copy1_def put_s_def condition_bit)
  next
    case 2
    then show thesis by (intro that[of movns movnd]) (simp_all add: fmovn_insn_def move_cond_def movns_def movnd_def copy1_def put_s_def)
  next
    case 3
    then show thesis by (intro that[of movzs movzd]) (simp_all add: fmovz_insn_def move_cond_def movzs_def movzd_def copy1_def put_s_def)
  qed
  note B = this
  from by_fmt_Inr[OF B(1)] show ?thesis
  proof (elim disjE conjE)
    assume "fmt_of w = 17" "h w s = Inr s'"
    moreover have "s' = put_d (fd_of w) (dreg s (if ?c then fs_of w else fd_of w)) s"
      using B(3)
    proof
      assume "h w s = rbind (copy2 ?c w s) (\<lambda>s1. Inr (next_insn s1))"
      with \<open>h w s = Inr s'\<close> have "rbind (copy2 ?c w s) (\<lambda>s1. Inr (next_insn s1)) = Inr s'" by simp
      then obtain s1 where "copy2 ?c w s = Inr s1" "s' = next_insn s1" by (auto simp: rbind_Inr_iff)
      then show ?thesis using copy2_Inr assms(4) \<open>fmt_of w = 17\<close> by simp
    next
      assume "\<not> ?c \<and> h w s = Inr (next_insn s)"
      then show ?thesis using \<open>h w s = Inr s'\<close> put_same(1)[of s "fd_of w"] by simp
    qed
    ultimately show ?thesis by simp
  qed (use B(2) in simp)
qed

lemma fld_halves: "fld w 3 3 = fld w 0 6 div 8"
proof -
  have f: "fld w lo n = (unat w div 2 ^ lo) mod 2 ^ n" for lo n
    by (simp only: fld_def take_bit_eq_mask[symmetric] unat_take_bit unat_drop)
  have "x div 8 mod 8 = x mod 64 div 8" for x :: nat using mod_mult2_eq[of x 8 8] by simp
  then show ?thesis by (simp add: f)
qed

lemma exec_fma:
  assumes "decode_op w = Inr (Some (Fp_fma sub fmt))" "exec_insn P K w s = Inr s'"
  shows "fmt = F32 \<and> s' = put_s (fd_of w) ((if sub then f_msub (fp P) else f_madd (fp P)) (cpr1 s (fs_of w)) (cpr1 s (ft_of w)) (cpr1 s (rs_of w))) s \<or>
    fmt = F64 \<and> s' = put_d (fd_of w) ((if sub then d_msub (fp P) else d_madd (fp P)) (dreg s (fs_of w)) (dreg s (ft_of w)) (dreg s (rs_of w))) s"
proof -
  have o: "opcode_of w = 0x13" using assms(1) by (cases rule: decode_cases) (auto simp: op_tables)
  have d: "fld w 3 3 \<in> {4, 5}" "sub \<longleftrightarrow> fld w 3 3 = 5" "fmt = (if fld w 0 3 = 0 then F32 else F64)"
    using decode_other_op(4)[OF assms(1) o] by auto
  have "fld w 0 6 \<noteq> 0" "fld w 0 6 \<noteq> 1" using d(1) fld_halves[of w] by auto
  moreover have "execCoproc1x P w s = Inr s'" using assms(2) o by (simp add: exec_insn_def getInsnType_def)
  ultimately have "c1x_fmt (c1x_of w) = 0 \<and> c1x_float P (c1x_of w) s = Inr s' \<or> c1x_fmt (c1x_of w) = 1 \<and> c1x_double P (c1x_of w) s = Inr s'"
    by (auto simp: execCoproc1x_def lc1x_of_def split: if_split_asm)
  then show ?thesis
    using d
    by (elim disjE conjE)
      (auto simp: c1x_float_def c1x_double_def c1x_of_def put_s_def put_d_def dreg_def get_d_def set_d_def fd_of_def fs_of_def ft_of_def rs_of_def
        rbind_Inr_iff ensure_Inr_iff Let_def)
qed

section \<open>Absolute values\<close>

text \<open>The interpreter negates a value below zero and the core clears the sign bit, so they differ for
  a negative zero and for a number that is not one.\<close>

definition plain_abs :: "'a::len word \<Rightarrow> 'a word \<Rightarrow> bool" where
  "plain_abs fi x \<longleftrightarrow> \<not> bit x (LENGTH('a) - 1) \<or> fp_lt fi x 0"

lemma abs_agrees:
  fixes x :: "'a::len word"
  assumes "plain_abs fi x"
  shows "fp_abs x = (if fp_lt fi x 0 then fp_neg x else x)"
proof -
  have n: "n < LENGTH('a) - Suc 0 \<longleftrightarrow> n \<noteq> LENGTH('a) - Suc 0" if "n < LENGTH('a)" for n using that by linarith
  show ?thesis
proof (cases "bit x (LENGTH('a) - 1)")
  case True
  then have "fp_lt fi x 0" using assms by (simp add: plain_abs_def)
  moreover have "fp_abs x = fp_neg x" using True
    by (intro bit_word_eqI) (auto simp: fp_abs_def fp_neg_def bit_take_bit_iff bit_xor_iff bit_exp_iff n)
  ultimately show ?thesis by simp
next
  case False
  then have "\<not> fp_lt fi x 0" by (auto simp: fp_lt_def fp_key_def Let_def)
  moreover have "fp_abs x = x" using False
    by (intro bit_word_eqI) (auto simp: fp_abs_def bit_take_bit_iff n)
  ultimately show ?thesis by simp
qed
qed

section \<open>Sources and destinations in the core\<close>

lemma started_pair:
  assumes st: "started N F op s M u u1 M1" and r: "(i, CPR1, r) \<in> set (op_srcs op (op_inst u))" "(j, CPR1, r + 1) \<in> set (op_srcs op (op_inst u))" "r + 1 < 32"
  shows "pair_val i j u1 M1 = Inr (dreg s r)"
  using started_src[OF st r(1)] started_src[OF st r(2)] r(3) by (simp add: pair_val_def dreg_def)

lemma reach_s:
  assumes "started N F op s M u u1 M1" "op_dests op (op_inst u) = [(CPR1, d)]" "\<And>t. op \<noteq> Mult_div t" "d < 32"
  shows "reaches N (\<lambda>j. F j @ op_renamings op u1 j) (smem M) (put_s d x s) (result CPR1 x lat u1 M1)"
  by (rule started_result[OF assms(1-3)]) (use assms(4) in \<open>simp_all add: put_s_def\<close>)

lemma pair_renamings:
  assumes "op_dests op (op_inst u) = fp_dests True d" "\<And>t. op \<noteq> Mult_div t"
  shows "op_renamings op u = (\<lambda>j. if j = CPR1 then [(d, prev_prf_idx u, prf_idx u), (d + 1, aux_prev_prf_idx u, aux_prf_idx u)] else [])"
proof -
  have "op_ids op u = [(prev_prf_idx u, prf_idx u), (aux_prev_prf_idx u, aux_prf_idx u)]"
    using assms(2) by (cases op) (auto simp: op_ids_def)
  then show ?thesis using assms(1) by (auto simp: op_renamings_def fp_dests_def fun_eq_iff)
qed

lemma put_d_regs: "arch_reg j r (put_d d z s) = (if j = CPR1 \<and> r = d then lo32 z else if j = CPR1 \<and> r = d + 1 then hi32 z else arch_reg j r s)"
  by (cases j) (auto simp: put_d_def)

lemma writes_reach:
  assumes st: "started N F op s M u u1 M1" and d: "op_dests op (op_inst u) = fp_dests True d" "\<And>t. op \<noteq> Mult_div t" "d + 1 < 32"
  shows "\<exists>M2 M3. on_rf CPR1 (write_prf (prf_idx u1) (lo32 z)) M1 = Inr M2 \<and> on_rf CPR1 (write_prf (aux_prf_idx u1) (hi32 z)) M2 = Inr M3 \<and>
    holds M3 (put_d d z s) \<and> ren_ok N (\<lambda>j. F j @ op_renamings op u1 j) M3 \<and> smem M3 = smem M"
proof -
  have s: "ren_ok N F M" "holds M s" "grows N F (op_renamings op u1) M M1" using st by (simp_all add: started_def)
  have g: "op_renamings op u1 = (\<lambda>j. if j = CPR1 then [(d, prev_prf_idx u1, prf_idx u1), (d + 1, aux_prev_prf_idx u1, aux_prf_idx u1)] else [])"
    using pair_renamings[of op u1 d] d(1,2) started_inst[OF st] by simp
  obtain M2 M3 where "on_rf CPR1 (write_prf (prf_idx u1) (lo32 z)) M1 = Inr M2" "on_rf CPR1 (write_prf (aux_prf_idx u1) (hi32 z)) M2 = Inr M3"
    "holds M3 (put_d d z s)" "ren_ok N (\<lambda>j. F j @ op_renamings op u1 j) M3" "smem M3 = smem M"
    using two_results[OF s(1,2) _ _ _ s(3) g put_d_regs[where z = z]] d(3) by force
  then show ?thesis by blast
qed

lemma reach_d:
  assumes "started N F op s M u u1 M1" "op_dests op (op_inst u) = fp_dests True d" "\<And>t. op \<noteq> Mult_div t" "d + 1 < 32"
  shows "reaches N (\<lambda>j. F j @ op_renamings op u1 j) (smem M) (put_d d z s) (rbind (write_pair z u1 M1) (\<lambda>M2. Inr (f M2, M2)))"
  using writes_reach[OF assms, of z] by (auto simp: reaches_def write_pair_def)

text \<open>A name that was claimed is not that of a source, so it may be written before the source is read.\<close>

lemma fresh_source:
  assumes st: "started N F op s M u u1 M1" and i: "(i, k, r) \<in> set (op_srcs op (op_inst u))" "r < arch_count k"
    and p: "p \<in> set (new_ids (op_renamings op u1 k))"
  shows "src u1 i \<noteq> p"
proof -
  have s: "ren_ok N F M" "grows N F (op_renamings op u1) M M1" "src u1 i = rat (rf M k) ! r"
    using st i by (auto simp: started_def list_all_iff)
  have "src u1 i \<in> set (rat_retire (rf M k)) \<union> set (new_ids (F k))" using rat_bounds[OF s(1) i(2)] s(3) by simp
  then have "src u1 i \<in> used (freevec (rf M k))" using ren_okD[OF s(1), of k] by (auto simp: renaming_inv_def)
  then show ?thesis using grows_fresh[OF s(1,2), of k] p by blast
qed

section \<open>The classes\<close>

lemma fmts: "FMT_S = 16" "FMT_D = 17" "FMT_W = 20"
  by (simp_all add: FMT_S_def FMT_D_def FMT_W_def)

lemma fp_less [simp]: "fd_of w < 32" "fs_of w < 32" "ft_of w < 32" "rs_of w < 32"
proof -
  have "fld w i 5 < 32" for i by (simp only: fld_def take_bit_eq_mask[symmetric] unat_take_bit) simp
  then show "fd_of w < 32" "fs_of w < 32" "ft_of w < 32" "rs_of w < 32" by (simp_all only: fd_of_def fs_of_def ft_of_def rs_of_def)
qed

definition abs_agree :: "fp_op_type \<Rightarrow> u32 \<Rightarrow> state \<Rightarrow> bool" where
  "abs_agree t w s \<longleftrightarrow> (t = Fabs \<longrightarrow> (if fmt_of w = 17 then plain_abs inf_d (dreg s (fs_of w)) else plain_abs inf_s (cpr1 s (fs_of w))))"

lemma arith_values:
  "t \<notin> {Frecip, Frsqrt} \<Longrightarrow> t = Fabs \<Longrightarrow> plain_abs inf_s x \<Longrightarrow> \<exists>lat. arith_s f t x y = Inr (arith_value_s f t x y, lat)"
  "t \<notin> {Frecip, Frsqrt} \<Longrightarrow> t \<noteq> Fabs \<Longrightarrow> \<exists>lat. arith_s f t x y = Inr (arith_value_s f t x y, lat)"
  "t \<notin> {Frecip, Frsqrt} \<Longrightarrow> t = Fabs \<Longrightarrow> plain_abs inf_d a \<Longrightarrow> \<exists>lat. arith_d f t a b = Inr (arith_value_d f t a b, lat)"
  "t \<notin> {Frecip, Frsqrt} \<Longrightarrow> t \<noteq> Fabs \<Longrightarrow> \<exists>lat. arith_d f t a b = Inr (arith_value_d f t a b, lat)"
  by (cases t; simp add: arith_s_def arith_d_def arith_value_s_def arith_value_d_def abs_agrees)+

lemma arith_refines:
  assumes st: "started N F (Fp_arith t) s M u u1 M1" and ok: "regs_ok (Fp_arith t) (op_inst u)" and dec: "decode_op (op_inst u) = Inr (Some (Fp_arith t))"
    and ex: "exec_insn P K (op_inst u) s = Inr s'" and t: "t \<notin> {Frecip, Frsqrt}" "t = Fmov \<and> fmt_of (op_inst u) = 17 \<longrightarrow> fs_of (op_inst u) + 1 \<noteq> fd_of (op_inst u)" "abs_agree t (op_inst u) s"
    and f: "fp (host S) = fp P"
  shows "reaches N (\<lambda>j. F j @ op_renamings (Fp_arith t) u1 j) (smem M) s' (arith_execute S t u1 M1)"
proof -
  let ?w = "op_inst u"
  have i: "op_inst u1 = ?w" using started_inst[OF st] by simp
  from exec_arith[OF dec ex t(1)] t(2) have x: "fmt_of ?w = 16 \<and> s' = put_s (fd_of ?w) (arith_value_s (fp P) t (cpr1 s (fs_of ?w)) (cpr1 s (ft_of ?w))) s \<or>
    fmt_of ?w = 17 \<and> s' = put_d (fd_of ?w) (arith_value_d (fp P) t (dreg s (fs_of ?w)) (dreg s (ft_of ?w))) s" by simp
  then show ?thesis
  proof (elim disjE conjE)
    assume fm: "fmt_of ?w = 16" and s': "s' = put_s (fd_of ?w) (arith_value_s (fp P) t (cpr1 s (fs_of ?w)) (cpr1 s (ft_of ?w))) s"
    have src: "src_val CPR1 0 u1 M1 = Inr (cpr1 s (fs_of ?w))" "arith_two_srcs t \<Longrightarrow> src_val CPR1 1 u1 M1 = Inr (cpr1 s (ft_of ?w))"
      using started_src[OF st, of 0 CPR1 "fs_of ?w"] started_src[OF st, of 1 CPR1 "ft_of ?w"] fm by (simp_all add: fmts)
    define y where "y = (if arith_two_srcs t then cpr1 s (ft_of ?w) else 0)"
    obtain lat where l: "arith_s (fp P) t (cpr1 s (fs_of ?w)) y = Inr (arith_value_s (fp P) t (cpr1 s (fs_of ?w)) y, lat)"
      using arith_values(1,2)[OF t(1), where f = "fp P" and x = "cpr1 s (fs_of ?w)" and y = y] t(3) fm by (cases "t = Fabs") (auto simp: abs_agree_def)
    have "arith_value_s (fp P) t (cpr1 s (fs_of ?w)) y = arith_value_s (fp P) t (cpr1 s (fs_of ?w)) (cpr1 s (ft_of ?w))"
      by (cases t) (simp_all add: arith_value_s_def y_def arith_two_srcs_def)
    then have "arith_execute S t u1 M1 = result CPR1 (arith_value_s (fp P) t (cpr1 s (fs_of ?w)) (cpr1 s (ft_of ?w))) lat u1 M1"
      using src l fm by (simp add: arith_execute_def arith_execute_float_def is_d_def i fmts f y_def split: if_splits)
    then show ?thesis using reach_s[OF st, of "fd_of ?w"] fm s' by (simp add: fp_dests_def fmts)
  next
    assume fm: "fmt_of ?w = 17" and s': "s' = put_d (fd_of ?w) (arith_value_d (fp P) t (dreg s (fs_of ?w)) (dreg s (ft_of ?w))) s"
    have r: "fd_of ?w + 1 < 32" "fs_of ?w + 1 < 32" "arith_two_srcs t \<Longrightarrow> ft_of ?w + 1 < 32"
      using ok fm by (auto simp: regs_ok_def fp_dests_def fp_srcs_def fmts)
    have src: "pair_val 0 1 u1 M1 = Inr (dreg s (fs_of ?w))" "arith_two_srcs t \<Longrightarrow> pair_val 2 3 u1 M1 = Inr (dreg s (ft_of ?w))"
      using started_pair[OF st, of 0 "fs_of ?w" 1] started_pair[OF st, of 2 "ft_of ?w" 3] fm r by (simp_all add: fmts fp_srcs_def)
    define y where "y = (if arith_two_srcs t then dreg s (ft_of ?w) else 0)"
    obtain lat where l: "arith_d (fp P) t (dreg s (fs_of ?w)) y = Inr (arith_value_d (fp P) t (dreg s (fs_of ?w)) y, lat)"
      using arith_values(3,4)[OF t(1), where f = "fp P" and a = "dreg s (fs_of ?w)" and b = y] t(3) fm by (cases "t = Fabs") (auto simp: abs_agree_def)
    have "arith_value_d (fp P) t (dreg s (fs_of ?w)) y = arith_value_d (fp P) t (dreg s (fs_of ?w)) (dreg s (ft_of ?w))"
      by (cases t) (simp_all add: arith_value_d_def y_def arith_two_srcs_def)
    then have "arith_execute S t u1 M1 = rbind (write_pair (arith_value_d (fp P) t (dreg s (fs_of ?w)) (dreg s (ft_of ?w))) u1 M1)
        (\<lambda>M1. Inr (finish_in lat u1 M1, M1))"
      using src l fm by (simp add: arith_execute_def arith_execute_double_def is_d_def i fmts f y_def split: if_splits)
    then show ?thesis using reach_d[OF st, of "fd_of ?w"] fm s' r(1) by (simp add: fmts)
  qed
qed

lemma reach_w:
  assumes "started N F op s M u u1 M1" "op_dests op (op_inst u) = [(CPR1, d)]" "\<And>t. op \<noteq> Mult_div t" "d < 32"
  shows "reaches N (\<lambda>j. F j @ op_renamings op u1 j) (smem M) (put_s d x s) (rbind (on_rf CPR1 (write_prf (prf_idx u1) x) M1) (\<lambda>M2. Inr (f M2, M2)))"
  using reach_s[OF assms, of x undefined] by (auto simp: reaches_def result_def rbind_Inr_iff)

lemma fma_refines:
  assumes st: "started N F (Fp_fma b t) s M u u1 M1" and ok: "regs_ok (Fp_fma b t) (op_inst u)" and dec: "decode_op (op_inst u) = Inr (Some (Fp_fma b t))"
    and ex: "exec_insn P K (op_inst u) s = Inr s'" and f: "fp (host S) = fp P"
  shows "reaches N (\<lambda>j. F j @ op_renamings (Fp_fma b t) u1 j) (smem M) s' (fma_execute S b t u1 M1)"
proof -
  let ?w = "op_inst u"
  show ?thesis
    using exec_fma[OF dec ex]
  proof (elim disjE conjE)
    assume t: "t = F32" and s': "s' = put_s (fd_of ?w) ((if b then f_msub (fp P) else f_madd (fp P)) (cpr1 s (fs_of ?w)) (cpr1 s (ft_of ?w)) (cpr1 s (rs_of ?w))) s"
    have src: "src_val CPR1 0 u1 M1 = Inr (cpr1 s (fs_of ?w))" "src_val CPR1 1 u1 M1 = Inr (cpr1 s (ft_of ?w))" "src_val CPR1 2 u1 M1 = Inr (cpr1 s (rs_of ?w))"
      using started_src[OF st, of 0 CPR1 "fs_of ?w"] started_src[OF st, of 1 CPR1 "ft_of ?w"] started_src[OF st, of 2 CPR1 "rs_of ?w"] t by simp_all
    have "fma_execute S b t u1 M1 = result CPR1 ((if b then f_msub (fp P) else f_madd (fp P)) (cpr1 s (fs_of ?w)) (cpr1 s (ft_of ?w)) (cpr1 s (rs_of ?w))) 3 u1 M1"
      using src t f by (simp add: fma_execute_def fma_execute_float_def)
    then show ?thesis using reach_s[OF st, of "fd_of ?w"] t s' by (simp add: fp_dests_def)
  next
    assume t: "t = F64" and s': "s' = put_d (fd_of ?w) ((if b then d_msub (fp P) else d_madd (fp P)) (dreg s (fs_of ?w)) (dreg s (ft_of ?w)) (dreg s (rs_of ?w))) s"
    have r: "fd_of ?w + 1 < 32" "fs_of ?w + 1 < 32" "ft_of ?w + 1 < 32" "rs_of ?w + 1 < 32"
      using ok t by (simp_all add: regs_ok_def fp_dests_def fp_srcs_def)
    have src: "pair_val 0 1 u1 M1 = Inr (dreg s (fs_of ?w))" "pair_val 2 3 u1 M1 = Inr (dreg s (ft_of ?w))" "pair_val 4 5 u1 M1 = Inr (dreg s (rs_of ?w))"
      using started_pair[OF st, of 0 "fs_of ?w" 1] started_pair[OF st, of 2 "ft_of ?w" 3] started_pair[OF st, of 4 "rs_of ?w" 5] t r by (simp_all add: fp_srcs_def)
    have "fma_execute S b t u1 M1 = rbind (write_pair ((if b then d_msub (fp P) else d_madd (fp P)) (dreg s (fs_of ?w)) (dreg s (ft_of ?w)) (dreg s (rs_of ?w))) u1 M1)
        (\<lambda>M1. Inr (finish_in 3 u1 M1, M1))"
      using src t f by (simp add: fma_execute_def fma_execute_double_def)
    then show ?thesis using reach_d[OF st, of "fd_of ?w"] t s' r(1) by simp
  qed
qed

lemma cmp_refines:
  assumes st: "started N F Fp_cmp s M u u1 M1" and ok: "regs_ok Fp_cmp (op_inst u)" and dec: "decode_op (op_inst u) = Inr (Some Fp_cmp)"
    and ex: "exec_insn P K (op_inst u) s = Inr s'"
  shows "reaches N (\<lambda>j. F j @ op_renamings Fp_cmp u1 j) (smem M) s' (cmp_execute u1 M1)"
proof -
  let ?w = "op_inst u"
  have i: "op_inst u1 = ?w" using started_inst[OF st] by simp
  obtain v where v: "fmt_of ?w \<in> {16, 17}" "compare_regs ?w s = Inr v" "s' = next_insn (setConditionCode (of_bool v) (fld ?w 8 3) s)"
    using exec_cmp[OF dec ex] by blast
  have c: "compare_by c e l g = Inr v \<Longrightarrow> compare_cond c e l g = Inr v" for c e l g by (auto simp: compare_by_def compare_cond_def split: if_splits)
  have cr: "src_val FCR1 4 u1 M1 = Inr (fcr1 s 2)" using started_src[OF st, of 4 FCR1 2] by (simp add: fp_srcs_def)
  have "cmp_value u1 M1 = Inr v"
  proof (cases "fmt_of ?w = 17")
    case True
    have r: "fs_of ?w + 1 < 32" "ft_of ?w + 1 < 32" using ok True by (simp_all add: regs_ok_def fp_srcs_def fmts)
    have "pair_val 0 2 u1 M1 = Inr (dreg s (fs_of ?w))" "pair_val 1 3 u1 M1 = Inr (dreg s (ft_of ?w))"
      using started_pair[OF st, of 0 "fs_of ?w" 2] started_pair[OF st, of 1 "ft_of ?w" 3] True r by (simp_all add: fmts fp_srcs_def)
    then show ?thesis using v(2) True c by (simp add: cmp_value_def compare_regs_def is_d_def i fmts Let_def)
  next
    case False
    have "src_val CPR1 0 u1 M1 = Inr (cpr1 s (fs_of ?w))" "src_val CPR1 1 u1 M1 = Inr (cpr1 s (ft_of ?w))"
      using started_src[OF st, of 0 CPR1 "fs_of ?w"] started_src[OF st, of 1 CPR1 "ft_of ?w"] by (simp_all add: fp_srcs_def)
    then show ?thesis using v(1,2) False c by (simp add: cmp_value_def compare_regs_def is_d_def i fmts Let_def)
  qed
  then have e: "cmp_execute u1 M1 = result FCR1 (setCC (fcr1 s 2) (of_bool v) (fld ?w 8 3)) 1 u1 M1" using cr i by (simp add: cmp_execute_def)
  have "reaches N (\<lambda>j. F j @ op_renamings Fp_cmp u1 j) (smem M) s' (result FCR1 (setCC (fcr1 s 2) (of_bool v) (fld ?w 8 3)) 1 u1 M1)"
    by (rule started_result[OF st, where d = 2]) (simp_all add: v(3) setConditionCode_def setCC_def Let_def)
  then show ?thesis using e by simp
qed

lemma convert_refines:
  assumes st: "started N F op s M u u1 M1" and ok: "regs_ok op (op_inst u)" and dec: "decode_op (op_inst u) = Inr (Some op)"
    and ex: "exec_insn P K (op_inst u) s = Inr s'" and f: "fp (host S) = fp P"
  shows "op = Cvts_truncw c \<Longrightarrow> reaches N (\<lambda>j. F j @ op_renamings op u1 j) (smem M) s' (cvts_execute S c u1 M1)"
    "op = Cvtd_op \<Longrightarrow> reaches N (\<lambda>j. F j @ op_renamings op u1 j) (smem M) s' (cvtd_execute S u1 M1)"
proof -
  let ?w = "op_inst u"
  have i: "op_inst u1 = ?w" using started_inst[OF st] by simp
  have src: "src_val CPR1 0 u1 M1 = Inr (cpr1 s (fs_of ?w))" if "op = Cvts_truncw c \<or> op = Cvtd_op"
    using started_src[OF st, of 0 CPR1 "fs_of ?w"] that by (auto simp: fp_srcs_def)
  have src2: "pair_val 0 1 u1 M1 = Inr (dreg s (fs_of ?w))" if "op = Cvts_truncw c" "fmt_of ?w = 17"
    using started_pair[OF st, of 0 "fs_of ?w" 1] that ok by (auto simp: fmts fp_srcs_def regs_ok_def)
  show "reaches N (\<lambda>j. F j @ op_renamings op u1 j) (smem M) s' (cvts_execute S c u1 M1)" if op: "op = Cvts_truncw c"
  proof -
    have "\<exists>x. s' = put_s (fd_of ?w) x s \<and> cvts_execute S c u1 M1 = rbind (on_rf CPR1 (write_prf (prf_idx u1) x) M1) (\<lambda>M1. Inr (finish_in 1 u1 M1, M1))"
    proof (cases c)
      case Cvts
      then show ?thesis using exec_convert(1)[OF dec ex] op src src2 f
        by (auto simp: cvts_execute_def execute_cvts_def is_d_def i fmts)
    next
      case Truncw
      then show ?thesis using exec_convert(2)[OF dec ex] op src src2 f
        by (auto simp: cvts_execute_def execute_truncw_def is_d_def i fmts)
    qed
    then show ?thesis using reach_w[OF st, of "fd_of ?w"] op by auto
  qed
  show "reaches N (\<lambda>j. F j @ op_renamings op u1 j) (smem M) s' (cvtd_execute S u1 M1)" if op: "op = Cvtd_op"
  proof -
    have "\<exists>x. s' = put_d (fd_of ?w) x s \<and> cvtd_execute S u1 M1 = rbind (write_pair x u1 M1) (\<lambda>M1. Inr (finish_in 1 u1 M1, M1))"
      using exec_convert(3)[OF dec ex op] op src f by (auto simp: cvtd_execute_def i fmts)
    moreover have "fd_of ?w + 1 < 32" using ok op by (simp add: regs_ok_def fp_dests_def)
    ultimately show ?thesis using reach_d[OF st, of "fd_of ?w"] op by auto
  qed
qed

lemma val_after_write: "on_rf k (write_prf p x) M = Inr M2 \<Longrightarrow> i \<noteq> p \<Longrightarrow> val j i M2 = val j i M"
  using write_prf_frame[of k p x M M2] by (auto simp: val_def at_idx_def nth_res_def nat_eq_iff)

lemma move_refines:
  assumes st: "started N F op s M u u1 M1" and ok: "regs_ok op (op_inst u)" and op: "op \<in> {Fmovc_op, Fmovn_op, Fmovz_op}"
    and s': "fmt_of (op_inst u) = 16 \<and> s' = put_s (fd_of (op_inst u)) (cpr1 s (if c then fs_of (op_inst u) else fd_of (op_inst u))) s \<or>
    fmt_of (op_inst u) = 17 \<and> s' = put_d (fd_of (op_inst u)) (dreg s (if c then fs_of (op_inst u) else fd_of (op_inst u))) s"
  shows "reaches N (\<lambda>j. F j @ op_renamings op u1 j) (smem M) s' (move_if c u1 M1)"
proof -
  let ?w = "op_inst u" and ?r = "if c then fs_of (op_inst u) else fd_of (op_inst u)"
  have i: "op_inst u1 = ?w" using started_inst[OF st] by simp
  have nm: "op \<noteq> Mult_div t" for t using op by auto
  have src: "src_val CPR1 (if c then 0 else 1) u1 M1 = Inr (cpr1 s ?r)"
    using started_src[OF st, of 0 CPR1 "fs_of ?w"] started_src[OF st, of 1 CPR1 "fd_of ?w"] op by (auto simp: fp_srcs_def)
  show ?thesis
    using s'
  proof (elim disjE conjE)
    assume fm: "fmt_of ?w = 16" and s': "s' = put_s (fd_of ?w) (cpr1 s ?r) s"
    then have "move_if c u1 M1 = result CPR1 (cpr1 s ?r) 1 u1 M1" using src by (simp add: move_if_def is_d_def i fmts)
    then show ?thesis using reach_s[OF st _ nm, of "fd_of ?w"] fm s' op by (auto simp: fp_dests_def fmts)
  next
    assume fm: "fmt_of ?w = 17" and s': "s' = put_d (fd_of ?w) (dreg s ?r) s"
    have r: "fd_of ?w + 1 < 32" "fs_of ?w + 1 < 32" using ok op fm by (auto simp: regs_ok_def fp_dests_def fp_srcs_def fmts)
    have in2: "(if c then 2 else 3, CPR1, ?r + 1) \<in> set (op_srcs op ?w)" "?r + 1 < 32" using op fm r by (auto simp: fp_srcs_def fmts)
    have d: "op_dests op ?w = fp_dests True (fd_of ?w)" using op fm by (auto simp: fmts)
    obtain M2 M3 where w: "on_rf CPR1 (write_prf (prf_idx u1) (cpr1 s ?r)) M1 = Inr M2" "on_rf CPR1 (write_prf (aux_prf_idx u1) (cpr1 s (?r + 1))) M2 = Inr M3"
      "holds M3 s'" "ren_ok N (\<lambda>j. F j @ op_renamings op u1 j) M3" "smem M3 = smem M"
      using writes_reach[OF st d nm r(1), of "dreg s ?r"] s' by (auto simp: dreg_def)
    have "op_dests op (op_inst u1) = fp_dests True (fd_of ?w)" using d i by simp
    then have "prf_idx u1 \<in> set (new_ids (op_renamings op u1 CPR1))" using pair_renamings[OF _ nm] by simp
    then have "src u1 (if c then 2 else 3) \<noteq> prf_idx u1" using fresh_source[OF st in2(1)] in2(2) by simp
    then have "src_val CPR1 (if c then 2 else 3) u1 M2 = Inr (cpr1 s (?r + 1))"
      using started_src[OF st in2(1)] in2(2) val_after_write[OF w(1)] by (simp add: src_val_def)
    then have "move_if c u1 M1 = Inr (finish_in 1 u1 M3, M3)" using src w(1,2) fm by (simp add: move_if_def is_d_def i fmts)
    then show ?thesis using w(3-5) by (simp add: reaches_def)
  qed
qed

section \<open>All of them\<close>

text \<open>
  The floating-point operations that compute what the interpreter computes: not the reciprocals, which
  the core stops at; not a double move from the register just before its destination, whose first half
  the interpreter overwrites before it is read; and an absolute value where the two agree.
\<close>

definition exact_fp :: "mips_op \<Rightarrow> u32 \<Rightarrow> state \<Rightarrow> bool" where
  "exact_fp op w s \<longleftrightarrow> regs_ok op w \<and> (case op of
     Fp_arith t \<Rightarrow> t \<notin> {Frecip, Frsqrt} \<and> (t = Fmov \<and> fmt_of w = 17 \<longrightarrow> fs_of w + 1 \<noteq> fd_of w) \<and> abs_agree t w s
   | Fp_fma b t \<Rightarrow> True | Cvts_truncw c \<Rightarrow> True
   | _ \<Rightarrow> op \<in> {Fp_cmp, Cvtd_op} \<or> op \<in> {Fmovc_op, Fmovn_op, Fmovz_op} \<and> (fmt_of w = 17 \<longrightarrow> fs_of w + 1 \<noteq> fd_of w))"

lemma cond_move_refines:
  assumes st: "started N F op s M u u1 M1" and ok: "regs_ok op (op_inst u)" and dec: "decode_op (op_inst u) = Inr (Some op)"
    and ex: "exec_insn P K (op_inst u) s = Inr s'" and op: "op \<in> {Fmovc_op, Fmovn_op, Fmovz_op}" "fmt_of (op_inst u) = 17 \<longrightarrow> fs_of (op_inst u) + 1 \<noteq> fd_of (op_inst u)"
  shows "reaches N (\<lambda>j. F j @ op_renamings op u1 j) (smem M) s' (execute_op S op a u1 M1)"
proof -
  let ?w = "op_inst u"
  have i: "op_inst u1 = ?w" using started_inst[OF st] by simp
  have m: "reaches N (\<lambda>j. F j @ op_renamings op u1 j) (smem M) s' (move_if (move_cond op ?w s) u1 M1)"
    by (rule move_refines[OF st ok op(1) exec_cond_move[OF dec ex op]])
  have "execute_op S op a u1 M1 = move_if (move_cond op ?w s) u1 M1"
  proof (cases "op = Fmovc_op")
    case True
    have "src_val FCR1 4 u1 M1 = Inr (fcr1 s 2)" using started_src[OF st, of 4 FCR1 2] True by (simp add: fp_srcs_def)
    then show ?thesis using True i
      by (cases "getConditionCode s (cc_of ?w) = 0"; cases "tf_of ?w = 0") (simp_all add: fmovc_execute_def move_cond_def getCC_interp)
  next
    case False
    then have "src_val GPR 4 u1 M1 = Inr (gpr s (rt_of ?w))" using started_src[OF st, of 4 GPR "rt_of ?w"] op(1) reg_less[of ?w] by (auto simp: fp_srcs_def)
    then show ?thesis using False op(1) by (auto simp: fmovn_execute_def fmovz_execute_def move_cond_def)
  qed
  then show ?thesis using m by simp
qed

text \<open>
  C3. The core computes what the interpreter computes with floating-point numbers too: where the mapped physical
  registers hold the registers of an architectural state and core and interpreter have the same host arithmetic, a
  floating-point instruction whose registers exist (a double is not in register 31) and that is decoded,
  allocated and executed leaves the mapped registers as the interpreter leaves its registers, for arithmetic, multiply-add,
  comparison, conversion and conditional moves, of singles and of doubles held in pairs of registers.  Left out, because
  core and interpreter differ on them (\<open>exact_fp\<close>), are \<open>recip\<close> and \<open>rsqrt\<close>, at which the core stops; a double move or conditional move
  from the register just before its destination, where the interpreter overwrites half of a double before it reads it; and an
  absolute value on which clearing the sign bit and the host's comparison with zero give different bits (minus zero, or a NaN whose sign bit is set).
\<close>

theorem fp_ops_refine_interpreter:
  assumes "ren_ok N F M" "tables_ok M" "64 dvd N GPR" "64 dvd N CPR1" "holds M s"
    and "decode_op (op_inst u) = Inr (Some op)" "exact_fp op (op_inst u) s" "fp (host S) = fp P"
    and "allocate_op op a u M = Inr (u1, M1, True)" "exec_insn P K (op_inst u) s = Inr s'"
  shows "\<exists>u2 M2. execute_op S op a u1 M1 = Inr (u2, M2) \<and> holds M2 s' \<and> smem M2 = smem M \<and>
    ren_ok N (\<lambda>k. F k @ op_renamings op u1 k) M2"
proof -
  have ok: "regs_ok op (op_inst u)" using assms(7) by (simp add: exact_fp_def)
  have st: "started N F op s M u u1 M1" by (rule startedI[OF assms(1-4) ok assms(5,9)])
  have "reaches N (\<lambda>j. F j @ op_renamings op u1 j) (smem M) s' (execute_op S op a u1 M1)"
  proof (cases op)
    case (Fp_arith t)
    then show ?thesis using arith_refines[of N F t s M u u1 M1 P K s' S] st ok assms(6,7,8,10) by (simp add: exact_fp_def)
  next
    case (Fp_fma b t)
    then show ?thesis using fma_refines[of N F b t s M u u1 M1 P K s' S] st ok assms(6,8,10) by simp
  next
    case (Cvts_truncw c)
    then show ?thesis using convert_refines(1)[OF st ok assms(6,10,8) Cvts_truncw] by simp
  next
    case Cvtd_op
    then show ?thesis using convert_refines(2)[OF st ok assms(6,10,8) Cvtd_op] by simp
  next
    case Fp_cmp
    then show ?thesis using cmp_refines[of N F s M u u1 M1 P K s'] st ok assms(6,10) by simp
  qed (use assms(7) cond_move_refines[OF st ok assms(6,10)] in \<open>auto simp: exact_fp_def\<close>)
  then show ?thesis by (auto simp: reaches_def)
qed

text \<open>\<open>neg.s $f2, $f4\<close> of zero.\<close>

theorem fp_ops_refine_interpreter_witness:
  "\<exists>M u1 M1 u2 M2. holds M sample_state \<and> allocate_op (Fp_arith Fneg) 7 (sample_op 0x46002087) M = Inr (u1, M1, True) \<and>
     execute_op (default_param sample_params (\<lambda>h w. h)) (Fp_arith Fneg) 7 u1 M1 = Inr (u2, M2) \<and> reg_val CPR1 2 M2 = 0x80000000"
proof -
  let ?w = "0x46002087" and ?op = "Fp_arith Fneg" and ?S = "default_param sample_params (\<lambda>h w. h)" and ?N = "num_prf default_sizes"
  have w: "fd_of ?w = 2" "fs_of ?w = 4" "fmt_of ?w = 16" "opcode_of ?w = 0x11" "funct_of ?w = 7" "fld ?w 0 11 \<noteq> 0" "decode_op ?w = Inr (Some ?op)"
    by code_simp+
  obtain M where M: "ren_ok ?N (\<lambda>_. []) M" "tables_ok M" "holds M sample_state" by (rule sample_start)
  have inv: "renaming_inv 32 (?N CPR1) [] (rf M CPR1)" using ren_okD[OF M(1), of CPR1] by simp
  have "card (used (freevec (rf M CPR1))) = 32" "?N CPR1 = 64" using renaming_inv_card[OF inv] by (simp_all add: default_sizes_def)
  then have free: "(if False then 2 else 1) \<le> ?N CPR1 - card (used (freevec (rf M CPR1)))" by simp
  let ?u = "(sample_op ?w)\<lparr>prev_prf_idx := rat (rf M CPR1) ! 2, src := (src (sample_op ?w))(0 := rat (rf M CPR1) ! 4)\<rparr>"
  obtain u1 M1 where "claim_pair False 2 ?u M = Inr (u1, M1, True)"
    by (rule claim_pair_ok[OF M(1) _ _ free, of 2 ?u]) auto
  then have a: "allocate_op ?op 7 (sample_op ?w) M = Inr (u1, M1, True)"
    using free M(1) w by (simp add: arith_allocate_def arith_allocate_float_def is_d_def fmts if_free_def num_free_ok sample_prf note_prev_def
        mapped_ok set_src_ok arith_two_srcs_def Let_def)
  have d: "decode_op (op_inst (sample_op ?w)) = Inr (Some ?op)" using w by simp
  have x: "exact_fp ?op (op_inst (sample_op ?w)) sample_state"
    using w by (simp add: exact_fp_def regs_ok_def fp_dests_def fmts abs_agree_def)
  have f: "fp (host ?S) = fp sample_params" by (simp add: default_param_def)
  have e: "exec_insn sample_params Inr (op_inst (sample_op ?w)) sample_state = Inr (put_s 2 (fp_neg (cpr1 sample_state 4)) sample_state)"
    using exec_cp1[OF w(7), of Fneg undefined sample_params Inr sample_state] w
    by (simp add: coproc1_op_def funct_of_def fneg_insn_def by_fmt_def negs_def un_s_def put_s_def Let_def)
  obtain u2 M2 where m: "execute_op ?S ?op 7 u1 M1 = Inr (u2, M2)" "holds M2 (put_s 2 (fp_neg (cpr1 sample_state 4)) sample_state)"
    using fp_ops_refine_interpreter[OF M(1,2) sample_prf M(3) d x f a e] by blast
  have "cpr1 sample_state 4 = 0" by (simp add: sample_state_def new_state_def set_gpr_def)
  then have "reg_val CPR1 2 M2 = 0x80000000" using holdsD[OF m(2), of 2 CPR1] by (simp add: put_s_def fp_neg_def)
  with M(3) a m(1) show ?thesis by blast
qed

end
