(* ===== verification/Core_Oracle.thy ===== *)
theory Core_Oracle
  imports Core_Retire
begin

text \<open>
  The other instance of the stages of \<^verbatim>\<open>sim_ooo/ooo_core.cc\<close>, with the branch oracle: fetch runs a
  second interpreter, the oracle, on a copy of the state and the memory, at most one instruction
  ahead, and goes where the oracle went.  The predictors and the return stack are not used.  What the
  oracle adds to a restart is its assertion and the count of fetched instructions it sets back.
\<close>

text \<open>The oracle starts as a silent copy of the interpreter; its time and its history are its own.\<close>

definition new_oracle :: "u32 \<Rightarrow> state \<Rightarrow> state res" where
  "new_oracle t s = rbind (copy_mem (new_mem 0) (mem s)) (\<lambda>m. Inr (copy_state s ((new_state m t)\<lparr>silent := True\<rparr>)))"

text \<open>
  The history of the instruction to be fetched, after the oracle has executed it: whether it was
  taken, whether it skips its delay slot, and where it led.  A stopped oracle says nothing.
\<close>

definition oracle_history :: "params \<Rightarrow> nat \<Rightarrow> sim_state \<Rightarrow> state \<Rightarrow> (history \<times> state) res" where
  "oracle_history P k M s = rbind (if fetched_insns M = icnt s then execMips P k s else Inr s) (\<lambda>s1.
     let hh = hbuf s1 (hidx (fetched_insns M))
     in if h_icnt hh \<noteq> fetched_insns M \<or> h_fetch_pc hh \<noteq> fetch_pc M then Inl Die else Inr (hh, s1))"

definition ask_oracle :: "params \<Rightarrow> nat \<Rightarrow> u32 \<Rightarrow> sim_state \<Rightarrow> state \<Rightarrow> (bool \<times> bool \<times> u32 \<times> state) res" where
  "ask_oracle P k inst M s = (if brk s \<noteq> 0 then Inr (False, False, 0, s) else
     rbind (oracle_history P k M s) (\<lambda>(hh, s1).
       ensure AssertFail ((is_jal inst \<or> is_jr inst \<or> is_j inst) \<longrightarrow> h_branch hh \<and> h_took hh)
         (if h_branch hh \<and> h_took hh then Inr (True, False, h_next_pc hh, s1)
          else Inr (False, h_likely hh \<and> \<not> h_took hh, 0, s1))))"

definition fetch_insn_oracle :: "params \<Rightarrow> nat \<Rightarrow> sim_state \<times> state \<Rightarrow> (bool \<times> sim_state \<times> state) res" where
  "fetch_insn_oracle P k = (\<lambda>(M, s). with_mem (get32 (fetch_pc M)) M (\<lambda>w M1. let inst = bswap32 w; ip = fetch_pc M in
     rbind (ask_oracle P k inst M1 s) (\<lambda>(oracle_taken, oracle_nullify, oracle_npc, s1).
       let M2 = block_on_monitor inst M1; f = new_meta_op (fetched_insns M) ip inst 0 (curr M) False False;
           M3 = (if oracle_taken then M2\<lparr>delay_slot_npc := ip + 4\<rparr> else M2);
           npc = (if oracle_taken then oracle_npc else if oracle_nullify then ip + 8 else ip + 4)
       in rbind (push_fetched (f\<lparr>fetch_npc := npc, predict_taken := oracle_taken, pop_return_stack := False\<rparr>) M3) (\<lambda>M4.
          Inr (oracle_taken, M4\<lparr>fetch_pc := npc\<rparr>, s1)))))"

text \<open>
  One round of the loop fetches a delay slot that is due, or the next instruction; the flags say
  whether it was a delay slot and whether the instruction was predicted taken.
\<close>

definition fetch_round_oracle :: "params \<Rightarrow> nat \<Rightarrow> sim_state \<times> state \<Rightarrow> (bool \<times> bool \<times> sim_state \<times> state) res" where
  "fetch_round_oracle P k = (\<lambda>(M, s). if delay_slot_npc M \<noteq> 0 then rbind (fetch_delay_slot M) (\<lambda>M1. Inr (True, False, M1, s))
     else rbind (fetch_insn_oracle P k (M, s)) (\<lambda>(t, X). Inr (False, t, X)))"

fun fetch_loop_oracle :: "sim_param \<Rightarrow> nat \<Rightarrow> nat \<Rightarrow> int \<Rightarrow> int \<Rightarrow> sim_state \<times> state \<Rightarrow> (sim_state \<times> state) res" where
  "fetch_loop_oracle S k n amt taken (M, s) =
     (if full_q (fetch_queue M) \<or> fetch_bw S \<le> amt \<or> nuke M \<or> fetch_blocked M then Inr (M, s)
      else case n of 0 \<Rightarrow> Inl OutOfFuel | Suc n1 \<Rightarrow> rbind (fetch_round_oracle (host S) k (M, s)) (\<lambda>(slot, t, X).
        if slot \<and> taken = taken_branches_per_cycle S then Inr X
        else fetch_loop_oracle S k n1 (amt + 1) (if t then taken + 1 else taken) X))"

declare fetch_loop_oracle.simps [simp del]

definition fetch_stage_oracle :: "sim_param \<Rightarrow> nat \<Rightarrow> sim_state \<times> state \<Rightarrow> (sim_state \<times> state) res" where
  "fetch_stage_oracle S k = fetch_loop_oracle S k (nat (fetch_bw S)) 0 0"

text \<open>Where fetch goes on after an exception of the operation at \<open>a\<close>.\<close>

definition redirect_oracle :: "nat \<Rightarrow> bool \<Rightarrow> sim_state \<Rightarrow> sim_state res" where
  "redirect_oracle a slot_exc M = rbind (op_at a M) (\<lambda>u. if slot_exc then Inl AssertFail
     else if exc u \<noteq> Branch_exception then Inr (M\<lparr>fetch_pc := op_pc u, fetched_insns := fetch_icnt u\<rparr>)
     else ensure AssertFail (fetch_icnt u + 1 = fetched_insns M) (delete_op a (M\<lparr>fetch_pc := correct_pc u\<rparr>)))"

end
