(* ===== verification/Oracle_Proofs.thy ===== *)
theory Oracle_Proofs
  imports Core_Oracle Interp_Proofs
begin

text \<open>
  The oracle mode of fetch.  An instruction without a delay slot goes on to the next address and
  leaves the history of others alone; a branch or jump leaves a record of where it led.  So fetch,
  which reads those records, follows the run of the oracle: \<open>oracle_run\<close> lists what the oracle
  executes, and \<open>fetched_all\<close> says that the stage has queued exactly that.
\<close>

section \<open>Instructions in sequence\<close>

definition advances :: "state \<Rightarrow> state \<Rightarrow> bool" where
  "advances s t \<longleftrightarrow> pc t = pc s + 4 \<and> hbuf t = hbuf s \<and> icnt t = icnt s"

definition plain_insn :: "u32 \<Rightarrow> bool" where
  "plain_insn w \<longleftrightarrow> \<not> has_slot w \<and> \<not> (opcode_of w = 0 \<and> funct_of w \<in> {5, 0xC, 0xD})"

definition seq :: "state \<Rightarrow> state res \<Rightarrow> bool" where
  "seq s r \<longleftrightarrow> (\<forall>t. r = Inr t \<longrightarrow> advances s t)"

lemma keep_simps [simp]:
  "advances s (next_insn x) \<longleftrightarrow> pc x = pc s \<and> hbuf x = hbuf s \<and> icnt x = icnt s"
  "pc (set_gpr r v s) = pc s" "hbuf (set_gpr r v s) = hbuf s" "icnt (set_gpr r v s) = icnt s"
  "pc (set_s r v s) = pc s" "hbuf (set_s r v s) = hbuf s" "icnt (set_s r v s) = icnt s"
  "pc (set_hilo y s) = pc s" "hbuf (set_hilo y s) = hbuf s" "icnt (set_hilo y s) = icnt s"
  "pc (copy1 b w s) = pc s" "hbuf (copy1 b w s) = hbuf s" "icnt (copy1 b w s) = icnt s"
  "pc (setConditionCode v n s) = pc s" "hbuf (setConditionCode v n s) = hbuf s" "icnt (setConditionCode v n s) = icnt s"
  by (auto simp: advances_def next_insn_def set_gpr_def set_s_def set_hilo_def copy1_def setConditionCode_def Let_def)

lemma seq_base:
  "seq s (Inl e)" "seq s (Inr (next_insn x)) \<longleftrightarrow> pc x = pc s \<and> hbuf x = hbuf s \<and> icnt x = icnt s"
  "seq s (alu r v s)"
  by (auto simp: seq_def alu_def)

lemma seq_bind: "(\<And>x. r = Inr x \<Longrightarrow> seq s (f x)) \<Longrightarrow> seq s (rbind r f)"
  by (cases r) (auto simp: seq_def)

lemma l1d_keeps: "l1d_read P a s = Inr t \<Longrightarrow> pc t = pc s \<and> hbuf t = hbuf s \<and> icnt t = icnt s"
  "l1d_write P a s = Inr t \<Longrightarrow> pc t = pc s \<and> hbuf t = hbuf s \<and> icnt t = icnt s"
  by (auto simp: l1d_read_def l1d_write_def rbind_Inr_iff split: if_splits)

lemma set_d_keeps: "set_d r v s = Inr t \<Longrightarrow> pc t = pc s \<and> hbuf t = hbuf s \<and> icnt t = icnt s"
  by (auto simp: set_d_def ensure_Inr_iff)

lemma copy2_keeps: "copy2 b w s = Inr t \<Longrightarrow> pc t = pc s \<and> hbuf t = hbuf s \<and> icnt t = icnt s"
  by (auto simp: copy2_def Let_def ensure_Inr_iff)

lemma seq_hilo: "\<not> (funct_of w \<in> {0xC, 0xD}) \<Longrightarrow> seq s (rtype_hilo w s)"
  by (auto simp: seq_def rtype_hilo_def Let_def alu_def ensure_Inr_iff split: if_splits)

lemma seq_rtype: 
  assumes "funct_of w \<notin> {5, 8, 9, 0xC, 0xD}" 
  shows "seq s (execRType P K w s)"
proof -
  have "seq s (rtype_shift P K w s)" using assms by (auto simp: seq_def rtype_shift_def Let_def alu_def movci_def)
  moreover have "seq s (rtype_alu w s)" by (auto simp: seq_def rtype_alu_def Let_def alu_def)
  ultimately show ?thesis using assms seq_hilo [of w s] by (simp add: execRType_def Let_def)
qed

lemma seq_special: "seq s (execSpecial2 w s)" "seq s (execSpecial3 w s)"
  by (auto simp: seq_def execSpecial2_def execSpecial3_def Let_def rbind_Inr_iff ensure_Inr_iff split: if_splits)

lemma seq_cp0: "seq s (execCoproc0 w s)"
  by (auto simp: seq_def execCoproc0_def Let_def alu_def split: if_splits)

lemma seq_mem:
  "seq s (exec_lb P w s)" "seq s (exec_lh P w s)" "seq s (exec_lbu P w s)" "seq s (exec_lhu P w s)" "seq s (exec_lw P w s)"
  "seq s (exec_lwl P w s)" "seq s (exec_lwr P w s)"
  "seq s (exec_sb P w s)" "seq s (exec_sh P w s)" "seq s (exec_sw P w s)" "seq s (exec_swl P w s)" "seq s (exec_swr P w s)"
  "seq s (exec_lwc1 P w s)" "seq s (exec_ldc1 P w s)" "seq s (exec_swc1 P w s)" "seq s (exec_sdc1 P w s)"
  by (auto simp: seq_def exec_lb_def exec_lh_def exec_lbu_def exec_lhu_def exec_lw_def exec_lwl_def exec_lwr_def
     exec_sb_def exec_sh_def exec_sw_def exec_swl_def exec_swr_def exec_lwc1_def exec_ldc1_def exec_swc1_def exec_sdc1_def
     get_with_def put_with_def Let_def rbind_Inr_iff ensure_Inr_iff dest!: l1d_keeps set_d_keeps)

lemma seq_sc: "seq s (exec_sc P w s)"
  using seq_mem(10) [of s P w] by (auto simp: seq_def exec_sc_def rbind_Inr_iff advances_def)

lemma seq_itype_mem: "seq s (itype_mem P w s)"
  by (simp add: itype_mem_def Let_def seq_mem seq_base)

lemma seq_itype_alu: "seq s (itype_alu w s)"
  by (simp add: itype_alu_def Let_def seq_base)

lemmas fp_shapes = un_s_def un_d_def bin_s_def bin_d_def

lemma seq_shapes:
  "seq s (un_s f w s)" "seq s (un_d g w s)" "seq s (bin_s h w s)" "seq s (bin_d i w s)"
  by (auto simp: seq_def fp_shapes rbind_Inr_iff dest!: set_d_keeps)

lemma seq_moves:
  "seq s (movd w s)" "seq s (movnd w s)" "seq s (movzd w s)" "seq s (movns w s)" "seq s (movzs w s)" "seq s (movcd w s)" "seq s (movcs w s)"
  by (auto simp: seq_def movd_def movnd_def movzd_def movns_def movzs_def movcd_def movcs_def rbind_Inr_iff dest!: copy2_keeps split: if_splits)

lemma seq_conv: "seq s (truncw P w s)" "seq s (cvts P w s)" "seq s (cvtd P w s)" "seq s (cs_insn w s)" "seq s (cd_insn w s)"
  by (auto simp: seq_def truncw_def cvts_def cvtd_def cs_insn_def cd_insn_def Let_def rbind_Inr_iff dest!: set_d_keeps split: if_splits)

lemma seq_by_fmt: "(\<And>w s. seq s (f w s)) \<Longrightarrow> (\<And>w s. seq s (g w s)) \<Longrightarrow> seq s (by_fmt f g w s)"
  by (simp add: by_fmt_def seq_base)

lemma seq_coproc1_op: "seq s (coproc1_op P w s)"
  by (simp add: coproc1_op_def Let_def seq_base seq_conv seq_shapes seq_moves seq_by_fmt fadd_insn_def fsub_insn_def fmul_insn_def
     fdiv_insn_def fsqrt_insn_def fabs_insn_def fmov_insn_def fneg_insn_def fmovc_insn_def fmovz_insn_def fmovn_insn_def
     frecip_insn_def frsqrt_insn_def adds_def addd_def subs_def subd_def muls_def muld_def divs_def divd_def sqrts_def sqrtd_def
     rsqrts_def rsqrtd_def abss_def absd_def negs_def negd_def recips_def recipd_def movs_def)

lemma seq_cp1: "fmt_of w \<noteq> 8 \<Longrightarrow> seq s (execCoproc1 P K w s)"
  by (simp add: execCoproc1_def fmt_of_def Let_def seq_coproc1_op seq_by_fmt seq_conv c_insn_def seq_base exec_mfc1_def exec_mtc1_def)

lemma seq_cp1x: "seq s (execCoproc1x P w s)"
proof -
  have "seq s (lwxc1 w s)" "seq s (ldxc1 w s)"
    by (auto simp: seq_def lwxc1_def ldxc1_def Let_def rbind_Inr_iff dest!: set_d_keeps)
  moreover have "seq s (c1x_float P ci s)" for ci
    by (auto simp: seq_def c1x_float_def Let_def rbind_Inr_iff)
  moreover have "seq s (c1x_double P ci s)" for ci
    unfolding c1x_double_def by (intro seq_bind) (auto simp: seq_base dest!: set_d_keeps)
  ultimately show ?thesis by (simp add: execCoproc1x_def seq_base)
qed

lemma seq_itype:
  assumes "opcode_of w \<notin> {1, 4, 5, 6, 7, 0x14, 0x15, 0x16, 0x17}"
  shows "seq s (execIType P K w s)"
  using assms by (simp add: execIType_def itype_branch_def Let_def seq_itype_mem seq_itype_alu seq_base)

lemma exec_plain: "plain_insn w \<Longrightarrow> seq s (exec_insn P K w s)"
proof (cases "getInsnType w")
  case Rtype
  then have "opcode_of w = 0" by (simp add: getInsnType_def Let_def split: if_splits)
  then show "plain_insn w \<Longrightarrow> ?thesis" using Rtype by (simp add: exec_insn_def plain_insn_def has_slot_def seq_rtype)
next
  case Jtype
  then have "opcode_of w div 2 = 1" by (simp add: getInsnType_def Let_def split: if_splits)
  then have "opcode_of w = 2 \<or> opcode_of w = 3" by linarith
  then show "plain_insn w \<Longrightarrow> ?thesis" by (auto simp: plain_insn_def has_slot_def)
next
  case Cp1
  then have "opcode_of w = 0x11" by (simp add: getInsnType_def Let_def split: if_splits)
  then show "plain_insn w \<Longrightarrow> ?thesis" using Cp1 by (simp add: exec_insn_def plain_insn_def has_slot_def seq_cp1)
next
  case Itype
  then show "plain_insn w \<Longrightarrow> ?thesis" by (simp add: exec_insn_def plain_insn_def has_slot_def seq_itype)
qed (simp_all add: exec_insn_def seq_special seq_cp0 seq_cp1x seq_base seq_mem seq_sc)

section \<open>Records of the history\<close>

definition found :: "sparse_mem \<Rightarrow> u32 \<Rightarrow> u32 \<Rightarrow> bool" where
  "found m a w \<longleftrightarrow> get32 a m = Inr (m, bswap32 w)"

definition plain_record :: "u32 \<Rightarrow> u64 \<Rightarrow> history" where
  "plain_record a n = \<lparr>h_fetch_pc = a, h_next_pc = a + 4, h_branch = False, h_likely = False, h_took = False, h_icnt = n\<rparr>"

lemma hist_fetch [simp]: "hbuf (fetch_hist s) = (hbuf s)(hidx (icnt s) := plain_record (pc s) (icnt s))"
  by (cases "hbuf s (hidx (icnt s))") (simp add: fetch_hist_def upd_hist_def plain_record_def)

lemma hidx_next: "hidx (n + 1) \<noteq> hidx n"
proof
  assume "hidx (n + 1) = hidx n"
  then have "unat (n + 1) mod 65536 = unat n mod 65536" by (simp add: hidx_def hwindow_def)
  moreover have "unat (n + 1) = (unat n + 1) mod 2 ^ 64" by (simp add: unat_word_ariths)
  moreover have "(unat n + 1) mod 2 ^ 64 mod 65536 = (unat n + 1) mod 65536" by (rule mod_mod_cancel) simp
  ultimately have "Suc (unat n) mod 65536 = unat n mod 65536" by simp
  then show False by (simp add: mod_Suc split: if_splits)
qed

lemma step_plain:
  assumes "brk s = 0" "found (mem s) (pc s) w" "plain_insn w" "execMips P (Suc k) s = Inr t"
  shows "pc t = pc s + 4" "icnt t = icnt s + 1" "hbuf t = (hbuf s)(hidx (icnt s) := plain_record (pc s) (icnt s))"
proof -
  have "exec_insn P (execMips P k) w (fetch_hist s) = Inr t"
    using assms(1,2,4) by (simp add: execMips_unfold get_with_def found_def bswap32_bswap32)
  then show "pc t = pc s + 4" "icnt t = icnt s + 1" "hbuf t = (hbuf s)(hidx (icnt s) := plain_record (pc s) (icnt s))"
    using exec_plain [OF assms(3), of "fetch_hist s" P "execMips P k"] by (auto simp: seq_def advances_def)
qed

definition slotted :: "(state \<Rightarrow> state res) \<Rightarrow> state \<Rightarrow> bool" where
  "slotted K s \<longleftrightarrow> (\<forall>x y. mem x = mem s \<and> brk x = 0 \<and> pc x = pc s + 4 \<and> icnt x = icnt s + 1 \<and> K x = Inr y \<longrightarrow>
     pc y = pc s + 8 \<and> icnt y = icnt s + 2 \<and> hbuf y = (hbuf x)(hidx (icnt s + 1) := plain_record (pc s + 4) (icnt s + 1)))"

lemma slottedD:
  assumes "slotted K s" "K x = Inr y" "mem x = mem s" "brk x = 0" "pc x = pc s + 4" "icnt x = icnt s + 1"
  shows "pc y = pc s + 8" "icnt y = icnt s + 2" "hbuf y = (hbuf x)(hidx (icnt s + 1) := plain_record (pc s + 4) (icnt s + 1))"
  using assms unfolding slotted_def by blast+

lemma slotted_plain:
  assumes "found (mem s) (pc s + 4) v" "plain_insn v"
  shows "slotted (execMips P (Suc k)) s"
  unfolding slotted_def
proof (intro allI impI, elim conjE)
  fix x y
  assume x: "mem x = mem s" "brk x = 0" "pc x = pc s + 4" "icnt x = icnt s + 1" "execMips P (Suc k) x = Inr y"
  then have "found (mem x) (pc x) v" using assms(1) by simp
  from step_plain [OF x(2) this assms(2) x(5)] x
  show "pc y = pc s + 8 \<and> icnt y = icnt s + 2 \<and> hbuf y = (hbuf x)(hidx (icnt s + 1) := plain_record (pc s + 4) (icnt s + 1))"
    by simp
qed

definition outcome :: "state \<Rightarrow> state \<Rightarrow> bool" where
  "outcome s t \<longleftrightarrow> (let r = hbuf t (hidx (icnt s)) in h_fetch_pc r = pc s \<and> h_icnt r = icnt s \<and> h_branch r \<and>
     (if h_took r then h_next_pc r = pc t \<and> icnt t = icnt s + 2
      else pc t = pc s + 8 \<and> (if h_likely r then icnt t = icnt s + 1
        else icnt t = icnt s + 2 \<and> hbuf t (hidx (icnt s + 1)) = plain_record (pc s + 4) (icnt s + 1))))"

lemma hist_upd [simp]:
  "hbuf (upd_hist i f s) = (hbuf s)(i := f (hbuf s i))" "hbuf (next_insn s) = hbuf s" "icnt (next_insn s) = icnt s"
  "pc (next_insn s) = pc s + 4" "mem (next_insn s) = mem s" "mem (set_gpr r v s) = mem s"
  by (simp_all add: upd_hist_def next_insn_def set_gpr_def)

lemma branch_split:
  fixes bt w s
  defines "s1 \<equiv> next_insn (upd_hist (hidx (icnt s - 1))
      (\<lambda>h. h\<lparr>h_branch := True, h_likely := is_likely bt, h_took := branch_taken bt w s\<rparr>) s)"
  assumes "branch bt K w s = Inr t"
  shows "\<exists>s3. t = upd_hist (hidx (icnt s - 1)) (\<lambda>h. h\<lparr>h_next_pc := pc s3\<rparr>) s3 \<and>
    (if branch_taken bt w s then \<exists>y a. K s1 = Inr y \<and> s3 = y\<lparr>pc := a\<rparr>
     else if is_likely bt then s3 = next_insn s1 else K s1 = Inr s3)"
  using assms(2) unfolding branch_def Let_def s1_def [symmetric]
  by (cases "branch_taken bt w s"; cases "is_likely bt") (fastforce simp: rbind_Inr_iff)+

lemma branch_record:
  assumes k: "slotted K s" and b: "brk s = 0" and ex: "branch bt K w (fetch_hist s) = Inr t"
  shows "outcome s t"
proof -
  define T where "T = branch_taken bt w (fetch_hist s)"
  define L where "L = is_likely bt"
  define s1 where "s1 = next_insn (upd_hist (hidx (icnt s)) (\<lambda>h. h\<lparr>h_branch := True, h_likely := L, h_took := T\<rparr>) (fetch_hist s))"
  have s1: "mem s1 = mem s" "brk s1 = 0" "pc s1 = pc s + 4" "icnt s1 = icnt s + 1" using b by (simp_all add: s1_def)
  have h1: "hbuf s1 (hidx (icnt s)) = (plain_record (pc s) (icnt s))\<lparr>h_branch := True, h_likely := L, h_took := T\<rparr>" by (simp add: s1_def)
  have i: "icnt (fetch_hist s) - 1 = icnt s" by simp
  obtain s3 where t: "t = upd_hist (hidx (icnt s)) (\<lambda>h. h\<lparr>h_next_pc := pc s3\<rparr>) s3"
    and s3: "if T then \<exists>y a. K s1 = Inr y \<and> s3 = y\<lparr>pc := a\<rparr> else if L then s3 = next_insn s1 else K s1 = Inr s3"
    using branch_split [OF ex, unfolded i, folded T_def L_def, folded s1_def] by blast
  note slot = slottedD [OF k _ s1]
  consider (taken) y a where "T" "K s1 = Inr y" "s3 = y\<lparr>pc := a\<rparr>" | (skipped) "\<not> T" "L" "s3 = next_insn s1"
    | (through) "\<not> T" "\<not> L" "K s1 = Inr s3" using s3 by (auto split: if_splits)
  then show ?thesis
  proof cases
    case taken
    then show ?thesis using slot [OF taken(2)] hidx_next [of "icnt s"] h1 t by (simp add: outcome_def plain_record_def)
  next
    case skipped
    then show ?thesis using s1 h1 t by (simp add: outcome_def plain_record_def add.assoc)
  next
    case through
    then show ?thesis using slot [OF through(3)] hidx_next [of "icnt s"] h1 t by (simp add: outcome_def plain_record_def)
  qed
qed

lemma jump_reg_record:
  assumes k: "slotted K s" and b: "brk s = 0" and ex: "jump_reg l K w (fetch_hist s) = Inr t"
  shows "outcome s t \<and> h_took (hbuf t (hidx (icnt s)))"
proof -
  define a where "a = gpr s (rs_of w)"
  define s0 where "s0 = upd_hist (hidx (icnt s)) (\<lambda>h. h\<lparr>h_branch := True, h_took := True, h_next_pc := a\<rparr>) (fetch_hist s)"
  define s1 where "s1 = next_insn (if l then set_gpr 31 (pc s0 + 8) s0 else s0)"
  have s1: "mem s1 = mem s" "brk s1 = 0" "pc s1 = pc s + 4" "icnt s1 = icnt s + 1" using b by (simp_all add: s1_def s0_def)
  have h1: "hbuf s1 (hidx (icnt s)) = (plain_record (pc s) (icnt s))\<lparr>h_branch := True, h_took := True, h_next_pc := a\<rparr>" by (simp add: s1_def s0_def)
  have "rbind (K s1) (\<lambda>y. Inr (y\<lparr>pc := a\<rparr>)) = Inr t" using ex by (cases l) (simp_all add: jump_reg_def Let_def s1_def s0_def a_def)
  then obtain y where y: "K s1 = Inr y" "t = y\<lparr>pc := a\<rparr>" by (auto simp: rbind_Inr_iff)
  show ?thesis using slottedD [OF k y(1) s1] hidx_next [of "icnt s"] h1 y(2) by (simp add: outcome_def plain_record_def)
qed

lemma jtype_record:
  assumes k: "slotted K s" and b: "brk s = 0" and ex: "execJType K w (fetch_hist s) = Inr t"
  shows "outcome s t \<and> h_took (hbuf t (hidx (icnt s)))"
proof -
  define s0 where "s0 = upd_hist (hidx (icnt s)) (\<lambda>h. h\<lparr>h_branch := True, h_took := True\<rparr>) (fetch_hist s)"
  define s1 where "s1 = next_insn (if opcode_of w = 3 then set_gpr 31 (pc s + 8) s0 else s0)"
  have s1: "mem s1 = mem s" "brk s1 = 0" "pc s1 = pc s + 4" "icnt s1 = icnt s + 1" using b by (simp_all add: s1_def s0_def)
  have h1: "hbuf s1 (hidx (icnt s)) = (plain_record (pc s) (icnt s))\<lparr>h_branch := True, h_took := True\<rparr>" by (simp add: s1_def s0_def)
  obtain y a where y: "K s1 = Inr y" "t = upd_hist (hidx (icnt s)) (\<lambda>h. h\<lparr>h_next_pc := a\<rparr>) (y\<lparr>pc := a\<rparr>)"
    using ex by (auto simp: execJType_def Let_def rbind_Inr_iff s1_def s0_def simp del: hist_upd split: if_splits)
  show ?thesis using slottedD [OF k y(1) s1] hidx_next [of "icnt s"] h1 y(2) by (simp add: outcome_def plain_record_def)
qed

lemma exec_slot_cases:
  assumes "has_slot w" "exec_insn P K w s = Inr t"
  obtains (branch) bt where "branch bt K w s = Inr t" "\<not> (is_jal w \<or> is_jr w \<or> is_j w)"
    | (reg) l where "jump_reg l K w s = Inr t" | (jump) "execJType K w s = Inr t"
proof -
  consider "opcode_of w = 0" "funct_of w \<in> {8, 9}" | "opcode_of w \<in> {2, 3}"
    | "opcode_of w \<in> {1, 4, 5, 6, 7, 0x14, 0x15, 0x16, 0x17}" | "opcode_of w = 0x11" "fmt_of w = 8"
    using assms(1) by (auto simp: has_slot_def)
  then show thesis
  proof cases
    case 1
    then show thesis using assms(2) reg by (auto simp: exec_insn_def getInsnType_def execRType_def rtype_shift_def Let_def)
  next
    case 2
    then show thesis using assms(2) jump by (auto simp: exec_insn_def getInsnType_def)
  next
    case 3
    then have "\<not> (is_jal w \<or> is_jr w \<or> is_j w)" by (auto simp: is_jal_def is_jr_def is_j_def)
    moreover have "\<exists>bt. branch bt K w s = Inr t" using 3 assms(2)
      by (auto simp: exec_insn_def getInsnType_def execIType_def itype_branch_def bgez_bltz_def Let_def split: if_splits)
    ultimately show thesis using branch by blast
  next
    case 4
    then have "\<not> (is_jal w \<or> is_jr w \<or> is_j w)" by (auto simp: is_jal_def is_jr_def is_j_def)
    moreover have "\<exists>bt. branch bt K w s = Inr t" using 4 assms(2)
      by (auto simp: exec_insn_def getInsnType_def execCoproc1_def fmt_of_def Let_def split: if_splits)
    ultimately show thesis using branch by blast
  qed
qed

lemma step_control:
  assumes "brk s = 0" "found (mem s) (pc s) w" "has_slot w" "found (mem s) (pc s + 4) v" "plain_insn v"
    and "execMips P (Suc (Suc k)) s = Inr t"
  shows "outcome s t \<and> (is_jal w \<or> is_jr w \<or> is_j w \<longrightarrow> h_took (hbuf t (hidx (icnt s))))"
proof -
  have k: "slotted (execMips P (Suc k)) s" by (rule slotted_plain [OF assms(4,5)])
  have "exec_insn P (execMips P (Suc k)) w (fetch_hist s) = Inr t"
    using assms(1,2,6) by (simp add: execMips_unfold get_with_def found_def bswap32_bswap32)
  with assms(3) show ?thesis
    by (cases rule: exec_slot_cases) (use branch_record [OF k assms(1)] jump_reg_record [OF k assms(1)] jtype_record [OF k assms(1)] in blast)+
qed

section \<open>Fetch\<close>

definition room :: "nat \<Rightarrow> sim_state \<Rightarrow> bool" where
  "room n M \<longleftrightarrow> wf_q (fetch_queue M) \<and> length (items_q (fetch_queue M)) + n \<le> cap_q (fetch_queue M)"

text \<open>\<open>M1\<close> has fetched one more instruction than \<open>M\<close>, the word \<open>w\<close> at \<open>a\<close>.\<close>

definition fetched_one :: "u32 \<Rightarrow> u32 \<Rightarrow> sim_state \<Rightarrow> sim_state \<Rightarrow> bool" where
  "fetched_one a w M M1 \<longleftrightarrow> (\<exists>f. ops M1 = (ops M)(unat (fetched_insns M) \<mapsto> f) \<and> op_pc f = a \<and> op_inst f = w \<and> fetch_icnt f = fetched_insns M)
     \<and> items_q (fetch_queue M1) = items_q (fetch_queue M) @ [Some (unat (fetched_insns M))]
     \<and> fetched_insns M1 = fetched_insns M + 1 \<and> smem M1 = smem M"

lemma push_fetched_room:
  assumes "room (Suc n) M" "fetch_icnt f = fetched_insns M"
  shows "\<exists>M1. push_fetched f M = Inr M1 \<and> fetched_one (op_pc f) (op_inst f) M M1 \<and> room n M1
    \<and> delay_slot_npc M1 = delay_slot_npc M \<and> fetch_pc M1 = fetch_pc M"
proof -
  have "wf_q (fetch_queue M)" "count_q (fetch_queue M) < cap_q (fetch_queue M)" using assms(1) by (simp_all add: room_def items_q_def)
  from push_room [OF this, of "Some (unat (fetched_insns M))"] assms show ?thesis
    by (auto simp: push_fetched_def Let_def room_def fetched_one_def put_op_def)
qed

lemma same_smem [simp]: "M\<lparr>smem := smem M\<rparr> = M"
  by (cases M) simp

lemma fetched_one_cong: "fetched_one a w (M\<lparr>fetch_blocked := b, delay_slot_npc := d\<rparr>) M1 = fetched_one a w M M1"
  "fetched_one a w (M\<lparr>fetch_blocked := b\<rparr>) M1 = fetched_one a w M M1" "fetched_one a w (M\<lparr>delay_slot_npc := d\<rparr>) M1 = fetched_one a w M M1"
  "fetched_one a w M (M1\<lparr>delay_slot_npc := d\<rparr>) = fetched_one a w M M1" "fetched_one a w M (M1\<lparr>fetch_pc := d\<rparr>) = fetched_one a w M M1"
  "room n (M\<lparr>fetch_blocked := b\<rparr>) = room n M" "room n (M\<lparr>delay_slot_npc := d\<rparr>) = room n M" "room n (M\<lparr>fetch_pc := d\<rparr>) = room n M"
  by (simp_all add: fetched_one_def room_def)

lemma block_cong: "fetched_one a w (block_on_monitor i M) M1 = fetched_one a w M M1" "room n (block_on_monitor i M) = room n M"
  "delay_slot_npc (block_on_monitor i M) = delay_slot_npc M" "fetched_insns (block_on_monitor i M) = fetched_insns M" "fetch_pc (block_on_monitor i M) = fetch_pc M"
  by (simp_all add: block_on_monitor_def fetched_one_cong)

lemma fetch_insn_oracle_room:
  assumes "found (smem M) (fetch_pc M) w" "ask_oracle P k w M s = Inr (tk, nul, on, s1)" "room (Suc n) M"
  shows "\<exists>M1. fetch_insn_oracle P k (M, s) = Inr (tk, M1, s1) \<and> fetched_one (fetch_pc M) w M M1 \<and> room n M1
    \<and> fetch_pc M1 = (if tk then on else if nul then fetch_pc M + 8 else fetch_pc M + 4)
    \<and> delay_slot_npc M1 = (if tk then fetch_pc M + 4 else delay_slot_npc M)"
proof -
  define f where "f = (new_meta_op (fetched_insns M) (fetch_pc M) w 0 (curr M) False False)
    \<lparr>fetch_npc := (if tk then on else if nul then fetch_pc M + 8 else fetch_pc M + 4), predict_taken := tk, pop_return_stack := False\<rparr>"
  define M3 where "M3 = (if tk then (block_on_monitor w M)\<lparr>delay_slot_npc := fetch_pc M + 4\<rparr> else block_on_monitor w M)"
  have f: "op_pc f = fetch_pc M" "op_inst f = w" "fetch_icnt f = fetched_insns M3"
    by (simp_all add: f_def M3_def new_meta_op_def block_cong)
  have "room (Suc n) M3" using assms(3) by (simp add: M3_def fetched_one_cong block_cong)
  from push_fetched_room [OF this f(3)] obtain M1 where M1: "push_fetched f M3 = Inr M1" "fetched_one (fetch_pc M) w M3 M1"
    "room n M1" "delay_slot_npc M1 = delay_slot_npc M3" unfolding f by blast
  have "fetched_one (fetch_pc M) w M M1" using M1(2) by (simp add: M3_def fetched_one_cong block_cong split: if_splits)
  moreover have "fetch_insn_oracle P k (M, s) = Inr (tk, M1\<lparr>fetch_pc := fetch_npc f\<rparr>, s1)"
    using assms(1,2) M1(1) by (simp add: fetch_insn_oracle_def with_mem_def found_def bswap32_bswap32 f_def M3_def)
  ultimately show ?thesis using M1(3,4) by (auto simp: fetched_one_cong f_def M3_def block_cong)
qed

lemma fetch_delay_slot_room:
  assumes "found (smem M) (delay_slot_npc M) w" "room (Suc n) M"
  shows "\<exists>M1. fetch_delay_slot M = Inr M1 \<and> fetched_one (delay_slot_npc M) w M M1 \<and> room n M1 \<and> delay_slot_npc M1 = 0
    \<and> fetch_pc M1 = fetch_pc M"
proof -
  define f where "f = new_meta_op (fetched_insns M) (delay_slot_npc M) w (delay_slot_npc M + 4) (curr M) False False"
  have f: "op_pc f = delay_slot_npc M" "op_inst f = w" "fetch_icnt f = fetched_insns (block_on_monitor w M)"
    by (simp_all add: f_def new_meta_op_def block_cong)
  have "room (Suc n) (block_on_monitor w M)" using assms(2) by (simp add: block_cong)
  from push_fetched_room [OF this f(3)] obtain M1 where M1: "push_fetched f (block_on_monitor w M) = Inr M1"
    "fetched_one (delay_slot_npc M) w M M1" "room n M1" "fetch_pc M1 = fetch_pc M"
    unfolding f by (auto simp: block_cong)
  then show ?thesis using assms(1)
    by (auto simp: fetch_delay_slot_def with_mem_def found_def bswap32_bswap32 f_def fetched_one_cong)
qed

section \<open>Following the oracle\<close>

text \<open>The stage and the oracle stand at the same instruction, and no delay slot is due.\<close>

definition in_step :: "sim_state \<Rightarrow> state \<Rightarrow> bool" where
  "in_step M s \<longleftrightarrow> fetched_insns M = icnt s \<and> fetch_pc M = pc s \<and> delay_slot_npc M = 0"

fun fetch_rounds :: "params \<Rightarrow> nat \<Rightarrow> nat \<Rightarrow> sim_state \<times> state \<Rightarrow> (sim_state \<times> state) res" where
  "fetch_rounds P k 0 X = Inr X"
| "fetch_rounds P k (Suc n) X = rbind (fetch_round_oracle P k X) (\<lambda>(_, _, Y). fetch_rounds P k n Y)"

lemma ask_runs:
  assumes "brk s = 0" "in_step M s" "execMips P k s = Inr t"
    and "h_fetch_pc (hbuf t (hidx (icnt s))) = pc s" "h_icnt (hbuf t (hidx (icnt s))) = icnt s"
    and "is_jal w \<or> is_jr w \<or> is_j w \<longrightarrow> h_branch (hbuf t (hidx (icnt s))) \<and> h_took (hbuf t (hidx (icnt s)))"
  shows "ask_oracle P k w M s = (let r = hbuf t (hidx (icnt s)) in if h_branch r \<and> h_took r then Inr (True, False, h_next_pc r, t)
     else Inr (False, h_likely r \<and> \<not> h_took r, 0, t))"
  using assms by (simp add: ask_oracle_def oracle_history_def in_step_def ensure_def Let_def)

lemma plain_no_jump: "plain_insn w \<Longrightarrow> \<not> (is_jal w \<or> is_jr w \<or> is_j w)"
  by (auto simp: plain_insn_def has_slot_def is_jal_def is_jr_def is_j_def)

lemma ask_behind:
  assumes "fetched_insns M \<noteq> icnt t" "hbuf t (hidx (fetched_insns M)) = plain_record (fetch_pc M) (fetched_insns M)" "plain_insn v"
  shows "\<exists>x. ask_oracle P k v M t = Inr (False, False, x, t)"
  using assms plain_no_jump [OF assms(3)] by (simp add: ask_oracle_def oracle_history_def plain_record_def ensure_def)

lemma follows_plain:
  assumes "brk s = 0" "in_step M s" "room (Suc n) M" "found (mem s) (pc s) w" "found (smem M) (pc s) w" "plain_insn w"
    and "execMips P (Suc (Suc k)) s = Inr t"
  shows "\<exists>M1. fetch_rounds P (Suc (Suc k)) 1 (M, s) = Inr (M1, t) \<and> in_step M1 t \<and> icnt t = icnt s + 1 \<and> fetched_one (pc s) w M M1 \<and> room n M1"
proof -
  note t = step_plain [OF assms(1,4,6,7)]
  have "ask_oracle P (Suc (Suc k)) w M s = Inr (False, False, 0, t)"
    by (subst ask_runs [OF assms(1,2,7)]) (use t plain_no_jump [OF assms(6)] in \<open>simp_all add: plain_record_def\<close>)
  moreover have "found (smem M) (fetch_pc M) w" using assms(2,5) by (simp add: in_step_def)
  ultimately obtain M1 where M1: "fetch_insn_oracle P (Suc (Suc k)) (M, s) = Inr (False, M1, t)" "fetched_one (fetch_pc M) w M M1"
    "fetch_pc M1 = fetch_pc M + 4" "delay_slot_npc M1 = delay_slot_npc M" "room n M1"
    using fetch_insn_oracle_room [of M w P "Suc (Suc k)" s False False 0 t n] assms(3) by auto
  then show ?thesis using assms(2) t by (simp add: fetch_round_oracle_def in_step_def fetched_one_def)
qed

lemma follows_control:
  assumes "brk s = 0" "in_step M s" "room (n + (if icnt t = icnt s + 1 then 1 else 2)) M" "found (mem s) (pc s) w" "found (smem M) (pc s) w" "has_slot w"
    and "found (mem s) (pc s + 4) v" "found (smem M) (pc s + 4) v" "plain_insn v" "pc s + 4 \<noteq> 0"
    and "execMips P (Suc (Suc k)) s = Inr t"
  shows "\<exists>M1. fetch_rounds P (Suc (Suc k)) 1 (M, s) = Inr (M1, t) \<and> in_step M1 t \<and> icnt t = icnt s + 1 \<and> fetched_one (pc s) w M M1 \<and> room n M1 \<or>
    (\<exists>M2. fetch_rounds P (Suc (Suc k)) 2 (M, s) = Inr (M2, t) \<and> in_step M2 t \<and> icnt t = icnt s + 2
      \<and> fetched_one (pc s) w M M1 \<and> fetched_one (pc s + 4) v M1 M2 \<and> room n M2)"
proof -
  let ?K = "Suc (Suc k)" and ?r = "hbuf t (hidx (icnt s))"
  have o: "outcome s t" and j: "is_jal w \<or> is_jr w \<or> is_j w \<longrightarrow> h_took ?r"
    using step_control [OF assms(1,4,6,7,9,11)] by blast+
  have r: "h_fetch_pc ?r = pc s" "h_icnt ?r = icnt s" "h_branch ?r" using o by (simp_all add: outcome_def Let_def)
  have ask: "ask_oracle P ?K w M s = (if h_took ?r then Inr (True, False, h_next_pc ?r, t) else Inr (False, h_likely ?r, 0, t))"
    by (subst ask_runs [OF assms(1,2,11)]) (use r j in \<open>simp_all add: Let_def\<close>)
  have f: "found (smem M) (fetch_pc M) w" "fetch_pc M = pc s" "delay_slot_npc M = 0" "fetched_insns M = icnt s"
    using assms(2,5) by (simp_all add: in_step_def)
  have rm: "room (Suc n) M" if "icnt t = icnt s + 1" using assms(3) that by simp
  have rm2: "room (Suc (Suc n)) M" if "icnt t = icnt s + 2" using assms(3) that by simp
  consider (taken) "h_took ?r" "h_next_pc ?r = pc t" "icnt t = icnt s + 2" | (skipped) "\<not> h_took ?r" "h_likely ?r" "pc t = pc s + 8" "icnt t = icnt s + 1"
    | (through) "\<not> h_took ?r" "\<not> h_likely ?r" "pc t = pc s + 8" "icnt t = icnt s + 2" "hbuf t (hidx (icnt s + 1)) = plain_record (pc s + 4) (icnt s + 1)"
    using o unfolding outcome_def Let_def by (auto split: if_splits)
  then show ?thesis
  proof cases
    case taken
    then have "ask_oracle P ?K w M s = Inr (True, False, pc t, t)" using ask by simp
    from fetch_insn_oracle_room [OF f(1) this rm2 [OF taken(3)]] obtain M1 where
      M1: "fetch_insn_oracle P ?K (M, s) = Inr (True, M1, t)" "fetched_one (pc s) w M M1" "room (Suc n) M1" "fetch_pc M1 = pc t" "delay_slot_npc M1 = pc s + 4"
      using f by auto
    have "found (smem M1) (delay_slot_npc M1) v" using assms(8) M1(2,5) by (simp add: fetched_one_def)
    from fetch_delay_slot_room [OF this M1(3)] obtain M2 where
      M2: "fetch_delay_slot M1 = Inr M2" "fetched_one (pc s + 4) v M1 M2" "delay_slot_npc M2 = 0" "fetch_pc M2 = pc t" "room n M2"
      using M1(4,5) by auto
    have "fetch_rounds P ?K 2 (M, s) = Inr (M2, t)" using M1 M2 f assms(10) by (simp add: numeral_2_eq_2 fetch_round_oracle_def)
    moreover have "in_step M2 t" using M1(2) M2 f taken by (simp add: in_step_def fetched_one_def)
    ultimately show ?thesis using M1(2) M2(2,5) taken by blast
  next
    case skipped
    then have "ask_oracle P ?K w M s = Inr (False, True, 0, t)" using ask by simp
    from fetch_insn_oracle_room [OF f(1) this rm [OF skipped(4)]] obtain M1 where
      M1: "fetch_insn_oracle P ?K (M, s) = Inr (False, M1, t)" "fetched_one (pc s) w M M1" "fetch_pc M1 = pc s + 8" "delay_slot_npc M1 = 0" "room n M1"
      using f by auto
    have "fetch_rounds P ?K 1 (M, s) = Inr (M1, t)" using M1 f by (simp add: fetch_round_oracle_def)
    moreover have "in_step M1 t" using M1 f skipped by (simp add: in_step_def fetched_one_def)
    ultimately show ?thesis using M1(2,5) skipped by blast
  next
    case through
    then have "ask_oracle P ?K w M s = Inr (False, False, 0, t)" using ask by simp
    from fetch_insn_oracle_room [OF f(1) this rm2 [OF through(4)]] obtain M1 where
      M1: "fetch_insn_oracle P ?K (M, s) = Inr (False, M1, t)" "fetched_one (pc s) w M M1" "room (Suc n) M1" "fetch_pc M1 = pc s + 4" "delay_slot_npc M1 = 0"
      using f by auto
    have n: "fetched_insns M1 = icnt s + 1" using M1(2) f by (simp add: fetched_one_def)
    have "fetched_insns M1 \<noteq> icnt t" using n through by simp
    then obtain x where "ask_oracle P ?K v M1 t = Inr (False, False, x, t)"
      using ask_behind [OF _ _ assms(9), of M1 t P ?K] n through M1(4) by auto
    moreover have "found (smem M1) (fetch_pc M1) v" using assms(8) M1(2,4) by (simp add: fetched_one_def)
    ultimately obtain M2 where M2: "fetch_insn_oracle P ?K (M1, t) = Inr (False, M2, t)" "fetched_one (pc s + 4) v M1 M2"
        "fetch_pc M2 = pc s + 8" "delay_slot_npc M2 = 0" "room n M2"
      using fetch_insn_oracle_room [of M1 v P ?K t False False x t n] M1(3,4,5) by (auto simp: add.assoc)
    have "fetch_rounds P ?K 2 (M, s) = Inr (M2, t)" using M1 M2 f by (simp add: numeral_2_eq_2 fetch_round_oracle_def)
    moreover have "in_step M2 t" using M2 n through by (simp add: in_step_def fetched_one_def)
    ultimately show ?thesis using M1(2) M2(2,5) through by blast
  qed
qed

section \<open>Runs\<close>

text \<open>
  A run of the oracle, on instructions that are found in its own memory and in the memory \<open>m\<close> of the
  core, with no branch or jump in a delay slot, and the addresses and words it executes.
\<close>

inductive oracle_run :: "params \<Rightarrow> nat \<Rightarrow> sparse_mem \<Rightarrow> state \<Rightarrow> (u32 \<times> u32) list \<Rightarrow> state \<Rightarrow> bool" for P k m where
  run_end: "oracle_run P k m s [] s"
| run_plain: "brk s = 0 \<Longrightarrow> found (mem s) (pc s) w \<Longrightarrow> found m (pc s) w \<Longrightarrow> plain_insn w \<Longrightarrow>
    execMips P (Suc (Suc k)) s = Inr t \<Longrightarrow> oracle_run P k m t ws u \<Longrightarrow> oracle_run P k m s ((pc s, w) # ws) u"
| run_control: "brk s = 0 \<Longrightarrow> found (mem s) (pc s) w \<Longrightarrow> found m (pc s) w \<Longrightarrow> has_slot w \<Longrightarrow>
    found (mem s) (pc s + 4) v \<Longrightarrow> found m (pc s + 4) v \<Longrightarrow> plain_insn v \<Longrightarrow> pc s + 4 \<noteq> 0 \<Longrightarrow>
    execMips P (Suc (Suc k)) s = Inr t \<Longrightarrow> oracle_run P k m t ws u \<Longrightarrow>
    oracle_run P k m s ((pc s, w) # (if icnt t = icnt s + 1 then ws else (pc s + 4, v) # ws)) u"

fun fetched_all :: "(u32 \<times> u32) list \<Rightarrow> sim_state \<Rightarrow> sim_state \<Rightarrow> bool" where
  "fetched_all [] M M' \<longleftrightarrow> M' = M"
| "fetched_all ((a, w) # ws) M M' \<longleftrightarrow> (\<exists>M1. fetched_one a w M M1 \<and> fetched_all ws M1 M')"

lemma fetch_rounds_add: "fetch_rounds P k (i + j) X = rbind (fetch_rounds P k i X) (fetch_rounds P k j)"
proof (induction i arbitrary: X)
  case (Suc i)
  then show ?case by (cases "fetch_round_oracle P k X") (auto split: prod.splits)
qed simp

lemma run_followed:
  assumes "oracle_run P k m s ws t" "smem M = m" "in_step M s" "room (length ws) M"
  shows "\<exists>M'. fetch_rounds P (Suc (Suc k)) (length ws) (M, s) = Inr (M', t) \<and> in_step M' t \<and> fetched_all ws M M'"
  using assms
proof (induction arbitrary: M rule: oracle_run.induct)
  case (run_plain s w t ws u)
  from follows_plain [of s M "length ws" w P k t] run_plain.hyps run_plain.prems obtain M1 where
    M1: "fetch_rounds P (Suc (Suc k)) 1 (M, s) = Inr (M1, t)" "in_step M1 t" "fetched_one (pc s) w M M1" "room (length ws) M1" by auto
  obtain M' where "fetch_rounds P (Suc (Suc k)) (length ws) (M1, t) = Inr (M', u)" "in_step M' u" "fetched_all ws M1 M'"
    using run_plain.IH [of M1] M1 run_plain.prems(1) by (auto simp: fetched_one_def)
  then show ?case using M1 fetch_rounds_add [of P "Suc (Suc k)" 1 "length ws" "(M, s)"] by auto
next
  case (run_control s w v t ws u)
  have "room (length ws + (if icnt t = icnt s + 1 then 1 else 2)) M" using run_control.prems(3) by (simp split: if_splits)
  from follows_control [OF run_control.hyps(1) run_control.prems(2) this run_control.hyps(2) _ run_control.hyps(4,5) _ run_control.hyps(7,8,9)]
  consider (one) M1 where "fetch_rounds P (Suc (Suc k)) 1 (M, s) = Inr (M1, t)" "in_step M1 t" "icnt t = icnt s + 1"
      "fetched_one (pc s) w M M1" "room (length ws) M1"
    | (two) M1 M2 where "fetch_rounds P (Suc (Suc k)) 2 (M, s) = Inr (M2, t)" "in_step M2 t" "icnt t = icnt s + 2"
      "fetched_one (pc s) w M M1" "fetched_one (pc s + 4) v M1 M2" "room (length ws) M2"
    using run_control.hyps(3,6) run_control.prems(1) by blast
  then show ?case
  proof cases
    case one
    obtain M' where "fetch_rounds P (Suc (Suc k)) (length ws) (M1, t) = Inr (M', u)" "in_step M' u" "fetched_all ws M1 M'"
      using run_control.IH [of M1] one run_control.prems(1) by (auto simp: fetched_one_def)
    then show ?thesis using one fetch_rounds_add [of P "Suc (Suc k)" 1 "length ws" "(M, s)"] by auto
  next
    case two
    obtain M' where "fetch_rounds P (Suc (Suc k)) (length ws) (M2, t) = Inr (M', u)" "in_step M' u" "fetched_all ws M2 M'"
      using run_control.IH [of M2] two run_control.prems(1) by (auto simp: fetched_one_def)
    then show ?thesis using two fetch_rounds_add [of P "Suc (Suc k)" 2 "length ws" "(M, s)"] by auto
  qed
qed simp

text \<open>What the stage does in a cycle is some number of rounds.\<close>

lemma loop_is_rounds: "fetch_loop_oracle S k n amt taken X = Inr Y \<Longrightarrow> \<exists>j\<le>n. fetch_rounds (host S) k j X = Inr Y"
proof (induction n arbitrary: amt taken X)
  case 0
  then show ?case by (cases X) (auto simp: fetch_loop_oracle.simps split: if_splits)
next
  case (Suc n)
  obtain M s where X: "X = (M, s)" by force
  show ?case
  proof (cases "full_q (fetch_queue M) \<or> fetch_bw S \<le> amt \<or> nuke M \<or> fetch_blocked M")
    case True
    then have "Y = X" using Suc.prems X by (simp add: fetch_loop_oracle.simps)
    then show ?thesis by (intro exI [of _ 0]) simp
  next
    case False
    then obtain sl t Z where r: "fetch_round_oracle (host S) k X = Inr (sl, t, Z)"
      and z: "Z = Y \<or> fetch_loop_oracle S k n (amt + 1) (if t then taken + 1 else taken) Z = Inr Y"
      using Suc.prems X by (fastforce simp: fetch_loop_oracle.simps [of S k "Suc n"] rbind_Inr_iff split: if_splits)
    from z obtain j where "j \<le> n" "fetch_rounds (host S) k j Z = Inr Y"
      using Suc.IH by (metis fetch_rounds.simps(1) le0)
    then show ?thesis using r by (intro exI [of _ "Suc j"]) simp
  qed
qed

section \<open>The start of the oracle\<close>

lemma new_oracle_fields: "new_oracle t0 s = Inr orc \<Longrightarrow> pc orc = pc s \<and> icnt orc = icnt s \<and> brk orc = brk s \<and> gpr orc = gpr s
    \<and> (\<forall>i. h_icnt (hbuf orc i) = 0 \<and> h_fetch_pc (hbuf orc i) = 0)"
  by (auto simp: new_oracle_def rbind_Inr_iff copy_state_def new_state_def)

lemma oracle_starts_in_step:
  "new_oracle t0 s = Inr orc \<Longrightarrow> icnt s = 0 \<Longrightarrow> fetched_insns M = 0 \<Longrightarrow> fetch_pc M = pc s \<Longrightarrow> delay_slot_npc M = 0 \<Longrightarrow> in_step M orc"
  using new_oracle_fields by (auto simp: in_step_def)

text \<open>When instructions were skipped before the core started, the counts differ and the first fetch stops the simulator.\<close>

lemma oracle_after_skip_dies:
  assumes "new_oracle t0 s = Inr orc" "brk s = 0" "icnt s \<noteq> 0" "fetched_insns M = 0" "fetch_pc M \<noteq> 0"
  shows "ask_oracle P k w M orc = Inl Die"
  using new_oracle_fields [OF assms(1)] assms by (simp add: ask_oracle_def oracle_history_def)

text \<open>
  C12. In oracle mode fetch never leaves the path of the program: from a point where the two stand together,
  it fetches exactly the instructions the oracle executes, in order, delay slots included and skipped slots
  left out, and stands with the oracle again, however branches and jumps go.  The run of the oracle is any number of
  instructions without a monitor call, \<open>syscall\<close> or \<open>break\<close> (\<open>plain_insn\<close>), at which the oracle is not asked.
\<close>
theorem oracle_fetches_stream:
  assumes "oracle_run P k m s ws t" "smem M = m" "in_step M s" "room (length ws) M"
  shows "\<exists>M'. fetch_rounds P (Suc (Suc k)) (length ws) (M, s) = Inr (M', t) \<and> in_step M' t \<and> fetched_all ws M M'"
  using assms by (rule run_followed)

definition code_page :: "nat \<Rightarrow> u8" where
  "code_page i = (if i = 0 then 0x10 else if i = 3 then 0x03 else 0)"

definition code_mem :: sparse_mem where
  "code_mem = (new_mem 65536)\<lparr>pages := [1 \<mapsto> code_page]\<rparr>"

lemma code_found: "found code_mem 0x1000 0x10000003" "found code_mem 0x1004 0"
  by (simp_all add: found_def code_mem_def code_page_def get32_def get_bytes_def touch_def new_mem_def pgsize_def le32_list_def
      upt_rec bswap32_def le32_def byte_def)

lemma code_plain: "plain_insn 0" "has_slot 0x10000003"
  by (simp_all add: plain_insn_def has_slot_def opcode_of_def funct_of_def fld_def)

lemma code_runs:
  "\<exists>t. execMips sample_params (Suc (Suc 0)) ((new_state code_mem 0)\<lparr>pc := 0x1000\<rparr>) = Inr t \<and> pc t = 0x1010 \<and> icnt t = 2"
proof -
  let ?s = "(new_state code_mem 0)\<lparr>pc := 0x1000\<rparr>"
  define s1 where "s1 = next_insn (upd_hist (hidx 0) (\<lambda>h. h\<lparr>h_branch := True, h_likely := False, h_took := True\<rparr>) (fetch_hist ?s))"
  have s1: "brk s1 = 0" "pc s1 = 0x1004" "mem s1 = code_mem" "icnt s1 = 1" by (simp_all add: s1_def new_state_def)
  have e0: "exec_insn P K 0 x = alu 0 (push_bit 0 (gpr x 0)) x" for P K x
    by (simp add: exec_insn_def getInsnType_def execRType_def rtype_shift_def Let_def opcode_of_def funct_of_def fld_def rd_of_def sa_of_def rt_of_def)
  have "found (mem s1) (pc s1) 0" using s1 code_found(2) by simp
  then have "execMips sample_params (Suc 0) s1 = exec_insn sample_params (execMips sample_params 0) 0 (fetch_hist s1)"
    using s1(1) by (simp add: execMips_unfold get_with_def found_def bswap32_bswap32)
  then have slot: "execMips sample_params (Suc 0) s1 = Inr (next_insn (set_gpr 0 (gpr s1 0) (fetch_hist s1)))"
    by (simp add: e0 alu_def)
  have b: "exec_insn P K 0x10000003 x = branch Beq K 0x10000003 x" for P K x
    by (simp add: exec_insn_def getInsnType_def execIType_def itype_branch_def Let_def opcode_of_def fld_def)
  have f: "rs_of 0x10000003 = 0" "rt_of 0x10000003 = 0" "simm 0x10000003 = 3" by code_simp+
  have "execMips sample_params (Suc (Suc 0)) ?s = branch Beq (execMips sample_params (Suc 0)) 0x10000003 (fetch_hist ?s)"
    using code_found(1) by (simp add: execMips_unfold get_with_def found_def bswap32_bswap32 b new_state_def)
  also have "\<dots> = rbind (execMips sample_params (Suc 0) s1) (\<lambda>s2. Inr (upd_hist (hidx 0) (\<lambda>h. h\<lparr>h_next_pc := 0x1010\<rparr>) (s2\<lparr>pc := 0x1010\<rparr>)))"
    by (simp add: branch_def branch_taken_def is_likely_def Let_def f s1_def new_state_def) (simp add: rbind_assoc)
  finally show ?thesis using slot s1 by simp
qed

theorem oracle_fetches_stream_witness:
  "\<exists>q t M'. new_queue 2 = Inr q \<and>
     fetch_rounds sample_params 2 2 ((new_machine code_mem [])\<lparr>fetch_pc := 0x1000, fetch_queue := q\<rparr>, (new_state code_mem 0)\<lparr>pc := 0x1000\<rparr>) = Inr (M', t)
     \<and> in_step M' t \<and> pc t = 0x1010
     \<and> fetched_all [(0x1000, 0x10000003), (0x1004, 0)] ((new_machine code_mem [])\<lparr>fetch_pc := 0x1000, fetch_queue := q\<rparr>) M'"
proof -
  obtain q :: "nat sim_queue" where q: "new_queue (2 ^ 1) = Inr q" "wf_q q" "cap_q q = 2 ^ 1" "items_q q = []" by (rule new_queue_ok [of 1]) simp
  let ?s = "(new_state code_mem 0)\<lparr>pc := 0x1000\<rparr>" and ?M = "(new_machine code_mem [])\<lparr>fetch_pc := 0x1000, fetch_queue := q\<rparr>"
  have s: "brk ?s = 0" "mem ?s = code_mem" "pc ?s = 0x1000" "icnt ?s = 0" by (simp_all add: new_state_def)
  obtain t where t: "execMips sample_params (Suc (Suc 0)) ?s = Inr t" "pc t = 0x1010" "icnt t = 2" using code_runs by blast
  have "oracle_run sample_params 0 code_mem ?s ((pc ?s, 0x10000003) # (if icnt t = icnt ?s + 1 then [] else (pc ?s + 4, 0) # [])) t"
    by (rule run_control [OF s(1) _ _ code_plain(2) _ _ code_plain(1) _ t(1) run_end]) (use s code_found in simp_all)
  then have r: "oracle_run sample_params 0 code_mem ?s [(0x1000, 0x10000003), (0x1004, 0)] t" using s t by simp
  have "room (length [(0x1000 :: u32, 0x10000003 :: u32), (0x1004, 0)]) ?M" using q by (simp add: room_def)
  moreover have "smem ?M = code_mem" "in_step ?M ?s" by (simp_all add: new_machine_def in_step_def new_state_def)
  ultimately obtain M' where "fetch_rounds sample_params (Suc (Suc 0)) (length [(0x1000 :: u32, 0x10000003 :: u32), (0x1004, 0)]) (?M, ?s) = Inr (M', t)"
    "in_step M' t" "fetched_all [(0x1000, 0x10000003), (0x1004, 0)] ?M M'"
    using oracle_fetches_stream [OF r, of ?M] by blast
  then show ?thesis using q(1) t(2) by (auto simp: numeral_2_eq_2)
qed
end
