(* ===== verification/Gthread.thy ===== *)
theory Gthread
  imports Doubly_Linked
begin

text \<open>
  \<^verbatim>\<open>sim_ooo/gthread.hh\<close> and \<^verbatim>\<open>sim_ooo/gthread.cc\<close>: the cooperative threads that the stages of the core
  run on.  The threads are nodes of a doubly linked list.  The switch of stacks is assembly; here
  a call returns which thread goes on, and whether it starts or resumes.  An object is created at
  an address that the caller names.
\<close>

datatype thread_status = Uninitialized | Ready | Running

record thread =
  th_id :: nat
  fptr :: nat
  status :: thread_status

record gthreads =
  th_heap :: "thread heap"
  th_head :: "nat option"
  threads :: "nat list"
  uuidcnt :: nat
  curr_thread :: "nat option"

definition no_threads :: gthreads where
  "no_threads = \<lparr>th_heap = Map.empty, th_head = None, threads = [], uuidcnt = 0, curr_thread = None\<rparr>"

datatype switch = Start nat | Resume nat | Stop

section \<open>The list of threads\<close>

fun walk_end :: "nat \<Rightarrow> thread heap \<Rightarrow> nat \<Rightarrow> nat res" where
  "walk_end k h p = rbind (get_node h (Some p)) (\<lambda>n. case nnext n of None \<Rightarrow> Inr p
     | Some q \<Rightarrow> (case k of 0 \<Rightarrow> Inl OutOfFuel | Suc k1 \<Rightarrow> walk_end k1 h q))"

declare walk_end.simps [simp del]

text \<open>The new thread is in \<open>threads\<close> already, whose length bounds the walk.\<close>

definition insert_into_list :: "nat \<Rightarrow> gthreads \<Rightarrow> gthreads res" where
  "insert_into_list p g = (case th_head g of None \<Rightarrow> Inr (g\<lparr>th_head := Some p\<rparr>)
     | Some q \<Rightarrow> rbind (walk_end (length (threads g)) (th_heap g) q) (\<lambda>l. rbind (link_after p (Some l) (th_heap g))
         (\<lambda>h. Inr (g\<lparr>th_heap := h\<rparr>))))"

definition remove_from_list :: "nat \<Rightarrow> gthreads \<Rightarrow> gthreads res" where
  "remove_from_list p g = rbind (unlink p (th_heap g)) (\<lambda>h. rbind (get_node h (Some p)) (\<lambda>n.
     Inr (g\<lparr>th_heap := h, th_head := if th_head g = Some p then nnext n else th_head g\<rparr>)))"

definition get_next :: "nat \<Rightarrow> gthreads \<Rightarrow> nat option res" where
  "get_next p g = rbind (get_node (th_heap g) (Some p)) (\<lambda>n. Inr (if nnext n = None then th_head g else nnext n))"

definition make_gthread :: "nat \<Rightarrow> nat \<Rightarrow> gthreads \<Rightarrow> gthreads res" where
  "make_gthread f p g = insert_into_list p (g\<lparr>uuidcnt := uuidcnt g + 1, threads := threads g @ [p],
     th_heap := (th_heap g)(p \<mapsto> \<lparr>nnext = None, nprev = None, ndata = \<lparr>th_id = uuidcnt g, fptr = f, status = Uninitialized\<rparr>\<rparr>)\<rparr>)"

definition free_threads :: "gthreads \<Rightarrow> gthreads res" where
  "free_threads g = ensure Undefined (set (threads g) \<subseteq> dom (th_heap g) \<and> distinct (threads g))
     (Inr (g\<lparr>th_heap := th_heap g |` (- set (threads g)), threads := []\<rparr>))"

section \<open>Switching\<close>

definition set_status :: "nat \<Rightarrow> thread_status \<Rightarrow> gthreads \<Rightarrow> gthreads res" where
  "set_status p t g = rbind (upd_node (Some p) (ndata_update (status_update (\<lambda>_. t))) (th_heap g)) (\<lambda>h. Inr (g\<lparr>th_heap := h\<rparr>))"

text \<open>The end of a yield and of a termination: the next thread runs.\<close>

definition switch_to :: "nat option \<Rightarrow> gthreads \<Rightarrow> (gthreads \<times> switch) res" where
  "switch_to q g = (case q of None \<Rightarrow> Inl AssertFail | Some p \<Rightarrow> rbind (get_node (th_heap g) (Some p)) (\<lambda>n.
     rbind (set_status p Running (g\<lparr>curr_thread := Some p\<rparr>)) (\<lambda>g1.
       Inr (g1, if status (ndata n) = Uninitialized then Start p else Resume p))))"

definition start_gthreads :: "gthreads \<Rightarrow> (gthreads \<times> switch) res" where
  "start_gthreads g = (case th_head g of None \<Rightarrow> Inl AssertFail | Some p \<Rightarrow>
     rbind (set_status p Running (g\<lparr>curr_thread := Some p\<rparr>)) (\<lambda>g1. Inr (g1, Start p)))"

definition gthread_yield :: "gthreads \<Rightarrow> (gthreads \<times> switch) res" where
  "gthread_yield g = (case curr_thread g of None \<Rightarrow> Inl Undefined | Some p \<Rightarrow>
     rbind (set_status p Ready g) (\<lambda>g1. rbind (get_next p g1) (\<lambda>q. switch_to q g1)))"

definition gthread_terminate :: "gthreads \<Rightarrow> (gthreads \<times> switch) res" where
  "gthread_terminate g = (case curr_thread g of None \<Rightarrow> Inl Undefined | Some p \<Rightarrow>
     rbind (get_next p g) (\<lambda>q. rbind (remove_from_list p g) (\<lambda>g1.
       if th_head g1 = None then Inr (g1, Stop) else switch_to q g1)))"

section \<open>Turns\<close>

text \<open>What a thread does at the end of its turn, and the turns of a queue whose head is running.\<close>

datatype turn = Yield | Terminate

definition end_turn :: "turn \<Rightarrow> gthreads \<Rightarrow> (gthreads \<times> switch) res" where
  "end_turn t = (case t of Yield \<Rightarrow> gthread_yield | Terminate \<Rightarrow> gthread_terminate)"

fun run_turns :: "turn list \<Rightarrow> gthreads \<Rightarrow> switch list res" where
  "run_turns [] g = Inr []"
| "run_turns (t # ts) g = rbind (end_turn t g) (\<lambda>(g1, w). if w = Stop then Inr [Stop]
     else rbind (run_turns ts g1) (\<lambda>ws. Inr (w # ws)))"

fun next_queue :: "turn \<Rightarrow> nat list \<Rightarrow> nat list" where
  "next_queue t [] = []" | "next_queue Yield (p # ps) = ps @ [p]" | "next_queue Terminate (p # ps) = ps"

fun spec_turns :: "turn list \<Rightarrow> nat set \<Rightarrow> nat list \<Rightarrow> switch list" where
  "spec_turns [] st ps = []"
| "spec_turns (t # ts) st ps = (case next_queue t ps of [] \<Rightarrow> [Stop]
     | q # qs \<Rightarrow> (if q \<in> st then Resume q else Start q) # spec_turns ts (insert q st) (q # qs))"

text \<open>The queue of a state: the list is cut at the running thread.\<close>

definition listed :: "nat list \<Rightarrow> nat set \<Rightarrow> gthreads \<Rightarrow> bool" where
  "listed xs st g \<longleftrightarrow> distinct xs \<and> dlseg (th_heap g) None xs None \<and> th_head g = first_of xs None \<and>
     (\<forall>p \<in> set xs. status (data_at (th_heap g) p) = Uninitialized \<longleftrightarrow> p \<notin> st)"

definition queued :: "nat list \<Rightarrow> nat set \<Rightarrow> gthreads \<Rightarrow> bool" where
  "queued cs st g \<longleftrightarrow> (\<exists>ps p qs. cs = p # qs @ ps \<and> listed (ps @ p # qs) st g \<and> curr_thread g = Some p \<and> p \<in> st)"

lemma dlseg_links:
  assumes "\<And>a. map_option (\<lambda>n. (nnext n, nprev n)) (h' a) = map_option (\<lambda>n. (nnext n, nprev n)) (h a)"
  shows "dlseg h' b ps e = dlseg h b ps e"
proof (induction ps arbitrary: b)
  case (Cons p ps)
  then show ?case using assms[of p] by (cases "h p"; cases "h' p") auto
qed simp

lemma set_status_ok:
  assumes "listed xs st g" "p \<in> set xs" "t \<noteq> Uninitialized"
  shows "\<exists>g'. set_status p t g = Inr g' \<and> listed xs (insert p st) g' \<and> curr_thread g' = curr_thread g"
proof -
  obtain n where n: "th_heap g p = Some n" using assms(1,2) dlseg_Some by (fastforce simp: listed_def)
  let ?h = "(th_heap g)(p \<mapsto> ndata_update (status_update (\<lambda>_. t)) n)"
  have "set_status p t g = Inr (g\<lparr>th_heap := ?h\<rparr>)" by (simp add: set_status_def upd_node_def n)
  moreover have "dlseg ?h b ps e = dlseg (th_heap g) b ps e" for b ps e by (rule dlseg_links) (simp add: n)
  ultimately show ?thesis using assms(1,3) by (auto simp: listed_def)
qed

lemma get_next_ok:
  assumes "listed (ps @ p # qs) st g"
  shows "get_next p g = Inr (Some (hd (qs @ ps @ [p])))"
  using assms by (cases qs; cases ps) (auto simp: get_next_def get_node_def listed_def split: option.splits)

lemma switch_ok:
  assumes "listed (ps @ q # qs) st g"
  shows "\<exists>g'. switch_to (Some q) g = Inr (g', if q \<in> st then Resume q else Start q) \<and> queued (q # qs @ ps) (insert q st) g'"
proof -
  have l: "listed (ps @ q # qs) st (g\<lparr>curr_thread := Some q\<rparr>)" using assms by (simp add: listed_def)
  obtain g' where g': "set_status q Running (g\<lparr>curr_thread := Some q\<rparr>) = Inr g'" "listed (ps @ q # qs) (insert q st) g'"
    "curr_thread g' = Some q"
    using set_status_ok[OF l, of q Running] by auto
  obtain n where "th_heap g q = Some n" "status (ndata n) = Uninitialized \<longleftrightarrow> q \<notin> st"
    using assms by (auto simp: listed_def data_at_def)
  then show ?thesis using g' by (auto simp: switch_to_def get_node_def queued_def)
qed

lemma yield_ok:
  assumes "queued cs st g"
  shows "\<exists>g'. gthread_yield g = Inr (g', let q = hd (rotate1 cs) in if q \<in> st then Resume q else Start q) \<and>
    queued (rotate1 cs) (insert (hd (rotate1 cs)) st) g'"
proof -
  obtain ps p qs where c: "cs = p # qs @ ps" "listed (ps @ p # qs) st g" "curr_thread g = Some p" "p \<in> st"
    using assms by (auto simp: queued_def)
  obtain g1 where g1: "set_status p Ready g = Inr g1" "listed (ps @ p # qs) st g1"
    using set_status_ok[OF c(2), of p Ready] c(4) by (auto simp: insert_absorb)
  have y: "gthread_yield g = switch_to (Some (hd (qs @ ps @ [p]))) g1"
    using c(3) g1(1) get_next_ok[OF g1(2)] by (simp add: gthread_yield_def)
  show ?thesis
  proof (cases qs)
    case (Cons q rs)
    then show ?thesis using switch_ok[of "ps @ [p]" q rs st g1] g1(2) y c(1) by simp
  next
    case Nil
    then obtain q rs where q: "ps @ [p] = q # rs" by (cases ps) auto
    then have "listed (q # rs) st g1" using g1(2) Nil by simp
    then show ?thesis using switch_ok[of "[]" q rs st g1] y c(1) Nil q by simp
  qed
qed

lemma remove_ok:
  assumes "listed (ps @ p # qs) st g"
  shows "\<exists>g'. remove_from_list p g = Inr g' \<and> listed (ps @ qs) st g'"
proof -
  have l: "dlseg (th_heap g) None (ps @ p # qs) None" "distinct (ps @ p # qs)" "th_head g = first_of (ps @ p # qs) None"
    "\<forall>q \<in> set (ps @ p # qs). status (data_at (th_heap g) q) = Uninitialized \<longleftrightarrow> q \<notin> st"
    using assms by (simp_all add: listed_def del: dlseg_append)
  obtain h where h: "unlink p (th_heap g) = Inr h" "dlseg h None (ps @ qs) None" "h p = th_heap g p"
    "\<forall>a. data_at h a = data_at (th_heap g) a"
    using unlink_dlseg[OF l(1,2)] by blast
  obtain n where n: "th_heap g p = Some n" "nnext n = first_of qs None" using l(1) by auto
  have "remove_from_list p g = Inr (g\<lparr>th_heap := h, th_head := if th_head g = Some p then first_of qs None else th_head g\<rparr>)"
    using h(1,3) n by (simp add: remove_from_list_def get_node_def)
  moreover have "(if th_head g = Some p then first_of qs None else th_head g) = first_of (ps @ qs) None"
    using l(2,3) by (cases ps) auto
  ultimately show ?thesis using h(2,4) l(2,4) by (simp add: listed_def del: dlseg_append)
qed

lemma terminate_ok:
  assumes "queued (p # cs) st g"
  shows "\<exists>g'. gthread_terminate g = Inr (g', if cs = [] then Stop else if hd cs \<in> st then Resume (hd cs) else Start (hd cs)) \<and>
    (cs \<noteq> [] \<longrightarrow> queued cs (insert (hd cs) st) g')"
proof -
  obtain ps qs where c: "cs = qs @ ps" "listed (ps @ p # qs) st g" "curr_thread g = Some p" using assms by (auto simp: queued_def)
  obtain g1 where g1: "remove_from_list p g = Inr g1" "listed (ps @ qs) st g1" using remove_ok[OF c(2)] by blast
  have h: "th_head g1 = first_of (ps @ qs) None" using g1(2) by (simp add: listed_def)
  have y: "gthread_terminate g = (if cs = [] then Inr (g1, Stop) else switch_to (Some (hd cs)) g1)"
    using c(1,3) g1(1) get_next_ok[OF c(2)] h first_of_None_iff[of "ps @ qs"] by (cases qs; cases ps; simp add: gthread_terminate_def)
  show ?thesis
  proof (cases qs)
    case (Cons q rs)
    then show ?thesis using switch_ok[of ps q rs st g1] g1(2) y c(1) by (cases "q \<in> st") simp_all
  next
    case Nil
    then show ?thesis using switch_ok[of "[]" "hd ps" "tl ps" st g1] g1(2) y c(1) by (cases ps; cases "hd ps \<in> st") simp_all
  qed
qed

lemma run_turns_ok: "queued (p # cs) st g \<Longrightarrow> run_turns ts g = Inr (spec_turns ts st (p # cs))"
proof (induction ts arbitrary: p cs st g)
  case (Cons t ts)
  show ?case
  proof (cases t)
    case Yield
    obtain q qs where q: "cs @ [p] = q # qs" by (cases cs) auto
    from yield_ok[OF Cons.prems] obtain g' where g': "gthread_yield g = Inr (g', if q \<in> st then Resume q else Start q)"
      "queued (q # qs) (insert q st) g'" by (auto simp: q)
    from Cons.IH[OF g'(2)] g'(1) show ?thesis by (simp add: Yield end_turn_def q)
  next
    case Terminate
    from terminate_ok[OF Cons.prems] obtain g' where
      g': "gthread_terminate g = Inr (g', if cs = [] then Stop else if hd cs \<in> st then Resume (hd cs) else Start (hd cs))"
        "cs \<noteq> [] \<longrightarrow> queued cs (insert (hd cs) st) g'" by blast
    then show ?thesis using Cons.IH by (cases cs) (auto simp: Terminate end_turn_def)
  qed
qed simp

section \<open>Making threads\<close>

fun make_all :: "(nat \<times> nat) list \<Rightarrow> gthreads \<Rightarrow> gthreads res" where
  "make_all [] g = Inr g"
| "make_all ((f, p) # fs) g = rbind (make_gthread f p g) (make_all fs)"

lemma walk_end_ok:
  "dlseg h b (p # ps) None \<Longrightarrow> length ps \<le> k \<Longrightarrow> walk_end k h p = Inr (last (p # ps))"
proof (induction ps arbitrary: b p k)
  case (Cons q ps)
  then obtain k1 where "k = Suc k1" by (cases k) auto
  then show ?case using Cons.prems Cons.IH[of "Some p" q k1] by (auto simp: walk_end.simps[of "Suc k1"] get_node_def)
qed (auto simp: walk_end.simps get_node_def)

lemma make_ok:
  assumes "listed xs {} g" "length xs \<le> length (threads g)" "p \<notin> set xs"
  shows "\<exists>g'. make_gthread f p g = Inr g' \<and> listed (xs @ [p]) {} g' \<and> length (xs @ [p]) \<le> length (threads g')"
proof -
  let ?n = "\<lparr>nnext = None, nprev = None, ndata = \<lparr>th_id = uuidcnt g, fptr = f, status = Uninitialized\<rparr>\<rparr>"
  let ?h = "(th_heap g)(p \<mapsto> ?n)"
  have d: "dlseg ?h None xs None" using assms by (simp add: listed_def)
  show ?thesis
  proof (cases xs rule: rev_cases)
    case Nil
    then show ?thesis using assms by (simp add: make_gthread_def insert_into_list_def listed_def)
  next
    case (snoc ys l)
    obtain q qs where q: "xs = q # qs" by (cases xs) (use snoc in auto)
    have w: "walk_end (Suc (length (threads g))) ?h q = Inr l"
      using walk_end_ok[of ?h None q qs] d assms(2) snoc q by (metis last_snoc length_Cons Suc_leD le_SucI)
    obtain h where h: "link_after p (Some l) ?h = Inr h" "dlseg h None (ys @ [l, p]) None" "\<forall>a. data_at h a = data_at ?h a"
      using link_after_dlseg[of ?h ys l p ?n] d assms(1,3) snoc by (auto simp: listed_def)
    have hd: "th_head g = Some q" using assms(1) q by (simp add: listed_def)
    let ?g = "g\<lparr>uuidcnt := uuidcnt g + 1, threads := threads g @ [p], th_heap := h\<rparr>"
    have "make_gthread f p g = Inr ?g" using w h(1) hd by (simp add: make_gthread_def insert_into_list_def)
    moreover have "xs @ [p] = ys @ [l, p]" "th_head ?g = first_of (ys @ [l, p]) None" using assms(1) snoc by (simp_all add: listed_def)
    moreover have "\<forall>a \<in> set (xs @ [p]). status (data_at h a) = Uninitialized" using h(3) assms(1,3) by (auto simp: listed_def)
    ultimately show ?thesis using h(2) assms snoc by (intro exI[of _ ?g]) (simp add: listed_def del: dlseg_append)
  qed
qed

lemma make_all_ok:
  "listed xs {} g \<Longrightarrow> length xs \<le> length (threads g) \<Longrightarrow> distinct (xs @ map snd fs) \<Longrightarrow>
    \<exists>g'. make_all fs g = Inr g' \<and> listed (xs @ map snd fs) {} g'"
proof (induction fs arbitrary: xs g)
  case (Cons x fs)
  then obtain g1 where g1: "make_gthread (fst x) (snd x) g = Inr g1" "listed (xs @ [snd x]) {} g1"
    "length (xs @ [snd x]) \<le> length (threads g1)"
    using make_ok[of xs g "snd x" "fst x"] by auto
  from Cons.IH[OF g1(2,3)] Cons.prems(3) g1(1) show ?case by (cases x) auto
qed simp

text \<open>
  C18. The threads take turns: with threads made at different addresses and started, the first runs, a
  thread that yields goes to the back of the queue and one that terminates leaves it; each is started
  at its first turn and resumed at all others, and the run stops when the last has terminated.
\<close>

theorem threads_take_turns:
  assumes "distinct (map snd fs)" "fs \<noteq> []"
  shows "\<exists>g g1. make_all fs no_threads = Inr g \<and> start_gthreads g = Inr (g1, Start (snd (hd fs))) \<and>
    (\<forall>ts. run_turns ts g1 = Inr (spec_turns ts {snd (hd fs)} (map snd fs)))"
proof -
  have "listed [] {} no_threads" by (simp add: listed_def no_threads_def)
  from make_all_ok[OF this _, of fs] assms(1) obtain g where g: "make_all fs no_threads = Inr g" "listed (map snd fs) {} g" by auto
  obtain p ps where p: "map snd fs = p # ps" "p = snd (hd fs)" using assms(2) by (cases fs) auto
  have l: "listed (p # ps) {} (g\<lparr>curr_thread := Some p\<rparr>)" using g(2) p(1) by (simp add: listed_def)
  obtain g1 where g1: "set_status p Running (g\<lparr>curr_thread := Some p\<rparr>) = Inr g1" "listed (p # ps) {p} g1" "curr_thread g1 = Some p"
    using set_status_ok[OF l, of p Running] by auto
  have "th_head g = Some p" using g(2) p(1) by (simp add: listed_def)
  then have "start_gthreads g = Inr (g1, Start p)" using g1(1) by (simp add: start_gthreads_def)
  moreover have "queued (p # ps) {p} g1" unfolding queued_def using g1 by (intro exI[of _ "[]"] exI[of _ p] exI[of _ ps]) simp
  ultimately show ?thesis using g(1) run_turns_ok p by metis
qed

theorem threads_take_turns_witness:
  "\<exists>g g1. make_all [(0, 10), (1, 20)] no_threads = Inr g \<and> start_gthreads g = Inr (g1, Start 10) \<and>
     run_turns [Yield, Yield, Yield, Terminate, Yield, Terminate] g1 = Inr [Start 20, Resume 10, Resume 20, Resume 10, Resume 10, Stop]"
  using threads_take_turns[of "[(0, 10), (1, 20)]"] by (auto dest!: spec[of _ "[Yield, Yield, Yield, Terminate, Yield, Terminate]"])

end
