(* ===== verification/Loader.thy ===== *)
theory Loader
  imports Arch_State Mem_Proofs
begin

text \<open>
  \<^verbatim>\<open>sim_ooo/saveState.cc\<close> and \<^verbatim>\<open>sim_ooo/loadelf.cc\<close>: a program enters the target's memory from a
  snapshot or from an ELF image.  A file is its bytes, or \<open>None\<close> when the host cannot open it.
  Structures are read in place by a little-endian host.
\<close>

definition half_at :: "u8 list \<Rightarrow> nat \<Rightarrow> u16" where
  "half_at bs i = le16 (bs ! i) (bs ! (i + 1))"

definition word_at :: "u8 list \<Rightarrow> nat \<Rightarrow> u32" where
  "word_at bs i = le32 (bs ! i) (bs ! (i + 1)) (bs ! (i + 2)) (bs ! (i + 3))"

section \<open>Snapshots\<close>

text \<open>The packed structures: \<open>magic\<close> is a static member and takes no room in the file.\<close>

definition header_size :: nat where
  "header_size = 428"

definition page_size :: nat where
  "page_size = 4100"

definition words_at :: "u8 list \<Rightarrow> nat \<Rightarrow> nat \<Rightarrow> (nat \<Rightarrow> u32) \<Rightarrow> nat \<Rightarrow> u32" where
  "words_at bs i n f j = (if j < n then word_at bs (i + 4 * j) else f j)"

fun load_pages :: "nat \<Rightarrow> u8 list \<Rightarrow> sparse_mem \<Rightarrow> sparse_mem res" where
  "load_pages 0 bs m = Inr m"
| "load_pages (Suc n) bs m = ensure AssertFail (page_size \<le> length bs)
     (rbind (put_bytes (word_at bs 0) (take 4096 (drop 4 bs)) m) (load_pages n (drop page_size bs)))"

definition loadState :: "u8 list option \<Rightarrow> bool \<Rightarrow> state \<Rightarrow> state res" where
  "loadState file clear_icnt s = (case file of None \<Rightarrow> Inl AssertFail | Some bs \<Rightarrow>
     ensure AssertFail (header_size \<le> length bs) (ensure AssertFail (word_at bs 0 \<noteq> 0)
     (rbind (load_pages (unat (word_at bs 424)) (drop header_size bs) (mem s)) (\<lambda>m.
       Inr (s\<lparr>pc := word_at bs 0, gpr := words_at bs 4 32 (gpr s), lo := word_at bs 132, hi := word_at bs 136,
         cpr0 := words_at bs 140 32 (cpr0 s), cpr1 := words_at bs 268 32 (cpr1 s), fcr1 := words_at bs 396 5 (fcr1 s),
         icnt := 0, mem := m\<rparr>)))))"

section \<open>ELF images\<close>

text \<open>
  The file is mapped in pages of the host, of \<open>pg\<close> bytes; the rest of the last page is zero and
  an access beyond it is a fault.
\<close>

definition map_file :: "nat \<Rightarrow> u8 list \<Rightarrow> u8 list" where
  "map_file pg bs = bs @ replicate ((pg - length bs mod pg) mod pg) 0"

definition rd_buf :: "u8 list \<Rightarrow> int \<Rightarrow> nat \<Rightarrow> u8 list res" where
  "rd_buf buf i n = ensure Undefined (n = 0 \<or> 0 \<le> i \<and> nat i + n \<le> length buf) (Inr (take n (drop (nat i) buf)))"

definition checkElf :: "u8 list \<Rightarrow> bool" where
  "checkElf eh \<longleftrightarrow> take 4 eh = [0x7f, 0x45, 0x4c, 0x46]"

definition check32Bit :: "u8 list \<Rightarrow> bool" where
  "check32Bit eh \<longleftrightarrow> eh ! 4 = 1"

definition checkBigEndian :: "u8 list \<Rightarrow> bool" where
  "checkBigEndian eh \<longleftrightarrow> eh ! 5 = 2"

definition checkLittleEndian :: "u8 list \<Rightarrow> bool" where
  "checkLittleEndian eh \<longleftrightarrow> eh ! 5 = 1"

definition elf_word :: "u8 list \<Rightarrow> nat \<Rightarrow> u32" where
  "elf_word bs i = bswap32 (word_at bs i)"

text \<open>A segment is loaded: its whole size is cleared, then the bytes of the file are copied.\<close>

definition load_segment :: "u8 list \<Rightarrow> u8 list \<Rightarrow> sparse_mem \<Rightarrow> sparse_mem res" where
  "load_segment buf ph m = (let p_memsz = sint (elf_word ph 20); p_offset = sint (elf_word ph 4); p_filesz = sint (elf_word ph 16);
       p_type = elf_word ph 0; p_vaddr = elf_word ph 8
     in if p_type = 1 \<and> p_memsz \<noteq> 0 then
          rbind (put_bytes p_vaddr (replicate (nat p_memsz) 0) m) (\<lambda>m1.
          rbind (rd_buf buf p_offset (nat p_filesz)) (\<lambda>bs. put_bytes p_vaddr bs m1))
        else Inr m)"

fun load_segments :: "u8 list \<Rightarrow> nat \<Rightarrow> int \<Rightarrow> sparse_mem \<Rightarrow> sparse_mem res" where
  "load_segments buf 0 i m = Inr m"
| "load_segments buf (Suc n) i m = rbind (rd_buf buf i 32) (\<lambda>ph. rbind (load_segment buf ph m) (load_segments buf n (i + 32)))"

definition load_elf :: "nat \<Rightarrow> u8 list option \<Rightarrow> state \<Rightarrow> state res" where
  "load_elf pg file s = (case file of None \<Rightarrow> Inl Exit | Some bs \<Rightarrow> let buf = map_file pg bs in
     rbind (rd_buf buf 0 52) (\<lambda>eh. ensure Exit (checkElf eh \<and> check32Bit eh) (ensure Exit (checkBigEndian eh)
       (ensure Exit (bswap16 (half_at eh 18) = 8)
       (rbind (load_segments buf (unat (bswap16 (half_at eh 44))) (uint (elf_word eh 28)) (mem s)) (\<lambda>m.
          Inr (s\<lparr>pc := elf_word eh 24, mem := m\<rparr>)))))))"

section \<open>Writing bytes one by one\<close>

text \<open>What a run of bytes at ascending addresses, which wrap at the end of the address space, does to the bytes.\<close>

fun overlay :: "u32 \<Rightarrow> u8 list \<Rightarrow> (nat \<Rightarrow> u8) \<Rightarrow> nat \<Rightarrow> u8" where
  "overlay a [] f = f"
| "overlay a (b # bs) f = overlay (a + 1) bs (f(unat a := b))"

definition full_mem :: "sparse_mem \<Rightarrow> bool" where
  "full_mem m \<longleftrightarrow> wf_mem m \<and> npages m = 1048576"

lemma full_fits: "full_mem m \<Longrightarrow> fits m 1 a"
  using unsigned_less[of a, where ?'a = nat] by (simp add: full_mem_def fits_def mem_limit_def pgsize_def)

lemma full_new_mem: "full_mem (new_mem 4294967296)"
proof -
  have "npages (new_mem 4294967296) = 1048576" by (simp add: new_mem_def pgsize_def)
  then show ?thesis by (simp add: full_mem_def wf_new_mem(1))
qed

lemma put_bytes_ok:
  "full_mem m \<Longrightarrow> \<exists>m'. put_bytes a bs m = Inr m' \<and> full_mem m' \<and> byte_at m' = overlay a bs (byte_at m)"
proof (induction bs arbitrary: a m)
  case (Cons b bs)
  obtain m1 where m1: "set8 a b m = Inr m1" "wf_mem m1" "npages m1 = npages m" "byte_at m1 = (byte_at m)(unat a := b)"
    using set_bytes_ok[of m "[b]" a] Cons.prems full_fits[OF Cons.prems, of a]
    by (auto simp: set8_def full_mem_def fun_eq_iff less_Suc_eq_le)
  then have "full_mem m1" using Cons.prems by (simp add: full_mem_def)
  from Cons.IH[OF this, of "a + 1"] show ?case using m1(1) by (simp add: m1(4) fun_upd_def)
qed simp

lemma unat_of_nat32: "n < 2 ^ 32 \<Longrightarrow> unat (of_nat n :: u32) = n"
  by (simp add: unsigned_of_nat take_bit_nat_eq_self)

lemma overlay_at:
  "unat a + length bs \<le> 2 ^ 32 \<Longrightarrow>
    overlay a bs f x = (if unat a \<le> x \<and> x < unat a + length bs then bs ! (x - unat a) else f x)"
proof (induction bs arbitrary: a f)
  case (Cons b bs)
  show ?case
  proof (cases "bs = []")
    case False
    then have "Suc (unat a) < 2 ^ 32" using Cons.prems by (cases bs) auto
    then have "unat (a + 1) = unat a + 1" by (simp add: unat_word_ariths)
    then show ?thesis using Cons.IH[of "a + 1" "f(unat a := b)"] Cons.prems by (auto simp: nth_Cons' fun_upd_def)
  qed auto
qed auto

text \<open>Several runs in turn, which do not meet.\<close>

definition span :: "u32 \<times> u8 list \<Rightarrow> nat set" where
  "span x = {unat (fst x) ..< unat (fst x) + length (snd x)}"

definition apart :: "(u32 \<times> u8 list) list \<Rightarrow> bool" where
  "apart xs \<longleftrightarrow> list_all (\<lambda>x. unat (fst x) + length (snd x) \<le> 2 ^ 32) xs \<and> sorted_wrt (\<lambda>x y. disjnt (span x) (span y)) xs"

definition overlays :: "(u32 \<times> u8 list) list \<Rightarrow> (nat \<Rightarrow> u8) \<Rightarrow> nat \<Rightarrow> u8" where
  "overlays xs = fold (\<lambda>(a, bs). overlay a bs) xs"

lemma overlays_simps [simp]: "overlays [] f = f" "overlays (x # xs) f = overlays xs (overlay (fst x) (snd x) f)"
  by (simp_all add: overlays_def case_prod_beta)

lemma overlays_outside: "apart xs \<Longrightarrow> \<forall>x \<in> set xs. k \<notin> span x \<Longrightarrow> overlays xs f k = f k"
  by (induction xs arbitrary: f) (auto simp: apart_def overlay_at span_def)

lemma overlays_inside: "apart xs \<Longrightarrow> x \<in> set xs \<Longrightarrow> k \<in> span x \<Longrightarrow> overlays xs f k = snd x ! (k - unat (fst x))"
proof (induction xs arbitrary: f)
  case (Cons y ys)
  have a: "apart ys" using Cons.prems(1) by (simp add: apart_def)
  show ?case
  proof (cases "x \<in> set ys")
    case True
    then show ?thesis using Cons.IH[OF a _ Cons.prems(3)] by simp
  next
    case False
    then have x: "x = y" using Cons.prems(2) by simp
    have "\<forall>z \<in> set ys. k \<notin> span z" using Cons.prems(1,3) x by (auto simp: apart_def disjnt_def)
    from overlays_outside[OF a this] show ?thesis using Cons.prems(1,3) x by (simp add: apart_def overlay_at span_def)
  qed
qed simp

section \<open>Snapshots are read back\<close>

lemma word_at_words: "k < length ws \<Longrightarrow> word_at (concat (map bytes32 ws) @ r) (4 * k) = ws ! k"
proof (induction ws arbitrary: k)
  case (Cons w ws)
  show ?case
  proof (cases k)
    case 0
    then show ?thesis by (simp add: word_at_def bytes32_def)
  next
    case (Suc j)
    have "word_at (concat (map bytes32 (w # ws)) @ r) (4 * k) = word_at (concat (map bytes32 ws) @ r) (4 * j)"
      by (simp add: Suc word_at_def bytes32_def add.commute)
    then show ?thesis using Cons.IH[of j] Cons.prems Suc by simp
  qed
qed simp

lemma length_words: "length (concat (map bytes32 ws)) = 4 * length ws"
  by (induction ws) simp_all

text \<open>The format: the words of the header, then for each page its address and its bytes.\<close>

definition header_words :: "state \<Rightarrow> nat \<Rightarrow> u32 list" where
  "header_words s n = pc s # map (gpr s) [0..<32] @ [lo s, hi s] @ map (cpr0 s) [0..<32] @ map (cpr1 s) [0..<32] @
     map (fcr1 s) [0..<5] @ [lo32 (icnt s), hi32 (icnt s), of_nat n]"

definition snapshot :: "state \<Rightarrow> (u32 \<times> u8 list) list \<Rightarrow> u8 list" where
  "snapshot s ps = concat (map bytes32 (header_words s (length ps))) @ concat (map (\<lambda>(a, bs). bytes32 a @ bs) ps)"

definition pages_of :: "sparse_mem \<Rightarrow> (u32 \<times> u8 list) list" where
  "pages_of m = map (\<lambda>p. (4096 * of_nat p, map (\<lambda>i. byte_at m (4096 * p + i)) [0..<4096]))
     (filter (\<lambda>p. pages m p \<noteq> None) [0..<npages m])"

lemma load_pages_ok:
  "full_mem m \<Longrightarrow> \<forall>x \<in> set ps. length (snd x) = 4096 \<Longrightarrow>
    \<exists>m'. load_pages (length ps) (concat (map (\<lambda>(a, bs). bytes32 a @ bs) ps)) m = Inr m' \<and> full_mem m' \<and>
      byte_at m' = overlays ps (byte_at m)"
proof (induction ps arbitrary: m)
  case (Cons p ps)
  obtain a bs where p: "p = (a, bs)" "length bs = 4096" using Cons.prems(2) by (cases p) auto
  obtain m1 where m1: "put_bytes a bs m = Inr m1" "full_mem m1" "byte_at m1 = overlay a bs (byte_at m)"
    using put_bytes_ok[OF Cons.prems(1)] by blast
  have w: "word_at (bytes32 a @ r) 0 = a" for r by (simp add: word_at_def bytes32_def)
  show ?case using Cons.IH[OF m1(2)] Cons.prems(2) m1(1,3) p by (simp add: page_size_def w)
qed simp

text \<open>The present pages, one after the other, are all bytes of a memory.\<close>

lemma pages_apart: "full_mem m \<Longrightarrow> apart (pages_of m)"
proof -
  assume m: "full_mem m"
  have a: "unat (4096 * of_nat p :: u32) = 4096 * p" if "p < npages m" for p
    using unat_of_nat32[of "4096 * p"] that m by (simp add: full_mem_def)
  have s: "span (4096 * of_nat p, map (\<lambda>i. byte_at m (4096 * p + i)) [0..<4096]) = {4096 * p ..< 4096 * p + 4096}"
    if "p < npages m" for p
    using a[OF that] by (simp add: span_def)
  have "disjnt {4096 * p ..< 4096 * p + 4096} {4096 * q ..< 4096 * q + (4096 :: nat)}" if "p < q" for p q
    using that by (auto simp: disjnt_def)
  then have "sorted_wrt (\<lambda>x y. disjnt (span x) (span y)) (pages_of m)"
    unfolding pages_of_def sorted_wrt_map
    by (intro sorted_wrt_filter sorted_wrt_mono_rel[OF _ sorted_wrt_upt[of 0 "npages m"]]) (simp add: s)
  moreover have "list_all (\<lambda>x. unat (fst x) + length (snd x) \<le> 2 ^ 32) (pages_of m)"
    using a m by (auto simp: pages_of_def list_all_iff full_mem_def)
  ultimately show ?thesis by (simp add: apart_def)
qed

lemma pages_restore: "full_mem m \<Longrightarrow> overlays (pages_of m) (\<lambda>_. 0) = byte_at m"
proof
  fix x :: nat assume m: "full_mem m"
  let ?p = "x div 4096"
  let ?e = "\<lambda>p. (4096 * of_nat p :: u32, map (\<lambda>i. byte_at m (4096 * p + i)) [0..<4096])"
  have a: "unat (4096 * of_nat p :: u32) = 4096 * p" if "p < npages m" for p
    using unat_of_nat32[of "4096 * p"] that m by (simp add: full_mem_def)
  show "overlays (pages_of m) (\<lambda>_. 0) x = byte_at m x"
  proof (cases "?p < npages m \<and> pages m ?p \<noteq> None")
    case True
    then have "?e ?p \<in> set (pages_of m)" by (auto simp: pages_of_def)
    moreover have "x \<in> span (?e ?p)" using a[of ?p] True by (simp add: span_def)
    ultimately show ?thesis
      using overlays_inside[OF pages_apart[OF m], of "?e ?p" x] a[of ?p] True by simp
  next
    case False
    have "x \<notin> span y" if "y \<in> set (pages_of m)" for y
    proof -
      from that obtain p where p: "y = ?e p" "p < npages m" "pages m p \<noteq> None" by (auto simp: pages_of_def)
      have "x div 4096 = p" if "4096 * p \<le> x" "x < 4096 * p + 4096" using that by (intro div_nat_eqI) simp_all
      then show ?thesis using False a[of p] p by (auto simp: span_def)
    qed
    moreover have "pages m ?p = None" using False m by (auto simp: full_mem_def wf_mem_def used_bits_def)
    ultimately show ?thesis using overlays_outside[OF pages_apart[OF m]] by (simp add: byte_at_def pgsize_def)
  qed
qed

text \<open>
  C19. A snapshot is read back: from a file with the registers of a machine and its present pages,
  \<open>loadState\<close> restores every register and every byte of the memory into a machine whose memory
  is empty; only the count of instructions starts again, whatever the caller asks for.
\<close>

theorem snapshot_restores:
  assumes "full_mem (mem s)" "full_mem (mem t)" "byte_at (mem t) = (\<lambda>_. 0)" "pc s \<noteq> 0"
  shows "\<exists>t'. loadState (Some (snapshot s (pages_of (mem s)))) c t = Inr t' \<and> byte_at (mem t') = byte_at (mem s) \<and>
    pc t' = pc s \<and> lo t' = lo s \<and> hi t' = hi s \<and> (\<forall>i < 32. gpr t' i = gpr s i \<and> cpr0 t' i = cpr0 s i \<and> cpr1 t' i = cpr1 s i) \<and>
    (\<forall>i < 5. fcr1 t' i = fcr1 s i) \<and> icnt t' = 0"
proof -
  let ?ps = "pages_of (mem s)" and ?h = "header_words s (length (pages_of (mem s)))" and ?f = "snapshot s (pages_of (mem s))"
  have len: "length ?h = 107" by (simp add: header_words_def)
  have n: "length ?ps < 2 ^ 32"
    using assms(1) by (simp add: pages_of_def full_mem_def) (rule le_less_trans[OF length_filter_le], simp)
  have w: "word_at ?f (4 * k) = ?h ! k" if "k < 107" for k
    using that word_at_words[of k ?h] by (simp add: snapshot_def len)
  have w0: "word_at ?f 0 = pc s" using w[of 0] by (simp add: header_words_def)
  have wn: "word_at ?f 424 = of_nat (length ?ps)" using w[of 106] by (simp add: header_words_def nth_append)
  have hl: "word_at ?f 132 = lo s" "word_at ?f 136 = hi s" using w[of 33] w[of 34] by (simp_all add: header_words_def nth_append)
  have ws: "words_at ?f 4 32 f i = gpr s i" "words_at ?f 140 32 f i = cpr0 s i" "words_at ?f 268 32 f i = cpr1 s i" if "i < 32" for f i
    using w[of "1 + i"] w[of "35 + i"] w[of "67 + i"] that by (simp_all add: words_at_def header_words_def nth_append)
  have wf: "words_at ?f 396 5 f i = fcr1 s i" if "i < 5" for f i
    using w[of "99 + i"] that by (simp add: words_at_def header_words_def nth_append)
  have d: "drop header_size ?f = concat (map (\<lambda>(a, bs). bytes32 a @ bs) ?ps)"
    by (simp add: snapshot_def header_size_def length_words len)
  have "\<forall>x \<in> set ?ps. length (snd x) = 4096" by (auto simp: pages_of_def)
  from load_pages_ok[OF assms(2) this] obtain m' where
    m': "load_pages (length ?ps) (concat (map (\<lambda>(a, bs). bytes32 a @ bs) ?ps)) (mem t) = Inr m'" "byte_at m' = byte_at (mem s)"
    using pages_restore[OF assms(1)] assms(3) by auto
  have "header_size \<le> length ?f" by (simp add: snapshot_def length_words len header_size_def)
  then have "loadState (Some ?f) c t = Inr (t\<lparr>pc := pc s, gpr := words_at ?f 4 32 (gpr t), lo := lo s, hi := hi s,
     cpr0 := words_at ?f 140 32 (cpr0 t), cpr1 := words_at ?f 268 32 (cpr1 t), fcr1 := words_at ?f 396 5 (fcr1 t), icnt := 0, mem := m'\<rparr>)"
    using m'(1) assms(4) unat_of_nat32[OF n] by (simp add: loadState_def w0 wn hl d)
  then show ?thesis using m'(2) ws wf by simp
qed

theorem snapshot_restores_witness:
  "\<exists>m t'. put_bytes 0x1000 [1, 2, 3] (new_mem 4294967296) = Inr m \<and>
     loadState (Some (snapshot ((new_state m 0)\<lparr>pc := 0x400000\<rparr>) (pages_of m))) False (new_state (new_mem 4294967296) 0) = Inr t' \<and>
     byte_at (mem t') 0x1001 = 2 \<and> pc t' = 0x400000"
proof -
  note f = full_new_mem
  have z: "byte_at (new_mem 4294967296) = (\<lambda>_. 0)" using wf_new_mem(2) by (simp add: fun_eq_iff)
  obtain m where m: "put_bytes 0x1000 [1, 2, 3] (new_mem 4294967296) = Inr m" "full_mem m" "byte_at m 0x1001 = 2"
    using put_bytes_ok[OF f, of "0x1000" "[1, 2, 3]"] by auto
  have "full_mem (mem ((new_state m 0)\<lparr>pc := 0x400000\<rparr>))" "full_mem (mem (new_state (new_mem 4294967296) 0))"
    "byte_at (mem (new_state (new_mem 4294967296) 0)) = (\<lambda>_. 0)" "pc ((new_state m 0)\<lparr>pc := 0x400000\<rparr>) \<noteq> 0"
    using m(2) f z by (simp_all add: new_state_def)
  from snapshot_restores[OF this, of False] m(1,3) show ?thesis by (auto simp: new_state_def)
qed

section \<open>Images are loaded\<close>

text \<open>The program headers; what a loadable one says of memory; the files the theorem is about.\<close>

definition prog_header :: "u8 list \<Rightarrow> nat \<Rightarrow> u8 list" where
  "prog_header buf i = take 32 (drop (unat (elf_word buf 28) + 32 * i) buf)"

definition prog_count :: "u8 list \<Rightarrow> nat" where
  "prog_count buf = unat (bswap16 (half_at buf 44))"

definition loadable :: "u8 list \<Rightarrow> bool" where
  "loadable ph \<longleftrightarrow> elf_word ph 0 = 1"

definition file_bytes :: "u8 list \<Rightarrow> u8 list \<Rightarrow> u8 list" where
  "file_bytes buf ph = take (unat (elf_word ph 16)) (drop (unat (elf_word ph 4)) buf)"

definition seg_image :: "u8 list \<Rightarrow> u8 list \<Rightarrow> u32 \<times> u8 list" where
  "seg_image buf ph = (elf_word ph 8, file_bytes buf ph @ replicate (unat (elf_word ph 20) - unat (elf_word ph 16)) 0)"

definition seg_fits :: "u8 list \<Rightarrow> u8 list \<Rightarrow> bool" where
  "seg_fits buf ph \<longleftrightarrow> unat (elf_word ph 20) < 2 ^ 31 \<and> unat (elf_word ph 16) \<le> unat (elf_word ph 20) \<and>
     unat (elf_word ph 4) < 2 ^ 31 \<and> unat (elf_word ph 4) + unat (elf_word ph 16) \<le> length buf"

definition mips_elf :: "u8 list \<Rightarrow> bool" where
  "mips_elf buf \<longleftrightarrow> 52 \<le> length buf \<and> checkElf buf \<and> check32Bit buf \<and> checkBigEndian buf \<and> bswap16 (half_at buf 18) = 8 \<and>
     unat (elf_word buf 28) + 32 * prog_count buf \<le> length buf"

definition images :: "u8 list \<Rightarrow> (u32 \<times> u8 list) list" where
  "images buf = map (seg_image buf) (filter loadable (map (prog_header buf) [0..<prog_count buf]))"

lemma sint_small: "unat x < 2 ^ 31 \<Longrightarrow> sint (x :: u32) = int (unat x)"
proof -
  assume "unat x < 2 ^ 31"
  then have "int (unat x) < int (2 ^ 31)" by (simp only: of_nat_less_iff)
  then have "uint x < 2 ^ 31" by simp
  moreover have "- (2 ^ 31) \<le> (0 :: int)" "0 \<le> uint x" by simp_all
  then have "- (2 ^ 31) \<le> uint x" by (rule order_trans)
  ultimately have "signed_take_bit 31 (uint x) = uint x" by (rule signed_take_bit_int_eq_self[rotated])
  then show ?thesis by (simp add: sint_uint)
qed

lemma rd_buf_ok: "i + n \<le> length buf \<Longrightarrow> rd_buf buf (int i) n = Inr (take n (drop i buf))"
  by (simp add: rd_buf_def)

lemma overlay_twice:
  assumes "length bs \<le> n" "unat a + n \<le> 2 ^ 32"
  shows "overlay a bs (overlay a (replicate n 0) f) = overlay a (bs @ replicate (n - length bs) 0) f"
  using assms by (auto simp: overlay_at fun_eq_iff nth_append)

lemma load_segment_ok:
  assumes "full_mem m" "loadable ph" "seg_fits buf ph" "unat (elf_word ph 8) + unat (elf_word ph 20) \<le> 2 ^ 32"
  shows "\<exists>m'. load_segment buf ph m = Inr m' \<and> full_mem m' \<and>
    byte_at m' = overlay (fst (seg_image buf ph)) (snd (seg_image buf ph)) (byte_at m)"
proof (cases "elf_word ph 20 = 0")
  case True
  then show ?thesis using assms(1,3) by (simp add: load_segment_def seg_image_def file_bytes_def seg_fits_def)
next
  case False
  have s: "sint (elf_word ph 20) = int (unat (elf_word ph 20))" "sint (elf_word ph 16) = int (unat (elf_word ph 16))"
    "sint (elf_word ph 4) = int (unat (elf_word ph 4))"
    by (rule sint_small; use assms(3) in \<open>simp add: seg_fits_def\<close>)+
  let ?z = "replicate (unat (elf_word ph 20)) 0 :: u8 list"
  have l: "length (file_bytes buf ph) = unat (elf_word ph 16)" "unat (elf_word ph 16) \<le> unat (elf_word ph 20)"
    using assms(3) by (auto simp: file_bytes_def seg_fits_def)
  obtain m1 where m1: "put_bytes (elf_word ph 8) ?z m = Inr m1" "full_mem m1" "byte_at m1 = overlay (elf_word ph 8) ?z (byte_at m)"
    using put_bytes_ok[OF assms(1)] by blast
  obtain m2 where m2: "put_bytes (elf_word ph 8) (file_bytes buf ph) m1 = Inr m2" "full_mem m2"
    "byte_at m2 = overlay (elf_word ph 8) (file_bytes buf ph) (byte_at m1)"
    using put_bytes_ok[OF m1(2)] by blast
  have "rd_buf buf (int (unat (elf_word ph 4))) (unat (elf_word ph 16)) = Inr (file_bytes buf ph)"
    unfolding file_bytes_def by (rule rd_buf_ok) (use assms(3) in \<open>simp add: seg_fits_def\<close>)
  then have "load_segment buf ph m = Inr m2"
    using False assms(2) m1(1) m2(1) by (simp add: load_segment_def Let_def s loadable_def unsigned_eq_0_iff)
  moreover have "byte_at m2 = overlay (elf_word ph 8) (snd (seg_image buf ph)) (byte_at m)"
    using overlay_twice[of "file_bytes buf ph" "unat (elf_word ph 20)" "elf_word ph 8" "byte_at m"] l assms(4)
    by (simp add: m2(3) m1(3) seg_image_def)
  ultimately show ?thesis using m2(2) by (simp add: seg_image_def)
qed

lemma load_segments_ok:
  assumes "full_mem m" "start + 32 * n \<le> length buf"
    and "\<forall>k < n. let ph = take 32 (drop (start + 32 * k) buf) in loadable ph \<longrightarrow> seg_fits buf ph \<and> unat (elf_word ph 8) + unat (elf_word ph 20) \<le> 2 ^ 32"
  shows "\<exists>m'. load_segments buf n (int start) m = Inr m' \<and> full_mem m' \<and>
    byte_at m' = overlays (map (seg_image buf) (filter loadable (map (\<lambda>k. take 32 (drop (start + 32 * k) buf)) [0..<n]))) (byte_at m)"
  using assms
proof (induction n arbitrary: start m)
  case (Suc n)
  let ?ph = "take 32 (drop start buf)"
  have r: "rd_buf buf (int start) 32 = Inr ?ph" using Suc.prems(2) by (intro rd_buf_ok) simp
  have up: "map (\<lambda>k. take 32 (drop (start + 32 * k) buf)) [0..<Suc n] = ?ph # map (\<lambda>k. take 32 (drop (start + 32 + 32 * k) buf)) [0..<n]"
    by (simp only: map_upt_Suc) (simp add: algebra_simps)
  have p: "loadable ?ph \<longrightarrow> seg_fits buf ?ph \<and> unat (elf_word ?ph 8) + unat (elf_word ?ph 20) \<le> 2 ^ 32"
    using Suc.prems(3) by (auto simp: Let_def dest: spec[of _ 0])
  obtain m1 where m1: "load_segment buf ?ph m = Inr m1" "full_mem m1"
    "byte_at m1 = (if loadable ?ph then overlay (fst (seg_image buf ?ph)) (snd (seg_image buf ?ph)) (byte_at m) else byte_at m)"
  proof (cases "loadable ?ph")
    case True
    then show ?thesis using that load_segment_ok[OF Suc.prems(1) True] p by metis
  next
    case False
    then show ?thesis using that Suc.prems(1) by (simp add: load_segment_def loadable_def)
  qed
  have "\<forall>k < n. let ph = take 32 (drop (start + 32 + 32 * k) buf) in loadable ph \<longrightarrow> seg_fits buf ph \<and> unat (elf_word ph 8) + unat (elf_word ph 20) \<le> 2 ^ 32"
    using Suc.prems(3) by (auto simp: Let_def algebra_simps dest: spec[of _ "Suc _"])
  from Suc.IH[OF m1(2) _ this] Suc.prems(2) obtain m' where
    m': "load_segments buf n (int (start + 32)) m1 = Inr m'" "full_mem m'"
      "byte_at m' = overlays (map (seg_image buf) (filter loadable (map (\<lambda>k. take 32 (drop (start + 32 + 32 * k) buf)) [0..<n]))) (byte_at m1)"
    by auto
  have "load_segments buf (Suc n) (int start) m = Inr m'" using r m1(1) m'(1) by (simp add: add.commute)
  then show ?case using m'(2,3) m1(3) unfolding up by simp
qed simp

lemma spans: "seg_fits buf ph \<Longrightarrow> span (seg_image buf ph) = {unat (elf_word ph 8) ..< unat (elf_word ph 8) + unat (elf_word ph 20)}"
  by (auto simp: span_def seg_image_def file_bytes_def seg_fits_def)

text \<open>The images that are accepted, and what they say of the bytes of memory.\<close>

definition good_image :: "u8 list \<Rightarrow> bool" where
  "good_image buf \<longleftrightarrow> mips_elf buf \<and> apart (images buf) \<and>
     (\<forall>i < prog_count buf. loadable (prog_header buf i) \<longrightarrow> seg_fits buf (prog_header buf i))"

definition seg_byte :: "u8 list \<Rightarrow> u8 list \<Rightarrow> nat \<Rightarrow> u8" where
  "seg_byte buf ph k = (if k < unat (elf_word ph 16) then buf ! (unat (elf_word ph 4) + k) else 0)"

definition shows_image :: "u8 list \<Rightarrow> (nat \<Rightarrow> u8) \<Rightarrow> bool" where
  "shows_image buf f \<longleftrightarrow> (\<forall>i < prog_count buf. let ph = prog_header buf i in loadable ph \<longrightarrow>
     (\<forall>k < unat (elf_word ph 20). f (unat (elf_word ph 8) + k) = seg_byte buf ph k))"

lemma overlays_show:
  assumes "good_image buf"
  shows "shows_image buf (overlays (images buf) f)"
  unfolding shows_image_def Let_def
proof (intro allI impI)
  fix i k
  let ?ph = "prog_header buf i"
  assume i: "i < prog_count buf" "loadable ?ph" "k < unat (elf_word ?ph 20)"
  have f: "seg_fits buf ?ph" "apart (images buf)" using assms i by (simp_all add: good_image_def)
  have "unat (elf_word ?ph 8) + k \<in> span (seg_image buf ?ph)" using i(3) by (simp add: spans[OF f(1)])
  moreover have "seg_image buf ?ph \<in> set (images buf)" using i(1,2) by (auto simp: images_def)
  ultimately have "overlays (images buf) f (unat (elf_word ?ph 8) + k) = snd (seg_image buf ?ph) ! k"
    using overlays_inside[OF f(2)] by (force simp: seg_image_def)
  then show "overlays (images buf) f (unat (elf_word ?ph 8) + k) = seg_byte buf ?ph k"
    using f(1) i(3) by (auto simp: seg_image_def file_bytes_def seg_fits_def seg_byte_def nth_append)
qed

lemma load_elf_ok:
  assumes "buf = map_file pg bs" "good_image buf" "full_mem (mem s)"
  shows "\<exists>m. load_elf pg (Some bs) s = Inr (s\<lparr>pc := elf_word buf 24, mem := m\<rparr>) \<and> full_mem m \<and>
    byte_at m = overlays (images buf) (byte_at (mem s))"
proof -
  let ?n = "prog_count buf" and ?o = "unat (elf_word buf 28)" and ?ph = "prog_header buf"
  have e: "mips_elf buf" "apart (images buf)" "\<forall>i < ?n. loadable (?ph i) \<longrightarrow> seg_fits buf (?ph i)"
    using assms(2) by (simp_all add: good_image_def)
  have len: "52 \<le> length buf" "?o + 32 * ?n \<le> length buf" using e(1) by (simp_all add: mips_elf_def)
  have eh: "rd_buf buf 0 52 = Inr (take 52 buf)" using rd_buf_ok[of 0 52 buf] len(1) by simp
  have w: "elf_word (take 52 buf) 28 = elf_word buf 28" "elf_word (take 52 buf) 24 = elf_word buf 24"
    "half_at (take 52 buf) 18 = half_at buf 18" "half_at (take 52 buf) 44 = half_at buf 44"
    "checkElf (take 52 buf) = checkElf buf" "check32Bit (take 52 buf) = check32Bit buf" "checkBigEndian (take 52 buf) = checkBigEndian buf"
    by (simp_all add: elf_word_def word_at_def half_at_def checkElf_def check32Bit_def checkBigEndian_def)
  have nowrap: "unat (elf_word (?ph i) 8) + unat (elf_word (?ph i) 20) \<le> 2 ^ 32" if "i < ?n" "loadable (?ph i)" for i
  proof -
    have f: "seg_fits buf (?ph i)" using e(3) that by simp
    have "seg_image buf (?ph i) \<in> set (images buf)" using that by (auto simp: images_def)
    then have "unat (fst (seg_image buf (?ph i))) + length (snd (seg_image buf (?ph i))) \<le> 2 ^ 32"
      using e(2) by (auto simp: apart_def list_all_iff)
    then show ?thesis using f by (auto simp: seg_image_def file_bytes_def seg_fits_def)
  qed
  obtain m where m: "load_segments buf ?n (int ?o) (mem s) = Inr m" "full_mem m" "byte_at m = overlays (images buf) (byte_at (mem s))"
    using load_segments_ok[OF assms(3) len(2)] e(3) nowrap by (auto simp: Let_def prog_header_def[symmetric] images_def)
  have "load_elf pg (Some bs) s = Inr (s\<lparr>pc := elf_word buf 24, mem := m\<rparr>)"
    using m(1) e(1) by (simp add: load_elf_def assms(1)[symmetric] eh w mips_elf_def prog_count_def)
  then show ?thesis using m(2,3) by blast
qed

text \<open>
  C20. An ELF image is loaded as its program headers say: for a 32-bit big-endian MIPS image with
  segments inside the file that do not meet in memory, \<open>load_elf\<close> succeeds, sets the program
  counter to the entry point, puts the bytes of the file at the addresses of their segment and zero in the rest of the
  segment, and changes no other byte and no register.
\<close>

theorem elf_image_loaded:
  assumes "buf = map_file pg bs" "good_image buf" "full_mem (mem s)"
  shows "\<exists>m. load_elf pg (Some bs) s = Inr (s\<lparr>pc := elf_word buf 24, mem := m\<rparr>) \<and> shows_image buf (byte_at m) \<and>
    (\<forall>x. (\<forall>y \<in> set (images buf). x \<notin> span y) \<longrightarrow> byte_at m x = byte_at (mem s) x)"
  using load_elf_ok[OF assms] overlays_show[OF assms(2)] overlays_outside assms(2) by (auto simp: good_image_def)

definition sample_elf :: "u8 list" where
  "sample_elf = [0x7f, 0x45, 0x4c, 0x46, 1, 2, 1, 0, 0, 0, 0, 0, 0, 0, 0, 0,
     0, 2, 0, 8, 0, 0, 0, 1, 0, 0x40, 0, 0, 0, 0, 0, 52, 0, 0, 0, 0, 0, 0, 0, 0, 0, 52, 0, 32, 0, 1, 0, 0, 0, 0, 0, 0,
     0, 0, 0, 1, 0, 0, 0, 84, 0, 0x40, 0, 0, 0, 0x40, 0, 0, 0, 0, 0, 4, 0, 0, 0, 8, 0, 0, 0, 5, 0, 0, 0x10, 0,
     0x24, 0x02, 0x00, 0x01]"

lemma sample_elf_words:
  "length sample_elf = 88" "elf_word (sample_elf @ r) 24 = 0x400000" "elf_word (sample_elf @ r) 28 = 52" "prog_count (sample_elf @ r) = 1"
  "elf_word (prog_header (sample_elf @ r) 0) 0 = 1" "elf_word (prog_header (sample_elf @ r) 0) 4 = 84"
  "elf_word (prog_header (sample_elf @ r) 0) 8 = 0x400000" "elf_word (prog_header (sample_elf @ r) 0) 16 = 4"
  "elf_word (prog_header (sample_elf @ r) 0) 20 = 8" "(sample_elf @ r) ! 85 = 2" "bswap16 (half_at (sample_elf @ r) 18) = 8"
  "checkElf (sample_elf @ r)" "check32Bit (sample_elf @ r)" "checkBigEndian (sample_elf @ r)"
  by (simp_all add: sample_elf_def elf_word_def word_at_def half_at_def prog_count_def prog_header_def bswap32_def bswap16_def
      le32_def le16_def byte_def checkElf_def check32Bit_def checkBigEndian_def)

lemma sample_elf_good: "map_file 4096 sample_elf = sample_elf @ replicate 4008 0" "good_image (sample_elf @ replicate 4008 0)"
proof -
  let ?buf = "sample_elf @ replicate 4008 0"
  note e = sample_elf_words(2-)[of "replicate 4008 0"]
  show "map_file 4096 sample_elf = ?buf" by (simp add: map_file_def sample_elf_words(1))
  have "length (snd (seg_image ?buf (prog_header ?buf 0))) \<le> 8" using e by (simp add: seg_image_def file_bytes_def)
  then have "apart (images ?buf)" using e by (simp add: apart_def images_def loadable_def seg_image_def)
  moreover have "mips_elf ?buf" using e sample_elf_words(1) by (simp add: mips_elf_def)
  moreover have "seg_fits ?buf (prog_header ?buf 0)" using e sample_elf_words(1) by (simp add: seg_fits_def)
  ultimately show "good_image ?buf" using e by (simp add: good_image_def)
qed

theorem elf_image_loaded_witness:
  "\<exists>m. load_elf 4096 (Some sample_elf) (new_state (new_mem 4294967296) 0) =
       Inr ((new_state (new_mem 4294967296) 0)\<lparr>pc := 0x400000, mem := m\<rparr>) \<and> byte_at m 0x400001 = 2 \<and> byte_at m 0x400005 = 0"
proof -
  let ?buf = "sample_elf @ replicate 4008 0"
  note e = sample_elf_words(2-)[of "replicate 4008 0"]
  have f: "full_mem (mem (new_state (new_mem 4294967296) 0))" using full_new_mem by (simp add: new_state_def)
  from elf_image_loaded[OF sample_elf_good(1)[symmetric] sample_elf_good(2) f] e obtain x where
    x: "load_elf 4096 (Some sample_elf) (new_state (new_mem 4294967296) 0) = Inr ((new_state (new_mem 4294967296) 0)\<lparr>pc := 0x400000, mem := x\<rparr>)"
      "\<forall>k < 8. byte_at x (4194304 + k) = (if k < 4 then ?buf ! (84 + k) else 0)"
    by (auto simp: shows_image_def seg_byte_def loadable_def)
  have "byte_at x 4194305 = 2" "byte_at x 4194309 = 0"
    using spec[OF x(2), of 1] spec[OF x(2), of 5] e(9) by simp_all
  then show ?thesis using x(1) by auto
qed

end
