(* ===== verification/Simulator.thy ===== *)
theory Simulator
  imports Loader Core_Restart Interp_Proofs
begin

text \<open>
  \<^verbatim>\<open>sim_ooo/main.cc\<close>: the options with their checks, the arguments of the simulated program, the
  caches, and the run from a file to the end of the core.  The parser of the command line is a library;
  a record holds what it leaves.  Signals and the log are left out.
\<close>

section \<open>Options\<close>

text \<open>The list of \<^verbatim>\<open>sim_parameters.hh\<close>: name, default, least value, and whether it must be a power of two.\<close>

definition sim_param_list :: "(string \<times> int \<times> int \<times> bool) list" where
  "sim_param_list = [
     (''heartbeat'', 1048576, 1, True), (''flash_restart'', 1, 0, True), (''rob_size'', 64, 1, True), (''fetchq_size'', 8, 1,
     True), (''decodeq_size'', 8, 1, True), (''fetch_bw'', 4, 1, False), (''decode_bw'', 4, 1, False), (''alloc_bw'', 4, 1,
     False), (''retire_bw'', 4, 1, False), (''num_gpr_prf'', 128, 64, True), (''num_cpr0_prf'', 64, 32, True),
     (''num_cpr1_prf'', 64, 32, True), (''num_fcr1_prf'', 16, 8, True), (''num_fpu_ports'', 2, 1, False), (''num_alu_ports'',
     2, 1, False), (''num_load_ports'', 2, 1, False), (''num_store_ports'', 1, 1, False), (''num_fpu_sched_per_cycle'', 1, 1,
     False), (''num_alu_sched_per_cycle'', 1, 1, False), (''num_load_sched_per_cycle'', 1, 1, False),
     (''num_store_sched_per_cycle'', 1, 1, False), (''num_alu_sched_entries'', 16, 1, False), (''num_fpu_sched_entries'', 16,
     1, False), (''num_jmp_sched_entries'', 16, 1, False), (''num_load_sched_entries'', 16, 1, False),
     (''num_store_sched_entries'', 16, 1, False), (''num_system_sched_entries'', 1, 1, False), (''load_tbl_size'', 64, 1,
     False), (''store_tbl_size'', 64, 1, False), (''taken_branches_per_cycle'', 1, 1, False), (''num_loop_entries'', 0, 0,
     True), (''lg_pht_entries'', 16, 0, False), (''gselect_addr_bits'', 8, 0, False), (''bhr_length'', 32, 1, True),
     (''bht_length'', 8, 1, True), (''num_bht_entries'', 16, 1, True), (''l1d_latency'', 3, 1, False), (''l1d_assoc'', 8, 1,
     True), (''l1d_sets'', 64, 1, True), (''l1d_linesize'', 64, 64, True), (''l2d_latency'', 10, 1, False), (''l2d_assoc'',
     16, 1, True), (''l2d_sets'', 256, 1, True), (''l2d_linesize'', 64, 64, True), (''l3d_latency'', 25, 1, False),
     (''l3d_assoc'', 32, 1, True), (''l3d_sets'', 4096, 1, True), (''l3d_linesize'', 64, 64, True), (''mem_latency'', 100, 1,
     False), (''ready_to_dispatch_latency'', 0, 0, False), (''l1d_misses_inflight'', 1, 1, False), (''branch_predictor'', 6,
     0, False), (''num_tage_tbls'', 4, 1, False), (''lg_tage_bimode_tbl_entries'', 12, 1, False),
     (''lg_tage_tagged_tbl_entries'', 10, 1, False)]"

definition scaled :: "string list" where
  "scaled = [
     ''rob_size'', ''fetchq_size'', ''decodeq_size'', ''fetch_bw'', ''decode_bw'', ''alloc_bw'', ''retire_bw'',
     ''num_gpr_prf'', ''num_cpr0_prf'', ''num_cpr1_prf'', ''num_fcr1_prf'', ''num_fpu_ports'', ''num_alu_ports'',
     ''num_load_ports'', ''num_store_ports'', ''num_alu_sched_entries'', ''num_fpu_sched_entries'',
     ''num_jmp_sched_entries'', ''num_load_sched_entries'', ''num_store_sched_entries'']"

type_synonym options = "string \<Rightarrow> u32"

definition clamp :: "string \<times> int \<times> int \<times> bool \<Rightarrow> options \<Rightarrow> options" where
  "clamp = (\<lambda>(a, b, c, d) p. if sint (p a) < c then p(a := of_int b) else p)"

definition default_options :: options where
  "default_options = (\<lambda>a. case map_of sim_param_list a of None \<Rightarrow> 0 | Some (b, _) \<Rightarrow> of_int b)"

text \<open>The checks of \<open>main\<close>; \<open>None\<close> when it returns -1.\<close>

definition set_params :: "u32 \<Rightarrow> options \<Rightarrow> options option" where
  "set_params scale raw = (let p = fold clamp sim_param_list raw in
     if list_all (\<lambda>(a, b, c, d). d \<longrightarrow> isPow2 (p a)) sim_param_list
     then Some (\<lambda>a. if a \<in> set scaled then p a * scale else p a) else None)"

definition opt :: "options \<Rightarrow> string \<Rightarrow> nat" where
  "opt p a = nat (sint (p a))"

definition sizes_of :: "options \<Rightarrow> core_sizes" where
  "sizes_of p = \<lparr>num_prf = (\<lambda>k. opt p (case k of GPR \<Rightarrow> ''num_gpr_prf'' | CPR0 \<Rightarrow> ''num_cpr0_prf'' | CPR1 \<Rightarrow> ''num_cpr1_prf''
       | FCR1 \<Rightarrow> ''num_fcr1_prf'')), load_tbl_size = opt p ''load_tbl_size'', store_tbl_size = opt p ''store_tbl_size'',
     fetchq_size = scast (p ''fetchq_size''), decodeq_size = scast (p ''decodeq_size''), rob_size = scast (p ''rob_size''),
     num_alu_sched_entries = opt p ''num_alu_sched_entries'', num_fpu_sched_entries = opt p ''num_fpu_sched_entries'',
     num_jmp_sched_entries = opt p ''num_jmp_sched_entries'', num_load_sched_entries = opt p ''num_load_sched_entries'',
     num_store_sched_entries = opt p ''num_store_sched_entries'', num_system_sched_entries = opt p ''num_system_sched_entries'',
     predictor_id = opt p ''branch_predictor'', num_loop_entries = p ''num_loop_entries'', bhr_length = opt p ''bhr_length'',
     num_bht_entries = opt p ''num_bht_entries'', bht_length = opt p ''bht_length''\<rparr>"

text \<open>The parameters of the operations and stages, for the host \<open>P\<close>, a hash \<open>h\<close> and the choice of checking.\<close>

definition param_of :: "options \<Rightarrow> bool \<Rightarrow> params \<Rightarrow> (u64 \<Rightarrow> u8 \<Rightarrow> u64) \<Rightarrow> sim_param" where
  "param_of p check P h = \<lparr>l1d_latency = scast (p ''l1d_latency''), fetch_bw = sint (p ''fetch_bw''), decode_bw = sint (p ''decode_bw''),
     alloc_bw = sint (p ''alloc_bw''), retire_bw = sint (p ''retire_bw''), taken_branches_per_cycle = sint (p ''taken_branches_per_cycle''),
     num_alu_ports = opt p ''num_alu_ports'', num_fpu_ports = opt p ''num_fpu_ports'', num_load_ports = opt p ''num_load_ports'',
     num_store_ports = opt p ''num_store_ports'', num_alu_sched = sint (p ''num_alu_sched_per_cycle''),
     num_fpu_sched = sint (p ''num_fpu_sched_per_cycle''), num_load_sched = sint (p ''num_load_sched_per_cycle''),
     num_store_sched = sint (p ''num_store_sched_per_cycle''), ready_to_dispatch_latency = scast (p ''ready_to_dispatch_latency''),
     flash_restart = (p ''flash_restart'' \<noteq> 0), use_interp_check = check,
     bpar = \<lparr>lg_pht_entries = opt p ''lg_pht_entries'', hash_combine = h\<rparr>,
     host = P\<lparr>cenv := (cenv P)\<lparr>mem_latency := p ''mem_latency''\<rparr>\<rparr>\<rparr>"

section \<open>Arguments\<close>

text \<open>
  \<open>buildArgcArgv\<close>: the name of the file, then at most \<open>MARGS\<close> words of the string up to its first NUL byte,
  which spaces separate.
\<close>

definition MARGS :: nat where
  "MARGS = 20"

fun strtok_all :: "u8 list \<Rightarrow> u8 list \<Rightarrow> u8 list list" where
  "strtok_all cur [] = (if cur = [] then [] else [cur])"
| "strtok_all cur (b # bs) = (if b = 0x20 then (if cur = [] then [] else [cur]) @ strtok_all [] bs else strtok_all (cur @ [b]) bs)"

definition c_str :: "u8 list \<Rightarrow> u8 list" where
  "c_str bs = takeWhile (\<lambda>b. b \<noteq> 0) bs"

definition buildArgcArgv :: "u8 list \<Rightarrow> u8 list \<Rightarrow> u8 list list" where
  "buildArgcArgv filename sysArgs = c_str filename # take MARGS (strtok_all [] (c_str sysArgs))"

section \<open>The run\<close>

record cmd_line =
  filename :: "u8 list"
  sysArgs :: "u8 list"
  use_l2 :: bool
  use_l3 :: bool
  c_maxicnt :: u64
  c_skipicnt :: u64
  use_checkpoint :: bool
  clear_checkpoint_icnt :: bool
  use_syscall_skip :: bool
  use_mem_model :: bool
  warmstart :: bool
  take_hash :: bool
  interp :: bool
  uarch_scale :: u32

text \<open>The levels of the hierarchy, the first level at the head.\<close>

definition make_cache :: "options \<Rightarrow> string \<Rightarrow> cache res" where
  "make_cache p l = new_setAssoc (opt p ''rob_size'') (opt p (l @ ''_linesize'')) (opt p (l @ ''_assoc'')) (opt p (l @ ''_sets''))
     (p (l @ ''_latency''))"

definition make_caches :: "options \<Rightarrow> cmd_line \<Rightarrow> cache list res" where
  "make_caches p c = rbind (if use_l2 c \<and> use_l3 c then rbind (make_cache p ''l3d'') (\<lambda>x. Inr [x]) else Inr []) (\<lambda>l3.
     rbind (if use_l2 c then rbind (make_cache p ''l2d'') (\<lambda>x. Inr (x # l3)) else Inr l3) (\<lambda>l2.
     rbind (make_cache p ''l1d'') (\<lambda>x. Inr (x # l2))))"

definition load_program :: "nat \<Rightarrow> u8 list option \<Rightarrow> cmd_line \<Rightarrow> state \<Rightarrow> state res" where
  "load_program pg file c s = (if use_checkpoint c then loadState file (clear_checkpoint_icnt c) s
     else rbind (load_elf pg file s) mkMonitorVectors)"

text \<open>The set-up of a run: \<open>k\<close> bounds the nesting of delay slots and \<open>n\<close> the instructions that are skipped.\<close>

definition start_run :: "nat \<Rightarrow> u8 list option \<Rightarrow> cmd_line \<Rightarrow> sim_param \<Rightarrow> options \<Rightarrow> u32 \<Rightarrow> nat \<Rightarrow> nat \<Rightarrow> (state \<times> sim_state) res" where
  "start_run pg file c S p t k n = rbind (load_program pg file c (initState (new_state (new_mem (2 ^ 32)) t))) (\<lambda>s.
     rbind (if use_mem_model c then make_caches p c else Inr []) (\<lambda>cs.
       initialize_ooo_core S (sizes_of p) k n cs (use_syscall_skip c) (c_skipicnt c) (c_maxicnt c)
         (if use_mem_model c \<and> warmstart c then s\<lparr>l1d := cs\<rparr> else s) (new_machine (new_mem 0) [])))"

text \<open>
  The whole of \<open>main\<close>: no result for an exit with -1 before the start, else the checksum, if it is asked for.
\<close>

definition run_main :: "nat \<Rightarrow> u8 list option \<Rightarrow> cmd_line \<Rightarrow> params \<Rightarrow> (u64 \<Rightarrow> u8 \<Rightarrow> u64) \<Rightarrow> options \<Rightarrow> u32 \<Rightarrow> nat \<Rightarrow> nat \<Rightarrow> nat \<Rightarrow>
    u32 option option res" where
  "run_main pg file c P h raw t k n rounds = (if filename c = [] then Inr None else case set_params (uarch_scale c) raw of None \<Rightarrow> Inr None
     | Some p \<Rightarrow> let S = param_of p (interp c) (P\<lparr>os := (os P)\<lparr>sysArgv := buildArgcArgv (filename c) (sysArgs c)\<rparr>\<rparr>) h
         in rbind (start_run pg file c S p t k n) (\<lambda>(s, M).
            rbind (if terminate_sim M then Inr M else rbind (run_ooo_core S k (p ''mem_latency'') rounds \<lparr>mach = M, ref = s, at = At_top\<rparr>)
              (\<lambda>x. Inr (mach x))) (\<lambda>M1.
            rbind (if take_hash c then rbind (crc32_mem (smem M1)) (\<lambda>x. Inr (Some x)) else Inr None) (\<lambda>x.
            rbind (destroy_ooo_core M1) (\<lambda>_. Inr (Some x))))))"

section \<open>The checks\<close>

lemma params_distinct: "distinct (map fst sim_param_list)"
  by (simp add: sim_param_list_def)

lemma params_sane:
  "list_all (\<lambda>(a, b, c, d). c \<le> sint (of_int b :: u32) \<and> 0 \<le> c \<and> (d \<longrightarrow> isPow2 (of_int b :: u32))) sim_param_list"
  by (simp add: sim_param_list_def isPow2_def)

lemma fold_fixed: "(\<And>x. x \<in> set xs \<Longrightarrow> clamp x p = p) \<Longrightarrow> fold clamp xs p = p"
  by (induction xs) auto

lemma clamp_other: "a \<notin> fst ` set xs \<Longrightarrow> fold clamp xs p a = p a"
  by (induction xs arbitrary: p) (auto simp: clamp_def)

lemma clamp_all:
  "distinct (map fst xs) \<Longrightarrow> (a, b, c, d) \<in> set xs \<Longrightarrow> fold clamp xs p a = (if sint (p a) < c then of_int b else p a)"
proof (induction xs arbitrary: p)
  case (Cons x xs)
  show ?case
  proof (cases "x = (a, b, c, d)")
    case True
    then have "a \<notin> fst ` set xs" using Cons.prems(1) by simp
    then show ?thesis using clamp_other[of a xs "clamp x p"] True by (simp add: clamp_def)
  next
    case False
    then have i: "(a, b, c, d) \<in> set xs" using Cons.prems(2) by auto
    then have "a \<in> fst ` set xs" by force
    then have "fst x \<noteq> a" using Cons.prems(1) by auto
    then show ?thesis using Cons.IH[of "clamp x p"] Cons.prems(1) i by (cases x) (auto simp: clamp_def)
  qed
qed simp

text \<open>A checked option: at least its least value, a power of two where this is asked, before it is scaled.\<close>

lemma set_params_D:
  assumes "set_params scale raw = Some p" "(a, b, c, d) \<in> set sim_param_list"
  shows "\<exists>v. v = fold clamp sim_param_list raw a \<and> c \<le> sint v \<and> 0 \<le> c \<and> (d \<longrightarrow> isPow2 v) \<and> p a = (if a \<in> set scaled then v * scale else v)"
proof -
  let ?v = "fold clamp sim_param_list raw a"
  have s: "c \<le> sint (of_int b :: u32)" "0 \<le> c" using params_sane assms(2) by (auto simp: list_all_iff)
  have "c \<le> sint ?v" using clamp_all[OF params_distinct assms(2), of raw] s by auto
  moreover have "d \<longrightarrow> isPow2 ?v" "p a = (if a \<in> set scaled then ?v * scale else ?v)"
    using assms by (auto simp: set_params_def Let_def list_all_iff split: if_splits)
  ultimately show ?thesis using s(2) by blast
qed

lemma sint_times:
  fixes v s :: u32
  assumes "0 \<le> sint v" "0 \<le> sint s" "sint v * sint s < 2 ^ 31"
  shows "sint (v * s) = sint v * sint s" "nat (sint (v * s)) = nat (sint v) * nat (sint s)"
proof -
  have "- (2 ^ 31) \<le> sint v * sint s" using assms(1,2) by (intro order_trans[OF _ mult_nonneg_nonneg]) auto
  then show "sint (v * s) = sint v * sint s"
    using assms(3) by (simp add: sint_word_ariths signed_take_bit_int_eq_self)
  then show "nat (sint (v * s)) = nat (sint v) * nat (sint s)" using assms by (simp add: nat_mult_distrib)
qed

lemma pow2_option:
  assumes "isPow2 (v :: u32)" "2 ^ k \<le> sint v"
  shows "2 ^ k dvd nat (sint v)" "\<exists>j < 31. nat (sint v) = 2 ^ j"
proof -
  have "0 < sint v" using assms(2) by (rule less_le_trans[rotated]) simp
  then have "v \<noteq> 0" by auto
  then obtain j where j: "j < 32" "v = 2 ^ j" using assms(1) by (auto simp: isPow2_iff)
  have "j \<noteq> 31" using j(2) \<open>0 < sint v\<close> by auto
  then have lt: "j < 31" using j(1) by simp
  have u: "unat v = 2 ^ j" using j by (simp add: unat_exp)
  then have "unat v < 2 ^ 31" using power_strict_increasing[OF lt, of "2::nat"] by simp
  from sint_small[OF this] u have s: "sint v = 2 ^ j" "nat (sint v) = 2 ^ j" by (simp_all add: nat_power_eq)
  show "\<exists>j < 31. nat (sint v) = 2 ^ j" using lt s(2) by blast
  have "k \<le> j" using assms(2) unfolding s(1) by simp
  then show "2 ^ k dvd nat (sint v)" unfolding s(2) by (rule le_imp_power_dvd)
qed

text \<open>No scaled option leaves the range of \<open>int\<close>.\<close>

definition scale_fits :: "u32 \<Rightarrow> options \<Rightarrow> bool" where
  "scale_fits scale raw \<longleftrightarrow> 0 < sint scale \<and> (\<forall>a \<in> set scaled. sint (fold clamp sim_param_list raw a) * sint scale < 2 ^ 31)"

lemma scaled_opt:
  assumes "set_params scale raw = Some p" "scale_fits scale raw" "(a, b, c, d) \<in> set sim_param_list" "a \<in> set scaled"
  shows "\<exists>v. c \<le> sint v \<and> 0 \<le> c \<and> (d \<longrightarrow> isPow2 v) \<and> v = fold clamp sim_param_list raw a \<and> opt p a = nat (sint v) * nat (sint scale) \<and> nat c \<le> opt p a"
proof -
  from set_params_D[OF assms(1,3)] assms(4) obtain v where v: "v = fold clamp sim_param_list raw a" "c \<le> sint v" "0 \<le> c"
    "d \<longrightarrow> isPow2 v" "p a = v * scale" by auto
  have "sint v * sint scale < 2 ^ 31" using assms(2,4) v(1) by (simp add: scale_fits_def)
  then have o: "opt p a = nat (sint v) * nat (sint scale)"
    using sint_times(2)[of v scale] v(2,3,5) assms(2) by (simp add: opt_def scale_fits_def)
  have "nat c * 1 \<le> nat (sint v) * nat (sint scale)"
    using v(2) assms(2) by (intro mult_le_mono) (auto simp: scale_fits_def nat_le_eq_zle)
  then show ?thesis using v o by auto
qed

lemma accepted_sizes:
  assumes "set_params scale raw = Some p" "scale_fits scale raw"
  shows "sizes_ok (sizes_of p) \<and> 64 dvd num_prf (sizes_of p) GPR \<and> (num_prf (sizes_of p) CPR1 = 32 * nat (sint scale) \<or> 64 dvd num_prf (sizes_of p) CPR1)
    \<and> 1 \<le> opt p ''rob_size'' \<and> 1 \<le> opt p ''fetchq_size'' \<and> 1 \<le> opt p ''decodeq_size'' \<and> 1 \<le> opt p ''fetch_bw'' \<and> 1 \<le> opt p ''retire_bw''"
proof -
  have m: "(''num_gpr_prf'', 128, 64, True) \<in> set sim_param_list" "(''num_cpr0_prf'', 64, 32, True) \<in> set sim_param_list"
    "(''num_cpr1_prf'', 64, 32, True) \<in> set sim_param_list" "(''num_fcr1_prf'', 16, 8, True) \<in> set sim_param_list"
    "(''rob_size'', 64, 1, True) \<in> set sim_param_list" "(''fetchq_size'', 8, 1, True) \<in> set sim_param_list"
    "(''decodeq_size'', 8, 1, True) \<in> set sim_param_list" "(''fetch_bw'', 4, 1, False) \<in> set sim_param_list"
    "(''retire_bw'', 4, 1, False) \<in> set sim_param_list" "(''num_loop_entries'', 0, 0, True) \<in> set sim_param_list"
    by (simp_all add: sim_param_list_def)
  have s: "''num_gpr_prf'' \<in> set scaled" "''num_cpr0_prf'' \<in> set scaled" "''num_cpr1_prf'' \<in> set scaled" "''num_fcr1_prf'' \<in> set scaled"
    "''rob_size'' \<in> set scaled" "''fetchq_size'' \<in> set scaled" "''decodeq_size'' \<in> set scaled" "''fetch_bw'' \<in> set scaled"
    "''retire_bw'' \<in> set scaled" "''num_loop_entries'' \<notin> set scaled"
    by (simp_all add: scaled_def)
  note so = scaled_opt[OF assms]
  have least: "nat c \<le> opt p a" if "(a, b, c, d) \<in> set sim_param_list" "a \<in> set scaled" for a b c d using so[OF that] by blast
  from so[OF m(1) s(1)] obtain v :: u32 where v: "64 \<le> sint v" "True \<longrightarrow> isPow2 v" "opt p ''num_gpr_prf'' = nat (sint v) * nat (sint scale)" by blast
  have g: "64 dvd opt p ''num_gpr_prf''" using pow2_option(1)[of v 6] v by simp
  from so[OF m(3) s(3)] obtain w :: u32 where w: "32 \<le> sint w" "True \<longrightarrow> isPow2 w" "opt p ''num_cpr1_prf'' = nat (sint w) * nat (sint scale)" by blast
  have f: "opt p ''num_cpr1_prf'' = 32 * nat (sint scale) \<or> 64 dvd opt p ''num_cpr1_prf''"
  proof (cases "sint w = 32")
    case False
    obtain j where j: "nat (sint w) = 2 ^ j" using pow2_option(2)[of w 5] w by auto
    have "sint w = 2 ^ j" "32 < sint w" using j False w(1) by (simp_all add: nat_eq_iff)
    then have "(2::int) ^ 5 < 2 ^ j" by simp
    then have "5 < j" by (simp only: power_strict_increasing_iff)
    then have "(2::int) ^ 6 \<le> 2 ^ j" by (intro power_increasing) simp_all
    then have "2 ^ 6 \<le> sint w" using \<open>sint w = 2 ^ j\<close> by simp
    then show ?thesis using pow2_option(1)[of w 6] w by simp
  qed (use w in simp)
  have o: "64 \<le> opt p ''num_gpr_prf''" "32 \<le> opt p ''num_cpr0_prf''" "32 \<le> opt p ''num_cpr1_prf''" "8 \<le> opt p ''num_fcr1_prf''"
    "1 \<le> opt p ''rob_size''" "1 \<le> opt p ''fetchq_size''" "1 \<le> opt p ''decodeq_size''" "1 \<le> opt p ''fetch_bw''" "1 \<le> opt p ''retire_bw''"
    using least[OF m(1) s(1)] least[OF m(2) s(2)] least[OF m(3) s(3)] least[OF m(4) s(4)] least[OF m(5) s(5)] least[OF m(6) s(6)]
      least[OF m(7) s(7)] least[OF m(8) s(8)] least[OF m(9) s(9)] by simp_all
  have "num_regs k \<le> num_prf (sizes_of p) k" for k using o(1-4) by (cases k) (simp_all add: sizes_of_def)
  moreover have "isPow2 (p ''num_loop_entries'')" using set_params_D[OF assms(1) m(10)] s(10) by auto
  ultimately show ?thesis using g f o by (simp add: sizes_ok_def) (simp add: sizes_of_def)
qed

text \<open>
  C39. The checks of \<open>main\<close> let only sizes through that the core can start with, for a scale that fits: when \<open>main\<close>
  accepts the options, the scale (\<open>--scale\<close>) is positive and no option that it multiplies leaves the range of \<open>int\<close>, then
  the register files hold the registers of the architecture, the free list of the integer registers can be counted, that of
  the floating-point registers too unless there are 32 of them per unit of scale, the reorder buffer and the two queues are not
  empty, fetch and retirement have a bandwidth of at least one, and the table of loops is off or has a size that is a power of two.
  \<open>main\<close> itself never checks the scale: with 0 it gives empty register files and queues, and with a scale that is not
  a power of two the sizes that are multiplied are none either, which the theorem does not speak of.
\<close>

theorem accepted_options_start:
  assumes "set_params scale raw = Some p" "scale_fits scale raw"
  shows "sizes_ok (sizes_of p) \<and> 64 dvd num_prf (sizes_of p) GPR \<and> (num_prf (sizes_of p) CPR1 = 32 * nat (sint scale) \<or> 64 dvd num_prf (sizes_of p) CPR1)
    \<and> 1 \<le> opt p ''rob_size'' \<and> 1 \<le> opt p ''fetchq_size'' \<and> 1 \<le> opt p ''decodeq_size'' \<and> 1 \<le> opt p ''fetch_bw'' \<and> 1 \<le> opt p ''retire_bw''"
  using accepted_sizes[OF assms] .

lemma default_at:
  assumes "(a, b, c, d) \<in> set sim_param_list"
  shows "default_options a = of_int b"
proof -
  have "map_of sim_param_list a = Some (b, c, d)" by (rule map_of_is_SomeI[OF params_distinct assms])
  then show ?thesis by (simp add: default_options_def)
qed

lemma default_accepted: "set_params 1 default_options = Some default_options" "fold clamp sim_param_list default_options = default_options"
proof -
  have "clamp x default_options = default_options" if "x \<in> set sim_param_list" for x
  proof -
    obtain a b c d where x: "x = (a, b, c, d)" by (cases x)
    then have i: "(a, b, c, d) \<in> set sim_param_list" using that by simp
    have "c \<le> sint (of_int b :: u32)" using params_sane i unfolding list_all_iff by blast
    then show ?thesis using default_at[OF i] by (simp add: clamp_def x)
  qed
  then show f: "fold clamp sim_param_list default_options = default_options" by (rule fold_fixed)
  have "d \<longrightarrow> isPow2 (default_options a)" if "(a, b, c, d) \<in> set sim_param_list" for a b c d
    unfolding default_at[OF that] using params_sane that unfolding list_all_iff by blast
  then have "list_all (\<lambda>(a, b, c, d). d \<longrightarrow> isPow2 (default_options a)) sim_param_list" unfolding list_all_iff by blast
  then show "set_params 1 default_options = Some default_options" unfolding set_params_def f Let_def by (simp add: fun_eq_iff)
qed

lemma default_fits: "scale_fits 1 default_options"
proof -
  have "list_all (\<lambda>(a, b, c, d). sint (of_int b :: u32) < 2 ^ 31) sim_param_list" by (simp add: sim_param_list_def)
  then have "sint (default_options a) < 2 ^ 31" if "a \<in> fst ` set sim_param_list" for a
    using that default_at by (auto simp: list_all_iff)
  moreover have "list_all (\<lambda>a. a \<in> fst ` set sim_param_list) scaled" by (simp add: scaled_def sim_param_list_def)
  ultimately show ?thesis by (simp add: scale_fits_def default_accepted(2) list_all_iff)
qed

theorem accepted_options_start_witness:
  "set_params 1 default_options = Some default_options \<and> sizes_ok (sizes_of default_options) \<and> 64 dvd num_prf (sizes_of default_options) GPR"
  using accepted_options_start[OF default_accepted(1) default_fits] default_accepted(1) by blast

text \<open>
  C40. The check of the number of floating-point registers lets a size through that no restart
  survives: with a scale of one and 32 registers, which \<open>main\<close> accepts and the core starts with, the count that the restart
  asserts stops the simulator.
\<close>

theorem small_file_stops_restart:
  assumes "set_params 1 raw = Some p" "scale_fits 1 raw" "num_prf (sizes_of p) CPR1 = 32"
    and "ren_ok (num_prf (sizes_of p)) F M" "copy_bv (spec_bhr M) (bhr M) = Inr h"
  shows "restore_regs M = Inl Die"
proof -
  have "64 dvd num_prf (sizes_of p) GPR" using accepted_sizes[OF assms(1,2)] by blast
  moreover have "\<not> 64 dvd num_prf (sizes_of p) CPR1" by (simp add: assms(3))
  ultimately show ?thesis using restore_dies[OF assms(4)] assms(5) by blast
qed

definition small_options :: options where
  "small_options = default_options(''num_cpr1_prf'' := 32)"

lemma small_accepted: "set_params 1 small_options = Some small_options" "scale_fits 1 small_options"
proof -
  have m: "(''num_cpr1_prf'', 64, 32, True) \<in> set sim_param_list" by (simp add: sim_param_list_def)
  have c: "clamp x small_options = small_options" if "x \<in> set sim_param_list" for x
  proof -
    obtain a b c d where x: "x = (a, b, c, d)" by (cases x)
    have i: "(a, b, c, d) \<in> set sim_param_list" using that x by simp
    show ?thesis
    proof (cases "a = ''num_cpr1_prf''")
      case True
      then have "(b, c, d) = (64, 32, True)" using map_of_is_SomeI[OF params_distinct i] map_of_is_SomeI[OF params_distinct m] by simp
      then show ?thesis by (simp add: clamp_def x True small_options_def)
    next
      case False
      have "c \<le> sint (of_int b :: u32)" using params_sane i unfolding list_all_iff by blast
      then show ?thesis using False default_at[OF i] by (simp add: clamp_def x small_options_def)
    qed
  qed
  have f: "fold clamp sim_param_list small_options = small_options"
    using c by (rule fold_fixed)
  have "d \<longrightarrow> isPow2 (small_options a)" if "(a, b, c, d) \<in> set sim_param_list" for a b c d
  proof (cases "a = ''num_cpr1_prf''")
    case True
    then show ?thesis by (simp add: small_options_def isPow2_def)
  next
    case False
    then have "small_options a = of_int b" using default_at[OF that] by (simp add: small_options_def)
    then show ?thesis using params_sane that unfolding list_all_iff by auto
  qed
  then have "list_all (\<lambda>(a, b, c, d). d \<longrightarrow> isPow2 (small_options a)) sim_param_list" unfolding list_all_iff by blast
  then show "set_params 1 small_options = Some small_options" unfolding set_params_def f Let_def by (simp add: fun_eq_iff)
  show "scale_fits 1 small_options" using default_fits unfolding scale_fits_def f default_accepted(2) by (simp add: small_options_def)
qed

theorem small_file_stops_restart_witness:
  "\<exists>M. set_params 1 small_options = Some small_options \<and> ren_ok (num_prf (sizes_of small_options)) (\<lambda>_. []) M \<and> restore_regs M = Inl Die"
proof -
  have "sizes_ok (sizes_of small_options)" using accepted_sizes[OF small_accepted] by blast
  from start_ok[OF this, of undefined "new_mem 0" "[]" sample_state] obtain M where
    M: "ren_ok (num_prf (sizes_of small_options)) (\<lambda>_. []) M" "blank M" by blast
  have "copy_bv (spec_bhr M) (bhr M) = Inr ((spec_bhr M)\<lparr>arr := arr (bhr M)\<rparr>)" using M(2) by (simp add: blank_def copy_bv_def)
  moreover have "num_prf (sizes_of small_options) CPR1 = 32" by (simp add: sizes_of_def opt_def small_options_def)
  ultimately show ?thesis using small_file_stops_restart[OF small_accepted _ M(1)] M(1) small_accepted(1) by blast
qed

section \<open>From a file to the core\<close>

lemma pow2_opt: "isPow2 (p a) \<Longrightarrow> 0 \<le> sint (p a) \<Longrightarrow> pow2_size (opt p a)"
proof -
  assume a: "isPow2 (p a)" "0 \<le> sint (p a)"
  show ?thesis
  proof (cases "sint (p a) = 0")
    case True
    then show ?thesis by (simp add: pow2_size_def opt_def isPow2_def)
  next
    case False
    then have "2 ^ 0 \<le> sint (p a)" using a(2) by simp
    from pow2_option(2)[OF a(1) this] obtain j where "nat (sint (p a)) = 2 ^ j" by blast
    then show ?thesis using isPow2_exp[of j, where ?'a = 64] by (simp add: pow2_size_def opt_def)
  qed
qed

lemma unscaled_pow2:
  assumes "set_params scale raw = Some p" "(a, b, c, True) \<in> set sim_param_list" "a \<notin> set scaled"
  shows "pow2_size (opt p a)"
proof -
  from set_params_D[OF assms(1,2)] assms(3) have "c \<le> sint (p a)" "0 \<le> c" "isPow2 (p a)" by auto
  then show ?thesis by (intro pow2_opt) linarith+
qed

lemma make_cache_ok:
  assumes "set_params scale raw = Some p" "l \<in> {''l1d'', ''l2d'', ''l3d''}"
  shows "\<exists>x. make_cache p l = Inr x"
proof -
  have m: "(''l1d_linesize'', 64, 64, True) \<in> set sim_param_list" "(''l1d_assoc'', 8, 1, True) \<in> set sim_param_list"
    "(''l1d_sets'', 64, 1, True) \<in> set sim_param_list" "(''l2d_linesize'', 64, 64, True) \<in> set sim_param_list"
    "(''l2d_assoc'', 16, 1, True) \<in> set sim_param_list" "(''l2d_sets'', 256, 1, True) \<in> set sim_param_list"
    "(''l3d_linesize'', 64, 64, True) \<in> set sim_param_list" "(''l3d_assoc'', 32, 1, True) \<in> set sim_param_list"
    "(''l3d_sets'', 4096, 1, True) \<in> set sim_param_list"
    by (simp_all add: sim_param_list_def)
  have s: "''l1d_linesize'' \<notin> set scaled" "''l1d_assoc'' \<notin> set scaled" "''l1d_sets'' \<notin> set scaled" "''l2d_linesize'' \<notin> set scaled"
    "''l2d_assoc'' \<notin> set scaled" "''l2d_sets'' \<notin> set scaled" "''l3d_linesize'' \<notin> set scaled" "''l3d_assoc'' \<notin> set scaled"
    "''l3d_sets'' \<notin> set scaled"
    by (simp_all add: scaled_def)
  note w = unscaled_pow2[OF assms(1)]
  have "pow2_size (opt p (l @ ''_linesize''))" "pow2_size (opt p (l @ ''_assoc''))" "pow2_size (opt p (l @ ''_sets''))"
    using assms(2) w[OF m(1) s(1)] w[OF m(2) s(2)] w[OF m(3) s(3)] w[OF m(4) s(4)] w[OF m(5) s(5)] w[OF m(6) s(6)] w[OF m(7) s(7)]
      w[OF m(8) s(8)] w[OF m(9) s(9)] by (elim insertE emptyE; simp)+
  then show ?thesis by (simp add: make_cache_def new_setAssoc_def new_cache_def)
qed

lemma make_caches_ok:
  assumes "set_params scale raw = Some p"
  shows "\<exists>cs. make_caches p c = Inr cs"
proof -
  obtain x y z where "make_cache p ''l1d'' = Inr x" "make_cache p ''l2d'' = Inr y" "make_cache p ''l3d'' = Inr z"
    using make_cache_ok[OF assms, of "''l1d''"] make_cache_ok[OF assms, of "''l2d''"] make_cache_ok[OF assms, of "''l3d''"] by auto
  then show ?thesis by (simp add: make_caches_def)
qed

text \<open>
  C14. The simulator starts the program of the file: with options that the checks accept, a scale that is positive and
  with which no option overflows (\<open>scale_fits\<close>; \<open>main\<close> does not check it, and with \<open>--scale 0\<close> the register files are empty and the
  set-up fails), a good image, no checkpoint and no instructions to skip, the set-up of \<open>main\<close> succeeds.  The core is idle, its mapped
  registers are the interpreter's, fetch begins at the entry point, and outside the vectors of the monitor
  the memory of the core and that of the interpreter show the segments of the image.
\<close>

theorem simulator_starts_image:
  assumes "set_params scale raw = Some p" "scale_fits scale raw" "buf = map_file pg bs" "good_image buf"
    and "\<not> use_checkpoint c" "\<not> use_syscall_skip c" "c_skipicnt c = 0"
  shows "\<exists>s M. start_run pg (Some bs) c (param_of p (interp c) P h) p t k n = Inr (s, M) \<and> idle M \<and> holds M s \<and>
    ren_ok (num_prf (sizes_of p)) (\<lambda>_. []) M \<and> fetch_pc M = elf_word buf 24 \<and> pc s = elf_word buf 24 \<and> byte_at (smem M) = byte_at (mem s) \<and>
    (\<forall>x. \<not> (0xBFC00000 \<le> x \<and> x < 0xBFC00800) \<longrightarrow> byte_at (smem M) x = overlays (images buf) (\<lambda>_. 0) x)"
proof -
  let ?S = "param_of p (interp c) P h" and ?init = "initState (new_state (new_mem (2 ^ 32)) t)"
  have m0: "full_mem (mem ?init)" "byte_at (mem ?init) = (\<lambda>_. 0)"
    using full_new_mem wf_new_mem(2) by (auto simp: initState_def new_state_def)
  obtain m1 where m1: "load_elf pg (Some bs) ?init = Inr (?init\<lparr>pc := elf_word buf 24, mem := m1\<rparr>)" "full_mem m1"
    "byte_at m1 = overlays (images buf) (\<lambda>_. 0)"
    using load_elf_ok[OF assms(3,4) m0(1)] m0(2) by auto
  have "wf_mem m1" "0xBFC00800 \<le> mem_limit m1" using m1(2) by (simp_all add: full_mem_def mem_limit_def pgsize_def)
  from mk_vectors_ok[OF this, of "[0..<512]"] obtain m2 where m2: "mk_vectors [0..<512] m1 = Inr m2" "wf_mem m2"
    "\<forall>x. (\<forall>i < 512. \<not> (vector_addr i \<le> x \<and> x < vector_addr i + 4)) \<longrightarrow> byte_at m2 x = byte_at m1 x" by auto
  have far: "byte_at m2 x = byte_at m1 x" if "\<not> (0xBFC00000 \<le> x \<and> x < 0xBFC00800)" for x
  proof -
    have "\<not> (vector_addr i \<le> x \<and> x < vector_addr i + 4)" if "i < 512" for i
      using that \<open>\<not> (0xBFC00000 \<le> x \<and> x < 0xBFC00800)\<close> by (auto simp: vector_addr_def)
    then show ?thesis using m2(3) by blast
  qed
  let ?s = "?init\<lparr>pc := elf_word buf 24, mem := m2\<rparr>"
  have l: "load_program pg (Some bs) c ?init = Inr ?s" using m1(1) m2(1) assms(5) by (simp add: load_program_def mkMonitorVectors_def)
  obtain cs where cs: "(if use_mem_model c then make_caches p c else Inr []) = Inr cs" using make_caches_ok[OF assms(1)] by (cases "use_mem_model c") auto
  define w where "w = (if use_mem_model c \<and> warmstart c then ?s\<lparr>l1d := cs\<rparr> else ?s)"
  have e: "pc w = elf_word buf 24" "mem w = m2" by (simp_all add: w_def)
  have sk: "skip_insns (host ?S) k n (use_syscall_skip c) (c_skipicnt c) w = Inr w" using assms(6,7) by (simp add: skip_insns_def)
  have "sizes_ok (sizes_of p)" using accepted_sizes[OF assms(1,2)] by blast
  from core_start_ok[OF sk _ this] m2(2) e(2) obtain M where
    M: "initialize_ooo_core ?S (sizes_of p) k n cs (use_syscall_skip c) (c_skipicnt c) (c_maxicnt c) w (new_machine (new_mem 0) []) = Inr (w, M)"
      "ren_ok (num_prf (sizes_of p)) (\<lambda>_. []) M" "holds M w" "idle M" "fetch_pc M = pc w" "byte_at (smem M) = byte_at (mem w)"
    by metis
  have "start_run pg (Some bs) c ?S p t k n = Inr (w, M)" unfolding start_run_def l rbind_simps cs w_def[symmetric] by (rule M(1))
  then show ?thesis using M e far m1(3) by (intro exI[of _ w] exI[of _ M]) simp
qed

theorem simulator_starts_image_witness:
  "\<exists>c s M. start_run 4096 (Some sample_elf) c (param_of default_options (interp c) sample_params (\<lambda>h w. h)) default_options 0 0 0 = Inr (s, M) \<and>
     use_mem_model c \<and> warmstart c \<and> fetch_pc M = 0x400000 \<and> byte_at (smem M) 0x400001 = 2"
proof -
  let ?c = "\<lparr>filename = [97], sysArgs = [], use_l2 = True, use_l3 = True, c_maxicnt = -1, c_skipicnt = 0, use_checkpoint = False,
    clear_checkpoint_icnt = True, use_syscall_skip = False, use_mem_model = True, warmstart = True, take_hash = False, interp = False,
    uarch_scale = 1\<rparr>"
  let ?buf = "sample_elf @ replicate 4008 0"
  note e = sample_elf_words(2-)[of "replicate 4008 0"]
  from overlays_show[OF sample_elf_good(2), of "\<lambda>_. 0"] e(3-9)
  have "\<forall>k < 8. overlays (images ?buf) (\<lambda>_. 0) (4194304 + k) = (if k < 4 then ?buf ! (84 + k) else 0)"
    by (auto simp: shows_image_def seg_byte_def loadable_def)
  from spec[OF this, of 1] have b: "overlays (images ?buf) (\<lambda>_. 0) 0x400001 = 2" using e(9) by simp
  have "\<not> use_checkpoint ?c" "\<not> use_syscall_skip ?c" "c_skipicnt ?c = 0" by simp_all
  from simulator_starts_image[OF default_accepted(1) default_fits sample_elf_good(1)[symmetric] sample_elf_good(2) this,
      of sample_params "\<lambda>h w. h" 0 0 0] obtain s M where
    "start_run 4096 (Some sample_elf) ?c (param_of default_options (interp ?c) sample_params (\<lambda>h w. h)) default_options 0 0 0 = Inr (s, M)"
    "fetch_pc M = elf_word ?buf 24" "\<forall>x. \<not> (0xBFC00000 \<le> x \<and> x < 0xBFC00800) \<longrightarrow> byte_at (smem M) x = overlays (images ?buf) (\<lambda>_. 0) x"
    by blast
  then show ?thesis using b e(1) by (intro exI[of _ ?c] exI[of _ s] exI[of _ M]) simp
qed

end
