(* ===== verification/Disassemble.thy ===== *)
theory Disassemble
  imports Prelude
begin

text \<open>
  Names of registers and of floating-point conditions, and the text of an instruction
  (\<^verbatim>\<open>sim_ooo/disassemble.cc\<close>).  The disassembler itself is a library: it is the parameter
  \<open>cs_disasm\<close>, from the bytes of an instruction and its address to the mnemonics and operands found,
  and the code \<open>cs_open\<close> returns is an argument.
\<close>

definition regNames :: "string list" where
  "regNames = [''zero'', ''at'', ''v0'', ''v1'', ''a0'', ''a1'', ''a2'', ''a3'',
     ''t0'', ''t1'', ''t2'', ''t3'', ''t4'', ''t5'', ''t6'', ''t7'',
     ''s0'', ''s1'', ''s2'', ''s3'', ''s4'', ''s5'', ''s6'', ''s7'',
     ''t8'', ''t9'', ''k0'', ''k1'', ''gp'', ''sp'', ''s8'', ''ra'']"

definition condNames :: "string list" where
  "condNames = [''f'', ''un'', ''eq'', ''ueq'', ''olt'', ''ult'', ''ole'', ''ule'',
     ''sf'', ''ngle'', ''seq'', ''ngl'', ''lt'', ''nge'', ''le'', ''ngt'']"

definition getCondName :: "u32 \<Rightarrow> string res" where
  "getCondName c = nth_res condNames (unat (c AND 15))"

definition getGPRName :: "u32 \<Rightarrow> string res" where
  "getGPRName r = nth_res regNames (unat (r AND 31))"

text \<open>
  The errors the table of messages has; \<open>CS_ERR_OTHER\<close> is any other value, for which the lookup
  throws and nothing catches it.
\<close>

datatype cs_err = CS_ERR_OK | CS_ERR_MEM | CS_ERR_ARCH | CS_ERR_HANDLE | CS_ERR_CSH | CS_ERR_MODE | CS_ERR_DETAIL
  | CS_ERR_MEMSETUP | CS_ERR_VERSION | CS_ERR_DIET | CS_ERR_SKIPDATA | CS_ERR_X86_ATT | CS_ERR_X86_INTEL | CS_ERR_OTHER

definition initCapstone :: "cs_err \<Rightarrow> unit res" where
  "initCapstone C = (if C \<noteq> CS_ERR_OK then if C = CS_ERR_OTHER then Inl Die else Inl Exit else Inr ())"

type_synonym disassembler = "u8 list \<Rightarrow> u32 \<Rightarrow> (string \<times> string) list"

definition getAsmString :: "disassembler \<Rightarrow> u32 \<Rightarrow> u32 \<Rightarrow> string res" where
  "getAsmString cs_disasm inst addr =
     (let insn = cs_disasm [byte 0 inst, byte 1 inst, byte 2 inst, byte 3 inst] addr
      in ensure AssertFail (length insn = 1) (Inr (fst (insn ! 0) @ '' '' @ snd (insn ! 0))))"

section \<open>Names\<close>

text \<open>The masks keep every index inside its table, and no two registers share a name.\<close>

lemma getGPRName_Inr: "getGPRName r = Inr (regNames ! unat (r AND 31))"
proof -
  have "unat (r AND 31) \<le> unat (31 :: u32)" using word_and_le1 [of r 31] by (simp only: word_le_nat_alt)
  then show ?thesis by (simp add: getGPRName_def nth_res_def regNames_def)
qed

lemma getCondName_Inr: "getCondName c = Inr (condNames ! unat (c AND 15))"
proof -
  have "unat (c AND 15) \<le> unat (15 :: u32)" using word_and_le1 [of c 15] by (simp only: word_le_nat_alt)
  then show ?thesis by (simp add: getCondName_def nth_res_def condNames_def)
qed

lemma regNames_distinct: "distinct regNames"
  by (simp add: regNames_def)

lemma condNames_distinct: "distinct condNames"
  by (simp add: condNames_def)

lemma getGPRName_inj: "getGPRName r = getGPRName q \<longleftrightarrow> r AND 31 = q AND 31"
proof -
  have b: "unat (x AND 31) < length regNames" for x :: u32
    using word_and_le1 [of x 31] by (simp add: word_le_nat_alt regNames_def)
  show ?thesis by (simp add: getGPRName_Inr nth_eq_iff_index_eq [OF regNames_distinct b b] word_unat_eq_iff)
qed

end
