(* ===== verification/Trace.thy ===== *)
theory Trace
  imports Machine Disassemble "HOL-Library.Multiset"
begin

text \<open>
  The log of retired instructions (\<^verbatim>\<open>sim_ooo/pipeline_record.hh\<close> and \<open>log_retire\<close> of
  \<^verbatim>\<open>sim_ooo/mips_op.cc\<close>) and the program that turns it into a log for the viewer of pipelines and a
  web page (\<^verbatim>\<open>sim_ooo/gen_html.cc\<close>).  The archive the records are written to and read from is a
  library: its two functions are the parameters \<open>save\<close> and \<open>load\<close>, over the members of the records
  in the order \<open>serialize\<close> names them.  Files are lists of lines, or text; messages on the terminal
  are left out.
\<close>

section \<open>Text\<close>

definition tab :: string where
  "tab = [CHR 0x09]"

definition nl :: string where
  "nl = [CHR 0x0A]"

definition digit :: "nat \<Rightarrow> char" where
  "digit d = ''0123456789abcdef'' ! d"

fun digits :: "nat \<Rightarrow> nat \<Rightarrow> string" where
  "digits b n = (if n < b \<or> b < 2 then [digit n] else digits b (n div b) @ [digit (n mod b)])"

declare digits.simps [simp del]

definition dec :: "u64 \<Rightarrow> string" where
  "dec x = digits 10 (unat x)"

definition hex :: "u64 \<Rightarrow> string" where
  "hex x = digits 16 (unat x)"

section \<open>Records\<close>

record pipeline_record =
  uuid :: u64
  disasm :: string
  rec_pc :: u64
  rec_fetch_cycle :: u64
  rec_alloc_cycle :: u64
  rec_complete_cycle :: u64
  rec_retire_cycle :: u64
  faulted :: bool

definition new_record :: "u64 \<Rightarrow> string \<Rightarrow> u64 \<Rightarrow> u64 \<Rightarrow> u64 \<Rightarrow> u64 \<Rightarrow> u64 \<Rightarrow> bool \<Rightarrow> pipeline_record" where
  "new_record i d ip f a c r x = \<lparr>uuid = i, disasm = d, rec_pc = ip, rec_fetch_cycle = f, rec_alloc_cycle = a,
     rec_complete_cycle = c, rec_retire_cycle = r, faulted = x\<rparr>"

definition empty_record :: pipeline_record where
  "empty_record = \<lparr>uuid = NOT 0, disasm = [], rec_pc = 0, rec_fetch_cycle = 0, rec_alloc_cycle = 0,
     rec_complete_cycle = 0, rec_retire_cycle = 0, faulted = False\<rparr>"

definition show_record :: "pipeline_record \<Rightarrow> string" where
  "show_record r = disasm r @ '','' @ hex (rec_pc r) @ '','' @ dec (rec_fetch_cycle r) @ '','' @ dec (rec_alloc_cycle r)
     @ '','' @ dec (rec_complete_cycle r) @ '','' @ dec (rec_retire_cycle r) @ '','' @ (if faulted r then ''1'' else ''0'')"

type_synonym archived = "u64 \<times> string \<times> u64 \<times> u64 \<times> u64 \<times> u64 \<times> u64 \<times> bool"

definition serialize :: "pipeline_record \<Rightarrow> archived" where
  "serialize r = (uuid r, disasm r, rec_pc r, rec_fetch_cycle r, rec_alloc_cycle r, rec_complete_cycle r,
     rec_retire_cycle r, faulted r)"

fun deserialize :: "archived \<Rightarrow> pipeline_record" where
  "deserialize (i, d, ip, f, a, c, r, x) = new_record i d ip f a c r x"

text \<open>
  The logger writes all its records when it is destroyed; the reader replaces its records with those
  of the archive, or throws.
\<close>

definition append_record :: "pipeline_record \<Rightarrow> pipeline_record list \<Rightarrow> pipeline_record list" where
  "append_record r records = records @ [r]"

definition close_logger :: "(archived list \<Rightarrow> 'file) \<Rightarrow> pipeline_record list \<Rightarrow> 'file" where
  "close_logger save records = save (map serialize records)"

definition read_log :: "('file \<Rightarrow> archived list option) \<Rightarrow> 'file \<Rightarrow> pipeline_record list option" where
  "read_log load f = map_option (map deserialize) (load f)"

text \<open>
  An operation is logged as it retires, when the count of instructions is in the window given on the
  command line.  Without a name for the log there is no logger, and the call follows a null pointer.
\<close>

definition log_retire ::
  "disassembler \<Rightarrow> u64 \<Rightarrow> u64 \<Rightarrow> mips_meta_op \<Rightarrow> sim_state \<Rightarrow> pipeline_record list option \<Rightarrow> pipeline_record list option res" where
  "log_retire cs pipestart pipeend u M sim_records =
     (if pipestart \<le> sicnt M \<and> sicnt M < pipeend
      then rbind (getAsmString cs (op_inst u) (op_pc u)) (\<lambda>d.
        case sim_records of None \<Rightarrow> Inl Undefined
        | Some rs \<Rightarrow> Inr (Some (append_record (new_record (alloc_id u) d (ucast (op_pc u)) (fetch_cycle u) (alloc_cycle u)
            (complete_cycle u) (retire_cycle u) False) rs)))
      else Inr sim_records)"

section \<open>The log for the viewer\<close>

datatype eventtype = FETCH | ALLOC | COMPLETE | RETIRE

type_synonym event_t = "eventtype \<times> pipeline_record"

text \<open>
  \<open>cycle_map\<close> is an ordered map from cycles to the events of the cycle, here a list in the order of
  the keys; the subscript makes an empty list for a new key.
\<close>

type_synonym cycle_map = "(u64 \<times> event_t list) list"

fun emplace_back :: "u64 \<Rightarrow> event_t \<Rightarrow> cycle_map \<Rightarrow> cycle_map" where
  "emplace_back c e [] = [(c, [e])]"
| "emplace_back c e ((c', es) # m) = (if c < c' then (c, [e]) # (c', es) # m
     else if c = c' then (c', es @ [e]) # m else (c', es) # emplace_back c e m)"

record kanata =
  first_cycle :: u64
  next_id :: u64
  remap_table :: "u64 \<Rightarrow> u64 option"
  cycles :: cycle_map

definition new_kanata :: kanata where
  "new_kanata = \<lparr>first_cycle = NOT 0, next_id = 0, remap_table = Map.empty, cycles = []\<rparr>"

definition add_record :: "pipeline_record \<Rightarrow> kanata \<Rightarrow> kanata" where
  "add_record r s = s\<lparr>first_cycle := min (first_cycle s) (rec_fetch_cycle r),
     remap_table := (remap_table s)(uuid r \<mapsto> next_id s), next_id := next_id s + 1,
     cycles := emplace_back (rec_retire_cycle r) (RETIRE, r) (emplace_back (rec_complete_cycle r) (COMPLETE, r)
       (emplace_back (rec_alloc_cycle r) (ALLOC, r) (emplace_back (rec_fetch_cycle r) (FETCH, r) (cycles s))))\<rparr>"

text \<open>
  Both passes over the records count them, skip those before \<open>start\<close> and stop after \<open>start + len\<close>,
  a sum that wraps.
\<close>

fun window_loop :: "(pipeline_record \<Rightarrow> 's \<Rightarrow> 's) \<Rightarrow> u64 \<Rightarrow> u64 \<Rightarrow> nat \<Rightarrow> pipeline_record list \<Rightarrow> 's \<Rightarrow> 's" where
  "window_loop f start len cnt [] s = s"
| "window_loop f start len cnt (r # rs) s =
     (if cnt + 1 < unat start then window_loop f start len (cnt + 1) rs s
      else if unat (start + len) < cnt + 1 then s
      else window_loop f start len (cnt + 1) rs (f r s))"

datatype kline = Kanata | First_cycle u64 | Cycles u64 | Insn u64 | Label u64 string | Stage u64 | Retired u64

fun show_kline :: "kline \<Rightarrow> string" where
  "show_kline Kanata = ''Kanata'' @ tab @ ''004'' @ nl"
| "show_kline (First_cycle c) = ''C='' @ tab @ dec c @ nl"
| "show_kline (Cycles d) = ''C'' @ tab @ dec d @ nl"
| "show_kline (Insn i) = ''I'' @ tab @ dec i @ tab @ dec i @ tab @ ''0'' @ nl"
| "show_kline (Label i d) = ''L'' @ tab @ dec i @ tab @ ''0'' @ tab @ d @ nl"
| "show_kline (Stage i) = ''S'' @ tab @ dec i @ ''0'' @ tab @ ''F'' @ nl"
| "show_kline (Retired i) = ''R'' @ tab @ dec i @ tab @ dec i @ tab @ ''0'' @ nl"

text \<open>A record that has no number stops the program: \<open>at\<close> throws and nothing catches it.\<close>

fun event_lines :: "(u64 \<Rightarrow> u64 option) \<Rightarrow> event_t \<Rightarrow> kline list res" where
  "event_lines remap (t, r) = (case remap (uuid r) of None \<Rightarrow> Inl Die | Some ii \<Rightarrow>
     Inr (case t of FETCH \<Rightarrow> [Insn ii, Label ii (disasm r), Stage ii] | ALLOC \<Rightarrow> [Retired ii]
       | COMPLETE \<Rightarrow> [Retired ii] | RETIRE \<Rightarrow> [Retired ii]))"

fun events_lines :: "(u64 \<Rightarrow> u64 option) \<Rightarrow> event_t list \<Rightarrow> kline list res" where
  "events_lines remap [] = Inr []"
| "events_lines remap (e # es) = rbind (event_lines remap e) (\<lambda>ls. rbind (events_lines remap es) (\<lambda>ms. Inr (ls @ ms)))"

fun cycle_lines :: "u64 \<Rightarrow> (u64 \<Rightarrow> u64 option) \<Rightarrow> u64 \<Rightarrow> cycle_map \<Rightarrow> kline list res" where
  "cycle_lines first remap prev [] = Inr []"
| "cycle_lines first remap prev ((c, es) # m) = rbind (events_lines remap es) (\<lambda>ls.
     rbind (cycle_lines first remap c m) (\<lambda>ms.
       Inr ((if prev = NOT 0 then First_cycle first else Cycles (c - prev)) # ls @ ms)))"

definition generate_kanata :: "pipeline_record list \<Rightarrow> u64 \<Rightarrow> u64 \<Rightarrow> kline list res" where
  "generate_kanata rs start len =
     (let s = window_loop add_record start len 0 rs new_kanata
      in rbind (cycle_lines (first_cycle s) (remap_table s) (NOT 0) (cycles s)) (\<lambda>ls. Inr (Kanata # ls)))"

section \<open>The page\<close>

fun has_text :: "string \<Rightarrow> string \<Rightarrow> bool" where
  "has_text t [] \<longleftrightarrow> t = []"
| "has_text t (c # cs) \<longleftrightarrow> take (length t) (c # cs) = t \<or> has_text t cs"

fun read_template :: "string list \<Rightarrow> bool \<Rightarrow> string list \<Rightarrow> string list \<Rightarrow> string list \<times> string list" where
  "read_template [] use_pre pre post = (pre, post)"
| "read_template (line # ls) use_pre pre post =
     (if has_text ''var tableData'' line then read_template ls False pre post
      else if use_pre then read_template ls use_pre (pre @ [line]) post
      else read_template ls use_pre pre (post @ [line]))"

definition op_text :: "pipeline_record \<Rightarrow> string" where
  "op_text r = ''{'' @ ''\"str\":\"'' @ hex (rec_pc r) @ '' '' @ disasm r @ ''\"'' @ '',uops:[{'' @ ''\"uuid\":''
     @ ''\"'' @ dec (uuid r) @ ''\",'' @ ''\"events\":{''
     @ ''\"'' @ dec (rec_fetch_cycle r) @ ''\":\"F\",''
     @ ''\"'' @ dec (rec_alloc_cycle r) @ ''\":\"A\",''
     @ ''\"'' @ dec (rec_complete_cycle r) @ ''\":\"C\",''
     @ ''\"'' @ dec (rec_retire_cycle r) @ ''\":\"R\"'' @ ''}}]'' @ ''}''"

fun ops_text :: "string list \<Rightarrow> string" where
  "ops_text [] = []"
| "ops_text [s] = s"
| "ops_text (s # t # ss) = s @ '','' @ ops_text (t # ss)"

definition page_text :: "string list \<Rightarrow> string list \<Rightarrow> string list \<Rightarrow> string" where
  "page_text pre ss post = concat (map (\<lambda>l. l @ nl) pre) @ ''var tableData = ['' @ ops_text ss @ '']'' @ nl
     @ concat (map (\<lambda>l. l @ nl) post)"

text \<open>The result of \<open>main\<close> is the text of \<^verbatim>\<open>kanata.log\<close> and of the page.\<close>

definition gen_html ::
  "('file \<Rightarrow> archived list option) \<Rightarrow> string list \<Rightarrow> 'file \<Rightarrow> u64 \<Rightarrow> u64 \<Rightarrow> (string \<times> string) res" where
  "gen_html load template f start len =
     (let (pre, post) = read_template template True [] []
      in case read_log load f of None \<Rightarrow> Inl Exit
      | Some rs \<Rightarrow> rbind (generate_kanata rs start len) (\<lambda>ls.
          Inr (concat (map show_kline ls), page_text pre (window_loop (\<lambda>r ss. ss @ [op_text r]) start len 0 rs []) post)))"

end
