(* ===== verification/Trace_Proofs.thy ===== *)
theory Trace_Proofs
  imports Trace
begin

text \<open>
  The log of retired instructions read back.  Numbers are printed in full; the two passes over the
  records look at the same window; the ordered map keeps every event under its own cycle; and the
  lines written for the viewer, replayed with its clock, are the events of the selected records in
  the order of time.
\<close>

section \<open>Digits\<close>

definition digit_value :: "char \<Rightarrow> nat" where
  "digit_value c = (let n = of_char c in if n < 58 then n - 48 else n - 87)"

lemma digit_value_digit: "d < 16 \<Longrightarrow> digit_value (digit d) = d"
proof -
  assume "d < 16"
  then have "d \<in> set [0..<16]" by simp
  moreover have "\<forall>d\<in>set [0..<16]. digit_value (digit d) = d" by code_simp
  ultimately show ?thesis by blast
qed

definition digits_value :: "nat \<Rightarrow> string \<Rightarrow> nat" where
  "digits_value b s = foldl (\<lambda>n c. n * b + digit_value c) 0 s"

lemma digits_value_digits: "2 \<le> b \<Longrightarrow> b \<le> 16 \<Longrightarrow> digits_value b (digits b n) = n"
proof (induction b n rule: digits.induct)
  case (1 b n)
  show ?case
  proof (cases "n < b")
    case True
    then show ?thesis using 1 by (simp add: digits.simps [of b n] digits_value_def digit_value_digit)
  next
    case False
    then have "digits_value b (digits b (n div b)) = n div b" using 1 by simp
    then show ?thesis using False 1
      by (simp add: digits.simps [of b n] digits_value_def digit_value_digit less_le_trans [OF mod_less_divisor])
  qed
qed

lemma digits_inj: "2 \<le> b \<Longrightarrow> b \<le> 16 \<Longrightarrow> digits b m = digits b n \<longleftrightarrow> m = n"
  using digits_value_digits [of b m] digits_value_digits [of b n] by metis

lemma dec_inj: "dec x = dec y \<longleftrightarrow> x = y"
  by (simp add: dec_def digits_inj word_unat_eq_iff)

lemma digits_times_base: "2 \<le> b \<Longrightarrow> 0 < n \<Longrightarrow> digits b (n * b) = digits b n @ digits b 0"
  by (simp add: digits.simps [of b "n * b"] digits.simps [of b 0])

lemma stage_line_names_other_id:
  "i \<noteq> 0 \<Longrightarrow> show_kline (Stage i) = ''S'' @ tab @ digits 10 (10 * unat i) @ tab @ ''F'' @ nl"
  using digits_times_base [of 10 "unat i"]
  by (simp add: dec_def digits.simps [of 10 0] digit_def mult.commute unat_gt_0)

section \<open>Windows\<close>

definition window :: "u64 \<Rightarrow> u64 \<Rightarrow> 'a list \<Rightarrow> 'a list" where
  "window start len rs = take (unat (start + len) - (unat start - 1)) (drop (unat start - 1) rs)"

lemma window_loop_from:
  "window_loop f start len n rs s =
     fold f (take (unat (start + len) - max n (unat start - 1)) (drop (unat start - 1 - n) rs)) s"
proof (induction rs arbitrary: n s)
  case (Cons r rs)
  consider (skip) "n + 1 < unat start" | (stop) "unat start \<le> n + 1" "unat (start + len) < n + 1"
    | (go) "unat start \<le> n + 1" "n + 1 \<le> unat (start + len)" by linarith
  then show ?case
  proof cases
    case skip
    then have "unat start - 1 - n = Suc (unat start - 1 - (n + 1))" "max n (unat start - 1) = max (n + 1) (unat start - 1)" by auto
    then show ?thesis using skip by (simp add: Cons.IH)
  next
    case stop
    then show ?thesis by (simp add: max_def)
  next
    case go
    then have "unat (start + len) - max n (unat start - 1) = Suc (unat (start + len) - max (n + 1) (unat start - 1))" by (auto simp: max_def)
    then show ?thesis using go by (simp add: Cons.IH)
  qed
qed simp

lemma window_loop_fold: "window_loop f start len 0 rs s = fold f (window start len rs) s"
  by (simp add: window_loop_from window_def)

lemma fold_snoc_map: "fold (\<lambda>r ss. ss @ [g r]) rs ss = ss @ map g rs"
  by (induction rs arbitrary: ss) auto

lemma length_window: 
  assumes "0 < start" "unat start + unat len < 2 ^ 64" "unat start + unat len \<le> length rs"
  shows "length (window start len rs) = unat len + 1"
proof -
  have "unat (start + len) = unat start + unat len" using assms(2) by (simp add: unat_word_ariths)
  then show ?thesis using assms by (simp add: window_def unat_gt_0 Suc_leI)
qed

section \<open>The map of cycles\<close>

definition flat :: "cycle_map \<Rightarrow> (u64 \<times> event_t) list" where
  "flat m = concat (map (\<lambda>(c, es). map (Pair c) es) m)"

abbreviation keys_sorted :: "cycle_map \<Rightarrow> bool" where
  "keys_sorted m \<equiv> sorted_wrt (<) (map fst m)"

lemma flat_simps [simp]: "flat [] = []" "flat ((c, es) # m) = map (Pair c) es @ flat m"
  by (simp_all add: flat_def)

lemma emplace_keys: "fst ` set (emplace_back c e m) = insert c (fst ` set m)"
  by (induction c e m rule: emplace_back.induct) auto

lemma emplace_sorted: "keys_sorted m \<Longrightarrow> keys_sorted (emplace_back c e m)"
proof (induction c e m rule: emplace_back.induct)
  case (2 c e c' es m)
  then show ?case using emplace_keys [of c e m] by (auto simp: not_less)
qed simp

lemma emplace_flat: "mset (flat (emplace_back c e m)) = add_mset (c, e) (mset (flat m))"
  by (induction c e m rule: emplace_back.induct) auto

lemma flat_keys: "x \<in> set (flat m) \<Longrightarrow> fst x \<in> fst ` set m"
  by (force simp: flat_def)

section \<open>The scan of the records\<close>

definition record_events :: "pipeline_record \<Rightarrow> (u64 \<times> event_t) list" where
  "record_events r = [(rec_fetch_cycle r, FETCH, r), (rec_alloc_cycle r, ALLOC, r), (rec_complete_cycle r, COMPLETE, r),
     (rec_retire_cycle r, RETIRE, r)]"

definition timely :: "pipeline_record \<Rightarrow> bool" where
  "timely r \<longleftrightarrow> rec_fetch_cycle r \<le> rec_alloc_cycle r \<and> rec_fetch_cycle r \<le> rec_complete_cycle r
     \<and> rec_fetch_cycle r \<le> rec_retire_cycle r"

abbreviation scan :: "pipeline_record list \<Rightarrow> kanata" where
  "scan rs \<equiv> fold add_record rs new_kanata"

lemma add_record_simps [simp]:
  "next_id (add_record r s) = next_id s + 1"
  "first_cycle (add_record r s) = min (first_cycle s) (rec_fetch_cycle r)"
  "remap_table (add_record r s) = (remap_table s)(uuid r \<mapsto> next_id s)"
  by (simp_all add: add_record_def)

lemma new_kanata_simps [simp]:
  "next_id new_kanata = 0" "first_cycle new_kanata = NOT 0" "remap_table new_kanata = Map.empty" "cycles new_kanata = []"
  by (simp_all add: new_kanata_def)

lemma add_record_cycles:
  "keys_sorted (cycles s) \<Longrightarrow> keys_sorted (cycles (add_record r s))"
  "mset (flat (cycles (add_record r s))) = mset (flat (cycles s)) + mset (record_events r)"
  "fst ` set (cycles (add_record r s)) = fst ` set (cycles s) \<union> fst ` set (record_events r)"
  by (auto simp: add_record_def record_events_def emplace_sorted emplace_flat emplace_keys)

lemma scan_sorted: "keys_sorted (cycles (scan rs))"
  by (induction rs rule: rev_induct) (simp_all add: add_record_cycles)

lemma scan_flat: "mset (flat (cycles (scan rs))) = mset (concat (map record_events rs))"
  by (induction rs rule: rev_induct) (simp_all add: add_record_cycles)

lemma scan_keys: "fst ` set (cycles (scan rs)) = fst ` set (concat (map record_events rs))"
  by (induction rs rule: rev_induct) (auto simp: add_record_cycles)

lemma scan_next: "next_id (scan rs) = of_nat (length rs)"
  by (induction rs rule: rev_induct) simp_all

lemma scan_remap: "distinct (map uuid rs) \<Longrightarrow> i < length rs \<Longrightarrow> remap_table (scan rs) (uuid (rs ! i)) = Some (of_nat i)"
proof (induction rs rule: rev_induct)
  case (snoc r rs)
  have "uuid (rs ! i) \<noteq> uuid r" if "i < length rs"
    using snoc.prems(1) that by (metis distinct_append distinct.simps(2) disjoint_insert(2) image_eqI list.set(2) list.set_map list.simps(9) map_append nth_mem)
  then show ?case using snoc by (auto simp: scan_next nth_append less_Suc_eq)
qed simp

lemma scan_known: "r \<in> set rs \<Longrightarrow> remap_table (scan rs) (uuid r) \<noteq> None"
  by (induction rs rule: rev_induct) auto

lemma scan_first: "\<forall>r\<in>set rs. first_cycle (scan rs) \<le> rec_fetch_cycle r"
  by (induction rs rule: rev_induct) (auto simp: min_def)

lemma scan_first_in: "rs \<noteq> [] \<Longrightarrow> first_cycle (scan rs) \<in> rec_fetch_cycle ` set rs"
proof (induction rs rule: rev_induct)
  case (snoc r rs)
  then show ?case by (cases "rs = []") (auto simp: min_def word_order.extremum_unique)
qed simp

lemma scan_first_key:
  assumes "\<forall>r\<in>set rs. timely r" "cycles (scan rs) = (c, es) # m"
  shows "first_cycle (scan rs) = c"
proof -
  have k: "insert c (fst ` set m) = fst ` set (concat (map record_events rs))" using scan_keys [of rs] assms(2) by simp
  then have ne: "rs \<noteq> []" by auto
  have "first_cycle (scan rs) \<in> insert c (fst ` set m)" using scan_first_in [OF ne] unfolding k by (force simp: record_events_def)
  moreover have "first_cycle (scan rs) \<le> fst x" if "r \<in> set rs" "x \<in> set (record_events r)" for r x
    using scan_first [of rs] assms(1) that by (fastforce simp: record_events_def timely_def)
  moreover obtain r x where "r \<in> set rs" "x \<in> set (record_events r)" "c = fst x"
    using equalityD1 [OF k] by (auto simp del: insert_subset dest!: subsetD [OF _ insertI1])
  ultimately have "first_cycle (scan rs) \<in> insert c (fst ` set m)" "first_cycle (scan rs) \<le> c" by simp_all
  moreover have "\<forall>d\<in>fst ` set m. c < d" using scan_sorted [of rs] assms(2) by auto
  ultimately show ?thesis by auto
qed

section \<open>Reading the log back\<close>

definition text_of :: "(u64 \<Rightarrow> u64 option) \<Rightarrow> event_t \<Rightarrow> kline list" where
  "text_of remap e = projr (event_lines remap e)"

text \<open>A viewer keeps a clock: \<^verbatim>\<open>C=\<close> sets it, \<^verbatim>\<open>C\<close> advances it, and every other line happens at its time.\<close>

fun replay :: "u64 \<Rightarrow> kline list \<Rightarrow> (u64 \<times> kline) list" where
  "replay t [] = []"
| "replay t (l # ls) = (case l of Kanata \<Rightarrow> replay t ls | First_cycle c \<Rightarrow> replay c ls | Cycles d \<Rightarrow> replay (t + d) ls
     | _ \<Rightarrow> (t, l) # replay t ls)"

definition known :: "(u64 \<Rightarrow> u64 option) \<Rightarrow> event_t \<Rightarrow> bool" where
  "known remap e \<longleftrightarrow> remap (uuid (snd e)) \<noteq> None"

lemma events_lines_Inr: "\<forall>e\<in>set es. known remap e \<Longrightarrow> events_lines remap es = Inr (concat (map (text_of remap) es))"
  by (induction es) (auto simp: known_def text_of_def split: option.splits)

lemma replay_text:
  assumes "known remap e"
  shows "replay t (text_of remap e @ ls) = map (Pair t) (text_of remap e) @ replay t ls"
  using assms by (cases e; cases "fst e") (auto simp: known_def text_of_def)

lemma replay_texts: "\<forall>e\<in>set es. known remap e \<Longrightarrow>
    replay t (concat (map (text_of remap) es) @ ls) = concat (map (\<lambda>e. map (Pair t) (text_of remap e)) es) @ replay t ls"
  by (induction es) (simp_all add: replay_text)

definition timed :: "(u64 \<Rightarrow> u64 option) \<Rightarrow> u64 \<times> event_t \<Rightarrow> (u64 \<times> kline) list" where
  "timed remap x = map (Pair (fst x)) (text_of remap (snd x))"

lemma timed_pair [simp]: "timed remap (c, e) = map (Pair c) (text_of remap e)"
  by (simp add: timed_def)

lemma known_flat: "(\<forall>x\<in>set (flat ((c, es) # m)). known remap (snd x)) \<longleftrightarrow>
    (\<forall>e\<in>set es. known remap e) \<and> (\<forall>x\<in>set (flat m). known remap (snd x))"
  by (simp add: ball_Un)

lemma cycle_lines_tail:
  assumes "keys_sorted m" "\<forall>c\<in>fst ` set m. t < c" "\<forall>x\<in>set (flat m). known remap (snd x)"
  shows "\<exists>ls. cycle_lines first remap t m = Inr ls \<and> replay t ls = concat (map (timed remap) (flat m))"
  using assms
proof (induction m arbitrary: t)
  case (Cons x m)
  obtain c es where x: "x = (c, es)" by force
  have k: "\<forall>e\<in>set es. known remap e" and km: "\<forall>x\<in>set (flat m). known remap (snd x)" using Cons.prems(3) x known_flat by blast+
  obtain ls where ls: "cycle_lines first remap c m = Inr ls" "replay c ls = concat (map (timed remap) (flat m))"
    using Cons.IH [of c] Cons.prems km x by auto
  have "t \<noteq> NOT 0" using Cons.prems(2) x by auto
  then show ?case using ls replay_texts [OF k, of c ls] k x
    by (simp add: events_lines_Inr comp_def)
qed simp

lemma cycle_lines_replay:
  assumes "keys_sorted m" "\<forall>x\<in>set (flat m). known remap (snd x)" "\<And>c es m'. m = (c, es) # m' \<Longrightarrow> first = c"
  shows "\<exists>ls. cycle_lines first remap (NOT 0) m = Inr ls \<and> replay 0 ls = concat (map (timed remap) (flat m))"
proof (cases m)
  case (Cons x m')
  obtain c es where x: "x = (c, es)" by force
  have k: "\<forall>e\<in>set es. known remap e" and km: "\<forall>x\<in>set (flat m'). known remap (snd x)" using assms(2) x Cons known_flat by blast+
  obtain ls where ls: "cycle_lines first remap c m' = Inr ls" "replay c ls = concat (map (timed remap) (flat m'))"
    using cycle_lines_tail [of m' c remap first] assms(1) km x Cons by auto
  show ?thesis using ls replay_texts [OF k, of c ls] k x Cons assms(3) [of c es m']
    by (simp add: events_lines_Inr comp_def)
qed simp

lemma replay_sorted: "keys_sorted m \<Longrightarrow> sorted (map fst (concat (map (timed remap) (flat m))))"
proof (induction m)
  case (Cons x m)
  obtain c es where x: "x = (c, es)" by force
  have head: "map fst (concat (map (timed remap) (map (Pair c) es))) = replicate (length (concat (map (text_of remap) es))) c"
    by (induction es) (simp_all add: timed_def comp_def map_replicate_const replicate_add)
  have "c \<le> fst y" if "y \<in> set (concat (map (timed remap) (flat m)))" for y
    using that Cons.prems flat_keys [of _ m] x by (force simp: timed_def)
  then show ?case using Cons head x by (auto simp: sorted_append simp del: map_map map_concat)
qed simp

lemma mset_concat_map: "mset xs = mset ys \<Longrightarrow> mset (concat (map g xs)) = mset (concat (map g ys))"
proof -
  have "mset (concat (map g zs)) = sum_mset (image_mset (\<lambda>x. mset (g x)) (mset zs))" for zs by (induction zs) simp_all
  then show "mset xs = mset ys \<Longrightarrow> mset (concat (map g xs)) = mset (concat (map g ys))" by simp
qed

lemma concat_map_concat: "concat (map g (concat (map h xs))) = concat (map (\<lambda>x. concat (map g (h x))) xs)"
  by (induction xs) simp_all

definition shown :: "u64 \<Rightarrow> pipeline_record \<Rightarrow> (u64 \<times> kline) list" where
  "shown i r = [(rec_fetch_cycle r, Insn i), (rec_fetch_cycle r, Label i (disasm r)), (rec_fetch_cycle r, Stage i),
     (rec_alloc_cycle r, Retired i), (rec_complete_cycle r, Retired i), (rec_retire_cycle r, Retired i)]"

lemma timed_events: "remap (uuid r) = Some i \<Longrightarrow> concat (map (timed remap) (record_events r)) = shown i r"
  by (simp add: record_events_def timed_def text_of_def shown_def)

lemma scan_shown:
  assumes "distinct (map uuid rs)"
  shows "concat (map (timed (remap_table (scan rs))) (concat (map record_events rs)))
    = concat (map (\<lambda>(i, r). shown (of_nat i) r) (List.enumerate 0 rs))"
proof -
  have "concat (map (timed (remap_table (scan rs))) (record_events (rs ! i))) = shown (of_nat i) (rs ! i)" if "i < length rs" for i
    by (rule timed_events, rule scan_remap [OF assms that])
  note shown_at = this
  have "map (\<lambda>r. concat (map (timed (remap_table (scan rs))) (record_events r))) rs
    = map (\<lambda>(i, r). shown (of_nat i) r) (List.enumerate 0 rs)"
    by (rule nth_equalityI) (simp_all add: nth_enumerate_eq shown_at)
  then show ?thesis by (simp only: concat_map_concat)
qed

lemma scan_flat_known: "\<forall>x\<in>set (flat (cycles (scan rs))). known (remap_table (scan rs)) (snd x)"
proof -
  have "set (flat (cycles (scan rs))) = set (concat (map record_events rs))" using mset_eq_setD [OF scan_flat [of rs]] .
  then show ?thesis by (auto simp: known_def record_events_def dest: scan_known)
qed

lemma kanata_log_replays:
  assumes "\<forall>r\<in>set (window start len rs). timely r" "distinct (map uuid (window start len rs))"
  shows "\<exists>ls. generate_kanata rs start len = Inr ls \<and> sorted (map fst (replay 0 ls))
    \<and> mset (replay 0 ls) = mset (concat (map (\<lambda>(i, r). shown (of_nat i) r) (List.enumerate 0 (window start len rs))))"
proof -
  let ?s = "scan (window start len rs)"
  obtain ls where ls: "cycle_lines (first_cycle ?s) (remap_table ?s) (NOT 0) (cycles ?s) = Inr ls"
      "replay 0 ls = concat (map (timed (remap_table ?s)) (flat (cycles ?s)))"
    using cycle_lines_replay [of "cycles ?s" "remap_table ?s" "first_cycle ?s"] scan_sorted scan_flat_known scan_first_key [OF assms(1)] by blast
  have "mset (replay 0 ls) = mset (concat (map (\<lambda>(i, r). shown (of_nat i) r) (List.enumerate 0 (window start len rs))))"
    unfolding ls(2) scan_shown [OF assms(2), symmetric] by (rule mset_concat_map [OF scan_flat])
  then show ?thesis using ls replay_sorted [OF scan_sorted] by (simp add: generate_kanata_def window_loop_fold)
qed

section \<open>Reading the text\<close>

text \<open>
  What is read is the text itself: its lines, cut at the ends of lines, and the fields of a line, cut at the tabs.  The
  reader keeps a clock, and a line other than the header and those of the clock happens at its time.
\<close>

fun split_at :: "char \<Rightarrow> string \<Rightarrow> string list" where
  "split_at c [] = [[]]"
| "split_at c (x # xs) = (if x = c then [] # split_at c xs else (case split_at c xs of [] \<Rightarrow> [[x]] | l # ls \<Rightarrow> (x # l) # ls))"

definition number :: "string \<Rightarrow> u64" where
  "number s = of_nat (digits_value 10 s)"

fun view :: "u64 \<Rightarrow> string list list \<Rightarrow> (u64 \<times> string list) list" where
  "view t [] = []"
| "view t (fs # ls) = (if hd fs = ''Kanata'' then view t ls else if hd fs = ''C='' then view (number (fs ! 1)) ls
     else if hd fs = ''C'' then view (t + number (fs ! 1)) ls else (t, fs) # view t ls)"

definition read_text :: "string \<Rightarrow> (u64 \<times> string list) list" where
  "read_text s = view 0 (map (split_at (CHR 0x09)) (butlast (split_at (CHR 0x0A) s)))"

lemma split_none: "c \<notin> set xs \<Longrightarrow> split_at c xs = [xs]"
  by (induction xs) auto

lemma split_append: "c \<notin> set xs \<Longrightarrow> split_at c (xs @ c # ys) = xs # split_at c ys"
  by (induction xs) auto

lemma split_ne: "split_at c xs \<noteq> []"
  by (induction xs) (auto split: list.splits)

lemma split_lines: "\<forall>l\<in>set ls. c \<notin> set l \<Longrightarrow> butlast (split_at c (concat (map (\<lambda>l. l @ [c]) ls))) = ls"
  by (induction ls) (simp_all add: split_append split_ne)

lemma digits_plain: "c \<in> set (digits 10 n) \<Longrightarrow> c \<noteq> CHR 0x09 \<and> c \<noteq> CHR 0x0A"
proof (induction "10 :: nat" n rule: digits.induct)
  case (1 n)
  have d: "digit k \<noteq> CHR 0x09 \<and> digit k \<noteq> CHR 0x0A" if "k < 10" for k
  proof -
    have "k \<in> set [0..<10]" using that by simp
    moreover have "\<forall>k\<in>set [0..<10]. digit k \<noteq> CHR 0x09 \<and> digit k \<noteq> CHR 0x0A" by code_simp
    ultimately show ?thesis by blast
  qed
  show ?case
  proof (cases "n < 10")
    case True
    then show ?thesis using 1 d by (auto simp: digits.simps [of 10 n])
  next
    case False
    then show ?thesis using 1 d [of "n mod 10"] by (auto simp: digits.simps [of 10 n])
  qed
qed

lemma dec_plain: "CHR 0x09 \<notin> set (dec x)" "CHR 0x0A \<notin> set (dec x)"
  using digits_plain by (auto simp: dec_def)

lemma number_dec [simp]: "number (dec x) = x"
  by (simp add: number_def dec_def digits_value_digits)

text \<open>The fields of each line; a stage line has ten times the number.\<close>

fun line_fields :: "kline \<Rightarrow> string list" where
  "line_fields Kanata = [''Kanata'', ''004'']" | "line_fields (First_cycle c) = [''C='', dec c]" | "line_fields (Cycles d) = [''C'', dec d]"
| "line_fields (Insn i) = [''I'', dec i, dec i, ''0'']" | "line_fields (Label i d) = ''L'' # dec i # ''0'' # split_at (CHR 0x09) d"
| "line_fields (Stage i) = [''S'', dec i @ ''0'', ''F'']" | "line_fields (Retired i) = [''R'', dec i, dec i, ''0'']"

fun one_line :: "kline \<Rightarrow> bool" where
  "one_line (Label i d) \<longleftrightarrow> CHR 0x0A \<notin> set d" | "one_line _ \<longleftrightarrow> True"

lemma split_field: "CHR 0x09 \<notin> set xs \<Longrightarrow> split_at (CHR 0x09) (xs @ tab @ ys) = xs # split_at (CHR 0x09) ys"
  using split_append [of "CHR 0x09" xs ys] by (simp add: tab_def)

lemma shown_line:
  assumes "one_line l"
  obtains s where "show_kline l = s @ [CHR 0x0A]" "CHR 0x0A \<notin> set s" "split_at (CHR 0x09) s = line_fields l"
proof (rule that [of "butlast (show_kline l)"])
  show "show_kline l = butlast (show_kline l) @ [CHR 0x0A]" by (cases l) (simp_all add: nl_def butlast_append)
  show "CHR 0x0A \<notin> set (butlast (show_kline l))"
    using assms by (cases l) (auto simp: nl_def tab_def butlast_append dec_plain)
  have z: "CHR 0x09 \<notin> set (dec x @ ''0'')" for x using dec_plain by simp
  show "split_at (CHR 0x09) (butlast (show_kline l)) = line_fields l"
    using split_field [of "''I''"] split_field [of "''L''"] split_field [of "''R''"] split_field [of "''S''"] split_field [of "''C''"]
      split_field [of "''C=''"] split_field [of "''Kanata''"] split_field [OF dec_plain(1)] split_field [of "''0''"] split_field [OF z]
      split_none [OF dec_plain(1)]
    by (cases l) (simp_all add: nl_def butlast_append)
qed

lemma text_lines:
  assumes "\<forall>l\<in>set ls. one_line l"
  shows "map (split_at (CHR 0x09)) (butlast (split_at (CHR 0x0A) (concat (map show_kline ls)))) = map line_fields ls"
proof -
  define body where "body l = (SOME s. show_kline l = s @ [CHR 0x0A] \<and> CHR 0x0A \<notin> set s \<and> split_at (CHR 0x09) s = line_fields l)" for l
  have b: "show_kline l = body l @ [CHR 0x0A] \<and> CHR 0x0A \<notin> set (body l) \<and> split_at (CHR 0x09) (body l) = line_fields l" if "l \<in> set ls" for l
    unfolding body_def by (rule someI_ex) (use shown_line [of l] assms that in blast)
  then have "concat (map show_kline ls) = concat (map (\<lambda>l. l @ [CHR 0x0A]) (map body ls))" by (simp add: comp_def cong: map_cong)
  then show ?thesis using split_lines [of "map body ls" "CHR 0x0A"] b by (simp add: comp_def)
qed

lemma view_replay: "view t (map line_fields ls) = map (apsnd line_fields) (replay t ls)"
proof (induction ls arbitrary: t)
  case (Cons l ls)
  then show ?case by (cases l) simp_all
qed simp

lemma read_shown:
  assumes "\<forall>l\<in>set ls. one_line l"
  shows "read_text (concat (map show_kline ls)) = map (apsnd line_fields) (replay 0 ls)"
  by (simp add: read_text_def text_lines [OF assms] view_replay)

lemma kanata_one_line:
  assumes "generate_kanata rs start len = Inr ls"
    and "mset (replay 0 ls) = mset (concat (map (\<lambda>(i, r). shown (of_nat i) r) (List.enumerate 0 (window start len rs))))"
    and "\<forall>r\<in>set (window start len rs). CHR 0x0A \<notin> set (disasm r)"
  shows "\<forall>l\<in>set ls. one_line l"
proof
  have r: "l \<in> snd ` set (replay t ms) \<or> one_line l" if "l \<in> set ms" for l t and ms :: "kline list"
    using that
  proof (induction ms arbitrary: t)
    case (Cons a ms)
    show ?case
    proof (cases "l = a")
      case True
      then show ?thesis by (cases a) simp_all
    next
      case False
      then have "l \<in> snd ` set (replay t' ms) \<or> one_line l" for t' using Cons by simp
      then show ?thesis by (cases a) auto
    qed
  qed simp
  fix l assume "l \<in> set ls"
  from r [OF this, of 0] show "one_line l"
  proof
    assume "l \<in> snd ` set (replay 0 ls)"
    then obtain i rc where "(i, rc) \<in> set (List.enumerate 0 (window start len rs))" "l \<in> snd ` set (shown (of_nat i) rc)"
      using mset_eq_setD [OF assms(2)] by auto
    then show ?thesis using assms(3) in_set_enumerate_eq [of "(i, rc)" 0 "window start len rs"] by (auto simp: shown_def)
  qed
qed

text \<open>What the text says of a record, each with its cycle: its number, its label, a stage of ten times the number, and three ends.\<close>

definition written :: "u64 \<Rightarrow> pipeline_record \<Rightarrow> (u64 \<times> string list) list" where
  "written i r = [(rec_fetch_cycle r, [''I'', dec i, dec i, ''0'']),
     (rec_fetch_cycle r, ''L'' # dec i # ''0'' # split_at (CHR 0x09) (disasm r)), (rec_fetch_cycle r, [''S'', dec i @ ''0'', ''F'']),
     (rec_alloc_cycle r, [''R'', dec i, dec i, ''0'']), (rec_complete_cycle r, [''R'', dec i, dec i, ''0'']),
     (rec_retire_cycle r, [''R'', dec i, dec i, ''0''])]"

lemma written_shown: "map (apsnd line_fields) (shown i r) = written i r"
  by (simp add: shown_def written_def)

section \<open>The page and the log\<close>

abbreviation is_marker :: "string \<Rightarrow> bool" where
  "is_marker \<equiv> has_text ''var tableData''"

lemma read_template_split:
  "read_template ls False pre post = (pre, post @ filter (\<lambda>l. \<not> is_marker l) ls)"
  "read_template ls True pre [] = (pre @ takeWhile (\<lambda>l. \<not> is_marker l) ls,
     filter (\<lambda>l. \<not> is_marker l) (dropWhile (\<lambda>l. \<not> is_marker l) ls))"
  by (induction ls arbitrary: pre post) simp_all

lemma deserialize_serialize [simp]: "deserialize (serialize r) = r"
  by (simp add: serialize_def new_record_def)

lemma read_close: "load (save (map serialize rs)) = Some (map serialize rs) \<Longrightarrow> read_log load (close_logger save rs) = Some rs"
  by (simp add: read_log_def close_logger_def comp_def)

text \<open>What is logged when an operation retires is the record of its descriptor; outside the window nothing is.\<close>

lemma log_retire_appends:
  assumes "pipestart \<le> sicnt M" "sicnt M < pipeend" "cs [byte 0 (op_inst u), byte 1 (op_inst u), byte 2 (op_inst u), byte 3 (op_inst u)] (op_pc u) = [(m, args)]"
  shows "log_retire cs pipestart pipeend u M (Some rs) = Inr (Some (rs @ [new_record (alloc_id u) (m @ '' '' @ args) (ucast (op_pc u))
      (fetch_cycle u) (alloc_cycle u) (complete_cycle u) (retire_cycle u) False]))"
    and "log_retire cs pipestart pipeend u M None = Inl Undefined"
  using assms by (simp_all add: log_retire_def getAsmString_def append_record_def)

lemma log_retire_outside: "\<not> (pipestart \<le> sicnt M \<and> sicnt M < pipeend) \<Longrightarrow> log_retire cs pipestart pipeend u M rs = Inr rs"
  by (auto simp: log_retire_def)

text \<open>
  C21. When the archive gives back what the logger wrote, no selected record was allocated, completed or
  retired before it was fetched, their numbers differ and their disassembly has no end of line, the two files are written.
  The page lists the selected records in order.  The text of the log, read line by line and field by field with the clock
  its lines set, has in the order of time exactly what is written for the selected records, each at its own cycle: in the
  cycle of the fetch the number, the label and a stage (whose line, for want of a tab, has ten times the number), and in
  the cycles of allocation, completion and retirement the same line each.  The events behind the lines are tagged as the
  records say: the fetch, allocation, completion and retirement of each at the cycle of that name.
\<close>
theorem logged_run_replays:
  assumes "load (save (map serialize rs)) = Some (map serialize rs)"
    and "\<forall>r\<in>set (window start len rs). timely r \<and> CHR 0x0A \<notin> set (disasm r)" "distinct (map uuid (window start len rs))"
  shows "\<exists>log. gen_html load template (close_logger save rs) start len =
      Inr (log, page_text (takeWhile (\<lambda>l. \<not> is_marker l) template)
        (map op_text (window start len rs)) (filter (\<lambda>l. \<not> is_marker l) (dropWhile (\<lambda>l. \<not> is_marker l) template)))
    \<and> sorted (map fst (read_text log))
    \<and> mset (read_text log) = mset (concat (map (\<lambda>(i, r). written (of_nat i) r) (List.enumerate 0 (window start len rs))))
    \<and> mset (flat (cycles (window_loop add_record start len 0 rs new_kanata))) =
        mset (concat (map (\<lambda>r. [(rec_fetch_cycle r, FETCH, r), (rec_alloc_cycle r, ALLOC, r), (rec_complete_cycle r, COMPLETE, r),
          (rec_retire_cycle r, RETIRE, r)]) (window start len rs)))"
proof -
  have t: "\<forall>r\<in>set (window start len rs). timely r" using assms(2) by blast
  obtain ls where ls: "generate_kanata rs start len = Inr ls" "sorted (map fst (replay 0 ls))"
    "mset (replay 0 ls) = mset (concat (map (\<lambda>(i, r). shown (of_nat i) r) (List.enumerate 0 (window start len rs))))"
    using kanata_log_replays [OF t assms(3)] by blast
  have one: "\<forall>l\<in>set ls. one_line l" by (rule kanata_one_line [OF ls(1,3)]) (use assms(2) in blast)
  have "mset (read_text (concat (map show_kline ls))) = image_mset (apsnd line_fields) (mset (replay 0 ls))"
    by (simp add: read_shown [OF one])
  also have "\<dots> = mset (concat (map (\<lambda>(i, r). written (of_nat i) r) (List.enumerate 0 (window start len rs))))"
    unfolding ls(3) by (simp add: map_concat comp_def split_def written_shown flip: mset_map)
  finally have "mset (read_text (concat (map show_kline ls))) = \<dots>" .
  moreover have "sorted (map fst (read_text (concat (map show_kline ls))))" using ls(2) by (simp add: read_shown [OF one] comp_def)
  moreover have "gen_html load template (close_logger save rs) start len = Inr (concat (map show_kline ls), page_text (takeWhile (\<lambda>l. \<not> is_marker l) template)
      (map op_text (window start len rs)) (filter (\<lambda>l. \<not> is_marker l) (dropWhile (\<lambda>l. \<not> is_marker l) template)))"
    using ls(1) by (simp add: gen_html_def read_close [where load = load and save = save, OF assms(1)] window_loop_fold fold_snoc_map read_template_split(2))
  ultimately show ?thesis
    using scan_flat [of "window start len rs"] by (simp add: window_loop_fold record_events_def [abs_def])
qed

theorem logged_run_replays_witness:
  "let rs = [new_record 7 ''addu'' 0 5 6 8 9 False, new_record 8 ''lw'' 4 5 6 12 13 False, new_record 9 ''sw'' 8 6 7 9 14 False]
   in \<exists>log. gen_html Some [''<html>'', ''var tableData = []'', ''</html>''] (close_logger id rs) 2 1 =
        Inr (log, page_text [''<html>''] [op_text (rs ! 1), op_text (rs ! 2)] [''</html>''])
      \<and> sorted (map fst (read_text log)) \<and> mset (read_text log) = mset (written 0 (rs ! 1) @ written 1 (rs ! 2))"
proof -
  define rs where "rs = [new_record 7 ''addu'' 0 5 6 8 9 False, new_record 8 ''lw'' 4 5 6 12 13 False, new_record 9 ''sw'' 8 6 7 9 14 False]"
  have w: "window 2 1 rs = [rs ! 1, rs ! 2]" by (simp add: window_def rs_def)
  have a: "Some (id (map serialize rs)) = Some (map serialize rs)" by simp
  have "\<forall>r\<in>set (window 2 1 rs). timely r \<and> CHR 0x0A \<notin> set (disasm r)" "distinct (map uuid (window 2 1 rs))"
    unfolding w by (simp_all add: rs_def new_record_def timely_def)
  from logged_run_replays [where load = Some and save = id, OF a this, of "[''<html>'', ''var tableData = []'', ''</html>'']"]
  show ?thesis unfolding w rs_def [symmetric] Let_def by (simp add: enumerate_eq_zip) blast
qed

end
