(* ===== verification/Sched_Proofs.thy ===== *)
theory Sched_Proofs
  imports Core_Exec Core_Init_Proofs Cache_Proofs
begin

text \<open>
  The out-of-order scheduler of \<^verbatim>\<open>sim_ooo/ooo_core.cc\<close> on the contents of its station: both passes of
  \<open>ooo_sched\<close> over the linked list do what a pass over the list of its elements in age order does.
\<close>

section \<open>The passes on a list\<close>

fun mark_all :: "nat option list \<Rightarrow> sim_state \<Rightarrow> sim_state res" where
  "mark_all [] M = Inr M"
| "mark_all (v # vs) M = rbind (note_ready v M) (mark_all vs)"

text \<open>An element is taken when its operation may be dispatched and its read ports are left; it is then dispatched.\<close>

definition try_dispatch :: "sim_param \<Rightarrow> nat option \<Rightarrow> int \<times> int \<times> sim_state \<Rightarrow> (int \<times> int \<times> sim_state) res option res" where
  "try_dispatch S v = (\<lambda>(ns, ports, M). rbind (the_op v M) (\<lambda>(a, u). rbind (may_dispatch S a M) (\<lambda>go. if \<not> go then Inr None
     else rbind (the_class u) (\<lambda>op. rbind (get_latency S op) (\<lambda>lat. Inr (if ports - count_rd_ports op < 0 then None
       else Some (rbind (dispatch S a M) (\<lambda>M1. Inr (ns + 1, ports - count_rd_ports op, M1)))))))))"

definition sched_stop :: "int \<Rightarrow> int \<times> int \<times> sim_state \<Rightarrow> bool" where
  "sched_stop num = (\<lambda>(ns, ports, M). \<not> (ns \<le> num \<and> 0 \<le> ports))"

fun dispatch_all :: "sim_param \<Rightarrow> nat option list \<Rightarrow> sim_state \<Rightarrow> sim_state res" where
  "dispatch_all S [] M = Inr M"
| "dispatch_all S (v # vs) M = rbind (the_op v M) (\<lambda>(a, u). rbind (dispatch S a M) (dispatch_all S vs))"

lemma dispatch_all_append: "dispatch_all S (xs @ ys) M = rbind (dispatch_all S xs M) (dispatch_all S ys)"
proof (induction xs arbitrary: M)
  case (Cons v xs)
  then have "dispatch_all S (xs @ ys) = (\<lambda>M. rbind (dispatch_all S xs M) (dispatch_all S ys))" by (rule ext)
  then show ?case by (simp add: rbind_assoc split_def)
qed simp

section \<open>The loops are scans of the station\<close>

lemma mark_ready_from:
  assumes "wf_sl l" "handles_sl l = ps @ qs" "length qs \<le> n"
  shows "mark_ready n (first_of qs None) l M = mark_all (map (val_sl l) qs) M"
  using assms
proof (induction qs arbitrary: ps n M)
  case (Cons p qs)
  then obtain n' where n: "n = Suc n'" "length qs \<le> n'" by (cases n) auto
  have "mark_ready n' (first_of qs None) l M1 = mark_all (map (val_sl l) qs) M1" for M1
    using Cons.IH[of "ps @ [p]" n' M1] Cons.prems n by simp
  then have "mark_ready n' (first_of qs None) l = mark_all (map (val_sl l) qs)" by (rule ext)
  then show ?case using n(1) sl.get_ok[OF Cons.prems(1,2)] sl.step_ok[OF Cons.prems(1,2)] by simp
qed simp

lemma mark_ready_all: "wf_sl l \<Longrightarrow> mark_ready (num_entries l) (begin_list l) l M = mark_all (vals_sl l) M"
  using mark_ready_from[of l "[]" "handles_sl l" "num_entries l" M] sl.handles_bound[of l] by (simp add: begin_first vals_sl_def)

lemma rbind_try_dispatch:
  "rbind (try_dispatch S v (ns, ports, M)) g = rbind (the_op v M) (\<lambda>(a, u). rbind (may_dispatch S a M) (\<lambda>go. if \<not> go then g None
     else rbind (the_class u) (\<lambda>op. rbind (get_latency S op) (\<lambda>lat. if ports - count_rd_ports op < 0 then g None
       else g (Some (rbind (dispatch S a M) (\<lambda>M1. Inr (ns + 1, ports - count_rd_ports op, M1))))))))"
  by (auto simp: try_dispatch_def rbind_def split: sum.splits prod.splits)

lemma sched_stop_iff: "sched_stop num (ns, ports, M) \<longleftrightarrow> \<not> (ns \<le> num \<and> 0 \<le> ports)"
  by (simp add: sched_stop_def)

lemma sched_loop_scan:
  "sched_loop S num n it (l, ns, ports, M) = scan (sched_stop num) (try_dispatch S) deref_list erase_list next_list n it l (ns, ports, M)"
proof (induction n arbitrary: it l ns ports M)
  case (Suc n)
  show ?case
    by (cases it) (simp_all add: Suc rbind_try_dispatch sched_stop_iff rbind_assoc cong: if_cong)
qed (case_tac it; simp add: sched_stop_iff)

section \<open>A whole pass\<close>

lemma pick_dispatches:
  assumes "pick (sched_stop num) (try_dispatch S) vs (0, ports, M) = Inr (ks, ts, ns, ports1, M1)"
  shows "ns = int (length ts)" "ns \<le> max 0 (num + 1)" "dispatch_all S ts M = Inr M1"
proof -
  let ?P = "\<lambda>xs (ns, p, M'). ns = int (length xs) \<and> ns \<le> max 0 (num + 1) \<and> dispatch_all S xs M = Inr M'"
  have "?P ([] @ ts) (ns, ports1, M1)"
  proof (rule pick_induct[OF assms])
    fix xs v s s1
    assume "?P xs s" "\<not> sched_stop num s" "try_dispatch S v s = Inr (Some (Inr s1))"
    then show "?P (xs @ [v]) s1"
      by (cases s) (auto simp: sched_stop_def try_dispatch_def rbind_Inr_iff dispatch_all_append split: if_splits)
  qed simp
  then show "ns = int (length ts)" "ns \<le> max 0 (num + 1)" "dispatch_all S ts M = Inr M1" by simp_all
qed

lemma ooo_sched_list:
  assumes "get_station i (stations M) = Inr l" "wf_sl l"
  shows "case rbind (mark_all (vals_sl l) M) (\<lambda>M1. pick (sched_stop num) (try_dispatch S) (vals_sl l) (0, ports, M1)) of
      Inl e \<Rightarrow> ooo_sched S i num (cnt, ports, M) = Inl e
    | Inr (ks, ts, ns, ports1, M2) \<Rightarrow> \<exists>l'. ooo_sched S i num (cnt, ports, M) = Inr (cnt + ns, ports1, put_station i l' M2)
        \<and> wf_sl l' \<and> num_entries l' = num_entries l \<and> vals_sl l' = ks"
proof (cases "mark_all (vals_sl l) M")
  case (Inr M1)
  then show ?thesis
    using scan_sl[OF assms(2), of "sched_stop num" "try_dispatch S" "(0, ports, M1)"] assms
    by (auto simp: ooo_sched_def Let_def mark_ready_all sched_loop_scan split: sum.splits)
qed (use assms in \<open>simp add: ooo_sched_def Let_def mark_ready_all\<close>)

text \<open>
  C30. The out-of-order scheduler of a reservation station dispatches oldest first.  On a station whose list is well-formed,
  both passes of the loop (the one that notes which operations are ready and the one that dispatches) do exactly what they
  would do on the list of the station's operations in age order, errors included: from the oldest on, an operation that is
  ready, has waited its latency and whose read ports are left is erased and executed, any other is stepped over, until the
  count has passed the bound or the ports are gone.  The operations that stay and those dispatched are both in age order and
  together are all there were; no more than one above the bound are dispatched; and the machine is the one that
  dispatching them one after the other gives.
\<close>

theorem station_scan_oldest_first:
  assumes "get_station i (stations M) = Inr l" "wf_sl l"
  shows "case rbind (mark_all (vals_sl l) M) (\<lambda>M1. pick (sched_stop num) (try_dispatch S) (vals_sl l) (0, ports, M1)) of
      Inl e \<Rightarrow> ooo_sched S i num (cnt, ports, M) = Inl e
    | Inr (ks, ts, ns, ports1, M2) \<Rightarrow> \<exists>l' M1. ooo_sched S i num (cnt, ports, M) = Inr (cnt + ns, ports1, put_station i l' M2)
        \<and> wf_sl l' \<and> num_entries l' = num_entries l \<and> vals_sl l' = ks
        \<and> subseq ts (vals_sl l) \<and> subseq ks (vals_sl l) \<and> mset ks + mset ts = mset (vals_sl l)
        \<and> ns = int (length ts) \<and> ns \<le> max 0 (num + 1)
        \<and> mark_all (vals_sl l) M = Inr M1 \<and> dispatch_all S ts M1 = Inr M2"
proof (cases "rbind (mark_all (vals_sl l) M) (\<lambda>M1. pick (sched_stop num) (try_dispatch S) (vals_sl l) (0, ports, M1))")
  case (Inl e)
  then show ?thesis using ooo_sched_list[OF assms, where S = S and num = num and ports = ports and cnt = cnt] by simp
next
  case (Inr x)
  then obtain ks ts ns ports1 M1 M2 where x: "x = (ks, ts, ns, ports1, M2)" "mark_all (vals_sl l) M = Inr M1"
    "pick (sched_stop num) (try_dispatch S) (vals_sl l) (0, ports, M1) = Inr (ks, ts, ns, ports1, M2)"
    by (cases x) (auto simp: rbind_Inr_iff)
  then show ?thesis
    using ooo_sched_list[OF assms, where S = S and num = num and ports = ports and cnt = cnt] pick_splits[OF x(3)] pick_dispatches[OF x(3)] by auto
qed

text \<open>A station of two operations whose older one waits for register 0.\<close>

definition sample_op_of :: "mips_op \<Rightarrow> mips_meta_op" where
  "sample_op_of op = (new_meta_op 0 0 0 0 0 False False)\<lparr>mop := Some op, src := (\<lambda>_. 0)\<rparr>"

definition sample_station :: "nat sim_list \<Rightarrow> sim_state" where
  "sample_station l = (new_machine (new_mem 0) [])\<lparr>stations := \<lparr>alu_rs = [l], fpu_rs = [], jmp_rs = new_sim_list 16, load_rs = [],
     store_rs = [], system_rs = new_sim_list 16\<rparr>, rf := (\<lambda>k. new_regs (num_regs k) 64), curr := 5,
     ops := [8 \<mapsto> sample_op_of Itype_alu, 9 \<mapsto> sample_op_of Sync_op]\<rparr>"

lemma sample_waits:
  assumes "ops M 8 = Some (sample_op_of Itype_alu)" "valid (rf M GPR) = new_bitvec 64"
  shows "ready_of 8 M = Inr False"
proof -
  have "bv_get (new_bitvec 64) 0 = Inr False" by code_simp
  then show ?thesis
    using assms by (simp add: ready_of_def op_at_def the_class_def itype_ready_def opt_def sample_op_of_def)
qed

lemma sample_goes:
  assumes "ops M 9 = Some u" "mop u = Some Sync_op"
  shows "ready_of 9 M = Inr True" "dispatch S 9 M = Inr (put_op 9 (u\<lparr>complete_cycle := curr M + 1, dispatch_cycle := curr M\<rparr>) M)"
  using assms by (simp_all add: ready_of_def op_at_def the_class_def dispatch_def call_op_def put_op_def sync_execute_def finish_in_def)

lemma sample_scan:
  fixes l
  defines "M \<equiv> sample_station l"
  obtains M1 M2 where "mark_all [Some 8, Some 9] M = Inr M1"
    "pick (sched_stop 1) (try_dispatch (default_param sample_params h)) [Some 8, Some 9] (0, 64, M1) = Inr ([Some 8], [Some 9], 1, 64, M2)"
    "stations M2 = stations M"
proof -
  let ?u = "sample_op_of Sync_op"
  have M: "ops M 8 = Some (sample_op_of Itype_alu)" "ops M 9 = Some ?u" "valid (rf M GPR) = new_bitvec 64" "curr M = 5"
    by (simp_all add: M_def sample_station_def new_regs_def)
  have u: "mop ?u = Some Sync_op" "ready_cycle ?u = -1" by (simp_all add: sample_op_of_def new_meta_op_def)
  define M1 where "M1 = count (\<lambda>c. c\<lparr>total_ready_insns := total_ready_insns c + 1\<rparr>) (put_op 9 (?u\<lparr>ready_cycle := 5\<rparr>) M)"
  have M1: "ops M1 8 = Some (sample_op_of Itype_alu)" "ops M1 9 = Some (?u\<lparr>ready_cycle := 5\<rparr>)" "valid (rf M1 GPR) = new_bitvec 64"
    "curr M1 = 5" "stations M1 = stations M"
    using M by (simp_all add: M1_def put_op_def count_def)
  have n: "note_ready (Some 8) M = Inr M" "note_ready (Some 9) M = Inr M1"
    using sample_waits[OF M(1,3)] sample_goes(1)[OF M(2) u(1)] M u(2) by (simp_all add: note_ready_def the_op_def op_at_def M1_def)
  have p: "the_op (Some 8) M1 = Inr (8, sample_op_of Itype_alu)" "the_op (Some 9) M1 = Inr (9, ?u\<lparr>ready_cycle := 5\<rparr>)"
    "op_at 8 M1 = Inr (sample_op_of Itype_alu)" "op_at 9 M1 = Inr (?u\<lparr>ready_cycle := 5\<rparr>)"
    using M1 by (simp_all add: the_op_def op_at_def)
  have u1: "mop (?u\<lparr>ready_cycle := 5\<rparr>) = Some Sync_op" using u(1) by simp
  show thesis
    by (rule that[of M1 "put_op 9 (?u\<lparr>ready_cycle := 5, complete_cycle := 6, dispatch_cycle := 5\<rparr>) M1"])
      (use n p u1 sample_waits[OF M1(1,3)] sample_goes[OF M1(2) u1] M1(4,5)
        in \<open>simp_all add: try_dispatch_def sched_stop_def may_dispatch_def the_class_def default_param_def put_op_def\<close>)
qed

theorem station_scan_oldest_first_witness:
  "\<exists>l l' x. rbind (push_list (Some 8) (new_sim_list 4)) (push_list (Some 9)) = Inr l \<and>
     ooo_sched (default_param sample_params (\<lambda>h w. h)) (Alu_rs 0) 1 (0, 64, sample_station l) = Inr x \<and>
     fst x = 1 \<and> get_station (Alu_rs 0) (stations (snd (snd x))) = Inr l' \<and> vals_sl l' = [Some 8]"
proof -
  let ?S = "default_param sample_params (\<lambda>h w. h)"
  have c0: "chain (new_sim_list 4) ([0,1,2] @ [3]) []"
    using chain_new[of 4] by (simp add: numeral_eq_Suc upt_conv_Cons)
  obtain l1 where l1: "push_list (Some 8) (new_sim_list 4) = Inr l1" "chain l1 ([0,1] @ [2]) [3]" "val_sl l1 3 = Some (8::nat)"
    using chain_push[OF c0, of "Some (8::nat)"] by auto
  obtain l where l: "push_list (Some 9) l1 = Inr l" "chain l [0,1] [3,2]" "val_sl l 2 = Some 9" "val_sl l 3 = Some 8"
    using chain_push[OF l1(2), of "Some 9"] l1(3) by auto
  have w: "wf_sl l" "vals_sl l = [Some 8, Some 9]" using chain_handles[OF l(2)] l by (simp_all add: vals_sl_def)
  have g: "get_station (Alu_rs 0) (stations (sample_station l)) = Inr l" by (simp add: sample_station_def vec_at_def nth_res_def)
  obtain M1 M2 where m: "mark_all [Some 8, Some 9] (sample_station l) = Inr M1"
    "pick (sched_stop 1) (try_dispatch ?S) [Some 8, Some 9] (0, 64, M1) = Inr ([Some 8], [Some 9], 1, 64, M2)"
    "stations M2 = stations (sample_station l)" by (rule sample_scan)
  have s: "get_station (Alu_rs 0) (stations (put_station (Alu_rs 0) l' M2)) = Inr l'" for l'
    unfolding put_station_def using m(3) by (simp add: sample_station_def vec_at_def)
  have r: "rbind (mark_all [Some 8, Some 9] (sample_station l)) (\<lambda>M1. pick (sched_stop 1) (try_dispatch ?S) [Some 8, Some 9] (0, 64, M1))
      = Inr ([Some 8], [Some 9], 1, 64, M2)" unfolding m(1) rbind_simps by (rule m(2))
  from station_scan_oldest_first[OF g w(1), where S = ?S and num = 1 and cnt = 0 and ports = 64, unfolded w(2) r sum.case prod.case]
  obtain l' where l': "ooo_sched ?S (Alu_rs 0) 1 (0, 64, sample_station l) = Inr (0 + 1, 64, put_station (Alu_rs 0) l' M2)" "vals_sl l' = [Some 8]"
    by blast
  show ?thesis using l1(1) l(1) l' s[of l'] by (intro exI[of _ l] exI[of _ l']) auto
qed

end
