(* ===== verification/Spec2Isabelle.thy ===== *)
theory Spec2Isabelle
  imports Bitvec Queue Stack Cache_Proofs Mem_Proofs Interp_Proofs Predictor_Proofs Reg_Proofs Core_Restart Op_Float Oracle_Proofs Gthread Simulator Trace_Proofs Sched_Proofs
begin

text \<open>
  A model of the out-of-order MIPS simulator of this repository (\<^verbatim>\<open>sim_ooo/\<close>).  The program runs a
  MIPS binary twice: an interpreter executes it instruction by instruction (\<^verbatim>\<open>interpret.cc\<close>), and a
  cycle-level core fetches, renames, schedules, executes and retires it out of order
  (\<^verbatim>\<open>ooo_core.cc\<close>, \<^verbatim>\<open>mips_op.cc\<close>).  When checking is on, the state of the core is compared with the
  interpreter's as instructions retire.  Both read and write a sparse target memory; the core has a
  model of its data caches and predictors of branches.

  Data.  Machine integers are words of their width and sizes of containers are natural numbers.  A
  statement of the code that may fail is a value of the sum \<open>error + 'a\<close> of \<open>Prelude\<close>:
  \<open>AssertFail\<close> for an assertion, \<open>Die\<close> for \<open>die()\<close>, \<open>Exit\<close> for a call of \<open>exit\<close>, \<open>Trap\<close> for a trap of
  the host's division, \<open>Undefined\<close> for behaviour that C++ leaves undefined (an access out of bounds
  or after a free, a shift by the width), and \<open>OutOfFuel\<close> for a loop with a bound.  Objects on a heap
  are addresses into an explicit store, so that aliasing is as in the code.  Floating-point
  arithmetic, the operating system, the hash of the branch history and the random numbers of the
  caches are the host's; they are parameters (records \<open>fpu\<close>, \<open>host_os\<close>, \<open>env\<close>, \<open>bp_params\<close>).

  Containers.  \<open>Free_List\<close> is the interface of a list of free numbers, kept by the bit vectors of
  \<open>Bitvec\<close> (\<^verbatim>\<open>sim_bitvec.hh\<close>).  \<open>Fifo\<close> is the interface of a bounded queue; \<open>Queue\<close> (\<^verbatim>\<open>sim_queue.hh\<close>)
  provides it and refines lists.  \<open>Stack\<close> is the return stack (\<^verbatim>\<open>sim_stack.hh\<close>).  \<open>Doubly_Linked\<close> has
  the heap of linked nodes that \<open>Sim_List\<close> (\<^verbatim>\<open>sim_list.hh\<close>, the reservation stations) and \<open>My_List\<close>
  (\<open>mylist\<close> of \<^verbatim>\<open>sim_cache.hh\<close>) share, with the invariant that a chain is a list.  The locale \<open>station\<close>
  of \<open>Sim_List\<close> is the interface of a loop that walks such a list and erases entries on the way; the
  scheduler and the queue of misses of the caches are its two uses.

  Caches.  \<open>Cache\<close> has the levels of \<^verbatim>\<open>sim_cache.cc\<close>: the address split, the classes of replacement, the
  walk down the levels, the accesses in flight and their completion.  \<open>Cache_Proofs\<close> shows that a set
  is a stack of recently used lines, the inclusion of small caches in large ones, what an access
  does at each level, that an access completes in the cycle it is due, and that no access, whatever
  its address, leaves the caches ill formed (\<open>wf_caches\<close>), which the execution of loads and stores uses.

  Memory and interpreter.  \<open>Sparse_Mem\<close> (\<^verbatim>\<open>sparse_mem.hh\<close>, \<^verbatim>\<open>sparse_mem.cc\<close>) with \<open>Mem_Proofs\<close>; \<open>Mips\<close>
  (\<^verbatim>\<open>mips.hh\<close>, fields and classes of instructions); \<open>Arch_State\<close> (\<^verbatim>\<open>state.hh\<close>); \<open>Interp_Mem\<close>,
  \<open>Interp_Fp\<close>, \<open>Monitor\<close> and \<open>Interp\<close> (\<^verbatim>\<open>interpret.cc\<close>), with \<open>execMips\<close> the step.  \<open>Interp_Mem_Proofs\<close>
  and \<open>Interp_Proofs\<close> show round trips of loads and stores, branches with their delay slots, the
  arithmetic with its traps, and the errors.

  Core, data.  \<open>Predictors\<close> (\<^verbatim>\<open>branch_predictor.cc\<close>, \<^verbatim>\<open>counter2b.hh\<close>, \<^verbatim>\<open>loop_predictor.cc\<close>,
  \<^verbatim>\<open>perceptron.cc\<close>) with \<open>Predictor_Proofs\<close>.  \<open>Reg_File\<close> has the renaming tables of
  \<^verbatim>\<open>machine_state.hh\<close> with their invariant, \<open>Reg_Proofs\<close> shows it for every reachable state.
  \<open>Machine\<close> is the state of the core and the descriptor of an instruction in flight; \<open>Op_Int\<close>,
  \<open>Op_Branch\<close>, \<open>Op_Mem\<close>, \<open>Op_Fp\<close> and \<open>Op_Sys\<close> are the methods of the classes of operations in
  \<^verbatim>\<open>mips_op.cc\<close>, and \<open>Decode\<close> its decoder and the dispatch on the class.

  Core, stages (\<^verbatim>\<open>ooo_core.cc\<close>).  \<open>Core_Init\<close> makes the machine.  \<open>Core_Stages\<close> has fetch, decode and
  allocation, \<open>Core_Exec\<close> the scheduling, execution and completion, \<open>Core_Retire\<close> the retire stage as
  a thread that resumes where it yielded, the restart after an exception, a round of all stages and
  the run.  \<open>Core_Oracle\<close> is fetch with the branch oracle.  \<open>Sched_Proofs\<close> shows that the scheduler
  \<open>ooo_sched\<close> is one pass over the list of waiting operations from the oldest: each is dispatched when
  it is ready and a port is left, and the others stay in their order.

  What the core guarantees.  \<open>Op_Rename\<close> and \<open>Op_Allocate\<close>: every class of operation claims fresh
  registers and keeps the invariant of renaming.  \<open>Op_Refine\<close>, \<open>Op_Refine_Special\<close>,
  \<open>Rename_Properties\<close>, \<open>Op_Control\<close>, \<open>Op_Memory\<close> and \<open>Op_Float\<close>: an instruction that is decoded,
  allocated and executed has the effect the interpreter gives it, through the mapping; a branch or
  jump finds the interpreter's next address, a load and a store the interpreter's memory.  \<open>Op_Types\<close>:
  execution stays inside the register files and keeps the invariants of core and caches, whether or
  not caches are attached.  \<open>Op_Commit\<close>, \<open>Op_Pipeline\<close> and \<open>Pipeline_Properties\<close>:
  retirement commits the renamings of the oldest instruction, a rollback undoes an allocation (the
  mapping, the free lists and the tables of loads and stores are those from before), and an
  instruction that passes through the idle core leaves it in agreement with the interpreter.
  \<open>Core_Init_Proofs\<close>: the core starts at the interpreter's state.  \<open>Core_Restart\<close>: a restart leaves an
  idle core with the retired mapping.  \<open>Oracle_Proofs\<close>: in oracle mode fetch follows the interpreter.

  Around the core.  \<open>Gthread\<close> has the list of cooperative threads (\<^verbatim>\<open>gthread.hh\<close>, \<^verbatim>\<open>gthread.cc\<close>) and
  shows that they take turns; the order it gives is the order of the stages in a cycle.  \<open>Loader\<close>
  (\<^verbatim>\<open>loadelf.cc\<close>, \<^verbatim>\<open>saveState.cc\<close>) reads program images and snapshots.  \<open>Simulator\<close> (\<^verbatim>\<open>main.cc\<close>,
  \<^verbatim>\<open>sim_parameters.hh\<close>) checks and scales the options, builds the caches and the machine and runs.
  \<open>Disassemble\<close> (\<^verbatim>\<open>disassemble.cc\<close>) and \<open>Trace\<close> (\<^verbatim>\<open>pipeline_record.hh\<close>, \<^verbatim>\<open>gen_html.cc\<close>) have the log
  of retired instructions and its conversion; \<open>Trace_Proofs\<close> has a reader of
  the printed text and shows that, read line by line, the log of a run gives back the lines of
  every selected record, each at its own cycle (the line of a stage names ten times the number of its
  instruction, which \<open>stage_line_names_other_id\<close> records).

  Bounds.  The interpreter recurses into a delay slot; \<open>execMips\<close> takes the depth as fuel, and depth
  two is enough unless a branch sits in a delay slot (\<open>slot_depth_two\<close>).  The loop of \<open>per_page_rdwr\<close>
  ends after one round for each page, which \<open>rdwr_fuel\<close> counts.  Walks of a linked list, of a
  reservation station and of the list of threads are bounded by the number of nodes; a stage of the
  core by its bandwidth, as each round handles an instruction, or by the size of the queue it walks.
  The runs of the interpreter and of the core need not end; their fuel is the number of steps or
  cycles the theorem speaks of.

  What the theorems leave open.  The comparisons of the core with the interpreter name the cases they
  exclude as predicates, which are where the two programs differ.  \<open>exact_op\<close> leaves
  out add, sub, addi and maddu (at which the core stops), teq, a destination $0 in
  the classes that compute into a register (except nop itself; the interpreter writes its register 0), and
  a division by zero.  \<open>exact_fp\<close> leaves out recip and rsqrt, the double moves from the preceding
  register, and abs of a negative zero or a NaN.  \<open>total_fpu\<close> asks that the host's conversions of
  floating-point numbers to integers give a value, which C++ grants
  for values in the range of the integer only.  \<open>scale_fits\<close> asks
  that the option \<^verbatim>\<open>--scale\<close>, which the program does not check, is positive and makes no size overflow.  \<open>wf_caches\<close> asks
  for an associativity of at least two.  \<open>counters_learn\<close> is about gshare and gnoalias only; it
  fails for bimode.  \<open>retire_commits\<close> is not about the monitor call, whose \<open>retire\<close> is
  modelled in \<open>Op_Sys\<close>; \<open>restart_recovers_core\<close> is about the restart that takes no cycles; a double
  store is compared with the interpreter only where the eight bytes the code reads at each register
  are inside the file; \<open>oracle_fetches_stream\<close> takes the code to be present in memory and no branch
  to sit in a delay slot.

  Not modelled: the switch of stacks, which is assembly; the libraries that parse the command line,
  disassemble, and archive the log (parameters where the code depends on their results); signals and
  messages on the terminal; statistics; the counters of the write ports, which nothing reads; the
  classes of the unfinished \<open>tage\<close> predictor, which nothing constructs; the small benchmark programs
  of \<^verbatim>\<open>ubench/\<close>, which run on the simulator and are not part of it.
\<close>

end
